(* ===== verification/Prelude.thy ===== *)
theory Prelude
  imports Main "HOL-Library.Word"
begin

text \<open>
  Vocabulary shared by the components: the fixed-width integer types of
  \<^verbatim>\<open>include/linux/types.h\<close>, the error numbers the code returns, the collections of
  rewrite rules the component proofs use, and generic lemmas on words and lists.
\<close>

unbundle bit_operations_syntax

section \<open>Machine integers\<close>

type_synonym u8 = "8 word"
type_synonym u16 = "16 word"
type_synonym u32 = "32 word"
type_synonym u64 = "64 word"

section \<open>Error numbers\<close>

text \<open>The negative error numbers returned by the components (\<^verbatim>\<open>errno.h\<close>).\<close>

abbreviation (input) ENOENT :: int where "ENOENT \<equiv> 2"
abbreviation (input) ENXIO :: int where "ENXIO \<equiv> 6"
abbreviation (input) ENOMEM :: int where "ENOMEM \<equiv> 12"
abbreviation (input) EEXIST :: int where "EEXIST \<equiv> 17"
abbreviation (input) EINVAL :: int where "EINVAL \<equiv> 22"
abbreviation (input) ENOSPC :: int where "ENOSPC \<equiv> 28"

section \<open>How a call ends\<close>

text \<open>
  A C function returns, or ends the process (\<^verbatim>\<open>die\<close>, \<^verbatim>\<open>die_perror\<close>), or does something the
  language leaves undefined: dereferences NULL or a freed object, or reads or writes outside an
  array. Each is a value, so that the absence of the last two is a theorem.
\<close>

datatype 'a outcome = Ret 'a | Dies | Undefined

fun bind_outcome :: "'a outcome \<Rightarrow> ('a \<Rightarrow> 'b outcome) \<Rightarrow> 'b outcome" where
  "bind_outcome (Ret x) f = f x"
| "bind_outcome Dies f = Dies"
| "bind_outcome Undefined f = Undefined"

lemma bind_outcome_Ret: "bind_outcome m f = Ret y \<longleftrightarrow> (\<exists>x. m = Ret x \<and> f x = Ret y)"
  by (cases m) auto

lemma bind_outcome_assoc: "bind_outcome (bind_outcome m f) g = bind_outcome m (\<lambda>x. bind_outcome (f x) g)"
  by (cases m) auto

section \<open>Collections\<close>

named_theorems op_defs "definitions of the operations of a component, for unfolding"
named_theorems frame_simps "what an operation leaves unchanged"

section \<open>Options and lists\<close>

lemma option_eqI: "(\<And>y. a = Some y \<longleftrightarrow> b = Some y) \<Longrightarrow> a = b"
  by (cases a; cases b) auto

lemma distinct_split:
  "distinct (xs @ x # ys) \<Longrightarrow> xs @ x # ys = xs' @ x # ys' \<Longrightarrow> xs = xs' \<and> ys = ys'"
  using append_Cons_eq_iff [of x xs ys xs' ys'] by (metis distinct.simps(2) distinct_append not_distinct_conv_prefix)

lemma sorted_wrt_insert:
  "sorted_wrt R (xs @ ys) \<Longrightarrow> \<forall>y \<in> set xs. R y x \<Longrightarrow> \<forall>y \<in> set ys. R x y \<Longrightarrow>
   sorted_wrt R (xs @ x # ys)"
  by (auto simp: sorted_wrt_append)

lemma sorted_wrt_remove: "sorted_wrt R (xs @ x # ys) \<Longrightarrow> sorted_wrt R (xs @ ys)"
  by (auto simp: sorted_wrt_append)

lemma unat_ucast_up:
  "LENGTH('a) \<le> LENGTH('b) \<Longrightarrow> unat (ucast (w :: 'a :: len word) :: 'b :: len word) = unat w"
  by (metis is_up source_size target_size uint_up_ucast unat_eq_nat_uint word_size)

end
