(* ===== verification/RBTree.thy ===== *)
theory RBTree
  imports Prelude
begin

text \<open>
  The red-black tree of \<^verbatim>\<open>util/rbtree.c\<close>, \<^verbatim>\<open>include/linux/rbtree.h\<close> and
  \<^verbatim>\<open>include/linux/rbtree_augmented.h\<close>, which the device registry, the port and memory
  dispatchers and the image caches are built on.

  A node is an algebraic tree. A pointer into the tree (\<^verbatim>\<open>struct rb_node *\<close>) is the subtree it
  points to together with the chain of its ancestors: the \<^verbatim>\<open>__rb_parent_color\<close> chain that the C
  code climbs with \<^verbatim>\<open>rb_parent\<close> is a list of frames, innermost first, each frame holding the
  ancestor's colour, its entry and the sibling subtree. A NULL pointer that the code would
  dereference is the result \<open>None\<close>, so that "no NULL is dereferenced" is a theorem. The augmented
  callbacks are the dummy ones of \<^verbatim>\<open>rb_insert_color\<close> and \<^verbatim>\<open>rb_erase\<close>.

  Definitions come first, then the invariants and what each operation does to the
  entries in order; the locales \<open>rb_ordered\<close> and \<open>rb_keyed\<close> are the interface the clients use:
  any descent that compares a key with the entries, and insertion by such a descent.
\<close>

section \<open>Nodes, ancestors and colours\<close>

datatype rb_color = RB_RED | RB_BLACK

datatype 'a rb_node =
    RBNull
  | RBNode rb_color "'a rb_node" 'a "'a rb_node"

datatype 'a rb_frame =
    InLeft rb_color 'a "'a rb_node"
  | InRight rb_color "'a rb_node" 'a

type_synonym 'a rb_path = "'a rb_frame list"

fun rb_is_red :: "'a rb_node \<Rightarrow> bool" where
  "rb_is_red RBNull = False"
| "rb_is_red (RBNode c l x r) = (c = RB_RED)"

text \<open>\<^verbatim>\<open>rb_set_parent_color\<close> and \<^verbatim>\<open>rb_set_black\<close>: the colour part; a NULL child is guarded in the code.\<close>

fun rb_paint :: "rb_color \<Rightarrow> 'a rb_node \<Rightarrow> 'a rb_node" where
  "rb_paint c RBNull = RBNull"
| "rb_paint c (RBNode c' l x r) = RBNode c l x r"

fun frame_color :: "'a rb_frame \<Rightarrow> rb_color" where
  "frame_color (InLeft c x r) = c"
| "frame_color (InRight c l x) = c"

text \<open>The node of a frame with its missing child put back, and the whole tree from a position.\<close>

fun rb_fill :: "'a rb_frame \<Rightarrow> 'a rb_node \<Rightarrow> 'a rb_node" where
  "rb_fill (InLeft c x r) n = RBNode c n x r"
| "rb_fill (InRight c l x) n = RBNode c l x n"

fun rb_plug :: "'a rb_path \<Rightarrow> 'a rb_node \<Rightarrow> 'a rb_node" where
  "rb_plug [] n = n"
| "rb_plug (f # p) n = rb_plug p (rb_fill f n)"

section \<open>Insertion\<close>

text \<open>
  \<^verbatim>\<open>__rb_insert\<close>: the loop over (node, parent). \<open>f\<close> is the parent, \<open>g\<close> the grandparent. A red
  parent with no grandparent is the NULL dereference of \<^verbatim>\<open>gparent->rb_right\<close>.
\<close>

fun rb_insert_loop :: "'a rb_path \<Rightarrow> 'a rb_node \<Rightarrow> 'a rb_node option" where
  "rb_insert_loop [] n = Some (rb_paint RB_BLACK n)"
| "rb_insert_loop (f # []) n =
     (if frame_color f = RB_BLACK then Some (rb_plug [f] n) else None)"
| "rb_insert_loop (f # g # p) n =
     (if frame_color f = RB_BLACK then Some (rb_plug (f # g # p) n)
      else case g of
        InLeft gc gx u \<Rightarrow>
          if rb_is_red u
          then rb_insert_loop p (RBNode RB_RED (rb_paint RB_BLACK (rb_fill f n)) gx (rb_paint RB_BLACK u))
          else (case f of
              InRight pc pl px \<Rightarrow>
                (case n of
                  RBNull \<Rightarrow> None
                | RBNode nc nl nx nr \<Rightarrow>
                    Some (rb_plug p (RBNode gc (RBNode RB_RED pl px (rb_paint RB_BLACK nl)) nx
                                               (RBNode RB_RED (rb_paint RB_BLACK nr) gx u))))
            | InLeft pc px pr \<Rightarrow>
                Some (rb_plug p (RBNode gc n px (RBNode RB_RED (rb_paint RB_BLACK pr) gx u))))
      | InRight gc u gx \<Rightarrow>
          if rb_is_red u
          then rb_insert_loop p (RBNode RB_RED (rb_paint RB_BLACK u) gx (rb_paint RB_BLACK (rb_fill f n)))
          else (case f of
              InLeft pc px pr \<Rightarrow>
                (case n of
                  RBNull \<Rightarrow> None
                | RBNode nc nl nx nr \<Rightarrow>
                    Some (rb_plug p (RBNode gc (RBNode RB_RED u gx (rb_paint RB_BLACK nl)) nx
                                               (RBNode RB_RED (rb_paint RB_BLACK nr) px pr))))
            | InRight pc pl px \<Rightarrow>
                Some (rb_plug p (RBNode gc (RBNode RB_RED u gx (rb_paint RB_BLACK pl)) px n))))"

definition rb_link_node :: "'a \<Rightarrow> 'a rb_node" where
  "rb_link_node x = RBNode RB_RED RBNull x RBNull"

definition rb_insert_color :: "'a rb_path \<Rightarrow> 'a rb_node \<Rightarrow> 'a rb_node option" where
  "rb_insert_color p n = rb_insert_loop p n"

section \<open>Removal\<close>

text \<open>
  One iteration of \<^verbatim>\<open>____rb_erase_color\<close> below a black sibling (cases 2, 3 and 4), for the node
  on the left of its parent and, mirrored, on its right. The flag says that the code goes on
  at the parent (\<^verbatim>\<open>continue\<close>).
\<close>

fun rb_erase_left :: "'a rb_node \<Rightarrow> rb_color \<Rightarrow> 'a \<Rightarrow> 'a rb_node \<Rightarrow> ('a rb_node \<times> bool) option" where
  "rb_erase_left n pc px RBNull = None"
| "rb_erase_left n pc px (RBNode sc sl sx sr) =
     (if \<not> rb_is_red sr then
        (case sl of
          RBNode RB_RED a y b \<Rightarrow>
            Some (RBNode pc (RBNode RB_BLACK n px a) y (RBNode RB_BLACK (rb_paint RB_BLACK b) sx sr), False)
        | _ \<Rightarrow>
            (if pc = RB_RED then Some (RBNode RB_BLACK n px (RBNode RB_RED sl sx sr), False)
             else Some (RBNode pc n px (RBNode RB_RED sl sx sr), True)))
      else Some (RBNode pc (RBNode RB_BLACK n px sl) sx (rb_paint RB_BLACK sr), False))"

fun rb_erase_right :: "'a rb_node \<Rightarrow> 'a \<Rightarrow> rb_color \<Rightarrow> 'a rb_node \<Rightarrow> ('a rb_node \<times> bool) option" where
  "rb_erase_right RBNull px pc n = None"
| "rb_erase_right (RBNode sc sl sx sr) px pc n =
     (if \<not> rb_is_red sl then
        (case sr of
          RBNode RB_RED a y b \<Rightarrow>
            Some (RBNode pc (RBNode RB_BLACK sl sx (rb_paint RB_BLACK a)) y (RBNode RB_BLACK b px n), False)
        | _ \<Rightarrow>
            (if pc = RB_RED then Some (RBNode RB_BLACK (RBNode RB_RED sl sx sr) px n, False)
             else Some (RBNode pc (RBNode RB_RED sl sx sr) px n, True)))
      else Some (RBNode pc (rb_paint RB_BLACK sl) sx (RBNode RB_BLACK sr px n), False))"

text \<open>
  The loop of \<^verbatim>\<open>____rb_erase_color\<close>. With a red sibling (case 1) the parent turns red and moves
  below the sibling, so the iteration ends there whatever case follows.
\<close>

fun rb_erase_color :: "'a rb_path \<Rightarrow> 'a rb_node \<Rightarrow> 'a rb_node option" where
  "rb_erase_color [] n = None"
| "rb_erase_color (InLeft pc px s # p) n =
     (case s of
        RBNode RB_RED sl sx sr \<Rightarrow>
          (if sl = RBNull then None
           else (case rb_erase_left n RB_RED px (rb_paint RB_BLACK sl) of
                   None \<Rightarrow> None
                 | Some (t, up) \<Rightarrow> Some (rb_plug p (RBNode pc t sx sr))))
      | _ \<Rightarrow>
          (case rb_erase_left n pc px s of
             None \<Rightarrow> None
           | Some (t, up) \<Rightarrow> if up \<and> p \<noteq> [] then rb_erase_color p t else Some (rb_plug p t)))"
| "rb_erase_color (InRight pc s px # p) n =
     (case s of
        RBNode RB_RED sl sx sr \<Rightarrow>
          (if sr = RBNull then None
           else (case rb_erase_right (rb_paint RB_BLACK sr) px RB_RED n of
                   None \<Rightarrow> None
                 | Some (t, up) \<Rightarrow> Some (rb_plug p (RBNode pc sl sx t))))
      | _ \<Rightarrow>
          (case rb_erase_right s px pc n of
             None \<Rightarrow> None
           | Some (t, up) \<Rightarrow> if up \<and> p \<noteq> [] then rb_erase_color p t else Some (rb_plug p t)))"

text \<open>\<^verbatim>\<open>while (node->rb_left) node = node->rb_left\<close>, from a position.\<close>

fun rb_leftmost :: "'a rb_path \<Rightarrow> 'a rb_node \<Rightarrow> 'a rb_path \<times> 'a rb_node" where
  "rb_leftmost p (RBNode c (RBNode lc ll lx lr) x r) = rb_leftmost (InLeft c x r # p) (RBNode lc ll lx lr)"
| "rb_leftmost p t = (p, t)"

text \<open>
  \<^verbatim>\<open>__rb_erase_augmented\<close>: the position left open by the removal, what is put there, and whether
  \<^verbatim>\<open>rebalance\<close> is set. In cases 2 and 3 the successor's entry takes the place of the removed one.
\<close>

fun rb_erase_augmented :: "'a rb_path \<Rightarrow> 'a rb_node \<Rightarrow> ('a rb_path \<times> 'a rb_node \<times> bool) option" where
  "rb_erase_augmented p RBNull = None"
| "rb_erase_augmented p (RBNode c l x r) =
     (if l = RBNull then
        (if r \<noteq> RBNull then Some (p, rb_paint c r, False) else Some (p, RBNull, c = RB_BLACK))
      else if r = RBNull then Some (p, rb_paint c l, False)
      else (case rb_leftmost [] r of
              (q, RBNode sc sl sx sr) \<Rightarrow>
                (let p' = q @ InRight c l sx # p in
                 if sr \<noteq> RBNull then Some (p', rb_paint RB_BLACK sr, False)
                 else Some (p', RBNull, sc = RB_BLACK))
            | (q, RBNull) \<Rightarrow> None))"

definition rb_erase :: "'a rb_path \<Rightarrow> 'a rb_node \<Rightarrow> 'a rb_node option" where
  "rb_erase p n =
     (case rb_erase_augmented p n of
        None \<Rightarrow> None
      | Some (p', t, rebalance) \<Rightarrow>
          if rebalance \<and> p' \<noteq> [] then rb_erase_color p' t else Some (rb_plug p' t))"

section \<open>Iteration\<close>

fun rb_rightmost :: "'a rb_path \<Rightarrow> 'a rb_node \<Rightarrow> 'a rb_path \<times> 'a rb_node" where
  "rb_rightmost p (RBNode c l x (RBNode rc rl rx rr)) = rb_rightmost (InRight c l x # p) (RBNode rc rl rx rr)"
| "rb_rightmost p t = (p, t)"

fun rb_first :: "'a rb_node \<Rightarrow> ('a rb_path \<times> 'a rb_node) option" where
  "rb_first RBNull = None"
| "rb_first (RBNode c l x r) = Some (rb_leftmost [] (RBNode c l x r))"

fun rb_last :: "'a rb_node \<Rightarrow> ('a rb_path \<times> 'a rb_node) option" where
  "rb_last RBNull = None"
| "rb_last (RBNode c l x r) = Some (rb_rightmost [] (RBNode c l x r))"

text \<open>The climb of \<^verbatim>\<open>rb_next\<close> (\<^verbatim>\<open>rb_prev\<close>): up while the node is a right (left) child.\<close>

fun rb_up_next :: "'a rb_path \<Rightarrow> 'a rb_node \<Rightarrow> ('a rb_path \<times> 'a rb_node) option" where
  "rb_up_next [] n = None"
| "rb_up_next (InRight c l x # p) n = rb_up_next p (RBNode c l x n)"
| "rb_up_next (InLeft c x r # p) n = Some (p, RBNode c n x r)"

fun rb_up_prev :: "'a rb_path \<Rightarrow> 'a rb_node \<Rightarrow> ('a rb_path \<times> 'a rb_node) option" where
  "rb_up_prev [] n = None"
| "rb_up_prev (InLeft c x r # p) n = rb_up_prev p (RBNode c n x r)"
| "rb_up_prev (InRight c l x # p) n = Some (p, RBNode c l x n)"

fun rb_next :: "'a rb_path \<times> 'a rb_node \<Rightarrow> ('a rb_path \<times> 'a rb_node) option" where
  "rb_next (p, RBNull) = None"
| "rb_next (p, RBNode c l x r) =
     (if r \<noteq> RBNull then Some (rb_leftmost (InRight c l x # p) r)
      else rb_up_next p (RBNode c l x r))"

fun rb_prev :: "'a rb_path \<times> 'a rb_node \<Rightarrow> ('a rb_path \<times> 'a rb_node) option" where
  "rb_prev (p, RBNull) = None"
| "rb_prev (p, RBNode c l x r) =
     (if l \<noteq> RBNull then Some (rb_rightmost (InLeft c x r # p) l)
      else rb_up_prev p (RBNode c l x r))"

fun rb_replace_node :: "'a rb_path \<times> 'a rb_node \<Rightarrow> 'a \<Rightarrow> 'a rb_node option" where
  "rb_replace_node (p, RBNull) y = None"
| "rb_replace_node (p, RBNode c l x r) y = Some (rb_plug p (RBNode c l y r))"

fun rb_left_deepest_node :: "'a rb_path \<Rightarrow> 'a rb_node \<Rightarrow> 'a rb_path \<times> 'a rb_node" where
  "rb_left_deepest_node p RBNull = (p, RBNull)"
| "rb_left_deepest_node p (RBNode c l x r) =
     (if l \<noteq> RBNull then rb_left_deepest_node (InLeft c x r # p) l
      else if r \<noteq> RBNull then rb_left_deepest_node (InRight c l x # p) r
      else (p, RBNode c l x r))"

fun rb_next_postorder :: "'a rb_path \<times> 'a rb_node \<Rightarrow> ('a rb_path \<times> 'a rb_node) option" where
  "rb_next_postorder ([], n) = None"
| "rb_next_postorder (f # p, n) =
     (if n = RBNull then None
      else case f of
          InLeft c x r \<Rightarrow>
            if r \<noteq> RBNull then Some (rb_left_deepest_node (InRight c n x # p) r)
            else Some (p, RBNode c n x r)
        | InRight c l x \<Rightarrow> Some (p, RBNode c l x n))"

fun rb_first_postorder :: "'a rb_node \<Rightarrow> ('a rb_path \<times> 'a rb_node) option" where
  "rb_first_postorder RBNull = None"
| "rb_first_postorder (RBNode c l x r) = Some (rb_left_deepest_node [] (RBNode c l x r))"

section \<open>Descents\<close>

text \<open>
  The \<^verbatim>\<open>while (node)\<close> loops of the clients differ in the comparison only: each client gives the
  direction to take at an entry. A descent ends at the entry it looked for or at the NULL link
  where the new node goes.
\<close>

datatype rb_dir = GoLeft | GoRight | Here

fun rb_descend :: "('a \<Rightarrow> rb_dir) \<Rightarrow> 'a rb_path \<Rightarrow> 'a rb_node \<Rightarrow> 'a rb_path \<times> 'a rb_node" where
  "rb_descend d p RBNull = (p, RBNull)"
| "rb_descend d p (RBNode c l x r) =
     (case d x of
        GoLeft \<Rightarrow> rb_descend d (InLeft c x r # p) l
      | GoRight \<Rightarrow> rb_descend d (InRight c l x # p) r
      | Here \<Rightarrow> (p, RBNode c l x r))"

fun rb_entry :: "'a rb_node \<Rightarrow> 'a option" where
  "rb_entry RBNull = None"
| "rb_entry (RBNode c l x r) = Some x"

definition rb_search :: "('a \<Rightarrow> rb_dir) \<Rightarrow> 'a rb_node \<Rightarrow> 'a option" where
  "rb_search d t = rb_entry (snd (rb_descend d [] t))"

datatype 'a rb_insert_result = Inserted "'a rb_node" | Occupied 'a | Crashed

definition rb_insert_by :: "('a \<Rightarrow> rb_dir) \<Rightarrow> 'a \<Rightarrow> 'a rb_node \<Rightarrow> 'a rb_insert_result" where
  "rb_insert_by d x t =
     (case rb_descend d [] t of
        (p, RBNode c l y r) \<Rightarrow> Occupied y
      | (p, RBNull) \<Rightarrow>
          (case rb_insert_color p (rb_link_node x) of None \<Rightarrow> Crashed | Some t' \<Rightarrow> Inserted t'))"

text \<open>
  \<^verbatim>\<open>rb_erase(&x->node, root)\<close> is called with a pointer to the node. The model finds the position of
  the entry that is the pointer's container; an entry that is not in the tree has none.
\<close>

fun rb_locate :: "('a \<Rightarrow> bool) \<Rightarrow> 'a rb_path \<Rightarrow> 'a rb_node \<Rightarrow> ('a rb_path \<times> 'a rb_node) option" where
  "rb_locate P p RBNull = None"
| "rb_locate P p (RBNode c l x r) =
     (if P x then Some (p, RBNode c l x r)
      else case rb_locate P (InLeft c x r # p) l of
          Some q \<Rightarrow> Some q
        | None \<Rightarrow> rb_locate P (InRight c l x # p) r)"

definition rb_erase_entry :: "('a \<Rightarrow> bool) \<Rightarrow> 'a rb_node \<Rightarrow> 'a rb_node option" where
  "rb_erase_entry P t =
     (case rb_locate P [] t of None \<Rightarrow> None | Some (p, n) \<Rightarrow> rb_erase p n)"

text \<open>The comparison of a number with the number an entry holds.\<close>

definition key_dir :: "('a \<Rightarrow> 'k::linorder) \<Rightarrow> 'k \<Rightarrow> 'a \<Rightarrow> rb_dir" where
  "key_dir key k x = (if k < key x then GoLeft else if key x < k then GoRight else Here)"

section \<open>Entries in order, and the red-black properties\<close>

fun inorder :: "'a rb_node \<Rightarrow> 'a list" where
  "inorder RBNull = []"
| "inorder (RBNode c l x r) = inorder l @ x # inorder r"

fun before_hole :: "'a rb_path \<Rightarrow> 'a list" where
  "before_hole [] = []"
| "before_hole (InLeft c x r # p) = before_hole p"
| "before_hole (InRight c l x # p) = before_hole p @ inorder l @ [x]"

fun after_hole :: "'a rb_path \<Rightarrow> 'a list" where
  "after_hole [] = []"
| "after_hole (InLeft c x r # p) = x # inorder r @ after_hole p"
| "after_hole (InRight c l x # p) = after_hole p"

text \<open>Properties 4 and 5 of the comment at the head of \<^verbatim>\<open>rbtree.c\<close>, and 2 for the root.\<close>

fun red_ok :: "'a rb_node \<Rightarrow> bool" where
  "red_ok RBNull = True"
| "red_ok (RBNode c l x r) = ((c = RB_RED \<longrightarrow> \<not> rb_is_red l \<and> \<not> rb_is_red r) \<and> red_ok l \<and> red_ok r)"

fun black_height :: "'a rb_node \<Rightarrow> nat" where
  "black_height RBNull = 0"
| "black_height (RBNode c l x r) = (if c = RB_BLACK then Suc (black_height l) else black_height l)"

fun black_ok :: "'a rb_node \<Rightarrow> bool" where
  "black_ok RBNull = True"
| "black_ok (RBNode c l x r) = (black_height l = black_height r \<and> black_ok l \<and> black_ok r)"

definition rb_wf :: "'a rb_node \<Rightarrow> bool" where
  "rb_wf t \<longleftrightarrow> red_ok t \<and> black_ok t \<and> \<not> rb_is_red t"

fun frame_sib :: "'a rb_frame \<Rightarrow> 'a rb_node" where
  "frame_sib (InLeft c x r) = r"
| "frame_sib (InRight c l x) = l"

fun head_red :: "'a rb_path \<Rightarrow> bool" where
  "head_red [] = False"
| "head_red (f # p) = (frame_color f = RB_RED)"

text \<open>What the ancestors of a position demand of the subtree there, whose black height is \<open>h\<close>.\<close>

fun path_ok :: "'a rb_path \<Rightarrow> nat \<Rightarrow> bool" where
  "path_ok [] h = True"
| "path_ok (f # p) h =
     (red_ok (frame_sib f) \<and> black_ok (frame_sib f) \<and> black_height (frame_sib f) = h \<and>
      (frame_color f = RB_RED \<longrightarrow> \<not> rb_is_red (frame_sib f) \<and> p \<noteq> [] \<and> \<not> head_red p) \<and>
      path_ok p (if frame_color f = RB_BLACK then Suc h else h))"

definition focus_ok :: "'a rb_path \<Rightarrow> 'a rb_node \<Rightarrow> bool" where
  "focus_ok p t \<longleftrightarrow> path_ok p (black_height t) \<and> red_ok t \<and> black_ok t \<and>
     (if p = [] then \<not> rb_is_red t else head_red p \<longrightarrow> \<not> rb_is_red t)"

definition erase_done :: "'a rb_path \<Rightarrow> 'a rb_node \<Rightarrow> 'a rb_node option \<Rightarrow> bool" where
  "erase_done p n res \<longleftrightarrow>
     (\<exists>t. res = Some t \<and> rb_wf t \<and> inorder t = before_hole p @ inorder n @ after_hole p)"

definition at_entry :: "'a rb_path \<times> 'a rb_node \<Rightarrow> 'a rb_node \<Rightarrow> 'a list \<Rightarrow> 'a \<Rightarrow> 'a list \<Rightarrow> bool" where
  "at_entry pos t xs x ys \<longleftrightarrow>
     (\<exists>p c l r. pos = (p, RBNode c l x r) \<and> rb_plug p (RBNode c l x r) = t \<and>
        xs = before_hole p @ inorder l \<and> ys = inorder r @ after_hole p)"

text \<open>The invariant of a tree whose entries are ordered by \<open>ord\<close> and satisfy \<open>wfe\<close>.\<close>

definition rb_inv :: "('a \<Rightarrow> 'a \<Rightarrow> bool) \<Rightarrow> ('a \<Rightarrow> bool) \<Rightarrow> 'a rb_node \<Rightarrow> bool" where
  "rb_inv ord wfe t \<longleftrightarrow> rb_wf t \<and> sorted_wrt ord (inorder t) \<and> (\<forall>x \<in> set (inorder t). wfe x)"

definition key_less :: "('a \<Rightarrow> 'k::linorder) \<Rightarrow> 'a \<Rightarrow> 'a \<Rightarrow> bool" where
  "key_less key a b \<longleftrightarrow> key a < key b"

abbreviation key_inv :: "('a \<Rightarrow> 'k::linorder) \<Rightarrow> 'a rb_node \<Rightarrow> bool" where
  "key_inv key \<equiv> rb_inv (key_less key) (\<lambda>_. True)"

definition key_map :: "('a \<Rightarrow> 'k::linorder) \<Rightarrow> 'a rb_node \<Rightarrow> 'k \<Rightarrow> 'a option" where
  "key_map key t k = rb_search (key_dir key k) t"

fun rb_height :: "'a rb_node \<Rightarrow> nat" where
  "rb_height RBNull = 0"
| "rb_height (RBNode c l x r) = Suc (max (rb_height l) (rb_height r))"

fun postorder :: "'a rb_node \<Rightarrow> 'a list" where
  "postorder RBNull = []"
| "postorder (RBNode c l x r) = postorder l @ postorder r @ [x]"

fun post_before :: "'a rb_path \<Rightarrow> 'a list" where
  "post_before [] = []"
| "post_before (InLeft c x r # p) = post_before p"
| "post_before (InRight c l x # p) = post_before p @ postorder l"

fun post_after :: "'a rb_path \<Rightarrow> 'a list" where
  "post_after [] = []"
| "post_after (InLeft c x r # p) = postorder r @ x # post_after p"
| "post_after (InRight c l x # p) = x # post_after p"

definition at_post :: "'a rb_path \<times> 'a rb_node \<Rightarrow> 'a rb_node \<Rightarrow> 'a list \<Rightarrow> 'a \<Rightarrow> 'a list \<Rightarrow> bool" where
  "at_post pos t xs x ys \<longleftrightarrow>
     (\<exists>p c l r. pos = (p, RBNode c l x r) \<and> rb_plug p (RBNode c l x r) = t \<and>
        xs = post_before p @ postorder l @ postorder r \<and> ys = post_after p)"

section \<open>Colours, frames and positions\<close>

lemma not_red_iff [simp]: "c \<noteq> RB_RED \<longleftrightarrow> c = RB_BLACK"
  by (cases c) auto

lemma not_black_iff [simp]: "c \<noteq> RB_BLACK \<longleftrightarrow> c = RB_RED"
  by (cases c) auto

lemma inorder_paint [simp]: "inorder (rb_paint c t) = inorder t"
  by (cases t) auto

lemma paint_black_not_red [simp]: "\<not> rb_is_red (rb_paint RB_BLACK t)"
  by (cases t) auto

lemma paint_id [simp]: "\<not> rb_is_red t \<Longrightarrow> rb_paint RB_BLACK t = t"
  by (cases t) auto

lemma red_ok_paint_black [simp]: "red_ok t \<Longrightarrow> red_ok (rb_paint RB_BLACK t)"
  by (cases t) auto

lemma black_ok_paint [simp]: "black_ok (rb_paint c t) = black_ok t"
  by (cases t) auto

lemma black_height_paint_black: "rb_is_red t \<Longrightarrow> black_height (rb_paint RB_BLACK t) = Suc (black_height t)"
  by (cases t) auto

lemma not_red_cases:
  assumes "\<not> rb_is_red s"
  obtains "s = RBNull" | l x r where "s = RBNode RB_BLACK l x r"
  using assms by (cases s) auto

lemma inorder_plug: "inorder (rb_plug p t) = before_hole p @ inorder t @ after_hole p"
proof (induction p arbitrary: t)
  case (Cons f p)
  then show ?case by (cases f) auto
qed simp

lemma hole_cons:
  "before_hole (f # p) @ inorder n @ after_hole (f # p) =
   before_hole p @ inorder (rb_fill f n) @ after_hole p"
  by (cases f) auto

lemma plug_append: "rb_plug (p @ q) t = rb_plug q (rb_plug p t)"
  by (induction p arbitrary: t) auto

lemma before_hole_append: "before_hole (p @ q) = before_hole q @ before_hole p"
  by (induction p rule: before_hole.induct) auto

lemma after_hole_append: "after_hole (p @ q) = after_hole p @ after_hole q"
  by (induction p rule: after_hole.induct) auto

lemma rb_wf_plug:
  "path_ok p h \<Longrightarrow> red_ok t \<Longrightarrow> black_ok t \<Longrightarrow> black_height t = h \<Longrightarrow>
   (if p = [] then \<not> rb_is_red t else head_red p \<longrightarrow> \<not> rb_is_red t) \<Longrightarrow> rb_wf (rb_plug p t)"
proof (induction p arbitrary: t h)
  case Nil
  then show ?case by (simp add: rb_wf_def)
next
  case (Cons f p)
  show ?case
    unfolding rb_plug.simps
    by (rule Cons.IH [of "if frame_color f = RB_BLACK then Suc h else h"])
       (use Cons.prems in \<open>cases f; auto split: if_splits\<close>)+
qed

lemma focus_fill: "focus_ok (f # p) n \<longleftrightarrow> focus_ok p (rb_fill f n)"
  by (cases f) (auto simp: focus_ok_def split: if_splits)

lemma focus_rb_wf: "focus_ok p t \<longleftrightarrow> rb_wf (rb_plug p t)"
proof (induction p arbitrary: t)
  case Nil
  then show ?case by (simp add: focus_ok_def rb_wf_def)
next
  case (Cons f p)
  then show ?case by (simp add: focus_fill)
qed

section \<open>Insertion keeps the red-black properties\<close>

lemma inorder_insert_loop:
  "rb_insert_loop p n = Some t \<Longrightarrow> inorder t = before_hole p @ inorder n @ after_hole p"
  by (induction p n arbitrary: t rule: rb_insert_loop.induct)
     (auto simp: inorder_plug hole_cons simp del: before_hole.simps(2-) after_hole.simps(2-)
        split: if_splits rb_frame.splits rb_node.splits)

lemma insert_loop_ok:
  "path_ok p h \<Longrightarrow> red_ok n \<Longrightarrow> black_ok n \<Longrightarrow> black_height n = h \<Longrightarrow> rb_is_red n \<Longrightarrow>
   \<exists>t. rb_insert_loop p n = Some t \<and> rb_wf t"
proof (induction p n arbitrary: h rule: rb_insert_loop.induct)
  case (1 n)
  then show ?case by (cases n) (auto simp: rb_wf_def)
next
  case (2 f n)
  then show ?case by (cases f) (auto simp: rb_wf_def)
next
  case (3 f g p n)
  show ?case
  proof (cases "frame_color f = RB_BLACK")
    case True
    then show ?thesis using 3(3-) rb_wf_plug [of "f # g # p" h n] by simp
  next
    case False
    note red = this
    show ?thesis
    proof (cases "rb_is_red (frame_sib g)")
      case True
      then show ?thesis using 3 red
        by (cases g; cases f) (auto simp: black_height_paint_black split: if_splits)
    next
      case black: False
      obtain nc nl nx nr where n: "n = RBNode nc nl nx nr" using 3(7) by (cases n) auto
      show ?thesis using 3(3-) red black n
        by (cases g; cases f) (auto intro!: rb_wf_plug [where h = "Suc h"] split: if_splits)
    qed
  qed
qed

section \<open>Removal keeps the red-black properties\<close>

lemma rb_erase_left_ok:
  assumes "red_ok n" "black_ok n" "black_height n = h" "\<not> rb_is_red n"
    and "red_ok s" "black_ok s" "black_height s = Suc h" "\<not> rb_is_red s"
  obtains t up where "rb_erase_left n pc px s = Some (t, up)" "red_ok t" "black_ok t"
    "up \<longrightarrow> pc = RB_BLACK \<and> \<not> rb_is_red t \<and> black_height t = Suc h"
    "\<not> up \<longrightarrow> black_height t = (if pc = RB_BLACK then Suc (Suc h) else Suc h)"
    "rb_is_red t \<longrightarrow> pc = RB_RED"
    "inorder t = inorder n @ px # inorder s"
proof -
  obtain sl sx sr where s: "s = RBNode RB_BLACK sl sx sr"
    using assms(7,8) by (cases s) auto
  then show ?thesis using assms that
    by (cases sl; cases sr; cases pc) (auto split: rb_color.splits if_splits)
qed

lemma rb_erase_right_ok:
  assumes "red_ok n" "black_ok n" "black_height n = h" "\<not> rb_is_red n"
    and "red_ok s" "black_ok s" "black_height s = Suc h" "\<not> rb_is_red s"
  obtains t up where "rb_erase_right s px pc n = Some (t, up)" "red_ok t" "black_ok t"
    "up \<longrightarrow> pc = RB_BLACK \<and> \<not> rb_is_red t \<and> black_height t = Suc h"
    "\<not> up \<longrightarrow> black_height t = (if pc = RB_BLACK then Suc (Suc h) else Suc h)"
    "rb_is_red t \<longrightarrow> pc = RB_RED"
    "inorder t = inorder s @ px # inorder n"
proof -
  obtain sl sx sr where s: "s = RBNode RB_BLACK sl sx sr"
    using assms(7,8) by (cases s) auto
  then show ?thesis using assms that
    by (cases sl; cases sr; cases pc) (auto split: rb_color.splits if_splits)
qed

lemma erase_continue:
  assumes p: "path_ok p (if pc = RB_BLACK then Suc (Suc h) else Suc h)"
      "pc = RB_RED \<longrightarrow> p \<noteq> [] \<and> \<not> head_red p"
    and t: "red_ok t" "black_ok t" "up \<longrightarrow> pc = RB_BLACK \<and> \<not> rb_is_red t \<and> black_height t = Suc h"
      "\<not> up \<longrightarrow> black_height t = (if pc = RB_BLACK then Suc (Suc h) else Suc h)"
      "rb_is_red t \<longrightarrow> pc = RB_RED"
    and IH: "up \<Longrightarrow> p \<noteq> [] \<Longrightarrow> path_ok p (Suc (Suc h)) \<Longrightarrow> erase_done p t (rb_erase_color p t)"
  shows "erase_done p t (if up \<and> p \<noteq> [] then rb_erase_color p t else Some (rb_plug p t))"
proof (cases "up \<and> p \<noteq> []")
  case True
  then show ?thesis using IH p t by auto
next
  case False
  then have "rb_wf (rb_plug p t)"
  proof (cases up)
    case True
    with False t show ?thesis by (auto simp: rb_wf_def)
  next
    case False
    then show ?thesis
      by (intro rb_wf_plug [OF p(1)]) (use p t in \<open>auto split: if_splits\<close>)
  qed
  with False show ?thesis by (auto simp: erase_done_def inorder_plug)
qed

lemma rb_erase_color_ok:
  "path_ok p (Suc h) \<Longrightarrow> p \<noteq> [] \<Longrightarrow> red_ok n \<Longrightarrow> black_ok n \<Longrightarrow> black_height n = h \<Longrightarrow> \<not> rb_is_red n \<Longrightarrow>
   erase_done p n (rb_erase_color p n)"
proof (induction p n arbitrary: h rule: rb_erase_color.induct)
  case (1 n)
  then show ?case by simp
next
  case (2 pc px s p n)
  show ?case
  proof (cases "rb_is_red s")
    case True
    then obtain sl sx sr where s: "s = RBNode RB_RED sl sx sr" by (cases s) auto
    from "2.prems" s have pc: "pc = RB_BLACK" and sl: "red_ok sl" "black_ok sl" "black_height sl = Suc h" "\<not> rb_is_red sl"
      and sr: "red_ok sr" "black_ok sr" "black_height sr = Suc h" "\<not> rb_is_red sr" and p: "path_ok p (Suc (Suc h))"
      by (auto split: if_splits)
    obtain t up where t: "rb_erase_left n RB_RED px sl = Some (t, up)" "red_ok t" "black_ok t"
      "\<not> up" "black_height t = Suc h" "inorder t = inorder n @ px # inorder sl"
      using rb_erase_left_ok [of n h sl RB_RED px] "2.prems" sl by (metis rb_color.distinct(1))
    have "rb_wf (rb_plug p (RBNode RB_BLACK t sx sr))"
      by (rule rb_wf_plug [OF p]) (use t sr in auto)
    moreover have "sl \<noteq> RBNull" using sl by auto
    ultimately show ?thesis using t s pc sl by (auto simp: inorder_plug erase_done_def)
  next
    case False
    obtain t up where t: "rb_erase_left n pc px s = Some (t, up)" "red_ok t" "black_ok t"
      "up \<longrightarrow> pc = RB_BLACK \<and> \<not> rb_is_red t \<and> black_height t = Suc h"
      "\<not> up \<longrightarrow> black_height t = (if pc = RB_BLACK then Suc (Suc h) else Suc h)"
      "rb_is_red t \<longrightarrow> pc = RB_RED" "inorder t = inorder n @ px # inorder s"
      using rb_erase_left_ok [of n h s pc px] "2.prems" False by auto
    have eq: "rb_erase_color (InLeft pc px s # p) n =
        (if up \<and> p \<noteq> [] then rb_erase_color p t else Some (rb_plug p t))"
      using False t(1) by (auto elim!: not_red_cases)
    have "erase_done p t (if up \<and> p \<noteq> [] then rb_erase_color p t else Some (rb_plug p t))"
      by (rule erase_continue [of p pc h t up])
         (use 2 t False in \<open>auto split: if_splits elim!: not_red_cases\<close>)
    with eq t show ?thesis by (simp add: erase_done_def)
  qed
next
  case (3 pc s px p n)
  show ?case
  proof (cases "rb_is_red s")
    case True
    then obtain sl sx sr where s: "s = RBNode RB_RED sl sx sr" by (cases s) auto
    from "3.prems" s have pc: "pc = RB_BLACK" and sl: "red_ok sl" "black_ok sl" "black_height sl = Suc h" "\<not> rb_is_red sl"
      and sr: "red_ok sr" "black_ok sr" "black_height sr = Suc h" "\<not> rb_is_red sr" and p: "path_ok p (Suc (Suc h))"
      by (auto split: if_splits)
    obtain t up where t: "rb_erase_right sr px RB_RED n = Some (t, up)" "red_ok t" "black_ok t"
      "\<not> up" "black_height t = Suc h" "inorder t = inorder sr @ px # inorder n"
      using rb_erase_right_ok [of n h sr px RB_RED] "3.prems" sr by (metis rb_color.distinct(1))
    have "rb_wf (rb_plug p (RBNode RB_BLACK sl sx t))"
      by (rule rb_wf_plug [OF p]) (use t sl in auto)
    moreover have "sr \<noteq> RBNull" using sr by auto
    ultimately show ?thesis using t s pc sr by (auto simp: inorder_plug erase_done_def)
  next
    case False
    obtain t up where t: "rb_erase_right s px pc n = Some (t, up)" "red_ok t" "black_ok t"
      "up \<longrightarrow> pc = RB_BLACK \<and> \<not> rb_is_red t \<and> black_height t = Suc h"
      "\<not> up \<longrightarrow> black_height t = (if pc = RB_BLACK then Suc (Suc h) else Suc h)"
      "rb_is_red t \<longrightarrow> pc = RB_RED" "inorder t = inorder s @ px # inorder n"
      using rb_erase_right_ok [of n h s px pc] "3.prems" False by auto
    have eq: "rb_erase_color (InRight pc s px # p) n =
        (if up \<and> p \<noteq> [] then rb_erase_color p t else Some (rb_plug p t))"
      using False t(1) by (auto elim!: not_red_cases)
    have "erase_done p t (if up \<and> p \<noteq> [] then rb_erase_color p t else Some (rb_plug p t))"
      by (rule erase_continue [of p pc h t up])
         (use 3 t False in \<open>auto split: if_splits elim!: not_red_cases\<close>)
    with eq t show ?thesis by (simp add: erase_done_def)
  qed
qed

lemma erase_no_left:
  assumes ok: "focus_ok p (RBNode c RBNull x r)"
  shows "erase_done p r
    (if r \<noteq> RBNull then Some (rb_plug p (rb_paint RB_BLACK r))
     else if c = RB_BLACK \<and> p \<noteq> [] then rb_erase_color p RBNull else Some (rb_plug p RBNull))"
    "r \<noteq> RBNull \<Longrightarrow> c = RB_BLACK"
proof -
  show c: "c = RB_BLACK" if "r \<noteq> RBNull"
    using ok that by (cases c; cases r) (auto simp: focus_ok_def split: if_splits)
  show "erase_done p r
    (if r \<noteq> RBNull then Some (rb_plug p (rb_paint RB_BLACK r))
     else if c = RB_BLACK \<and> p \<noteq> [] then rb_erase_color p RBNull else Some (rb_plug p RBNull))"
  proof (cases "r = RBNull")
    case True
    show ?thesis
    proof (cases "c = RB_BLACK \<and> p \<noteq> []")
      case True
      then have "erase_done p RBNull (rb_erase_color p RBNull)"
        by (intro rb_erase_color_ok [where h = 0]) (use ok in \<open>auto simp: focus_ok_def\<close>)
      with True \<open>r = RBNull\<close> show ?thesis by simp
    next
      case False
      then have "focus_ok p RBNull"
        using ok by (cases c) (auto simp: focus_ok_def split: if_splits)
      then show ?thesis using False True by (auto simp: focus_rb_wf erase_done_def inorder_plug)
    qed
  next
    case False
    then have red: "rb_is_red r" using ok c by (cases r) (auto simp: focus_ok_def split: if_splits)
    then have "focus_ok p (rb_paint RB_BLACK r)"
      using ok c [OF False] by (auto simp: focus_ok_def black_height_paint_black split: if_splits)
    then show ?thesis using False by (auto simp: focus_rb_wf erase_done_def inorder_plug)
  qed
qed

lemma erase_no_right:
  assumes ok: "focus_ok p (RBNode c l x RBNull)" and l: "l \<noteq> RBNull"
  shows "erase_done p l (Some (rb_plug p (rb_paint c l)))"
proof -
  have c: "c = RB_BLACK"
    using ok l by (cases c; cases l) (auto simp: focus_ok_def split: if_splits)
  have red: "rb_is_red l" using ok c l by (cases l) (auto simp: focus_ok_def split: if_splits)
  then have "focus_ok p (rb_paint RB_BLACK l)"
    using ok c by (auto simp: focus_ok_def black_height_paint_black split: if_splits)
  then show ?thesis using c by (auto simp: focus_rb_wf erase_done_def inorder_plug)
qed

lemma path_ok_payload: "path_ok (q @ InRight c l x # p) h \<longleftrightarrow> path_ok (q @ InRight c l y # p) h"
proof (induction q arbitrary: h)
  case (Cons f q)
  have "head_red (q @ InRight c l x # p) = head_red (q @ InRight c l y # p)" by (cases q) auto
  with Cons show ?case by simp
qed simp

lemma focus_ok_payload: "focus_ok (q @ InRight c l x # p) t \<Longrightarrow> focus_ok (q @ InRight c l y # p) t"
proof -
  have "head_red (q @ InRight c l x # p) = head_red (q @ InRight c l y # p)" by (cases q) auto
  then show "focus_ok (q @ InRight c l x # p) t \<Longrightarrow> focus_ok (q @ InRight c l y # p) t"
    by (auto simp: focus_ok_def path_ok_payload [of q c l x p _ y] split: if_splits)
qed

lemma leftmost_plug: "rb_leftmost p t = (q, s) \<Longrightarrow> rb_plug q s = rb_plug p t"
  by (induction p t rule: rb_leftmost.induct) auto

lemma leftmost_shape: "t \<noteq> RBNull \<Longrightarrow> rb_leftmost p t = (q, s) \<Longrightarrow> \<exists>c x r. s = RBNode c RBNull x r"
  by (induction p t rule: rb_leftmost.induct) auto

lemma leftmost_before: "rb_leftmost p t = (q, s) \<Longrightarrow> before_hole q = before_hole p"
  by (induction p t rule: rb_leftmost.induct) auto

theorem rb_erase_ok:
  assumes wf: "rb_wf (rb_plug p (RBNode c l x r))"
  shows "\<exists>t. rb_erase p (RBNode c l x r) = Some t \<and> rb_wf t \<and>
           inorder t = before_hole p @ inorder l @ inorder r @ after_hole p"
proof -
  have ok: "focus_ok p (RBNode c l x r)" using wf by (simp add: focus_rb_wf)
  consider "l = RBNull" | "l \<noteq> RBNull" "r = RBNull" | "l \<noteq> RBNull" "r \<noteq> RBNull" by blast
  then show ?thesis
  proof cases
    case 1
    with erase_no_left [of p c x r] ok show ?thesis
      by (auto simp: rb_erase_def erase_done_def split: if_splits)
  next
    case 2
    with erase_no_right [of p c l x] ok show ?thesis
      by (auto simp: rb_erase_def erase_done_def)
  next
    case 3
    obtain q s where qs: "rb_leftmost [] r = (q, s)" by fastforce
    with 3 obtain sc sx sr where s: "s = RBNode sc RBNull sx sr" using leftmost_shape by blast
    have plug: "rb_plug q s = r" using leftmost_plug [OF qs] by simp
    have before: "before_hole q = []" using leftmost_before [OF qs] by simp
    have inr: "inorder r = sx # inorder sr @ after_hole q"
      using inorder_plug [of q s] plug before s by simp
    have "focus_ok (q @ InRight c l x # p) s"
      using wf plug by (simp add: focus_rb_wf plug_append)
    then have ok': "focus_ok (q @ InRight c l sx # p) (RBNode sc RBNull sx sr)"
      unfolding s by (rule focus_ok_payload)
    show ?thesis using erase_no_left [OF ok'] 3 qs s inr before
      by (auto simp: rb_erase_def erase_done_def before_hole_append after_hole_append Let_def split: if_splits)
  qed
qed

section \<open>Iteration visits the neighbours in order\<close>

lemma leftmost_at_entry:
  "t \<noteq> RBNull \<Longrightarrow> \<exists>y ys. at_entry (rb_leftmost p t) (rb_plug p t) (before_hole p) y ys \<and>
     y # ys = inorder t @ after_hole p"
  by (induction p t rule: rb_leftmost.induct) (auto simp: at_entry_def)

lemma rightmost_at_entry:
  "t \<noteq> RBNull \<Longrightarrow> \<exists>y ys. at_entry (rb_rightmost p t) (rb_plug p t) ys y (after_hole p) \<and>
     ys @ [y] = before_hole p @ inorder t"
  by (induction p t rule: rb_rightmost.induct) (auto simp: at_entry_def)

lemma up_next_at_entry:
  "n \<noteq> RBNull \<Longrightarrow>
   (case rb_up_next p n of
      None \<Rightarrow> after_hole p = []
    | Some pos \<Rightarrow> \<exists>y ys. after_hole p = y # ys \<and>
        at_entry pos (rb_plug p n) (before_hole p @ inorder n) y ys)"
  by (induction p n rule: rb_up_next.induct) (auto simp: at_entry_def split: option.splits)

lemma up_prev_at_entry:
  "n \<noteq> RBNull \<Longrightarrow>
   (case rb_up_prev p n of
      None \<Rightarrow> before_hole p = []
    | Some pos \<Rightarrow> \<exists>y ys. before_hole p = ys @ [y] \<and>
        at_entry pos (rb_plug p n) ys y (inorder n @ after_hole p))"
  by (induction p n rule: rb_up_prev.induct) (auto simp: at_entry_def split: option.splits)

lemma at_entry_inorder: "at_entry pos t xs x ys \<Longrightarrow> inorder t = xs @ x # ys"
  by (auto simp: at_entry_def inorder_plug)

lemma rb_next_correct:
  assumes "at_entry pos t xs x ys"
  shows "case ys of
      [] \<Rightarrow> rb_next pos = None
    | y # zs \<Rightarrow> \<exists>pos'. rb_next pos = Some pos' \<and> at_entry pos' t (xs @ [x]) y zs"
proof -
  from assms obtain p c l r where pos: "pos = (p, RBNode c l x r)" and t: "rb_plug p (RBNode c l x r) = t"
    and xs: "xs = before_hole p @ inorder l" and ys: "ys = inorder r @ after_hole p"
    by (auto simp: at_entry_def)
  show ?thesis
  proof (cases "r = RBNull")
    case True
    with up_next_at_entry [of "RBNode c l x r" p] pos t xs ys show ?thesis
      by (auto split: option.splits list.splits)
  next
    case False
    with leftmost_at_entry [of r "InRight c l x # p"] pos t xs ys show ?thesis
      by (auto split: list.splits)
  qed
qed

lemma rb_prev_correct:
  assumes "at_entry pos t xs x ys"
  shows "if xs = [] then rb_prev pos = None
     else \<exists>pos'. rb_prev pos = Some pos' \<and> at_entry pos' t (butlast xs) (last xs) (x # ys)"
proof -
  from assms obtain p c l r where pos: "pos = (p, RBNode c l x r)" and t: "rb_plug p (RBNode c l x r) = t"
    and xs: "xs = before_hole p @ inorder l" and ys: "ys = inorder r @ after_hole p"
    by (auto simp: at_entry_def)
  show ?thesis
  proof (cases "l = RBNull")
    case True
    with up_prev_at_entry [of "RBNode c l x r" p] pos t xs ys show ?thesis
      by (auto split: option.splits)
  next
    case False
    then obtain y ys' where y: "at_entry (rb_rightmost (InLeft c x r # p) l) t ys' y (x # ys)"
      "ys' @ [y] = xs" using rightmost_at_entry [of l "InLeft c x r # p"] t xs ys by auto
    then show ?thesis using False pos by auto
  qed
qed

lemma rb_first_correct:
  "case inorder t of [] \<Rightarrow> rb_first t = None
   | x # xs \<Rightarrow> \<exists>pos. rb_first t = Some pos \<and> at_entry pos t [] x xs"
  using leftmost_at_entry [of t "[]"] by (cases t) (auto split: list.splits)

lemma rb_last_correct:
  "if inorder t = [] then rb_last t = None
   else \<exists>pos. rb_last t = Some pos \<and> at_entry pos t (butlast (inorder t)) (last (inorder t)) []"
proof (cases t)
  case (RBNode c l x r)
  then obtain y ys where "at_entry (rb_rightmost [] t) t ys y []" "ys @ [y] = inorder t"
    using rightmost_at_entry [of t "[]"] by auto
  then show ?thesis using RBNode by (metis butlast_snoc last_snoc rb_last.simps(2) snoc_eq_iff_butlast)
qed simp

lemma left_deepest_at_post:
  "t \<noteq> RBNull \<Longrightarrow> \<exists>y ys. at_post (rb_left_deepest_node p t) (rb_plug p t) (post_before p) y ys \<and>
     y # ys = postorder t @ post_after p"
  by (induction p t rule: rb_left_deepest_node.induct) (auto simp: at_post_def)

section \<open>Height\<close>

lemma height_black_height:
  "red_ok t \<Longrightarrow> black_ok t \<Longrightarrow> rb_height t \<le> 2 * black_height t + (if rb_is_red t then 1 else 0)"
proof (induction t)
  case (RBNode c l x r)
  then show ?case by (cases c) (auto split: if_splits)
qed simp

lemma black_height_size:
  "black_ok t \<Longrightarrow> 2 ^ black_height t \<le> Suc (length (inorder t))"
proof (induction t)
  case (RBNode c l x r)
  then show ?case by (cases c) auto
qed simp

lemma descend_depth: "length (fst (rb_descend d p t)) \<le> length p + rb_height t"
  by (induction d p t rule: rb_descend.induct) (auto split: rb_dir.splits)

section \<open>Descents, insertion by descent, removal of an entry\<close>

lemma descend_plug: "rb_descend d p t = (q, s) \<Longrightarrow> rb_plug q s = rb_plug p t"
  by (induction d p t rule: rb_descend.induct) (auto split: rb_dir.splits)

lemma descend_focus: "rb_descend d p t = (q, RBNode c l x r) \<Longrightarrow> d x = Here"
  by (induction d p t rule: rb_descend.induct) (auto split: rb_dir.splits)

lemma locate_plug: "rb_locate P p t = Some (q, s) \<Longrightarrow> rb_plug q s = rb_plug p t"
  by (induction P p t rule: rb_locate.induct) (auto split: if_splits option.splits)

lemma locate_found: "rb_locate P p t = Some (q, s) \<Longrightarrow> \<exists>c l x r. s = RBNode c l x r \<and> P x"
  by (induction P p t rule: rb_locate.induct) (auto split: if_splits option.splits)

lemma locate_None: "rb_locate P p t = None \<longleftrightarrow> (\<forall>x \<in> set (inorder t). \<not> P x)"
  by (induction P p t rule: rb_locate.induct) (auto split: option.splits)

lemma rb_insert_by_ok:
  assumes "rb_wf t"
  shows "case rb_descend d [] t of
      (p, RBNode c l y r) \<Rightarrow> rb_insert_by d x t = Occupied y
    | (p, RBNull) \<Rightarrow> \<exists>t'. rb_insert_by d x t = Inserted t' \<and> rb_wf t' \<and>
        inorder t' = before_hole p @ x # after_hole p \<and> inorder t = before_hole p @ after_hole p"
proof -
  obtain p s where ps: "rb_descend d [] t = (p, s)" by fastforce
  have plug: "rb_plug p s = t" using descend_plug [OF ps] by simp
  show ?thesis
  proof (cases s)
    case RBNull
    then have ok: "path_ok p 0" using assms plug focus_rb_wf [of p s] by (simp add: focus_ok_def)
    from insert_loop_ok [OF ok, of "rb_link_node x"] obtain t'
      where t': "rb_insert_loop p (rb_link_node x) = Some t'" "rb_wf t'"
      by (auto simp: rb_link_node_def)
    with inorder_insert_loop [OF t'(1)] inorder_plug [of p s] show ?thesis
      using ps RBNull plug by (auto simp: rb_insert_by_def rb_insert_color_def rb_link_node_def)
  qed (use ps in \<open>simp add: rb_insert_by_def\<close>)
qed

lemma rb_erase_entry_ok:
  assumes wf: "rb_wf t" and P: "\<exists>x \<in> set (inorder t). P x"
  shows "\<exists>t' xs x ys. rb_erase_entry P t = Some t' \<and> rb_wf t' \<and> P x \<and>
           inorder t = xs @ x # ys \<and> inorder t' = xs @ ys"
proof -
  obtain p n where n: "rb_locate P [] t = Some (p, n)"
    using P locate_None [of P "[]" t] by auto
  obtain c l x r where x: "n = RBNode c l x r" "P x" using locate_found [OF n] by blast
  have plug: "rb_plug p n = t" using locate_plug [OF n] by simp
  from rb_erase_ok [of p c l x r] wf plug x obtain t' where
    "rb_erase p n = Some t'" "rb_wf t'" "inorder t' = before_hole p @ inorder l @ inorder r @ after_hole p"
    by auto
  moreover have "inorder t = (before_hole p @ inorder l) @ x # inorder r @ after_hole p"
    using inorder_plug [of p n] plug x by simp
  ultimately have "rb_erase_entry P t = Some t' \<and> rb_wf t' \<and> P x \<and>
      inorder t = (before_hole p @ inorder l) @ x # (inorder r @ after_hole p) \<and>
      inorder t' = (before_hole p @ inorder l) @ (inorder r @ after_hole p)"
    using n x by (simp add: rb_erase_entry_def)
  then show ?thesis by blast
qed

lemma rb_inv_null [simp]: "rb_inv ord wfe RBNull"
  by (simp add: rb_inv_def rb_wf_def)

lemma rb_inv_erase:
  assumes "rb_inv ord wfe t" "\<exists>x \<in> set (inorder t). P x"
  shows "\<exists>t' xs x ys. rb_erase_entry P t = Some t' \<and> rb_inv ord wfe t' \<and> P x \<and>
           inorder t = xs @ x # ys \<and> inorder t' = xs @ ys"
proof -
  obtain t' xs x ys where "rb_erase_entry P t = Some t'" "rb_wf t'" "P x"
     "inorder t = xs @ x # ys" "inorder t' = xs @ ys"
    using rb_erase_entry_ok [of t P] assms by (auto simp: rb_inv_def)
  moreover from this have "rb_inv ord wfe t'" using assms(1) by (auto simp: rb_inv_def sorted_wrt_append)
  ultimately show ?thesis by blast
qed

section \<open>The interface of an ordered tree\<close>

text \<open>
  \<open>ord\<close> is the order of the entries in the tree, \<open>dir k\<close> the direction a descent for the key \<open>k\<close>
  takes at an entry, \<open>wfe\<close> what every stored entry satisfies. The laws say that a descent is
  consistent with the order: going left (right) at an entry excludes everything after (before) it.
\<close>

locale rb_directed =
  fixes ord :: "'a \<Rightarrow> 'a \<Rightarrow> bool"
    and dir :: "'k \<Rightarrow> 'a \<Rightarrow> rb_dir"
    and wfe :: "'a \<Rightarrow> bool"
  assumes left_mono: "wfe a \<Longrightarrow> wfe b \<Longrightarrow> ord a b \<Longrightarrow> dir k a = GoLeft \<Longrightarrow> dir k b = GoLeft"
    and right_mono: "wfe a \<Longrightarrow> wfe b \<Longrightarrow> ord a b \<Longrightarrow> dir k b = GoRight \<Longrightarrow> dir k a = GoRight"
begin

lemma descend_sides:
  assumes "sorted_wrt ord (before_hole p @ inorder t @ after_hole p)"
    and "\<forall>x \<in> set (before_hole p @ inorder t @ after_hole p). wfe x"
    and "\<forall>x \<in> set (before_hole p). dir k x = GoRight" "\<forall>x \<in> set (after_hole p). dir k x = GoLeft"
    and "rb_descend (dir k) p t = (q, s)"
  shows "(\<forall>x \<in> set (before_hole q). dir k x = GoRight) \<and> (\<forall>x \<in> set (after_hole q). dir k x = GoLeft)"
  using assms
proof (induction "dir k" p t rule: rb_descend.induct)
  case (1 p)
  then show ?case by simp
next
  case (2 p c l x r)
  have mono: "\<forall>y \<in> set (inorder l). ord y x" "\<forall>y \<in> set (inorder r). ord x y"
    "\<forall>y \<in> set (inorder l) \<union> set (inorder r) \<union> {x}. wfe y"
    using "2.prems"(1,2) by (auto simp: sorted_wrt_append)
  show ?case
  proof (cases "dir k x")
    case GoLeft
    then have "\<forall>y \<in> set (inorder r). dir k y = GoLeft" using mono left_mono by blast
    moreover have "rb_descend (dir k) (InLeft c x r # p) l = (q, s)" using "2.prems"(5) GoLeft by simp
    ultimately show ?thesis
      by (intro "2.hyps"(1) [OF GoLeft]) (use "2.prems"(1-4) GoLeft in \<open>simp_all add: ball_Un\<close>)
  next
    case GoRight
    then have "\<forall>y \<in> set (inorder l). dir k y = GoRight" using mono right_mono by blast
    moreover have "rb_descend (dir k) (InRight c l x # p) r = (q, s)" using "2.prems"(5) GoRight by simp
    ultimately show ?thesis
      by (intro "2.hyps"(2) [OF GoRight]) (use "2.prems"(1-4) GoRight in \<open>simp_all add: ball_Un\<close>)
  next
    case Here
    with "2.prems"(3-5) show ?thesis by auto
  qed
qed

lemma descend_tree:
  assumes "rb_inv ord wfe t" "rb_descend (dir k) [] t = (q, s)"
  shows "inorder t = before_hole q @ inorder s @ after_hole q"
    "\<forall>x \<in> set (before_hole q). dir k x = GoRight" "\<forall>x \<in> set (after_hole q). dir k x = GoLeft"
  using descend_plug [OF assms(2)] inorder_plug [of q s] descend_sides [of "[]" t k q s] assms
  by (auto simp: rb_inv_def)

end

text \<open>A key that at most one entry of the tree answers to: the search is exact.\<close>

locale rb_ordered = rb_directed +
  assumes here_left: "wfe a \<Longrightarrow> wfe b \<Longrightarrow> ord a b \<Longrightarrow> dir k a = Here \<Longrightarrow> dir k b = GoLeft"
    and here_right: "wfe a \<Longrightarrow> wfe b \<Longrightarrow> ord a b \<Longrightarrow> dir k b = Here \<Longrightarrow> dir k a = GoRight"
begin

lemma search_Some_iff:
  assumes "rb_inv ord wfe t"
  shows "rb_search (dir k) t = Some x \<longleftrightarrow> x \<in> set (inorder t) \<and> dir k x = Here"
proof -
  obtain q s where qs: "rb_descend (dir k) [] t = (q, s)" by fastforce
  note tree = descend_tree [OF assms qs]
  show ?thesis
  proof (cases s)
    case RBNull
    then show ?thesis using tree qs by (auto simp: rb_search_def)
  next
    case (RBNode c l y r)
    have "dir k y = Here" using descend_focus [of "dir k" "[]" t q c l y r] qs RBNode by simp
    moreover have "sorted_wrt ord (inorder l @ y # inorder r)" "\<forall>z \<in> set (inorder l @ y # inorder r). wfe z"
      using assms tree(1) RBNode by (auto simp: rb_inv_def sorted_wrt_append)
    ultimately have "\<forall>z \<in> set (inorder l). dir k z = GoRight" "\<forall>z \<in> set (inorder r). dir k z = GoLeft"
      using here_left here_right by (auto simp: sorted_wrt_append)
    then show ?thesis using tree qs RBNode \<open>dir k y = Here\<close> by (auto simp: rb_search_def)
  qed
qed

lemma search_None_iff:
  assumes "rb_inv ord wfe t"
  shows "rb_search (dir k) t = None \<longleftrightarrow> (\<forall>x \<in> set (inorder t). dir k x \<noteq> Here)"
  using search_Some_iff [OF assms, of k] by (metis not_None_eq option.exhaust)

lemma search_unique:
  assumes "rb_inv ord wfe t" "x \<in> set (inorder t)" "y \<in> set (inorder t)" "dir k x = Here" "dir k y = Here"
  shows "x = y"
  using search_Some_iff [OF assms(1), of k] assms by (metis option.inject)

end

text \<open>Insertion of an entry by a descent for the entry's own key.\<close>

locale rb_keyed = rb_directed +
  fixes key :: "'a \<Rightarrow> 'k"
  assumes key_left: "wfe a \<Longrightarrow> wfe b \<Longrightarrow> dir (key a) b = GoLeft \<Longrightarrow> ord a b"
    and key_right: "wfe a \<Longrightarrow> wfe b \<Longrightarrow> dir (key a) b = GoRight \<Longrightarrow> ord b a"
begin

lemma insert_cases:
  assumes inv: "rb_inv ord wfe t" and x: "wfe x"
  shows "(\<exists>y \<in> set (inorder t). dir (key x) y = Here \<and> rb_insert_by (dir (key x)) x t = Occupied y) \<or>
    (\<exists>t' xs ys. (\<forall>y \<in> set (inorder t). dir (key x) y \<noteq> Here) \<and> rb_insert_by (dir (key x)) x t = Inserted t' \<and>
       rb_inv ord wfe t' \<and> inorder t = xs @ ys \<and> inorder t' = xs @ x # ys)"
proof -
  obtain q s where qs: "rb_descend (dir (key x)) [] t = (q, s)" by fastforce
  note tree = descend_tree [OF inv qs]
  show ?thesis
  proof (cases s)
    case RBNull
    with rb_insert_by_ok [of t "dir (key x)" x] inv qs obtain t' where
      t': "rb_insert_by (dir (key x)) x t = Inserted t'" "rb_wf t'" "inorder t' = before_hole q @ x # after_hole q"
      by (auto simp: rb_inv_def)
    have "\<forall>y \<in> set (before_hole q). ord y x" "\<forall>y \<in> set (after_hole q). ord x y"
      using tree inv x by (auto simp: rb_inv_def intro: key_left key_right)
    then have "rb_inv ord wfe t'" using inv t' tree(1) RBNull x
      by (auto simp: rb_inv_def intro: sorted_wrt_insert)
    moreover have "\<forall>y \<in> set (inorder t). dir (key x) y \<noteq> Here" using tree RBNull by auto
    ultimately show ?thesis using t' tree(1) RBNull by auto
  next
    case (RBNode c l y r)
    then show ?thesis using rb_insert_by_ok [of t "dir (key x)" x] inv qs tree(1) descend_focus [of "dir (key x)"]
      by (auto simp: rb_inv_def)
  qed
qed

end

section \<open>Trees ordered by a key\<close>

text \<open>
  The trees of devices, of cached L2 tables and of cached refcount blocks compare a number with
  the number stored in the entry. Such a tree is a partial map from numbers to entries.
\<close>

interpretation keyo: rb_ordered "key_less key" "key_dir key" "\<lambda>_. True" for key :: "'a \<Rightarrow> 'k::linorder"
  by unfold_locales (auto simp: key_less_def key_dir_def split: if_splits)

interpretation keyd: rb_keyed "key_less key" "key_dir key" "\<lambda>_. True" key for key :: "'a \<Rightarrow> 'k::linorder"
  by unfold_locales (auto simp: key_less_def key_dir_def split: if_splits)

lemma key_dir_here [simp]: "key_dir key k x = Here \<longleftrightarrow> key x = k"
  by (auto simp: key_dir_def)

lemma key_map_Some: "key_inv key t \<Longrightarrow> key_map key t k = Some x \<longleftrightarrow> x \<in> set (inorder t) \<and> key x = k"
  by (simp add: key_map_def keyo.search_Some_iff)

lemma key_map_None: "key_inv key t \<Longrightarrow> key_map key t k = None \<longleftrightarrow> k \<notin> key ` set (inorder t)"
  by (auto simp: key_map_def keyo.search_None_iff)

lemma key_inv_distinct: "key_inv key t \<Longrightarrow> distinct (map key (inorder t))"
proof -
  assume "key_inv key t"
  then have "sorted_wrt (<) (map key (inorder t))"
    by (simp add: rb_inv_def sorted_wrt_map key_less_def [abs_def])
  then show ?thesis by (simp add: strict_sorted_iff)
qed

lemma key_insert_cases:
  assumes "key_inv key t"
  obtains (occupied) y where "key_map key t (key x) = Some y" "rb_insert_by (key_dir key (key x)) x t = Occupied y"
  | (inserted) t' xs ys where "key_map key t (key x) = None" "rb_insert_by (key_dir key (key x)) x t = Inserted t'"
      "key_inv key t'" "inorder t = xs @ ys" "inorder t' = xs @ x # ys"
      "key_map key t' = (key_map key t)(key x \<mapsto> x)"
proof -
  consider (a) y where "y \<in> set (inorder t)" "key y = key x" "rb_insert_by (key_dir key (key x)) x t = Occupied y"
    | (b) t' xs ys where "\<forall>y \<in> set (inorder t). key y \<noteq> key x" "rb_insert_by (key_dir key (key x)) x t = Inserted t'"
      "key_inv key t'" "inorder t = xs @ ys" "inorder t' = xs @ x # ys"
    using keyd.insert_cases [OF assms, of x] by auto
  then show ?thesis
  proof cases
    case a
    then show ?thesis using assms occupied by (simp add: key_map_Some)
  next
    case b
    have "key_map key t' k = ((key_map key t)(key x \<mapsto> x)) k" for k
      by (rule option_eqI) (use b assms in \<open>auto simp: key_map_Some\<close>)
    then have "key_map key t' = (key_map key t)(key x \<mapsto> x)" by blast
    moreover have "key_map key t (key x) = None" using b(1) assms by (auto simp: key_map_None)
    ultimately show ?thesis using b inserted by blast
  qed
qed

lemma key_erase_cases:
  assumes inv: "key_inv key t" and x: "\<exists>x \<in> set (inorder t). P x"
  obtains t' xs x ys where "rb_erase_entry P t = Some t'" "key_inv key t'" "P x"
    "inorder t = xs @ x # ys" "inorder t' = xs @ ys" "key_map key t' = (key_map key t)(key x := None)"
proof -
  obtain t' xs x ys where t': "rb_erase_entry P t = Some t'" "key_inv key t'" "P x"
    "inorder t = xs @ x # ys" "inorder t' = xs @ ys"
    using rb_inv_erase [OF inv x] by blast
  have "key_map key t' k = ((key_map key t)(key x := None)) k" for k
    by (rule option_eqI) (use key_inv_distinct [OF inv] t' inv in \<open>auto simp: key_map_Some rev_image_eqI\<close>)
  then show ?thesis using that t' by blast
qed

section \<open>Properties\<close>

text \<open>
  C28: inserting a node at the NULL link where a descent ended (\<^verbatim>\<open>rb_link_node\<close> and
  \<^verbatim>\<open>rb_insert_color\<close>) never dereferences NULL, keeps every red-black property, and puts the entry
  exactly between its neighbours.
\<close>

theorem rb_insert_color_correct:
  assumes "rb_wf (rb_plug p RBNull)"
  shows "\<exists>t. rb_insert_color p (rb_link_node x) = Some t \<and> rb_wf t \<and>
     inorder (rb_plug p RBNull) = before_hole p @ after_hole p \<and>
     inorder t = before_hole p @ x # after_hole p"
proof -
  have ok: "path_ok p 0" using assms focus_rb_wf [of p RBNull] by (simp add: focus_ok_def)
  from insert_loop_ok [OF ok, of "rb_link_node x"] obtain t
    where t: "rb_insert_loop p (rb_link_node x) = Some t" "rb_wf t"
    by (auto simp: rb_link_node_def)
  with inorder_insert_loop [OF t(1)] show ?thesis
    by (auto simp: rb_insert_color_def rb_link_node_def inorder_plug)
qed

theorem rb_insert_color_correct_witness:
  "rb_wf (rb_plug [InRight RB_RED RBNull 2, InRight RB_BLACK (RBNode RB_RED RBNull 0 RBNull) (1::nat)] RBNull) \<and>
   (\<exists>t. rb_insert_color [InRight RB_RED RBNull 2, InRight RB_BLACK (RBNode RB_RED RBNull 0 RBNull) (1::nat)]
      (rb_link_node 3) = Some t \<and> inorder t = [0, 1, 2, 3])"
proof -
  have "rb_wf (rb_plug [InRight RB_RED RBNull 2, InRight RB_BLACK (RBNode RB_RED RBNull 0 RBNull) (1::nat)] RBNull)"
    by (simp add: rb_wf_def)
  from this rb_insert_color_correct [OF this, of 3] show ?thesis by auto
qed

text \<open>
  C29: \<^verbatim>\<open>rb_erase\<close> of any node of a well-formed tree never dereferences NULL, keeps every red-black
  property, and removes exactly that entry.
\<close>

theorem rb_erase_correct:
  assumes "rb_wf (rb_plug p (RBNode c l x r))"
  shows "\<exists>t. rb_erase p (RBNode c l x r) = Some t \<and> rb_wf t \<and>
     inorder (rb_plug p (RBNode c l x r)) = (before_hole p @ inorder l) @ x # (inorder r @ after_hole p) \<and>
     inorder t = (before_hole p @ inorder l) @ (inorder r @ after_hole p)"
  using rb_erase_ok [OF assms] by (auto simp: inorder_plug)

theorem rb_erase_correct_witness:
  "rb_wf (rb_plug [InLeft RB_BLACK (1::nat) (RBNode RB_BLACK RBNull 2 RBNull)] (RBNode RB_BLACK RBNull 0 RBNull)) \<and>
   (\<exists>t. rb_erase [InLeft RB_BLACK (1::nat) (RBNode RB_BLACK RBNull 2 RBNull)] (RBNode RB_BLACK RBNull 0 RBNull) = Some t \<and>
      inorder t = [1, 2])"
proof -
  have "rb_wf (rb_plug [InLeft RB_BLACK (1::nat) (RBNode RB_BLACK RBNull 2 RBNull)] (RBNode RB_BLACK RBNull 0 RBNull))"
    by (simp add: rb_wf_def)
  from this rb_erase_correct [OF this] show ?thesis by auto
qed



text \<open>
  \<^verbatim>\<open>rb_first\<close> is the smallest entry and \<^verbatim>\<open>rb_next\<close> of any entry is its successor in order, NULL
  exactly at the last one; \<^verbatim>\<open>rb_last\<close> and \<^verbatim>\<open>rb_prev\<close> are their mirror images.
\<close>

theorem rb_iteration_in_order:
  "(case inorder t of [] \<Rightarrow> rb_first t = None
    | x # xs \<Rightarrow> \<exists>pos. rb_first t = Some pos \<and> at_entry pos t [] x xs) \<and>
   (at_entry pos t xs x ys \<longrightarrow>
     (case ys of [] \<Rightarrow> rb_next pos = None
      | y # zs \<Rightarrow> \<exists>pos'. rb_next pos = Some pos' \<and> at_entry pos' t (xs @ [x]) y zs) \<and>
     (if xs = [] then rb_prev pos = None
      else \<exists>pos'. rb_prev pos = Some pos' \<and> at_entry pos' t (butlast xs) (last xs) (x # ys)))"
  using rb_first_correct [of t] rb_next_correct [of pos t xs x ys] rb_prev_correct [of pos t xs x ys]
  by blast

theorem rb_iteration_in_order_witness:
  "at_entry ([], RBNode RB_BLACK RBNull (0::nat) (RBNode RB_RED RBNull 1 RBNull))
     (RBNode RB_BLACK RBNull 0 (RBNode RB_RED RBNull 1 RBNull)) [] 0 [1] \<and>
   (\<exists>pos'. rb_next ([], RBNode RB_BLACK RBNull (0::nat) (RBNode RB_RED RBNull 1 RBNull)) = Some pos' \<and>
      at_entry pos' (RBNode RB_BLACK RBNull 0 (RBNode RB_RED RBNull 1 RBNull)) [0] 1 [])"
proof -
  have "at_entry ([], RBNode RB_BLACK RBNull (0::nat) (RBNode RB_RED RBNull 1 RBNull))
     (RBNode RB_BLACK RBNull 0 (RBNode RB_RED RBNull 1 RBNull)) [] 0 [1]"
    by (simp add: at_entry_def)
  with rb_iteration_in_order [of "RBNode RB_BLACK RBNull (0::nat) (RBNode RB_RED RBNull 1 RBNull)"
      "([], RBNode RB_BLACK RBNull (0::nat) (RBNode RB_RED RBNull 1 RBNull))" "[]" 0 "[1]"]
  show ?thesis by simp
qed

lemma rb_postorder_correct:
  "(case postorder t of [] \<Rightarrow> rb_first_postorder t = None
    | x # xs \<Rightarrow> \<exists>pos. rb_first_postorder t = Some pos \<and> at_post pos t [] x xs) \<and>
   (at_post pos t xs x ys \<longrightarrow>
     (case ys of [] \<Rightarrow> rb_next_postorder pos = None
      | y # zs \<Rightarrow> \<exists>pos'. rb_next_postorder pos = Some pos' \<and> at_post pos' t (xs @ [x]) y zs))"
proof (intro conjI impI)
  show "case postorder t of [] \<Rightarrow> rb_first_postorder t = None
    | x # xs \<Rightarrow> \<exists>pos. rb_first_postorder t = Some pos \<and> at_post pos t [] x xs"
    using left_deepest_at_post [of t "[]"] by (cases t) (auto split: list.splits)
next
  assume "at_post pos t xs x ys"
  then obtain p c l r where pos: "pos = (p, RBNode c l x r)" and t: "rb_plug p (RBNode c l x r) = t"
    and xs: "xs = post_before p @ postorder l @ postorder r" and ys: "ys = post_after p"
    by (auto simp: at_post_def)
  show "case ys of [] \<Rightarrow> rb_next_postorder pos = None
      | y # zs \<Rightarrow> \<exists>pos'. rb_next_postorder pos = Some pos' \<and> at_post pos' t (xs @ [x]) y zs"
  proof (cases p)
    case Nil
    then show ?thesis using pos ys by simp
  next
    case (Cons f q)
    show ?thesis
    proof (cases f)
      case (InLeft fc fx fr)
      then show ?thesis
        using Cons pos t xs ys left_deepest_at_post [of fr "InRight fc (RBNode c l x r) fx # q"]
        by (cases fr) (auto simp: at_post_def split: list.splits)
    next
      case (InRight fc fl fx)
      then show ?thesis using Cons pos t xs ys by (auto simp: at_post_def)
    qed
  qed
qed

end
