(* ===== verification/RBInterval.thy ===== *)
theory RBInterval
  imports RBTree
begin

text \<open>
  \<^verbatim>\<open>util/rbtree-interval.c\<close>: half-open intervals of addresses in a red-black tree. The structure
  that embeds the \<^verbatim>\<open>struct rb_int_node\<close> (a port, a memory mapping) is the field
  \<open>rb_container\<close>. The theory shows that the tree implements a partial map from addresses to
  containers: lookup of a point, lookup of a range, insertion of a disjoint interval and removal.
\<close>

section \<open>Intervals and operations\<close>

record 'd rb_int_node =
  rb_low :: u64
  rb_high :: u64
  rb_container :: 'd

definition int_point_dir :: "u64 \<Rightarrow> 'd rb_int_node \<Rightarrow> rb_dir" where
  "int_point_dir point cur =
     (if point < rb_low cur then GoLeft
      else if rb_high cur \<le> point then GoRight
      else Here)"

definition rb_int_search_single :: "'d rb_int_node rb_node \<Rightarrow> u64 \<Rightarrow> 'd rb_int_node option" where
  "rb_int_search_single root point = rb_search (int_point_dir point) root"

definition rb_int_search_range :: "'d rb_int_node rb_node \<Rightarrow> u64 \<Rightarrow> u64 \<Rightarrow> 'd rb_int_node option" where
  "rb_int_search_range root low high =
     (case rb_int_search_single root low of
        None \<Rightarrow> None
      | Some rng \<Rightarrow> if rb_high rng < high then None else Some rng)"

definition int_insert_dir :: "'d rb_int_node \<Rightarrow> 'd rb_int_node \<Rightarrow> rb_dir" where
  "int_insert_dir i_node cur =
     (if rb_high i_node \<le> rb_low cur then GoLeft
      else if rb_high cur \<le> rb_low i_node then GoRight
      else Here)"

text \<open>The new tree and the return code; \<open>None\<close> is a NULL dereference while rebalancing.\<close>

definition rb_int_insert :: "'d rb_int_node rb_node \<Rightarrow> 'd rb_int_node \<Rightarrow> ('d rb_int_node rb_node \<times> int) option" where
  "rb_int_insert root i_node =
     (case rb_insert_by (int_insert_dir i_node) i_node root of
        Inserted root' \<Rightarrow> Some (root', 0)
      | Occupied cur \<Rightarrow> Some (root, - EEXIST)
      | Crashed \<Rightarrow> None)"

definition rb_int_erase :: "'d rb_int_node rb_node \<Rightarrow> 'd rb_int_node \<Rightarrow> 'd rb_int_node rb_node option" where
  "rb_int_erase root node = rb_erase_entry (\<lambda>x. x = node) root"

section \<open>The invariant and the abstract map\<close>

definition int_before :: "'d rb_int_node \<Rightarrow> 'd rb_int_node \<Rightarrow> bool" where
  "int_before a b \<longleftrightarrow> rb_high a \<le> rb_low b"

definition int_ok :: "'d rb_int_node \<Rightarrow> bool" where
  "int_ok a \<longleftrightarrow> rb_low a < rb_high a"

abbreviation int_inv :: "'d rb_int_node rb_node \<Rightarrow> bool" where
  "int_inv \<equiv> rb_inv int_before int_ok"

definition int_contains :: "'d rb_int_node \<Rightarrow> u64 \<Rightarrow> bool" where
  "int_contains n a \<longleftrightarrow> rb_low n \<le> a \<and> a < rb_high n"

definition int_overlap :: "'d rb_int_node \<Rightarrow> 'd rb_int_node \<Rightarrow> bool" where
  "int_overlap a b \<longleftrightarrow> rb_low a < rb_high b \<and> rb_low b < rb_high a"

definition int_map :: "'d rb_int_node rb_node \<Rightarrow> u64 \<Rightarrow> 'd rb_int_node option" where
  "int_map root = (\<lambda>a. rb_int_search_single root a)"

lemma point_here: "int_point_dir k a = Here \<longleftrightarrow> int_contains a k"
  by (auto simp: int_point_dir_def int_contains_def)

lemma insert_here: "int_insert_dir a b = Here \<longleftrightarrow> int_overlap a b"
  by (auto simp: int_insert_dir_def int_overlap_def)

interpretation point: rb_ordered int_before int_point_dir int_ok
  by unfold_locales
     (auto simp: int_before_def int_point_dir_def int_ok_def split: if_splits)

interpretation ival: rb_keyed int_before int_insert_dir int_ok "\<lambda>x. x"
  by unfold_locales
     (auto simp: int_before_def int_insert_dir_def int_ok_def split: if_splits)

section \<open>Lookup\<close>

lemma search_single_iff:
  "int_inv t \<Longrightarrow> rb_int_search_single t p = Some n \<longleftrightarrow> n \<in> set (inorder t) \<and> int_contains n p"
  by (simp add: rb_int_search_single_def point.search_Some_iff point_here)

lemma search_single_None:
  "int_inv t \<Longrightarrow> rb_int_search_single t p = None \<longleftrightarrow> (\<forall>n \<in> set (inorder t). \<not> int_contains n p)"
  by (simp add: rb_int_search_single_def point.search_None_iff point_here)

lemma search_range_iff:
  "int_inv t \<Longrightarrow> rb_int_search_range t lo hi = Some n \<longleftrightarrow>
     n \<in> set (inorder t) \<and> int_contains n lo \<and> hi \<le> rb_high n"
proof -
  assume inv: "int_inv t"
  have "rb_int_search_range t lo hi = Some n \<longleftrightarrow> rb_int_search_single t lo = Some n \<and> hi \<le> rb_high n"
    by (auto simp: rb_int_search_range_def not_less split: option.splits)
  with inv show ?thesis by (auto simp: search_single_iff)
qed

lemma contains_overlap: "int_contains a p \<Longrightarrow> int_contains b p \<Longrightarrow> int_overlap a b"
  by (auto simp: int_contains_def int_overlap_def)

section \<open>Insertion and removal as map updates\<close>

lemma int_map_RBNull [simp]: "int_map RBNull a = None"
  by (simp add: int_map_def rb_int_search_single_def rb_search_def)

lemma rb_int_insert_cases:
  assumes "int_inv t" "int_ok n"
  obtains (overlap) m where "m \<in> set (inorder t)" "int_overlap n m" "rb_int_insert t n = Some (t, - EEXIST)"
  | (fresh) t' xs ys where "\<forall>m \<in> set (inorder t). \<not> int_overlap n m" "rb_int_insert t n = Some (t', 0)"
      "int_inv t'" "inorder t = xs @ ys" "inorder t' = xs @ n # ys"
  using ival.insert_cases [of t n] assms that by (auto simp: rb_int_insert_def insert_here)

lemma rb_int_insert_total:
  assumes "int_inv t" "int_ok n"
  shows "\<exists>t' r. rb_int_insert t n = Some (t', r) \<and> int_inv t' \<and> (r = 0 \<or> r = - EEXIST \<and> t' = t)"
  using assms by (cases rule: rb_int_insert_cases) (use assms in auto)

lemma int_map_insert:
  assumes inv: "int_inv t" "int_ok n" and ins: "rb_int_insert t n = Some (t', 0)"
  shows "int_map t' = (\<lambda>a. if int_contains n a then Some n else int_map t a)"
proof
  fix a
  from inv show "int_map t' a = (if int_contains n a then Some n else int_map t a)"
  proof (cases rule: rb_int_insert_cases)
    case overlap
    with ins show ?thesis by simp
  next
    case (fresh t2 xs ys)
    with ins have t': "t' = t2" by simp
    have set: "set (inorder t') = insert n (set (inorder t))" using fresh t' by auto
    have "int_map t' a = Some m \<longleftrightarrow> (if int_contains n a then Some n else int_map t a) = Some m" for m
      using set fresh inv t' contains_overlap by (auto simp: int_map_def search_single_iff)
    then show ?thesis by (rule option_eqI)
  qed
qed

lemma rb_int_erase_cases:
  assumes "int_inv t" "n \<in> set (inorder t)"
  obtains t' xs ys where "rb_int_erase t n = Some t'" "int_inv t'"
    "inorder t = xs @ n # ys" "inorder t' = xs @ ys"
  using rb_inv_erase [of int_before int_ok t "\<lambda>x. x = n"] assms that
  by (auto simp: rb_int_erase_def)

lemma int_inv_distinct: "int_inv t \<Longrightarrow> distinct (inorder t)"
proof -
  assume inv: "int_inv t"
  have "sorted_wrt (\<lambda>a b. a \<noteq> b) (inorder t)"
    by (rule sorted_wrt_mono_rel [of _ int_before])
       (use inv in \<open>auto simp: rb_inv_def int_before_def int_ok_def\<close>)
  then show ?thesis by (simp add: distinct_conv_nth sorted_wrt_iff_nth_less) (metis nat_neq_iff)
qed

lemma int_map_erase:
  assumes inv: "int_inv t" and n: "n \<in> set (inorder t)" and er: "rb_int_erase t n = Some t'"
  shows "int_map t' = (\<lambda>a. if int_contains n a then None else int_map t a)"
proof
  fix a
  from inv n show "int_map t' a = (if int_contains n a then None else int_map t a)"
  proof (cases rule: rb_int_erase_cases)
    case (1 t2 xs ys)
    with er have t': "t' = t2" by simp
    have set: "set (inorder t') = set (inorder t) - {n}"
      using 1 t' int_inv_distinct [OF inv] by auto
    have "int_map t' a = Some m \<longleftrightarrow> (if int_contains n a then None else int_map t a) = Some m" for m
      using set 1 inv n t' point.search_unique [OF inv, of _ _ a]
      by (auto simp: int_map_def search_single_iff point_here)
    then show ?thesis by (rule option_eqI)
  qed
qed

section \<open>Properties\<close>

text \<open>
  In a tree of disjoint non-empty intervals, \<^verbatim>\<open>rb_int_search_single\<close> returns an entry exactly
  when it is in the tree and contains the point, and \<^verbatim>\<open>rb_int_search_range\<close> exactly when in
  addition the range does not run past its end.
\<close>

theorem rb_int_search_correct:
  assumes "int_inv t"
  shows "(rb_int_search_single t p = Some n \<longleftrightarrow> n \<in> set (inorder t) \<and> rb_low n \<le> p \<and> p < rb_high n) \<and>
    (rb_int_search_range t p hi = Some n \<longleftrightarrow>
       n \<in> set (inorder t) \<and> rb_low n \<le> p \<and> p < rb_high n \<and> hi \<le> rb_high n)"
  using assms by (simp add: search_single_iff search_range_iff int_contains_def)

theorem rb_int_search_correct_witness:
  "rb_int_search_single (RBNode RB_BLACK RBNull \<lparr>rb_low = 4, rb_high = 8, rb_container = ()\<rparr> RBNull) 5 =
     Some \<lparr>rb_low = 4, rb_high = 8, rb_container = ()\<rparr>"
  using rb_int_search_correct [of "RBNode RB_BLACK RBNull \<lparr>rb_low = 4, rb_high = 8, rb_container = ()\<rparr> RBNull" 5]
  by (simp add: rb_inv_def rb_wf_def int_ok_def)

text \<open>
  \<^verbatim>\<open>rb_int_insert\<close> of a non-empty interval returns \<^verbatim>\<open>-EEXIST\<close> and leaves the tree alone exactly
  when the interval overlaps one in the tree; otherwise it returns 0, keeps the invariant, and
  the tree then maps the addresses of the interval to it and every other address as before.
\<close>

theorem rb_int_insert_correct:
  assumes "int_inv t" "rb_low n < rb_high n"
  shows "if \<exists>m \<in> set (inorder t). int_overlap n m
    then rb_int_insert t n = Some (t, - EEXIST)
    else \<exists>t'. rb_int_insert t n = Some (t', 0) \<and> int_inv t' \<and>
      set (inorder t') = insert n (set (inorder t)) \<and>
      (\<forall>a. rb_int_search_single t' a =
         (if rb_low n \<le> a \<and> a < rb_high n then Some n else rb_int_search_single t a))"
proof -
  have ok: "int_ok n" using assms by (simp add: int_ok_def)
  show ?thesis using assms(1) ok
  proof (cases rule: rb_int_insert_cases)
    case overlap
    then show ?thesis by auto
  next
    case (fresh t' xs ys)
    with int_map_insert [OF assms(1) ok fresh(2)] show ?thesis
      by (auto simp: int_map_def int_contains_def fun_eq_iff)
  qed
qed

theorem rb_int_insert_correct_witness:
  "(\<exists>t'. rb_int_insert (RBNode RB_BLACK RBNull \<lparr>rb_low = 4, rb_high = 8, rb_container = ()\<rparr> RBNull)
      \<lparr>rb_low = 8, rb_high = 9, rb_container = ()\<rparr> = Some (t', 0)) \<and>
   rb_int_insert (RBNode RB_BLACK RBNull \<lparr>rb_low = 4, rb_high = 8, rb_container = ()\<rparr> RBNull)
      \<lparr>rb_low = 7, rb_high = 9, rb_container = ()\<rparr> =
     Some (RBNode RB_BLACK RBNull \<lparr>rb_low = 4, rb_high = 8, rb_container = ()\<rparr> RBNull, - EEXIST)"
  using rb_int_insert_correct [of "RBNode RB_BLACK RBNull \<lparr>rb_low = 4, rb_high = 8, rb_container = ()\<rparr> RBNull"
      "\<lparr>rb_low = 8, rb_high = 9, rb_container = ()\<rparr>"]
    rb_int_insert_correct [of "RBNode RB_BLACK RBNull \<lparr>rb_low = 4, rb_high = 8, rb_container = ()\<rparr> RBNull"
      "\<lparr>rb_low = 7, rb_high = 9, rb_container = ()\<rparr>"]
  by (auto simp: rb_inv_def rb_wf_def int_ok_def int_overlap_def)

end
