(* ===== verification/Irq.thy ===== *)
theory Irq
  imports Prelude
begin

text \<open>
  \<^verbatim>\<open>irq.c\<close> and \<^verbatim>\<open>x86/irq.c\<close>: allocation of interrupt lines, and the table of GSI routes that is
  handed to the kernel. The state is the file's static variables. Memory exhaustion, the
  \<^verbatim>\<open>ioctl\<close>s and the routing callbacks of other architectures are arguments: \<open>oom n\<close> says that
  \<^verbatim>\<open>realloc\<close> fails for a table of \<open>n\<close> entries, \<open>set_routing\<close> is the result of
  \<^verbatim>\<open>KVM_SET_GSI_ROUTING\<close>, \<open>update_route\<close> the callback \<^verbatim>\<open>msi_routing_ops->update_route\<close>.
  The union \<^verbatim>\<open>u\<close> of a route is its first four 32-bit words: \<^verbatim>\<open>irqchip.irqchip\<close> and
  \<^verbatim>\<open>msi.address_lo\<close> are word 0, \<^verbatim>\<open>irqchip.pin\<close> and \<^verbatim>\<open>msi.address_hi\<close> word 1, \<^verbatim>\<open>msi.data\<close> word 2
  and \<^verbatim>\<open>msi.devid\<close> word 3.
\<close>

section \<open>State\<close>

record kvm_irq_routing_entry =
  rt_gsi :: u32
  rt_type :: u32
  rt_flags :: u32
  rt_u0 :: u32
  rt_u1 :: u32
  rt_u2 :: u32
  rt_u3 :: u32

record kvm_irq_routing =
  rt_nr :: nat
  rt_tflags :: u32
  rt_entries :: "kvm_irq_routing_entry list"

datatype rt_ptr = RtNull | RtFreed | RtTable kvm_irq_routing

record irq_state =
  next_line :: u8
  allocated_gsis :: nat
  next_gsi :: int
  irq_routing :: rt_ptr
  has_irq_routing :: int

record msi_msg =
  msg_address_lo :: u32
  msg_address_hi :: u32
  msg_data :: u32

definition KVM_IRQ_OFFSET :: u8 where "KVM_IRQ_OFFSET = 5"
definition KVM_IRQ_ROUTING_IRQCHIP :: u32 where "KVM_IRQ_ROUTING_IRQCHIP = 1"
definition KVM_IRQ_ROUTING_MSI :: u32 where "KVM_IRQ_ROUTING_MSI = 2"
definition KVM_MSI_VALID_DEVID :: u32 where "KVM_MSI_VALID_DEVID = 1"

definition rt_zero :: kvm_irq_routing_entry where
  "rt_zero = \<lparr>rt_gsi = 0, rt_type = 0, rt_flags = 0, rt_u0 = 0, rt_u1 = 0, rt_u2 = 0, rt_u3 = 0\<rparr>"

definition irq_state_init :: irq_state where
  "irq_state_init = \<lparr>next_line = KVM_IRQ_OFFSET, allocated_gsis = 0, next_gsi = 0,
     irq_routing = RtNull, has_irq_routing = 0\<rparr>"

section \<open>Lines\<close>

definition irq__alloc_line :: "irq_state \<Rightarrow> irq_state \<times> int" where
  "irq__alloc_line s = (s\<lparr>next_line := next_line s + 1\<rparr>, uint (next_line s))"

definition irq__get_nr_allocated_lines :: "irq_state \<Rightarrow> int" where
  "irq__get_nr_allocated_lines s = uint (next_line s) - uint KVM_IRQ_OFFSET"

section \<open>The routing table\<close>

definition align_up :: "nat \<Rightarrow> nat \<Rightarrow> nat" where
  "align_up x a = (x + (a - 1)) div a * a"

text \<open>\<^verbatim>\<open>realloc\<close> of a freed table is undefined. The flags of the table are reset on every growth.\<close>

definition irq__allocate_routing_entry :: "(nat \<Rightarrow> bool) \<Rightarrow> irq_state \<Rightarrow> (irq_state \<times> int) outcome" where
  "irq__allocate_routing_entry oom s =
     (case irq_routing s of
        RtFreed \<Rightarrow> Undefined
      | ptr \<Rightarrow>
         (let nr_entries = (case ptr of RtTable t \<Rightarrow> rt_nr t | _ \<Rightarrow> 0);
              old = (case ptr of RtTable t \<Rightarrow> rt_entries t | _ \<Rightarrow> []);
              old_gsis = allocated_gsis s
          in if nr_entries < old_gsis then Ret (s, 0)
             else let n = align_up (nr_entries + 1) 32 in
               if oom n then Ret (s\<lparr>allocated_gsis := n, irq_routing := RtNull\<rparr>, - ENOMEM)
               else Ret (s\<lparr>allocated_gsis := n,
                      irq_routing := RtTable \<lparr>rt_nr = nr_entries, rt_tflags = 0,
                        rt_entries = take old_gsis old @ replicate (n - old_gsis) rt_zero\<rparr>\<rparr>, 0)))"

text \<open>Storing at \<^verbatim>\<open>entries[nr++]\<close>: NULL, a freed table or an index outside the table is undefined.\<close>

definition push_route :: "kvm_irq_routing_entry \<Rightarrow> irq_state \<Rightarrow> irq_state outcome" where
  "push_route e s =
     (case irq_routing s of
        RtTable t \<Rightarrow>
          if rt_nr t < length (rt_entries t)
          then Ret (s\<lparr>irq_routing := RtTable (t\<lparr>rt_nr := rt_nr t + 1, rt_entries := (rt_entries t)[rt_nr t := e]\<rparr>)\<rparr>)
          else Undefined
      | _ \<Rightarrow> Undefined)"

definition irq__add_routing :: "(nat \<Rightarrow> bool) \<Rightarrow> u32 \<Rightarrow> u32 \<Rightarrow> u32 \<Rightarrow> u32 \<Rightarrow> irq_state \<Rightarrow> (irq_state \<times> int) outcome" where
  "irq__add_routing oom gsi type irqchip pin s =
     bind_outcome (irq__allocate_routing_entry oom s) (\<lambda>(s, r).
       if r \<noteq> 0 then Ret (s, r)
       else bind_outcome
         (push_route (rt_zero\<lparr>rt_gsi := gsi, rt_type := type, rt_u0 := irqchip, rt_u1 := pin\<rparr>) s)
         (\<lambda>s. Ret (s, 0)))"

fun add_routings :: "(nat \<Rightarrow> bool) \<Rightarrow> (nat \<times> nat \<times> nat) list \<Rightarrow> irq_state \<Rightarrow> irq_state outcome" where
  "add_routings oom [] s = Ret s"
| "add_routings oom ((gsi, irqchip, pin) # rs) s =
     bind_outcome (irq__add_routing oom (of_nat gsi) KVM_IRQ_ROUTING_IRQCHIP (of_nat irqchip) (of_nat pin) s)
       (\<lambda>(s, _). add_routings oom rs s)"

text \<open>The three loops of \<^verbatim>\<open>irq__init\<close>: (gsi, irqchip, pin) in the order of the calls.\<close>

definition irq_init_routes :: "(nat \<times> nat \<times> nat) list" where
  "irq_init_routes =
     map (\<lambda>i. (i, 0, i)) (filter (\<lambda>i. i \<noteq> 2) [0..<8]) @
     map (\<lambda>i. (i, 1, i - 8)) [8..<16] @
     map (\<lambda>i. (i, 2, if i = 0 then 2 else i)) (filter (\<lambda>i. i \<noteq> 2) [0..<24])"

definition irq__init :: "(nat \<Rightarrow> bool) \<Rightarrow> (rt_ptr \<Rightarrow> int) \<Rightarrow> int \<Rightarrow> irq_state \<Rightarrow> (irq_state \<times> int) outcome" where
  "irq__init oom set_routing errno s =
     bind_outcome (add_routings oom irq_init_routes s) (\<lambda>s.
       if set_routing (irq_routing s) \<noteq> 0 then Ret (s\<lparr>irq_routing := RtFreed\<rparr>, errno)
       else Ret (s\<lparr>next_gsi := 24\<rparr>, 0))"

definition irq__post_copy :: "(rt_ptr \<Rightarrow> int) \<Rightarrow> int \<Rightarrow> irq_state \<Rightarrow> irq_state \<times> int" where
  "irq__post_copy set_routing errno s =
     (if set_routing (irq_routing s) \<noteq> 0 then (s\<lparr>irq_routing := RtFreed\<rparr>, errno) else (s, 0))"

definition check_for_irq_routing :: "bool \<Rightarrow> irq_state \<Rightarrow> irq_state \<times> bool" where
  "check_for_irq_routing supported s =
     (let s' = (if has_irq_routing s = 0
                then s\<lparr>has_irq_routing := (if supported then 1 else -1)\<rparr> else s)
      in (s', has_irq_routing s' > 0))"

definition irq__add_msix_route ::
  "(nat \<Rightarrow> bool) \<Rightarrow> bool \<Rightarrow> bool \<Rightarrow> (rt_ptr \<Rightarrow> int) \<Rightarrow> msi_msg \<Rightarrow> u32 \<Rightarrow> irq_state \<Rightarrow> (irq_state \<times> int) outcome" where
  "irq__add_msix_route oom supported msix_needs_devid update_route msg device_id s =
     (case check_for_irq_routing supported s of (s, has) \<Rightarrow>
       if \<not> has then Ret (s, - ENXIO)
       else bind_outcome (irq__allocate_routing_entry oom s) (\<lambda>(s, r).
         if r \<noteq> 0 then Ret (s, r)
         else
           let entry = rt_zero\<lparr>rt_gsi := word_of_int (next_gsi s), rt_type := KVM_IRQ_ROUTING_MSI,
                 rt_u1 := msg_address_hi msg, rt_u0 := msg_address_lo msg, rt_u2 := msg_data msg\<rparr>;
               entry = (if msix_needs_devid
                        then entry\<lparr>rt_flags := KVM_MSI_VALID_DEVID, rt_u3 := device_id\<rparr> else entry)
           in bind_outcome (push_route entry s) (\<lambda>s.
                let r = update_route (irq_routing s) in
                if r \<noteq> 0 then Ret (s, r)
                else Ret (s\<lparr>next_gsi := next_gsi s + 1\<rparr>, next_gsi s))))"

text \<open>The linear search of \<^verbatim>\<open>irq__update_msix_route\<close>, over the first \<open>nr\<close> entries.\<close>

fun find_gsi :: "u32 \<Rightarrow> kvm_irq_routing_entry list \<Rightarrow> nat \<Rightarrow> nat option" where
  "find_gsi gsi [] i = None"
| "find_gsi gsi (e # es) i = (if gsi = rt_gsi e then Some i else find_gsi gsi es (i + 1))"

definition update_data :: "u32 \<Rightarrow> u32 \<Rightarrow> u32 \<times> bool" where
  "update_data old newdata = (if old = newdata then (old, False) else (newdata, True))"

definition irq__update_msix_route :: "(rt_ptr \<Rightarrow> int) \<Rightarrow> u32 \<Rightarrow> msi_msg \<Rightarrow> irq_state \<Rightarrow> irq_state outcome" where
  "irq__update_msix_route update_route gsi msg s =
     (case irq_routing s of
        RtTable t \<Rightarrow>
         (if length (rt_entries t) < rt_nr t then Undefined
          else case find_gsi gsi (take (rt_nr t) (rt_entries t)) 0 of
            None \<Rightarrow> Ret s
          | Some i \<Rightarrow>
              (let e = rt_entries t ! i;
                   (hi, c1) = update_data (rt_u1 e) (msg_address_hi msg);
                   (lo, c2) = update_data (rt_u0 e) (msg_address_lo msg);
                   (dat, c3) = update_data (rt_u2 e) (msg_data msg);
                   t' = t\<lparr>rt_entries := (rt_entries t)[i := e\<lparr>rt_u1 := hi, rt_u0 := lo, rt_u2 := dat\<rparr>]\<rparr>;
                   s' = s\<lparr>irq_routing := RtTable t'\<rparr>
               in if \<not> (c1 \<or> c2 \<or> c3) then Ret s
                  else if update_route (RtTable t') \<noteq> 0 then Dies
                  else Ret s'))
      | _ \<Rightarrow> Undefined)"

section \<open>irqfds\<close>

record kvm_irqfd =
  irqfd_fd :: int
  irqfd_gsi :: u32
  irqfd_flags :: u32
  irqfd_resamplefd :: int

definition irq__common_add_irqfd :: "(u32 \<Rightarrow> u32) option \<Rightarrow> u32 \<Rightarrow> int \<Rightarrow> int \<Rightarrow> kvm_irqfd" where
  "irq__common_add_irqfd translate_gsi gsi trigger_fd resample_fd =
     \<lparr>irqfd_fd = trigger_fd,
      irqfd_gsi = (case translate_gsi of None \<Rightarrow> gsi | Some f \<Rightarrow> f gsi),
      irqfd_flags = (if resample_fd > 0 then 2 else 0),
      irqfd_resamplefd = resample_fd\<rparr>"

definition irq__common_del_irqfd :: "(u32 \<Rightarrow> u32) option \<Rightarrow> u32 \<Rightarrow> int \<Rightarrow> kvm_irqfd" where
  "irq__common_del_irqfd translate_gsi gsi trigger_fd =
     \<lparr>irqfd_fd = trigger_fd,
      irqfd_gsi = (case translate_gsi of None \<Rightarrow> gsi | Some f \<Rightarrow> f gsi),
      irqfd_flags = 1, irqfd_resamplefd = 0\<rparr>"

definition irq__exit :: "irq_state \<Rightarrow> irq_state" where
  "irq__exit s = s\<lparr>irq_routing := RtFreed\<rparr>"

section \<open>The table invariant\<close>

text \<open>
  The table, when there is one, has exactly \<open>allocated_gsis\<close> slots, of which the first \<open>nr\<close> are
  used; before the first allocation there is no slot.
\<close>

definition irq_inv :: "irq_state \<Rightarrow> bool" where
  "irq_inv s \<longleftrightarrow>
     (case irq_routing s of
        RtNull \<Rightarrow> allocated_gsis s = 0
      | RtFreed \<Rightarrow> False
      | RtTable t \<Rightarrow> length (rt_entries t) = allocated_gsis s \<and> rt_nr t \<le> allocated_gsis s)"

definition irq_routes :: "irq_state \<Rightarrow> kvm_irq_routing_entry list" where
  "irq_routes s = (case irq_routing s of RtTable t \<Rightarrow> take (rt_nr t) (rt_entries t) | _ \<Rightarrow> [])"

definition fresh_gsi :: "irq_state \<Rightarrow> bool" where
  "fresh_gsi s \<longleftrightarrow> 0 \<le> next_gsi s \<and> next_gsi s < 2 ^ 32 \<and> (\<forall>e \<in> set (irq_routes s). uint (rt_gsi e) < next_gsi s)"

lemma irq_inv_next_gsi [simp]: "irq_inv (s\<lparr>next_gsi := n\<rparr>) = irq_inv s"
  by (simp add: irq_inv_def split: rt_ptr.splits)

lemma irq_routes_next_gsi [simp]: "irq_routes (s\<lparr>next_gsi := n\<rparr>) = irq_routes s"
  by (simp add: irq_routes_def)

lemma align_up_32: "x < align_up (x + 1) 32"
  by (simp add: align_up_def)

lemma allocate_ok:
  assumes "irq_inv s" "\<forall>n. \<not> oom n"
  obtains t s' where "irq__allocate_routing_entry oom s = Ret (s', 0)" "irq_routing s' = RtTable t"
    "rt_nr t < length (rt_entries t)" "irq_inv s'" "irq_routes s' = irq_routes s" "next_gsi s' = next_gsi s"
    "has_irq_routing s' = has_irq_routing s" "next_line s' = next_line s"
proof (cases "irq_routing s")
  case RtNull
  with assms show ?thesis using that align_up_32 [of 0]
    by (auto simp: irq__allocate_routing_entry_def irq_inv_def irq_routes_def Let_def)
next
  case RtFreed
  with assms show ?thesis by (simp add: irq_inv_def)
next
  case (RtTable t)
  with assms show ?thesis using that align_up_32 [of "rt_nr t"]
    by (cases "rt_nr t < allocated_gsis s")
       (auto simp: irq__allocate_routing_entry_def irq_inv_def irq_routes_def Let_def)
qed

lemma push_route_ok:
  assumes "irq_routing s = RtTable t" "rt_nr t < length (rt_entries t)" "irq_inv s"
  obtains s' where "push_route e s = Ret s'" "irq_inv s'" "irq_routes s' = irq_routes s @ [e]"
    "next_gsi s' = next_gsi s" "has_irq_routing s' = has_irq_routing s" "next_line s' = next_line s"
proof -
  have "take (Suc (rt_nr t)) ((rt_entries t)[rt_nr t := e]) = take (rt_nr t) (rt_entries t) @ [e]"
    using assms(2) by (simp add: take_Suc_conv_app_nth)
  with assms show ?thesis
    by (intro that [of "s\<lparr>irq_routing := RtTable (t\<lparr>rt_nr := rt_nr t + 1, rt_entries := (rt_entries t)[rt_nr t := e]\<rparr>)\<rparr>"])
       (auto simp: push_route_def irq_inv_def irq_routes_def)
qed

definition chip_entry :: "nat \<times> nat \<times> nat \<Rightarrow> kvm_irq_routing_entry" where
  "chip_entry = (\<lambda>(gsi, irqchip, pin). rt_zero\<lparr>rt_gsi := of_nat gsi, rt_type := KVM_IRQ_ROUTING_IRQCHIP,
     rt_u0 := of_nat irqchip, rt_u1 := of_nat pin\<rparr>)"

lemma add_routing_ok:
  assumes "irq_inv s" "\<forall>n. \<not> oom n"
  obtains s' where "irq__add_routing oom (of_nat g) KVM_IRQ_ROUTING_IRQCHIP (of_nat c) (of_nat p) s = Ret (s', 0)"
    "irq_inv s'" "irq_routes s' = irq_routes s @ [chip_entry (g, c, p)]" "next_gsi s' = next_gsi s"
proof -
  obtain t s1 where 1: "irq__allocate_routing_entry oom s = Ret (s1, 0)" "irq_routing s1 = RtTable t"
    "rt_nr t < length (rt_entries t)" "irq_inv s1" "irq_routes s1 = irq_routes s" "next_gsi s1 = next_gsi s"
    using allocate_ok [OF assms] by metis
  obtain s2 where "push_route (chip_entry (g, c, p)) s1 = Ret s2" "irq_inv s2"
    "irq_routes s2 = irq_routes s1 @ [chip_entry (g, c, p)]" "next_gsi s2 = next_gsi s1"
    using push_route_ok [OF 1(2-4)] by metis
  with 1 show ?thesis by (intro that [of s2]) (auto simp: irq__add_routing_def chip_entry_def)
qed

lemma add_routings_ok:
  assumes "\<forall>n. \<not> oom n"
  shows "irq_inv s \<Longrightarrow> \<exists>s'. add_routings oom rs s = Ret s' \<and> irq_inv s' \<and>
     irq_routes s' = irq_routes s @ map chip_entry rs \<and> next_gsi s' = next_gsi s"
proof (induction rs arbitrary: s)
  case (Cons x rs)
  obtain g c p where x: "x = (g, c, p)" by (cases x)
  obtain s1 where 1: "irq__add_routing oom (of_nat g) KVM_IRQ_ROUTING_IRQCHIP (of_nat c) (of_nat p) s = Ret (s1, 0)"
    "irq_inv s1" "irq_routes s1 = irq_routes s @ [chip_entry (g, c, p)]" "next_gsi s1 = next_gsi s"
    using add_routing_ok [OF Cons.prems assms] by blast
  from Cons.IH [OF 1(2)] 1 x show ?case by auto
qed simp

lemma irq_inv_init: "irq_inv irq_state_init" "irq_routes irq_state_init = []"
  by (simp_all add: irq_inv_def irq_routes_def irq_state_init_def)

lemma irq_init_routes_simp:
  "irq_init_routes =
    [(0,0,0),(1,0,1),(3,0,3),(4,0,4),(5,0,5),(6,0,6),(7,0,7),
     (8,1,0),(9,1,1),(10,1,2),(11,1,3),(12,1,4),(13,1,5),(14,1,6),(15,1,7),
     (0,2,2),(1,2,1),(3,2,3),(4,2,4),(5,2,5),(6,2,6),(7,2,7),(8,2,8),(9,2,9),(10,2,10),(11,2,11),
     (12,2,12),(13,2,13),(14,2,14),(15,2,15),(16,2,16),(17,2,17),(18,2,18),(19,2,19),(20,2,20),
     (21,2,21),(22,2,22),(23,2,23)]"
  by code_simp

lemma find_gsi_Some:
  "find_gsi gsi es k = Some i \<Longrightarrow>
     k \<le> i \<and> i - k < length es \<and> rt_gsi (es ! (i - k)) = gsi \<and> (\<forall>j < i - k. rt_gsi (es ! j) \<noteq> gsi)"
proof (induction gsi es k rule: find_gsi.induct)
  case (2 gsi e es k)
  show ?case
  proof (cases "gsi = rt_gsi e")
    case False
    with 2 have "Suc k \<le> i" "i - Suc k < length es" "rt_gsi (es ! (i - Suc k)) = gsi"
      "\<forall>j < i - Suc k. rt_gsi (es ! j) \<noteq> gsi" by auto
    moreover from this have "i - k = Suc (i - Suc k)" by simp
    ultimately show ?thesis using False by (auto simp: less_Suc_eq_0_disj)
  qed (use 2 in auto)
qed simp

lemma find_gsi_None: "find_gsi gsi es k = None \<longleftrightarrow> gsi \<notin> rt_gsi ` set es"
  by (induction gsi es k rule: find_gsi.induct) auto

section \<open>Properties\<close>

text \<open>
  \<^verbatim>\<open>irq__init\<close> on x86, when memory suffices and the kernel takes the table, stores the 38 routes
  of the master PIC, the slave PIC and the IOAPIC in that order, inside the table, and leaves
  \<open>next_gsi\<close> above every GSI in use.
\<close>

theorem irq__init_routes:
  assumes "\<forall>n. \<not> oom n" "\<forall>t. set_routing t = 0"
  shows "\<exists>s. irq__init oom set_routing errno irq_state_init = Ret (s, 0) \<and> irq_inv s \<and>
    length (irq_routes s) = 38 \<and> map rt_gsi (take 15 (irq_routes s)) = [0,1,3,4,5,6,7,8,9,10,11,12,13,14,15] \<and>
    next_gsi s = 24 \<and> fresh_gsi s"
proof -
  obtain s where s: "add_routings oom irq_init_routes irq_state_init = Ret s" "irq_inv s"
     "irq_routes s = map chip_entry irq_init_routes"
    using add_routings_ok [OF assms(1) irq_inv_init(1), of irq_init_routes] irq_inv_init(2) by auto
  let ?s = "s\<lparr>next_gsi := 24\<rparr>"
  have "irq__init oom set_routing errno irq_state_init = Ret (?s, 0)"
    using s assms by (simp add: irq__init_def)
  then show ?thesis using s
    by (intro exI [of _ ?s]) (simp add: irq_init_routes_simp chip_entry_def rt_zero_def fresh_gsi_def)
qed

theorem irq__init_routes_witness:
  "\<exists>s. irq__init (\<lambda>_. False) (\<lambda>_. 0) 0 irq_state_init = Ret (s, 0) \<and> next_gsi s = 24"
  using irq__init_routes [of "\<lambda>_. False" "\<lambda>_. 0" 0] by auto

text \<open>
  \<^verbatim>\<open>irq__add_msix_route\<close>, when memory suffices, routing is supported and the update succeeds,
  returns the next GSI, which no earlier route uses, appends exactly one MSI route carrying the
  message (and the device id when one is needed), never writes outside the table, and keeps
  the table invariant and the freshness of the next GSI.
\<close>

theorem irq__add_msix_route_correct:
  assumes "irq_inv s" "\<forall>n. \<not> oom n" "has_irq_routing s > 0" "\<forall>t. update_route t = 0"
    and "fresh_gsi s" "next_gsi s + 1 < 2 ^ 32"
  shows "\<exists>s' e. irq__add_msix_route oom supp devid update_route msg device_id s = Ret (s', next_gsi s) \<and>
     irq_inv s' \<and> fresh_gsi s' \<and> irq_routes s' = irq_routes s @ [e] \<and>
     uint (rt_gsi e) = next_gsi s \<and> rt_gsi e \<notin> rt_gsi ` set (irq_routes s) \<and> rt_type e = KVM_IRQ_ROUTING_MSI \<and>
     rt_u0 e = msg_address_lo msg \<and> rt_u1 e = msg_address_hi msg \<and> rt_u2 e = msg_data msg \<and>
     (devid \<longrightarrow> rt_flags e = KVM_MSI_VALID_DEVID \<and> rt_u3 e = device_id)"
proof -
  define e where "e = (let entry = rt_zero\<lparr>rt_gsi := word_of_int (next_gsi s), rt_type := KVM_IRQ_ROUTING_MSI,
                 rt_u1 := msg_address_hi msg, rt_u0 := msg_address_lo msg, rt_u2 := msg_data msg\<rparr>
           in if devid then entry\<lparr>rt_flags := KVM_MSI_VALID_DEVID, rt_u3 := device_id\<rparr> else entry)"
  obtain t s1 where 1: "irq__allocate_routing_entry oom s = Ret (s1, 0)" "irq_routing s1 = RtTable t"
    "rt_nr t < length (rt_entries t)" "irq_inv s1" "irq_routes s1 = irq_routes s" "next_gsi s1 = next_gsi s"
    using allocate_ok [OF assms(1,2)] by metis
  obtain s2 where 2: "push_route e s1 = Ret s2" "irq_inv s2" "irq_routes s2 = irq_routes s @ [e]"
    "next_gsi s2 = next_gsi s"
    using push_route_ok [OF 1(2-4)] 1(5,6) by metis
  have gsi: "uint (rt_gsi e) = next_gsi s"
    using assms(5) by (simp add: e_def Let_def fresh_gsi_def uint_word_of_int)
  let ?s = "s2\<lparr>next_gsi := next_gsi s + 1\<rparr>"
  have "irq__add_msix_route oom supp devid update_route msg device_id s = Ret (?s, next_gsi s)"
    using 1 2 assms(3,4) by (simp add: irq__add_msix_route_def check_for_irq_routing_def e_def Let_def)
  moreover have "irq_inv ?s" "irq_routes ?s = irq_routes s @ [e]"
    using 2 by simp_all
  moreover have "fresh_gsi ?s"
    using assms(5,6) gsi \<open>irq_routes ?s = irq_routes s @ [e]\<close> by (auto simp: fresh_gsi_def)
  moreover have "rt_gsi e \<notin> rt_gsi ` set (irq_routes s)" using assms(5) gsi by (auto simp: fresh_gsi_def)
  ultimately show ?thesis using gsi by (intro exI [of _ ?s] exI [of _ e]) (auto simp: e_def Let_def)
qed

theorem irq__add_msix_route_correct_witness:
  "\<exists>s'. irq__add_msix_route (\<lambda>_. False) True True (\<lambda>_. 0)
      \<lparr>msg_address_lo = 0xfee00000, msg_address_hi = 0, msg_data = 0x41\<rparr> 8
      (irq_state_init\<lparr>next_gsi := 24, has_irq_routing := 1\<rparr>) = Ret (s', 24)"
  using irq__add_msix_route_correct [of "irq_state_init\<lparr>next_gsi := 24, has_irq_routing := 1\<rparr>" "\<lambda>_. False" "\<lambda>_. 0"
      True True "\<lparr>msg_address_lo = 0xfee00000, msg_address_hi = 0, msg_data = 0x41\<rparr>" 8]
  by (auto simp: irq_inv_def irq_state_init_def fresh_gsi_def irq_routes_def)

text \<open>
  \<^verbatim>\<open>irq__update_msix_route\<close> on a table in order changes nothing when no route has the GSI, and
  otherwise rewrites the message of the first route with that GSI and nothing else; the kernel
  is told only when the message changed, and a refusal ends the process.
\<close>

theorem irq__update_msix_route_correct:
  assumes "irq_routing s = RtTable t" "irq_inv s"
  shows "if gsi \<notin> rt_gsi ` set (irq_routes s) then irq__update_msix_route upd gsi msg s = Ret s
    else \<exists>i e e'. i < length (irq_routes s) \<and> e = irq_routes s ! i \<and> rt_gsi e = gsi \<and>
      (\<forall>j < i. rt_gsi (irq_routes s ! j) \<noteq> gsi) \<and>
      e' = e\<lparr>rt_u1 := msg_address_hi msg, rt_u0 := msg_address_lo msg, rt_u2 := msg_data msg\<rparr> \<and>
      (case irq__update_msix_route upd gsi msg s of
         Ret s' \<Rightarrow> irq_inv s' \<and> irq_routes s' = (irq_routes s)[i := e'] \<and> next_gsi s' = next_gsi s
       | Dies \<Rightarrow> e' \<noteq> e \<and> (\<exists>t'. upd t' \<noteq> 0)
       | Undefined \<Rightarrow> False)"
proof (cases "find_gsi gsi (take (rt_nr t) (rt_entries t)) 0")
  case None
  then have "gsi \<notin> rt_gsi ` set (irq_routes s)" using assms(1) by (simp add: find_gsi_None irq_routes_def)
  with None assms show ?thesis by (simp add: irq__update_msix_route_def irq_inv_def)
next
  case (Some i)
  have len: "rt_nr t \<le> length (rt_entries t)" using assms by (simp add: irq_inv_def)
  have i: "i < rt_nr t" "rt_gsi (rt_entries t ! i) = gsi" "\<forall>j < i. rt_gsi (irq_routes s ! j) \<noteq> gsi"
    using find_gsi_Some [OF Some] len assms(1) by (auto simp: irq_routes_def)
  define e where "e = rt_entries t ! i"
  define e' where "e' = e\<lparr>rt_u1 := msg_address_hi msg, rt_u0 := msg_address_lo msg, rt_u2 := msg_data msg\<rparr>"
  define t' where "t' = t\<lparr>rt_entries := (rt_entries t)[i := e']\<rparr>"
  have same: "e' = e \<longleftrightarrow> rt_u1 e = msg_address_hi msg \<and> rt_u0 e = msg_address_lo msg \<and> rt_u2 e = msg_data msg"
    unfolding e'_def by (cases e) auto
  have eq: "irq__update_msix_route upd gsi msg s =
      (if e' = e then Ret s else if upd (RtTable t') \<noteq> 0 then Dies else Ret (s\<lparr>irq_routing := RtTable t'\<rparr>))"
    using assms(1) Some len same
    by (simp add: irq__update_msix_route_def update_data_def Let_def e_def [symmetric] e'_def t'_def not_less)
  have nth: "i < length (irq_routes s)" "irq_routes s ! i = e"
    using i len assms(1) by (simp_all add: irq_routes_def e_def)
  have upd: "irq_routes (s\<lparr>irq_routing := RtTable t'\<rparr>) = (irq_routes s)[i := e']"
    using assms(1) by (simp add: irq_routes_def t'_def take_update_swap)
  have inv: "irq_inv (s\<lparr>irq_routing := RtTable t'\<rparr>)" using assms by (simp add: irq_inv_def t'_def)
  have used: "\<not> gsi \<notin> rt_gsi ` set (irq_routes s)" using nth i(2) nth_mem [OF nth(1)] by (auto simp: e_def)
  have id: "e' = e \<Longrightarrow> irq_routes s = (irq_routes s)[i := e']" using nth by (metis list_update_id)
  have res: "case irq__update_msix_route upd gsi msg s of
         Ret s' \<Rightarrow> irq_inv s' \<and> irq_routes s' = (irq_routes s)[i := e'] \<and> next_gsi s' = next_gsi s
       | Dies \<Rightarrow> e' \<noteq> e \<and> (\<exists>t'. upd t' \<noteq> 0)
       | Undefined \<Rightarrow> False"
    using eq id upd inv assms(2) by auto
  have "rt_gsi e = gsi" "e = irq_routes s ! i" using i(2) nth by (auto simp: e_def)
  with res nth(1) i(3) show ?thesis unfolding if_not_P [OF used] e'_def by blast
qed

theorem irq__update_msix_route_correct_witness:
  "\<exists>s'. irq__update_msix_route (\<lambda>_. 0) 7 \<lparr>msg_address_lo = 1, msg_address_hi = 2, msg_data = 3\<rparr>
      (irq_state_init\<lparr>allocated_gsis := 1, irq_routing := RtTable \<lparr>rt_nr = 1, rt_tflags = 0,
         rt_entries = [rt_zero\<lparr>rt_gsi := 7\<rparr>]\<rparr>\<rparr>) = Ret s' \<and>
     irq_routes s' = [rt_zero\<lparr>rt_gsi := 7, rt_u0 := 1, rt_u1 := 2, rt_u2 := 3\<rparr>]"
  using irq__update_msix_route_correct [of "irq_state_init\<lparr>allocated_gsis := 1, irq_routing :=
       RtTable \<lparr>rt_nr = 1, rt_tflags = 0, rt_entries = [rt_zero\<lparr>rt_gsi := 7\<rparr>]\<rparr>\<rparr>"
      "\<lparr>rt_nr = 1, rt_tflags = 0, rt_entries = [rt_zero\<lparr>rt_gsi := 7\<rparr>]\<rparr>" 7 "\<lambda>_. 0"
      "\<lparr>msg_address_lo = 1, msg_address_hi = 2, msg_data = 3\<rparr>"]
  by (simp add: irq_inv_def irq_routes_def rt_zero_def split: outcome.splits)

text \<open>
  After \<^verbatim>\<open>irq__allocate_routing_entry\<close> has run out of memory, \<open>allocated_gsis\<close> already counts the
  slots of the table that was not allocated, so the next \<^verbatim>\<open>irq__add_msix_route\<close> takes the slot
  for granted and dereferences the NULL table.
\<close>

theorem irq__add_msix_route_after_oom:
  assumes "irq_inv s" "\<forall>n. oom n" "irq__allocate_routing_entry oom s = Ret (s', - ENOMEM)"
    and "has_irq_routing s > 0"
  shows "irq__add_msix_route oom2 supp devid upd msg device_id s' = Undefined"
proof -
  have s': "irq_routing s' = RtNull" "allocated_gsis s' > 0" "has_irq_routing s' = has_irq_routing s"
    using assms(1-3) align_up_32 [of 0] align_up_32 [of "rt_nr (case irq_routing s of RtTable t \<Rightarrow> t)"]
    by (auto simp: irq__allocate_routing_entry_def Let_def irq_inv_def split: rt_ptr.splits if_splits)
  then show ?thesis using assms(4)
    by (simp add: irq__add_msix_route_def check_for_irq_routing_def irq__allocate_routing_entry_def Let_def push_route_def)
qed

theorem irq__add_msix_route_after_oom_witness:
  "\<exists>s'. irq__allocate_routing_entry (\<lambda>_. True) (irq_state_init\<lparr>has_irq_routing := 1\<rparr>) = Ret (s', - ENOMEM) \<and>
     irq__add_msix_route (\<lambda>_. False) True False (\<lambda>_. 0)
       \<lparr>msg_address_lo = 0, msg_address_hi = 0, msg_data = 0\<rparr> 0 s' = Undefined"
proof -
  have inv: "irq_inv (irq_state_init\<lparr>has_irq_routing := 1\<rparr>)" by (simp add: irq_inv_def irq_state_init_def)
  obtain s' where s': "irq__allocate_routing_entry (\<lambda>_. True) (irq_state_init\<lparr>has_irq_routing := 1\<rparr>) = Ret (s', - ENOMEM)"
    by (simp add: irq__allocate_routing_entry_def irq_state_init_def Let_def)
  show ?thesis using s' irq__add_msix_route_after_oom [OF inv _ s'] by auto
qed

section \<open>Driving a line\<close>

text \<open>
  \<^verbatim>\<open>kvm__irq_line\<close> of \<^verbatim>\<open>x86/kvm.c\<close>: the sequence of levels driven on the lines, one \<^verbatim>\<open>KVM_IRQ_LINE\<close>
  request each (a failed request ends the program).
\<close>

type_synonym irq_events = "(u8 \<times> bool) list"

definition kvm__irq_line :: "u8 \<Rightarrow> bool \<Rightarrow> irq_events \<Rightarrow> irq_events" where
  "kvm__irq_line irq level ev = ev @ [(irq, level)]"

definition kvm__irq_trigger :: "u8 \<Rightarrow> irq_events \<Rightarrow> irq_events" where
  "kvm__irq_trigger irq ev = kvm__irq_line irq False (kvm__irq_line irq True ev)"

text \<open>The level a line was last driven to; lines start low.\<close>

definition line_high :: "u8 \<Rightarrow> irq_events \<Rightarrow> bool" where
  "line_high irq ev = (let es = filter (\<lambda>e. fst e = irq) ev in es \<noteq> [] \<and> snd (last es))"

lemma line_high_Nil [simp]: "\<not> line_high irq []"
  by (simp add: line_high_def)

lemma line_high_irq_line [simp]: "line_high irq (kvm__irq_line irq' l ev) = (if irq = irq' then l else line_high irq ev)"
  by (auto simp: line_high_def kvm__irq_line_def Let_def)

end
