(* ===== verification/Devices.thy ===== *)
theory Devices
  imports RBTree Irq
begin

text \<open>
  \<^verbatim>\<open>devices.c\<close>, the registry of devices per bus, with the two functions it calls to give a new
  device its interrupt line (\<^verbatim>\<open>pci__assign_irq\<close> of \<^verbatim>\<open>pci.c\<close> and \<^verbatim>\<open>virtio_mmio_assign_irq\<close> of
  \<^verbatim>\<open>virtio/mmio.c\<close>).

  A \<^verbatim>\<open>struct device_header\<close> is a record with its own address, so that two headers can be told
  apart; \<open>dh_data\<close> is the address its \<^verbatim>\<open>data\<close> field holds. The PCI headers those point to live in
  a store indexed by address. A bus is the tree of its devices ordered by number, and the
  next number.
\<close>

section \<open>State\<close>

definition DEVICE_BUS_PCI :: nat where "DEVICE_BUS_PCI = 0"
definition DEVICE_BUS_MMIO :: nat where "DEVICE_BUS_MMIO = 1"
definition DEVICE_BUS_IOPORT :: nat where "DEVICE_BUS_IOPORT = 2"
definition DEVICE_BUS_MAX :: nat where "DEVICE_BUS_MAX = 3"

lemmas bus_defs = DEVICE_BUS_PCI_def DEVICE_BUS_MMIO_def DEVICE_BUS_IOPORT_def DEVICE_BUS_MAX_def

record device_header =
  dh_addr :: nat
  dh_bus_type :: nat
  dh_data :: nat
  dh_dev_num :: int

record device_bus =
  bus_root :: "device_header rb_node"
  bus_dev_num :: int

text \<open>
  \<^verbatim>\<open>struct pci_device_header\<close>: the 256 bytes of configuration space seen by the guest and the
  private fields. \<^verbatim>\<open>irq_line\<close> is byte 60 and \<^verbatim>\<open>irq_pin\<close> byte 61.
\<close>

record pci_device_header =
  pci_cfg :: "u8 list"
  pci_bar_size :: "u32 list"
  pci_irq_type :: nat

definition IRQ_TYPE_EDGE_RISING :: nat where "IRQ_TYPE_EDGE_RISING = 1"

record dev_state =
  device_trees :: "device_bus list"
  dev_irq :: irq_state
  pci_hdrs :: "nat \<Rightarrow> pci_device_header"
  mmio_irq :: "nat \<Rightarrow> u8"

definition dev_state_init :: "(nat \<Rightarrow> pci_device_header) \<Rightarrow> dev_state" where
  "dev_state_init hdrs =
     \<lparr>device_trees = replicate DEVICE_BUS_MAX \<lparr>bus_root = RBNull, bus_dev_num = 0\<rparr>,
      dev_irq = irq_state_init, pci_hdrs = hdrs, mmio_irq = (\<lambda>_. 0)\<rparr>"

section \<open>Operations\<close>

definition pci__assign_irq :: "device_header \<Rightarrow> dev_state \<Rightarrow> dev_state" where
  "pci__assign_irq dev s =
     (let (irq, line) = irq__alloc_line (dev_irq s);
          h = pci_hdrs s (dh_data dev);
          h = h\<lparr>pci_cfg := (pci_cfg h)[61 := 1, 60 := word_of_int line]\<rparr>;
          h = (if pci_irq_type h = 0 then h\<lparr>pci_irq_type := IRQ_TYPE_EDGE_RISING\<rparr> else h)
      in s\<lparr>dev_irq := irq, pci_hdrs := (pci_hdrs s)(dh_data dev := h)\<rparr>)"

definition virtio_mmio_assign_irq :: "device_header \<Rightarrow> dev_state \<Rightarrow> dev_state" where
  "virtio_mmio_assign_irq dev s =
     (let (irq, line) = irq__alloc_line (dev_irq s)
      in s\<lparr>dev_irq := irq, mmio_irq := (mmio_irq s)(dh_addr dev := word_of_int line)\<rparr>)"

text \<open>The new state, the header with its number, and the return code.\<close>

definition device__register :: "device_header \<Rightarrow> dev_state \<Rightarrow> (dev_state \<times> device_header \<times> int) outcome" where
  "device__register dev s =
     (if dh_bus_type dev \<ge> DEVICE_BUS_MAX then Ret (s, dev, - EINVAL)
      else
        let bus = device_trees s ! dh_bus_type dev;
            dev = dev\<lparr>dh_dev_num := bus_dev_num bus\<rparr>;
            bus = bus\<lparr>bus_dev_num := bus_dev_num bus + 1\<rparr>;
            s = s\<lparr>device_trees := (device_trees s)[dh_bus_type dev := bus]\<rparr>;
            s = (if dh_bus_type dev = DEVICE_BUS_PCI then pci__assign_irq dev s
                 else if dh_bus_type dev = DEVICE_BUS_MMIO then virtio_mmio_assign_irq dev s
                 else s)
        in case rb_insert_by (key_dir dh_dev_num (dh_dev_num dev)) dev (bus_root bus) of
             Occupied _ \<Rightarrow> Ret (s, dev, - EEXIST)
           | Inserted root \<Rightarrow>
               Ret (s\<lparr>device_trees := (device_trees s)[dh_bus_type dev := bus\<lparr>bus_root := root\<rparr>]\<rparr>, dev, 0)
           | Crashed \<Rightarrow> Undefined)"

definition device__unregister :: "device_header \<Rightarrow> dev_state \<Rightarrow> dev_state outcome" where
  "device__unregister dev s =
     (if dh_bus_type dev \<ge> length (device_trees s) then Undefined
      else
        let bus = device_trees s ! dh_bus_type dev
        in case rb_erase_entry (\<lambda>d. d = dev) (bus_root bus) of
             None \<Rightarrow> Undefined
           | Some root \<Rightarrow> Ret (s\<lparr>device_trees := (device_trees s)[dh_bus_type dev := bus\<lparr>bus_root := root\<rparr>]\<rparr>))"

text \<open>\<open>Inl\<close> is \<^verbatim>\<open>ERR_PTR(-EINVAL)\<close>, \<open>Inr None\<close> is NULL. The number searched for is a \<^verbatim>\<open>u8\<close>.\<close>

definition device__find_dev :: "dev_state \<Rightarrow> nat \<Rightarrow> u8 \<Rightarrow> int + device_header option" where
  "device__find_dev s bus_type dev_num =
     (if bus_type \<ge> DEVICE_BUS_MAX then Inl (- EINVAL)
      else Inr (rb_search (key_dir dh_dev_num (uint dev_num)) (bus_root (device_trees s ! bus_type))))"

definition device__first_dev :: "dev_state \<Rightarrow> nat \<Rightarrow> device_header option" where
  "device__first_dev s bus_type =
     (if bus_type \<ge> DEVICE_BUS_MAX then None
      else case rb_first (bus_root (device_trees s ! bus_type)) of
             None \<Rightarrow> None
           | Some (p, n) \<Rightarrow> rb_entry n)"

text \<open>\<^verbatim>\<open>rb_next(&dev->node)\<close>: \<open>dev\<close> is a device of the tree of its bus.\<close>

definition device__next_dev :: "dev_state \<Rightarrow> device_header \<Rightarrow> device_header option outcome" where
  "device__next_dev s dev =
     (case rb_locate (\<lambda>d. d = dev) [] (bus_root (device_trees s ! dh_bus_type dev)) of
        None \<Rightarrow> Undefined
      | Some pos \<Rightarrow> Ret (case rb_next pos of None \<Rightarrow> None | Some (p, n) \<Rightarrow> rb_entry n))"

section \<open>The registry invariant\<close>

definition bus_ok :: "nat \<Rightarrow> device_bus \<Rightarrow> bool" where
  "bus_ok b bus \<longleftrightarrow> key_inv dh_dev_num (bus_root bus) \<and> 0 \<le> bus_dev_num bus \<and>
     (\<forall>d \<in> set (inorder (bus_root bus)). dh_bus_type d = b \<and> 0 \<le> dh_dev_num d \<and> dh_dev_num d < bus_dev_num bus)"

definition dev_inv :: "dev_state \<Rightarrow> bool" where
  "dev_inv s \<longleftrightarrow> length (device_trees s) = DEVICE_BUS_MAX \<and>
     (\<forall>b < DEVICE_BUS_MAX. bus_ok b (device_trees s ! b))"

definition bus_devices :: "dev_state \<Rightarrow> nat \<Rightarrow> device_header list" where
  "bus_devices s b = inorder (bus_root (device_trees s ! b))"

lemma trees_assign [simp]:
  "device_trees (pci__assign_irq d s) = device_trees s"
  "device_trees (virtio_mmio_assign_irq d s) = device_trees s"
  by (simp_all add: pci__assign_irq_def virtio_mmio_assign_irq_def Let_def split: prod.splits)

lemma dev_inv_init: "dev_inv (dev_state_init hdrs)"
  by (simp add: dev_inv_def dev_state_init_def bus_ok_def)

lemma sorted_last_max:
  assumes "sorted_wrt (key_less f) (xs @ x # ys)" "\<forall>y \<in> set ys. f y < f x"
  shows "ys = []"
  using assms by (cases ys) (auto simp: sorted_wrt_append key_less_def)

lemma register_ok:
  assumes inv: "dev_inv s" and b: "dh_bus_type dev < DEVICE_BUS_MAX"
  obtains s' where "device__register dev s = Ret (s', dev\<lparr>dh_dev_num := bus_dev_num (device_trees s ! dh_bus_type dev)\<rparr>, 0)"
    "dev_inv s'"
    "bus_devices s' (dh_bus_type dev) =
       bus_devices s (dh_bus_type dev) @ [dev\<lparr>dh_dev_num := bus_dev_num (device_trees s ! dh_bus_type dev)\<rparr>]"
    "\<forall>b'. b' \<noteq> dh_bus_type dev \<longrightarrow> bus_devices s' b' = bus_devices s b'"
    "bus_dev_num (device_trees s' ! dh_bus_type dev) = bus_dev_num (device_trees s ! dh_bus_type dev) + 1"
proof -
  let ?b = "dh_bus_type dev"
  let ?bus = "device_trees s ! ?b"
  let ?dev = "dev\<lparr>dh_dev_num := bus_dev_num ?bus\<rparr>"
  have len: "?b < length (device_trees s)" and ok: "bus_ok ?b ?bus" using inv b by (auto simp: dev_inv_def)
  have key: "key_inv dh_dev_num (bus_root ?bus)" using ok by (simp add: bus_ok_def)
  have fresh: "key_map dh_dev_num (bus_root ?bus) (dh_dev_num ?dev) = None"
    using ok key by (auto simp: key_map_None bus_ok_def)
  from key obtain t' xs ys where t': "rb_insert_by (key_dir dh_dev_num (dh_dev_num ?dev)) ?dev (bus_root ?bus) = Inserted t'"
      "key_inv dh_dev_num t'" "inorder (bus_root ?bus) = xs @ ys" "inorder t' = xs @ ?dev # ys"
    by (cases rule: key_insert_cases [where x = ?dev]) (use fresh in auto)
  have "ys = []"
    by (rule sorted_last_max [of dh_dev_num xs ?dev]) (use t' ok in \<open>auto simp: rb_inv_def bus_ok_def\<close>)
  with t' have dev: "inorder t' = inorder (bus_root ?bus) @ [?dev]" by simp
  obtain s' where s': "device__register dev s = Ret (s', ?dev, 0)"
     "device_trees s' = (device_trees s)[?b := \<lparr>bus_root = t', bus_dev_num = bus_dev_num ?bus + 1\<rparr>]"
    using t'(1) b by (cases ?bus) (auto simp: device__register_def Let_def)
  have "bus_ok ?b \<lparr>bus_root = t', bus_dev_num = bus_dev_num ?bus + 1\<rparr>"
    using ok t'(2) dev by (auto simp: bus_ok_def intro: less_imp_le)
  then have "dev_inv s'" using inv s' len by (auto simp: dev_inv_def nth_list_update)
  with s' dev len show ?thesis by (intro that [of s']) (auto simp: bus_devices_def)
qed

lemma find_dev_iff:
  assumes "dev_inv s" "b < DEVICE_BUS_MAX"
  shows "device__find_dev s b n = Inr (Some d) \<longleftrightarrow> d \<in> set (bus_devices s b) \<and> dh_dev_num d = uint n"
proof -
  have "key_inv dh_dev_num (bus_root (device_trees s ! b))" using assms by (simp add: dev_inv_def bus_ok_def)
  then show ?thesis using assms(2) key_map_Some [of dh_dev_num "bus_root (device_trees s ! b)" "uint n" d]
    by (simp add: device__find_dev_def bus_devices_def key_map_def)
qed

lemma locate_at_entry:
  assumes "rb_locate (\<lambda>d. d = x) [] t = Some pos" "inorder t = xs @ x # ys" "distinct (inorder t)"
  shows "at_entry pos t xs x ys"
proof -
  obtain p n where pn: "pos = (p, n)" by (cases pos)
  obtain c l r where n: "n = RBNode c l x r" using locate_found assms(1) pn by blast
  have plug: "rb_plug p n = t" using locate_plug assms(1) pn by fastforce
  then have "inorder t = (before_hole p @ inorder l) @ x # (inorder r @ after_hole p)"
    using inorder_plug [of p n] n by simp
  with assms(2,3) have "xs = before_hole p @ inorder l" "ys = inorder r @ after_hole p"
    using distinct_split [of xs x ys "before_hole p @ inorder l"] by metis+
  with plug n pn show ?thesis by (auto simp: at_entry_def)
qed

lemma unregister_ok:
  assumes inv: "dev_inv s" and b: "dh_bus_type dev < DEVICE_BUS_MAX"
    and dev: "dev \<in> set (bus_devices s (dh_bus_type dev))"
  obtains s' xs ys where "device__unregister dev s = Ret s'" "dev_inv s'"
    "bus_devices s (dh_bus_type dev) = xs @ dev # ys" "bus_devices s' (dh_bus_type dev) = xs @ ys"
    "\<forall>b'. b' \<noteq> dh_bus_type dev \<longrightarrow> bus_devices s' b' = bus_devices s b'"
proof -
  let ?b = "dh_bus_type dev"
  let ?bus = "device_trees s ! ?b"
  have len: "?b < length (device_trees s)" and ok: "bus_ok ?b ?bus" using inv b by (auto simp: dev_inv_def)
  have key: "key_inv dh_dev_num (bus_root ?bus)" using ok by (simp add: bus_ok_def)
  have ex: "\<exists>d \<in> set (inorder (bus_root ?bus)). d = dev" using dev by (simp add: bus_devices_def)
  obtain t' xs ys where t': "rb_erase_entry (\<lambda>d. d = dev) (bus_root ?bus) = Some t'" "key_inv dh_dev_num t'"
    "inorder (bus_root ?bus) = xs @ dev # ys" "inorder t' = xs @ ys"
    using key_erase_cases [OF key ex] by metis
  let ?s = "s\<lparr>device_trees := (device_trees s)[?b := ?bus\<lparr>bus_root := t'\<rparr>]\<rparr>"
  have "bus_ok ?b (?bus\<lparr>bus_root := t'\<rparr>)" using ok t' by (auto simp: bus_ok_def)
  then have "dev_inv ?s" using inv len by (auto simp: dev_inv_def nth_list_update)
  then show ?thesis using t' len
    by (intro that [of ?s xs ys]) (auto simp: device__unregister_def Let_def bus_devices_def)
qed

section \<open>Properties\<close>

text \<open>
  Registering a device on a known bus always succeeds, in any state the registry can reach: it
  gets the next number of its bus, becomes the last device of that bus, no other bus changes, and
  no NULL is dereferenced. On an unknown bus the call returns \<^verbatim>\<open>-EINVAL\<close> and changes nothing.
\<close>

theorem device__register_correct:
  assumes "dev_inv s"
  shows "if dh_bus_type dev \<ge> DEVICE_BUS_MAX then device__register dev s = Ret (s, dev, - EINVAL)
    else \<exists>s' dev'. device__register dev s = Ret (s', dev', 0) \<and> dev_inv s' \<and>
      dev' = dev\<lparr>dh_dev_num := bus_dev_num (device_trees s ! dh_bus_type dev)\<rparr> \<and>
      bus_devices s' (dh_bus_type dev) = bus_devices s (dh_bus_type dev) @ [dev'] \<and>
      (\<forall>b. b \<noteq> dh_bus_type dev \<longrightarrow> bus_devices s' b = bus_devices s b)"
proof (cases "dh_bus_type dev \<ge> DEVICE_BUS_MAX")
  case True
  then show ?thesis by (simp add: device__register_def)
next
  case False
  then show ?thesis using register_ok [OF assms, of dev] by (metis not_le)
qed

theorem device__register_correct_witness:
  "\<exists>s' dev'. device__register \<lparr>dh_addr = 1, dh_bus_type = 2, dh_data = 0, dh_dev_num = 0\<rparr>
      (dev_state_init (\<lambda>_. \<lparr>pci_cfg = [], pci_bar_size = [], pci_irq_type = 0\<rparr>)) = Ret (s', dev', 0) \<and>
     bus_devices s' 2 = [dev']"
  using device__register_correct [OF dev_inv_init,
      of "\<lparr>dh_addr = 1, dh_bus_type = 2, dh_data = 0, dh_dev_num = 0\<rparr>"]
  by (simp add: bus_defs dev_state_init_def bus_devices_def) blast

text \<open>
  \<^verbatim>\<open>device__find_dev\<close> on a known bus returns a device exactly when it is registered on that bus
  under that number, so every device whose number fits in the \<^verbatim>\<open>u8\<close> argument is found, and a device
  just registered is found under its new number.
\<close>

theorem device__find_dev_correct:
  assumes "dev_inv s" "b < DEVICE_BUS_MAX"
  shows "(device__find_dev s b n = Inr (Some d) \<longleftrightarrow> d \<in> set (bus_devices s b) \<and> dh_dev_num d = uint n) \<and>
    (device__find_dev s b n = Inr None \<longleftrightarrow> uint n \<notin> dh_dev_num ` set (bus_devices s b)) \<and>
    (d \<in> set (bus_devices s b) \<and> dh_dev_num d < 256 \<longrightarrow>
       device__find_dev s b (word_of_int (dh_dev_num d)) = Inr (Some d))"
proof -
  have key: "key_inv dh_dev_num (bus_root (device_trees s ! b))" using assms by (simp add: dev_inv_def bus_ok_def)
  have "device__find_dev s b n = Inr None \<longleftrightarrow> uint n \<notin> dh_dev_num ` set (bus_devices s b)"
    using assms(2) key_map_None [OF key, of "uint n"]
    by (simp add: device__find_dev_def bus_devices_def key_map_def)
  moreover have "d \<in> set (bus_devices s b) \<Longrightarrow> 0 \<le> dh_dev_num d"
    using assms by (auto simp: dev_inv_def bus_ok_def bus_devices_def)
  ultimately show ?thesis using find_dev_iff [OF assms] by (auto simp: uint_word_of_int)
qed

theorem device__find_dev_correct_witness:
  "device__find_dev (dev_state_init (\<lambda>_. \<lparr>pci_cfg = [], pci_bar_size = [], pci_irq_type = 0\<rparr>)) 0 3 = Inr None"
  using device__find_dev_correct [OF dev_inv_init, of 0 "(\<lambda>_. \<lparr>pci_cfg = [], pci_bar_size = [], pci_irq_type = 0\<rparr>)" 3]
  by (simp add: bus_defs dev_state_init_def bus_devices_def)

text \<open>
  Iterating a bus with \<^verbatim>\<open>device__first_dev\<close> and \<^verbatim>\<open>device__next_dev\<close> visits its devices in the order
  they were registered: the first call gives the first device (NULL on an empty bus), and the
  next of each device is the one registered after it (NULL after the last).
\<close>

theorem device__iteration:
  assumes "dev_inv s" "b < DEVICE_BUS_MAX"
  shows "device__first_dev s b = (case bus_devices s b of [] \<Rightarrow> None | d # _ \<Rightarrow> Some d) \<and>
    (bus_devices s b = xs @ d # ys \<longrightarrow>
       device__next_dev s d = Ret (case ys of [] \<Rightarrow> None | e # _ \<Rightarrow> Some e))"
proof (intro conjI impI)
  let ?t = "bus_root (device_trees s ! b)"
  show "device__first_dev s b = (case bus_devices s b of [] \<Rightarrow> None | d # _ \<Rightarrow> Some d)"
    using rb_first_correct [of ?t] assms(2)
    by (auto simp: device__first_dev_def bus_devices_def at_entry_def split: list.splits option.splits)
  assume d: "bus_devices s b = xs @ d # ys"
  have ok: "bus_ok b (device_trees s ! b)" using assms by (simp add: dev_inv_def)
  then have b: "dh_bus_type d = b" using d by (auto simp: bus_ok_def bus_devices_def)
  have dist: "distinct (inorder ?t)"
    using key_inv_distinct [of dh_dev_num ?t] ok by (simp add: bus_ok_def distinct_map)
  obtain pos where pos: "rb_locate (\<lambda>e. e = d) [] ?t = Some pos"
    using locate_None [of "\<lambda>e. e = d" "[]" ?t] d by (auto simp: bus_devices_def)
  have "at_entry pos ?t xs d ys" using locate_at_entry [OF pos _ dist] d by (simp add: bus_devices_def)
  from rb_next_correct [OF this] pos b
  show "device__next_dev s d = Ret (case ys of [] \<Rightarrow> None | e # _ \<Rightarrow> Some e)"
    by (auto simp: device__next_dev_def at_entry_def split: list.splits)
qed

theorem device__iteration_witness:
  "device__first_dev (dev_state_init (\<lambda>_. \<lparr>pci_cfg = [], pci_bar_size = [], pci_irq_type = 0\<rparr>)) 1 = None"
  using device__iteration [OF dev_inv_init, of 1 "(\<lambda>_. \<lparr>pci_cfg = [], pci_bar_size = [], pci_irq_type = 0\<rparr>)"]
  by (simp add: bus_defs dev_state_init_def bus_devices_def)

text \<open>
  The interrupt line a PCI device gets at registration: the header's \<^verbatim>\<open>irq_pin\<close> becomes INTA,
  its \<^verbatim>\<open>irq_line\<close> the next line of the allocator, which is then advanced modulo 256, an unset
  trigger type becomes edge rising, and no other header changes.
\<close>

theorem pci_register_assigns_line:
  assumes "dev_inv s" "dh_bus_type dev = DEVICE_BUS_PCI" "device__register dev s = Ret (s', dev', r)"
    and "length (pci_cfg (pci_hdrs s (dh_data dev))) = 256"
  shows "pci_cfg (pci_hdrs s' (dh_data dev)) ! 60 = next_line (dev_irq s) \<and>
    pci_cfg (pci_hdrs s' (dh_data dev)) ! 61 = 1 \<and>
    next_line (dev_irq s') = next_line (dev_irq s) + 1 \<and>
    pci_irq_type (pci_hdrs s' (dh_data dev)) \<noteq> 0 \<and>
    (\<forall>a. a \<noteq> dh_data dev \<longrightarrow> pci_hdrs s' a = pci_hdrs s a)"
proof -
  have "pci_hdrs s' = pci_hdrs (pci__assign_irq dev s)" "dev_irq s' = dev_irq (pci__assign_irq dev s)"
    using assms(2,3)
    by (auto simp: device__register_def Let_def bus_defs pci__assign_irq_def irq__alloc_line_def
        split: rb_insert_result.splits)
  then show ?thesis using assms(4)
    by (auto simp: pci__assign_irq_def irq__alloc_line_def Let_def IRQ_TYPE_EDGE_RISING_def)
qed

theorem pci_register_assigns_line_witness:
  "\<exists>s' dev'. device__register \<lparr>dh_addr = 1, dh_bus_type = 0, dh_data = 7, dh_dev_num = 0\<rparr>
      (dev_state_init (\<lambda>_. \<lparr>pci_cfg = replicate 256 0, pci_bar_size = [], pci_irq_type = 0\<rparr>)) = Ret (s', dev', 0) \<and>
     pci_cfg (pci_hdrs s' 7) ! 60 = 5"
proof -
  let ?dev = "\<lparr>dh_addr = 1, dh_bus_type = 0, dh_data = 7, dh_dev_num = 0\<rparr>"
  let ?s = "dev_state_init (\<lambda>_. \<lparr>pci_cfg = replicate 256 0, pci_bar_size = [], pci_irq_type = 0\<rparr>)"
  have "dh_bus_type ?dev < DEVICE_BUS_MAX" by (simp add: bus_defs)
  then obtain s' where s': "device__register ?dev ?s = Ret (s', ?dev\<lparr>dh_dev_num := bus_dev_num (device_trees ?s ! dh_bus_type ?dev)\<rparr>, 0)"
    using register_ok [OF dev_inv_init] by blast
  from pci_register_assigns_line [OF dev_inv_init _ s'] have "pci_cfg (pci_hdrs s' 7) ! 60 = 5"
    by (simp add: bus_defs dev_state_init_def irq_state_init_def KVM_IRQ_OFFSET_def)
  with s' show ?thesis by blast
qed

end
