(* ===== verification/Ioport.thy ===== *)
theory Ioport
  imports RBInterval Devices
begin

text \<open>
  \<^verbatim>\<open>ioport.c\<close>: the table of I/O ports, registration and removal of port ranges, and the dispatch of
  a guest access to the handler of its port (\<^verbatim>\<open>kvm__emulate_io\<close>).

  A \<^verbatim>\<open>struct ioport\<close> is allocated at an address; the interval tree holds the address and the store
  \<open>ioports\<close> the structure. \<open>io_brlock\<close> is the write lock \<^verbatim>\<open>br_write_lock\<close>/\<^verbatim>\<open>br_write_unlock\<close>. Whether
  \<^verbatim>\<open>malloc\<close> fails is an argument. A handler gets the port, the bytes of the guest's buffer from the
  current position on, and the state of its device.

  The locale \<open>io_device\<close> is the contract between the dispatcher and a device: its handlers return
  and keep the device's invariant; the device theories interpret it on their handlers.
\<close>

section \<open>State\<close>

record ioport =
  io_ops :: nat
  io_priv :: nat
  io_dev_hdr :: device_header

record ioport_state =
  ioport_tree :: "nat rb_int_node rb_node"
  ioports :: "nat \<Rightarrow> ioport option"
  io_next :: nat
  free_io_port_idx :: u16
  io_devs :: dev_state
  io_brlock :: bool

definition IOPORT_START :: u16 where "IOPORT_START = 0x6200"
definition IOPORT_SIZE :: u16 where "IOPORT_SIZE = 0x400"
definition IOPORT_EMPTY :: u16 where "IOPORT_EMPTY = 0xffff"

section \<open>Byte access to the guest's buffer\<close>

definition ioport__read8 :: "u8 list \<Rightarrow> u8 outcome" where
  "ioport__read8 data = (case data of [] \<Rightarrow> Undefined | b # _ \<Rightarrow> Ret b)"

definition ioport__read16 :: "u8 list \<Rightarrow> u16 outcome" where
  "ioport__read16 data =
     (case data of b0 # b1 # _ \<Rightarrow> Ret (ucast b0 OR push_bit 8 (ucast b1)) | _ \<Rightarrow> Undefined)"

definition ioport__read32 :: "u8 list \<Rightarrow> u32 outcome" where
  "ioport__read32 data =
     (case data of
        b0 # b1 # b2 # b3 # _ \<Rightarrow>
          Ret (ucast b0 OR push_bit 8 (ucast b1) OR push_bit 16 (ucast b2) OR push_bit 24 (ucast b3))
      | _ \<Rightarrow> Undefined)"

definition ioport__write8 :: "u8 list \<Rightarrow> u8 \<Rightarrow> u8 list outcome" where
  "ioport__write8 data v = (case data of [] \<Rightarrow> Undefined | _ # ds \<Rightarrow> Ret (v # ds))"

definition ioport__write16 :: "u8 list \<Rightarrow> u16 \<Rightarrow> u8 list outcome" where
  "ioport__write16 data v =
     (case data of _ # _ # ds \<Rightarrow> Ret (ucast v # ucast (drop_bit 8 v) # ds) | _ \<Rightarrow> Undefined)"

definition ioport__write32 :: "u8 list \<Rightarrow> u32 \<Rightarrow> u8 list outcome" where
  "ioport__write32 data v =
     (case data of
        _ # _ # _ # _ # ds \<Rightarrow>
          Ret (ucast v # ucast (drop_bit 8 v) # ucast (drop_bit 16 v) # ucast (drop_bit 24 v) # ds)
      | _ \<Rightarrow> Undefined)"

section \<open>Registration\<close>

definition ioport__find_free_port :: "ioport_state \<Rightarrow> ioport_state \<times> u16" where
  "ioport__find_free_port s =
     (s\<lparr>free_io_port_idx := free_io_port_idx s + 1\<rparr>, IOPORT_START + free_io_port_idx s * IOPORT_SIZE)"

definition ioport_search :: "nat rb_int_node rb_node \<Rightarrow> u64 \<Rightarrow> nat rb_int_node option" where
  "ioport_search root addr = rb_int_search_single root addr"

definition ioport_insert :: "nat rb_int_node rb_node \<Rightarrow> nat rb_int_node \<Rightarrow> (nat rb_int_node rb_node \<times> int) option" where
  "ioport_insert root data = rb_int_insert root data"

definition ioport_remove :: "nat rb_int_node rb_node \<Rightarrow> nat rb_int_node \<Rightarrow> nat rb_int_node rb_node option" where
  "ioport_remove root data = rb_int_erase root data"

text \<open>The interval of a registration: \<^verbatim>\<open>port + count\<close> is computed as an \<^verbatim>\<open>int\<close> and stored as a \<^verbatim>\<open>u64\<close>.\<close>

definition ioport_node :: "nat \<Rightarrow> u16 \<Rightarrow> int \<Rightarrow> nat rb_int_node" where
  "ioport_node addr port count = \<lparr>rb_low = ucast port, rb_high = word_of_int (uint port + count), rb_container = addr\<rparr>"

definition new_ioport :: "nat \<Rightarrow> nat \<Rightarrow> nat \<Rightarrow> ioport" where
  "new_ioport addr ops param =
     \<lparr>io_ops = ops, io_priv = param,
      io_dev_hdr = \<lparr>dh_addr = addr, dh_bus_type = DEVICE_BUS_IOPORT, dh_data = 0, dh_dev_num = 0\<rparr>\<rparr>"

definition ioport__register ::
  "bool \<Rightarrow> u16 \<Rightarrow> nat \<Rightarrow> int \<Rightarrow> nat \<Rightarrow> ioport_state \<Rightarrow> (ioport_state \<times> int) outcome" where
  "ioport__register oom port ops count param s =
     (let s = s\<lparr>io_brlock := True\<rparr>;
          (s, port) = (if port = IOPORT_EMPTY then ioport__find_free_port s else (s, port))
      in bind_outcome
           (case ioport_search (ioport_tree s) (ucast port) of
              None \<Rightarrow> Ret s
            | Some entry \<Rightarrow>
                (case rb_int_erase (ioport_tree s) entry of
                   None \<Rightarrow> Undefined
                 | Some t \<Rightarrow> Ret (s\<lparr>ioport_tree := t\<rparr>)))
           (\<lambda>s. if oom then Ret (s, - ENOMEM)
             else
               let addr = io_next s;
                   s = s\<lparr>io_next := addr + 1, ioports := (ioports s)(addr \<mapsto> new_ioport addr ops param)\<rparr>
               in case ioport_insert (ioport_tree s) (ioport_node addr port count) of
                    None \<Rightarrow> Undefined
                  | Some (t, r) \<Rightarrow>
                      if r < 0 then Ret (s\<lparr>ioports := (ioports s)(addr := None), io_brlock := False\<rparr>, r)
                      else bind_outcome (device__register (io_dev_hdr (new_ioport addr ops param)) (io_devs s))
                        (\<lambda>(ds, hdr, _). Ret (s\<lparr>ioport_tree := t, io_devs := ds,
                             ioports := (ioports s)(addr \<mapsto> (new_ioport addr ops param)\<lparr>io_dev_hdr := hdr\<rparr>),
                             io_brlock := False\<rparr>, uint port))))"

definition remove_entry :: "nat rb_int_node \<Rightarrow> ioport_state \<Rightarrow> ioport_state outcome" where
  "remove_entry entry s =
     (case ioports s (rb_container entry) of
        None \<Rightarrow> Undefined
      | Some io \<Rightarrow>
          bind_outcome (device__unregister (io_dev_hdr io) (io_devs s)) (\<lambda>ds.
            case ioport_remove (ioport_tree s) entry of
              None \<Rightarrow> Undefined
            | Some t \<Rightarrow> Ret (s\<lparr>ioport_tree := t, io_devs := ds, ioports := (ioports s)(rb_container entry := None)\<rparr>)))"

definition ioport__unregister :: "u16 \<Rightarrow> ioport_state \<Rightarrow> (ioport_state \<times> int) outcome" where
  "ioport__unregister port s =
     (let s = s\<lparr>io_brlock := True\<rparr>
      in case ioport_search (ioport_tree s) (ucast port) of
           None \<Rightarrow> Ret (s\<lparr>io_brlock := False\<rparr>, - ENOENT)
         | Some entry \<Rightarrow> bind_outcome (remove_entry entry s) (\<lambda>s. Ret (s\<lparr>io_brlock := False\<rparr>, 0)))"

text \<open>
  The loop of \<^verbatim>\<open>ioport__unregister_all\<close>: every pass takes the first entry out. The fuel is the
  number of entries; running out of it with entries left would be \<open>Undefined\<close>.
\<close>

fun unregister_all_loop :: "nat \<Rightarrow> ioport_state \<Rightarrow> ioport_state outcome" where
  "unregister_all_loop fuel s =
     (case rb_first (ioport_tree s) of
        None \<Rightarrow> Ret s
      | Some (p, n) \<Rightarrow>
          (case (fuel, rb_entry n) of
             (Suc fuel', Some entry) \<Rightarrow> bind_outcome (remove_entry entry s) (unregister_all_loop fuel')
           | _ \<Rightarrow> Undefined))"

declare unregister_all_loop.simps [simp del]

definition ioport__unregister_all :: "ioport_state \<Rightarrow> ioport_state outcome" where
  "ioport__unregister_all s = unregister_all_loop (length (inorder (ioport_tree s))) s"

definition ioport__exit :: "ioport_state \<Rightarrow> (ioport_state \<times> int) outcome" where
  "ioport__exit s = bind_outcome (ioport__unregister_all s) (\<lambda>s. Ret (s, 0))"

section \<open>Dispatch\<close>

type_synonym 's io_handler = "u16 \<Rightarrow> u8 list \<Rightarrow> 's \<Rightarrow> ('s \<times> u8 list \<times> bool) outcome"

datatype io_direction = KVM_EXIT_IO_IN | KVM_EXIT_IO_OUT

text \<open>The loop \<^verbatim>\<open>while (count--)\<close> with a handler for the direction; \<open>off\<close> is \<^verbatim>\<open>ptr - data\<close>.\<close>

fun io_loop :: "'s io_handler \<Rightarrow> u16 \<Rightarrow> nat \<Rightarrow> nat \<Rightarrow> nat \<Rightarrow> u8 list \<Rightarrow> bool \<Rightarrow> 's \<Rightarrow> ('s \<times> u8 list \<times> bool) outcome" where
  "io_loop h port sz 0 off buf ret s = Ret (s, buf, ret)"
| "io_loop h port sz (Suc count) off buf ret s =
     bind_outcome (h port (drop off buf) s) (\<lambda>(s, d, r).
       io_loop h port sz count (off + sz) (take off buf @ d) r s)"

text \<open>The tables \<open>io_in\<close> and \<open>io_out\<close> give the function of an operations structure; a handler takes the access size first.\<close>

definition kvm__emulate_io ::
  "(nat \<Rightarrow> nat \<Rightarrow> (nat \<Rightarrow> 's io_handler) option) \<Rightarrow> (nat \<Rightarrow> nat \<Rightarrow> (nat \<Rightarrow> 's io_handler) option) \<Rightarrow> bool \<Rightarrow>
   ioport_state \<Rightarrow> u16 \<Rightarrow> u8 list \<Rightarrow> io_direction \<Rightarrow> nat \<Rightarrow> nat \<Rightarrow> 's \<Rightarrow> ('s \<times> u8 list \<times> bool) outcome" where
  "kvm__emulate_io io_in io_out ioport_debug io port data direction sz count s =
     bind_outcome
       (case ioport_search (ioport_tree io) (ucast port) of
          None \<Rightarrow> Ret (s, data, False)
        | Some entry \<Rightarrow>
            (case ioports io (rb_container entry) of
               None \<Rightarrow> Undefined
             | Some e \<Rightarrow>
                 (case (if direction = KVM_EXIT_IO_IN then io_in else io_out) (io_ops e) (io_priv e) of
                    None \<Rightarrow> Ret (s, data, False)
                  | Some h \<Rightarrow> io_loop (h sz) port sz count 0 data False s)))
       (\<lambda>(s, data, ret). Ret (s, data, ret \<or> \<not> ioport_debug))"

section \<open>The contract of a device\<close>

text \<open>
  \<open>buf_min\<close> bytes is what a handler may touch: every access of the guest leaves at least that much
  room in the shared page.
\<close>

locale io_device =
  fixes inv :: "'s \<Rightarrow> bool"
    and buf_min :: nat
    and h :: "'s io_handler"
  assumes handler_ok: "inv s \<Longrightarrow> buf_min \<le> length data \<Longrightarrow>
    \<exists>s' d r. h port data s = Ret (s', d, r) \<and> inv s' \<and> length d = length data"
begin

lemma io_loop_ok:
  "inv s \<Longrightarrow> off + count * sz + buf_min \<le> length buf \<Longrightarrow>
   \<exists>s' b r. io_loop h port sz count off buf ret s = Ret (s', b, r) \<and> inv s' \<and> length b = length buf"
proof (induction count arbitrary: off buf ret s)
  case (Suc count)
  have "buf_min \<le> length (drop off buf)" using Suc.prems(2) by auto
  with handler_ok [OF Suc.prems(1)] obtain s1 d r1 where
    1: "h port (drop off buf) s = Ret (s1, d, r1)" "inv s1" "length d = length (drop off buf)" by blast
  have len: "length (take off buf @ d) = length buf" using 1(3) Suc.prems(2) by auto
  have "off + sz + count * sz + buf_min \<le> length (take off buf @ d)"
    unfolding len using Suc.prems(2) by simp
  from Suc.IH [OF 1(2) this, of r1] 1 len show ?case by auto
qed auto

end

section \<open>The table invariant\<close>

text \<open>
  The tree is a tree of disjoint non-empty intervals; every entry has its structure in the store,
  at an address of its own, and the structure's device header is registered on the port bus.
\<close>

definition entry_ok :: "ioport_state \<Rightarrow> nat rb_int_node \<Rightarrow> bool" where
  "entry_ok s n \<longleftrightarrow> rb_container n < io_next s \<and>
     (\<exists>io. ioports s (rb_container n) = Some io \<and> dh_addr (io_dev_hdr io) = rb_container n \<and>
        dh_bus_type (io_dev_hdr io) = DEVICE_BUS_IOPORT \<and>
        io_dev_hdr io \<in> set (bus_devices (io_devs s) DEVICE_BUS_IOPORT))"

definition io_inv :: "ioport_state \<Rightarrow> bool" where
  "io_inv s \<longleftrightarrow> int_inv (ioport_tree s) \<and> dev_inv (io_devs s) \<and>
     distinct (map rb_container (inorder (ioport_tree s))) \<and>
     (\<forall>n \<in> set (inorder (ioport_tree s)). entry_ok s n)"

definition ioport_state_init :: "dev_state \<Rightarrow> ioport_state" where
  "ioport_state_init ds = \<lparr>ioport_tree = RBNull, ioports = Map.empty, io_next = 0, free_io_port_idx = 0,
     io_devs = ds, io_brlock = False\<rparr>"

lemma io_inv_init: "dev_inv ds \<Longrightarrow> io_inv (ioport_state_init ds)"
  by (simp add: io_inv_def ioport_state_init_def)

lemma node_bounds:
  assumes "0 < count" "count < 2 ^ 32"
  shows "uint (rb_low (ioport_node addr port count)) = uint port"
    "uint (rb_high (ioport_node addr port count)) = uint port + count"
proof -
  have p: "0 \<le> uint port" "uint port < 2 ^ 16" using uint_lt2p [of port] by simp_all
  have "uint (word_of_int (uint port + count) :: u64) = (uint port + count) mod 2 ^ 64"
    by (rule trans [OF uint_word_of_int]) simp
  also have "\<dots> = uint port + count"
    by (rule mod_pos_pos_trivial) (use p assms in auto)
  finally show "uint (rb_high (ioport_node addr port count)) = uint port + count"
    by (simp only: ioport_node_def rb_int_node.simps)
  show "uint (rb_low (ioport_node addr port count)) = uint port"
    by (simp add: ioport_node_def uint_up_ucast is_up)
qed

lemma node_ok: "0 < count \<Longrightarrow> count < 2 ^ 32 \<Longrightarrow> int_ok (ioport_node addr port count)"
  by (simp add: int_ok_def word_less_def node_bounds)

lemma node_contains:
  fixes p port :: u16
  assumes "0 < count" "count < 2 ^ 32"
  shows "int_contains (ioport_node addr port count) (ucast p) \<longleftrightarrow> uint port \<le> uint p \<and> uint p < uint port + count"
  by (simp add: int_contains_def word_le_def word_less_def node_bounds [OF assms] uint_up_ucast is_up)

lemma entry_ok_frame [simp]: "entry_ok (s\<lparr>io_brlock := b\<rparr>) n = entry_ok s n"
  "entry_ok (s\<lparr>free_io_port_idx := i\<rparr>) n = entry_ok s n" "entry_ok (s\<lparr>ioport_tree := t\<rparr>) n = entry_ok s n"
  by (simp_all add: entry_ok_def)

lemma io_inv_frame [simp]: "io_inv (s\<lparr>io_brlock := b\<rparr>) = io_inv s" "io_inv (s\<lparr>free_io_port_idx := i\<rparr>) = io_inv s"
  by (simp_all add: io_inv_def)

lemma remove_entry_ok:
  assumes inv: "io_inv s" and n: "n \<in> set (inorder (ioport_tree s))"
  obtains s' xs ys where "remove_entry n s = Ret s'" "io_inv s'" "inorder (ioport_tree s) = xs @ n # ys"
    "inorder (ioport_tree s') = xs @ ys" "ioports s' = (ioports s)(rb_container n := None)"
    "io_brlock s' = io_brlock s" "rb_int_erase (ioport_tree s) n = Some (ioport_tree s')"
proof -
  obtain io where io: "ioports s (rb_container n) = Some io" "dh_addr (io_dev_hdr io) = rb_container n"
    "dh_bus_type (io_dev_hdr io) = DEVICE_BUS_IOPORT"
    "io_dev_hdr io \<in> set (bus_devices (io_devs s) DEVICE_BUS_IOPORT)"
    using inv n by (auto simp: io_inv_def entry_ok_def)
  have dev: "dev_inv (io_devs s)" "dh_bus_type (io_dev_hdr io) < DEVICE_BUS_MAX"
    "io_dev_hdr io \<in> set (bus_devices (io_devs s) (dh_bus_type (io_dev_hdr io)))"
    using inv io by (auto simp: io_inv_def bus_defs)
  obtain ds us vs where ds: "device__unregister (io_dev_hdr io) (io_devs s) = Ret ds" "dev_inv ds"
    "bus_devices (io_devs s) DEVICE_BUS_IOPORT = us @ io_dev_hdr io # vs"
    "bus_devices ds DEVICE_BUS_IOPORT = us @ vs"
    using unregister_ok [OF dev] io(3) by metis
  have it: "int_inv (ioport_tree s)" using inv by (simp add: io_inv_def)
  obtain t xs ys where t: "rb_int_erase (ioport_tree s) n = Some t" "int_inv t"
    "inorder (ioport_tree s) = xs @ n # ys" "inorder t = xs @ ys"
    using rb_int_erase_cases [OF it n] by metis
  let ?s = "s\<lparr>ioport_tree := t, io_devs := ds, ioports := (ioports s)(rb_container n := None)\<rparr>"
  have "entry_ok ?s m" if m: "m \<in> set (xs @ ys)" for m
  proof -
    have ne: "rb_container m \<noteq> rb_container n" using inv t m by (auto simp: io_inv_def rev_image_eqI)
    have "entry_ok s m" using inv t m by (auto simp: io_inv_def)
    then show ?thesis using ne ds io by (auto simp: entry_ok_def)
  qed
  then have "io_inv ?s" using inv t ds by (auto simp: io_inv_def)
  with t ds io show ?thesis
    by (intro that [of ?s xs ys]) (auto simp: remove_entry_def ioport_remove_def)
qed

lemma unregister_all_loop_ok:
  "io_inv s \<Longrightarrow> length (inorder (ioport_tree s)) \<le> fuel \<Longrightarrow>
   \<exists>s'. unregister_all_loop fuel s = Ret s' \<and> io_inv s' \<and> inorder (ioport_tree s') = []"
proof (induction fuel arbitrary: s)
  case 0
  then have "rb_first (ioport_tree s) = None" using rb_first_correct [of "ioport_tree s"] by simp
  with 0 show ?case by (simp add: unregister_all_loop.simps [of 0])
next
  case (Suc fuel)
  show ?case
  proof (cases "inorder (ioport_tree s)")
    case Nil
    then have "rb_first (ioport_tree s) = None" using rb_first_correct [of "ioport_tree s"] by simp
    with Suc.prems Nil show ?thesis by (simp add: unregister_all_loop.simps [of "Suc fuel"])
  next
    case (Cons n ns)
    then obtain p c l r where first: "rb_first (ioport_tree s) = Some (p, RBNode c l n r)"
      using rb_first_correct [of "ioport_tree s"] by (auto simp: at_entry_def)
    have n: "n \<in> set (inorder (ioport_tree s))" using Cons by simp
    obtain s1 xs ys where 1: "remove_entry n s = Ret s1" "io_inv s1" "inorder (ioport_tree s) = xs @ n # ys"
      "inorder (ioport_tree s1) = xs @ ys"
      using remove_entry_ok [OF Suc.prems(1) n] by metis
    then have "length (inorder (ioport_tree s1)) \<le> fuel" using Suc.prems(2) by simp
    from Suc.IH [OF 1(2) this] 1 first show ?thesis
      by (simp add: unregister_all_loop.simps [of "Suc fuel"])
  qed
qed

text \<open>The new entry of a registration, once the old one at its port is out of the way.\<close>

lemma register_fresh:
  assumes inv: "io_inv s" and count: "0 < count" "count < 2 ^ 32"
    and node: "node = ioport_node (io_next s) port count"
  shows "(\<exists>m \<in> set (inorder (ioport_tree s)). int_overlap node m \<and> ioport_insert (ioport_tree s) node = Some (ioport_tree s, - EEXIST)) \<or>
    (\<exists>t ds hdr. (\<forall>m \<in> set (inorder (ioport_tree s)). \<not> int_overlap node m) \<and>
       ioport_insert (ioport_tree s) node = Some (t, 0) \<and>
       device__register (io_dev_hdr (new_ioport (io_next s) ops param)) (io_devs s) = Ret (ds, hdr, 0) \<and>
       io_inv (s\<lparr>ioport_tree := t, io_devs := ds, io_next := io_next s + 1,
         ioports := (ioports s)(io_next s \<mapsto> (new_ioport (io_next s) ops param)\<lparr>io_dev_hdr := hdr\<rparr>)\<rparr>) \<and>
       int_map t = (\<lambda>a. if int_contains node a then Some node else int_map (ioport_tree s) a))"
proof -
  have it: "int_inv (ioport_tree s)" "dev_inv (io_devs s)" using inv by (auto simp: io_inv_def)
  have ok: "int_ok node" using node_ok count node by simp
  let ?hdr0 = "io_dev_hdr (new_ioport (io_next s) ops param)"
  have bus: "dh_bus_type ?hdr0 = DEVICE_BUS_IOPORT" "dh_addr ?hdr0 = io_next s" by (simp_all add: new_ioport_def)
  then obtain ds hdr where ds: "device__register ?hdr0 (io_devs s) = Ret (ds, hdr, 0)" "dev_inv ds"
    "bus_devices ds DEVICE_BUS_IOPORT = bus_devices (io_devs s) DEVICE_BUS_IOPORT @ [hdr]"
    "dh_addr hdr = io_next s" "dh_bus_type hdr = DEVICE_BUS_IOPORT"
    using register_ok [OF it(2), of ?hdr0]
    by (metis DEVICE_BUS_IOPORT_def DEVICE_BUS_MAX_def device_header.select_convs(1,2)
        device_header.surjective device_header.update_convs(4) lessI numeral_2_eq_2 numeral_3_eq_3)
  from it(1) ok show ?thesis
  proof (cases rule: rb_int_insert_cases)
    case (overlap m)
    then show ?thesis by (auto simp: ioport_insert_def)
  next
    case (fresh t xs ys)
    let ?s = "s\<lparr>ioport_tree := t, io_devs := ds, io_next := io_next s + 1,
         ioports := (ioports s)(io_next s \<mapsto> (new_ioport (io_next s) ops param)\<lparr>io_dev_hdr := hdr\<rparr>)\<rparr>"
    have c: "rb_container node = io_next s" using node by (simp add: ioport_node_def)
    have old: "entry_ok s m" if "m \<in> set (xs @ ys)" for m using inv fresh that by (auto simp: io_inv_def)
    have "entry_ok ?s m" if "m \<in> set (inorder t)" for m
    proof (cases "m = node")
      case True
      then show ?thesis using c ds by (auto simp: entry_ok_def)
    next
      case False
      then have "entry_ok s m" using old that fresh(5) by auto
      then show ?thesis using ds by (auto simp: entry_ok_def)
    qed
    moreover have "distinct (map rb_container (inorder t))"
      using inv fresh old c by (fastforce simp: io_inv_def entry_ok_def)
    ultimately have "io_inv ?s" using fresh ds by (simp add: io_inv_def)
    moreover have "int_map t = (\<lambda>a. if int_contains node a then Some node else int_map (ioport_tree s) a)"
      using int_map_insert [OF it(1) ok fresh(2)] .
    ultimately show ?thesis using fresh ds(1) unfolding ioport_insert_def by blast
  qed
qed

lemma ioport_search_map: "ioport_search t = int_map t"
  by (simp add: ioport_search_def int_map_def fun_eq_iff)

lemma register_step:
  assumes inv: "io_inv s" and count: "0 < count" "count < 2 ^ 32" and port: "port \<noteq> IOPORT_EMPTY"
    and s1: "(case ioport_search (ioport_tree s) (ucast port) of None \<Rightarrow> t1 = ioport_tree s
        | Some e \<Rightarrow> rb_int_erase (ioport_tree s) e = Some t1)"
    and inv1: "io_inv (s\<lparr>ioport_tree := t1\<rparr>)"
  shows "(\<exists>m \<in> set (inorder t1). int_overlap (ioport_node (io_next s) port count) m \<and>
       (\<exists>s'. ioport__register False port ops count param s = Ret (s', - EEXIST) \<and>
          ioport_tree s' = t1 \<and> \<not> io_brlock s')) \<or>
    ((\<forall>m \<in> set (inorder t1). \<not> int_overlap (ioport_node (io_next s) port count) m) \<and>
     (\<exists>s'. ioport__register False port ops count param s = Ret (s', uint port) \<and> io_inv s' \<and> \<not> io_brlock s' \<and>
        (\<exists>io. ioports s' (io_next s) = Some io \<and> io_ops io = ops \<and> io_priv io = param) \<and>
        int_map (ioport_tree s') = (\<lambda>a. if int_contains (ioport_node (io_next s) port count) a
            then Some (ioport_node (io_next s) port count) else int_map t1 a)))"
proof -
  let ?node = "ioport_node (io_next s) port count"
  let ?s1 = "s\<lparr>io_brlock := True, ioport_tree := t1\<rparr>"
  have eq: "ioport__register False port ops count param s =
      (case ioport_insert t1 ?node of None \<Rightarrow> Undefined
       | Some (t, r) \<Rightarrow>
          if r < 0 then Ret (?s1\<lparr>io_next := io_next s + 1, ioports := (ioports s)(io_next s := None), io_brlock := False\<rparr>, r)
          else bind_outcome (device__register (io_dev_hdr (new_ioport (io_next s) ops param)) (io_devs s))
            (\<lambda>(ds, hdr, _). Ret (?s1\<lparr>io_next := io_next s + 1, ioport_tree := t, io_devs := ds,
                 ioports := (ioports s)(io_next s \<mapsto> (new_ioport (io_next s) ops param)\<lparr>io_dev_hdr := hdr\<rparr>),
                 io_brlock := False\<rparr>, uint port)))"
    using s1 port by (auto simp: ioport__register_def Let_def split: option.splits)
  have inv2: "io_inv ?s1" using inv1 by (simp add: io_inv_def entry_ok_def)
  have sel: "ioport_tree ?s1 = t1" "io_next ?s1 = io_next s" "io_devs ?s1 = io_devs s" "ioports ?s1 = ioports s"
    by simp_all
  have "(\<exists>m \<in> set (inorder t1). int_overlap ?node m \<and> ioport_insert t1 ?node = Some (t1, - EEXIST)) \<or>
    (\<exists>t ds hdr. (\<forall>m \<in> set (inorder t1). \<not> int_overlap ?node m) \<and> ioport_insert t1 ?node = Some (t, 0) \<and>
       device__register (io_dev_hdr (new_ioport (io_next s) ops param)) (io_devs s) = Ret (ds, hdr, 0) \<and>
       io_inv (?s1\<lparr>ioport_tree := t, io_devs := ds, io_next := io_next s + 1,
         ioports := (ioports s)(io_next s \<mapsto> (new_ioport (io_next s) ops param)\<lparr>io_dev_hdr := hdr\<rparr>)\<rparr>) \<and>
       int_map t = (\<lambda>a. if int_contains ?node a then Some ?node else int_map t1 a))"
    using register_fresh [OF inv2 count, of ?node port ops param] by (simp only: sel simp_thms)
  then consider
      (a) m where "m \<in> set (inorder t1)" "int_overlap ?node m" "ioport_insert t1 ?node = Some (t1, - EEXIST)"
    | (b) t ds hdr where "\<forall>m \<in> set (inorder t1). \<not> int_overlap ?node m" "ioport_insert t1 ?node = Some (t, 0)"
        "device__register (io_dev_hdr (new_ioport (io_next s) ops param)) (io_devs s) = Ret (ds, hdr, 0)"
        "io_inv (?s1\<lparr>ioport_tree := t, io_devs := ds, io_next := io_next s + 1,
           ioports := (ioports s)(io_next s \<mapsto> (new_ioport (io_next s) ops param)\<lparr>io_dev_hdr := hdr\<rparr>)\<rparr>)"
        "int_map t = (\<lambda>a. if int_contains ?node a then Some ?node else int_map t1 a)"
    by blast
  then show ?thesis
  proof cases
    case a
    with eq show ?thesis by auto
  next
    case b
    let ?s' = "?s1\<lparr>io_next := io_next s + 1, ioport_tree := t, io_devs := ds,
        ioports := (ioports s)(io_next s \<mapsto> (new_ioport (io_next s) ops param)\<lparr>io_dev_hdr := hdr\<rparr>), io_brlock := False\<rparr>"
    have "io_inv ?s'" using b(4) by (simp add: io_inv_def entry_ok_def)
    with b eq show ?thesis by (intro disjI2 conjI exI [of _ ?s']) (auto simp: new_ioport_def)
  qed
qed

text \<open>Registering a single free port always succeeds.\<close>

lemma register_free_one:
  assumes inv: "io_inv s" and port: "port \<noteq> IOPORT_EMPTY" and free: "ioport_search (ioport_tree s) (ucast port) = None"
  obtains s' where "ioport__register False port ops 1 param s = Ret (s', uint port)" "io_inv s'"
    "\<And>p. ioport_search (ioport_tree s') (ucast (p :: u16)) =
       (if p = port then Some (ioport_node (io_next s) port 1) else ioport_search (ioport_tree s) (ucast p))"
proof -
  let ?n = "ioport_node (io_next s) port 1"
  have it: "int_inv (ioport_tree s)" using inv by (simp add: io_inv_def)
  have b: "uint (rb_low ?n) = uint port" "uint (rb_high ?n) = uint port + 1" using node_bounds [of 1] by simp_all
  have "\<not> int_overlap ?n m" if m: "m \<in> set (inorder (ioport_tree s))" for m
  proof
    assume o: "int_overlap ?n m"
    have up: "uint (ucast port :: u64) = uint port" by (simp add: uint_up_ucast is_up)
    have "int_contains m (ucast port)"
      using o b up by (auto simp: int_overlap_def int_contains_def word_less_def word_le_def)
    then show False using free m by (simp add: ioport_search_def search_single_None [OF it])
  qed
  then obtain s' where s': "ioport__register False port ops 1 param s = Ret (s', uint port)" "io_inv s'"
    "int_map (ioport_tree s') = (\<lambda>a. if int_contains ?n a then Some ?n else int_map (ioport_tree s) a)"
    using register_step [OF inv _ _ port, of 1 "ioport_tree s" ops param] free inv by auto
  have "int_contains ?n (ucast p) \<longleftrightarrow> p = port" for p :: u16
    using node_contains [of 1 "io_next s" port p] by (auto simp: word_uint_eq_iff)
  then show ?thesis using s' by (intro that [of s']) (auto simp: ioport_search_map)
qed

section \<open>Properties\<close>

text \<open>
  Registering a non-empty range at a port nothing is registered at: it returns \<^verbatim>\<open>-EEXIST\<close>, with
  the table unchanged, exactly when the range overlaps a registered one; otherwise it returns
  the port, keeps the table invariant, and from then on every port of the range is looked up to the
  new entry, which holds the given handlers, and every other port as before. The lock is released.
\<close>

theorem ioport__register_correct:
  assumes "io_inv s" "0 < count" "count < 2 ^ 32" "port \<noteq> IOPORT_EMPTY"
    and "ioport_search (ioport_tree s) (ucast port) = None"
    and "node = ioport_node (io_next s) port count"
  shows "if \<exists>m \<in> set (inorder (ioport_tree s)). int_overlap node m
    then \<exists>s'. ioport__register False port ops count param s = Ret (s', - EEXIST) \<and>
      ioport_tree s' = ioport_tree s \<and> \<not> io_brlock s'
    else \<exists>s' io. ioport__register False port ops count param s = Ret (s', uint port) \<and> io_inv s' \<and> \<not> io_brlock s' \<and>
      ioports s' (io_next s) = Some io \<and> io_ops io = ops \<and> io_priv io = param \<and>
      (\<forall>p. ioport_search (ioport_tree s') (ucast p) =
         (if uint port \<le> uint (p :: u16) \<and> uint p < uint port + count then Some node
          else ioport_search (ioport_tree s) (ucast p)))"
proof -
  have inv1: "io_inv (s\<lparr>ioport_tree := ioport_tree s\<rparr>)" using assms(1) by (simp add: io_inv_def entry_ok_def)
  note step = register_step [OF assms(1-4) _ inv1, of ops param]
  show ?thesis using step assms(5) node_contains [OF assms(2,3), of "io_next s" port]
    unfolding assms(6) ioport_search_def int_map_def
    by (auto simp: fun_eq_iff)
qed


definition sample_ioports :: ioport_state where
  "sample_ioports = ioport_state_init (dev_state_init (\<lambda>_. \<lparr>pci_cfg = [], pci_bar_size = [], pci_irq_type = 0\<rparr>))"

lemma sample_ioports_inv: "io_inv sample_ioports"
  by (simp add: sample_ioports_def io_inv_init dev_inv_init)

theorem ioport__register_correct_witness:
  "\<exists>s' io. ioport__register False 0x70 5 2 7 sample_ioports = Ret (s', 0x70) \<and> io_inv s' \<and> \<not> io_brlock s' \<and>
     ioports s' 0 = Some io \<and> io_ops io = 5 \<and> io_priv io = 7 \<and>
     (\<forall>p. ioport_search (ioport_tree s') (ucast (p :: u16)) =
        (if 0x70 \<le> uint p \<and> uint p < 0x72 then Some (ioport_node 0 0x70 2) else None))"
proof -
  have s: "ioport_search (ioport_tree sample_ioports) a = None" for a
    by (simp add: sample_ioports_def ioport_state_init_def ioport_search_def rb_int_search_single_def rb_search_def)
  have n: "ioport_node 0 0x70 2 = ioport_node (io_next sample_ioports) 0x70 2"
    by (simp add: sample_ioports_def ioport_state_init_def)
  have e: "(0x70 :: u16) \<noteq> IOPORT_EMPTY" "inorder (ioport_tree sample_ioports) = []" "io_next sample_ioports = 0"
    by (simp_all add: IOPORT_EMPTY_def sample_ioports_def ioport_state_init_def)
  show ?thesis
    using ioport__register_correct [OF sample_ioports_inv _ _ e(1) s n, of 5 7] by (simp add: e s cong: if_cong)
qed

text \<open>
  Registering at a port that already has an entry first takes the old entry out of the table.
  If the new range overlaps no other entry, the new one takes its place. If it does overlap another
  one, \<^verbatim>\<open>-EEXIST\<close> is returned although the old entry is gone: the failed registration has silently
  unregistered every port of the old range.
\<close>

theorem ioport__register_replaces:
  assumes "io_inv s" "0 < count" "count < 2 ^ 32" "port \<noteq> IOPORT_EMPTY"
    and "ioport_search (ioport_tree s) (ucast port) = Some old"
    and "node = ioport_node (io_next s) port count"
  shows "if \<exists>m \<in> set (inorder (ioport_tree s)) - {old}. int_overlap node m
    then \<exists>s'. ioport__register False port ops count param s = Ret (s', - EEXIST) \<and> \<not> io_brlock s' \<and>
      (\<forall>a. ioport_search (ioport_tree s') a =
         (if int_contains old a then None else ioport_search (ioport_tree s) a))
    else \<exists>s'. ioport__register False port ops count param s = Ret (s', uint port) \<and> io_inv s' \<and> \<not> io_brlock s' \<and>
      (\<forall>a. ioport_search (ioport_tree s') a =
         (if int_contains node a then Some node else if int_contains old a then None
          else ioport_search (ioport_tree s) a))"
proof -
  have it: "int_inv (ioport_tree s)" using assms(1) by (simp add: io_inv_def)
  have old: "old \<in> set (inorder (ioport_tree s))"
    using assms(5) by (simp add: ioport_search_def search_single_iff [OF it])
  obtain t1 xs ys where t1: "rb_int_erase (ioport_tree s) old = Some t1" "int_inv t1"
    "inorder (ioport_tree s) = xs @ old # ys" "inorder t1 = xs @ ys"
    using rb_int_erase_cases [OF it old] by metis
  have set: "set (inorder t1) = set (inorder (ioport_tree s)) - {old}"
    using t1 int_inv_distinct [OF it] by auto
  have inv1: "io_inv (s\<lparr>ioport_tree := t1\<rparr>)" using assms(1) t1 by (auto simp: io_inv_def)
  have map: "int_map t1 = (\<lambda>a. if int_contains old a then None else int_map (ioport_tree s) a)"
    by (rule int_map_erase [OF it old t1(1)])
  have "(case ioport_search (ioport_tree s) (ucast port) of None \<Rightarrow> t1 = ioport_tree s
      | Some e \<Rightarrow> rb_int_erase (ioport_tree s) e = Some t1)" using assms(5) t1 by simp
  from register_step [OF assms(1-4) this inv1, of ops param] map show ?thesis
    unfolding assms(6) set ioport_search_map by auto
qed

lemma register_first:
  obtains s' where "ioport__register False 0x70 5 2 7 sample_ioports = Ret (s', 0x70)" "io_inv s'"
    "ioport_search (ioport_tree s') 0x70 = Some (ioport_node 0 0x70 2)"
    "set (inorder (ioport_tree s')) \<subseteq> {ioport_node 0 0x70 2}"
proof -
  have n: "(0x70 :: u16) \<noteq> IOPORT_EMPTY" "io_next sample_ioports = 0" "ioport_tree sample_ioports = RBNull"
    by (simp_all add: sample_ioports_def ioport_state_init_def IOPORT_EMPTY_def)
  have eq: "io_inv (sample_ioports\<lparr>ioport_tree := ioport_tree sample_ioports\<rparr>)"
    using sample_ioports_inv by (simp add: io_inv_def)
  have search: "case ioport_search (ioport_tree sample_ioports) (ucast (0x70 :: u16)) of
      None \<Rightarrow> ioport_tree sample_ioports = ioport_tree sample_ioports
    | Some e \<Rightarrow> rb_int_erase (ioport_tree sample_ioports) e = Some (ioport_tree sample_ioports)"
    by (simp add: n ioport_search_def rb_int_search_single_def rb_search_def)
  have c: "int_contains (ioport_node 0 0x70 2) (0x70 :: u64)"
    by (simp add: ioport_node_def int_contains_def)
  from register_step [OF sample_ioports_inv _ _ n(1) search eq, of 2 5 7] n obtain s' where
    s': "ioport__register False 0x70 5 2 7 sample_ioports = Ret (s', 0x70)" "io_inv s'"
      "int_map (ioport_tree s') = (\<lambda>a. if int_contains (ioport_node 0 0x70 2) a then Some (ioport_node 0 0x70 2)
        else int_map RBNull a)"
    by (auto cong: if_cong)
  have inv: "int_inv (ioport_tree s')" using s' by (simp add: io_inv_def)
  have "x = ioport_node 0 0x70 2" if x: "x \<in> set (inorder (ioport_tree s'))" for x
  proof -
    have "int_contains x (rb_low x)" using inv x by (auto simp: rb_inv_def int_ok_def int_contains_def)
    then have "int_map (ioport_tree s') (rb_low x) = Some x"
      using search_single_iff [OF inv] x by (simp add: int_map_def)
    then show ?thesis using s'(3) by (auto split: if_splits)
  qed
  then show ?thesis using s' c by (intro that [of s']) (auto simp: ioport_search_map)
qed

theorem ioport__register_replaces_witness:
  "\<exists>s1 s2. ioport__register False 0x70 5 2 7 sample_ioports = Ret (s1, 0x70) \<and>
     ioport__register False 0x70 6 4 8 s1 = Ret (s2, 0x70) \<and> io_inv s2"
proof -
  obtain s1 where s1: "ioport__register False 0x70 5 2 7 sample_ioports = Ret (s1, 0x70)" "io_inv s1"
    "ioport_search (ioport_tree s1) (ucast (0x70 :: u16)) = Some (ioport_node 0 0x70 2)"
    and t: "set (inorder (ioport_tree s1)) \<subseteq> {ioport_node 0 0x70 2}"
    by (rule register_first) simp
  have e: "(0x70 :: u16) \<noteq> IOPORT_EMPTY" by (simp add: IOPORT_EMPTY_def)
  from ioport__register_replaces [OF s1(2) _ _ e s1(3) refl, of 4 6 8] t s1(1) show ?thesis
    by (auto split: if_splits)
qed

text \<open>
  \<^verbatim>\<open>ioport__unregister\<close> returns \<^verbatim>\<open>-ENOENT\<close> with the table unchanged when nothing is registered
  at the port; otherwise it returns 0, every port of the entry's range is free afterwards, the
  other ports keep their entries, the structure is freed and the invariant holds. It releases the
  lock either way.
\<close>

theorem ioport__unregister_correct:
  assumes "io_inv s"
  shows "\<exists>s' r. ioport__unregister port s = Ret (s', r) \<and> io_inv s' \<and> \<not> io_brlock s' \<and>
    (case ioport_search (ioport_tree s) (ucast port) of
       None \<Rightarrow> r = - ENOENT \<and> ioport_tree s' = ioport_tree s \<and> ioports s' = ioports s
     | Some e \<Rightarrow> r = 0 \<and> ioports s' = (ioports s)(rb_container e := None) \<and>
         (\<forall>a. ioport_search (ioport_tree s') a =
            (if int_contains e a then None else ioport_search (ioport_tree s) a)))"
proof (cases "ioport_search (ioport_tree s) (ucast port)")
  case None
  with assms show ?thesis by (simp add: ioport__unregister_def)
next
  case (Some e)
  let ?s = "s\<lparr>io_brlock := True\<rparr>"
  have inv: "io_inv ?s" "int_inv (ioport_tree s)" using assms by (auto simp: io_inv_def)
  have e: "e \<in> set (inorder (ioport_tree s))"
    using Some by (simp add: ioport_search_def search_single_iff [OF inv(2)])
  then have "e \<in> set (inorder (ioport_tree ?s))" by simp
  from remove_entry_ok [OF inv(1) this] obtain s' where s': "remove_entry e ?s = Ret s'" "io_inv s'"
    "ioports s' = (ioports s)(rb_container e := None)" "rb_int_erase (ioport_tree s) e = Some (ioport_tree s')"
    by auto
  with int_map_erase [OF inv(2) e s'(4)] Some show ?thesis
    by (auto simp: ioport__unregister_def ioport_search_map)
qed

theorem ioport__unregister_correct_witness:
  "\<exists>s'. ioport__unregister 0x70 sample_ioports = Ret (s', - ENOENT) \<and> io_inv s'"
  using ioport__unregister_correct [OF sample_ioports_inv, of "0x70"]
  by (auto simp: sample_ioports_def ioport_state_init_def ioport_search_def rb_int_search_single_def rb_search_def)

text \<open>
  \<^verbatim>\<open>ioport__exit\<close> terminates from every well-formed table, returns 0 and leaves no port
  registered.
\<close>

theorem ioport__exit_correct:
  assumes "io_inv s"
  shows "\<exists>s'. ioport__exit s = Ret (s', 0) \<and> io_inv s' \<and> (\<forall>a. ioport_search (ioport_tree s') a = None)"
proof -
  obtain s' where s': "unregister_all_loop (length (inorder (ioport_tree s))) s = Ret s'" "io_inv s'"
    "inorder (ioport_tree s') = []"
    using unregister_all_loop_ok [OF assms] by blast
  then have "int_inv (ioport_tree s')" by (simp add: io_inv_def)
  with s' have "ioport_search (ioport_tree s') a = None" for a
    by (simp add: ioport_search_def search_single_None)
  with s' show ?thesis by (simp add: ioport__exit_def ioport__unregister_all_def)
qed

theorem ioport__exit_correct_witness: "\<exists>s'. ioport__exit sample_ioports = Ret (s', 0)"
  using ioport__exit_correct [OF sample_ioports_inv] by blast



text \<open>
  A failed allocation returns \<^verbatim>\<open>-ENOMEM\<close> with the write lock still held: every later
  \<^verbatim>\<open>br_write_lock\<close> blocks for good.
\<close>

lemma ioport__register_oom_keeps_lock:
  assumes "io_inv s"
  shows "\<exists>s'. ioport__register True port ops count param s = Ret (s', - ENOMEM) \<and> io_brlock s'"
proof -
  have it: "int_inv (ioport_tree s)" using assms by (simp add: io_inv_def)
  have "\<exists>t. rb_int_erase (ioport_tree s) e = Some t" if "ioport_search (ioport_tree s) a = Some e" for a e
    using that rb_int_erase_cases [OF it, of e] by (metis ioport_search_def search_single_iff [OF it])
  then show ?thesis
    by (fastforce simp: ioport__register_def Let_def ioport__find_free_port_def split: option.splits)
qed

primrec alloc_ports :: "nat \<Rightarrow> ioport_state \<Rightarrow> u16 list" where
  "alloc_ports 0 s = []"
| "alloc_ports (Suc n) s = (case ioport__find_free_port s of (s', p) \<Rightarrow> p # alloc_ports n s')"

lemma alloc_ports_eq:
  "alloc_ports n s = map (\<lambda>i. IOPORT_START + (free_io_port_idx s + of_nat i) * IOPORT_SIZE) [0..<n]"
  by (induction n arbitrary: s)
     (auto simp: ioport__find_free_port_def map_upt_Suc algebra_simps simp del: upt_Suc)

text \<open>
  The port ranges \<^verbatim>\<open>ioport__find_free_port\<close> hands out start at 0x6200, 0x400 apart: the first
  39 are pairwise disjoint and inside the 64K port space.
\<close>

theorem ioport__find_free_port_disjoint:
  assumes "free_io_port_idx s = 0" "i < j" "j < 39"
  shows "unat (alloc_ports 39 s ! i) + unat IOPORT_SIZE \<le> unat (alloc_ports 39 s ! j) \<and>
    unat (alloc_ports 39 s ! j) + unat IOPORT_SIZE \<le> 2 ^ 16"
proof -
  have "unat (IOPORT_START + of_nat k * IOPORT_SIZE) = 0x6200 + k * 0x400" if "k < 39" for k
  proof -
    have "IOPORT_START + of_nat k * IOPORT_SIZE = (of_nat (0x6200 + k * 0x400) :: u16)"
      by (simp add: IOPORT_START_def IOPORT_SIZE_def)
    also have "unat \<dots> = 0x6200 + k * 0x400"
      using that by (simp only: unat_of_nat) (simp add: take_bit_nat_eq_self)
    finally show ?thesis .
  qed
  then show ?thesis using assms by (simp add: alloc_ports_eq IOPORT_SIZE_def)
qed

theorem ioport__find_free_port_disjoint_witness:
  "unat (alloc_ports 39 sample_ioports ! 37) + 0x400 \<le> unat (alloc_ports 39 sample_ioports ! 38)"
  using ioport__find_free_port_disjoint [of sample_ioports 37 38]
  by (simp add: sample_ioports_def ioport_state_init_def IOPORT_SIZE_def)

end
