(* ===== verification/Term.thy ===== *)
theory Term
  imports Prelude
begin

text \<open>
  \<^verbatim>\<open>term.c\<close>: reading from and writing to the terminals behind the consoles.

  What the host delivers is part of the state: \<open>tm_input\<close> holds the results of the coming one-byte
  reads (\<open>None\<close> for a failed read), \<open>tm_writes\<close> the results of the coming \<^verbatim>\<open>write\<close> calls, of which a
  negative one is an error and a non-negative one the number of bytes taken; when the list is used
  up every write takes all its bytes. \<open>tm_output\<close> is what was written, \<open>tm_reboots\<close> counts the calls
  of \<^verbatim>\<open>kvm__reboot\<close>. The static \<^verbatim>\<open>term_got_escape\<close> of \<^verbatim>\<open>term_getc\<close> is \<open>term_got_escape\<close>.
\<close>

record term_state =
  tm_input :: "u8 option list"
  tm_writes :: "int list"
  tm_output :: "u8 list"
  term_got_escape :: bool
  tm_reboots :: nat

definition term_escape_char :: u8 where "term_escape_char = 0x01"

definition term_readable :: "term_state \<Rightarrow> bool" where
  "term_readable t \<longleftrightarrow> tm_input t \<noteq> []"

text \<open>A blocked read (nothing to read) is not reached: the callers test \<^verbatim>\<open>term_readable\<close> first.\<close>

definition term_getc :: "term_state \<Rightarrow> (term_state \<times> int) outcome" where
  "term_getc t =
     (case tm_input t of
        [] \<Rightarrow> Undefined
      | None # rest \<Rightarrow> Ret (t\<lparr>tm_input := rest\<rparr>, -1)
      | Some c # rest \<Rightarrow>
          let t = t\<lparr>tm_input := rest\<rparr>;
              escaped = term_got_escape t;
              t = (if escaped then t\<lparr>term_got_escape := False\<rparr> else t);
              t = (if escaped \<and> c = 0x78 then t\<lparr>tm_reboots := tm_reboots t + 1\<rparr> else t)
          in if escaped \<and> c = term_escape_char then Ret (t, uint c)
             else if c = term_escape_char then Ret (t\<lparr>term_got_escape := True\<rparr>, -1)
             else Ret (t, uint c))"

text \<open>The loop of \<^verbatim>\<open>term_putc\<close> over the results of its writes: the number of bytes left is the second result.\<close>

fun term_putc_loop :: "int list \<Rightarrow> u8 list \<Rightarrow> u8 list \<Rightarrow> int list \<times> u8 list \<times> nat" where
  "term_putc_loop ws out [] = (ws, out, 0)"
| "term_putc_loop [] out addr = ([], out @ addr, 0)"
| "term_putc_loop (w # ws) out addr =
     (if w < 0 then (ws, out, length addr)
      else term_putc_loop ws (out @ take (nat w) addr) (drop (nat w) addr))"

definition term_putc :: "u8 list \<Rightarrow> term_state \<Rightarrow> term_state \<times> nat" where
  "term_putc addr t =
     (case term_putc_loop (tm_writes t) (tm_output t) addr of
        (ws, out, num_remaining) \<Rightarrow> (t\<lparr>tm_writes := ws, tm_output := out\<rparr>, length addr - num_remaining))"

lemma term_putc_loop_prefix:
  "term_putc_loop ws out addr = (ws', out', n) \<Longrightarrow> n \<le> length addr \<and> out' = out @ take (length addr - n) addr"
proof (induction ws out addr arbitrary: ws' out' n rule: term_putc_loop.induct)
  case (3 w ws out b bs)
  show ?case
  proof (cases "w < 0")
    case False
    define k where "k = nat w"
    let ?addr = "b # bs"
    have eq: "term_putc_loop ws (out @ take k ?addr) (drop k ?addr) = (ws', out', n)"
      using 3(2) False by (simp add: k_def)
    from 3(1) [OF False, folded k_def, OF eq]
    have n: "n \<le> length (drop k ?addr)"
      and out: "out' = (out @ take k ?addr) @ take (length (drop k ?addr) - n) (drop k ?addr)" by blast+
    have "take (length ?addr - n) ?addr = take (k + (length (drop k ?addr) - n)) ?addr"
      using n by (cases "k \<le> length ?addr") auto
    also have "\<dots> = take k ?addr @ take (length (drop k ?addr) - n) (drop k ?addr)" by (rule take_add)
    finally show ?thesis using n out by auto
  qed (use 3(2) in auto)
qed auto

lemma term_putc_loop_complete:
  "\<forall>w \<in> set ws. 0 \<le> w \<Longrightarrow> term_putc_loop ws out addr = (ws', out', n) \<Longrightarrow> n = 0"
  by (induction ws out addr rule: term_putc_loop.induct) auto

definition term_getc_iov :: "term_state \<Rightarrow> (term_state \<times> u8 list) outcome" where
  "term_getc_iov t = bind_outcome (term_getc t) (\<lambda>(t, c). Ret (t, if c < 0 then [] else [word_of_int c]))"

text \<open>
  \<^verbatim>\<open>term_putc_iov\<close> is one \<^verbatim>\<open>writev\<close> over the buffers: its result is the number of bytes taken, or
  negative.
\<close>

definition term_putc_iov :: "u8 list list \<Rightarrow> term_state \<Rightarrow> term_state \<times> int" where
  "term_putc_iov iov t =
     (let addr = concat iov
      in case tm_writes t of
           [] \<Rightarrow> (t\<lparr>tm_output := tm_output t @ addr\<rparr>, int (length addr))
         | w # ws \<Rightarrow>
             if w < 0 then (t\<lparr>tm_writes := ws\<rparr>, w)
             else (t\<lparr>tm_writes := ws, tm_output := tm_output t @ take (nat w) addr\<rparr>, min w (int (length addr))))"

text \<open>
  \<^verbatim>\<open>term_putc\<close> returns the number of bytes it has written, and these are the first bytes of the
  buffer, in order, whatever the host's partial writes and errors; without a failed write it is the
  whole buffer.
\<close>

theorem term_putc_writes_prefix:
  assumes "term_putc addr t = (t', n)"
  shows "n \<le> length addr \<and> tm_output t' = tm_output t @ take n addr \<and>
    ((\<forall>w \<in> set (tm_writes t). 0 \<le> w) \<longrightarrow> n = length addr)"
  using assms term_putc_loop_prefix term_putc_loop_complete
  by (fastforce simp: term_putc_def split: prod.splits)

theorem term_putc_writes_prefix_witness:
  "tm_output (fst (term_putc [1, 2, 3]
     \<lparr>tm_input = [], tm_writes = [2, 0, -1], tm_output = [9], term_got_escape = False, tm_reboots = 0\<rparr>)) = [9, 1, 2]"
  using term_putc_writes_prefix [of "[1, 2, 3]"
      "\<lparr>tm_input = [], tm_writes = [2, 0, -1], tm_output = [9], term_got_escape = False, tm_reboots = 0\<rparr>"
      "\<lparr>tm_input = [], tm_writes = [], tm_output = [9, 1, 2], term_got_escape = False, tm_reboots = 0\<rparr>" 2]
  by (simp add: term_putc_def)

lemma term_putc_frame [simp]:
  "tm_input (fst (term_putc addr t)) = tm_input t" "term_got_escape (fst (term_putc addr t)) = term_got_escape t"
  "tm_reboots (fst (term_putc addr t)) = tm_reboots t"
  by (simp_all add: term_putc_def split: prod.splits)

lemma term_putc_complete:
  "tm_writes t = [] \<Longrightarrow> fst (term_putc addr t) = t\<lparr>tm_output := tm_output t @ addr\<rparr>"
  by (cases addr) (simp_all add: term_putc_def)

text \<open>Every byte read is consumed, and a read that is there always returns.\<close>

lemma term_getc_total:
  "term_readable t \<Longrightarrow> \<exists>t' c. term_getc t = Ret (t', c) \<and> length (tm_input t') < length (tm_input t) \<and> c < 256"
proof -
  assume "term_readable t"
  moreover have "uint (c :: u8) < 256" for c using uint_lt2p [of c] by simp
  ultimately show ?thesis
    by (cases "tm_input t") (auto simp: term_readable_def term_getc_def Let_def split: option.splits)
qed

end
