(* ===== verification/Serial.thy ===== *)
theory Serial
  imports Ioport Term
begin

text \<open>
  \<^verbatim>\<open>hw/serial.c\<close>: the emulated 16550A UART of the console.

  The state is the device structure of ttyS0 (the only entry of \<^verbatim>\<open>devices\<close>), the pending
  \<^verbatim>\<open>sysrq_pending\<close> character, the terminal, the sequence of levels driven on the interrupt line
  (\<^verbatim>\<open>kvm__irq_line\<close>) and the device mutex. An access to a buffer out of its bounds is \<open>Undefined\<close>.
  The receive and transmit counters are never negative in the code and are natural numbers.
\<close>

section \<open>Registers\<close>

definition FIFO_LEN :: nat where "FIFO_LEN = 64"

definition UART_TX :: u16 where "UART_TX = 0"
definition UART_RX :: u16 where "UART_RX = 0"
definition UART_IER :: u16 where "UART_IER = 1"
definition UART_FCR :: u16 where "UART_FCR = 2"
definition UART_IIR :: u16 where "UART_IIR = 2"
definition UART_LCR :: u16 where "UART_LCR = 3"
definition UART_MCR :: u16 where "UART_MCR = 4"
definition UART_LSR :: u16 where "UART_LSR = 5"
definition UART_MSR :: u16 where "UART_MSR = 6"
definition UART_SCR :: u16 where "UART_SCR = 7"

lemmas uart_regs = UART_TX_def UART_RX_def UART_IER_def UART_FCR_def UART_IIR_def UART_LCR_def UART_MCR_def
  UART_LSR_def UART_MSR_def UART_SCR_def

definition UART_IER_RDI :: u8 where "UART_IER_RDI = 0x01"
definition UART_IER_THRI :: u8 where "UART_IER_THRI = 0x02"
definition UART_IIR_NO_INT :: u8 where "UART_IIR_NO_INT = 0x01"
definition UART_IIR_THRI :: u8 where "UART_IIR_THRI = 0x02"
definition UART_IIR_RDI :: u8 where "UART_IIR_RDI = 0x04"
definition UART_IIR_TYPE_BITS :: u8 where "UART_IIR_TYPE_BITS = 0xc0"
definition UART_FCR_CLEAR_RCVR :: u8 where "UART_FCR_CLEAR_RCVR = 0x02"
definition UART_FCR_CLEAR_XMIT :: u8 where "UART_FCR_CLEAR_XMIT = 0x04"
definition UART_LCR_DLAB :: u8 where "UART_LCR_DLAB = 0x80"
definition UART_MCR_OUT2 :: u8 where "UART_MCR_OUT2 = 0x08"
definition UART_MCR_LOOP :: u8 where "UART_MCR_LOOP = 0x10"
definition UART_LSR_DR :: u8 where "UART_LSR_DR = 0x01"
definition UART_LSR_BI :: u8 where "UART_LSR_BI = 0x10"
definition UART_LSR_THRE :: u8 where "UART_LSR_THRE = 0x20"
definition UART_LSR_TEMT :: u8 where "UART_LSR_TEMT = 0x40"
definition UART_MSR_CTS :: u8 where "UART_MSR_CTS = 0x10"
definition UART_MSR_DSR :: u8 where "UART_MSR_DSR = 0x20"
definition UART_MSR_DCD :: u8 where "UART_MSR_DCD = 0x80"

lemmas uart_bits = UART_IER_RDI_def UART_IER_THRI_def UART_IIR_NO_INT_def UART_IIR_THRI_def UART_IIR_RDI_def
  UART_IIR_TYPE_BITS_def UART_FCR_CLEAR_RCVR_def UART_FCR_CLEAR_XMIT_def UART_LCR_DLAB_def UART_MCR_OUT2_def
  UART_MCR_LOOP_def UART_LSR_DR_def UART_LSR_BI_def UART_LSR_THRE_def UART_LSR_TEMT_def UART_MSR_CTS_def
  UART_MSR_DSR_def UART_MSR_DCD_def

section \<open>State\<close>

record serial8250_device =
  iobase :: u16
  ser_irq :: u8
  ser_irq_state :: u8
  txcnt :: nat
  rxcnt :: nat
  rxdone :: nat
  txbuf :: "u8 list"
  rxbuf :: "u8 list"
  dll :: u8
  dlm :: u8
  iir :: u8
  ier :: u8
  fcr :: u8
  lcr :: u8
  mcr :: u8
  lsr :: u8
  msr :: u8
  scr :: u8

record serial_state = serial8250_device +
  sysrq_pending :: u8
  ser_term :: term_state
  ser_line :: irq_events
  ser_mutex :: bool

definition serial_devices :: "term_state \<Rightarrow> serial_state" where
  "serial_devices t =
     \<lparr>iobase = 0x3f8, ser_irq = 4, ser_irq_state = 0, txcnt = 0, rxcnt = 0, rxdone = 0,
      txbuf = replicate FIFO_LEN 0, rxbuf = replicate FIFO_LEN 0, dll = 0, dlm = 0,
      iir = UART_IIR_NO_INT, ier = 0, fcr = 0, lcr = 0, mcr = UART_MCR_OUT2,
      lsr = UART_LSR_TEMT OR UART_LSR_THRE, msr = UART_MSR_DCD OR UART_MSR_DSR OR UART_MSR_CTS, scr = 0,
      sysrq_pending = 0, ser_term = t, ser_line = [], ser_mutex = False\<rparr>"

section \<open>Operations\<close>

definition serial8250_flush_tx :: "serial_state \<Rightarrow> serial_state" where
  "serial8250_flush_tx s =
     (let s = s\<lparr>lsr := lsr s OR (UART_LSR_TEMT OR UART_LSR_THRE)\<rparr>
      in if txcnt s \<noteq> 0
         then s\<lparr>ser_term := fst (term_putc (take (txcnt s) (txbuf s)) (ser_term s)), txcnt := 0\<rparr>
         else s)"

definition clear_rx :: "serial_state \<Rightarrow> serial_state" where
  "clear_rx s =
     (if lcr s AND UART_FCR_CLEAR_RCVR \<noteq> 0
      then s\<lparr>lcr := lcr s AND NOT UART_FCR_CLEAR_RCVR, rxcnt := 0, rxdone := 0, lsr := lsr s AND NOT UART_LSR_DR\<rparr>
      else s)"

definition clear_tx :: "serial_state \<Rightarrow> serial_state" where
  "clear_tx s =
     (if lcr s AND UART_FCR_CLEAR_XMIT \<noteq> 0
      then s\<lparr>lcr := lcr s AND NOT UART_FCR_CLEAR_XMIT, txcnt := 0, lsr := lsr s OR (UART_LSR_TEMT OR UART_LSR_THRE)\<rparr>
      else s)"

definition pending_iir :: "serial_state \<Rightarrow> u8" where
  "pending_iir s =
     (if ier s AND UART_IER_RDI \<noteq> 0 \<and> lsr s AND UART_LSR_DR \<noteq> 0 then UART_IIR_RDI else 0) OR
     (if ier s AND UART_IER_THRI \<noteq> 0 \<and> lsr s AND UART_LSR_TEMT \<noteq> 0 then UART_IIR_THRI else 0)"

definition serial8250_update_irq :: "serial_state \<Rightarrow> serial_state" where
  "serial8250_update_irq s =
     (let s = clear_tx (clear_rx s);
          i = pending_iir s;
          s = (if i = 0
               then (let s = s\<lparr>iir := UART_IIR_NO_INT\<rparr>
                     in if ser_irq_state s \<noteq> 0 then s\<lparr>ser_line := kvm__irq_line (ser_irq s) False (ser_line s)\<rparr> else s)
               else (let s = s\<lparr>iir := i\<rparr>
                     in if ser_irq_state s = 0 then s\<lparr>ser_line := kvm__irq_line (ser_irq s) True (ser_line s)\<rparr> else s));
          s = s\<lparr>ser_irq_state := i\<rparr>
      in if ier s AND UART_IER_THRI = 0 then serial8250_flush_tx s else s)"

text \<open>\<^verbatim>\<open>dev->rxbuf[dev->rxcnt++] = c\<close>, and the same for the transmit buffer.\<close>

definition push_rx :: "u8 \<Rightarrow> serial_state \<Rightarrow> serial_state outcome" where
  "push_rx c s =
     (if rxcnt s < length (rxbuf s) then Ret (s\<lparr>rxbuf := (rxbuf s)[rxcnt s := c], rxcnt := rxcnt s + 1\<rparr>)
      else Undefined)"

definition push_tx :: "u8 \<Rightarrow> serial_state \<Rightarrow> serial_state outcome" where
  "push_tx c s =
     (if txcnt s < length (txbuf s) then Ret (s\<lparr>txbuf := (txbuf s)[txcnt s := c], txcnt := txcnt s + 1\<rparr>)
      else Undefined)"

definition serial8250__sysrq :: "serial_state \<Rightarrow> serial_state outcome" where
  "serial8250__sysrq s =
     bind_outcome (push_rx (sysrq_pending s) (s\<lparr>lsr := lsr s OR (UART_LSR_DR OR UART_LSR_BI)\<rparr>))
       (\<lambda>s. Ret (s\<lparr>sysrq_pending := 0\<rparr>))"

text \<open>The loop of \<^verbatim>\<open>serial8250__receive\<close>; every pass consumes a byte of the terminal's input.\<close>

function receive_loop :: "serial_state \<Rightarrow> serial_state outcome" where
  "receive_loop s =
     (if term_readable (ser_term s) \<and> rxcnt s < FIFO_LEN
      then (case term_getc (ser_term s) of
              Ret (t, c) \<Rightarrow>
                (let s = s\<lparr>ser_term := t\<rparr>
                 in if c < 0 then Ret s
                    else (case push_rx (word_of_int c) s of
                            Ret s \<Rightarrow> receive_loop (s\<lparr>lsr := lsr s OR UART_LSR_DR\<rparr>)
                          | Dies \<Rightarrow> Dies | Undefined \<Rightarrow> Undefined))
            | Dies \<Rightarrow> Dies | Undefined \<Rightarrow> Undefined)
      else Ret s)"
  by pat_completeness auto

termination receive_loop
proof (relation "measure (\<lambda>s. length (tm_input (ser_term s)))")
  fix s :: serial_state and x2 t c s1 s2
  assume cond: "term_readable (ser_term s) \<and> rxcnt s < FIFO_LEN" and get: "term_getc (ser_term s) = Ret x2"
    "(t, c) = x2" and s1: "s1 = s\<lparr>ser_term := t\<rparr>" and push: "push_rx (word_of_int c) s1 = Ret s2"
  from push s1 have "ser_term s2 = t" by (auto simp: push_rx_def split: if_splits)
  then show "(s2\<lparr>lsr := lsr s2 OR UART_LSR_DR\<rparr>, s) \<in> measure (\<lambda>s. length (tm_input (ser_term s)))"
    using term_getc_total [of "ser_term s"] cond get by auto
qed auto

declare receive_loop.simps [simp del]

text \<open>\<open>console\<close> is \<^verbatim>\<open>kvm->cfg.active_console == CONSOLE_8250\<close>.\<close>

definition serial8250__receive :: "bool \<Rightarrow> bool \<Rightarrow> serial_state \<Rightarrow> serial_state outcome" where
  "serial8250__receive console handle_sysrq s =
     (if mcr s AND UART_MCR_LOOP \<noteq> 0 then Ret s
      else if lsr s AND UART_LSR_DR \<noteq> 0 \<or> rxcnt s \<noteq> 0 then Ret s
      else if handle_sysrq \<and> sysrq_pending s \<noteq> 0 then serial8250__sysrq s
      else if \<not> console then Ret s
      else receive_loop s)"

definition serial8250__update_consoles :: "bool \<Rightarrow> serial_state \<Rightarrow> serial_state outcome" where
  "serial8250__update_consoles console s =
     bind_outcome (serial8250__receive console True (s\<lparr>ser_mutex := True\<rparr>)) (\<lambda>s.
       Ret ((serial8250_update_irq s)\<lparr>ser_mutex := False\<rparr>))"

definition serial8250__inject_sysrq :: "u8 \<Rightarrow> serial_state \<Rightarrow> serial_state" where
  "serial8250__inject_sysrq sysrq s = s\<lparr>sysrq_pending := sysrq\<rparr>"

text \<open>The characters of a C string up to its terminating zero.\<close>

fun inject_loop :: "u8 list \<Rightarrow> serial_state \<Rightarrow> serial_state outcome" where
  "inject_loop [] s = Ret s"
| "inject_loop (c # str) s =
     (if c \<noteq> 0 \<and> rxcnt s < FIFO_LEN
      then bind_outcome (push_rx c s) (\<lambda>s. inject_loop str (s\<lparr>lsr := lsr s OR UART_LSR_DR\<rparr>))
      else Ret s)"

definition serial8250__inject_string :: "u8 list \<Rightarrow> serial_state \<Rightarrow> serial_state outcome" where
  "serial8250__inject_string str s =
     bind_outcome (inject_loop str (s\<lparr>ser_mutex := True\<rparr>)) (\<lambda>s.
       Ret ((serial8250_update_irq s)\<lparr>ser_mutex := False\<rparr>))"

definition serial_out_tx :: "u8 list \<Rightarrow> serial_state \<Rightarrow> serial_state outcome" where
  "serial_out_tx data s =
     bind_outcome (ioport__read8 data) (\<lambda>b.
       if lcr s AND UART_LCR_DLAB \<noteq> 0 then Ret (s\<lparr>dll := b\<rparr>)
       else if mcr s AND UART_MCR_LOOP \<noteq> 0
       then (if rxcnt s < FIFO_LEN
             then bind_outcome (push_rx b s) (\<lambda>s. Ret (s\<lparr>lsr := lsr s OR UART_LSR_DR\<rparr>))
             else Ret s)
       else if txcnt s < FIFO_LEN
       then bind_outcome (push_tx b s) (\<lambda>s.
              let s = s\<lparr>lsr := lsr s AND NOT UART_LSR_TEMT\<rparr>;
                  s = (if txcnt s = FIFO_LEN div 2 then s\<lparr>lsr := lsr s AND NOT UART_LSR_THRE\<rparr> else s)
              in Ret (serial8250_flush_tx s))
       else Ret (s\<lparr>lsr := lsr s AND NOT (UART_LSR_TEMT OR UART_LSR_THRE)\<rparr>))"

definition serial_out_reg :: "u16 \<Rightarrow> u8 list \<Rightarrow> serial_state \<Rightarrow> (serial_state \<times> bool) outcome" where
  "serial_out_reg offset data s =
     (if offset = UART_TX then bind_outcome (serial_out_tx data s) (\<lambda>s. Ret (s, True))
      else if offset = UART_IER then bind_outcome (ioport__read8 data) (\<lambda>b.
        Ret (if lcr s AND UART_LCR_DLAB = 0 then s\<lparr>ier := b AND 0x0f\<rparr> else s\<lparr>dlm := b\<rparr>, True))
      else if offset = UART_FCR then bind_outcome (ioport__read8 data) (\<lambda>b. Ret (s\<lparr>fcr := b\<rparr>, True))
      else if offset = UART_LCR then bind_outcome (ioport__read8 data) (\<lambda>b. Ret (s\<lparr>lcr := b\<rparr>, True))
      else if offset = UART_MCR then bind_outcome (ioport__read8 data) (\<lambda>b. Ret (s\<lparr>mcr := b\<rparr>, True))
      else if offset = UART_LSR then Ret (s, True)
      else if offset = UART_MSR then Ret (s, True)
      else if offset = UART_SCR then bind_outcome (ioport__read8 data) (\<lambda>b. Ret (s\<lparr>scr := b\<rparr>, True))
      else Ret (s, False))"

definition serial8250_out :: "serial_state io_handler" where
  "serial8250_out port data s =
     bind_outcome (serial_out_reg (port - iobase s) data (s\<lparr>ser_mutex := True\<rparr>)) (\<lambda>(s, ret).
       Ret ((serial8250_update_irq s)\<lparr>ser_mutex := False\<rparr>, data, ret))"

definition serial8250_rx :: "u8 list \<Rightarrow> serial_state \<Rightarrow> (serial_state \<times> u8 list) outcome" where
  "serial8250_rx data s =
     (if rxdone s = rxcnt s then Ret (s, data)
      else if lsr s AND UART_LSR_BI \<noteq> 0
      then bind_outcome (ioport__write8 data 0) (\<lambda>d. Ret (s\<lparr>lsr := lsr s AND NOT UART_LSR_BI\<rparr>, d))
      else if rxdone s < length (rxbuf s)
      then bind_outcome (ioport__write8 data (rxbuf s ! rxdone s)) (\<lambda>d.
             let s = s\<lparr>rxdone := rxdone s + 1\<rparr>
             in Ret (if rxcnt s = rxdone s
                     then s\<lparr>lsr := lsr s AND NOT UART_LSR_DR, rxcnt := 0, rxdone := 0\<rparr>
                     else s, d))
      else Undefined)"

definition serial_in_reg :: "u16 \<Rightarrow> u8 list \<Rightarrow> serial_state \<Rightarrow> (serial_state \<times> u8 list \<times> bool) outcome" where
  "serial_in_reg offset data s =
     (let reply = (\<lambda>v. bind_outcome (ioport__write8 data v) (\<lambda>d. Ret (s, d, True)))
      in if offset = UART_RX then
           (if lcr s AND UART_LCR_DLAB \<noteq> 0 then reply (dll s)
            else bind_outcome (serial8250_rx data s) (\<lambda>(s, d). Ret (s, d, True)))
         else if offset = UART_IER then reply (if lcr s AND UART_LCR_DLAB \<noteq> 0 then dlm s else ier s)
         else if offset = UART_IIR then reply (iir s OR UART_IIR_TYPE_BITS)
         else if offset = UART_LCR then reply (lcr s)
         else if offset = UART_MCR then reply (mcr s)
         else if offset = UART_LSR then reply (lsr s)
         else if offset = UART_MSR then reply (msr s)
         else if offset = UART_SCR then reply (scr s)
         else Ret (s, data, False))"

definition serial8250_in :: "serial_state io_handler" where
  "serial8250_in port data s =
     bind_outcome (serial_in_reg (port - iobase s) data (s\<lparr>ser_mutex := True\<rparr>)) (\<lambda>(s, d, ret).
       Ret ((serial8250_update_irq s)\<lparr>ser_mutex := False\<rparr>, d, ret))"

section \<open>Set-up, removal and fork hooks\<close>

definition serial8250_ops :: nat where "serial8250_ops = 1"

definition serial8250__device_init :: "bool \<Rightarrow> serial_state \<Rightarrow> ioport_state \<Rightarrow> (ioport_state \<times> int) outcome" where
  "serial8250__device_init oom s io = ioport__register oom (iobase s) serial8250_ops 8 0 io"

definition serial8250__init :: "bool \<Rightarrow> serial_state \<Rightarrow> ioport_state \<Rightarrow> (ioport_state \<times> int) outcome" where
  "serial8250__init oom s io =
     bind_outcome (serial8250__device_init oom s io) (\<lambda>(io, r).
       if r < 0 then bind_outcome (ioport__unregister (iobase s) io) (\<lambda>(io, _). Ret (io, r)) else Ret (io, r))"

definition serial8250__exit :: "serial_state \<Rightarrow> ioport_state \<Rightarrow> (ioport_state \<times> int) outcome" where
  "serial8250__exit s io =
     bind_outcome (ioport__unregister (iobase s) io) (\<lambda>(io, r). if r < 0 then Ret (io, r) else Ret (io, 0))"

definition serial8250__pre_copy :: "serial_state \<Rightarrow> serial_state \<times> int" where
  "serial8250__pre_copy s = (s\<lparr>ser_mutex := True\<rparr>, 0)"

definition serial8250__post_copy :: "serial_state \<Rightarrow> serial_state \<times> int" where
  "serial8250__post_copy s = (s\<lparr>ser_mutex := False\<rparr>, 0)"

section \<open>Invariant\<close>

lemma and_bits_eq_0:
  "(w :: u8) AND UART_LSR_DR = 0 \<longleftrightarrow> \<not> bit w 0" "w AND UART_LSR_BI = 0 \<longleftrightarrow> \<not> bit w 4"
  "w AND UART_LSR_TEMT = 0 \<longleftrightarrow> \<not> bit w 6" "w AND UART_FCR_CLEAR_RCVR = 0 \<longleftrightarrow> \<not> bit w 1"
  "w AND UART_FCR_CLEAR_XMIT = 0 \<longleftrightarrow> \<not> bit w 2" "w AND UART_LCR_DLAB = 0 \<longleftrightarrow> \<not> bit w 7"
  "w AND UART_MCR_LOOP = 0 \<longleftrightarrow> \<not> bit w 4" "w AND UART_IER_RDI = 0 \<longleftrightarrow> \<not> bit w 0"
  "w AND UART_IER_THRI = 0 \<longleftrightarrow> \<not> bit w 1"
  using and_exp_eq_0_iff_not_bit [of w 0] and_exp_eq_0_iff_not_bit [of w 1] and_exp_eq_0_iff_not_bit [of w 2]
    and_exp_eq_0_iff_not_bit [of w 4] and_exp_eq_0_iff_not_bit [of w 6] and_exp_eq_0_iff_not_bit [of w 7]
  by (simp_all add: uart_bits)

lemma bit_u8_exp: "k < 8 \<Longrightarrow> bit (2 ^ k :: u8) n \<longleftrightarrow> n = k"
  by (auto simp: bit_exp_iff possible_bit_word)

lemma lsr_bits:
  "bit UART_LSR_DR n \<longleftrightarrow> n = 0"
  "bit UART_LSR_TEMT n \<longleftrightarrow> n = 6" "bit UART_LSR_THRE n \<longleftrightarrow> n = 5" "bit UART_LSR_BI n \<longleftrightarrow> n = 4"
  "bit UART_FCR_CLEAR_RCVR n \<longleftrightarrow> n = 1" "bit UART_FCR_CLEAR_XMIT n \<longleftrightarrow> n = 2"
  using bit_u8_exp [of 0 n] bit_u8_exp [of 6 n] bit_u8_exp [of 5 n] bit_u8_exp [of 4 n] bit_u8_exp [of 1 n]
    bit_u8_exp [of 2 n] by (simp_all add: uart_bits)

lemmas ser_bits = and_bits_eq_0 lsr_bits bit_or_iff bit_and_iff bit_not_iff

text \<open>
  The receive buffer is drained from \<open>rxdone\<close> to \<open>rxcnt\<close> and reset when it is empty; data-ready is
  set exactly when it holds something; the transmitter is always empty between accesses; the level
  last driven on the line is whether an interrupt is pending.
\<close>

definition line_level :: "serial_state \<Rightarrow> bool" where
  "line_level s \<longleftrightarrow> line_high (ser_irq s) (ser_line s)"

definition ser_core :: "serial_state \<Rightarrow> bool" where
  "ser_core s \<longleftrightarrow> length (txbuf s) = FIFO_LEN \<and> length (rxbuf s) = FIFO_LEN \<and> txcnt s = 0 \<and>
     rxdone s \<le> rxcnt s \<and> rxcnt s \<le> FIFO_LEN \<and> (rxdone s = rxcnt s \<longrightarrow> rxcnt s = 0) \<and>
     (bit (lsr s) 0 \<longleftrightarrow> rxcnt s \<noteq> 0) \<and> bit (lsr s) 5 \<and> bit (lsr s) 6 \<and>
     (line_level s \<longleftrightarrow> ser_irq_state s \<noteq> 0)"

definition ser_inv :: "serial_state \<Rightarrow> bool" where
  "ser_inv s \<longleftrightarrow> ser_core s \<and> \<not> bit (lcr s) 1 \<and> \<not> bit (lcr s) 2 \<and> ser_irq_state s = pending_iir s \<and>
     iir s = (if pending_iir s = 0 then UART_IIR_NO_INT else pending_iir s)"

lemma ser_inv_init: "ser_inv (serial_devices t)"
  by (simp add: ser_inv_def ser_core_def serial_devices_def line_level_def pending_iir_def uart_bits)

lemma clear_core:
  "ser_core s \<Longrightarrow> ser_core (clear_tx (clear_rx s))"
  "\<not> bit (lcr (clear_tx (clear_rx s))) 1" "\<not> bit (lcr (clear_tx (clear_rx s))) 2"
  by (auto simp: clear_tx_def clear_rx_def ser_core_def line_level_def ser_bits)

lemma flush_tx_idle: "ser_core s \<Longrightarrow> serial8250_flush_tx s = s"
proof -
  assume c: "ser_core s"
  have "lsr s OR (UART_LSR_TEMT OR UART_LSR_THRE) = lsr s"
    by (rule bit_eqI) (use c in \<open>auto simp: ser_core_def ser_bits\<close>)
  with c show ?thesis by (simp add: serial8250_flush_tx_def ser_core_def)
qed

text \<open>What \<^verbatim>\<open>serial8250_update_irq\<close> does between accesses: the receive buffer survives unless LCR asks to clear it.\<close>

lemma update_irq_eq:
  assumes "ser_core s"
  obtains l where
    "serial8250_update_irq s = (clear_tx (clear_rx s))\<lparr>iir := (if pending_iir (clear_tx (clear_rx s)) = 0
         then UART_IIR_NO_INT else pending_iir (clear_tx (clear_rx s))), ser_line := l,
       ser_irq_state := pending_iir (clear_tx (clear_rx s))\<rparr>"
    "ser_core (serial8250_update_irq s)"
proof -
  let ?s = "clear_tx (clear_rx s)"
  let ?i = "pending_iir ?s"
  let ?l = "if ?i = 0 then (if ser_irq_state ?s \<noteq> 0 then kvm__irq_line (ser_irq ?s) False (ser_line ?s) else ser_line ?s)
     else (if ser_irq_state ?s = 0 then kvm__irq_line (ser_irq ?s) True (ser_line ?s) else ser_line ?s)"
  let ?s' = "?s\<lparr>iir := if ?i = 0 then UART_IIR_NO_INT else ?i, ser_line := ?l, ser_irq_state := ?i\<rparr>"
  have core: "ser_core ?s" using assms by (rule clear_core)
  then have core': "ser_core ?s'" by (auto simp: ser_core_def line_level_def)
  have "serial8250_update_irq s = (if ier ?s' AND UART_IER_THRI = 0 then serial8250_flush_tx ?s' else ?s')"
    by (simp add: serial8250_update_irq_def Let_def)
  also have "\<dots> = ?s'" using flush_tx_idle [OF core'] by simp
  finally show ?thesis using core' that by simp
qed

lemma update_irq_inv: "ser_core s \<Longrightarrow> ser_inv (serial8250_update_irq s)"
  by (erule update_irq_eq [of s]) (use clear_core(2,3) in \<open>auto simp: ser_inv_def pending_iir_def\<close>)

lemma update_irq_frame:
  assumes "ser_core s" "\<not> bit (lcr s) 1" "\<not> bit (lcr s) 2"
  shows "rxcnt (serial8250_update_irq s) = rxcnt s" "rxdone (serial8250_update_irq s) = rxdone s"
    "rxbuf (serial8250_update_irq s) = rxbuf s" "lsr (serial8250_update_irq s) = lsr s"
    "lcr (serial8250_update_irq s) = lcr s" "mcr (serial8250_update_irq s) = mcr s"
    "ser_term (serial8250_update_irq s) = ser_term s" "iobase (serial8250_update_irq s) = iobase s"
    "ier (serial8250_update_irq s) = ier s"
proof -
  have clear: "clear_tx (clear_rx s) = s" using assms by (simp add: clear_tx_def clear_rx_def ser_bits)
  obtain i l q where "serial8250_update_irq s = s\<lparr>iir := i, ser_line := l, ser_irq_state := q\<rparr>"
    using update_irq_eq [OF assms(1)] unfolding clear by metis
  then show "rxcnt (serial8250_update_irq s) = rxcnt s" "rxdone (serial8250_update_irq s) = rxdone s"
    "rxbuf (serial8250_update_irq s) = rxbuf s" "lsr (serial8250_update_irq s) = lsr s"
    "lcr (serial8250_update_irq s) = lcr s" "mcr (serial8250_update_irq s) = mcr s"
    "ser_term (serial8250_update_irq s) = ser_term s" "iobase (serial8250_update_irq s) = iobase s"
    "ier (serial8250_update_irq s) = ier s"
    by simp_all
qed

lemma ser_mutex_frame [simp]:
  "line_level (s\<lparr>ser_mutex := b\<rparr>) = line_level s"
  "ser_core (s\<lparr>ser_mutex := b\<rparr>) = ser_core s" "ser_inv (s\<lparr>ser_mutex := b\<rparr>) = ser_inv s"
  by (simp_all add: ser_inv_def ser_core_def line_level_def pending_iir_def)

lemma ser_core_frame [simp]:
  "ser_core (s\<lparr>dll := b\<rparr>) = ser_core s" "ser_core (s\<lparr>dlm := b\<rparr>) = ser_core s"
  "ser_core (s\<lparr>ier := b\<rparr>) = ser_core s" "ser_core (s\<lparr>fcr := b\<rparr>) = ser_core s"
  "ser_core (s\<lparr>lcr := b\<rparr>) = ser_core s" "ser_core (s\<lparr>mcr := b\<rparr>) = ser_core s"
  "ser_core (s\<lparr>scr := b\<rparr>) = ser_core s" "ser_core (s\<lparr>sysrq_pending := b\<rparr>) = ser_core s"
  "ser_core (s\<lparr>ser_term := t\<rparr>) = ser_core s"
  by (simp_all add: ser_core_def line_level_def)

lemma push_rx_core:
  assumes "ser_core s" "rxcnt s < FIFO_LEN"
  shows "push_rx c s = Ret (s\<lparr>rxbuf := (rxbuf s)[rxcnt s := c], rxcnt := rxcnt s + 1\<rparr>)"
    "ser_core (s\<lparr>rxbuf := (rxbuf s)[rxcnt s := c], rxcnt := Suc (rxcnt s), lsr := lsr s OR UART_LSR_DR\<rparr>)"
  using assms by (auto simp: push_rx_def ser_core_def line_level_def ser_bits)

lemma out_tx_core:
  assumes "ser_core s" "data \<noteq> []"
  shows "\<exists>s'. serial_out_tx data s = Ret s' \<and> ser_core s'"
proof -
  obtain b ds where d: "data = b # ds" using assms(2) by (cases data) auto
  have tx: "txcnt s = 0" "length (txbuf s) = FIFO_LEN" using assms by (auto simp: ser_core_def)
  have "ser_core (serial8250_flush_tx (s\<lparr>txbuf := t, txcnt := Suc 0, lsr := lsr s AND NOT UART_LSR_TEMT\<rparr>))"
    if "length t = FIFO_LEN" for t
    using assms(1) that by (auto simp: serial8250_flush_tx_def Let_def ser_core_def line_level_def ser_bits)
  then show ?thesis
    using assms(1) push_rx_core [OF assms(1)] tx
    by (auto simp: serial_out_tx_def d ioport__read8_def push_tx_def FIFO_LEN_def Let_def)
qed

lemma serial8250_out_ok:
  assumes "ser_inv s" "1 \<le> length data"
  shows "\<exists>s' d r. serial8250_out port data s = Ret (s', d, r) \<and> ser_inv s' \<and> length d = length data"
proof -
  let ?s = "s\<lparr>ser_mutex := True\<rparr>"
  obtain b ds where d: "data = b # ds" using assms(2) by (cases data) auto
  have core: "ser_core ?s" using assms by (simp add: ser_inv_def)
  obtain s1 where tx: "serial_out_tx data ?s = Ret s1" "ser_core s1" using out_tx_core [OF core] d by auto
  have "ioport__read8 data = Ret b" by (simp add: d ioport__read8_def)
  then have "\<exists>s' r. serial_out_reg (port - iobase s) data ?s = Ret (s', r) \<and> ser_core s'"
    using core tx unfolding serial_out_reg_def by auto
  then show ?thesis using update_irq_inv by (auto simp: serial8250_out_def)
qed

lemma rx_core:
  assumes "ser_core s" "data \<noteq> []"
  shows "\<exists>s' d. serial8250_rx data s = Ret (s', d) \<and> ser_core s' \<and> length d = length data"
  using assms
  by (cases data) (auto simp: serial8250_rx_def ioport__write8_def ser_core_def line_level_def ser_bits Let_def)

lemma serial8250_in_ok:
  assumes "ser_inv s" "1 \<le> length data"
  shows "\<exists>s' d r. serial8250_in port data s = Ret (s', d, r) \<and> ser_inv s' \<and> length d = length data"
proof -
  let ?s = "s\<lparr>ser_mutex := True\<rparr>"
  obtain b ds where d: "data = b # ds" using assms(2) by (cases data) auto
  have core: "ser_core ?s" using assms by (simp add: ser_inv_def)
  have "\<exists>s' e r. serial_in_reg (port - iobase s) data ?s = Ret (s', e, r) \<and> ser_core s' \<and> length e = length data"
    using core rx_core [OF core, of data]
    by (auto simp: serial_in_reg_def d ioport__write8_def Let_def)
  then show ?thesis using update_irq_inv by (auto simp: serial8250_in_def)
qed

interpretation serial_out: io_device ser_inv 1 serial8250_out
  by unfold_locales (rule serial8250_out_ok)

interpretation serial_in: io_device ser_inv 1 serial8250_in
  by unfold_locales (rule serial8250_in_ok)

section \<open>Input from the console\<close>

lemma receive_loop_ok: "ser_core s \<Longrightarrow> \<exists>s'. receive_loop s = Ret s' \<and> ser_core s'"
proof (induction s rule: receive_loop.induct)
  case (1 s)
  show ?case
  proof (cases "term_readable (ser_term s) \<and> rxcnt s < FIFO_LEN")
    case True
    then obtain t c where get: "term_getc (ser_term s) = Ret (t, c)" using term_getc_total by blast
    have core: "ser_core (s\<lparr>ser_term := t\<rparr>)" "rxcnt (s\<lparr>ser_term := t\<rparr>) < FIFO_LEN" using 1(2) True by simp_all
    note push = push_rx_core [OF core]
    from push(2) have core': "ser_core (s\<lparr>ser_term := t, rxbuf := (rxbuf s)[rxcnt s := c'], rxcnt := Suc (rxcnt s), lsr := lsr s OR UART_LSR_DR\<rparr>)"
      for c' by simp
    have rec: "\<exists>s'. receive_loop (s\<lparr>ser_term := t, rxbuf := (rxbuf s)[rxcnt s := word_of_int c], rxcnt := Suc (rxcnt s), lsr := lsr s OR UART_LSR_DR\<rparr>) = Ret s' \<and> ser_core s'"
      if c: "\<not> c < 0"
      using 1(1) [OF True get refl refl c push(1)] core' by simp
    show ?thesis
      unfolding receive_loop.simps [of s] using True get core(1) push(1) rec by (simp add: Let_def)
  qed (use 1(2) in \<open>auto simp: receive_loop.simps [of s]\<close>)
qed

lemma receive_ok: "ser_core s \<Longrightarrow> \<exists>s'. serial8250__receive console hs s = Ret s' \<and> ser_core s'"
proof -
  assume c: "ser_core s"
  have "\<exists>s'. serial8250__sysrq s = Ret s' \<and> ser_core s'" if "rxcnt s = 0"
    using c that by (simp add: serial8250__sysrq_def push_rx_def)
      (auto simp: ser_core_def line_level_def ser_bits FIFO_LEN_def)
  then show ?thesis using c receive_loop_ok [of s] by (auto simp: serial8250__receive_def)
qed

text \<open>The bytes of the receive buffer the guest has yet to read.\<close>

definition rx_queue :: "serial_state \<Rightarrow> u8 list" where
  "rx_queue s = drop (rxdone s) (take (rxcnt s) (rxbuf s))"

lemma rx_queue_push:
  assumes "ser_core s" "rxcnt s < FIFO_LEN"
  shows "drop (rxdone s) (take (Suc (rxcnt s)) ((rxbuf s)[rxcnt s := c])) = rx_queue s @ [c]"
  using assms by (simp add: rx_queue_def ser_core_def take_Suc_conv_app_nth)

lemma inject_loop_ok:
  "ser_core s \<Longrightarrow> \<exists>s'. inject_loop str s = Ret s' \<and> ser_core s' \<and>
     rx_queue s' = rx_queue s @ take (FIFO_LEN - rxcnt s) (takeWhile (\<lambda>c. c \<noteq> 0) str) \<and> lcr s' = lcr s"
proof (induction str arbitrary: s)
  case (Cons c str)
  show ?case
  proof (cases "c \<noteq> 0 \<and> rxcnt s < FIFO_LEN")
    case True
    let ?s = "s\<lparr>rxbuf := (rxbuf s)[rxcnt s := c], rxcnt := Suc (rxcnt s), lsr := lsr s OR UART_LSR_DR\<rparr>"
    note push = push_rx_core [OF Cons.prems, of c]
    from Cons.IH [of ?s] push(2) True obtain s' where s': "inject_loop str ?s = Ret s'" "ser_core s'"
      "rx_queue s' = rx_queue ?s @ take (FIFO_LEN - Suc (rxcnt s)) (takeWhile (\<lambda>c. c \<noteq> 0) str)" "lcr s' = lcr s"
      by auto
    have "rx_queue ?s = rx_queue s @ [c]"
      using rx_queue_push [OF Cons.prems, of c] True by (simp add: rx_queue_def)
    moreover have "FIFO_LEN - rxcnt s = Suc (FIFO_LEN - Suc (rxcnt s))" using True by (simp add: Suc_diff_Suc)
    ultimately show ?thesis using s' push(1) True by simp
  qed (use Cons.prems in auto)
qed auto

lemma rx_queue_frame [simp]: "rx_queue (s\<lparr>ser_mutex := b\<rparr>) = rx_queue s"
  by (simp add: rx_queue_def)

section \<open>Properties\<close>

text \<open>
  C37: no guest access to the UART's ports reads or writes outside the device's buffers: from
  a well-formed state every string access of any length returns, in both directions, and leaves a
  well-formed state, and so do the paths that feed the receive buffer from the host.
\<close>

theorem serial8250_safe:
  assumes "ser_inv s" "count * sz + 1 \<le> length buf"
  shows "(\<exists>s' b r. io_loop serial8250_out port sz count 0 buf False s = Ret (s', b, r) \<and> ser_inv s') \<and>
    (\<exists>s' b r. io_loop serial8250_in port sz count 0 buf False s = Ret (s', b, r) \<and> ser_inv s') \<and>
    (\<exists>s'. serial8250__update_consoles console s = Ret s' \<and> ser_inv s') \<and>
    (\<exists>s'. serial8250__inject_string str s = Ret s' \<and> ser_inv s')"
proof -
  have core: "ser_core (s\<lparr>ser_mutex := True\<rparr>)" using assms by (simp add: ser_inv_def)
  from receive_ok [OF core, of console True] have "\<exists>s'. serial8250__update_consoles console s = Ret s' \<and> ser_inv s'"
    using update_irq_inv by (auto simp: serial8250__update_consoles_def)
  moreover from inject_loop_ok [OF core, of str] have "\<exists>s'. serial8250__inject_string str s = Ret s' \<and> ser_inv s'"
    using update_irq_inv by (auto simp: serial8250__inject_string_def)
  ultimately show ?thesis
    using serial_out.io_loop_ok [OF assms(1), of 0 count sz buf port False]
      serial_in.io_loop_ok [OF assms(1), of 0 count sz buf port False] assms(2) by auto
qed

definition idle_term :: term_state where
  "idle_term = \<lparr>tm_input = [], tm_writes = [], tm_output = [], term_got_escape = False, tm_reboots = 0\<rparr>"

theorem serial8250_safe_witness:
  "\<exists>s' b r. io_loop serial8250_out 0x3f8 1 3 0 [0x61, 0x62, 0x63, 0] False (serial_devices idle_term) = Ret (s', b, r) \<and> ser_inv s'"
  using serial8250_safe [OF ser_inv_init [of idle_term], of 3 1 "[0x61, 0x62, 0x63, 0]" "0x3f8"] by auto

lemma pending_iir_eq_0: "pending_iir s = 0 \<longleftrightarrow> \<not> (bit (ier s) 0 \<and> bit (lsr s) 0 \<or> bit (ier s) 1 \<and> bit (lsr s) 6)"
  unfolding pending_iir_def and_bits_eq_0 by (simp add: UART_IIR_RDI_def UART_IIR_THRI_def)

lemma rx_queue_empty: "ser_core s \<Longrightarrow> rx_queue s = [] \<longleftrightarrow> rxcnt s = 0"
  by (auto simp: rx_queue_def ser_core_def)

lemma ser_inv_line:
  assumes "ser_inv s"
  shows "line_level s \<longleftrightarrow> bit (ier s) 0 \<and> rx_queue s \<noteq> [] \<or> bit (ier s) 1"
    "iir s = (if line_level s then pending_iir s else UART_IIR_NO_INT)"
  using assms rx_queue_empty [of s] by (auto simp: ser_inv_def ser_core_def pending_iir_eq_0)

text \<open>
  C38: after every access, in either direction, the interrupt line is high exactly when an enabled
  cause is there: received data with the receive interrupt enabled, or the transmit interrupt
  enabled (the transmitter is always empty); and the identification register the guest reads
  says which.
\<close>

theorem serial8250_irq_line:
  assumes "ser_inv s" "1 \<le> length data" "h = serial8250_out \<or> h = serial8250_in"
  shows "\<exists>s' d r. h port data s = Ret (s', d, r) \<and>
    (line_level s' \<longleftrightarrow> bit (ier s') 0 \<and> rx_queue s' \<noteq> [] \<or> bit (ier s') 1) \<and>
    iir s' = (if line_level s' then pending_iir s' else UART_IIR_NO_INT)"
  using assms serial8250_out_ok [OF assms(1,2), of port] serial8250_in_ok [OF assms(1,2), of port] ser_inv_line
  by blast

theorem serial8250_irq_line_witness:
  "\<exists>s' d r. serial8250_out 0x3f9 [2] (serial_devices idle_term) = Ret (s', d, r) \<and>
     (line_level s' \<longleftrightarrow> bit (ier s') 0 \<and> rx_queue s' \<noteq> [] \<or> bit (ier s') 1)"
  using serial8250_irq_line [OF ser_inv_init, of "[2]" serial8250_out "0x3f9" idle_term] by auto

lemma out_tx_step:
  assumes "ser_inv s" "\<not> bit (lcr s) 7" "\<not> bit (mcr s) 4" "tm_writes (ser_term s) = []"
  shows "\<exists>s'. serial8250_out (iobase s) (b # bs) s = Ret (s', b # bs, True) \<and> ser_inv s' \<and>
     lcr s' = lcr s \<and> mcr s' = mcr s \<and> iobase s' = iobase s \<and>
     ser_term s' = (ser_term s)\<lparr>tm_output := tm_output (ser_term s) @ [b]\<rparr>"
proof -
  let ?s = "s\<lparr>ser_mutex := True\<rparr>"
  have core: "ser_core ?s" and tx: "txcnt s = 0" "length (txbuf s) = FIFO_LEN" "0 < FIFO_LEN"
    using assms(1) by (auto simp: ser_inv_def ser_core_def FIFO_LEN_def)
  obtain s1 where s1: "serial_out_tx (b # bs) ?s = Ret s1" "ser_core s1" using out_tx_core [OF core] by blast
  have "lcr s1 = lcr s \<and> mcr s1 = mcr s \<and> iobase s1 = iobase s \<and>
     ser_term s1 = (ser_term s)\<lparr>tm_output := tm_output (ser_term s) @ [b]\<rparr>"
    using s1(1) assms tx
    by (auto simp: serial_out_tx_def ioport__read8_def and_bits_eq_0 push_tx_def FIFO_LEN_def Let_def
        serial8250_flush_tx_def term_putc_complete take_Suc_conv_app_nth split: if_splits)
  moreover have "\<not> bit (lcr s) 1" "\<not> bit (lcr s) 2" using assms(1) by (auto simp: ser_inv_def)
  ultimately show ?thesis using s1 update_irq_frame [OF s1(2)] update_irq_inv [OF s1(2)]
    by (auto simp: serial8250_out_def serial_out_reg_def UART_TX_def)
qed

text \<open>
  With the divisor latch and loopback off and a host that takes every byte, a string of bytes
  the guest writes to the transmit register reaches the terminal complete and in order.
\<close>

theorem serial8250_transmits:
  assumes "ser_inv s" "\<not> bit (lcr s) 7" "\<not> bit (mcr s) 4" "tm_writes (ser_term s) = []" "off + n \<le> length buf"
  shows "\<exists>s' r. io_loop serial8250_out (iobase s) 1 n off buf ret s = Ret (s', buf, r) \<and> ser_inv s' \<and>
    ser_term s' = (ser_term s)\<lparr>tm_output := tm_output (ser_term s) @ take n (drop off buf)\<rparr>"
  using assms
proof (induction n arbitrary: off s ret)
  case (Suc n)
  then obtain b bs where d: "drop off buf = b # bs" by (cases "drop off buf") auto
  from out_tx_step [OF Suc.prems(1-4), of b bs] obtain s1 where s1:
    "serial8250_out (iobase s) (b # bs) s = Ret (s1, b # bs, True)" "ser_inv s1"
    "lcr s1 = lcr s" "mcr s1 = mcr s" "iobase s1 = iobase s"
    "ser_term s1 = (ser_term s)\<lparr>tm_output := tm_output (ser_term s) @ [b]\<rparr>" by blast
  have "drop (Suc off) buf = bs" using d by (metis drop_Suc list.sel(3) tl_drop)
  moreover have "take off buf @ b # bs = buf" using d by (metis append_take_drop_id)
  ultimately show ?case using Suc.IH [of s1 "Suc off" True] Suc.prems s1 d by auto
qed auto

theorem serial8250_transmits_witness:
  "\<exists>s' r. io_loop serial8250_out 0x3f8 1 2 0 [0x68, 0x69, 0] False (serial_devices idle_term) = Ret (s', [0x68, 0x69, 0], r) \<and>
     tm_output (ser_term s') = [0x68, 0x69]"
  using serial8250_transmits [OF ser_inv_init, of idle_term 0 2 "[0x68, 0x69, 0]" False]
  by (auto simp: serial_devices_def idle_term_def uart_bits)



text \<open>
  The FIFO-clear bits are looked for in the line control register, not in the FIFO control
  register. Writing the line format \<open>b\<close> with bit 1 set (eight data bits, for one) throws away every
  received byte and reads back without bits 1 and 2, while writing the clear-receiver command to the
  FIFO control register leaves the received bytes in place.
\<close>

theorem serial8250_fifo_clear_misplaced:
  assumes "ser_inv s" "bit b 1"
  shows "(\<exists>s'. serial8250_out (iobase s + UART_LCR) [b] s = Ret (s', [b], True) \<and> rx_queue s' = [] \<and>
      lcr s' = b AND NOT (UART_FCR_CLEAR_RCVR OR UART_FCR_CLEAR_XMIT)) \<and>
    (\<exists>s'. serial8250_out (iobase s + UART_FCR) [b] s = Ret (s', [b], True) \<and> rx_queue s' = rx_queue s)"
proof
  let ?s = "s\<lparr>ser_mutex := True\<rparr>"
  have core: "ser_core (?s\<lparr>lcr := b\<rparr>)" "ser_core (?s\<lparr>fcr := b\<rparr>)" and l: "\<not> bit (lcr s) 1" "\<not> bit (lcr s) 2"
    using assms by (auto simp: ser_inv_def)
  let ?c = "clear_tx (clear_rx (?s\<lparr>lcr := b\<rparr>))"
  have c: "rxcnt ?c = 0" "rxdone ?c = 0" using assms(2) by (auto simp: clear_tx_def clear_rx_def ser_bits)
  have lc: "lcr ?c = b AND NOT (UART_FCR_CLEAR_RCVR OR UART_FCR_CLEAR_XMIT)"
    by (rule bit_eqI) (use assms(2) in \<open>auto simp: clear_tx_def clear_rx_def ser_bits\<close>)
  obtain i l q where "serial8250_update_irq (?s\<lparr>lcr := b\<rparr>) = ?c\<lparr>iir := i, ser_line := l, ser_irq_state := q\<rparr>"
    using update_irq_eq [OF core(1)] by metis
  then show "\<exists>s'. serial8250_out (iobase s + UART_LCR) [b] s = Ret (s', [b], True) \<and> rx_queue s' = [] \<and>
      lcr s' = b AND NOT (UART_FCR_CLEAR_RCVR OR UART_FCR_CLEAR_XMIT)"
    using c lc by (simp add: serial8250_out_def serial_out_reg_def uart_regs ioport__read8_def rx_queue_def)
  show "\<exists>s'. serial8250_out (iobase s + UART_FCR) [b] s = Ret (s', [b], True) \<and> rx_queue s' = rx_queue s"
    using update_irq_frame [OF core(2)] l
    by (simp add: serial8250_out_def serial_out_reg_def uart_regs ioport__read8_def rx_queue_def)
qed

theorem serial8250_fifo_clear_misplaced_witness:
  "\<exists>s'. serial8250_out 0x3fb [3] (serial_devices idle_term) = Ret (s', [3], True) \<and> lcr s' = 1"
  using serial8250_fifo_clear_misplaced [OF ser_inv_init, of 3 idle_term]
  by (simp add: serial_devices_def uart_bits uart_regs) blast

end
