(* ===== verification/Rtc.thy ===== *)
theory Rtc
  imports Ioport
begin

text \<open>
  \<^verbatim>\<open>hw/rtc.c\<close>: the MC146818 clock and its CMOS memory behind ports 0x70 (index) and 0x71 (data).
  The broken-down time that \<^verbatim>\<open>gmtime\<close> returns is an argument of the read handler.
\<close>

section \<open>Model\<close>

record tm =
  tm_sec :: int
  tm_min :: int
  tm_hour :: int
  tm_mday :: int
  tm_mon :: int
  tm_year :: int
  tm_wday :: int

record rtc_device =
  cmos_idx :: u8
  cmos_data :: "u8 list"
  nmi_disabled :: bool

definition rtc_zero :: rtc_device where
  "rtc_zero = \<lparr>cmos_idx = 0, cmos_data = replicate 128 0, nmi_disabled = False\<rparr>"

definition RTC_SECONDS :: u8 where "RTC_SECONDS = 0x00"
definition RTC_MINUTES :: u8 where "RTC_MINUTES = 0x02"
definition RTC_HOURS :: u8 where "RTC_HOURS = 0x04"
definition RTC_DAY_OF_WEEK :: u8 where "RTC_DAY_OF_WEEK = 0x06"
definition RTC_DAY_OF_MONTH :: u8 where "RTC_DAY_OF_MONTH = 0x07"
definition RTC_MONTH :: u8 where "RTC_MONTH = 0x08"
definition RTC_YEAR :: u8 where "RTC_YEAR = 0x09"
definition RTC_CENTURY :: u8 where "RTC_CENTURY = 0x32"
definition RTC_REG_C :: u8 where "RTC_REG_C = 0x0C"
definition RTC_REG_D :: u8 where "RTC_REG_D = 0x0D"
definition RTC_REG_D_VRT :: u8 where "RTC_REG_D_VRT = 0x80"

lemmas rtc_regs = RTC_SECONDS_def RTC_MINUTES_def RTC_HOURS_def RTC_DAY_OF_WEEK_def RTC_DAY_OF_MONTH_def
  RTC_MONTH_def RTC_YEAR_def RTC_CENTURY_def RTC_REG_C_def RTC_REG_D_def RTC_REG_D_VRT_def

definition bin2bcd :: "u32 \<Rightarrow> u8" where
  "bin2bcd val = ucast (push_bit 4 (val div 10) + val mod 10)"

text \<open>The division of C truncates towards zero, as the years of \<^verbatim>\<open>tm\<close> may in principle be negative.\<close>

definition c_div :: "int \<Rightarrow> int \<Rightarrow> int" where "c_div a b = sgn a * sgn b * (\<bar>a\<bar> div \<bar>b\<bar>)"
definition c_mod :: "int \<Rightarrow> int \<Rightarrow> int" where "c_mod a b = a - c_div a b * b"

definition cmos_value :: "tm \<Rightarrow> rtc_device \<Rightarrow> u8 outcome" where
  "cmos_value t rtc =
     (let i = cmos_idx rtc; bcd = (\<lambda>v. Ret (bin2bcd (word_of_int v)))
      in if i = RTC_SECONDS then bcd (tm_sec t)
         else if i = RTC_MINUTES then bcd (tm_min t)
         else if i = RTC_HOURS then bcd (tm_hour t)
         else if i = RTC_DAY_OF_WEEK then bcd (tm_wday t + 1)
         else if i = RTC_DAY_OF_MONTH then bcd (tm_mday t)
         else if i = RTC_MONTH then bcd (tm_mon t + 1)
         else if i = RTC_YEAR then bcd (c_mod (tm_year t + 1900) 100)
         else if i = RTC_CENTURY then bcd (c_div (tm_year t + 1900) 100)
         else if unat i < length (cmos_data rtc) then Ret (cmos_data rtc ! unat i)
         else Undefined)"

definition cmos_ram_data_in :: "tm \<Rightarrow> rtc_device io_handler" where
  "cmos_ram_data_in t port data rtc =
     bind_outcome (cmos_value t rtc) (\<lambda>v. bind_outcome (ioport__write8 data v) (\<lambda>d. Ret (rtc, d, True)))"

definition cmos_ram_data_out :: "rtc_device io_handler" where
  "cmos_ram_data_out port data rtc =
     (if cmos_idx rtc = RTC_REG_C \<or> cmos_idx rtc = RTC_REG_D then Ret (rtc, data, True)
      else bind_outcome (ioport__read8 data) (\<lambda>v.
        if unat (cmos_idx rtc) < length (cmos_data rtc)
        then Ret (rtc\<lparr>cmos_data := (cmos_data rtc)[unat (cmos_idx rtc) := v]\<rparr>, data, True)
        else Undefined))"

definition cmos_ram_index_out :: "rtc_device io_handler" where
  "cmos_ram_index_out port data rtc =
     bind_outcome (ioport__read8 data) (\<lambda>value.
       Ret (rtc\<lparr>nmi_disabled := value AND 0x80 \<noteq> 0, cmos_idx := value AND NOT 0x80\<rparr>, data, True))"

definition cmos_ram_index_ioport_ops :: nat where "cmos_ram_index_ioport_ops = 2"
definition cmos_ram_data_ioport_ops :: nat where "cmos_ram_data_ioport_ops = 3"

text \<open>\<open>oom1\<close> and \<open>oom2\<close> say whether the allocation of each registration fails.\<close>

definition rtc__init :: "bool \<Rightarrow> bool \<Rightarrow> rtc_device \<Rightarrow> ioport_state \<Rightarrow> (rtc_device \<times> ioport_state \<times> int) outcome" where
  "rtc__init oom1 oom2 rtc io =
     bind_outcome (ioport__register oom1 0x70 cmos_ram_index_ioport_ops 1 0 io) (\<lambda>(io, r).
       if r < 0 then Ret (rtc, io, r)
       else bind_outcome (ioport__register oom2 0x71 cmos_ram_data_ioport_ops 1 0 io) (\<lambda>(io, r).
         if r < 0 then bind_outcome (ioport__unregister 0x71 io) (\<lambda>(io, _). Ret (rtc, io, r))
         else Ret (rtc\<lparr>cmos_data := (cmos_data rtc)[unat RTC_REG_D := RTC_REG_D_VRT]\<rparr>, io, r)))"

definition rtc__exit :: "ioport_state \<Rightarrow> (ioport_state \<times> int) outcome" where
  "rtc__exit io =
     bind_outcome (ioport__unregister 0x70 io) (\<lambda>(io, _).
       bind_outcome (ioport__unregister 0x71 io) (\<lambda>(io, _). Ret (io, 0)))"

section \<open>Invariant and contract\<close>

definition rtc_inv :: "rtc_device \<Rightarrow> bool" where
  "rtc_inv rtc \<longleftrightarrow> length (cmos_data rtc) = 128 \<and> unat (cmos_idx rtc) < 128"

lemma rtc_inv_zero: "rtc_inv rtc_zero"
  by (simp add: rtc_inv_def rtc_zero_def)

lemma and_not_0x80_less: "unat ((v :: u8) AND NOT 0x80) < 128"
proof -
  have "v AND NOT 0x80 = take_bit 7 v"
    by (rule bit_eqI) (auto simp: bit_simps numeral_eq_Suc less_Suc_eq)
  then have "unat (v AND NOT 0x80) = take_bit 7 (unat v)" by (metis unsigned_take_bit_eq)
  then show ?thesis using take_bit_nat_less_exp [of 7 "unat v"] by simp
qed

lemma index_out_ok:
  assumes "rtc_inv s" "1 \<le> length data"
  shows "\<exists>s' d r. cmos_ram_index_out port data s = Ret (s', d, r) \<and> rtc_inv s' \<and> length d = length data"
  using assms and_not_0x80_less
  by (cases data) (auto simp: cmos_ram_index_out_def ioport__read8_def rtc_inv_def)

lemma data_out_ok:
  assumes "rtc_inv s" "1 \<le> length data"
  shows "\<exists>s' d r. cmos_ram_data_out port data s = Ret (s', d, r) \<and> rtc_inv s' \<and> length d = length data"
  using assms by (cases data) (auto simp: cmos_ram_data_out_def ioport__read8_def rtc_inv_def)

lemma data_in_ok:
  assumes "rtc_inv s" "1 \<le> length data"
  shows "\<exists>s' d r. cmos_ram_data_in t port data s = Ret (s', d, r) \<and> rtc_inv s' \<and> length d = length data"
proof -
  have "\<exists>v. cmos_value t s = Ret v" using assms by (auto simp: cmos_value_def rtc_inv_def Let_def)
  then obtain v where "cmos_value t s = Ret v" by blast
  then show ?thesis using assms by (cases data) (auto simp: cmos_ram_data_in_def ioport__write8_def)
qed

interpretation rtc_index: io_device rtc_inv 1 cmos_ram_index_out
  by unfold_locales (rule index_out_ok)

interpretation rtc_write: io_device rtc_inv 1 cmos_ram_data_out
  by unfold_locales (rule data_out_ok)

interpretation rtc_read: io_device rtc_inv 1 "cmos_ram_data_in t" for t
  by unfold_locales (rule data_in_ok)

section \<open>Properties\<close>

definition bcd2bin :: "u8 \<Rightarrow> nat" where
  "bcd2bin b = unat (drop_bit 4 b) * 10 + unat (b AND 0x0f)"

definition rtc_clock_regs :: "u8 set" where
  "rtc_clock_regs = {RTC_SECONDS, RTC_MINUTES, RTC_HOURS, RTC_DAY_OF_WEEK, RTC_DAY_OF_MONTH, RTC_MONTH, RTC_YEAR, RTC_CENTURY}"

text \<open>
  Selecting a CMOS cell, writing it, selecting it again (from whatever index) and reading it
  returns the byte written, for every cell but the clock and the read-only registers C and D; the
  top bit of the index only sets the NMI mask.
\<close>

theorem cmos_write_read:
  assumes "rtc_inv s" "v AND NOT 0x80 \<notin> rtc_clock_regs" "v AND NOT 0x80 \<noteq> RTC_REG_C" "v AND NOT 0x80 \<noteq> RTC_REG_D"
  shows "\<exists>s1 s2 s3. cmos_ram_index_out 0x70 [v] s = Ret (s1, [v], True) \<and> nmi_disabled s1 = bit v 7 \<and>
    cmos_ram_data_out 0x71 [b] s1 = Ret (s2, [b], True) \<and> rtc_inv s2 \<and>
    cmos_ram_index_out 0x70 [v] (s2\<lparr>cmos_idx := j\<rparr>) = Ret (s3, [v], True) \<and>
    cmos_ram_data_in t 0x71 [c] s3 = Ret (s3, [b], True)"
proof -
  have n: "unat (v AND NOT 0x80) < length (cmos_data s)" "rtc_inv s"
    using and_not_0x80_less [of v] assms(1) by (simp_all add: rtc_inv_def)
  have bit7: "(v AND 0x80 \<noteq> 0) = bit v 7" using and_exp_eq_0_iff_not_bit [of v 7] by simp
  show ?thesis using n assms(2-4) bit7
    by (auto simp: cmos_ram_index_out_def cmos_ram_data_out_def cmos_ram_data_in_def cmos_value_def ioport__read8_def
        ioport__write8_def rtc_inv_def rtc_clock_regs_def Let_def)
qed

theorem cmos_write_read_witness:
  "\<exists>s1 s2 s3. cmos_ram_index_out 0x70 [0xbf] rtc_zero = Ret (s1, [0xbf], True) \<and>
    cmos_ram_data_out 0x71 [0x5a] s1 = Ret (s2, [0x5a], True) \<and>
    cmos_ram_index_out 0x70 [0xbf] (s2\<lparr>cmos_idx := 0\<rparr>) = Ret (s3, [0xbf], True) \<and>
    cmos_ram_data_in \<lparr>tm_sec = 0, tm_min = 0, tm_hour = 0, tm_mday = 1, tm_mon = 0, tm_year = 70, tm_wday = 4\<rparr> 0x71 [0] s3
      = Ret (s3, [0x5a], True)"
  using cmos_write_read [OF rtc_inv_zero, of "0xbf" "0x5a" 0] by (simp add: rtc_clock_regs_def rtc_regs) blast

definition tm_ok :: "tm \<Rightarrow> bool" where
  "tm_ok t \<longleftrightarrow> 0 \<le> tm_sec t \<and> tm_sec t \<le> 60 \<and> 0 \<le> tm_min t \<and> tm_min t < 60 \<and> 0 \<le> tm_hour t \<and> tm_hour t < 24 \<and>
     1 \<le> tm_mday t \<and> tm_mday t \<le> 31 \<and> 0 \<le> tm_mon t \<and> tm_mon t < 12 \<and> 0 \<le> tm_wday t \<and> tm_wday t < 7 \<and>
     -1900 \<le> tm_year t \<and> tm_year t < 8100"

lemma bcd_roundtrip: "0 \<le> v \<Longrightarrow> v < 100 \<Longrightarrow> bcd2bin (bin2bcd (word_of_int v)) = nat v"
proof -
  assume v: "0 \<le> v" "v < 100"
  have "\<forall>n \<in> set [0..<100]. bcd2bin (bin2bcd (word_of_int (int n))) = n"
    by code_simp
  then have "bcd2bin (bin2bcd (word_of_int (int (nat v)))) = nat v" using v by fastforce
  then show ?thesis using v by simp
qed

text \<open>
  The clock registers hold the time in binary-coded decimal: for a valid broken-down
  time, decoding what the guest reads gives back each field.
\<close>

theorem cmos_clock_bcd:
  assumes "tm_ok t"
    and "(i, v) \<in> {(RTC_SECONDS, tm_sec t), (RTC_MINUTES, tm_min t), (RTC_HOURS, tm_hour t), (RTC_DAY_OF_WEEK, tm_wday t + 1),
      (RTC_DAY_OF_MONTH, tm_mday t), (RTC_MONTH, tm_mon t + 1), (RTC_YEAR, (tm_year t + 1900) mod 100),
      (RTC_CENTURY, (tm_year t + 1900) div 100)}"
  shows "\<exists>b. cmos_ram_data_in t 0x71 (c # cs) (s\<lparr>cmos_idx := i\<rparr>) = Ret (s\<lparr>cmos_idx := i\<rparr>, b # cs, True) \<and> bcd2bin b = nat v"
proof -
  let ?y = "tm_year t + 1900"
  have y: "0 \<le> ?y" "?y < 10000" using assms(1) by (auto simp: tm_ok_def)
  then have div: "c_div ?y 100 = ?y div 100" by (cases "?y = 0") (auto simp: c_div_def sgn_if)
  have mod: "c_mod ?y 100 = ?y mod 100" by (simp add: c_mod_def div minus_div_mult_eq_mod)
  have v: "0 \<le> v" "v < 100" using assms y by (auto simp: tm_ok_def)
  have "cmos_value t (s\<lparr>cmos_idx := i\<rparr>) = Ret (bin2bcd (word_of_int v))"
    using assms(2) by (auto simp: cmos_value_def rtc_regs Let_def div mod)
  then show ?thesis using bcd_roundtrip [OF v] by (simp add: cmos_ram_data_in_def ioport__write8_def)
qed

theorem cmos_clock_bcd_witness:
  "\<exists>b. cmos_ram_data_in \<lparr>tm_sec = 0, tm_min = 59, tm_hour = 0, tm_mday = 1, tm_mon = 0, tm_year = 124, tm_wday = 4\<rparr> 0x71 [0]
      (rtc_zero\<lparr>cmos_idx := RTC_CENTURY\<rparr>) = Ret (rtc_zero\<lparr>cmos_idx := RTC_CENTURY\<rparr>, [b], True) \<and> bcd2bin b = 20"
  using cmos_clock_bcd [of "\<lparr>tm_sec = 0, tm_min = 59, tm_hour = 0, tm_mday = 1, tm_mon = 0, tm_year = 124, tm_wday = 4\<rparr>"
      RTC_CENTURY 20 0 "[]" rtc_zero]
  by (simp add: tm_ok_def)

text \<open>
  When the registration of the data port fails, \<^verbatim>\<open>rtc__init\<close> unregisters the port that was not
  registered and leaves the index port behind.
\<close>

lemma rtc__init_leaves_index_port:
  assumes "io_inv io" "ioport_search (ioport_tree io) 0x70 = None" "ioport_search (ioport_tree io) 0x71 = None"
  shows "\<exists>io'. rtc__init False True rtc io = Ret (rtc, io', - ENOMEM) \<and> ioport_search (ioport_tree io') 0x70 \<noteq> None"
proof -
  have p: "(0x70 :: u16) \<noteq> IOPORT_EMPTY" "(0x71 :: u16) \<noteq> IOPORT_EMPTY" by (simp_all add: IOPORT_EMPTY_def)
  have free: "ioport_search (ioport_tree io) (ucast (0x70 :: u16)) = None" using assms(2) by simp
  obtain s1 where s1: "ioport__register False 0x70 cmos_ram_index_ioport_ops 1 0 io = Ret (s1, uint (0x70 :: u16))"
    "io_inv s1" and look: "\<And>p. ioport_search (ioport_tree s1) (ucast (p :: u16)) =
       (if p = 0x70 then Some (ioport_node (io_next io) 0x70 1) else ioport_search (ioport_tree io) (ucast p))"
    by (rule register_free_one [OF assms(1) p(1) free, of cmos_ram_index_ioport_ops 0]) blast
  have "ioport_search (ioport_tree s1) 0x70 \<noteq> None" "ioport_search (ioport_tree s1) 0x71 = None"
    using look [of "0x70"] look [of "0x71"] assms(3) by simp_all
  then show ?thesis
    using s1 p(2) by (auto simp: rtc__init_def ioport__register_def [of True] ioport__unregister_def Let_def)
qed

end
