(* ===== verification/I8042.thy ===== *)
theory I8042
  imports Ioport
begin

text \<open>
  \<^verbatim>\<open>hw/i8042.c\<close>: the PS/2 controller with its keyboard and mouse queues, behind ports 0x60, 0x61
  and 0x64.

  The four fields of a queue (\<^verbatim>\<open>kq\<close>, \<^verbatim>\<open>kread\<close>, \<^verbatim>\<open>kwrite\<close>, \<^verbatim>\<open>kcount\<close> and their mouse
  counterparts) are one record \<open>ps2_queue\<close>. The read and write positions only grow and are reduced
  modulo the queue size at each use; they are natural numbers, which agrees with the code's \<^verbatim>\<open>int\<close>
  below \<open>2 ^ 31\<close> operations. An access outside a queue's array is \<open>Undefined\<close>.
\<close>

section \<open>State\<close>

definition QUEUE_SIZE :: nat where "QUEUE_SIZE = 128"
definition KBD_IRQ :: u8 where "KBD_IRQ = 1"
definition AUX_IRQ :: u8 where "AUX_IRQ = 12"

definition I8042_DATA_REG :: u16 where "I8042_DATA_REG = 0x60"
definition I8042_PORT_B_REG :: u16 where "I8042_PORT_B_REG = 0x61"
definition I8042_COMMAND_REG :: u16 where "I8042_COMMAND_REG = 0x64"

lemmas i8042_ports = I8042_DATA_REG_def I8042_PORT_B_REG_def I8042_COMMAND_REG_def

definition I8042_CMD_CTL_RCTR :: u8 where "I8042_CMD_CTL_RCTR = 0x20"
definition I8042_CMD_CTL_WCTR :: u8 where "I8042_CMD_CTL_WCTR = 0x60"
definition I8042_CMD_AUX_LOOP :: u8 where "I8042_CMD_AUX_LOOP = 0xD3"
definition I8042_CMD_AUX_SEND :: u8 where "I8042_CMD_AUX_SEND = 0xD4"
definition I8042_CMD_AUX_TEST :: u8 where "I8042_CMD_AUX_TEST = 0xA9"
definition I8042_CMD_AUX_DISABLE :: u8 where "I8042_CMD_AUX_DISABLE = 0xA7"
definition I8042_CMD_AUX_ENABLE :: u8 where "I8042_CMD_AUX_ENABLE = 0xA8"
definition I8042_CMD_SYSTEM_RESET :: u8 where "I8042_CMD_SYSTEM_RESET = 0xFE"

lemmas i8042_cmds = I8042_CMD_CTL_RCTR_def I8042_CMD_CTL_WCTR_def I8042_CMD_AUX_LOOP_def I8042_CMD_AUX_SEND_def
  I8042_CMD_AUX_TEST_def I8042_CMD_AUX_DISABLE_def I8042_CMD_AUX_ENABLE_def I8042_CMD_SYSTEM_RESET_def

definition RESPONSE_ACK :: u8 where "RESPONSE_ACK = 0xFA"
definition MODE_DISABLE_AUX :: u8 where "MODE_DISABLE_AUX = 0x20"
definition AUX_ENABLE_REPORTING :: u8 where "AUX_ENABLE_REPORTING = 0x20"
definition AUX_SCALING_FLAG :: u8 where "AUX_SCALING_FLAG = 0x10"
definition AUX_DEFAULT_RESOLUTION :: u8 where "AUX_DEFAULT_RESOLUTION = 0x2"
definition AUX_DEFAULT_SAMPLE :: u8 where "AUX_DEFAULT_SAMPLE = 100"
definition I8042_STR_AUXDATA :: u8 where "I8042_STR_AUXDATA = 0x20"
definition I8042_STR_KEYLOCK :: u8 where "I8042_STR_KEYLOCK = 0x10"
definition I8042_STR_CMDDAT :: u8 where "I8042_STR_CMDDAT = 0x08"
definition I8042_STR_MUXERR :: u8 where "I8042_STR_MUXERR = 0x04"
definition I8042_STR_OBF :: u8 where "I8042_STR_OBF = 0x01"
definition KBD_MODE_KBD_INT :: u8 where "KBD_MODE_KBD_INT = 0x01"
definition KBD_MODE_SYS :: u8 where "KBD_MODE_SYS = 0x02"

record ps2_queue =
  q_buf :: "u8 list"
  q_read :: nat
  q_write :: nat
  q_count :: nat

record kbd_state =
  kbdq :: ps2_queue
  mouseq :: ps2_queue
  mstatus :: u8
  mres :: u8
  msample :: u8
  mode :: u8
  status :: u8
  write_cmd :: u32
  kbd_lines :: irq_events
  kbd_reboots :: nat

definition empty_queue :: ps2_queue where
  "empty_queue = \<lparr>q_buf = replicate QUEUE_SIZE 0, q_read = 0, q_write = 0, q_count = 0\<rparr>"

section \<open>Queues and interrupts\<close>

definition kbd_update_irq :: "kbd_state \<Rightarrow> kbd_state" where
  "kbd_update_irq s =
     (let s = s\<lparr>status := status s AND NOT (I8042_STR_OBF OR I8042_STR_AUXDATA)\<rparr>;
          klevel = 0 < q_count (kbdq s);
          s = (if klevel then s\<lparr>status := status s OR I8042_STR_OBF\<rparr> else s);
          mlevel = (\<not> klevel \<and> q_count (mouseq s) \<noteq> 0);
          s = (if mlevel then s\<lparr>status := status s OR (I8042_STR_OBF OR I8042_STR_AUXDATA)\<rparr> else s)
      in s\<lparr>kbd_lines := kvm__irq_line AUX_IRQ mlevel (kvm__irq_line KBD_IRQ klevel (kbd_lines s))\<rparr>)"

text \<open>\<^verbatim>\<open>q[q_write++ % QUEUE_SIZE] = c; q_count++\<close>\<close>

definition queue_put :: "u8 \<Rightarrow> ps2_queue \<Rightarrow> ps2_queue outcome" where
  "queue_put c q =
     (if q_write q mod QUEUE_SIZE < length (q_buf q)
      then Ret (q\<lparr>q_buf := (q_buf q)[q_write q mod QUEUE_SIZE := c], q_write := q_write q + 1, q_count := q_count q + 1\<rparr>)
      else Undefined)"

definition queue_get :: "ps2_queue \<Rightarrow> (ps2_queue \<times> u8) outcome" where
  "queue_get q =
     (if q_read q mod QUEUE_SIZE < length (q_buf q)
      then Ret (q\<lparr>q_read := q_read q + 1, q_count := q_count q - 1\<rparr>, q_buf q ! (q_read q mod QUEUE_SIZE))
      else Undefined)"

definition mouse_queue :: "u8 \<Rightarrow> kbd_state \<Rightarrow> kbd_state outcome" where
  "mouse_queue c s =
     (if QUEUE_SIZE \<le> q_count (mouseq s) then Ret s
      else bind_outcome (queue_put c (mouseq s)) (\<lambda>q. Ret (kbd_update_irq (s\<lparr>mouseq := q\<rparr>))))"

definition kbd_queue :: "u8 \<Rightarrow> kbd_state \<Rightarrow> kbd_state outcome" where
  "kbd_queue c s =
     (if QUEUE_SIZE \<le> q_count (kbdq s) then Ret s
      else bind_outcome (queue_put c (kbdq s)) (\<lambda>q. Ret (kbd_update_irq (s\<lparr>kbdq := q\<rparr>))))"

section \<open>Commands\<close>

definition kbd_write_command :: "u8 \<Rightarrow> kbd_state \<Rightarrow> kbd_state outcome" where
  "kbd_write_command val s =
     (if val = I8042_CMD_CTL_RCTR then kbd_queue (mode s) s
      else if val = I8042_CMD_CTL_WCTR \<or> val = I8042_CMD_AUX_SEND \<or> val = I8042_CMD_AUX_LOOP
      then Ret (s\<lparr>write_cmd := ucast val\<rparr>)
      else if val = I8042_CMD_AUX_TEST then mouse_queue 0 s
      else if val = I8042_CMD_AUX_DISABLE then Ret (s\<lparr>mode := mode s OR MODE_DISABLE_AUX\<rparr>)
      else if val = I8042_CMD_AUX_ENABLE then Ret (s\<lparr>mode := mode s AND NOT MODE_DISABLE_AUX\<rparr>)
      else if val = I8042_CMD_SYSTEM_RESET then Ret (s\<lparr>kbd_reboots := kbd_reboots s + 1\<rparr>)
      else Ret s)"

text \<open>The elements are of the signed type \<^verbatim>\<open>char\<close>: a byte above 0x7f is sign-extended to the \<^verbatim>\<open>u32\<close> result.\<close>

definition kbd_read_data :: "kbd_state \<Rightarrow> (kbd_state \<times> u32) outcome" where
  "kbd_read_data s =
     (if q_count (kbdq s) \<noteq> 0 then
        bind_outcome (queue_get (kbdq s)) (\<lambda>(q, c).
          let s = s\<lparr>kbdq := q, kbd_lines := kvm__irq_line KBD_IRQ False (kbd_lines s)\<rparr>
          in Ret (kbd_update_irq s, scast c))
      else if 0 < q_count (mouseq s) then
        bind_outcome (queue_get (mouseq s)) (\<lambda>(q, c).
          let s = s\<lparr>mouseq := q, kbd_lines := kvm__irq_line AUX_IRQ False (kbd_lines s)\<rparr>
          in Ret (kbd_update_irq s, scast c))
      else
        let i = (if q_read (kbdq s) = 0 then QUEUE_SIZE else q_read (kbdq s) - 1)
        in if i < length (q_buf (kbdq s)) then Ret (s, scast (q_buf (kbdq s) ! i)) else Undefined)"

definition kbd_read_status :: "kbd_state \<Rightarrow> u32" where
  "kbd_read_status s = ucast (status s)"

definition aux_send :: "u32 \<Rightarrow> kbd_state \<Rightarrow> kbd_state outcome" where
  "aux_send val s =
     (if val = 0xe6 then Ret (s\<lparr>mstatus := mstatus s AND NOT AUX_SCALING_FLAG\<rparr>)
      else if val = 0xe8 then Ret (s\<lparr>mres := ucast val\<rparr>)
      else if val = 0xe9 then
        bind_outcome (mouse_queue (mstatus s) s) (\<lambda>s.
          bind_outcome (mouse_queue (mres s) s) (\<lambda>s. mouse_queue (msample s) s))
      else if val = 0xf2 then mouse_queue 0 s
      else if val = 0xf3 then Ret (s\<lparr>msample := ucast val\<rparr>)
      else if val = 0xf4 then Ret (s\<lparr>mstatus := mstatus s OR AUX_ENABLE_REPORTING\<rparr>)
      else if val = 0xf5 then Ret (s\<lparr>mstatus := mstatus s AND NOT AUX_ENABLE_REPORTING\<rparr>)
      else if val = 0xf6 \<or> val = 0xff then
        Ret (s\<lparr>mstatus := 0, mres := AUX_DEFAULT_RESOLUTION, msample := AUX_DEFAULT_SAMPLE\<rparr>)
      else Ret s)"

definition kbd_write_data :: "u32 \<Rightarrow> kbd_state \<Rightarrow> kbd_state outcome" where
  "kbd_write_data val s =
     bind_outcome
       (if write_cmd s = ucast I8042_CMD_CTL_WCTR then Ret (kbd_update_irq (s\<lparr>mode := ucast val\<rparr>))
        else if write_cmd s = ucast I8042_CMD_AUX_LOOP then
          bind_outcome (mouse_queue (ucast val) s) (mouse_queue RESPONSE_ACK)
        else if write_cmd s = ucast I8042_CMD_AUX_SEND then
          bind_outcome (mouse_queue RESPONSE_ACK s) (aux_send val)
        else if write_cmd s = 0 then
          bind_outcome (kbd_queue RESPONSE_ACK s) (\<lambda>s.
            bind_outcome (kbd_queue 0xab s) (\<lambda>s.
              bind_outcome (kbd_queue 0x41 s) (\<lambda>s. Ret (kbd_update_irq s))))
        else Ret s)
       (\<lambda>s. Ret (s\<lparr>write_cmd := 0\<rparr>))"

definition kbd_reset :: "irq_events \<Rightarrow> nat \<Rightarrow> kbd_state" where
  "kbd_reset lines reboots =
     \<lparr>kbdq = empty_queue, mouseq = empty_queue, mstatus = 0, mres = AUX_DEFAULT_RESOLUTION,
      msample = AUX_DEFAULT_SAMPLE, mode = KBD_MODE_KBD_INT OR KBD_MODE_SYS,
      status = I8042_STR_MUXERR OR I8042_STR_CMDDAT OR I8042_STR_KEYLOCK, write_cmd = 0,
      kbd_lines = lines, kbd_reboots = reboots\<rparr>"

section \<open>Port handlers\<close>

definition kbd_in :: "kbd_state io_handler" where
  "kbd_in port data s =
     (if port = I8042_COMMAND_REG then
        bind_outcome (ioport__write8 data (ucast (kbd_read_status s))) (\<lambda>d. Ret (s, d, True))
      else if port = I8042_DATA_REG then
        bind_outcome (kbd_read_data s) (\<lambda>(s, value).
          bind_outcome (ioport__write32 data value) (\<lambda>d. Ret (s, d, True)))
      else if port = I8042_PORT_B_REG then
        bind_outcome (ioport__write8 data 0x20) (\<lambda>d. Ret (s, d, True))
      else Ret (s, data, False))"

definition kbd_out :: "kbd_state io_handler" where
  "kbd_out port data s =
     (if port = I8042_COMMAND_REG then
        bind_outcome (ioport__read8 data) (\<lambda>value.
          bind_outcome (kbd_write_command value s) (\<lambda>s. Ret (s, data, True)))
      else if port = I8042_DATA_REG then
        bind_outcome (ioport__read32 data) (\<lambda>value.
          bind_outcome (kbd_write_data value s) (\<lambda>s. Ret (s, data, True)))
      else if port = I8042_PORT_B_REG then Ret (s, data, True)
      else Ret (s, data, False))"

definition kbd_ops :: nat where "kbd_ops = 4"

text \<open>The results of the two registrations are ignored.\<close>

definition kbd__init :: "bool \<Rightarrow> bool \<Rightarrow> irq_events \<Rightarrow> nat \<Rightarrow> ioport_state \<Rightarrow> (kbd_state \<times> ioport_state \<times> int) outcome" where
  "kbd__init oom1 oom2 lines reboots io =
     bind_outcome (ioport__register oom1 I8042_DATA_REG kbd_ops 2 0 io) (\<lambda>(io, _).
       bind_outcome (ioport__register oom2 I8042_COMMAND_REG kbd_ops 2 0 io) (\<lambda>(io, _).
         Ret (kbd_reset lines reboots, io, 0)))"

section \<open>Queues as lists\<close>

definition queue_inv :: "ps2_queue \<Rightarrow> bool" where
  "queue_inv q \<longleftrightarrow> length (q_buf q) = QUEUE_SIZE \<and> q_count q \<le> QUEUE_SIZE \<and> q_write q = q_read q + q_count q"

definition queue_list :: "ps2_queue \<Rightarrow> u8 list" where
  "queue_list q = map (\<lambda>i. q_buf q ! ((q_read q + i) mod QUEUE_SIZE)) [0..<q_count q]"

lemma queue_put_ok:
  assumes "queue_inv q" "q_count q < QUEUE_SIZE"
  obtains q' where "queue_put c q = Ret q'" "queue_inv q'" "queue_list q' = queue_list q @ [c]" "q_count q' = q_count q + 1"
proof -
  let ?w = "(q_read q + q_count q) mod QUEUE_SIZE"
  have ne: "?w \<noteq> (q_read q + i) mod QUEUE_SIZE" if "i < q_count q" for i
  proof
    assume "?w = (q_read q + i) mod QUEUE_SIZE"
    then have "QUEUE_SIZE dvd q_count q - i" using that mod_eq_dvd_iff_nat [of "q_read q + i" "q_read q + q_count q" QUEUE_SIZE] by simp
    then show False using that assms(2) by (auto dest: dvd_imp_le)
  qed
  have "?w < length (q_buf q)" using assms(1) by (simp add: queue_inv_def QUEUE_SIZE_def)
  with assms ne show ?thesis
    by (intro that [of "q\<lparr>q_buf := (q_buf q)[?w := c], q_write := q_write q + 1, q_count := q_count q + 1\<rparr>"])
       (auto simp: queue_put_def queue_inv_def queue_list_def)
qed

lemma queue_get_ok:
  assumes "queue_inv q" "queue_list q = c # cs"
  obtains q' where "queue_get q = Ret (q', c)" "queue_inv q'" "queue_list q' = cs" "q_count q' = q_count q - 1"
proof -
  obtain n where n: "q_count q = Suc n" using assms(2) by (cases "q_count q") (auto simp: queue_list_def)
  have "queue_list q = q_buf q ! (q_read q mod QUEUE_SIZE) # map (\<lambda>i. q_buf q ! ((Suc (q_read q + i)) mod QUEUE_SIZE)) [0..<n]"
    by (simp add: queue_list_def n map_upt_Suc del: upt_Suc)
  moreover have "q_read q mod QUEUE_SIZE < length (q_buf q)" using assms(1) by (simp add: queue_inv_def QUEUE_SIZE_def)
  ultimately show ?thesis using assms n
    by (intro that [of "q\<lparr>q_read := q_read q + 1, q_count := q_count q - 1\<rparr>"])
       (auto simp: queue_get_def queue_inv_def queue_list_def)
qed

lemma queue_list_length [simp]: "length (queue_list q) = q_count q"
  by (simp add: queue_list_def)

text \<open>
  The contract of a bounded queue, as its users rely on it: while there is room a byte put in goes
  to the end, and the byte taken out is the oldest.
\<close>

locale bounded_fifo =
  fixes inv :: "'q \<Rightarrow> bool"
    and abs :: "'q \<Rightarrow> 'c list"
    and cap :: nat
    and put :: "'c \<Rightarrow> 'q \<Rightarrow> 'q outcome"
    and get :: "'q \<Rightarrow> ('q \<times> 'c) outcome"
  assumes put_ok: "inv q \<Longrightarrow> length (abs q) < cap \<Longrightarrow> \<exists>q'. put c q = Ret q' \<and> inv q' \<and> abs q' = abs q @ [c]"
    and get_ok: "inv q \<Longrightarrow> abs q = c # cs \<Longrightarrow> \<exists>q'. get q = Ret (q', c) \<and> inv q' \<and> abs q' = cs"
    and bounded: "inv q \<Longrightarrow> length (abs q) \<le> cap"
begin

text \<open>Putting a byte only when there is room keeps the first \<open>cap\<close> bytes.\<close>

definition offer :: "'c \<Rightarrow> 'q \<Rightarrow> 'q outcome" where
  "offer c q = (if cap \<le> length (abs q) then Ret q else put c q)"

lemma offer_ok: "inv q \<Longrightarrow> \<exists>q'. offer c q = Ret q' \<and> inv q' \<and> abs q' = take cap (abs q @ [c])"
  using put_ok [of q c] bounded [of q] by (auto simp: offer_def)

fun offers :: "'c list \<Rightarrow> 'q \<Rightarrow> 'q outcome" where
  "offers [] q = Ret q"
| "offers (c # cs) q = bind_outcome (offer c q) (offers cs)"

lemma offers_ok: "inv q \<Longrightarrow> \<exists>q'. offers cs q = Ret q' \<and> inv q' \<and> abs q' = take cap (abs q @ cs)"
proof (induction cs arbitrary: q)
  case Nil
  then show ?case using bounded by simp
next
  case (Cons c cs)
  from offer_ok [OF Cons.prems, of c] obtain q1 where
    1: "offer c q = Ret q1" "inv q1" "abs q1 = take cap (abs q @ [c])" by blast
  have "take cap (take cap (abs q @ [c]) @ cs) = take cap (abs q @ c # cs)"
    by (cases "cap \<le> length (abs q)") (auto simp: min_def)
  with 1 Cons.IH [OF 1(2)] show ?case by auto
qed

end

interpretation ps2: bounded_fifo queue_inv queue_list QUEUE_SIZE queue_put queue_get
proof
  fix q c
  assume "queue_inv q" "length (queue_list q) < QUEUE_SIZE"
  then show "\<exists>q'. queue_put c q = Ret q' \<and> queue_inv q' \<and> queue_list q' = queue_list q @ [c]"
    using queue_put_ok [of q c] by (metis queue_list_length)
next
  fix q c cs
  assume "queue_inv q" "queue_list q = c # cs"
  then show "\<exists>q'. queue_get q = Ret (q', c) \<and> queue_inv q' \<and> queue_list q' = cs"
    using queue_get_ok by metis
qed (simp add: queue_inv_def)

section \<open>Invariant\<close>

text \<open>
  The status bits and the two interrupt lines show which queue has something: the keyboard's first,
  the mouse's only when the keyboard's is empty.
\<close>

definition kbd_inv :: "kbd_state \<Rightarrow> bool" where
  "kbd_inv s \<longleftrightarrow> queue_inv (kbdq s) \<and> queue_inv (mouseq s) \<and>
     (let k = queue_list (kbdq s); m = queue_list (mouseq s)
      in (bit (status s) 0 \<longleftrightarrow> k \<noteq> [] \<or> m \<noteq> []) \<and> (bit (status s) 5 \<longleftrightarrow> k = [] \<and> m \<noteq> []) \<and>
         (line_high KBD_IRQ (kbd_lines s) \<longleftrightarrow> k \<noteq> []) \<and> (line_high AUX_IRQ (kbd_lines s) \<longleftrightarrow> k = [] \<and> m \<noteq> []))"

lemma queue_list_empty: "queue_list q = [] \<longleftrightarrow> q_count q = 0"
  by (simp add: queue_list_def)

lemma str_bits: "bit I8042_STR_OBF n \<longleftrightarrow> n = 0" "bit I8042_STR_AUXDATA n \<longleftrightarrow> n = 5"
proof -
  have e: "I8042_STR_OBF = 2 ^ 0" "I8042_STR_AUXDATA = 2 ^ 5" by (simp_all add: I8042_STR_OBF_def I8042_STR_AUXDATA_def)
  show "bit I8042_STR_OBF n \<longleftrightarrow> n = 0" "bit I8042_STR_AUXDATA n \<longleftrightarrow> n = 5"
    unfolding e by (auto simp only: bit_exp_iff) (auto simp: possible_bit_word)
qed

lemma kbd_update_irq_inv: "queue_inv (kbdq s) \<Longrightarrow> queue_inv (mouseq s) \<Longrightarrow> kbd_inv (kbd_update_irq s)"
  by (auto simp: kbd_update_irq_def kbd_inv_def Let_def queue_list_empty str_bits bit_or_iff bit_and_iff bit_not_iff
      KBD_IRQ_def AUX_IRQ_def)

lemma kbd_update_irq_frame [simp]:
  "kbdq (kbd_update_irq s) = kbdq s" "mouseq (kbd_update_irq s) = mouseq s" "mode (kbd_update_irq s) = mode s"
  "mstatus (kbd_update_irq s) = mstatus s" "mres (kbd_update_irq s) = mres s" "msample (kbd_update_irq s) = msample s"
  "write_cmd (kbd_update_irq s) = write_cmd s" "kbd_reboots (kbd_update_irq s) = kbd_reboots s"
  by (simp_all add: kbd_update_irq_def Let_def)

lemma kbd_inv_frame [simp]:
  "kbd_inv (s\<lparr>mode := a\<rparr>) = kbd_inv s" "kbd_inv (s\<lparr>write_cmd := b\<rparr>) = kbd_inv s" "kbd_inv (s\<lparr>mstatus := a\<rparr>) = kbd_inv s"
  "kbd_inv (s\<lparr>mres := a\<rparr>) = kbd_inv s" "kbd_inv (s\<lparr>msample := a\<rparr>) = kbd_inv s" "kbd_inv (s\<lparr>kbd_reboots := n\<rparr>) = kbd_inv s"
  by (simp_all add: kbd_inv_def)

lemma kbd_inv_reset: "kbd_inv (kbd_reset [] n)"
  by (simp add: kbd_inv_def kbd_reset_def empty_queue_def queue_inv_def queue_list_def QUEUE_SIZE_def
      I8042_STR_MUXERR_def I8042_STR_CMDDAT_def I8042_STR_KEYLOCK_def)

text \<open>The two queueing functions as list operations.\<close>

lemma kbd_queue_eq: "kbd_queue c s = (if QUEUE_SIZE \<le> q_count (kbdq s) then Ret s
    else bind_outcome (ps2.offer c (kbdq s)) (\<lambda>q. Ret (kbd_update_irq (s\<lparr>kbdq := q\<rparr>))))"
  by (simp add: kbd_queue_def ps2.offer_def)

lemma kbd_queue_ok:
  assumes "kbd_inv s"
  obtains s' where "kbd_queue c s = Ret s'" "kbd_inv s'" "queue_list (kbdq s') = take QUEUE_SIZE (queue_list (kbdq s) @ [c])"
    "mouseq s' = mouseq s" "mode s' = mode s" "write_cmd s' = write_cmd s"
proof -
  have inv: "queue_inv (kbdq s)" "queue_inv (mouseq s)" using assms by (auto simp: kbd_inv_def Let_def)
  from ps2.offer_ok [OF inv(1), of c] obtain q where
    q: "ps2.offer c (kbdq s) = Ret q" "queue_inv q" "queue_list q = take QUEUE_SIZE (queue_list (kbdq s) @ [c])" by blast
  show ?thesis
  proof (cases "QUEUE_SIZE \<le> q_count (kbdq s)")
    case True
    with assms q show ?thesis by (intro that [of s]) (auto simp: kbd_queue_eq ps2.offer_def)
  next
    case False
    with q inv kbd_update_irq_inv [of "s\<lparr>kbdq := q\<rparr>"] show ?thesis
      by (intro that [of "kbd_update_irq (s\<lparr>kbdq := q\<rparr>)"]) (auto simp: kbd_queue_eq)
  qed
qed

lemma mouse_queue_ok:
  assumes "kbd_inv s"
  obtains s' where "mouse_queue c s = Ret s'" "kbd_inv s'" "queue_list (mouseq s') = take QUEUE_SIZE (queue_list (mouseq s) @ [c])"
    "kbdq s' = kbdq s" "mode s' = mode s" "write_cmd s' = write_cmd s" "mstatus s' = mstatus s" "mres s' = mres s"
    "msample s' = msample s"
proof -
  have inv: "queue_inv (kbdq s)" "queue_inv (mouseq s)" using assms by (auto simp: kbd_inv_def Let_def)
  from ps2.offer_ok [OF inv(2), of c] obtain q where
    q: "ps2.offer c (mouseq s) = Ret q" "queue_inv q" "queue_list q = take QUEUE_SIZE (queue_list (mouseq s) @ [c])" by blast
  show ?thesis
  proof (cases "QUEUE_SIZE \<le> q_count (mouseq s)")
    case True
    with assms q show ?thesis by (intro that [of s]) (auto simp: mouse_queue_def ps2.offer_def)
  next
    case False
    with q inv kbd_update_irq_inv [of "s\<lparr>mouseq := q\<rparr>"] show ?thesis
      by (intro that [of "kbd_update_irq (s\<lparr>mouseq := q\<rparr>)"]) (auto simp: mouse_queue_def ps2.offer_def)
  qed
qed

lemma aux_send_ok:
  assumes "kbd_inv s"
  shows "\<exists>s'. aux_send val s = Ret s' \<and> kbd_inv s'"
proof -
  obtain s1 where s1: "mouse_queue (mstatus s) s = Ret s1" "kbd_inv s1" "mres s1 = mres s" "msample s1 = msample s"
    by (rule mouse_queue_ok [OF assms])
  obtain s2 where s2: "mouse_queue (mres s) s1 = Ret s2" "kbd_inv s2" "msample s2 = msample s1"
    by (rule mouse_queue_ok [OF s1(2)])
  obtain s3 where s3: "mouse_queue (msample s) s2 = Ret s3" "kbd_inv s3" by (rule mouse_queue_ok [OF s2(2)])
  obtain s4 where s4: "mouse_queue 0 s = Ret s4" "kbd_inv s4" by (rule mouse_queue_ok [OF assms])
  from s1 s2 s3 s4 assms show ?thesis by (auto simp: aux_send_def)
qed

lemma kbd_write_data_ok:
  assumes "kbd_inv s"
  shows "\<exists>s'. kbd_write_data val s = Ret s' \<and> kbd_inv s'"
proof -
  obtain a1 where a1: "mouse_queue (ucast val) s = Ret a1" "kbd_inv a1" by (rule mouse_queue_ok [OF assms])
  obtain a2 where a2: "mouse_queue RESPONSE_ACK a1 = Ret a2" "kbd_inv a2" by (rule mouse_queue_ok [OF a1(2)])
  obtain b1 where b1: "mouse_queue RESPONSE_ACK s = Ret b1" "kbd_inv b1" by (rule mouse_queue_ok [OF assms])
  obtain b2 where b2: "aux_send val b1 = Ret b2" "kbd_inv b2" using aux_send_ok [OF b1(2)] by blast
  obtain c1 where c1: "kbd_queue RESPONSE_ACK s = Ret c1" "kbd_inv c1" by (rule kbd_queue_ok [OF assms])
  obtain c2 where c2: "kbd_queue 0xab c1 = Ret c2" "kbd_inv c2" by (rule kbd_queue_ok [OF c1(2)])
  obtain c3 where c3: "kbd_queue 0x41 c2 = Ret c3" "kbd_inv c3" by (rule kbd_queue_ok [OF c2(2)])
  have q: "queue_inv (kbdq t)" "queue_inv (mouseq t)" if "kbd_inv t" for t using that by (auto simp: kbd_inv_def Let_def)
  have "kbd_inv (kbd_update_irq (s\<lparr>mode := ucast val\<rparr>))" "kbd_inv (kbd_update_irq c3)"
    using q [OF assms] q [OF c3(2)] by (auto intro!: kbd_update_irq_inv)
  with a1 a2 b1 b2 c1 c2 c3 assms show ?thesis by (auto simp: kbd_write_data_def)
qed

lemma kbd_out_ok:
  assumes "kbd_inv s" "4 \<le> length data"
  shows "\<exists>s' d r. kbd_out port data s = Ret (s', d, r) \<and> kbd_inv s' \<and> length d = length data"
proof -
  obtain b0 b1 b2 b3 ds where d: "data = b0 # b1 # b2 # b3 # ds"
    using assms(2) by (auto simp: numeral_eq_Suc Suc_le_length_iff)
  obtain a1 where a1: "kbd_queue (mode s) s = Ret a1" "kbd_inv a1" by (rule kbd_queue_ok [OF assms(1)])
  obtain a2 where a2: "mouse_queue 0 s = Ret a2" "kbd_inv a2" by (rule mouse_queue_ok [OF assms(1)])
  have "\<exists>s'. kbd_write_command v s = Ret s' \<and> kbd_inv s'" for v
    using a1 a2 assms(1) by (auto simp: kbd_write_command_def)
  then have c: "\<exists>s'. kbd_write_command b0 s = Ret s' \<and> kbd_inv s'" by blast
  obtain w where r: "ioport__read8 data = Ret b0" "ioport__read32 data = Ret w"
    by (simp add: d ioport__read8_def ioport__read32_def)
  from c kbd_write_data_ok [OF assms(1), of w] assms(1) show ?thesis
    unfolding kbd_out_def by (cases "port = I8042_COMMAND_REG"; cases "port = I8042_DATA_REG") (auto simp: r)
qed

interpretation kbd_write: io_device kbd_inv 4 kbd_out
  by unfold_locales (rule kbd_out_ok)

lemma kbd_read_data_ok:
  assumes "kbd_inv s" "queue_list (kbdq s) \<noteq> [] \<or> queue_list (mouseq s) \<noteq> []"
  obtains s' c where "kbd_read_data s = Ret (s', scast c)" "kbd_inv s'"
    "queue_list (kbdq s) @ queue_list (mouseq s) = c # queue_list (kbdq s') @ queue_list (mouseq s')"
    "queue_list (kbdq s) \<noteq> [] \<Longrightarrow> mouseq s' = mouseq s"
proof -
  have inv: "queue_inv (kbdq s)" "queue_inv (mouseq s)" using assms(1) by (auto simp: kbd_inv_def Let_def)
  show ?thesis
  proof (cases "queue_list (kbdq s)")
    case (Cons c cs)
    then obtain q where q: "queue_get (kbdq s) = Ret (q, c)" "queue_inv q" "queue_list q = cs"
      using ps2.get_ok [OF inv(1)] by blast
    with Cons inv kbd_update_irq_inv [of "s\<lparr>kbdq := q, kbd_lines := kvm__irq_line KBD_IRQ False (kbd_lines s)\<rparr>"]
    show ?thesis
      by (intro that [of "kbd_update_irq (s\<lparr>kbdq := q, kbd_lines := kvm__irq_line KBD_IRQ False (kbd_lines s)\<rparr>)" c])
         (auto simp: kbd_read_data_def queue_list_empty [symmetric])
  next
    case Nil
    then obtain c cs where m: "queue_list (mouseq s) = c # cs" using assms(2) by (cases "queue_list (mouseq s)") auto
    then obtain q where q: "queue_get (mouseq s) = Ret (q, c)" "queue_inv q" "queue_list q = cs"
      using ps2.get_ok [OF inv(2)] by blast
    have "0 < q_count (mouseq s)" "q_count (kbdq s) = 0"
      using m Nil queue_list_empty [of "kbdq s"] queue_list_empty [of "mouseq s"] by auto
    with q m Nil inv kbd_update_irq_inv [of "s\<lparr>mouseq := q, kbd_lines := kvm__irq_line AUX_IRQ False (kbd_lines s)\<rparr>"]
    show ?thesis
      by (intro that [of "kbd_update_irq (s\<lparr>mouseq := q, kbd_lines := kvm__irq_line AUX_IRQ False (kbd_lines s)\<rparr>)" c])
         (auto simp: kbd_read_data_def)
  qed
qed

section \<open>Properties\<close>

text \<open>
  Whatever the guest writes to the controller's ports, in any number and order of writes,
  every write returns, stays inside the queues and keeps the invariant: the output-buffer and aux
  bits of the status register and the two interrupt lines show which queue holds data, the
  keyboard's first.
\<close>

theorem kbd_writes_safe:
  assumes "kbd_inv s" "count * sz + 4 \<le> length buf"
  shows "\<exists>s' b r. io_loop kbd_out port sz count 0 buf False s = Ret (s', b, r) \<and> kbd_inv s'"
  using kbd_write.io_loop_ok [OF assms(1), of 0 count sz buf port False] assms(2) by auto

theorem kbd_writes_safe_witness:
  "\<exists>s' b r. io_loop kbd_out 0x60 1 2 0 [0xf2, 0, 0, 0, 0, 0] False (kbd_reset [] 0) = Ret (s', b, r) \<and> kbd_inv s'"
  using kbd_writes_safe [OF kbd_inv_reset, of 2 1 "[0xf2, 0, 0, 0, 0, 0]" "0x60" 0] by simp



text \<open>
  A read of the data port when both queues are empty repeats the last keyboard byte only
  while at most 128 keyboard bytes were ever read and at least one was: before the first one the code
  reads the element after the end of the keyboard array, and after 128 bytes an element further and
  further behind it.
\<close>

theorem kbd_empty_read_out_of_bounds:
  assumes "kbd_inv s" "queue_list (kbdq s) = []" "queue_list (mouseq s) = []"
  shows "if q_read (kbdq s) = 0 \<or> QUEUE_SIZE < q_read (kbdq s) then kbd_read_data s = Undefined
    else kbd_read_data s = Ret (s, scast (q_buf (kbdq s) ! (q_read (kbdq s) - 1)))"
proof -
  have len: "length (q_buf (kbdq s)) = QUEUE_SIZE" using assms(1) by (simp add: kbd_inv_def queue_inv_def Let_def)
  have "q_count (kbdq s) = 0" "q_count (mouseq s) = 0" using assms(2,3) by (simp_all add: queue_list_empty)
  with len show ?thesis by (auto simp: kbd_read_data_def Let_def)
qed

theorem kbd_empty_read_out_of_bounds_witness: "kbd_in 0x60 [0, 0, 0, 0] (kbd_reset [] 0) = Undefined"
proof -
  have "kbd_read_data (kbd_reset [] 0) = Undefined"
    using kbd_empty_read_out_of_bounds [OF kbd_inv_reset [of 0]]
    by (simp add: kbd_reset_def empty_queue_def queue_list_def)
  then show ?thesis by (simp add: kbd_in_def i8042_ports)
qed

text \<open>
  A data write is taken as 32 bits of the guest's buffer, of which a one-byte output sets only
  the first. With the next three bytes zero the mouse command 0xf2 answers acknowledge and
  identity; with the three bytes that reading the acknowledge byte 0xfa leaves there (the signed
  byte is extended and written back as 32 bits) the same command answers the acknowledge only.
\<close>

theorem kbd_data_write_takes_stale_bytes:
  assumes "kbd_inv s" "write_cmd s = ucast I8042_CMD_AUX_SEND" "queue_list (mouseq s) = []"
  shows "(\<exists>s'. kbd_out 0x60 [0xf2, 0, 0, 0] s = Ret (s', [0xf2, 0, 0, 0], True) \<and> queue_list (mouseq s') = [RESPONSE_ACK, 0]) \<and>
    (\<exists>s'. kbd_out 0x60 [0xf2, 0xff, 0xff, 0xff] s = Ret (s', [0xf2, 0xff, 0xff, 0xff], True) \<and>
       queue_list (mouseq s') = [RESPONSE_ACK]) \<and>
    ioport__write32 [b0, b1, b2, b3] (scast RESPONSE_ACK) = Ret [0xfa, 0xff, 0xff, 0xff]"
proof -
  obtain s1 where s1: "mouse_queue RESPONSE_ACK s = Ret s1" "kbd_inv s1" "queue_list (mouseq s1) = [RESPONSE_ACK]"
    using mouse_queue_ok [OF assms(1), of RESPONSE_ACK] assms(3) by (auto simp: QUEUE_SIZE_def)
  obtain s2 where s2: "mouse_queue 0 s1 = Ret s2" "queue_list (mouseq s2) = [RESPONSE_ACK, 0]"
    using mouse_queue_ok [OF s1(2), of 0] s1(3) by (auto simp: QUEUE_SIZE_def)
  have cmd: "write_cmd s \<noteq> ucast I8042_CMD_CTL_WCTR" "write_cmd s \<noteq> ucast I8042_CMD_AUX_LOOP"
    using assms(2) by (simp_all add: i8042_cmds)
  have r: "ioport__read32 [0xf2, 0, 0, 0] = Ret 0xf2" "ioport__read32 [0xf2, 0xff, 0xff, 0xff] = Ret 0xfffffff2"
    by (simp_all add: ioport__read32_def)
  have "kbd_write_data 0xf2 s = Ret (s2\<lparr>write_cmd := 0\<rparr>)" "kbd_write_data 0xfffffff2 s = Ret (s1\<lparr>write_cmd := 0\<rparr>)"
    using s1 s2 cmd assms(2) by (simp_all add: kbd_write_data_def aux_send_def)
  then show ?thesis using s1 s2 r
    by (simp add: kbd_out_def i8042_ports ioport__write32_def RESPONSE_ACK_def)
qed

theorem kbd_data_write_takes_stale_bytes_witness:
  "\<exists>s'. kbd_out 0x60 [0xf2, 0xff, 0xff, 0xff] ((kbd_reset [] 0)\<lparr>write_cmd := ucast I8042_CMD_AUX_SEND\<rparr>)
     = Ret (s', [0xf2, 0xff, 0xff, 0xff], True) \<and> queue_list (mouseq s') = [RESPONSE_ACK]"
proof -
  let ?s = "(kbd_reset [] 0)\<lparr>write_cmd := ucast I8042_CMD_AUX_SEND\<rparr>"
  have "kbd_inv ?s" "write_cmd ?s = ucast I8042_CMD_AUX_SEND" "queue_list (mouseq ?s) = []"
    using kbd_inv_reset [of 0] by (simp_all, simp add: kbd_reset_def empty_queue_def queue_list_def)
  from kbd_data_write_takes_stale_bytes [OF this] show ?thesis by blast
qed

end
