(* ===== verification/Mmio.thy ===== *)
theory Mmio
  imports RBInterval
begin

text \<open>
  \<^verbatim>\<open>mmio.c\<close>: the table of memory-mapped I/O regions and the dispatch of a guest access to the
  handler of the region that contains it.

  The interval tree holds the \<^verbatim>\<open>struct mmio_mapping\<close> of a region. \<open>mm_allocated\<close> counts the mappings
  that were allocated and not freed, \<open>mm_ioctls\<close> is the sequence of coalesced-zone requests sent to
  the kernel, \<open>mm_brlock\<close> the write lock. The results of \<^verbatim>\<open>malloc\<close> and of the \<^verbatim>\<open>ioctl\<close> are arguments.
\<close>

section \<open>State\<close>

record mmio_mapping =
  mmio_fn :: nat
  mmio_ptr :: nat

datatype coalesced_ioctl =
    KVM_REGISTER_COALESCED_MMIO u64 u32
  | KVM_UNREGISTER_COALESCED_MMIO u64 u32

record mmio_state =
  mmio_tree :: "mmio_mapping rb_int_node rb_node"
  mm_allocated :: nat
  mm_ioctls :: "coalesced_ioctl list"
  mm_brlock :: bool

definition mmio_state_init :: mmio_state where
  "mmio_state_init = \<lparr>mmio_tree = RBNull, mm_allocated = 0, mm_ioctls = [], mm_brlock = False\<rparr>"

section \<open>Operations\<close>

definition mmio_search :: "mmio_mapping rb_int_node rb_node \<Rightarrow> u64 \<Rightarrow> u64 \<Rightarrow> mmio_mapping rb_int_node option" where
  "mmio_search root addr len = rb_int_search_range root addr (addr + len)"

definition mmio_search_single :: "mmio_mapping rb_int_node rb_node \<Rightarrow> u64 \<Rightarrow> mmio_mapping rb_int_node option" where
  "mmio_search_single root addr = rb_int_search_single root addr"

definition mmio_insert ::
  "mmio_mapping rb_int_node rb_node \<Rightarrow> mmio_mapping rb_int_node \<Rightarrow> (mmio_mapping rb_int_node rb_node \<times> int) option" where
  "mmio_insert root data = rb_int_insert root data"

definition mmio_node :: "u64 \<Rightarrow> u64 \<Rightarrow> nat \<Rightarrow> nat \<Rightarrow> mmio_mapping rb_int_node" where
  "mmio_node phys_addr phys_addr_len fn ptr =
     \<lparr>rb_low = phys_addr, rb_high = phys_addr + phys_addr_len, rb_container = \<lparr>mmio_fn = fn, mmio_ptr = ptr\<rparr>\<rparr>"

text \<open>\<open>ioctl\<close> is the result of the request: 0 or above, or below 0 with the value of \<^verbatim>\<open>errno\<close>.\<close>

definition kvm__register_mmio ::
  "bool \<Rightarrow> int \<times> int \<Rightarrow> u64 \<Rightarrow> u64 \<Rightarrow> bool \<Rightarrow> nat \<Rightarrow> nat \<Rightarrow> mmio_state \<Rightarrow> (mmio_state \<times> int) outcome" where
  "kvm__register_mmio oom ioctl phys_addr phys_addr_len coalesce fn ptr s =
     (if oom then Ret (s, - ENOMEM)
      else
        let s = s\<lparr>mm_allocated := mm_allocated s + 1\<rparr>;
            s = (if coalesce
                 then s\<lparr>mm_ioctls := mm_ioctls s @ [KVM_REGISTER_COALESCED_MMIO phys_addr (ucast phys_addr_len)]\<rparr>
                 else s)
        in if coalesce \<and> fst ioctl < 0
           then Ret (s\<lparr>mm_allocated := mm_allocated s - 1\<rparr>, - snd ioctl)
           else
             let s = s\<lparr>mm_brlock := True\<rparr>
             in case mmio_insert (mmio_tree s) (mmio_node phys_addr phys_addr_len fn ptr) of
                  None \<Rightarrow> Undefined
                | Some (t, ret) \<Rightarrow> Ret (s\<lparr>mmio_tree := t, mm_brlock := False\<rparr>, ret))"

definition kvm__deregister_mmio :: "u64 \<Rightarrow> mmio_state \<Rightarrow> (mmio_state \<times> bool) outcome" where
  "kvm__deregister_mmio phys_addr s =
     (let s = s\<lparr>mm_brlock := True\<rparr>
      in case mmio_search_single (mmio_tree s) phys_addr of
           None \<Rightarrow> Ret (s\<lparr>mm_brlock := False\<rparr>, False)
         | Some mmio \<Rightarrow>
             let s = s\<lparr>mm_ioctls := mm_ioctls s @ [KVM_UNREGISTER_COALESCED_MMIO phys_addr 1]\<rparr>
             in case rb_int_erase (mmio_tree s) mmio of
                  None \<Rightarrow> Undefined
                | Some t \<Rightarrow>
                    Ret (s\<lparr>mmio_tree := t, mm_brlock := False, mm_allocated := mm_allocated s - 1\<rparr>, True))"

type_synonym 's mmio_handler = "u64 \<Rightarrow> u8 list \<Rightarrow> u32 \<Rightarrow> u8 \<Rightarrow> nat \<Rightarrow> 's \<Rightarrow> ('s \<times> u8 list) outcome"

text \<open>An access that no region contains is only reported, so the function always returns true.\<close>

definition kvm__emulate_mmio ::
  "(nat \<Rightarrow> 's mmio_handler) \<Rightarrow> mmio_state \<Rightarrow> u64 \<Rightarrow> u8 list \<Rightarrow> u32 \<Rightarrow> u8 \<Rightarrow> 's \<Rightarrow> ('s \<times> u8 list \<times> bool) outcome" where
  "kvm__emulate_mmio fns m phys_addr data len is_write s =
     (case mmio_search (mmio_tree m) phys_addr (ucast len) of
        None \<Rightarrow> Ret (s, data, True)
      | Some mmio \<Rightarrow>
          bind_outcome (fns (mmio_fn (rb_container mmio)) phys_addr data len is_write (mmio_ptr (rb_container mmio)) s)
            (\<lambda>(s, data). Ret (s, data, True)))"

section \<open>Invariant and operations as map updates\<close>

definition mmio_inv :: "mmio_state \<Rightarrow> bool" where
  "mmio_inv s \<longleftrightarrow> int_inv (mmio_tree s) \<and> \<not> mm_brlock s \<and> length (inorder (mmio_tree s)) \<le> mm_allocated s"

lemma mmio_inv_init: "mmio_inv mmio_state_init"
  by (simp add: mmio_inv_def mmio_state_init_def)

text \<open>A region that does not run past the end of the 64-bit address space.\<close>

definition region_ok :: "u64 \<Rightarrow> u64 \<Rightarrow> bool" where
  "region_ok addr len \<longleftrightarrow> 0 < len \<and> unat addr + unat len < 2 ^ 64"

lemma region_high: "region_ok addr len \<Longrightarrow> unat (addr + len) = unat addr + unat len"
  by (simp add: region_ok_def unat_add_lem [THEN iffD1])

lemma region_node_ok: "region_ok addr len \<Longrightarrow> int_ok (mmio_node addr len fn ptr)"
  using region_high [of addr len]
  by (simp add: int_ok_def mmio_node_def word_less_nat_alt) (simp add: region_ok_def word_less_nat_alt)

lemma register_mmio_cases:
  assumes inv: "mmio_inv s" and reg: "region_ok addr len" and io: "coalesce \<longrightarrow> 0 \<le> fst ioctl"
  obtains (overlap) s' m where "m \<in> set (inorder (mmio_tree s))" "int_overlap (mmio_node addr len fn ptr) m"
      "kvm__register_mmio False ioctl addr len coalesce fn ptr s = Ret (s', - EEXIST)"
      "mmio_tree s' = mmio_tree s" "mm_allocated s' = mm_allocated s + 1" "mmio_inv s'"
  | (fresh) s' where "\<forall>m \<in> set (inorder (mmio_tree s)). \<not> int_overlap (mmio_node addr len fn ptr) m"
      "kvm__register_mmio False ioctl addr len coalesce fn ptr s = Ret (s', 0)" "mmio_inv s'"
      "int_map (mmio_tree s') = (\<lambda>a. if int_contains (mmio_node addr len fn ptr) a
         then Some (mmio_node addr len fn ptr) else int_map (mmio_tree s) a)"
proof -
  let ?n = "mmio_node addr len fn ptr"
  have it: "int_inv (mmio_tree s)" using inv by (simp add: mmio_inv_def)
  let ?s = "\<lambda>t. s\<lparr>mm_allocated := mm_allocated s + 1,
    mm_ioctls := (if coalesce then mm_ioctls s @ [KVM_REGISTER_COALESCED_MMIO addr (ucast len)] else mm_ioctls s),
    mmio_tree := t, mm_brlock := False\<rparr>"
  have reg': "kvm__register_mmio False ioctl addr len coalesce fn ptr s = Ret (?s t, r)"
    if "rb_int_insert (mmio_tree s) ?n = Some (t, r)" for t r
    using that io by (auto simp: kvm__register_mmio_def mmio_insert_def Let_def)
  from it region_node_ok [OF reg, of fn ptr] show thesis
  proof (cases rule: rb_int_insert_cases)
    case (overlap m)
    with reg' [OF overlap(3)] inv show thesis by (intro that(1) [of m "?s (mmio_tree s)"]) (auto simp: mmio_inv_def)
  next
    case (fresh t xs ys)
    with reg' [OF fresh(2)] inv int_map_insert [OF it region_node_ok [OF reg] fresh(2)] show thesis
      by (intro that(2) [of "?s t"]) (auto simp: mmio_inv_def)
  qed
qed

section \<open>Properties\<close>

text \<open>
  Registering a region inside the address space returns \<^verbatim>\<open>-EEXIST\<close> with the table unchanged
  exactly when it overlaps a registered region, in which case the mapping that was allocated
  for it is never freed; otherwise it returns 0 and exactly the addresses of the region
  are looked up to the new mapping from then on.
\<close>

theorem kvm__register_mmio_correct:
  assumes "mmio_inv s" "region_ok addr len" "coalesce \<longrightarrow> 0 \<le> fst ioctl"
    and "node = mmio_node addr len fn ptr"
  shows "\<exists>s' r. kvm__register_mmio False ioctl addr len coalesce fn ptr s = Ret (s', r) \<and> mmio_inv s' \<and>
    (if \<exists>m \<in> set (inorder (mmio_tree s)). int_overlap node m
     then r = - EEXIST \<and> mmio_tree s' = mmio_tree s \<and> mm_allocated s' = mm_allocated s + 1
     else r = 0 \<and> (\<forall>a. mmio_search_single (mmio_tree s') a =
        (if unat addr \<le> unat a \<and> unat a < unat addr + unat len then Some node
         else mmio_search_single (mmio_tree s) a)))"
proof -
  have c: "int_contains node a \<longleftrightarrow> unat addr \<le> unat a \<and> unat a < unat addr + unat len" for a
    using region_high [OF assms(2)]
    by (simp add: assms(4) int_contains_def mmio_node_def word_le_nat_alt word_less_nat_alt)
  from assms(1-3) show ?thesis
    unfolding assms(4)
    by (cases rule: register_mmio_cases [of s addr len coalesce ioctl fn ptr])
       (use c in \<open>auto simp: mmio_search_single_def int_map_def assms(4) fun_eq_iff\<close>)
qed

theorem kvm__register_mmio_correct_witness:
  "\<exists>s'. kvm__register_mmio False (0, 0) 0xd2000000 0x200 True 3 4 mmio_state_init = Ret (s', 0) \<and>
     mmio_search_single (mmio_tree s') 0xd20001ff = Some (mmio_node 0xd2000000 0x200 3 4) \<and>
     mmio_search_single (mmio_tree s') 0xd2000200 = None"
  using kvm__register_mmio_correct [OF mmio_inv_init, of "0xd2000000" "0x200" True "(0, 0)" _ 3 4]
  by (auto simp: region_ok_def mmio_state_init_def mmio_search_single_def rb_int_search_single_def rb_search_def)

text \<open>
  After a successful registration, an access that lies inside the region runs the
  registered function with the registered pointer; an access that starts in the region and runs past
  its end is ignored, and the state and the buffer are unchanged.
\<close>

theorem registered_mmio_dispatch:
  assumes "mmio_inv s" "region_ok addr len" "coalesce \<longrightarrow> 0 \<le> fst ioctl"
    and "kvm__register_mmio False ioctl addr len coalesce fn ptr s = Ret (s', 0)"
    and "unat addr \<le> unat a" "unat a < unat addr + unat len" "unat a + unat (n :: u32) < 2 ^ 64"
  shows "kvm__emulate_mmio fns s' a data n is_write st =
    (if unat a + unat n \<le> unat addr + unat len
     then bind_outcome (fns fn a data n is_write ptr st) (\<lambda>(st, data). Ret (st, data, True))
     else Ret (st, data, True))"
proof -
  let ?node = "mmio_node addr len fn ptr"
  have hi: "unat (addr + len) = unat addr + unat len" by (rule region_high [OF assms(2)])
  have acc: "unat (a + ucast n) = unat a + unat n"
    using assms(7) unat_add_lem [of a "ucast n"] by (simp add: unat_ucast_up)
  have c: "int_contains ?node a"
    using hi assms(5,6) by (simp add: int_contains_def mmio_node_def word_le_nat_alt word_less_nat_alt)
  have "rb_int_search_single (mmio_tree s') a = Some ?node"
    using register_mmio_cases [OF assms(1-3), of fn ptr thesis] assms(4) c
    by (cases rule: register_mmio_cases [OF assms(1-3), of fn ptr]) (auto simp: int_map_def fun_eq_iff)
  then have "mmio_search (mmio_tree s') a (ucast n) =
      (if unat a + unat n \<le> unat addr + unat len then Some ?node else None)"
    using hi acc by (simp add: mmio_search_def rb_int_search_range_def mmio_node_def word_less_nat_alt not_le)
  then show ?thesis by (simp add: kvm__emulate_mmio_def mmio_node_def)
qed

theorem registered_mmio_dispatch_witness:
  "\<exists>s'. kvm__register_mmio False (0, 0) 0xd2000000 0x200 True 3 4 mmio_state_init = Ret (s', 0) \<and>
     kvm__emulate_mmio (\<lambda>_ _ d _ _ _ st. Ret (st + 1, d)) s' 0xd2000010 [0, 0, 0, 0] 4 1 (8 :: nat) = Ret (9, [0, 0, 0, 0], True)"
proof -
  have r: "region_ok 0xd2000000 0x200" by (simp add: region_ok_def)
  obtain s' where s': "kvm__register_mmio False (0, 0) 0xd2000000 0x200 True 3 4 mmio_state_init = Ret (s', 0)"
    by (rule register_mmio_cases [OF mmio_inv_init r, of True "(0, 0)" 3 4]) (auto simp: mmio_state_init_def)
  from registered_mmio_dispatch [OF mmio_inv_init r _ s', of "0xd2000010" 4 "\<lambda>_ _ d _ _ _ st. Ret (st + 1, d)"
      "[0, 0, 0, 0]" 1 "8 :: nat"] s' show ?thesis by auto
qed

text \<open>
  \<^verbatim>\<open>kvm__deregister_mmio\<close> returns false and changes nothing when no region contains the address;
  otherwise it removes that region and no other, frees its mapping and returns true.
\<close>

theorem kvm__deregister_mmio_correct:
  assumes "mmio_inv s"
  shows "\<exists>s' r. kvm__deregister_mmio addr s = Ret (s', r) \<and> mmio_inv s' \<and>
    (case mmio_search_single (mmio_tree s) addr of
       None \<Rightarrow> \<not> r \<and> s' = s
     | Some m \<Rightarrow> r \<and> mm_allocated s' = mm_allocated s - 1 \<and>
         (\<forall>a. mmio_search_single (mmio_tree s') a =
            (if int_contains m a then None else mmio_search_single (mmio_tree s) a)))"
proof (cases "mmio_search_single (mmio_tree s) addr")
  case None
  with assms show ?thesis by (auto simp: kvm__deregister_mmio_def mmio_inv_def)
next
  case (Some m)
  have it: "int_inv (mmio_tree s)" using assms by (simp add: mmio_inv_def)
  have m: "m \<in> set (inorder (mmio_tree s))"
    using Some by (simp add: mmio_search_single_def search_single_iff [OF it])
  obtain t xs ys where t: "rb_int_erase (mmio_tree s) m = Some t" "int_inv t"
    "inorder (mmio_tree s) = xs @ m # ys" "inorder t = xs @ ys"
    using rb_int_erase_cases [OF it m] by metis
  with Some assms int_map_erase [OF it m t(1)] show ?thesis
    by (auto simp: kvm__deregister_mmio_def mmio_inv_def Let_def mmio_search_single_def int_map_def fun_eq_iff)
qed

theorem kvm__deregister_mmio_correct_witness:
  "\<exists>s'. kvm__deregister_mmio 0xd2000000 mmio_state_init = Ret (s', False)"
  using kvm__deregister_mmio_correct [OF mmio_inv_init, of "0xd2000000"]
  by (auto simp: mmio_state_init_def mmio_search_single_def rb_int_search_single_def rb_search_def)

end
