(* ===== verification/Pci.thy ===== *)
theory Pci
  imports Ioport Mmio
begin

text \<open>
  \<^verbatim>\<open>pci.c\<close>: the PCI configuration mechanism (ports 0xcf8 and 0xcfc and the memory-mapped area), the
  BAR address allocator and the capability list.

  The code reaches the configuration space through a pointer to \<^verbatim>\<open>struct pci_device_header\<close>, whose
  256 bytes are followed by the private \<^verbatim>\<open>bar_size\<close> array; \<open>hdr_bytes\<close> is that memory, so that an
  access that runs past the configuration space hits what it hits in the program. What a device's
  own \<^verbatim>\<open>cfg_ops\<close> do is an argument of the two configuration functions. The latched address register
  \<^verbatim>\<open>pci_config_address_bits\<close> is its four bytes, in memory order.
\<close>

section \<open>State\<close>

record pci_state =
  pci_config_address_bits :: "u8 list"
  io_space_blocks :: u32
  pci_devs :: dev_state

definition KVM_PCI_CFG_AREA :: u64 where "KVM_PCI_CFG_AREA = 0xd1000000"
definition KVM_PCI_MMIO_AREA :: u32 where "KVM_PCI_MMIO_AREA = 0xd2000000"
definition PCI_CFG_SIZE :: u64 where "PCI_CFG_SIZE = 0x1000000"
definition PCI_CONFIG_ADDRESS :: u16 where "PCI_CONFIG_ADDRESS = 0xcf8"
definition PCI_CONFIG_DATA :: u16 where "PCI_CONFIG_DATA = 0xcfc"
definition PCI_DEV_CFG_SIZE :: nat where "PCI_DEV_CFG_SIZE = 256"

definition pci_state_init :: "dev_state \<Rightarrow> pci_state" where
  "pci_state_init ds = \<lparr>pci_config_address_bits = replicate 4 0, io_space_blocks = KVM_PCI_MMIO_AREA, pci_devs = ds\<rparr>"

text \<open>The bit fields of \<^verbatim>\<open>union pci_config_address\<close>.\<close>

definition bus_number :: "u32 \<Rightarrow> u8" where "bus_number w = ucast (drop_bit 16 w)"
definition device_number :: "u32 \<Rightarrow> u8" where "device_number w = ucast (drop_bit 11 w) AND 0x1f"
definition function_number :: "u32 \<Rightarrow> u8" where "function_number w = ucast (drop_bit 8 w) AND 0x07"
definition set_reg_offset :: "u16 \<Rightarrow> u32 \<Rightarrow> u32" where "set_reg_offset v w = (w AND NOT 3) OR (ucast v AND 3)"
definition set_enable_bit :: "u32 \<Rightarrow> u32" where "set_enable_bit w = w OR 0x80000000"

section \<open>Bytes of a header\<close>

definition u32_bytes :: "u32 \<Rightarrow> u8 list" where
  "u32_bytes v = [ucast v, ucast (drop_bit 8 v), ucast (drop_bit 16 v), ucast (drop_bit 24 v)]"

definition bytes_u32 :: "u8 list \<Rightarrow> u32" where
  "bytes_u32 bs = (case bs of
     b0 # b1 # b2 # b3 # _ \<Rightarrow> ucast b0 OR push_bit 8 (ucast b1) OR push_bit 16 (ucast b2) OR push_bit 24 (ucast b3)
   | _ \<Rightarrow> 0)"

definition hdr_bytes :: "pci_device_header \<Rightarrow> u8 list" where
  "hdr_bytes h = pci_cfg h @ concat (map u32_bytes (pci_bar_size h))"

definition set_hdr_bytes :: "u8 list \<Rightarrow> pci_device_header \<Rightarrow> pci_device_header" where
  "set_hdr_bytes bs h = h\<lparr>pci_cfg := take PCI_DEV_CFG_SIZE bs,
     pci_bar_size := map (\<lambda>i. bytes_u32 (drop (PCI_DEV_CFG_SIZE + 4 * i) bs)) [0..<6]\<rparr>"

text \<open>\<^verbatim>\<open>memcpy\<close> of \<open>n\<close> bytes of \<open>src\<close> to position \<open>off\<close> of \<open>dst\<close>.\<close>

definition memcpy :: "u8 list \<Rightarrow> nat \<Rightarrow> u8 list \<Rightarrow> nat \<Rightarrow> u8 list outcome" where
  "memcpy dst off src n =
     (if n \<le> length src \<and> off + n \<le> length dst then Ret (take off dst @ take n src @ drop (off + n) dst)
      else Undefined)"

section \<open>Address blocks and capabilities\<close>

definition ALIGN :: "u32 \<Rightarrow> u32 \<Rightarrow> u32" where
  "ALIGN x a = (x + (a - 1)) AND NOT (a - 1)"

definition pci_get_io_space_block :: "u32 \<Rightarrow> pci_state \<Rightarrow> pci_state \<times> u32" where
  "pci_get_io_space_block sz s =
     (let block = ALIGN (io_space_blocks s) sz in (s\<lparr>io_space_blocks := block + sz\<rparr>, block))"

text \<open>
  The walk of \<^verbatim>\<open>pci_for_each_cap\<close>: \<open>None\<close> is a walk that does not end, which a cyclic list gives. The
  result is the position of the capability, if there is one.
\<close>

partial_function (option) cap_loop :: "u8 list \<Rightarrow> u8 \<Rightarrow> u8 \<Rightarrow> u8 option option" where
  "cap_loop cfg cap_type pos =
     (if pos = 0 then Some None
      else if cfg ! unat pos = cap_type then Some (Some pos)
      else cap_loop cfg cap_type (cfg ! (unat pos + 1) AND NOT 3))"

definition pci_find_cap :: "pci_device_header \<Rightarrow> u8 \<Rightarrow> u8 option option" where
  "pci_find_cap h cap_type = cap_loop (pci_cfg h) cap_type (pci_cfg h ! 52 AND NOT 3)"

section \<open>The address register\<close>

definition pci_config_address_out :: "nat \<Rightarrow> pci_state io_handler" where
  "pci_config_address_out sz port data s =
     bind_outcome (memcpy (pci_config_address_bits s) (unat (port - PCI_CONFIG_ADDRESS)) data sz) (\<lambda>b.
       Ret (s\<lparr>pci_config_address_bits := b\<rparr>, data, True))"

definition pci_config_address_in :: "nat \<Rightarrow> pci_state io_handler" where
  "pci_config_address_in sz port data s =
     (let off = unat (port - PCI_CONFIG_ADDRESS)
      in if off + sz \<le> length (pci_config_address_bits s)
         then bind_outcome (memcpy data 0 (drop off (pci_config_address_bits s)) sz) (\<lambda>d. Ret (s, d, True))
         else Undefined)"

definition pci_device_exists :: "u8 \<Rightarrow> u8 \<Rightarrow> u8 \<Rightarrow> pci_state \<Rightarrow> bool outcome" where
  "pci_device_exists bus dev fn s =
     bind_outcome (ioport__read32 (pci_config_address_bits s)) (\<lambda>w.
       Ret (bus_number w = bus \<and> function_number w = fn \<and>
         (case device__find_dev (pci_devs s) DEVICE_BUS_PCI dev of Inr (Some _) \<Rightarrow> True | _ \<Rightarrow> False)))"

section \<open>Configuration space accesses\<close>

type_synonym cfg_op = "u8 \<Rightarrow> u8 list \<Rightarrow> nat \<Rightarrow> dev_state \<Rightarrow> dev_state"

text \<open>\<^verbatim>\<open>bar = (offset - PCI_BAR_OFFSET(0)) / sizeof(u32)\<close>: a 64-bit subtraction that wraps below 16, cut to a \<^verbatim>\<open>u8\<close>.\<close>

definition bar_index :: "u8 \<Rightarrow> u8" where
  "bar_index offset = ucast ((ucast offset - 16 :: u64) div 4)"

definition cfg_store :: "u8 \<Rightarrow> u8 list \<Rightarrow> nat \<Rightarrow> pci_device_header \<Rightarrow> pci_device_header outcome" where
  "cfg_store offset data sz h =
     (let bs = hdr_bytes h; off = unat offset; bar = bar_index offset
      in if bytes_u32 (drop off bs) = 0 then Ret h
         else bind_outcome (if bar < 6 then bind_outcome (ioport__read32 data) (\<lambda>v. Ret (v = 0xFFFFFFFF)) else Ret False)
           (\<lambda>sizing. bind_outcome
              (if sizing then memcpy bs off (u32_bytes (pci_bar_size h ! unat bar)) 4 else memcpy bs off data sz)
              (\<lambda>bs. Ret (set_hdr_bytes bs h))))"

definition pci__config_wr :: "(nat \<Rightarrow> cfg_op option) \<Rightarrow> u32 \<Rightarrow> u8 list \<Rightarrow> nat \<Rightarrow> pci_state \<Rightarrow> pci_state outcome" where
  "pci__config_wr cfg_write addr data sz s =
     bind_outcome (pci_device_exists (bus_number addr) (device_number addr) 0 s) (\<lambda>ex.
       if \<not> ex then Ret s
       else case device__find_dev (pci_devs s) DEVICE_BUS_PCI (device_number addr) of
         Inr (Some d) \<Rightarrow>
           (let offset = ucast addr;
                ds = (case cfg_write (dh_data d) of None \<Rightarrow> pci_devs s | Some f \<Rightarrow> f offset data sz (pci_devs s))
            in bind_outcome (cfg_store offset data sz (pci_hdrs ds (dh_data d))) (\<lambda>h.
                 Ret (s\<lparr>pci_devs := ds\<lparr>pci_hdrs := (pci_hdrs ds)(dh_data d := h)\<rparr>\<rparr>)))
       | _ \<Rightarrow> Undefined)"

definition pci__config_rd ::
  "(nat \<Rightarrow> cfg_op option) \<Rightarrow> u32 \<Rightarrow> u8 list \<Rightarrow> nat \<Rightarrow> pci_state \<Rightarrow> (pci_state \<times> u8 list) outcome" where
  "pci__config_rd cfg_read addr data sz s =
     bind_outcome (pci_device_exists (bus_number addr) (device_number addr) 0 s) (\<lambda>ex.
       if ex then
         (case device__find_dev (pci_devs s) DEVICE_BUS_PCI (device_number addr) of
            Inr (Some d) \<Rightarrow>
              (let offset = ucast addr :: u8;
                   ds = (case cfg_read (dh_data d) of None \<Rightarrow> pci_devs s | Some f \<Rightarrow> f offset data sz (pci_devs s));
                   bs = drop (unat offset) (hdr_bytes (pci_hdrs ds (dh_data d)))
               in bind_outcome (memcpy data 0 bs sz) (\<lambda>data. Ret (s\<lparr>pci_devs := ds\<rparr>, data)))
          | _ \<Rightarrow> Undefined)
       else bind_outcome (memcpy data 0 (replicate sz 0xff) sz) (\<lambda>data. Ret (s, data)))"

definition pci_config_data_out :: "(nat \<Rightarrow> cfg_op option) \<Rightarrow> nat \<Rightarrow> pci_state io_handler" where
  "pci_config_data_out cfg_write sz port data s =
     bind_outcome (ioport__read32 (pci_config_address_bits s)) (\<lambda>w.
       bind_outcome (pci__config_wr cfg_write (set_reg_offset (port - PCI_CONFIG_DATA) w) data sz s) (\<lambda>s.
         Ret (s, data, True)))"

definition pci_config_data_in :: "(nat \<Rightarrow> cfg_op option) \<Rightarrow> nat \<Rightarrow> pci_state io_handler" where
  "pci_config_data_in cfg_read sz port data s =
     bind_outcome (ioport__read32 (pci_config_address_bits s)) (\<lambda>w.
       bind_outcome (pci__config_rd cfg_read (set_reg_offset (port - PCI_CONFIG_DATA) w) data sz s) (\<lambda>(s, d).
         Ret (s, d, True)))"

definition pci_config_mmio_access ::
  "(nat \<Rightarrow> cfg_op option) \<Rightarrow> (nat \<Rightarrow> cfg_op option) \<Rightarrow> pci_state mmio_handler" where
  "pci_config_mmio_access cfg_write cfg_read addr data len is_write ptr s =
     (let cfg_addr = set_enable_bit (ucast (addr - KVM_PCI_CFG_AREA))
      in if is_write \<noteq> 0
         then bind_outcome (pci__config_wr cfg_write cfg_addr data (unat len) s) (\<lambda>s. Ret (s, data))
         else pci__config_rd cfg_read cfg_addr data (unat len) s)"

definition pci__find_dev :: "u8 \<Rightarrow> dev_state \<Rightarrow> nat option" where
  "pci__find_dev dev_num ds =
     (case device__find_dev ds DEVICE_BUS_PCI dev_num of Inr (Some d) \<Rightarrow> Some (dh_data d) | _ \<Rightarrow> None)"

section \<open>Set-up and removal\<close>

definition pci_config_data_ops :: nat where "pci_config_data_ops = 5"
definition pci_config_address_ops :: nat where "pci_config_address_ops = 6"
definition pci_config_mmio_fn :: nat where "pci_config_mmio_fn = 1"

text \<open>The three flags say which of the allocations fail.\<close>

definition pci__init ::
  "bool \<Rightarrow> bool \<Rightarrow> bool \<Rightarrow> ioport_state \<Rightarrow> mmio_state \<Rightarrow> (ioport_state \<times> mmio_state \<times> int) outcome" where
  "pci__init oom1 oom2 oom3 io mm =
     bind_outcome (ioport__register oom1 PCI_CONFIG_DATA pci_config_data_ops 4 0 io) (\<lambda>(io, r).
       if r < 0 then Ret (io, mm, r)
       else bind_outcome (ioport__register oom2 PCI_CONFIG_ADDRESS pci_config_address_ops 4 0 io) (\<lambda>(io, r).
         if r < 0 then bind_outcome (ioport__unregister PCI_CONFIG_DATA io) (\<lambda>(io, _). Ret (io, mm, r))
         else bind_outcome (kvm__register_mmio oom3 (0, 0) KVM_PCI_CFG_AREA PCI_CFG_SIZE False pci_config_mmio_fn 0 mm) (\<lambda>(mm, r).
           if r < 0 then
             bind_outcome (ioport__unregister PCI_CONFIG_ADDRESS io) (\<lambda>(io, _).
               bind_outcome (ioport__unregister PCI_CONFIG_DATA io) (\<lambda>(io, _). Ret (io, mm, r)))
           else Ret (io, mm, 0))))"

definition pci__exit :: "ioport_state \<Rightarrow> (ioport_state \<times> int) outcome" where
  "pci__exit io =
     bind_outcome (ioport__unregister PCI_CONFIG_DATA io) (\<lambda>(io, _).
       bind_outcome (ioport__unregister PCI_CONFIG_ADDRESS io) (\<lambda>(io, _). Ret (io, 0)))"

section \<open>Lemmas\<close>

lemma bytes_u32_bytes: "bytes_u32 (u32_bytes v @ rest) = v"
proof (rule bit_word_eqI)
  fix n :: nat
  assume "n < LENGTH(32)"
  then show "bit (bytes_u32 (u32_bytes v @ rest)) n = bit v n"
    by (cases "n < 16"; cases "n < 24") (auto simp: bytes_u32_def u32_bytes_def bit_simps le_add_diff_inverse)
qed

lemma u32_bytes_length [simp]: "length (u32_bytes v) = 4"
  by (simp add: u32_bytes_def)

lemma bytes_length [simp]: "length (concat (map u32_bytes vs)) = 4 * length vs"
  by (induction vs) auto

definition hdr_ok :: "pci_device_header \<Rightarrow> bool" where
  "hdr_ok h \<longleftrightarrow> length (pci_cfg h) = PCI_DEV_CFG_SIZE \<and> length (pci_bar_size h) = 6"

lemma hdr_bytes_length: "hdr_ok h \<Longrightarrow> length (hdr_bytes h) = 280"
  by (simp add: hdr_ok_def hdr_bytes_def PCI_DEV_CFG_SIZE_def)

lemma drop_concat_u32: "i < length vs \<Longrightarrow> bytes_u32 (drop (4 * i) (concat (map u32_bytes vs))) = vs ! i"
proof (induction vs arbitrary: i)
  case (Cons v vs)
  then show ?case by (cases i) (auto simp: bytes_u32_bytes u32_bytes_length)
qed simp

lemma set_hdr_bytes_cfg:
  assumes "hdr_ok h" "length cfg = PCI_DEV_CFG_SIZE"
  shows "set_hdr_bytes (cfg @ concat (map u32_bytes (pci_bar_size h))) h = h\<lparr>pci_cfg := cfg\<rparr>"
proof -
  have "map (\<lambda>i. bytes_u32 (drop (4 * i) (concat (map u32_bytes (pci_bar_size h))))) [0..<6] = pci_bar_size h"
    by (rule nth_equalityI) (use assms(1) in \<open>auto simp: hdr_ok_def drop_concat_u32\<close>)
  with assms show ?thesis by (simp add: set_hdr_bytes_def)
qed

text \<open>A copy that stays inside the configuration space changes nothing else of the header.\<close>

lemma memcpy_cfg:
  assumes "hdr_ok h" "off + n \<le> PCI_DEV_CFG_SIZE" "n \<le> length src"
  shows "memcpy (hdr_bytes h) off src n =
     Ret ((take off (pci_cfg h) @ take n src @ drop (off + n) (pci_cfg h)) @ concat (map u32_bytes (pci_bar_size h)))"
  using assms by (simp add: memcpy_def hdr_bytes_def hdr_ok_def)

lemma cfg_store_cfg:
  assumes "hdr_ok h" "unat offset + n \<le> PCI_DEV_CFG_SIZE" "n \<le> length data" "4 \<le> length data"
    and "bytes_u32 (drop (unat offset) (hdr_bytes h)) \<noteq> 0" "\<not> (bar_index offset < 6 \<and> ioport__read32 data = Ret 0xFFFFFFFF)"
  shows "cfg_store offset data n h =
    Ret (h\<lparr>pci_cfg := take (unat offset) (pci_cfg h) @ take n data @ drop (unat offset + n) (pci_cfg h)\<rparr>)"
proof -
  obtain v where v: "ioport__read32 data = Ret v"
    using assms(4) by (auto simp: ioport__read32_def numeral_eq_Suc Suc_le_length_iff)
  have len: "length (take (unat offset) (pci_cfg h) @ take n data @ drop (unat offset + n) (pci_cfg h)) = PCI_DEV_CFG_SIZE"
    using assms(1-3) by (simp add: hdr_ok_def)
  show ?thesis
    using assms v by (auto simp: cfg_store_def Let_def memcpy_cfg set_hdr_bytes_cfg [OF assms(1) len, unfolded append_assoc])
qed

lemma cfg_store_sizing:
  assumes "hdr_ok h" "unat offset + 4 \<le> PCI_DEV_CFG_SIZE"
    and "bytes_u32 (drop (unat offset) (hdr_bytes h)) \<noteq> 0" "bar_index offset < 6" "ioport__read32 data = Ret 0xFFFFFFFF"
  shows "cfg_store offset data n h = Ret (h\<lparr>pci_cfg := take (unat offset) (pci_cfg h) @
     u32_bytes (pci_bar_size h ! unat (bar_index offset)) @ drop (unat offset + 4) (pci_cfg h)\<rparr>)"
proof -
  let ?b = "u32_bytes (pci_bar_size h ! unat (bar_index offset))"
  have len: "length (take (unat offset) (pci_cfg h) @ ?b @ drop (unat offset + 4) (pci_cfg h)) = PCI_DEV_CFG_SIZE"
    using assms(1,2) by (simp add: hdr_ok_def)
  have t: "take 4 ?b = ?b" by (simp add: u32_bytes_def)
  show ?thesis
    using assms t by (auto simp: cfg_store_def Let_def memcpy_cfg set_hdr_bytes_cfg [OF assms(1) len, unfolded append_assoc])
qed

text \<open>The device the latched register and the access agree on.\<close>

definition cfg_target :: "u32 \<Rightarrow> pci_state \<Rightarrow> device_header option" where
  "cfg_target addr s =
     (case ioport__read32 (pci_config_address_bits s) of
        Ret w \<Rightarrow>
          (if bus_number w = bus_number addr \<and> function_number w = 0
           then (case device__find_dev (pci_devs s) DEVICE_BUS_PCI (device_number addr) of Inr r \<Rightarrow> r | _ \<Rightarrow> None)
           else None)
      | _ \<Rightarrow> None)"

lemma read32_total: "4 \<le> length data \<Longrightarrow> \<exists>v. ioport__read32 data = Ret v"
  by (auto simp: ioport__read32_def numeral_eq_Suc Suc_le_length_iff)

lemma config_wr_eq:
  assumes "length (pci_config_address_bits s) = 4"
  shows "pci__config_wr ops addr data n s =
    (case cfg_target addr s of
       None \<Rightarrow> Ret s
     | Some d \<Rightarrow>
        (let ds = (case ops (dh_data d) of None \<Rightarrow> pci_devs s | Some f \<Rightarrow> f (ucast addr) data n (pci_devs s))
         in bind_outcome (cfg_store (ucast addr) data n (pci_hdrs ds (dh_data d))) (\<lambda>h.
              Ret (s\<lparr>pci_devs := ds\<lparr>pci_hdrs := (pci_hdrs ds)(dh_data d := h)\<rparr>\<rparr>))))"
  using read32_total [of "pci_config_address_bits s"] assms
  by (auto simp: pci__config_wr_def cfg_target_def pci_device_exists_def Let_def split: sum.splits option.splits)

lemma config_rd_eq:
  assumes "length (pci_config_address_bits s) = 4"
  shows "pci__config_rd ops addr data n s =
    (case cfg_target addr s of
       None \<Rightarrow> bind_outcome (memcpy data 0 (replicate n 0xff) n) (\<lambda>data. Ret (s, data))
     | Some d \<Rightarrow>
        (let ds = (case ops (dh_data d) of None \<Rightarrow> pci_devs s | Some f \<Rightarrow> f (ucast addr) data n (pci_devs s))
         in bind_outcome (memcpy data 0 (drop (unat (ucast addr :: u8)) (hdr_bytes (pci_hdrs ds (dh_data d)))) n) (\<lambda>data.
              Ret (s\<lparr>pci_devs := ds\<rparr>, data))))"
  using read32_total [of "pci_config_address_bits s"] assms
  by (auto simp: pci__config_rd_def cfg_target_def pci_device_exists_def Let_def split: sum.splits option.splits)

lemma find_dev_hdrs [simp]: "device__find_dev (ds\<lparr>pci_hdrs := h\<rparr>) b n = device__find_dev ds b n"
  by (simp add: device__find_dev_def)

lemma cfg_target_hdrs [simp]: "cfg_target addr (s\<lparr>pci_devs := (pci_devs s)\<lparr>pci_hdrs := h\<rparr>\<rparr>) = cfg_target addr s"
  by (cases "ioport__read32 (pci_config_address_bits s)") (simp_all add: cfg_target_def)

lemma bytes_u32_low: "ucast (bytes_u32 (b0 # b1 # b2 # b3 # rest)) = b0"
  by (rule bit_word_eqI) (auto simp: bytes_u32_def bit_simps)

lemma bytes_u32_nonzero: "b0 \<noteq> 0 \<Longrightarrow> bytes_u32 (b0 # b1 # b2 # b3 # rest) \<noteq> 0"
  using bytes_u32_low [of b0 b1 b2 b3 rest] by (metis unsigned_0)

lemma bar_index_bar: "i < 6 \<Longrightarrow> unat offset = 16 + 4 * i \<Longrightarrow> unat (bar_index offset) = i"
proof -
  assume i: "i < 6" and o: "unat offset = 16 + 4 * i"
  then have "offset = of_nat (16 + 4 * i)" by (metis of_nat_unat ucast_id)
  moreover have "i = 0 \<or> i = 1 \<or> i = 2 \<or> i = 3 \<or> i = 4 \<or> i = 5" using i by arith
  ultimately show ?thesis by (auto simp: bar_index_def)
qed

section \<open>Properties\<close>

text \<open>
  Configuration space is memory, up to the two rules of the code. For a device with no hooks of
  its own, a write of up to four bytes inside the 256 bytes over a word that is not zero, which is not an
  all-ones write to a BAR, is read back unchanged by a read of the same place, and no other
  byte, private field or device changes.
\<close>

theorem pci_config_write_read:
  assumes "length (pci_config_address_bits s) = 4" "cfg_target addr s = Some d"
    and "hdr_ok (pci_hdrs (pci_devs s) (dh_data d))" "h = pci_hdrs (pci_devs s) (dh_data d)" "off = unat (ucast addr :: u8)"
    and "off + n \<le> PCI_DEV_CFG_SIZE" "n \<le> length data" "4 \<le> length data" "n \<le> length buf"
    and "bytes_u32 (drop off (hdr_bytes h)) \<noteq> 0" "\<not> (bar_index (ucast addr) < 6 \<and> ioport__read32 data = Ret 0xFFFFFFFF)"
    and "ops (dh_data d) = None"
  shows "\<exists>s'. pci__config_wr ops addr data n s = Ret s' \<and>
    pci__config_rd ops addr buf n s' = Ret (s', take n data @ drop n buf) \<and>
    pci_hdrs (pci_devs s') = (pci_hdrs (pci_devs s))(dh_data d :=
      h\<lparr>pci_cfg := take off (pci_cfg h) @ take n data @ drop (off + n) (pci_cfg h)\<rparr>)"
proof -
  let ?cfg = "take off (pci_cfg h) @ take n data @ drop (off + n) (pci_cfg h)"
  let ?s = "s\<lparr>pci_devs := (pci_devs s)\<lparr>pci_hdrs := (pci_hdrs (pci_devs s))(dh_data d := h\<lparr>pci_cfg := ?cfg\<rparr>)\<rparr>\<rparr>"
  have len: "length (pci_cfg h) = PCI_DEV_CFG_SIZE" using assms(3,4) by (simp add: hdr_ok_def)
  have "cfg_store (ucast addr) data n h = Ret (h\<lparr>pci_cfg := ?cfg\<rparr>)"
    using cfg_store_cfg [OF assms(3) [folded assms(4)], of "ucast addr" n data] assms by simp
  then have "pci__config_wr ops addr data n s = Ret ?s"
    using assms(2,12) by (simp add: config_wr_eq [OF assms(1)] assms(4) [symmetric] Let_def)
  moreover have "take n (drop off (hdr_bytes (h\<lparr>pci_cfg := ?cfg\<rparr>))) = take n data"
    using len assms(6,7) by (simp add: hdr_bytes_def)
  moreover have "n \<le> length (drop off (hdr_bytes (h\<lparr>pci_cfg := ?cfg\<rparr>)))"
    using len assms(6,7) by (simp add: hdr_bytes_def)
  ultimately show ?thesis
    using assms(1,2,5,9,12) by (simp add: config_rd_eq memcpy_def Let_def)
qed

text \<open>
  The BAR sizing protocol: an all-ones write to a BAR that holds an address makes the next read
  of that BAR return the device's size mask for it; the private sizes do not change.
\<close>

theorem pci_bar_sizing:
  assumes "length (pci_config_address_bits s) = 4" "cfg_target addr s = Some d"
    and "hdr_ok (pci_hdrs (pci_devs s) (dh_data d))" "h = pci_hdrs (pci_devs s) (dh_data d)"
    and "i < 6" "unat (ucast addr :: u8) = 16 + 4 * i" "bytes_u32 (drop (16 + 4 * i) (hdr_bytes h)) \<noteq> 0"
    and "data = [0xff, 0xff, 0xff, 0xff]" "ops (dh_data d) = None"
  shows "\<exists>s'. pci__config_wr ops addr data 4 s = Ret s' \<and>
    pci__config_rd ops addr [b0, b1, b2, b3] 4 s' = Ret (s', u32_bytes (pci_bar_size h ! i)) \<and>
    pci_bar_size (pci_hdrs (pci_devs s') (dh_data d)) = pci_bar_size h"
proof -
  let ?cfg = "take (16 + 4 * i) (pci_cfg h) @ u32_bytes (pci_bar_size h ! i) @ drop (16 + 4 * i + 4) (pci_cfg h)"
  let ?s = "s\<lparr>pci_devs := (pci_devs s)\<lparr>pci_hdrs := (pci_hdrs (pci_devs s))(dh_data d := h\<lparr>pci_cfg := ?cfg\<rparr>)\<rparr>\<rparr>"
  have len: "length (pci_cfg h) = PCI_DEV_CFG_SIZE" using assms(3,4) by (simp add: hdr_ok_def)
  have r: "ioport__read32 data = Ret 0xFFFFFFFF" by (simp add: assms(8) ioport__read32_def)
  have bar: "unat (bar_index (ucast addr)) = i" by (rule bar_index_bar [OF assms(5,6)])
  then have bar6: "bar_index (ucast addr) < 6" using assms(5) by (simp add: word_less_nat_alt)
  have "cfg_store (ucast addr) data 4 h = Ret (h\<lparr>pci_cfg := ?cfg\<rparr>)"
    using cfg_store_sizing [OF assms(3) [folded assms(4)], of "ucast addr" data 4] assms(5-7) bar bar6 r
    by (simp add: PCI_DEV_CFG_SIZE_def)
  then have "pci__config_wr ops addr data 4 s = Ret ?s"
    using assms(2,9) by (simp add: config_wr_eq [OF assms(1)] assms(4) [symmetric] Let_def)
  moreover have "take 4 (drop (16 + 4 * i) (hdr_bytes (h\<lparr>pci_cfg := ?cfg\<rparr>))) = u32_bytes (pci_bar_size h ! i)"
    using len assms(5) by (simp add: hdr_bytes_def PCI_DEV_CFG_SIZE_def)
  moreover have "4 \<le> length (drop (16 + 4 * i) (hdr_bytes (h\<lparr>pci_cfg := ?cfg\<rparr>)))"
    using len assms(5) by (simp add: hdr_bytes_def PCI_DEV_CFG_SIZE_def)
  ultimately show ?thesis
    using assms(1,2,6,9) by (simp add: config_rd_eq memcpy_def Let_def)
qed

definition sample_pci :: pci_state where
  "sample_pci = pci_state_init \<lparr>device_trees =
       [\<lparr>bus_root = RBNode RB_BLACK RBNull \<lparr>dh_addr = 1, dh_bus_type = 0, dh_data = 7, dh_dev_num = 0\<rparr> RBNull, bus_dev_num = 1\<rparr>],
     dev_irq = irq_state_init,
     pci_hdrs = (\<lambda>_. \<lparr>pci_cfg = replicate 256 1, pci_bar_size = [0x400, 0, 0, 0, 0, 0], pci_irq_type = 0\<rparr>),
     mmio_irq = (\<lambda>_. 0)\<rparr>"

lemma sample_pci_facts:
  "length (pci_config_address_bits sample_pci) = 4"
  "cfg_target 0x10 sample_pci = Some \<lparr>dh_addr = 1, dh_bus_type = 0, dh_data = 7, dh_dev_num = 0\<rparr>"
  "hdr_ok (pci_hdrs (pci_devs sample_pci) 7)"
  "bytes_u32 (drop 16 (hdr_bytes (pci_hdrs (pci_devs sample_pci) 7))) \<noteq> 0"
  "pci_bar_size (pci_hdrs (pci_devs sample_pci) 7) = [0x400, 0, 0, 0, 0, 0]"
proof -
  have r: "replicate 4 (0 :: u8) = [0, 0, 0, 0]" "replicate 4 (1 :: u8) = [1, 1, 1, 1]"
    by (simp_all add: numeral_eq_Suc)
  have r240: "replicate 240 (1 :: u8) = [1, 1, 1, 1] @ replicate 236 1"
    using replicate_add [of 4 236 "1 :: u8"] r by simp
  show "length (pci_config_address_bits sample_pci) = 4" "hdr_ok (pci_hdrs (pci_devs sample_pci) 7)"
    "pci_bar_size (pci_hdrs (pci_devs sample_pci) 7) = [0x400, 0, 0, 0, 0, 0]"
    by (simp_all add: sample_pci_def pci_state_init_def hdr_ok_def PCI_DEV_CFG_SIZE_def)
  show "cfg_target 0x10 sample_pci = Some \<lparr>dh_addr = 1, dh_bus_type = 0, dh_data = 7, dh_dev_num = 0\<rparr>"
    by (simp add: sample_pci_def pci_state_init_def cfg_target_def ioport__read32_def bus_number_def function_number_def
      device_number_def device__find_dev_def bus_defs rb_search_def key_dir_def r)
  show "bytes_u32 (drop 16 (hdr_bytes (pci_hdrs (pci_devs sample_pci) 7))) \<noteq> 0"
    by (simp add: sample_pci_def pci_state_init_def hdr_bytes_def r240 bytes_u32_def)
qed

theorem pci_config_write_read_witness:
  "\<exists>s'. pci__config_wr (\<lambda>_. None) 0x10 [0, 0, 0, 0xd2] 4 sample_pci = Ret s' \<and>
     pci__config_rd (\<lambda>_. None) 0x10 [9, 9, 9, 9] 4 s' = Ret (s', [0, 0, 0, 0xd2])"
  using pci_config_write_read [OF sample_pci_facts(1,2), of _ 16 4 "[0, 0, 0, 0xd2]" "[9, 9, 9, 9]" "\<lambda>_. None"]
    sample_pci_facts(3,4)
  by (simp add: PCI_DEV_CFG_SIZE_def ioport__read32_def) blast

theorem pci_bar_sizing_witness:
  "\<exists>s'. pci__config_wr (\<lambda>_. None) 0x10 [0xff, 0xff, 0xff, 0xff] 4 sample_pci = Ret s' \<and>
     pci__config_rd (\<lambda>_. None) 0x10 [9, 9, 9, 9] 4 s' = Ret (s', [0, 4, 0, 0])"
proof -
  have "\<exists>s'. pci__config_wr (\<lambda>_. None) 0x10 [0xff, 0xff, 0xff, 0xff] 4 sample_pci = Ret s' \<and>
     pci__config_rd (\<lambda>_. None) 0x10 [9, 9, 9, 9] 4 s' = Ret (s', u32_bytes (pci_bar_size (pci_hdrs (pci_devs sample_pci) 7) ! 0)) \<and>
     pci_bar_size (pci_hdrs (pci_devs s') 7) = pci_bar_size (pci_hdrs (pci_devs sample_pci) 7)"
    using pci_bar_sizing [OF sample_pci_facts(1,2) _ refl, of 0 "[0xff, 0xff, 0xff, 0xff]" "\<lambda>_. None" 9 9 9 9] sample_pci_facts(3,4)
    by simp
  moreover have "u32_bytes (pci_bar_size (pci_hdrs (pci_devs sample_pci) 7) ! 0) = [0, 4, 0, 0]"
    by (simp add: sample_pci_facts(5) u32_bytes_def)
  ultimately show ?thesis by auto
qed

text \<open>
  Neither port range is checked against the size of the access: a four-byte output to any port of
  the address register but the first writes past the register's four bytes, and a configuration write at
  one of the last three offsets runs into the private BAR sizes, which it changes.
\<close>

theorem pci_access_overruns:
  assumes "length (pci_config_address_bits s) = 4" "0 < k" "k < 4"
  shows "pci_config_address_out 4 (PCI_CONFIG_ADDRESS + of_nat k) [b0, b1, b2, b3] s = Undefined \<and>
    (hdr_ok h \<longrightarrow> pci_cfg h ! 255 \<noteq> 0 \<longrightarrow>
      (\<exists>h'. cfg_store 0xff [b0, b1, b2, b3] 4 h = Ret h' \<and>
         pci_bar_size h' ! 0 = bytes_u32 [b1, b2, b3, ucast (drop_bit 24 (pci_bar_size h ! 0))]))"
proof (intro conjI impI)
  have "unat (of_nat k :: u16) = k" using assms(3) by (simp add: unat_of_nat take_bit_nat_eq_self)
  then show "pci_config_address_out 4 (PCI_CONFIG_ADDRESS + of_nat k) [b0, b1, b2, b3] s = Undefined"
    using assms by (simp add: pci_config_address_out_def memcpy_def)
next
  assume ok: "hdr_ok h" and nz: "pci_cfg h ! 255 \<noteq> 0"
  obtain v vs where bars: "pci_bar_size h = v # vs" "length vs = 5"
    using ok by (cases "pci_bar_size h") (auto simp: hdr_ok_def)
  have last: "drop 255 (pci_cfg h) = [pci_cfg h ! 255]"
    using ok Cons_nth_drop_Suc [of 255 "pci_cfg h"] by (simp add: hdr_ok_def PCI_DEV_CFG_SIZE_def)
  let ?c = "concat (map u32_bytes vs)"
  have bytes: "drop 255 (hdr_bytes h) = pci_cfg h ! 255 # u32_bytes v @ ?c" "take 255 (hdr_bytes h) = take 255 (pci_cfg h)"
    using ok last bars by (simp_all add: hdr_bytes_def hdr_ok_def PCI_DEV_CFG_SIZE_def)
  have d259: "drop 259 (hdr_bytes h) = ucast (drop_bit 24 v) # ?c"
    using arg_cong [OF bytes(1), of "drop 4"] by (simp add: u32_bytes_def)
  have "bar_index 0xff = 59" by (simp add: bar_index_def)
  moreover have "bytes_u32 (drop 255 (hdr_bytes h)) \<noteq> 0"
    using nz by (simp add: bytes u32_bytes_def bytes_u32_nonzero)
  moreover have "memcpy (hdr_bytes h) 255 [b0, b1, b2, b3] 4 =
      Ret (take 255 (pci_cfg h) @ [b0, b1, b2, b3] @ ucast (drop_bit 24 v) # ?c)"
    using hdr_bytes_length [OF ok] bytes d259 by (simp add: memcpy_def)
  ultimately have "cfg_store 0xff [b0, b1, b2, b3] 4 h = Ret (set_hdr_bytes (take 255 (pci_cfg h) @ [b0, b1, b2, b3] @ ucast (drop_bit 24 v) # ?c) h)"
    by (simp add: cfg_store_def)
  moreover have "drop 256 (take 255 (pci_cfg h) @ [b0, b1, b2, b3] @ ucast (drop_bit 24 v) # ?c) = [b1, b2, b3] @ ucast (drop_bit 24 v) # ?c"
    using ok by (simp add: hdr_ok_def PCI_DEV_CFG_SIZE_def)
  ultimately show "\<exists>h'. cfg_store 0xff [b0, b1, b2, b3] 4 h = Ret h' \<and>
         pci_bar_size h' ! 0 = bytes_u32 [b1, b2, b3, ucast (drop_bit 24 (pci_bar_size h ! 0))]"
    using bars by (simp add: set_hdr_bytes_def PCI_DEV_CFG_SIZE_def bytes_u32_def)
qed

theorem pci_access_overruns_witness:
  "pci_config_address_out 4 0xcfb [1, 2, 3, 4] (pci_state_init (dev_state_init (\<lambda>_. \<lparr>pci_cfg = [], pci_bar_size = [], pci_irq_type = 0\<rparr>)))
     = Undefined"
  using pci_access_overruns [of "pci_state_init (dev_state_init (\<lambda>_. \<lparr>pci_cfg = [], pci_bar_size = [], pci_irq_type = 0\<rparr>))" 3 1 2 3 4]
  by (simp add: pci_state_init_def PCI_CONFIG_ADDRESS_def)

text \<open>
  The device-exists test compares the bus and function of the register latched through port
  0xcf8, also for an access through the memory-mapped area: a memory-mapped read of an existing device
  returns all ones whenever the latched register names another bus or a function other than 0.
\<close>

theorem pci_mmio_depends_on_latch:
  assumes "ioport__read32 (pci_config_address_bits s) = Ret w" "length (pci_config_address_bits s) = 4"
    and "bus_number w \<noteq> bus_number (set_enable_bit (ucast (addr - KVM_PCI_CFG_AREA))) \<or> function_number w \<noteq> 0"
    and "length data = unat len"
  shows "pci_config_mmio_access cfg_write cfg_read addr data len 0 ptr s = Ret (s, replicate (unat len) 0xff)"
proof -
  have "cfg_target (set_enable_bit (ucast (addr - KVM_PCI_CFG_AREA))) s = None"
    using assms(1,3) by (auto simp: cfg_target_def)
  then show ?thesis using assms(4) by (simp add: pci_config_mmio_access_def config_rd_eq [OF assms(2)] memcpy_def)
qed

theorem pci_mmio_depends_on_latch_witness:
  "pci_config_mmio_access (\<lambda>_. None) (\<lambda>_. None) (KVM_PCI_CFG_AREA + 0x10) [0, 0, 0, 0] 4 0 0
     (sample_pci\<lparr>pci_config_address_bits := [0, 1, 0, 0x80]\<rparr>) =
   Ret (sample_pci\<lparr>pci_config_address_bits := [0, 1, 0, 0x80]\<rparr>, [0xff, 0xff, 0xff, 0xff])"
proof -
  have r: "ioport__read32 (pci_config_address_bits (sample_pci\<lparr>pci_config_address_bits := [0, 1, 0, 0x80]\<rparr>)) = Ret 0x80000100"
    by (simp add: ioport__read32_def)
  have f: "function_number 0x80000100 \<noteq> 0" by (simp add: function_number_def)
  have "replicate 4 (0xff :: u8) = [0xff, 0xff, 0xff, 0xff]" by (simp add: numeral_eq_Suc)
  with pci_mmio_depends_on_latch [OF r, of "KVM_PCI_CFG_AREA + 0x10" "[0, 0, 0, 0]" 4 "\<lambda>_. None" "\<lambda>_. None" 0] f
  show ?thesis by simp
qed

section \<open>Address blocks\<close>

lemma unat_exp32: "k < 32 \<Longrightarrow> unat (2 ^ k :: u32) = 2 ^ k"
proof -
  assume "k < 32"
  then have "(2 :: nat) ^ k < 2 ^ 32" by (rule power_strict_increasing) simp
  then show ?thesis using unat_of_nat [of "2 ^ k", where ?'a = 32] by (simp add: take_bit_eq_mod)
qed

lemma ALIGN_pow2:
  assumes "k < 32" "unat x + 2 ^ k \<le> 2 ^ 32"
  shows "unat (ALIGN x (2 ^ k)) = (unat x + (2 ^ k - 1)) div 2 ^ k * 2 ^ k"
proof -
  have mask: "(2 ^ k - 1 :: u32) = mask k" by (simp add: mask_eq_exp_minus_1)
  have one: "unat (mask k :: u32) = 2 ^ k - 1"
    using assms(1) unat_exp32 [of k] by (simp add: mask_eq_exp_minus_1 unat_sub_if' word_le_nat_alt)
  have "(1 :: nat) \<le> 2 ^ k" by simp
  then have lt: "unat x + (2 ^ k - 1) < 2 ^ 32" using assms(2) by linarith
  then have sum: "unat (x + mask k) = unat x + (2 ^ k - 1)"
    using unat_add_lem [of x "mask k"] one lt by simp
  have "ALIGN x (2 ^ k) = push_bit k (drop_bit k (x + mask k))"
    unfolding ALIGN_def mask by (rule bit_word_eqI) (auto simp: bit_simps)
  then have "unat (ALIGN x (2 ^ k)) = take_bit LENGTH(32) (push_bit k (drop_bit k (take_bit LENGTH(32) (unat x + (2 ^ k - 1)))))"
    by (simp only: unsigned_push_bit_eq unsigned_drop_bit_eq sum)
  moreover have "take_bit LENGTH(32) (unat x + (2 ^ k - 1)) = unat x + (2 ^ k - 1)"
    by (rule take_bit_nat_eq_self) (use lt in simp)
  ultimately have "unat (ALIGN x (2 ^ k)) = take_bit LENGTH(32) ((unat x + (2 ^ k - 1)) div 2 ^ k * 2 ^ k)"
    by (simp only: push_bit_eq_mult drop_bit_eq_div)
  moreover have "(unat x + (2 ^ k - 1)) div 2 ^ k * 2 ^ k < 2 ^ 32"
    using assms(2) one_le_power [of "2 :: nat" k] div_times_less_eq_dividend [of "unat x + (2 ^ k - 1)" "2 ^ k"] by linarith
  ultimately show ?thesis by (simp only: take_bit_nat_eq_self) (simp add: take_bit_eq_mod)
qed

text \<open>
  An address block of a power-of-two size is naturally aligned, lies at or above
  every block handed out before and below every later one, as long as the allocator does not reach
  the end of the 32-bit space.
\<close>

theorem pci_get_io_space_block_aligned:
  assumes "k < 32" "unat (io_space_blocks s) + 2 * 2 ^ k \<le> 2 ^ 32"
    and "pci_get_io_space_block (2 ^ k) s = (s', block)"
  shows "2 ^ k dvd unat block \<and> unat (io_space_blocks s) \<le> unat block \<and>
    unat (io_space_blocks s') mod 2 ^ 32 = (unat block + 2 ^ k) mod 2 ^ 32 \<and> unat block + 2 ^ k \<le> 2 ^ 32"
proof -
  let ?x = "unat (io_space_blocks s)"
  let ?a = "(?x + (2 ^ k - 1)) div 2 ^ k * 2 ^ k"
  have b: "unat block = ?a"
    using ALIGN_pow2 [OF assms(1), of "io_space_blocks s"] assms(2,3) by (auto simp: pci_get_io_space_block_def Let_def)
  have pos: "(1 :: nat) \<le> 2 ^ k" by simp
  have "?a = (?x + (2 ^ k - 1)) - (?x + (2 ^ k - 1)) mod 2 ^ k" by (rule minus_mod_eq_div_mult [symmetric])
  moreover have "(?x + (2 ^ k - 1)) mod 2 ^ k < 2 ^ k" by simp
  ultimately have le: "?x \<le> ?a" "?a \<le> ?x + (2 ^ k - 1)" by linarith+
  have "io_space_blocks s' = block + 2 ^ k" using assms(3) by (auto simp: pci_get_io_space_block_def Let_def)
  then have "unat (io_space_blocks s') = (unat block + 2 ^ k) mod 2 ^ 32"
    using assms(1) by (simp add: unat_word_ariths unat_exp32)
  moreover have "?a + 2 ^ k \<le> 2 ^ 32" using le(2) assms(2) pos by linarith
  ultimately show ?thesis using b le(1) by auto
qed

theorem pci_get_io_space_block_aligned_witness:
  "0x400 dvd unat (snd (pci_get_io_space_block 0x400 (sample_pci\<lparr>io_space_blocks := 0xd2000004\<rparr>)))"
  using pci_get_io_space_block_aligned [of 10 "sample_pci\<lparr>io_space_blocks := 0xd2000004\<rparr>"] by (cases "pci_get_io_space_block 0x400 (sample_pci\<lparr>io_space_blocks := 0xd2000004\<rparr>)") simp

section \<open>Capability list\<close>

text \<open>A list of positions that is the chain of a configuration space from \<open>pos\<close> to the terminating zero.\<close>

fun cap_chain :: "u8 list \<Rightarrow> u8 \<Rightarrow> u8 list \<Rightarrow> bool" where
  "cap_chain cfg pos [] \<longleftrightarrow> pos = 0"
| "cap_chain cfg pos (p # ps) \<longleftrightarrow> pos = p \<and> p \<noteq> 0 \<and> cap_chain cfg (cfg ! (unat p + 1) AND NOT 3) ps"

text \<open>On a list that ends, the walk terminates with the first capability of the type asked for, or none.\<close>

lemma cap_loop_chain: "cap_chain cfg pos ps \<Longrightarrow> cap_loop cfg t pos = Some (find (\<lambda>p. cfg ! unat p = t) ps)"
proof (induction ps arbitrary: pos)
  case Nil
  then show ?case by (subst cap_loop.simps) simp
next
  case (Cons p ps)
  then show ?case by (subst cap_loop.simps) simp
qed

lemma pci_find_cap_first:
  "cap_chain (pci_cfg h) (pci_cfg h ! 52 AND NOT 3) ps \<Longrightarrow>
   pci_find_cap h t = Some (find (\<lambda>p. pci_cfg h ! unat p = t) ps)"
  by (simp add: pci_find_cap_def cap_loop_chain)

end
