(* ===== verification/QcowCache.thy ===== *)
theory QcowCache
  imports RBTree
begin

text \<open>
  The caches of \<^verbatim>\<open>disk/qcow.c\<close>: level-2 tables and refcount blocks are both kept in a red-black
  tree by file offset and on a least-recently-used list of at most 32 nodes. The code has the cache
  operations twice, once for each type; the definitions here are that code over the part of the two
  structures they share. A node is its offset and the address of its table; the tables
  are in a store, so that a table reached through the cache and changed is changed for every user.

  The locale \<open>read_through\<close> is what the clients rely on: a lookup returns what was added last, and what
  is cached agrees with what is on disk.
\<close>

section \<open>Cache nodes\<close>

record qnode =
  qn_offset :: u64
  qn_addr :: nat

record qcache =
  qc_root :: "qnode rb_node"
  qc_lru :: "qnode list"
  qc_nr :: nat

definition MAX_CACHE_NODES :: nat where "MAX_CACHE_NODES = 32"

definition qcache_empty :: qcache where
  "qcache_empty = \<lparr>qc_root = RBNull, qc_lru = [], qc_nr = 0\<rparr>"

text \<open>An offset that is already there is left as it is, and the result is still success.\<close>

definition table_insert :: "qnode rb_node \<Rightarrow> qnode \<Rightarrow> qnode rb_node outcome" where
  "table_insert root new =
     (case rb_insert_by (key_dir qn_offset (qn_offset new)) new root of
        Inserted t \<Rightarrow> Ret t | Occupied _ \<Rightarrow> Ret root | Crashed \<Rightarrow> Undefined)"

definition table_lookup :: "qnode rb_node \<Rightarrow> u64 \<Rightarrow> qnode option" where
  "table_lookup root offset = rb_search (key_dir qn_offset offset) root"

text \<open>Taking the head of the list out when the cache is full; the second result is the node that is freed.\<close>

definition cache_evict :: "qcache \<Rightarrow> (qcache \<times> qnode option) outcome" where
  "cache_evict c =
     (if qc_nr c = MAX_CACHE_NODES then
        (case qc_lru c of
           [] \<Rightarrow> Undefined
         | lru # rest \<Rightarrow>
             (case rb_erase_entry (\<lambda>n. n = lru) (qc_root c) of
                None \<Rightarrow> Undefined
              | Some t \<Rightarrow> Ret (c\<lparr>qc_root := t, qc_lru := rest, qc_nr := qc_nr c - 1\<rparr>, Some lru)))
      else Ret (c, None))"

text \<open>Linking a node into the list a second time breaks the list: \<open>Undefined\<close>.\<close>

definition cache_table :: "qnode \<Rightarrow> qcache \<Rightarrow> (qcache \<times> qnode option) outcome" where
  "cache_table new c =
     bind_outcome (cache_evict c) (\<lambda>(c, freed).
       bind_outcome (table_insert (qc_root c) new) (\<lambda>t.
         if new \<in> set (qc_lru c) then Undefined
         else Ret (c\<lparr>qc_root := t, qc_lru := qc_lru c @ [new], qc_nr := qc_nr c + 1\<rparr>, freed)))"

definition table_search :: "u64 \<Rightarrow> qcache \<Rightarrow> qcache \<times> qnode option" where
  "table_search offset c =
     (case table_lookup (qc_root c) offset of
        None \<Rightarrow> (c, None)
      | Some n \<Rightarrow> (c\<lparr>qc_lru := remove1 n (qc_lru c) @ [n]\<rparr>, Some n))"

text \<open>\<^verbatim>\<open>list_for_each_safe\<close> with each node taken off the list and out of the tree, and freed.\<close>

fun free_cache_loop :: "qnode list \<Rightarrow> qnode rb_node \<Rightarrow> qnode rb_node outcome" where
  "free_cache_loop [] root = Ret root"
| "free_cache_loop (n # ns) root =
     (case rb_erase_entry (\<lambda>m. m = n) root of None \<Rightarrow> Undefined | Some t \<Rightarrow> free_cache_loop ns t)"

definition table_free_cache :: "qcache \<Rightarrow> qcache outcome" where
  "table_free_cache c =
     bind_outcome (free_cache_loop (qc_lru c) (qc_root c)) (\<lambda>t. Ret (c\<lparr>qc_root := t, qc_lru := []\<rparr>))"

section \<open>Reading through the cache\<close>

record 'v qstore =
  qs_cache :: qcache
  qs_tables :: "nat \<Rightarrow> 'v option"
  qs_next :: nat

definition qstore_empty :: "'v qstore" where
  "qstore_empty = \<lparr>qs_cache = qcache_empty, qs_tables = Map.empty, qs_next = 0\<rparr>"

definition free_table :: "qnode option \<Rightarrow> (nat \<Rightarrow> 'v option) \<Rightarrow> nat \<Rightarrow> 'v option" where
  "free_table freed tables = (case freed of None \<Rightarrow> tables | Some n \<Rightarrow> tables(qn_addr n := None))"

text \<open>
  A table that is not cached is allocated, read and cached. \<open>load\<close> is what the read from disk gives,
  \<open>None\<close> for a failed read; \<open>oom\<close> whether the allocation fails.
\<close>

definition read_table :: "bool \<Rightarrow> (u64 \<Rightarrow> 'v option) \<Rightarrow> u64 \<Rightarrow> 'v qstore \<Rightarrow> ('v qstore \<times> nat option) outcome" where
  "read_table oom load offset s =
     (case table_search offset (qs_cache s) of
        (c, Some n) \<Rightarrow> Ret (s\<lparr>qs_cache := c\<rparr>, Some (qn_addr n))
      | (c, None) \<Rightarrow>
          if oom then Ret (s, None)
          else (case load offset of
                  None \<Rightarrow> Ret (s\<lparr>qs_next := qs_next s + 1\<rparr>, None)
                | Some v \<Rightarrow>
                    bind_outcome (cache_table \<lparr>qn_offset = offset, qn_addr = qs_next s\<rparr> c) (\<lambda>(c, freed).
                      Ret (s\<lparr>qs_cache := c, qs_next := qs_next s + 1,
                             qs_tables := (free_table freed (qs_tables s))(qs_next s \<mapsto> v)\<rparr>, Some (qs_next s)))))"

section \<open>Invariant\<close>

definition cache_inv :: "qcache \<Rightarrow> bool" where
  "cache_inv c \<longleftrightarrow> key_inv qn_offset (qc_root c) \<and> set (qc_lru c) = set (inorder (qc_root c)) \<and>
     distinct (map qn_offset (qc_lru c)) \<and> qc_nr c = length (qc_lru c) \<and> qc_nr c \<le> MAX_CACHE_NODES"

definition cached :: "qcache \<Rightarrow> u64 \<Rightarrow> qnode option" where
  "cached c offset = find (\<lambda>n. qn_offset n = offset) (qc_lru c)"

lemma cache_inv_empty: "cache_inv qcache_empty"
  by (simp add: cache_inv_def qcache_empty_def)

lemma cached_Some: "cache_inv c \<Longrightarrow> cached c off = Some n \<longleftrightarrow> n \<in> set (qc_lru c) \<and> qn_offset n = off"
proof -
  assume "cache_inv c"
  then have d: "distinct (map qn_offset (qc_lru c))" by (simp add: cache_inv_def)
  have "find (\<lambda>m. qn_offset m = off) xs = Some n \<longleftrightarrow> n \<in> set xs \<and> qn_offset n = off"
    if "distinct (map qn_offset xs)" for xs
    using that by (induction xs) (auto simp: rev_image_eqI)
  with d show ?thesis by (simp add: cached_def)
qed

lemma cached_None: "cached c off = None \<longleftrightarrow> (\<forall>n \<in> set (qc_lru c). qn_offset n \<noteq> off)"
  by (auto simp: cached_def find_None_iff)

lemma table_lookup_cached: "cache_inv c \<Longrightarrow> table_lookup (qc_root c) off = cached c off"
proof (rule option_eqI)
  fix n
  assume inv: "cache_inv c"
  then have "key_inv qn_offset (qc_root c)" "set (qc_lru c) = set (inorder (qc_root c))" by (auto simp: cache_inv_def)
  then show "(table_lookup (qc_root c) off = Some n) = (cached c off = Some n)"
    using key_map_Some [of qn_offset "qc_root c" off n] by (simp add: cached_Some [OF inv] table_lookup_def key_map_def)
qed

lemma table_search_ok:
  assumes inv: "cache_inv c" and s: "table_search off c = (c', r)"
  shows "cache_inv c'" "r = cached c off" "cached c' = cached c" "set (qc_lru c') = set (qc_lru c)"
    "qc_lru c' = (case r of None \<Rightarrow> qc_lru c | Some n \<Rightarrow> remove1 n (qc_lru c) @ [n])"
proof -
  show r: "r = cached c off" using s inv by (auto simp: table_search_def table_lookup_cached split: option.splits)
  show lru: "qc_lru c' = (case r of None \<Rightarrow> qc_lru c | Some n \<Rightarrow> remove1 n (qc_lru c) @ [n])"
    using s by (auto simp: table_search_def split: option.splits)
  have rest: "qc_root c' = qc_root c" "qc_nr c' = qc_nr c" using s by (auto simp: table_search_def split: option.splits)
  have d: "distinct (qc_lru c)" using inv by (auto simp: cache_inv_def distinct_map)
  show set: "set (qc_lru c') = set (qc_lru c)"
  proof (cases r)
    case (Some n)
    then have "n \<in> set (qc_lru c)" using r by (simp add: cached_Some [OF inv])
    then show ?thesis using Some lru d by auto
  qed (use lru in simp)
  have "distinct (map qn_offset (qc_lru c'))"
  proof (cases r)
    case (Some n)
    then have n: "n \<in> set (qc_lru c)" using r by (simp add: cached_Some [OF inv])
    have "inj_on qn_offset (set (qc_lru c))" using inv unfolding cache_inv_def distinct_map by blast
    then show ?thesis using Some lru n d by (auto simp: distinct_map inj_on_def)
  qed (use lru inv in \<open>simp add: cache_inv_def\<close>)
  moreover have "length (qc_lru c') = length (qc_lru c)"
    using set d calculation by (metis distinct_card distinct_map)
  ultimately show inv': "cache_inv c'" using inv rest set by (simp add: cache_inv_def)
  show "cached c' = cached c"
    by (rule ext, rule option_eqI) (simp add: cached_Some [OF inv] cached_Some [OF inv'] set)
qed

text \<open>Adding a node whose offset is not cached.\<close>

lemma cache_evict_ok:
  assumes inv: "cache_inv c"
  obtains c' where
    "cache_evict c = Ret (c', if qc_nr c = MAX_CACHE_NODES then Some (hd (qc_lru c)) else None)" "cache_inv c'"
    "qc_lru c' = (if qc_nr c = MAX_CACHE_NODES then tl (qc_lru c) else qc_lru c)" "qc_nr c' < MAX_CACHE_NODES"
proof (cases "qc_nr c = MAX_CACHE_NODES")
  case True
  then obtain n ns where l: "qc_lru c = n # ns" using inv by (cases "qc_lru c") (auto simp: cache_inv_def MAX_CACHE_NODES_def)
  have key: "key_inv qn_offset (qc_root c)" and n: "\<exists>x \<in> set (inorder (qc_root c)). x = n"
    using inv l by (auto simp: cache_inv_def)
  obtain t xs ys where t: "rb_erase_entry (\<lambda>x. x = n) (qc_root c) = Some t" "key_inv qn_offset t"
    "inorder (qc_root c) = xs @ n # ys" "inorder t = xs @ ys"
    using key_erase_cases [OF key n] by metis
  have "distinct (inorder (qc_root c))" using key_inv_distinct [OF key] by (simp add: distinct_map)
  then have "set (inorder t) = set (inorder (qc_root c)) - {n}" using t by auto
  then have "set ns = set (inorder t)" using inv l by (auto simp: cache_inv_def)
  with True l t inv show ?thesis
    by (intro that [of "c\<lparr>qc_root := t, qc_lru := ns, qc_nr := qc_nr c - 1\<rparr>"])
       (auto simp: cache_evict_def cache_inv_def MAX_CACHE_NODES_def)
next
  case False
  with inv show ?thesis by (intro that [of c]) (auto simp: cache_evict_def cache_inv_def)
qed

lemma cache_table_ok:
  assumes inv: "cache_inv c" and new: "cached c (qn_offset n) = None"
  obtains c' where
    "cache_table n c = Ret (c', if qc_nr c = MAX_CACHE_NODES then Some (hd (qc_lru c)) else None)" "cache_inv c'"
    "qc_lru c' = (if qc_nr c = MAX_CACHE_NODES then tl (qc_lru c) else qc_lru c) @ [n]"
proof -
  obtain c1 where c1: "cache_evict c = Ret (c1, if qc_nr c = MAX_CACHE_NODES then Some (hd (qc_lru c)) else None)"
    "cache_inv c1" "qc_lru c1 = (if qc_nr c = MAX_CACHE_NODES then tl (qc_lru c) else qc_lru c)"
    "qc_nr c1 < MAX_CACHE_NODES"
    by (rule cache_evict_ok [OF inv])
  have fresh: "\<forall>m \<in> set (qc_lru c1). qn_offset m \<noteq> qn_offset n"
    using new c1(3) by (auto simp: cached_None split: if_splits) (metis list.sel(2) list.set_sel(2))
  have key: "key_inv qn_offset (qc_root c1)" "set (qc_lru c1) = set (inorder (qc_root c1))"
    using c1(2) by (auto simp: cache_inv_def)
  from key(1) show ?thesis
  proof (cases rule: key_insert_cases [where x = n])
    case (occupied y)
    then show ?thesis using key fresh by (auto simp: key_map_Some)
  next
    case (inserted t xs ys)
    have "cache_inv (c1\<lparr>qc_root := t, qc_lru := qc_lru c1 @ [n], qc_nr := qc_nr c1 + 1\<rparr>)"
      using c1 inserted key fresh by (auto simp: cache_inv_def)
    moreover have "n \<notin> set (qc_lru c1)" using fresh by blast
    ultimately show ?thesis using c1 inserted
      by (intro that [of "c1\<lparr>qc_root := t, qc_lru := qc_lru c1 @ [n], qc_nr := qc_nr c1 + 1\<rparr>"])
         (auto simp: cache_table_def table_insert_def)
  qed
qed

lemma free_cache_loop_ok:
  "key_inv qn_offset t \<Longrightarrow> distinct ns \<Longrightarrow> set ns = set (inorder t) \<Longrightarrow> \<exists>t'. free_cache_loop ns t = Ret t' \<and> inorder t' = []"
proof (induction ns arbitrary: t)
  case (Cons n ns)
  have n: "\<exists>x \<in> set (inorder t). x = n" using Cons.prems by auto
  obtain t1 xs ys where t1: "rb_erase_entry (\<lambda>x. x = n) t = Some t1" "key_inv qn_offset t1"
    "inorder t = xs @ n # ys" "inorder t1 = xs @ ys"
    using key_erase_cases [OF Cons.prems(1) n] by metis
  have "distinct (inorder t)" using key_inv_distinct [OF Cons.prems(1)] by (simp add: distinct_map)
  then have "set ns = set (inorder t1)" using t1 Cons.prems(2,3) by auto
  then show ?case using Cons.IH [OF t1(2)] Cons.prems(2) t1 by auto
qed auto

text \<open>
  The contract between the cache and the disk. \<open>agrees off v\<close> says that \<open>v\<close> is the table at that
  offset; everything cached agrees, and what a load returns agrees.
\<close>

locale read_through =
  fixes agrees :: "u64 \<Rightarrow> 'v \<Rightarrow> bool"
    and load :: "u64 \<Rightarrow> 'v option"
  assumes load_agrees: "load off = Some v \<Longrightarrow> agrees off v"
begin

definition store_inv :: "'v qstore \<Rightarrow> bool" where
  "store_inv s \<longleftrightarrow> cache_inv (qs_cache s) \<and> distinct (map qn_addr (qc_lru (qs_cache s))) \<and>
     (\<forall>n \<in> set (qc_lru (qs_cache s)). qn_addr n < qs_next s \<and>
        (\<exists>v. qs_tables s (qn_addr n) = Some v \<and> agrees (qn_offset n) v))"

lemma store_inv_empty: "store_inv qstore_empty"
  by (simp add: store_inv_def qstore_empty_def cache_inv_empty) (simp add: qcache_empty_def)

lemma store_inv_hit:
  assumes "store_inv s" "cache_inv c" "set (qc_lru c) = set (qc_lru (qs_cache s))"
  shows "store_inv (s\<lparr>qs_cache := c\<rparr>)"
proof -
  have "distinct (qc_lru c)" using assms(2) by (simp add: cache_inv_def distinct_map)
  moreover have "inj_on qn_addr (set (qc_lru c))" using assms(1,3) by (auto simp: store_inv_def distinct_map)
  ultimately show ?thesis using assms by (simp add: store_inv_def distinct_map)
qed

lemma store_inv_add:
  assumes inv: "store_inv s" and c: "cache_inv c" "qc_lru c = (if full then tl (qc_lru (qs_cache s)) else qc_lru (qs_cache s)) @ [n]"
    and full: "full \<Longrightarrow> qc_lru (qs_cache s) \<noteq> []"
    and n: "n = \<lparr>qn_offset = off, qn_addr = qs_next s\<rparr>" and v: "agrees off v"
  shows "store_inv (s\<lparr>qs_cache := c, qs_next := qs_next s + 1,
     qs_tables := (free_table (if full then Some (hd (qc_lru (qs_cache s))) else None) (qs_tables s))(qs_next s \<mapsto> v)\<rparr>)"
proof -
  let ?l = "if full then tl (qc_lru (qs_cache s)) else qc_lru (qs_cache s)"
  have old: "m \<in> set (qc_lru (qs_cache s))" if "m \<in> set ?l" for m
    using that full by (auto split: if_splits simp: list.set_sel(2))
  have kept: "free_table (if full then Some (hd (qc_lru (qs_cache s))) else None) (qs_tables s) (qn_addr m) = qs_tables s (qn_addr m)"
    if m: "m \<in> set ?l" for m
  proof (cases full)
    case True
    then obtain x xs where "qc_lru (qs_cache s) = x # xs" using full by (cases "qc_lru (qs_cache s)") auto
    then show ?thesis using True m inv by (auto simp: free_table_def store_inv_def rev_image_eqI)
  qed (simp add: free_table_def)
  have "distinct (map qn_addr ?l)" using inv by (auto simp: store_inv_def map_tl distinct_tl)
  moreover have "\<forall>m \<in> set ?l. qn_addr m < qs_next s \<and> (\<exists>v. qs_tables s (qn_addr m) = Some v \<and> agrees (qn_offset m) v)"
    using inv old by (auto simp: store_inv_def)
  ultimately show ?thesis using c n v kept by (fastforce simp: store_inv_def)
qed

lemma read_table_ok:
  assumes inv: "store_inv s"
  shows "\<exists>s' r. read_table oom load off s = Ret (s', r) \<and> store_inv s' \<and>
    (case r of
       Some a \<Rightarrow> \<exists>v. qs_tables s' a = Some v \<and> agrees off v
     | None \<Rightarrow> oom \<or> load off = None)"
proof -
  have cinv: "cache_inv (qs_cache s)" using inv by (simp add: store_inv_def)
  obtain c r where cr: "table_search off (qs_cache s) = (c, r)" by (cases "table_search off (qs_cache s)")
  note ok = table_search_ok [OF cinv cr]
  show ?thesis
  proof (cases r)
    case (Some n)
    then have "n \<in> set (qc_lru (qs_cache s))" "qn_offset n = off" using ok(2) by (auto simp: cached_Some [OF cinv])
    with inv Some cr store_inv_hit [OF inv ok(1,4)] show ?thesis by (auto simp: read_table_def store_inv_def)
  next
    case None
    then have c: "c = qs_cache s" using cr by (auto simp: table_search_def split: option.splits)
    have new: "cached (qs_cache s) off = None" using None ok(2) by simp
    show ?thesis
    proof (cases "oom \<or> load off = None")
      case True
      with None cr c inv show ?thesis by (auto simp: read_table_def store_inv_def less_Suc_eq split: option.splits)
    next
      case False
      then obtain v where v: "load off = Some v" by auto
      let ?n = "\<lparr>qn_offset = off, qn_addr = qs_next s\<rparr>" and ?full = "qc_nr (qs_cache s) = MAX_CACHE_NODES"
      obtain c' where c': "cache_table ?n (qs_cache s) = Ret (c', if ?full then Some (hd (qc_lru (qs_cache s))) else None)"
        "cache_inv c'" "qc_lru c' = (if ?full then tl (qc_lru (qs_cache s)) else qc_lru (qs_cache s)) @ [?n]"
        using cache_table_ok [OF cinv, of ?n] new by auto
      have ne: "?full \<Longrightarrow> qc_lru (qs_cache s) \<noteq> []" using cinv by (auto simp: cache_inv_def MAX_CACHE_NODES_def)
      show ?thesis
        using store_inv_add [OF inv c'(2,3) ne refl load_agrees [OF v]] False None cr c c'(1) v load_agrees [OF v]
        by (auto simp: read_table_def)
    qed
  qed
qed

end

section \<open>Properties\<close>

text \<open>
  C7: the pair of tree and list is a least-recently-used cache of 32 entries: a search
  returns the node of that offset if it is cached and makes it the most recent; adding an offset
  that is not cached makes it the most recent and drops, and frees, exactly the least recently used
  one when the cache was full; freeing the cache empties it. Tree and list stay in step.
\<close>

theorem qcow_cache_is_lru:
  assumes "cache_inv c"
  shows "(case table_search off c of (c', r) \<Rightarrow> cache_inv c' \<and> r = find (\<lambda>n. qn_offset n = off) (qc_lru c) \<and>
      qc_lru c' = (case r of None \<Rightarrow> qc_lru c | Some n \<Rightarrow> remove1 n (qc_lru c) @ [n])) \<and>
    (find (\<lambda>m. qn_offset m = qn_offset n) (qc_lru c) = None \<longrightarrow>
      (\<exists>c'. cache_inv c' \<and>
        (if length (qc_lru c) = 32
         then cache_table n c = Ret (c', Some (hd (qc_lru c))) \<and> qc_lru c' = tl (qc_lru c) @ [n]
         else cache_table n c = Ret (c', None) \<and> qc_lru c' = qc_lru c @ [n]))) \<and>
    (\<exists>c'. table_free_cache c = Ret c' \<and> inorder (qc_root c') = [] \<and> qc_lru c' = [])"
proof (intro conjI impI)
  show "case table_search off c of (c', r) \<Rightarrow> cache_inv c' \<and> r = find (\<lambda>n. qn_offset n = off) (qc_lru c) \<and>
      qc_lru c' = (case r of None \<Rightarrow> qc_lru c | Some n \<Rightarrow> remove1 n (qc_lru c) @ [n])"
    using table_search_ok [OF assms] by (cases "table_search off c") (auto simp: cached_def)
  have nr: "qc_nr c = length (qc_lru c)" using assms by (simp add: cache_inv_def)
  show "\<exists>c'. cache_inv c' \<and>
        (if length (qc_lru c) = 32
         then cache_table n c = Ret (c', Some (hd (qc_lru c))) \<and> qc_lru c' = tl (qc_lru c) @ [n]
         else cache_table n c = Ret (c', None) \<and> qc_lru c' = qc_lru c @ [n])"
    if "find (\<lambda>m. qn_offset m = qn_offset n) (qc_lru c) = None"
    by (rule cache_table_ok [OF assms that [folded cached_def]]) (auto simp: nr MAX_CACHE_NODES_def split: if_splits)
  have "key_inv qn_offset (qc_root c)" "distinct (qc_lru c)" "set (qc_lru c) = set (inorder (qc_root c))"
    using assms by (auto simp: cache_inv_def distinct_map)
  from free_cache_loop_ok [OF this]
  show "\<exists>c'. table_free_cache c = Ret c' \<and> inorder (qc_root c') = [] \<and> qc_lru c' = []"
    by (auto simp: table_free_cache_def)
qed

theorem qcow_cache_is_lru_witness:
  "\<exists>c'. cache_table \<lparr>qn_offset = 0x10000, qn_addr = 0\<rparr> qcache_empty = Ret (c', None) \<and> cache_inv c'"
  using qcow_cache_is_lru [OF cache_inv_empty, of 0 "\<lparr>qn_offset = 0x10000, qn_addr = 0\<rparr>"]
  by (auto simp: qcache_empty_def)

end
