(* ===== verification/Qcow.thy ===== *)
theory Qcow
  imports QcowCache
begin

text \<open>
  \<^verbatim>\<open>disk/qcow.c\<close>, the read side: image geometry, the level-1 and level-2 tables, reading a cluster of
  a QCOW1 or QCOW2 image, and the sector loop above it.

  The image file is its bytes and, for each offset, whether a transfer that starts there fails.
  Tables hold their entries in host order (the value of \<^verbatim>\<open>be64_to_cpu\<close>). The decompressor is an
  argument: it is given the compressed bytes and the cluster size and returns the cluster, or \<open>None\<close>.
  A shift by a negative or too large count, and an access outside a table or buffer, is \<open>Undefined\<close>.
\<close>

section \<open>The image file\<close>

record qfile =
  f_bytes :: "u8 list"
  f_rd_err :: "u64 \<Rightarrow> bool"
  f_wr_err :: "u64 \<Rightarrow> bool"
  f_sync_err :: bool

text \<open>
  \<^verbatim>\<open>pread_in_full\<close>: as many bytes as there are, \<open>None\<close> for -1, which is a failed transfer, a
  negative offset, or nothing to read where something was asked for.
\<close>

definition pread_in_full :: "qfile \<Rightarrow> nat \<Rightarrow> u64 \<Rightarrow> u8 list option" where
  "pread_in_full f count offset =
     (let bs = take count (drop (unat offset) (f_bytes f))
      in if count = 0 then Some []
         else if f_rd_err f offset \<or> 2 ^ 63 \<le> unat offset \<or> bs = [] then None
         else Some bs)"

definition pwrite_in_full :: "qfile \<Rightarrow> u8 list \<Rightarrow> u64 \<Rightarrow> qfile option" where
  "pwrite_in_full f buf offset =
     (let n = unat offset; bs = f_bytes f @ replicate (n - length (f_bytes f)) 0
      in if buf = [] then Some f
         else if f_wr_err f offset \<or> 2 ^ 63 \<le> n then None
         else Some (f\<lparr>f_bytes := take n bs @ buf @ drop (n + length buf) bs\<rparr>))"

definition qcow_pwrite_sync :: "qfile \<Rightarrow> u8 list \<Rightarrow> u64 \<Rightarrow> qfile \<times> bool" where
  "qcow_pwrite_sync f buf offset =
     (case pwrite_in_full f buf offset of None \<Rightarrow> (f, False) | Some f \<Rightarrow> (f, \<not> f_sync_err f))"

text \<open>Big-endian integers in a byte buffer; a buffer that was not filled completely is zero behind.\<close>

definition be64 :: "u8 list \<Rightarrow> u64" where
  "be64 bs = fold (\<lambda>b v. push_bit 8 v OR ucast b) (take 8 bs) 0"

definition be16 :: "u8 list \<Rightarrow> u16" where
  "be16 bs = fold (\<lambda>b v. push_bit 8 v OR ucast b) (take 2 bs) 0"

definition be64s :: "nat \<Rightarrow> u8 list \<Rightarrow> u64 list" where
  "be64s n bs = (let buf = bs @ replicate (8 * n - length bs) 0 in map (\<lambda>i. be64 (drop (8 * i) buf)) [0..<n])"

section \<open>State\<close>

definition QCOW1_OFLAG_COMPRESSED :: u64 where "QCOW1_OFLAG_COMPRESSED = push_bit 63 1"
definition QCOW2_OFLAG_COPIED :: u64 where "QCOW2_OFLAG_COPIED = push_bit 63 1"
definition QCOW2_OFLAG_COMPRESSED :: u64 where "QCOW2_OFLAG_COMPRESSED = push_bit 62 1"
definition QCOW2_OFLAGS_MASK :: u64 where "QCOW2_OFLAGS_MASK = QCOW2_OFLAG_COPIED OR QCOW2_OFLAG_COMPRESSED"
definition QCOW2_OFFSET_MASK :: u64 where "QCOW2_OFFSET_MASK = NOT QCOW2_OFLAGS_MASK"
definition QCOW1_VERSION :: u32 where "QCOW1_VERSION = 1"
definition QCOW2_VERSION :: u32 where "QCOW2_VERSION = 2"
definition SECTOR_SHIFT :: nat where "SECTOR_SHIFT = 9"

record qcow_header =
  h_size :: u64
  h_l1_table_offset :: u64
  h_l1_size :: u32
  h_cluster_bits :: u8
  h_l2_bits :: u8
  h_refcount_table_offset :: u64
  h_refcount_table_size :: u32

record qcow_l2_table =
  l2_offset :: u64
  l2_dirty :: bool
  l2_entries :: "u64 list"

record qcow_refcount_block =
  rfb_offset :: u64
  rfb_dirty :: bool
  rfb_entries :: "u16 list"

record qcow =
  q_header :: qcow_header
  q_table_size :: u32
  q_l1_table :: "u64 list"
  q_l2 :: "qcow_l2_table qstore"
  q_rf_size :: u32
  q_rf_table :: "u64 list"
  q_rfb :: "qcow_refcount_block qstore"
  q_rfb_ready :: bool
  q_file :: qfile
  q_csize_shift :: int
  q_csize_mask :: int
  q_version :: u32
  q_cluster_size :: u64
  q_cluster_offset_mask :: u64
  q_free_clust_idx :: u64
  q_cluster_data :: "u8 list"
  q_copy_buff :: "u8 list"

section \<open>Geometry\<close>

text \<open>\<^verbatim>\<open>1 << bits\<close> on an \<^verbatim>\<open>int\<close>.\<close>

definition one_shl :: "u8 \<Rightarrow> u64 outcome" where
  "one_shl bits = (if unat bits < 31 then Ret (2 ^ unat bits) else Undefined)"

definition get_l1_index :: "qcow \<Rightarrow> u64 \<Rightarrow> u64 outcome" where
  "get_l1_index q offset =
     (let n = unat (h_l2_bits (q_header q)) + unat (h_cluster_bits (q_header q))
      in if n < 64 then Ret (drop_bit n offset) else Undefined)"

definition get_l2_index :: "qcow \<Rightarrow> u64 \<Rightarrow> u64 outcome" where
  "get_l2_index q offset =
     (if unat (h_cluster_bits (q_header q)) < 64
      then bind_outcome (one_shl (h_l2_bits (q_header q))) (\<lambda>n.
        Ret (drop_bit (unat (h_cluster_bits (q_header q))) offset AND (n - 1)))
      else Undefined)"

definition get_cluster_offset :: "qcow \<Rightarrow> u64 \<Rightarrow> u64 outcome" where
  "get_cluster_offset q offset =
     bind_outcome (one_shl (h_cluster_bits (q_header q))) (\<lambda>n. Ret (offset AND (n - 1)))"

section \<open>Level-2 tables\<close>

definition load_l2 :: "qfile \<Rightarrow> nat \<Rightarrow> u64 \<Rightarrow> qcow_l2_table option" where
  "load_l2 f n offset =
     (case pread_in_full f (8 * n) offset of
        None \<Rightarrow> None
      | Some bs \<Rightarrow> Some \<lparr>l2_offset = offset, l2_dirty = False, l2_entries = be64s n bs\<rparr>)"

definition qcow_read_l2_table :: "bool \<Rightarrow> u64 \<Rightarrow> qcow \<Rightarrow> (qcow \<times> nat option) outcome" where
  "qcow_read_l2_table oom offset q =
     bind_outcome (one_shl (h_l2_bits (q_header q))) (\<lambda>n.
       bind_outcome (read_table oom (load_l2 (q_file q) (unat n)) offset (q_l2 q)) (\<lambda>(s, r).
         Ret (q\<lparr>q_l2 := s\<rparr>, r)))"

text \<open>The entry of a cached table.\<close>

definition l2_entry :: "nat \<Rightarrow> u64 \<Rightarrow> qcow \<Rightarrow> u64 outcome" where
  "l2_entry addr idx q =
     (case qs_tables (q_l2 q) addr of
        None \<Rightarrow> Undefined
      | Some t \<Rightarrow> if unat idx < length (l2_entries t) then Ret (l2_entries t ! unat idx) else Undefined)"

section \<open>Reading a cluster\<close>

type_synonym inflate = "u8 list \<Rightarrow> nat \<Rightarrow> u8 list option"

text \<open>
  Reading \<open>count\<close> bytes into the buffer \<^verbatim>\<open>cluster_data\<close>, which holds one cluster: more bytes than it
  holds is \<open>Undefined\<close>; a short read leaves the old bytes behind.
\<close>

definition read_cluster_data :: "nat \<Rightarrow> u64 \<Rightarrow> qcow \<Rightarrow> qcow option outcome" where
  "read_cluster_data count offset q =
     (case pread_in_full (q_file q) count offset of
        None \<Rightarrow> Ret None
      | Some bs \<Rightarrow>
          if length bs \<le> length (q_cluster_data q)
          then Ret (Some (q\<lparr>q_cluster_data := bs @ drop (length bs) (q_cluster_data q)\<rparr>))
          else Undefined)"

definition inflate_cluster :: "inflate \<Rightarrow> nat \<Rightarrow> nat \<Rightarrow> nat \<Rightarrow> nat \<Rightarrow> qcow \<Rightarrow> u8 list option outcome" where
  "inflate_cluster z start csize off len q =
     (if start + csize \<le> length (q_cluster_data q)
      then (case z (take csize (drop start (q_cluster_data q))) (unat (q_cluster_size q)) of
              None \<Rightarrow> Ret None
            | Some c \<Rightarrow> if length c = unat (q_cluster_size q) then Ret (Some (take len (drop off c))) else Ret None)
      else Undefined)"

text \<open>The position and size of a compressed cluster are cut to 32-bit signed integers.\<close>

definition int_of :: "u64 \<Rightarrow> int" where "int_of w = sint (ucast w :: 32 word)"

definition qcow1_compressed :: "inflate \<Rightarrow> u64 \<Rightarrow> nat \<Rightarrow> nat \<Rightarrow> qcow \<Rightarrow> (qcow \<times> u8 list option) outcome" where
  "qcow1_compressed z e off len q =
     (if unat (h_cluster_bits (q_header q)) \<le> 63 then
        let coffset = int_of (e AND q_cluster_offset_mask q);
            csize = int_of (drop_bit (63 - unat (h_cluster_bits (q_header q))) e);
            csize = int_of (word_of_int csize AND (q_cluster_size q - 1))
        in bind_outcome (read_cluster_data (nat csize) (word_of_int coffset) q) (\<lambda>r.
             case r of
               None \<Rightarrow> Ret (q, None)
             | Some q \<Rightarrow> bind_outcome (inflate_cluster z 0 (nat csize) off len q) (\<lambda>d. Ret (q, d)))
      else Undefined)"

definition qcow2_compressed :: "inflate \<Rightarrow> u64 \<Rightarrow> nat \<Rightarrow> nat \<Rightarrow> qcow \<Rightarrow> (qcow \<times> u8 list option) outcome" where
  "qcow2_compressed z e off len q =
     (if 0 \<le> q_csize_shift q \<and> q_csize_shift q < 64 then
        let coffset = int_of (e AND q_cluster_offset_mask q);
            nb_csectors = int_of ((drop_bit (nat (q_csize_shift q)) e AND word_of_int (q_csize_mask q)) + 1);
            sector_offset = coffset mod 512;
            csize = nb_csectors * 512 - sector_offset
        in bind_outcome (read_cluster_data (nat (nb_csectors * 512)) (word_of_int (coffset - sector_offset)) q) (\<lambda>r.
             case r of
               None \<Rightarrow> Ret (q, None)
             | Some q \<Rightarrow> bind_outcome (inflate_cluster z (nat sector_offset) (nat csize) off len q) (\<lambda>d. Ret (q, d)))
      else Undefined)"

text \<open>Storing the bytes read at the start of the destination.\<close>

definition fill :: "u8 list \<Rightarrow> u8 list \<Rightarrow> u8 list" where
  "fill bs dst = bs @ drop (length bs) dst"

text \<open>
  The two readers differ in the flags of the tables and in the compressed format. \<open>z\<close> is the
  decompressor, \<open>oom\<close> whether the allocation of a table fails; the results are the new state, the
  destination buffer and the return value.
\<close>

definition qcow1_read_cluster :: "inflate \<Rightarrow> bool \<Rightarrow> u64 \<Rightarrow> u8 list \<Rightarrow> qcow \<Rightarrow> (qcow \<times> u8 list \<times> int) outcome" where
  "qcow1_read_cluster z oom offset dst q =
     bind_outcome (get_l1_index q offset) (\<lambda>l1_idx.
     if ucast (q_table_size q) \<le> l1_idx then Ret (q, dst, -1) else
     bind_outcome (get_cluster_offset q offset) (\<lambda>clust_offset.
     if q_cluster_size q \<le> clust_offset then Ret (q, dst, -1) else
     let len = min (unat (q_cluster_size q - clust_offset)) (length dst) in
     if length (q_l1_table q) \<le> unat l1_idx then Undefined else
     let l2t_offset = q_l1_table q ! unat l1_idx in
     if l2t_offset = 0 then Ret (q, fill (replicate len 0) dst, int len) else
     bind_outcome (one_shl (h_l2_bits (q_header q))) (\<lambda>l2t_size.
     bind_outcome (qcow_read_l2_table oom l2t_offset q) (\<lambda>(q, r).
     case r of None \<Rightarrow> Ret (q, dst, -1) | Some l2t \<Rightarrow>
     bind_outcome (get_l2_index q offset) (\<lambda>l2_idx.
     if l2t_size \<le> l2_idx then Ret (q, dst, -1) else
     bind_outcome (l2_entry l2t l2_idx q) (\<lambda>clust_start.
     if clust_start AND QCOW1_OFLAG_COMPRESSED \<noteq> 0 then
       bind_outcome (qcow1_compressed z clust_start (unat clust_offset) len q) (\<lambda>(q, d).
         case d of None \<Rightarrow> Ret (q, dst, -1) | Some bs \<Rightarrow> Ret (q, fill bs dst, int len))
     else if clust_start = 0 then Ret (q, fill (replicate len 0) dst, int len)
     else (case pread_in_full (q_file q) len (clust_start + clust_offset) of
             None \<Rightarrow> Ret (q, dst, -1) | Some bs \<Rightarrow> Ret (q, fill bs dst, int len))))))))"

definition qcow2_read_cluster :: "inflate \<Rightarrow> bool \<Rightarrow> u64 \<Rightarrow> u8 list \<Rightarrow> qcow \<Rightarrow> (qcow \<times> u8 list \<times> int) outcome" where
  "qcow2_read_cluster z oom offset dst q =
     bind_outcome (get_l1_index q offset) (\<lambda>l1_idx.
     if ucast (q_table_size q) \<le> l1_idx then Ret (q, dst, -1) else
     bind_outcome (get_cluster_offset q offset) (\<lambda>clust_offset.
     if q_cluster_size q \<le> clust_offset then Ret (q, dst, -1) else
     let len = min (unat (q_cluster_size q - clust_offset)) (length dst) in
     if length (q_l1_table q) \<le> unat l1_idx then Undefined else
     let l2t_offset = q_l1_table q ! unat l1_idx AND NOT QCOW2_OFLAG_COPIED in
     if l2t_offset = 0 then Ret (q, fill (replicate len 0) dst, int len) else
     bind_outcome (one_shl (h_l2_bits (q_header q))) (\<lambda>l2t_size.
     bind_outcome (qcow_read_l2_table oom l2t_offset q) (\<lambda>(q, r).
     case r of None \<Rightarrow> Ret (q, dst, -1) | Some l2t \<Rightarrow>
     bind_outcome (get_l2_index q offset) (\<lambda>l2_idx.
     if l2t_size \<le> l2_idx then Ret (q, dst, -1) else
     bind_outcome (l2_entry l2t l2_idx q) (\<lambda>e.
     if e AND QCOW2_OFLAG_COMPRESSED \<noteq> 0 then
       bind_outcome (qcow2_compressed z e (unat clust_offset) len q) (\<lambda>(q, d).
         case d of None \<Rightarrow> Ret (q, dst, -1) | Some bs \<Rightarrow> Ret (q, fill bs dst, int len))
     else let clust_start = e AND QCOW2_OFFSET_MASK in
       if clust_start = 0 then Ret (q, fill (replicate len 0) dst, int len)
       else (case pread_in_full (q_file q) len (clust_start + clust_offset) of
               None \<Rightarrow> Ret (q, dst, -1) | Some bs \<Rightarrow> Ret (q, fill bs dst, int len))))))))"

section \<open>Reading sectors\<close>

definition qcow_read_cluster :: "inflate \<Rightarrow> bool \<Rightarrow> u64 \<Rightarrow> u8 list \<Rightarrow> qcow \<Rightarrow> (qcow \<times> u8 list \<times> int) outcome" where
  "qcow_read_cluster z oom offset dst q =
     (if q_version q = QCOW1_VERSION then qcow1_read_cluster z oom offset dst q else qcow2_read_cluster z oom offset dst q)"

text \<open>
  The loop of \<^verbatim>\<open>qcow_read_sector_single\<close>. \<open>pos\<close> is how far \<^verbatim>\<open>buf\<close> is from \<^verbatim>\<open>dst\<close>. The result of a
  cluster read is kept in an unsigned 32-bit \<open>nr\<close>, so that the test \<^verbatim>\<open>nr <= 0\<close> only catches 0; another
  read once \<^verbatim>\<open>buf\<close> has left the destination is \<open>Undefined\<close>. \<open>None\<close> is a loop that does not end.
\<close>

partial_function (option) read_sector_loop ::
  "inflate \<Rightarrow> bool \<Rightarrow> u64 \<Rightarrow> u32 \<Rightarrow> nat \<Rightarrow> u8 list \<Rightarrow> qcow \<Rightarrow> (qcow \<times> u8 list \<times> int) outcome option" where
  "read_sector_loop z oom sector nr_read pos dst q =
     (if unat nr_read < length dst then
        let offset = push_bit SECTOR_SHIFT sector
        in if h_size (q_header q) \<le> offset then Some (Ret (q, dst, -1))
           else if length dst < pos then Some Undefined
           else (case qcow_read_cluster z oom offset (take (length dst - unat nr_read) (drop pos dst)) q of
                   Ret (q, d, r) \<Rightarrow>
                     let nr = word_of_int r :: u32; dst = take pos dst @ d @ drop (pos + length d) dst
                     in if nr = 0 then Some (Ret (q, dst, -1))
                        else read_sector_loop z oom (sector + ucast (drop_bit SECTOR_SHIFT nr)) (nr_read + nr) (pos + unat nr) dst q
                 | Dies \<Rightarrow> Some Dies | Undefined \<Rightarrow> Some Undefined)
      else Some (Ret (q, dst, int (length dst))))"

definition qcow_read_sector_single :: "inflate \<Rightarrow> bool \<Rightarrow> u64 \<Rightarrow> u8 list \<Rightarrow> qcow \<Rightarrow> (qcow \<times> u8 list \<times> int) outcome option" where
  "qcow_read_sector_single z oom sector dst q = read_sector_loop z oom sector 0 0 dst q"

text \<open>
  The vector of buffers; \<open>None\<close> again when a loop does not end. The length of a buffer is cut to 32 bits on the way down.
\<close>

fun qcow_read_sector :: "inflate \<Rightarrow> bool \<Rightarrow> u64 \<Rightarrow> u8 list list \<Rightarrow> int \<Rightarrow> qcow \<Rightarrow> (qcow \<times> u8 list list \<times> int) outcome option" where
  "qcow_read_sector z oom sector [] tot q = Some (Ret (q, [], tot))"
| "qcow_read_sector z oom sector (dst # iov) tot q =
     (let n = length dst mod 2 ^ 32
      in case qcow_read_sector_single z oom sector (take n dst) q of
        None \<Rightarrow> None
      | Some (Ret (q, d, nr)) \<Rightarrow>
          if nr \<noteq> int (length dst) then Some (Ret (q, (d @ drop n dst) # iov, -1))
          else (case qcow_read_sector z oom (sector + of_nat (length dst div 512)) iov (tot + nr) q of
                  Some (Ret (q, ds, t)) \<Rightarrow> Some (Ret (q, (d @ drop n dst) # ds, t))
                | r \<Rightarrow> (case r of None \<Rightarrow> None | Some Dies \<Rightarrow> Some Dies | _ \<Rightarrow> Some Undefined))
      | Some Dies \<Rightarrow> Some Dies
      | Some Undefined \<Rightarrow> Some Undefined)"

section \<open>Geometry lemmas\<close>

text \<open>What the probe functions establish for an image with sane header bits.\<close>

definition geometry_ok :: "qcow \<Rightarrow> bool" where
  "geometry_ok q \<longleftrightarrow> 9 \<le> unat (h_cluster_bits (q_header q)) \<and> unat (h_cluster_bits (q_header q)) < 31 \<and>
     unat (h_l2_bits (q_header q)) < 31 \<and> q_cluster_size q = 2 ^ unat (h_cluster_bits (q_header q)) \<and>
     length (q_l1_table q) = unat (q_table_size q) \<and> length (q_cluster_data q) = unat (q_cluster_size q)"

abbreviation cbits :: "qcow \<Rightarrow> nat" where "cbits q \<equiv> unat (h_cluster_bits (q_header q))"
abbreviation l2bits :: "qcow \<Rightarrow> nat" where "l2bits q \<equiv> unat (h_l2_bits (q_header q))"

lemma unat_exp64: "k < 64 \<Longrightarrow> unat (2 ^ k :: u64) = 2 ^ k"
proof -
  assume "k < 64"
  then have "(2 :: nat) ^ k < 2 ^ 64" by (rule power_strict_increasing) simp
  then show ?thesis using unat_of_nat [of "2 ^ k", where ?'a = 64] by (simp add: take_bit_eq_mod)
qed

lemma and_exp_minus_1: "k < 64 \<Longrightarrow> unat (w AND (2 ^ k - 1) :: u64) = unat w mod 2 ^ k"
proof -
  assume k: "k < 64"
  have "w AND (2 ^ k - 1) = take_bit k w" by (simp add: take_bit_eq_mask mask_eq_exp_minus_1)
  then have "unat (w AND (2 ^ k - 1)) = take_bit k (unat w)" by (metis unsigned_take_bit_eq)
  then show ?thesis by (simp add: take_bit_eq_mod)
qed

lemma unat_drop_bit: "unat (drop_bit k w :: 'a :: len word) = unat w div 2 ^ k"
proof -
  have "unat (drop_bit k w) = drop_bit k (take_bit LENGTH('a) (unat w))" by (rule unsigned_drop_bit_eq)
  moreover have "take_bit LENGTH('a) (unat w) = unat w" by (rule take_bit_nat_eq_self) (rule unsigned_less)
  ultimately show ?thesis by (simp only: drop_bit_eq_div)
qed

lemma index_values:
  assumes "geometry_ok q"
  shows "get_l1_index q off = Ret (drop_bit (l2bits q + cbits q) off)"
    "get_l2_index q off = Ret (drop_bit (cbits q) off AND (2 ^ l2bits q - 1))"
    "get_cluster_offset q off = Ret (off AND (2 ^ cbits q - 1))"
    "one_shl (h_l2_bits (q_header q)) = Ret (2 ^ l2bits q)"
  using assms by (simp_all add: geometry_ok_def get_l1_index_def get_l2_index_def get_cluster_offset_def one_shl_def)

lemma cluster_offset_bound:
  fixes off :: u64
  assumes "geometry_ok q"
  shows "unat (off AND (2 ^ cbits q - 1)) = unat off mod 2 ^ cbits q" "off AND (2 ^ cbits q - 1) < q_cluster_size q"
    "unat (q_cluster_size q - (off AND (2 ^ cbits q - 1))) = 2 ^ cbits q - unat off mod 2 ^ cbits q"
proof -
  have c: "cbits q < 64" "q_cluster_size q = 2 ^ cbits q" using assms by (auto simp: geometry_ok_def)
  show m: "unat (off AND (2 ^ cbits q - 1)) = unat off mod 2 ^ cbits q" using c by (simp add: and_exp_minus_1)
  show lt: "off AND (2 ^ cbits q - 1) < q_cluster_size q"
    unfolding word_less_nat_alt m c(2) unat_exp64 [OF c(1)] by simp
  show "unat (q_cluster_size q - (off AND (2 ^ cbits q - 1))) = 2 ^ cbits q - unat off mod 2 ^ cbits q"
    using lt m unat_exp64 [OF c(1)] c(2) by (simp add: unat_sub word_less_nat_alt word_le_nat_alt)
qed

lemma l2_index_bound:
  fixes off :: u64
  assumes "geometry_ok q"
  shows "unat (drop_bit (cbits q) off AND (2 ^ l2bits q - 1)) = unat off div 2 ^ cbits q mod 2 ^ l2bits q"
    "\<not> 2 ^ l2bits q \<le> drop_bit (cbits q) off AND (2 ^ l2bits q - 1)"
proof -
  have l: "l2bits q < 64" using assms by (simp add: geometry_ok_def)
  show m: "unat (drop_bit (cbits q) off AND (2 ^ l2bits q - 1)) = unat off div 2 ^ cbits q mod 2 ^ l2bits q"
    by (simp only: and_exp_minus_1 [OF l] unat_drop_bit)
  show "\<not> 2 ^ l2bits q \<le> drop_bit (cbits q) off AND (2 ^ l2bits q - 1)"
    unfolding word_le_nat_alt m unat_exp64 [OF l] by (simp add: not_le)
qed

section \<open>The tables without the cache\<close>

text \<open>What the tables on disk say about the cluster of an offset; \<open>None\<close> when the level-2 table cannot be read.\<close>

datatype cluster = Zero | Data u64 | Compressed u64

definition qcow2_lookup :: "qcow \<Rightarrow> u64 \<Rightarrow> cluster option" where
  "qcow2_lookup q off =
     (let l1 = q_l1_table q ! (unat off div 2 ^ (l2bits q + cbits q)) AND NOT QCOW2_OFLAG_COPIED
      in if l1 = 0 then Some Zero
         else case load_l2 (q_file q) (2 ^ l2bits q) l1 of
           None \<Rightarrow> None
         | Some t \<Rightarrow>
             let e = l2_entries t ! (unat off div 2 ^ cbits q mod 2 ^ l2bits q)
             in Some (if e AND QCOW2_OFLAG_COMPRESSED \<noteq> 0 then Compressed e
                      else if e AND QCOW2_OFFSET_MASK = 0 then Zero else Data (e AND QCOW2_OFFSET_MASK)))"

interpretation l2: read_through "\<lambda>off t. load_l2 f n off = Some t" "load_l2 f n" for f n
  by unfold_locales

definition qcow_inv :: "qcow \<Rightarrow> bool" where
  "qcow_inv q \<longleftrightarrow> geometry_ok q \<and> l2.store_inv (q_file q) (2 ^ l2bits q) (q_l2 q)"

lemma load_l2_length: "load_l2 f n off = Some t \<Longrightarrow> length (l2_entries t) = n"
  by (auto simp: load_l2_def be64s_def Let_def split: option.splits)

lemma read_l2_table_ok:
  assumes inv: "qcow_inv q"
  obtains s r where "qcow_read_l2_table oom off q = Ret (q\<lparr>q_l2 := s\<rparr>, r)" "qcow_inv (q\<lparr>q_l2 := s\<rparr>)"
    "case r of None \<Rightarrow> oom \<or> load_l2 (q_file q) (2 ^ l2bits q) off = None
     | Some a \<Rightarrow> \<exists>t. qs_tables s a = Some t \<and> load_l2 (q_file q) (2 ^ l2bits q) off = Some t"
proof -
  have geo: "geometry_ok q" and st: "l2.store_inv (q_file q) (2 ^ l2bits q) (q_l2 q)" using inv by (auto simp: qcow_inv_def)
  have l: "unat (2 ^ l2bits q :: u64) = 2 ^ l2bits q" using geo by (simp add: geometry_ok_def unat_exp64)
  from l2.read_table_ok [OF st, of oom off] obtain s r where
    s: "read_table oom (load_l2 (q_file q) (2 ^ l2bits q)) off (q_l2 q) = Ret (s, r)"
      "l2.store_inv (q_file q) (2 ^ l2bits q) s"
      "case r of Some a \<Rightarrow> \<exists>v. qs_tables s a = Some v \<and> load_l2 (q_file q) (2 ^ l2bits q) off = Some v
       | None \<Rightarrow> oom \<or> load_l2 (q_file q) (2 ^ l2bits q) off = None"
    by blast
  have "qcow_inv (q\<lparr>q_l2 := s\<rparr>)" using geo s(2) by (simp add: qcow_inv_def geometry_ok_def)
  with s geo l show ?thesis
    by (intro that [of s r]) (auto simp: qcow_read_l2_table_def index_values split: option.splits)
qed

text \<open>The bytes a read of \<open>len\<close> bytes gets from a cluster that is not compressed; \<open>None\<close> when the transfer fails.\<close>

definition cluster_bytes :: "qcow \<Rightarrow> cluster \<Rightarrow> u64 \<Rightarrow> nat \<Rightarrow> u8 list option" where
  "cluster_bytes q c clust_offset len =
     (case c of
        Zero \<Rightarrow> Some (replicate len 0)
      | Data start \<Rightarrow> pread_in_full (q_file q) len (start + clust_offset)
      | Compressed _ \<Rightarrow> None)"

lemma qcow2_read_cluster_ok:
  assumes inv: "qcow_inv q" and l1: "unat off div 2 ^ (l2bits q + cbits q) < unat (q_table_size q)"
    and len: "len = min (2 ^ cbits q - unat off mod 2 ^ cbits q) (length dst)"
    and look: "\<forall>e. qcow2_lookup q off \<noteq> Some (Compressed e)"
  obtains s where "qcow_inv (q\<lparr>q_l2 := s\<rparr>)"
    "qcow2_read_cluster z False off dst q = Ret (case qcow2_lookup q off of
       None \<Rightarrow> (q\<lparr>q_l2 := s\<rparr>, dst, -1)
     | Some c \<Rightarrow> (case cluster_bytes q c (off AND (2 ^ cbits q - 1)) len of
         None \<Rightarrow> (q\<lparr>q_l2 := s\<rparr>, dst, -1)
       | Some bs \<Rightarrow> (q\<lparr>q_l2 := s\<rparr>, fill bs dst, int len)))"
proof -
  have geo: "geometry_ok q" using inv by (simp add: qcow_inv_def)
  let ?co = "off AND (2 ^ cbits q - 1)" and ?i1 = "drop_bit (l2bits q + cbits q) off"
  let ?e1 = "q_l1_table q ! unat ?i1 AND NOT QCOW2_OFLAG_COPIED"
  have i1: "unat ?i1 = unat off div 2 ^ (l2bits q + cbits q)" by (rule unat_drop_bit)
  have tab: "\<not> ucast (q_table_size q) \<le> ?i1" "\<not> length (q_l1_table q) \<le> unat ?i1"
    using l1 geo by (simp_all add: word_le_nat_alt i1 unat_ucast_up geometry_ok_def not_le)
  note co = cluster_offset_bound [OF geo, of off]
  have co_lt: "\<not> q_cluster_size q \<le> ?co" using co(2) by simp
  have len': "min (unat (q_cluster_size q - ?co)) (length dst) = len" using co(3) len by simp
  note start = qcow2_read_cluster_def [of z False off dst q] index_values [OF geo] bind_outcome.simps(1) if_not_P [OF tab(1)]
    if_not_P [OF tab(2)] if_not_P [OF co_lt] len' Let_def
  show thesis
  proof (cases "?e1 = 0")
    case True
    have "qcow2_lookup q off = Some Zero" using True i1 by (simp add: qcow2_lookup_def)
    moreover have "q\<lparr>q_l2 := q_l2 q\<rparr> = q" by simp
    ultimately show thesis using inv True by (intro that [of "q_l2 q"]) (simp_all add: start cluster_bytes_def)
  next
    case False
    obtain s r where r: "qcow_read_l2_table False ?e1 q = Ret (q\<lparr>q_l2 := s\<rparr>, r)" "qcow_inv (q\<lparr>q_l2 := s\<rparr>)"
      "case r of None \<Rightarrow> False \<or> load_l2 (q_file q) (2 ^ l2bits q) ?e1 = None
       | Some a \<Rightarrow> \<exists>t. qs_tables s a = Some t \<and> load_l2 (q_file q) (2 ^ l2bits q) ?e1 = Some t"
      by (rule read_l2_table_ok [OF inv])
    show thesis
    proof (cases r)
      case None
      then have "qcow2_lookup q off = None" using r(3) False i1 by (simp add: qcow2_lookup_def Let_def)
      with r None False show thesis by (intro that [of s]) (simp_all add: start)
    next
      case (Some a)
      then obtain t where t: "qs_tables s a = Some t" "load_l2 (q_file q) (2 ^ l2bits q) ?e1 = Some t" using r(3) by auto
      have geo': "geometry_ok (q\<lparr>q_l2 := s\<rparr>)" using r(2) by (simp add: qcow_inv_def)
      let ?i2 = "drop_bit (cbits q) off AND (2 ^ l2bits q - 1)"
      note i2 = l2_index_bound [OF geo, of off]
      have idx: "unat ?i2 < length (l2_entries t)" unfolding i2(1) load_l2_length [OF t(2)] by simp
      let ?e = "l2_entries t ! unat ?i2"
      have entry: "l2_entry a ?i2 (q\<lparr>q_l2 := s\<rparr>) = Ret ?e" using t idx by (simp add: l2_entry_def)
      have gi: "get_l2_index (q\<lparr>q_l2 := s\<rparr>) off = Ret ?i2" using index_values(2) [OF geo'] by simp
      have lk: "qcow2_lookup q off = Some (if ?e AND QCOW2_OFLAG_COMPRESSED \<noteq> 0 then Compressed ?e
                      else if ?e AND QCOW2_OFFSET_MASK = 0 then Zero else Data (?e AND QCOW2_OFFSET_MASK))"
        using False t i1 i2(1) by (simp add: qcow2_lookup_def Let_def)
      then have nc: "?e AND QCOW2_OFLAG_COMPRESSED = 0" using look by (auto split: if_splits)
      have "qcow2_read_cluster z False off dst q =
          (if ?e AND QCOW2_OFFSET_MASK = 0 then Ret (q\<lparr>q_l2 := s\<rparr>, fill (replicate len 0) dst, int len)
           else (case pread_in_full (q_file q) len ((?e AND QCOW2_OFFSET_MASK) + ?co) of
             None \<Rightarrow> Ret (q\<lparr>q_l2 := s\<rparr>, dst, -1) | Some bs \<Rightarrow> Ret (q\<lparr>q_l2 := s\<rparr>, fill bs dst, int len)))"
        using False r(1) Some gi i2(2) entry nc by (simp add: start)
      with lk nc r(2) show thesis
        by (intro that [of s]) (auto simp: cluster_bytes_def split: option.splits)
    qed
  qed
qed

section \<open>The virtual disk\<close>

text \<open>Byte \<open>i\<close> of the disk the guest sees, from the tables and data of a QCOW2 image file.\<close>

definition vbyte :: "qcow \<Rightarrow> nat \<Rightarrow> u8" where
  "vbyte q i =
     (case qcow2_lookup q (of_nat i) of
        Some (Data start) \<Rightarrow> f_bytes (q_file q) ! (unat start + i mod 2 ^ cbits q)
      | _ \<Rightarrow> 0)"

text \<open>The cluster of byte \<open>i\<close> is mapped by the tables, not compressed, and inside the file.\<close>

definition readable :: "qcow \<Rightarrow> nat \<Rightarrow> bool" where
  "readable q i \<longleftrightarrow> i div 2 ^ (l2bits q + cbits q) < unat (q_table_size q) \<and>
     (case qcow2_lookup q (of_nat i) of
        Some Zero \<Rightarrow> True
      | Some (Data start) \<Rightarrow> unat start + 2 ^ cbits q \<le> length (f_bytes (q_file q))
      | _ \<Rightarrow> False)"

definition file_ok :: "qfile \<Rightarrow> bool" where
  "file_ok f \<longleftrightarrow> (\<forall>off. \<not> f_rd_err f off) \<and> length (f_bytes f) < 2 ^ 63"

lemma lookup_frame [simp]: "qcow2_lookup (q\<lparr>q_l2 := s\<rparr>) off = qcow2_lookup q off"
  by (simp add: qcow2_lookup_def Let_def cong: if_cong option.case_cong)

lemma vbyte_frame [simp]: "vbyte (q\<lparr>q_l2 := s\<rparr>) = vbyte q" "readable (q\<lparr>q_l2 := s\<rparr>) = readable q"
  by (auto simp: vbyte_def readable_def fun_eq_iff cong: option.case_cong cluster.case_cong)

lemma unat_of_nat64: "i < 2 ^ 64 \<Longrightarrow> unat (of_nat i :: u64) = i"
  by (simp add: unat_of_nat take_bit_nat_eq_self)

lemma lookup_same_cluster:
  assumes "i < 2 ^ 64" "j < 2 ^ 64" "i div 2 ^ cbits q = j div 2 ^ cbits q"
  shows "qcow2_lookup q (of_nat i) = qcow2_lookup q (of_nat j)"
proof -
  have "i div 2 ^ (l2bits q + cbits q) = j div 2 ^ (l2bits q + cbits q)"
    using assms(3) by (simp add: power_add mult.commute [of "2 ^ l2bits q"] div_mult2_eq)
  then show ?thesis using assms by (simp add: qcow2_lookup_def Let_def unat_of_nat64 cong: if_cong option.case_cong)
qed

lemma same_cluster: "i mod n + j < n \<Longrightarrow> (i + j) div n = i div n \<and> (i + j) mod n = i mod n + (j :: nat)"
proof -
  assume lt: "i mod n + j < n"
  have eq: "i + j = (i mod n + j) + i div n * n" by simp
  have "(i mod n + j + i div n * n) div n = i div n + (i mod n + j) div n" by (rule div_mult_self1) (use lt in simp)
  moreover have "(i mod n + j + i div n * n) mod n = (i mod n + j) mod n" by (rule mod_mult_self1)
  moreover have "(i mod n + j) div n = 0" "(i mod n + j) mod n = i mod n + j" using lt by simp_all
  ultimately have "(i mod n + j + i div n * n) div n = i div n \<and> (i mod n + j + i div n * n) mod n = i mod n + j"
    by (simp only: add_0_right simp_thms)
  then show ?thesis by (simp only: eq [symmetric])
qed

lemma vbytes_cluster:
  assumes geo: "geometry_ok q" and i: "i < 2 ^ 64" "readable q i" and f: "file_ok (q_file q)"
    and len: "0 < len" "i mod 2 ^ cbits q + len \<le> 2 ^ cbits q" "i + len \<le> 2 ^ 64"
  shows "\<exists>c. qcow2_lookup q (of_nat i) = Some c \<and> (\<forall>e. c \<noteq> Compressed e) \<and>
    cluster_bytes q c (of_nat i AND (2 ^ cbits q - 1)) len = Some (map (vbyte q) [i..<i + len])"
proof -
  let ?m = "i mod 2 ^ cbits q"
  have same: "qcow2_lookup q (of_nat (i + j)) = qcow2_lookup q (of_nat i)" "(i + j) mod 2 ^ cbits q = ?m + j" if "j < len" for j
    using same_cluster [of i "2 ^ cbits q" j] that len i(1) lookup_same_cluster [of "i + j" i q] by auto
  have vb: "map (vbyte q) [i..<i + len] = map (\<lambda>j. vbyte q (i + j)) [0..<len]"
    by (rule nth_equalityI) auto
  have co: "unat (of_nat i AND (2 ^ cbits q - 1) :: u64) = ?m"
    using cluster_offset_bound(1) [OF geo, of "of_nat i"] unat_of_nat64 [OF i(1)] by simp
  from i(2) consider "qcow2_lookup q (of_nat i) = Some Zero"
    | start where "qcow2_lookup q (of_nat i) = Some (Data start)" "unat start + 2 ^ cbits q \<le> length (f_bytes (q_file q))"
    by (auto simp: readable_def split: option.splits cluster.splits)
  then show ?thesis
  proof cases
    case 1
    have "map (\<lambda>j. vbyte q (i + j)) [0..<len] = replicate len 0"
      by (rule nth_equalityI) (use 1 same in \<open>auto simp: vbyte_def\<close>)
    with 1 vb show ?thesis by (auto simp: cluster_bytes_def)
  next
    case 2
    let ?off = "start + (of_nat i AND (2 ^ cbits q - 1))"
    have lt: "unat start + ?m + len \<le> length (f_bytes (q_file q))" "length (f_bytes (q_file q)) < 2 ^ 63"
      using 2 len f by (auto simp: file_ok_def)
    then have off: "unat ?off = unat start + ?m" using unat_add_lem [of start "of_nat i AND (2 ^ cbits q - 1)"] co by simp
    have "take len (drop (unat start + ?m) (f_bytes (q_file q))) = map (\<lambda>j. vbyte q (i + j)) [0..<len]"
      by (rule nth_equalityI) (use lt 2 same in \<open>auto simp: vbyte_def add.assoc\<close>)
    moreover have "take len (drop (unat start + ?m) (f_bytes (q_file q))) \<noteq> []" using lt len(1) by auto
    ultimately show ?thesis using 2 vb lt len(1) f off
      by (auto simp: cluster_bytes_def pread_in_full_def Let_def file_ok_def)
  qed
qed

lemma push_sector: "512 dvd i \<Longrightarrow> push_bit SECTOR_SHIFT (of_nat (i div 512) :: u64) = of_nat i"
proof -
  assume "512 dvd i"
  then obtain k where "i = 512 * k" ..
  then show ?thesis by (simp add: push_bit_eq_mult SECTOR_SHIFT_def)
qed

lemma next_sector:
  assumes "512 dvd i" "512 dvd len" "len < 2 ^ 32"
  shows "of_nat (i div 512) + ucast (drop_bit SECTOR_SHIFT (of_nat len :: u32)) = (of_nat ((i + len) div 512) :: u64)"
proof -
  have "unat (drop_bit SECTOR_SHIFT (of_nat len :: u32)) = len div 512"
    unfolding unat_drop_bit using assms(3) by (simp add: unat_of_nat take_bit_nat_eq_self SECTOR_SHIFT_def)
  then have "ucast (drop_bit SECTOR_SHIFT (of_nat len :: u32)) = (of_nat (len div 512) :: u64)"
    by (metis of_nat_unat)
  moreover have "(i + len) div 512 = i div 512 + len div 512" using assms(1,2) by (simp add: div_add)
  ultimately show ?thesis by simp
qed

text \<open>One pass of the loop, at byte \<open>k\<close> of the request, reads up to the end of the cluster or of the request.\<close>

lemma read_loop_step:
  assumes inv: "qcow_inv q" and v: "q_version q \<noteq> QCOW1_VERSION" and f: "file_ok (q_file q)"
    and L: "length dst = L" "L < 2 ^ 32" "k < L" and b: "base + L \<le> unat (h_size (q_header q))"
    and al: "512 dvd base" "512 dvd k" and r: "readable q (base + k)"
    and len: "len = min (2 ^ cbits q - (base + k) mod 2 ^ cbits q) (L - k)" and al': "512 dvd len"
  shows "\<exists>s. qcow_inv (q\<lparr>q_l2 := s\<rparr>) \<and>
    read_sector_loop z False (of_nat ((base + k) div 512)) (of_nat k) k dst q =
    read_sector_loop z False (of_nat ((base + k + len) div 512)) (of_nat (k + len)) (k + len)
      (take k dst @ map (vbyte q) [base + k..<base + k + len] @ drop (k + len) dst) (q\<lparr>q_l2 := s\<rparr>)"
proof -
  let ?i = "base + k" and ?off = "of_nat (base + k) :: u64" and ?d = "take (L - k) (drop k dst)"
  have geo: "geometry_ok q" using inv by (simp add: qcow_inv_def)
  have size: "unat (h_size (q_header q)) < 2 ^ 64" by (rule less_le_trans [OF unsigned_less]) simp
  have i: "?i < 2 ^ 64" "?i + len \<le> 2 ^ 64" "?i < unat (h_size (q_header q))" using b L len size by auto
  have k: "unat (of_nat k :: u32) = k" using L by (simp add: unat_of_nat take_bit_nat_eq_self)
  have m: "?i mod 2 ^ cbits q < 2 ^ cbits q" by simp
  have "len \<le> 2 ^ cbits q - ?i mod 2 ^ cbits q" using len by simp
  with m have len0: "0 < len" "len \<le> L - k" "?i mod 2 ^ cbits q + len \<le> 2 ^ cbits q"
    using L len by (simp, simp, linarith)
  have off: "push_bit SECTOR_SHIFT (of_nat (?i div 512)) = ?off" by (rule push_sector) (use al in simp)
  have oi: "unat ?off = ?i" using unat_of_nat64 [OF i(1)] .
  have lt: "\<not> h_size (q_header q) \<le> ?off" using i(3) oi by (simp add: word_le_nat_alt del: of_nat_add)
  obtain c where c: "qcow2_lookup q ?off = Some c" "\<forall>e. c \<noteq> Compressed e"
    "cluster_bytes q c (?off AND (2 ^ cbits q - 1)) len = Some (map (vbyte q) [?i..<?i + len])"
    using vbytes_cluster [OF geo i(1) r f len0(1,3) i(2)] by blast
  have l1: "unat ?off div 2 ^ (l2bits q + cbits q) < unat (q_table_size q)" using r oi by (simp add: readable_def del: of_nat_add)
  have len': "len = min (2 ^ cbits q - unat ?off mod 2 ^ cbits q) (length ?d)" using len L oi by (simp del: of_nat_add)
  have nc: "\<forall>e. qcow2_lookup q ?off \<noteq> Some (Compressed e)" using c by auto
  obtain s where s: "qcow_inv (q\<lparr>q_l2 := s\<rparr>)"
    "qcow2_read_cluster z False ?off ?d q = Ret (q\<lparr>q_l2 := s\<rparr>, fill (map (vbyte q) [?i..<?i + len]) ?d, int len)"
    using qcow2_read_cluster_ok [OF inv l1 len' nc, of z] unfolding c(1,3) option.case by blast
  have nr: "(word_of_int (int len) :: u32) = of_nat len" "unat (of_nat len :: u32) = len"
    using L len0 by (simp_all add: unat_of_nat take_bit_nat_eq_self)
  then have nr0: "(of_nat len :: u32) \<noteq> 0" using len0(1) by (metis less_irrefl unat_0)
  have dst: "take k dst @ fill (map (vbyte q) [?i..<?i + len]) ?d @ drop (k + length (fill (map (vbyte q) [?i..<?i + len]) ?d)) dst =
      take k dst @ map (vbyte q) [?i..<?i + len] @ drop (k + len) dst"
    using L len0 by (simp add: fill_def add.commute)
  have sum: "(of_nat (k + len) :: u32) = of_nat k + of_nat len" by simp
  show ?thesis
    by (intro exI [of _ s] conjI s(1), subst read_sector_loop.simps, subst sum)
       (use s lt off k v nr nr0 dst L len0 next_sector [OF _ al', of ?i] al in \<open>simp add: Let_def qcow_read_cluster_def del: of_nat_add\<close>)
qed

lemma read_loop_ok:
  assumes v: "q_version q \<noteq> QCOW1_VERSION" and f: "file_ok (q_file q)" and L: "L < 2 ^ 32" "512 dvd L"
    and b: "base + L \<le> unat (h_size (q_header q))" "512 dvd base" and r: "\<forall>i. base \<le> i \<and> i < base + L \<longrightarrow> readable q i"
  shows "k \<le> L \<Longrightarrow> 512 dvd k \<Longrightarrow> qcow_inv (q\<lparr>q_l2 := s0\<rparr>) \<Longrightarrow> length dst = L \<Longrightarrow>
    \<exists>s. qcow_inv (q\<lparr>q_l2 := s\<rparr>) \<and>
      read_sector_loop z False (of_nat ((base + k) div 512)) (of_nat k) k dst (q\<lparr>q_l2 := s0\<rparr>) =
      Some (Ret (q\<lparr>q_l2 := s\<rparr>, take k dst @ map (vbyte q) [base + k..<base + L], int L))"
proof (induction "L - k" arbitrary: k dst s0 rule: less_induct)
  case less
  show ?case
  proof (cases "k = L")
    case True
    have "unat (of_nat L :: u32) = L" using L by (simp add: unat_of_nat take_bit_nat_eq_self)
    with True less.prems show ?thesis by (subst read_sector_loop.simps) auto
  next
    case False
    let ?q = "q\<lparr>q_l2 := s0\<rparr>"
    let ?len = "min (2 ^ cbits q - (base + k) mod 2 ^ cbits q) (L - k)"
    have kL: "k < L" using False less.prems by simp
    have "9 \<le> cbits q" using less.prems(3) by (simp add: qcow_inv_def geometry_ok_def)
    then have "(2 ^ 9 :: nat) dvd 2 ^ cbits q" by (rule le_imp_power_dvd)
    then have cl: "512 dvd (2 :: nat) ^ cbits q" by simp
    have "512 dvd (base + k) mod 2 ^ cbits q" using cl b(2) less.prems(2) by (simp add: dvd_mod_iff)
    then have al: "512 dvd ?len" using cl L(2) less.prems(2) by (simp add: min_def)
    have pos: "0 < ?len" "k + ?len \<le> L" using kL by auto
    have rd: "readable ?q (base + k)" using r kL by simp
    from read_loop_step [OF less.prems(3), of dst L k base ?len z] v f less.prems(2,4) L kL b rd al obtain s1 where
      s1: "qcow_inv (q\<lparr>q_l2 := s1\<rparr>)"
      "read_sector_loop z False (of_nat ((base + k) div 512)) (of_nat k) k dst ?q =
       read_sector_loop z False (of_nat ((base + (k + ?len)) div 512)) (of_nat (k + ?len)) (k + ?len)
         (take k dst @ map (vbyte q) [base + k..<base + k + ?len] @ drop (k + ?len) dst) (q\<lparr>q_l2 := s1\<rparr>)"
      by (auto simp: add.assoc)
    let ?dst = "take k dst @ map (vbyte q) [base + k..<base + k + ?len] @ drop (k + ?len) dst"
    have dst: "length ?dst = L" "take (k + ?len) ?dst = take k dst @ map (vbyte q) [base + k..<base + k + ?len]"
      using less.prems(1,4) pos by auto
    have "L - (k + ?len) < L - k" using kL pos by linarith
    from less.hyps [OF this pos(2) _ s1(1) dst(1)] less.prems(2) al obtain s where
      s: "qcow_inv (q\<lparr>q_l2 := s\<rparr>)"
      "read_sector_loop z False (of_nat ((base + (k + ?len)) div 512)) (of_nat (k + ?len)) (k + ?len) ?dst (q\<lparr>q_l2 := s1\<rparr>) =
       Some (Ret (q\<lparr>q_l2 := s\<rparr>, take (k + ?len) ?dst @ map (vbyte q) [base + (k + ?len)..<base + L], int L))"
      by auto
    have "[base + k..<base + L] = [base + k..<base + k + ?len] @ [base + (k + ?len)..<base + L]"
      using pos upt_add_eq_append [of "base + k" "base + k + ?len" "L - k - ?len"] by (simp add: add.assoc)
    then show ?thesis using s s1(2) dst(2) by (auto simp: add.assoc)
  qed
qed

section \<open>Properties\<close>

text \<open>
  C4: reading sectors of a QCOW2 image returns the bytes of the virtual disk: for a request of
  whole sectors inside the disk whose clusters are mapped and not compressed, the loop ends,
  fills the whole buffer with what the tables in the file say (zeroes where nothing is allocated),
  whatever is or is not in the table cache, and returns the length. Only the cache changes.
\<close>

theorem qcow_read_sector_single_correct:
  assumes "qcow_inv q" "q_version q \<noteq> QCOW1_VERSION" "file_ok (q_file q)"
    and "length dst < 2 ^ 32" "512 dvd length dst" "unat sector * 512 + length dst \<le> unat (h_size (q_header q))"
    and "\<forall>i. unat sector * 512 \<le> i \<and> i < unat sector * 512 + length dst \<longrightarrow> readable q i"
  shows "\<exists>s. qcow_read_sector_single z False sector dst q =
    Some (Ret (q\<lparr>q_l2 := s\<rparr>, map (vbyte q) [unat sector * 512..<unat sector * 512 + length dst], int (length dst))) \<and>
    qcow_inv (q\<lparr>q_l2 := s\<rparr>)"
proof -
  have "qcow_inv (q\<lparr>q_l2 := q_l2 q\<rparr>)" using assms(1) by simp
  from read_loop_ok [OF assms(2-6) _ assms(7), of 0 "q_l2 q" dst z] this show ?thesis
    by (auto simp: qcow_read_sector_single_def)
qed

definition sample_file :: qfile where
  "sample_file = \<lparr>f_bytes = replicate 512 0 @ [0, 0, 0, 0, 0, 0, 4, 0] @ replicate 504 0 @ replicate 512 7,
     f_rd_err = (\<lambda>_. False), f_wr_err = (\<lambda>_. False), f_sync_err = False\<rparr>"

definition sample_qcow :: qcow where
  "sample_qcow =
     \<lparr>q_header = \<lparr>h_size = 0x8000, h_l1_table_offset = 0, h_l1_size = 1, h_cluster_bits = 9, h_l2_bits = 6,
        h_refcount_table_offset = 0, h_refcount_table_size = 0\<rparr>,
      q_table_size = 1, q_l1_table = [0x8000000000000200], q_l2 = qstore_empty, q_rf_size = 0, q_rf_table = [],
      q_rfb = qstore_empty, q_rfb_ready = True, q_file = sample_file, q_csize_shift = 61, q_csize_mask = 1,
      q_version = 2, q_cluster_size = 512, q_cluster_offset_mask = 0, q_free_clust_idx = 0,
      q_cluster_data = replicate 512 0, q_copy_buff = replicate 512 0\<rparr>"

lemma sample_lookup: "i < 512 \<Longrightarrow> qcow2_lookup sample_qcow (of_nat i) = Some (Data 0x400)"
proof -
  assume i: "i < 512"
  have u: "unat (of_nat i :: u64) = i" using i by (simp add: unat_of_nat64)
  have l1: "(0x8000000000000200 :: u64) AND NOT QCOW2_OFLAG_COPIED = 0x200"
    by (simp add: QCOW2_OFLAG_COPIED_def push_bit_eq_mult)
  have b: "take 512 (drop 512 (f_bytes sample_file)) = [0, 0, 0, 0, 0, 0, 4, 0] @ replicate 504 0"
    by (simp add: sample_file_def)
  have e: "be64s 64 ([0, 0, 0, 0, 0, 0, 4, 0] @ replicate 504 0) ! 0 = 0x400"
    by (simp add: be64s_def be64_def push_bit_eq_mult)
  have load: "load_l2 sample_file 64 0x200 = Some \<lparr>l2_offset = 0x200, l2_dirty = False,
      l2_entries = be64s 64 ([0, 0, 0, 0, 0, 0, 4, 0] @ replicate 504 0)\<rparr>"
    using b by (simp add: load_l2_def pread_in_full_def) (simp add: sample_file_def)
  have f: "(0x400 :: u64) AND QCOW2_OFLAG_COMPRESSED = 0" "(0x400 :: u64) AND QCOW2_OFFSET_MASK = 0x400"
    by (simp_all add: QCOW2_OFLAG_COMPRESSED_def QCOW2_OFFSET_MASK_def QCOW2_OFLAGS_MASK_def QCOW2_OFLAG_COPIED_def push_bit_eq_mult)
  show ?thesis using i u l1 load e f by (simp add: qcow2_lookup_def sample_qcow_def Let_def)
qed

lemma sample_qcow_ok: "qcow_inv sample_qcow" "file_ok (q_file sample_qcow)" "i < 512 \<Longrightarrow> readable sample_qcow i"
proof -
  show "qcow_inv sample_qcow" using l2.store_inv_empty by (simp add: qcow_inv_def geometry_ok_def sample_qcow_def)
  show "file_ok (q_file sample_qcow)" by (simp add: sample_qcow_def sample_file_def file_ok_def)
  show "i < 512 \<Longrightarrow> readable sample_qcow i"
    by (simp add: readable_def sample_lookup) (simp add: sample_qcow_def sample_file_def)
qed

theorem qcow_read_sector_single_correct_witness:
  "\<exists>q'. qcow_read_sector_single (\<lambda>_ _. None) False 0 (replicate 512 1) sample_qcow = Some (Ret (q', replicate 512 7, 512))"
proof -
  have "vbyte sample_qcow i = 7" if "i < 512" for i
    using that by (simp add: vbyte_def sample_lookup) (simp add: sample_qcow_def sample_file_def nth_append)
  then have "map (vbyte sample_qcow) [0..<512] = replicate 512 7" by (intro nth_equalityI) auto
  moreover have "q_version sample_qcow \<noteq> QCOW1_VERSION" "unat (h_size (q_header sample_qcow)) = 0x8000"
    by (simp_all add: sample_qcow_def QCOW1_VERSION_def)
  ultimately show ?thesis
    using qcow_read_sector_single_correct [OF sample_qcow_ok(1) _ sample_qcow_ok(2), of "replicate 512 1" 0 "\<lambda>_ _. None"]
      sample_qcow_ok(3) by auto
qed

text \<open>
  A failed read of the first cluster of a request is reported as success: the result -1
  becomes the unsigned value \<open>2 ^ 32 - 1\<close>, which passes the test \<^verbatim>\<open>nr <= 0\<close> and ends the loop, so that the
  length of the request is returned with the buffer as the failed read left it.
\<close>

theorem qcow_read_error_is_success:
  assumes "qcow_read_cluster z oom (push_bit SECTOR_SHIFT sector) dst q = Ret (q', d, -1)" "length d = length dst"
    and "push_bit SECTOR_SHIFT sector < h_size (q_header q)" "0 < length dst" "length dst < 2 ^ 32"
  shows "qcow_read_sector_single z oom sector dst q = Some (Ret (q', d, int (length dst)))"
proof -
  have m: "unat (-1 :: u32) = 2 ^ 32 - 1" by (simp add: unsigned_minus_1_eq_mask mask_eq_exp_minus_1)
  have "(word_of_int (-1) :: u32) = -1" by simp
  with assms m show ?thesis
    by (simp add: qcow_read_sector_single_def read_sector_loop.simps [of z oom sector 0] Let_def)
       (subst read_sector_loop.simps, simp)
qed

theorem qcow_read_error_is_success_witness:
  "\<exists>q'. qcow_read_sector_single (\<lambda>_ _. None) False 0 (replicate 512 1)
     (sample_qcow\<lparr>q_file := sample_file\<lparr>f_rd_err := \<lambda>_. True\<rparr>\<rparr>) = Some (Ret (q', replicate 512 1, 512))"
proof -
  let ?q = "sample_qcow\<lparr>q_file := sample_file\<lparr>f_rd_err := \<lambda>_. True\<rparr>\<rparr>"
  have inv: "qcow_inv ?q" using l2.store_inv_empty by (simp add: qcow_inv_def geometry_ok_def sample_qcow_def)
  have "(0x8000000000000200 :: u64) AND NOT QCOW2_OFLAG_COPIED = 0x200"
    by (simp add: QCOW2_OFLAG_COPIED_def push_bit_eq_mult)
  then have lk: "qcow2_lookup ?q 0 = None"
    by (simp add: qcow2_lookup_def sample_qcow_def Let_def load_l2_def pread_in_full_def)
  have l1: "unat (0 :: u64) div 2 ^ (l2bits ?q + cbits ?q) < unat (q_table_size ?q)" by (simp add: sample_qcow_def)
  have "\<exists>q'. qcow2_read_cluster (\<lambda>_ _. None) False 0 (replicate 512 1) ?q = Ret (q', replicate 512 1, -1)"
    by (rule qcow2_read_cluster_ok [OF inv l1 refl, where dst = "replicate 512 1" and z = "\<lambda>_ _. None"]) (auto simp only: lk option.case option.distinct)
  then obtain q' where "qcow_read_cluster (\<lambda>_ _. None) False (push_bit SECTOR_SHIFT 0) (replicate 512 1) ?q = Ret (q', replicate 512 1, -1)"
    by (auto simp: qcow_read_cluster_def sample_qcow_def QCOW1_VERSION_def)
  from qcow_read_error_is_success [OF this] show ?thesis by (auto simp: sample_qcow_def)
qed

lemma int_of_small: "unat w < 2 ^ 31 \<Longrightarrow> int_of w = int (unat w)"
proof -
  assume "unat w < 2 ^ 31"
  then have w: "uint w < 2 ^ 31" unfolding uint_nat by (metis of_nat_less_iff of_nat_numeral of_nat_power)
  have "uint (ucast w :: 32 word) = take_bit 32 (uint w)" by (simp add: unsigned_ucast_eq)
  also have "\<dots> = uint w" using w by (intro take_bit_int_eq_self) simp_all
  finally have u: "uint (ucast w :: 32 word) = uint w" .
  have "int_of w = signed_take_bit 31 (uint w)" unfolding int_of_def sint_uint u by simp
  also have "\<dots> = uint w" using w by (intro signed_take_bit_int_eq_self) (auto intro: order_trans [of _ 0])
  finally show ?thesis by simp
qed

lemma unat_word_of_int64: "0 \<le> x \<Longrightarrow> x < 2 ^ 64 \<Longrightarrow> unat (word_of_int x :: u64) = nat x"
  by (simp add: unat_eq_nat_uint uint_word_of_int)

text \<open>
  A compressed cluster whose table entry gives the largest size makes the reader fetch two
  clusters' worth of sectors into a buffer of one: with the masks the probe sets up and that many bytes in the file, the
  transfer overruns the buffer.
\<close>

theorem qcow2_compressed_overruns:
  assumes "geometry_ok q" "q_csize_shift q = 62 - (int (cbits q) - 8)" "q_csize_mask q = 2 ^ (cbits q - 8) - 1"
    and "drop_bit (nat (q_csize_shift q)) e AND word_of_int (q_csize_mask q) = word_of_int (q_csize_mask q)"
    and "0 \<le> int_of (e AND q_cluster_offset_mask q)" "file_ok (q_file q)"
    and "nat (int_of (e AND q_cluster_offset_mask q)) + 2 * 2 ^ cbits q \<le> length (f_bytes (q_file q))"
  shows "qcow2_compressed z e off len q = Undefined"
proof -
  let ?c = "int_of (e AND q_cluster_offset_mask q)"
  have cb: "9 \<le> cbits q" "cbits q < 31" and size: "length (q_cluster_data q) = 2 ^ cbits q"
    using assms(1) by (auto simp: geometry_ok_def unat_exp64)
  have shift: "0 \<le> q_csize_shift q \<and> q_csize_shift q < 64" using assms(2) cb by linarith
  have "(word_of_int (q_csize_mask q) + 1 :: u64) = 2 ^ (cbits q - 8)" using assms(3) by simp
  moreover have "unat (2 ^ (cbits q - 8) :: u64) = 2 ^ (cbits q - 8)" using cb by (intro unat_exp64) simp
  moreover have "(2 :: nat) ^ (cbits q - 8) < 2 ^ 31" by (rule power_strict_increasing) (use cb in simp_all)
  ultimately have nb: "int_of ((drop_bit (nat (q_csize_shift q)) e AND word_of_int (q_csize_mask q)) + 1) = 2 ^ (cbits q - 8)"
    unfolding assms(4) by (simp add: int_of_small)
  obtain k where k: "cbits q = 8 + k" using cb le_Suc_ex [of 8 "cbits q"] by auto
  have n: "nat ((2 :: int) ^ (cbits q - 8) * 512) = 2 * 2 ^ cbits q" by (simp add: k power_add nat_mult_distrib nat_power_eq)
  define start where "start = ?c - ?c mod 512"
  have st: "0 \<le> start" "start \<le> ?c" using assms(5) by (auto simp: start_def zmod_le_nonneg_dividend)
  have "nat ?c < 2 ^ 63" using assms(6,7) by (auto simp: file_ok_def)
  then have "?c < 2 ^ 63" using assms(5) by (simp add: nat_less_iff)
  then have u: "unat (word_of_int start :: u64) = nat start" using st by (intro unat_word_of_int64) auto
  let ?bs = "take (2 * 2 ^ cbits q) (drop (nat start) (f_bytes (q_file q)))"
  have len: "length ?bs = 2 * 2 ^ cbits q" using assms(7) st by auto
  have "pread_in_full (q_file q) (2 * 2 ^ cbits q) (word_of_int start) = Some ?bs"
    using assms(6) u len st \<open>?c < 2 ^ 63\<close> by (auto simp: pread_in_full_def Let_def file_ok_def nat_le_iff)
  then have "read_cluster_data (2 * 2 ^ cbits q) (word_of_int start) q = Undefined"
    using len size by (simp add: read_cluster_data_def)
  with shift nb n show ?thesis by (simp add: qcow2_compressed_def Let_def start_def)
qed

theorem qcow2_compressed_overruns_witness:
  "qcow2_compressed (\<lambda>_ _. None) 0x6000000000000000 0 512 sample_qcow = Undefined"
proof (rule qcow2_compressed_overruns)
  show "geometry_ok sample_qcow" using sample_qcow_ok(1) by (simp add: qcow_inv_def)
  show "file_ok (q_file sample_qcow)" by (rule sample_qcow_ok(2))
qed (simp_all add: sample_qcow_def sample_file_def int_of_def)

end
