(* ===== verification/QcowWrite.thy ===== *)
theory QcowWrite
  imports Qcow
begin

text \<open>
  \<^verbatim>\<open>disk/qcow.c\<close>, the write side: refcount blocks, cluster allocation and release, copy-on-write of
  tables and clusters, the sector loop, flushing and closing.

  What the environment decides is one record: whether an allocation fails (by the address it would
  get), what freshly allocated memory holds (the entries of a refcount block that a short read leaves as they are, and
  its \<^verbatim>\<open>dirty\<close> byte, which \<^verbatim>\<open>new_refcount_block\<close> does not set), and the decompressor. Loops and recursions that need not
  end have results of type \<open>outcome option\<close>, where \<open>None\<close> is not ending: the search for free clusters,
  and the recursion of the refcount update through the growth of the refcount table, whose depth is bounded by
  \<open>fuel\<close>; a growth fills an empty entry of the table, so that one more than the number of entries is
  enough.
\<close>

section \<open>Environment\<close>

record qenv =
  env_oom :: "nat \<Rightarrow> bool"
  env_junk :: "u8 list"
  env_dirty :: bool
  env_inflate :: inflate

fun bind_run :: "'a outcome option \<Rightarrow> ('a \<Rightarrow> 'b outcome option) \<Rightarrow> 'b outcome option" where
  "bind_run None f = None"
| "bind_run (Some (Ret x)) f = f x"
| "bind_run (Some Dies) f = Some Dies"
| "bind_run (Some Undefined) f = Some Undefined"

definition be16s :: "nat \<Rightarrow> u8 list \<Rightarrow> u8 list \<Rightarrow> u16 list" where
  "be16s n junk bs =
     (let buf = bs @ drop (length bs) junk @ replicate (2 * n) 0 in map (\<lambda>i. be16 (drop (2 * i) buf)) [0..<n])"

definition u16_be :: "u16 \<Rightarrow> u8 list" where "u16_be v = [ucast (drop_bit 8 v), ucast v]"

definition u64_be :: "u64 \<Rightarrow> u8 list" where
  "u64_be v = map (\<lambda>i. ucast (drop_bit (8 * i) v)) [7, 6, 5, 4, 3, 2, 1, 0]"

section \<open>Refcount blocks\<close>

definition rf_shift :: "qcow \<Rightarrow> nat outcome" where
  "rf_shift q = (if 1 \<le> cbits q \<and> cbits q \<le> 64 then Ret (cbits q - 1) else Undefined)"

definition load_rfb :: "qenv \<Rightarrow> qcow \<Rightarrow> u64 \<Rightarrow> qcow_refcount_block option" where
  "load_rfb env q offset =
     (let n = unat (q_cluster_size q) div 2
      in case pread_in_full (q_file q) (2 * n) offset of
           None \<Rightarrow> None
         | Some bs \<Rightarrow> Some \<lparr>rfb_offset = offset, rfb_dirty = env_dirty env, rfb_entries = be16s n (env_junk env) bs\<rparr>)"

datatype rfb_result = RfbNoSpace | RfbError | RfbAt nat

definition qcow_read_refcount_block :: "qenv \<Rightarrow> u64 \<Rightarrow> qcow \<Rightarrow> (qcow \<times> rfb_result) outcome" where
  "qcow_read_refcount_block env clust_idx q =
     bind_outcome (rf_shift q) (\<lambda>sh.
       let rft_idx = drop_bit sh clust_idx
       in if ucast (q_rf_size q) \<le> rft_idx then Ret (q, RfbNoSpace)
          else if length (q_rf_table q) \<le> unat rft_idx then Undefined
          else let rfb_off = q_rf_table q ! unat rft_idx
            in if rfb_off = 0 then Ret (q, RfbNoSpace)
               else bind_outcome (read_table (env_oom env (qs_next (q_rfb q))) (load_rfb env q) rfb_off (q_rfb q)) (\<lambda>(s, r).
                 Ret (q\<lparr>q_rfb := s\<rparr>, case r of None \<Rightarrow> RfbError | Some a \<Rightarrow> RfbAt a)))"

text \<open>Entry \<^verbatim>\<open>rfb_idx\<close> of a block; \<open>Ret None\<close> is the out-of-bounds warning.\<close>

definition rfb_index :: "u64 \<Rightarrow> qcow \<Rightarrow> nat outcome" where
  "rfb_index clust_idx q = bind_outcome (rf_shift q) (\<lambda>sh. Ret (unat clust_idx mod 2 ^ sh))"

definition rfb_block :: "nat \<Rightarrow> qcow \<Rightarrow> qcow_refcount_block outcome" where
  "rfb_block a q = (case qs_tables (q_rfb q) a of None \<Rightarrow> Undefined | Some b \<Rightarrow> Ret b)"

definition qcow_get_refcount :: "qenv \<Rightarrow> u64 \<Rightarrow> qcow \<Rightarrow> (qcow \<times> u16) outcome" where
  "qcow_get_refcount env clust_idx q =
     bind_outcome (qcow_read_refcount_block env clust_idx q) (\<lambda>(q, r).
       case r of
         RfbNoSpace \<Rightarrow> Ret (q, 0)
       | RfbError \<Rightarrow> Ret (q, -1)
       | RfbAt a \<Rightarrow>
           bind_outcome (rfb_block a q) (\<lambda>b. bind_outcome (rfb_index clust_idx q) (\<lambda>i.
             Ret (q, if length (rfb_entries b) \<le> i then -1 else rfb_entries b ! i))))"

definition put_rfb :: "nat \<Rightarrow> qcow_refcount_block \<Rightarrow> qcow \<Rightarrow> qcow" where
  "put_rfb a b q = q\<lparr>q_rfb := (q_rfb q)\<lparr>qs_tables := (qs_tables (q_rfb q))(a \<mapsto> b)\<rparr>\<rparr>"

definition write_refcount_block :: "nat \<Rightarrow> qcow \<Rightarrow> (qcow \<times> bool) outcome" where
  "write_refcount_block a q =
     bind_outcome (rfb_block a q) (\<lambda>b.
       if \<not> rfb_dirty b then Ret (q, True)
       else (case qcow_pwrite_sync (q_file q) (concat (map u16_be (rfb_entries b))) (rfb_offset b) of
               (f, ok) \<Rightarrow> Ret (if ok then put_rfb a (b\<lparr>rfb_dirty := False\<rparr>) (q\<lparr>q_file := f\<rparr>) else q\<lparr>q_file := f\<rparr>, ok)))"

definition qcow_write_refcount_table :: "qcow \<Rightarrow> qcow \<times> bool" where
  "qcow_write_refcount_table q =
     (case qcow_pwrite_sync (q_file q) (concat (map u64_be (q_rf_table q))) (h_refcount_table_offset (q_header q)) of
        (f, ok) \<Rightarrow> (q\<lparr>q_file := f\<rparr>, ok))"

section \<open>Finding free clusters\<close>

text \<open>
  The first loop of \<^verbatim>\<open>qcow_alloc_clusters\<close>: the index taken is the lower 32 bits of the position, which
  grows on every step; a used cluster starts the count again. \<open>Some None\<close> is the return of -1.
\<close>

partial_function (option) alloc_scan :: "qenv \<Rightarrow> u64 \<Rightarrow> u32 \<Rightarrow> u32 \<Rightarrow> qcow \<Rightarrow> (qcow \<times> u32 option) outcome option" where
  "alloc_scan env clust_num i lst q =
     (if ucast i < clust_num then
        let idx = ucast (q_free_clust_idx q) :: u32; q = q\<lparr>q_free_clust_idx := q_free_clust_idx q + 1\<rparr>
        in (case qcow_get_refcount env (ucast idx) q of
              Ret (q, r) \<Rightarrow>
                if r = -1 then Some (Ret (q, None))
                else if 0 < r then alloc_scan env clust_num 0 idx q
                else alloc_scan env clust_num (i + 1) idx q
            | Dies \<Rightarrow> Some Dies | Undefined \<Rightarrow> Some Undefined)
      else Some (Ret (q, Some lst)))"

text \<open>The index of the first cluster of a free run long enough for \<open>sz\<close> bytes, and the length of the run.\<close>

definition find_clusters :: "qenv \<Rightarrow> u64 \<Rightarrow> qcow \<Rightarrow> (qcow \<times> (u64 \<times> u64) option) outcome option" where
  "find_clusters env sz q =
     (let clust_num = drop_bit (cbits q) (sz + (q_cluster_size q - 1))
      in bind_run (alloc_scan env clust_num 0 0 q) (\<lambda>(q, r).
           Some (Ret (q, case r of None \<Rightarrow> None | Some lst \<Rightarrow> Some (ucast (lst + 1) - clust_num, clust_num)))))"

section \<open>Changing refcounts\<close>

text \<open>
  \<^verbatim>\<open>qcow_grow_refcount_block\<close>, given the recursive call of \<^verbatim>\<open>update_cluster_refcount\<close>. The result is
  the address of the new block, if there is one. On the way out after a failed update the block is
  freed although it is still in the cache.
\<close>

definition qcow_grow_refcount_block ::
  "(u64 \<Rightarrow> u16 \<Rightarrow> qcow \<Rightarrow> (qcow \<times> int) outcome option) \<Rightarrow> qenv \<Rightarrow> u64 \<Rightarrow> qcow \<Rightarrow> (qcow \<times> nat option) outcome option" where
  "qcow_grow_refcount_block upd env clust_idx q =
     bind_run (Some (rf_shift q)) (\<lambda>sh.
     let rft_idx = drop_bit sh clust_idx
     in if ucast (q_rf_size q) \<le> rft_idx then Some (Ret (q, None)) else
     bind_run (find_clusters env (q_cluster_size q) q) (\<lambda>(q, r).
     case r of None \<Rightarrow> Some (Ret (q, None)) | Some (first, clust_num) \<Rightarrow>
     let new_off = push_bit (cbits q) first;
         a = qs_next (q_rfb q)
     in if new_off = -1 then Some (Ret (q, None)) else
     if env_oom env a then Some (Ret (q, None)) else
     let n = unat (q_cluster_size q) div 2;
         b = \<lparr>rfb_offset = new_off, rfb_dirty = True, rfb_entries = replicate n 0\<rparr>;
         q = put_rfb a b (q\<lparr>q_rfb := (q_rfb q)\<lparr>qs_next := a + 1\<rparr>\<rparr>)
     in bind_run (Some (write_refcount_block a q)) (\<lambda>(q, ok).
     if \<not> ok then Some (Ret (q\<lparr>q_rfb := (q_rfb q)\<lparr>qs_tables := (qs_tables (q_rfb q))(a := None)\<rparr>\<rparr>, None)) else
     bind_run (Some (cache_table \<lparr>qn_offset = new_off, qn_addr = a\<rparr> (qs_cache (q_rfb q)))) (\<lambda>(c, freed).
     let q = q\<lparr>q_rfb := (q_rfb q)\<lparr>qs_cache := c, qs_tables := free_table freed (qs_tables (q_rfb q))\<rparr>\<rparr>
     in if length (q_rf_table q) \<le> unat rft_idx then Some Undefined else
     let q = q\<lparr>q_rf_table := (q_rf_table q)[unat rft_idx := new_off]\<rparr>;
         undo = (\<lambda>q. q\<lparr>q_rf_table := (q_rf_table q)[unat rft_idx := 0],
                       q_rfb := (q_rfb q)\<lparr>qs_tables := (qs_tables (q_rfb q))(a := None)\<rparr>\<rparr>)
     in bind_run (upd (drop_bit (cbits q) new_off) 1 q) (\<lambda>(q, r).
     if r < 0 then Some (Ret (undo q, None)) else
     case qcow_write_refcount_table q of (q, ok) \<Rightarrow>
     if ok then Some (Ret (q, Some a)) else Some (Ret (undo q, None)))))))"

fun update_cluster_refcount :: "nat \<Rightarrow> qenv \<Rightarrow> u64 \<Rightarrow> u16 \<Rightarrow> qcow \<Rightarrow> (qcow \<times> int) outcome option" where
  "update_cluster_refcount 0 env clust_idx delta q = None"
| "update_cluster_refcount (Suc fuel) env clust_idx delta q =
     bind_run (Some (qcow_read_refcount_block env clust_idx q)) (\<lambda>(q, r).
     bind_run (case r of
                 RfbError \<Rightarrow> Some (Ret (q, None))
               | RfbAt a \<Rightarrow> Some (Ret (q, Some a))
               | RfbNoSpace \<Rightarrow> qcow_grow_refcount_block (update_cluster_refcount fuel env) env clust_idx q) (\<lambda>(q, r).
     case r of None \<Rightarrow> Some (Ret (q, -1)) | Some a \<Rightarrow>
     bind_run (Some (rfb_block a q)) (\<lambda>b.
     bind_run (Some (rfb_index clust_idx q)) (\<lambda>i.
     if length (rfb_entries b) \<le> i then Some (Ret (q, -1)) else
     let refcount = rfb_entries b ! i + delta;
         q = put_rfb a (b\<lparr>rfb_entries := (rfb_entries b)[i := refcount], rfb_dirty := True\<rparr>) q
     in bind_run (Some (write_refcount_block a q)) (\<lambda>(q, ok).
     if \<not> ok then Some (Ret (q, -1)) else
     Some (Ret (if refcount = 0 \<and> clust_idx < q_free_clust_idx q then q\<lparr>q_free_clust_idx := clust_idx\<rparr> else q, 0)))))))"

declare update_cluster_refcount.simps [simp del]

definition refcount_fuel :: "qcow \<Rightarrow> nat" where "refcount_fuel q = length (q_rf_table q) + 1"

text \<open>The loop of \<^verbatim>\<open>qcow_free_clusters\<close> over the clusters of a range; results are ignored.\<close>

fun free_loop :: "nat \<Rightarrow> qenv \<Rightarrow> u64 \<Rightarrow> u64 \<Rightarrow> qcow \<Rightarrow> qcow outcome option" where
  "free_loop 0 env offset lst q = None"
| "free_loop (Suc fuel) env offset lst q =
     (if offset \<le> lst
      then bind_run (update_cluster_refcount (refcount_fuel q) env (drop_bit (cbits q) offset) (-1) q) (\<lambda>(q, _).
        free_loop fuel env (offset + q_cluster_size q) lst q)
      else Some (Ret q))"

definition qcow_free_clusters :: "qenv \<Rightarrow> u64 \<Rightarrow> u64 \<Rightarrow> qcow \<Rightarrow> qcow outcome option" where
  "qcow_free_clusters env clust_start sz q =
     free_loop (unat sz + 2) env (clust_start AND NOT (q_cluster_size q - 1))
       ((clust_start + sz - 1) AND NOT (q_cluster_size q - 1)) q"

text \<open>Raising the refcount of every cluster of an allocation; \<open>False\<close> is the return of -1.\<close>

fun claim_loop :: "qenv \<Rightarrow> u64 list \<Rightarrow> qcow \<Rightarrow> (qcow \<times> bool) outcome option" where
  "claim_loop env [] q = Some (Ret (q, True))"
| "claim_loop env (c # cs) q =
     bind_run (update_cluster_refcount (refcount_fuel q) env c 1 q) (\<lambda>(q, r).
       if r \<noteq> 0 then Some (Ret (q, False)) else claim_loop env cs q)"

definition qcow_alloc_clusters :: "qenv \<Rightarrow> u64 \<Rightarrow> bool \<Rightarrow> qcow \<Rightarrow> (qcow \<times> u64) outcome option" where
  "qcow_alloc_clusters env sz update_ref q =
     bind_run (find_clusters env sz q) (\<lambda>(q, r).
       case r of
         None \<Rightarrow> Some (Ret (q, -1))
       | Some (first, clust_num) \<Rightarrow>
           bind_run (if update_ref then claim_loop env (map (\<lambda>i. first + of_nat i) [0..<unat clust_num]) q
                     else Some (Ret (q, True))) (\<lambda>(q, ok).
             Some (Ret (q, if ok then push_bit (cbits q) first else -1))))"

section \<open>Level-2 tables\<close>

definition put_l2 :: "nat \<Rightarrow> qcow_l2_table \<Rightarrow> qcow \<Rightarrow> qcow" where
  "put_l2 a t q = q\<lparr>q_l2 := (q_l2 q)\<lparr>qs_tables := (qs_tables (q_l2 q))(a \<mapsto> t)\<rparr>\<rparr>"

definition drop_l2 :: "nat \<Rightarrow> qcow \<Rightarrow> qcow" where
  "drop_l2 a q = q\<lparr>q_l2 := (q_l2 q)\<lparr>qs_tables := (qs_tables (q_l2 q))(a := None)\<rparr>\<rparr>"

definition l2_at :: "nat \<Rightarrow> qcow \<Rightarrow> qcow_l2_table outcome" where
  "l2_at a q = (case qs_tables (q_l2 q) a of None \<Rightarrow> Undefined | Some t \<Rightarrow> Ret t)"

definition qcow_l2_cache_write :: "nat \<Rightarrow> qcow \<Rightarrow> (qcow \<times> bool) outcome" where
  "qcow_l2_cache_write a q =
     bind_outcome (l2_at a q) (\<lambda>t.
       if \<not> l2_dirty t then Ret (q, True)
       else (case qcow_pwrite_sync (q_file q) (concat (map u64_be (l2_entries t))) (l2_offset t) of
               (f, ok) \<Rightarrow> Ret (if ok then put_l2 a (t\<lparr>l2_dirty := False\<rparr>) (q\<lparr>q_file := f\<rparr>) else q\<lparr>q_file := f\<rparr>, ok)))"

definition qcow_write_l1_table :: "qcow \<Rightarrow> qcow \<times> bool" where
  "qcow_write_l1_table q =
     (case qcow_pwrite_sync (q_file q) (concat (map u64_be (q_l1_table q))) (h_l1_table_offset (q_header q)) of
        (f, ok) \<Rightarrow> (q\<lparr>q_file := f\<rparr>, ok))"

text \<open>A new zeroed table outside the cache; \<open>None\<close> when the allocation fails.\<close>

definition new_cache_table :: "qenv \<Rightarrow> u64 \<Rightarrow> qcow \<Rightarrow> (qcow \<times> nat option) outcome" where
  "new_cache_table env offset q =
     bind_outcome (one_shl (h_l2_bits (q_header q))) (\<lambda>n.
       let a = qs_next (q_l2 q)
       in if env_oom env a then Ret (q, None)
          else Ret (put_l2 a \<lparr>l2_offset = offset, l2_dirty = False, l2_entries = replicate (unat n) 0\<rparr>
                      (q\<lparr>q_l2 := (q_l2 q)\<lparr>qs_next := a + 1\<rparr>\<rparr>), Some a))"

text \<open>
  \<^verbatim>\<open>get_cluster_table\<close>, its second branch first: copying a table to a new cluster. The test after the
  allocation is the one of the code: a successful allocation goes to the error exit. The result is
  the address of the table and the index, if any.
\<close>

definition free_cluster_exit :: "qenv \<Rightarrow> u64 \<Rightarrow> qcow \<Rightarrow> (qcow \<times> (nat \<times> u64) option) outcome option" where
  "free_cluster_exit env new_off q =
     bind_run (qcow_free_clusters env new_off (q_cluster_size q) q) (\<lambda>q. Some (Ret (q, None)))"

definition install_table :: "qenv \<Rightarrow> u64 \<Rightarrow> u64 \<Rightarrow> u64 \<Rightarrow> u64 \<Rightarrow> nat \<Rightarrow> qcow \<Rightarrow> (qcow \<times> (nat \<times> u64) option) outcome option" where
  "install_table env l1t_idx l2t_idx l2t_offset new_off a q =
     bind_run (Some (l2_at a q)) (\<lambda>t.
     bind_run (Some (qcow_l2_cache_write a (put_l2 a (t\<lparr>l2_dirty := True\<rparr>) q))) (\<lambda>(q, ok).
     if \<not> ok then free_cluster_exit env new_off (drop_l2 a q) else
     bind_run (Some (cache_table \<lparr>qn_offset = l2_offset t, qn_addr = a\<rparr> (qs_cache (q_l2 q)))) (\<lambda>(c, freed).
     let q = q\<lparr>q_l2 := (q_l2 q)\<lparr>qs_cache := c, qs_tables := free_table freed (qs_tables (q_l2 q))\<rparr>,
               q_l1_table := (q_l1_table q)[unat l1t_idx := new_off OR QCOW2_OFLAG_COPIED]\<rparr>
     in case qcow_write_l1_table q of (q, ok) \<Rightarrow>
       if \<not> ok then free_cluster_exit env new_off (drop_l2 a q)
       else bind_run (qcow_free_clusters env l2t_offset (q_cluster_size q) q) (\<lambda>q. Some (Ret (q, Some (a, l2t_idx)))))))"

definition copy_table :: "qenv \<Rightarrow> u64 \<Rightarrow> u64 \<Rightarrow> u64 \<Rightarrow> u64 \<Rightarrow> qcow \<Rightarrow> (qcow \<times> (nat \<times> u64) option) outcome option" where
  "copy_table env l1t_idx l2t_idx l2t_size l2t_offset q =
     bind_run (qcow_alloc_clusters env (l2t_size * 8) True q) (\<lambda>(q, new_off).
     if new_off \<noteq> -1 then Some (Ret (q, None)) else
     bind_run (Some (new_cache_table env new_off q)) (\<lambda>(q, r).
     case r of None \<Rightarrow> free_cluster_exit env new_off q | Some fresh \<Rightarrow>
     bind_run (if l2t_offset \<noteq> 0
               then Some (qcow_read_l2_table (env_oom env (qs_next (q_l2 q))) l2t_offset q)
               else Some (Ret (q, Some fresh))) (\<lambda>(q, r).
     case r of None \<Rightarrow> free_cluster_exit env new_off q
     | Some a \<Rightarrow> install_table env l1t_idx l2t_idx l2t_offset new_off a q)))"

definition get_cluster_table :: "qenv \<Rightarrow> u64 \<Rightarrow> qcow \<Rightarrow> (qcow \<times> (nat \<times> u64) option) outcome option" where
  "get_cluster_table env offset q =
     bind_run (Some (one_shl (h_l2_bits (q_header q)))) (\<lambda>l2t_size.
     bind_run (Some (get_l1_index q offset)) (\<lambda>l1t_idx.
     if ucast (q_table_size q) \<le> l1t_idx then Some (Ret (q, None)) else
     bind_run (Some (get_l2_index q offset)) (\<lambda>l2t_idx.
     if l2t_size \<le> l2t_idx then Some (Ret (q, None)) else
     if length (q_l1_table q) \<le> unat l1t_idx then Some Undefined else
     let l2t_offset = q_l1_table q ! unat l1t_idx
     in if l2t_offset AND QCOW2_OFLAG_COPIED \<noteq> 0 then
       bind_run (Some (qcow_read_l2_table (env_oom env (qs_next (q_l2 q))) (l2t_offset AND NOT QCOW2_OFLAG_COPIED) q)) (\<lambda>(q, r).
         Some (Ret (q, case r of None \<Rightarrow> None | Some a \<Rightarrow> Some (a, l2t_idx))))
     else copy_table env l1t_idx l2t_idx l2t_size l2t_offset q)))"

section \<open>Writing a cluster\<close>

text \<open>The result of \<^verbatim>\<open>pwrite_in_full\<close> on the image.\<close>

definition write_image :: "u8 list \<Rightarrow> u64 \<Rightarrow> qcow \<Rightarrow> qcow \<times> bool" where
  "write_image buf offset q =
     (case pwrite_in_full (q_file q) buf offset of None \<Rightarrow> (q, False) | Some f \<Rightarrow> (q\<lparr>q_file := f\<rparr>, True))"

text \<open>
  \<^verbatim>\<open>qcow_write_cluster\<close>. Again the test after the allocation is the one of the code. The clusters that
  are freed on an error, and the old cluster, go through \<^verbatim>\<open>qcow_free_clusters\<close>.
\<close>

definition copy_cluster :: "qenv \<Rightarrow> u64 \<Rightarrow> u64 \<Rightarrow> u64 \<Rightarrow> u8 list \<Rightarrow> nat \<Rightarrow> u64 \<Rightarrow> u64 \<Rightarrow> qcow \<Rightarrow> (qcow \<times> int) outcome option" where
  "copy_cluster env offset clust_start clust_flags buf l2t l2t_idx clust_off q =
     bind_run (qcow_alloc_clusters env (q_cluster_size q) True q) (\<lambda>(q, new_start).
     if new_start \<noteq> -1 then Some (Ret (q, -1)) else
     let fail = (\<lambda>q. bind_run (qcow_free_clusters env new_start (q_cluster_size q) q) (\<lambda>q. Some (Ret (q, -1))))
     in bind_run (if clust_start \<noteq> 0
                  then Some (qcow2_read_cluster (env_inflate env) (env_oom env (qs_next (q_l2 q)))
                         (offset AND NOT (q_cluster_size q - 1)) (q_copy_buff q) q)
                  else Some (Ret (q, replicate (unat (q_cluster_size q)) 0, 0))) (\<lambda>(q, copy, r).
     let q = q\<lparr>q_copy_buff := copy\<rparr>
     in if r < 0 then fail q else
     let n = unat clust_off; copy = take n copy @ buf @ drop (n + length buf) copy; q = q\<lparr>q_copy_buff := copy\<rparr>
     in case write_image copy new_start q of (q, ok) \<Rightarrow>
     if \<not> ok then fail q else
     bind_run (Some (l2_at l2t q)) (\<lambda>t.
     let t = t\<lparr>l2_entries := (l2_entries t)[unat l2t_idx := new_start OR QCOW2_OFLAG_COPIED], l2_dirty := True\<rparr>
     in bind_run (Some (qcow_l2_cache_write l2t (put_l2 l2t t q))) (\<lambda>(q, ok).
     if \<not> ok then fail q else
     bind_run
       (if clust_flags AND QCOW2_OFLAG_COMPRESSED \<noteq> 0
        then (if 0 \<le> q_csize_shift q \<and> q_csize_shift q < 64
              then let sz = int_of ((drop_bit (nat (q_csize_shift q)) clust_start AND word_of_int (q_csize_mask q)) + 1) * 512
                   in if 2 ^ 31 \<le> sz then Some Undefined
                   else qcow_free_clusters env (clust_start AND q_cluster_offset_mask q AND NOT 511) (word_of_int sz) q
              else Some Undefined)
        else if clust_start \<noteq> 0 then qcow_free_clusters env clust_start (q_cluster_size q) q
        else Some (Ret q)) (\<lambda>q. Some (Ret (q, int (length buf))))))))"

definition qcow_write_cluster :: "qenv \<Rightarrow> u64 \<Rightarrow> u8 list \<Rightarrow> qcow \<Rightarrow> (qcow \<times> int) outcome option" where
  "qcow_write_cluster env offset src q =
     bind_run (Some (get_cluster_offset q offset)) (\<lambda>clust_off.
     if q_cluster_size q \<le> clust_off then Some (Ret (q, -1)) else
     let buf = take (unat (q_cluster_size q - clust_off)) src
     in bind_run (get_cluster_table env offset q) (\<lambda>(q, r).
     case r of None \<Rightarrow> Some (Ret (q, -1)) | Some (l2t, l2t_idx) \<Rightarrow>
     bind_run (Some (l2_entry l2t l2t_idx q)) (\<lambda>e.
     let clust_flags = e AND QCOW2_OFLAGS_MASK; clust_start = e AND QCOW2_OFFSET_MASK
     in if clust_flags AND QCOW2_OFLAG_COPIED = 0
        then copy_cluster env offset clust_start clust_flags buf l2t l2t_idx clust_off q
        else (case write_image buf (clust_start + clust_off) q of
                (q, ok) \<Rightarrow> Some (Ret (q, if ok then int (length buf) else -1))))))"

section \<open>Writing sectors, flushing, closing\<close>

text \<open>The loop ends: every pass that does not return writes at least one byte. \<open>fuel\<close> is the length of the request and one.\<close>

fun write_sector_loop :: "nat \<Rightarrow> qenv \<Rightarrow> u64 \<Rightarrow> u8 list \<Rightarrow> nat \<Rightarrow> qcow \<Rightarrow> (qcow \<times> int) outcome option" where
  "write_sector_loop 0 env offset src nr_written q = None"
| "write_sector_loop (Suc fuel) env offset src nr_written q =
     (if nr_written < length src then
        if h_size (q_header q) \<le> offset then Some (Ret (q, -1))
        else bind_run (qcow_write_cluster env offset (drop nr_written src) q) (\<lambda>(q, nr).
          if nr < 0 then Some (Ret (q, -1))
          else write_sector_loop fuel env (offset + word_of_int nr) src (nr_written + nat nr) q)
      else Some (Ret (q, int nr_written)))"

definition qcow_write_sector_single :: "qenv \<Rightarrow> u64 \<Rightarrow> u8 list \<Rightarrow> qcow \<Rightarrow> (qcow \<times> int) outcome option" where
  "qcow_write_sector_single env sector src q =
     write_sector_loop (length src + 1) env (push_bit SECTOR_SHIFT sector) src 0 q"

fun qcow_write_sector :: "qenv \<Rightarrow> u64 \<Rightarrow> u8 list list \<Rightarrow> int \<Rightarrow> qcow \<Rightarrow> (qcow \<times> int) outcome option" where
  "qcow_write_sector env sector [] tot q = Some (Ret (q, tot))"
| "qcow_write_sector env sector (src # iov) tot q =
     bind_run (qcow_write_sector_single env sector (take (length src mod 2 ^ 32) src) q) (\<lambda>(q, nr).
       if nr \<noteq> int (length src) then Some (Ret (q, -1))
       else qcow_write_sector env (sector + of_nat (length src div 512)) iov (tot + nr) q)"

text \<open>Writing back every cached block and table, in list order, until one fails.\<close>

fun flush_loop :: "(nat \<Rightarrow> qcow \<Rightarrow> (qcow \<times> bool) outcome) \<Rightarrow> qnode list \<Rightarrow> qcow \<Rightarrow> (qcow \<times> bool) outcome" where
  "flush_loop wr [] q = Ret (q, True)"
| "flush_loop wr (n # ns) q = bind_outcome (wr (qn_addr n) q) (\<lambda>(q, ok). if ok then flush_loop wr ns q else Ret (q, False))"

text \<open>
  The level-1 table is not written: \<^verbatim>\<open>qcow_write_l1_table < 0\<close> compares the function itself. The list
  of refcount blocks is only initialised for QCOW2 images. \<open>fsync\<close> is the result of the last call.
\<close>

definition qcow_disk_flush :: "int \<Rightarrow> qcow \<Rightarrow> (qcow \<times> int) outcome" where
  "qcow_disk_flush fsync q =
     (if \<not> q_rfb_ready q then Undefined
      else bind_outcome (flush_loop write_refcount_block (qc_lru (qs_cache (q_rfb q))) q) (\<lambda>(q, ok).
        if \<not> ok then Ret (q, -1)
        else bind_outcome (flush_loop qcow_l2_cache_write (qc_lru (qs_cache (q_l2 q))) q) (\<lambda>(q, ok).
          if \<not> ok then Ret (q, -1) else Ret (q, fsync))))"

definition qcow_disk_close :: "qcow \<Rightarrow> int outcome" where
  "qcow_disk_close q =
     (if \<not> q_rfb_ready q then Undefined
      else bind_outcome (table_free_cache (qs_cache (q_rfb q))) (\<lambda>_.
        bind_outcome (table_free_cache (qs_cache (q_l2 q))) (\<lambda>_. Ret 0)))"

end
