(* ===== verification/QcowDisk.thy ===== *)
theory QcowDisk
  imports QcowWrite
begin

text \<open>
  The virtual disk of a QCOW2 image under writes: writing clusters that the image owns changes the
  bytes of the request and nothing else, and reading gives them back; what happens to
  every other cluster; flushing and closing.
\<close>

section \<open>Bytes of the file\<close>

definition patch :: "nat \<Rightarrow> 'a list \<Rightarrow> 'a list \<Rightarrow> 'a list" where
  "patch p buf bs = take p bs @ buf @ drop (p + length buf) bs"

definition apart :: "nat \<Rightarrow> nat \<Rightarrow> nat \<Rightarrow> nat \<Rightarrow> bool" where
  "apart a n b m \<longleftrightarrow> a + n \<le> b \<or> b + m \<le> a"

lemma patch_length [simp]: "p + length buf \<le> length bs \<Longrightarrow> length (patch p buf bs) = length bs"
  by (simp add: patch_def)

lemma patch_nth:
  "p + length buf \<le> length bs \<Longrightarrow> j < length bs \<Longrightarrow>
   patch p buf bs ! j = (if p \<le> j \<and> j < p + length buf then buf ! (j - p) else bs ! j)"
  by (auto simp: patch_def nth_append min_def)

lemma patch_apart:
  assumes "p + length buf \<le> length bs" "apart p (length buf) off n"
  shows "take n (drop off (patch p buf bs)) = take n (drop off bs)"
  by (rule nth_equalityI) (use assms in \<open>auto simp: patch_nth apart_def\<close>)

lemma apart_sub: "apart a n b m \<Longrightarrow> a \<le> a' \<Longrightarrow> a' + n' \<le> a + n \<Longrightarrow> apart a' n' b m"
  by (auto simp: apart_def)

lemma pwrite_inside:
  assumes "buf \<noteq> []" "unat off + length buf \<le> length (f_bytes f)" "length (f_bytes f) < 2 ^ 63" "\<not> f_wr_err f off"
  shows "pwrite_in_full f buf off = Some (f\<lparr>f_bytes := patch (unat off) buf (f_bytes f)\<rparr>)"
  using assms by (simp add: pwrite_in_full_def patch_def Let_def)

lemma load_l2_patch:
  assumes "p + length buf \<le> length (f_bytes f)" "apart p (length buf) (unat off) (8 * n)"
  shows "load_l2 (f\<lparr>f_bytes := patch p buf (f_bytes f)\<rparr>) n off = load_l2 f n off"
  using assms by (simp add: load_l2_def pread_in_full_def Let_def patch_apart)

section \<open>Images that own their clusters\<close>

abbreviation l1_reach :: "qcow \<Rightarrow> nat" where
  "l1_reach q \<equiv> unat (q_table_size q) * 2 ^ (l2bits q + cbits q)"

text \<open>The offsets of the level-2 tables that are on disk or in the cache.\<close>

definition table_offsets :: "qcow \<Rightarrow> u64 set" where
  "table_offsets q = (\<lambda>e. e AND NOT QCOW2_OFLAG_COPIED) ` set (q_l1_table q) \<union> qn_offset ` set (qc_lru (qs_cache (q_l2 q)))"

text \<open>No data cluster overlaps a level-2 table or the data cluster of another part of the disk.\<close>

definition layout_ok :: "qcow \<Rightarrow> bool" where
  "layout_ok q \<longleftrightarrow>
     (\<forall>i s. i < l1_reach q \<longrightarrow> qcow2_lookup q (of_nat i) = Some (Data s) \<longrightarrow>
        (\<forall>off \<in> table_offsets q. apart (unat s) (2 ^ cbits q) (unat off) (8 * 2 ^ l2bits q)) \<and>
        (\<forall>j s'. j < l1_reach q \<longrightarrow> qcow2_lookup q (of_nat j) = Some (Data s') \<longrightarrow> i div 2 ^ cbits q \<noteq> j div 2 ^ cbits q \<longrightarrow>
           apart (unat s) (2 ^ cbits q) (unat s') (2 ^ cbits q)))"

definition disk_ok :: "qcow \<Rightarrow> bool" where
  "disk_ok q \<longleftrightarrow> qcow_inv q \<and> layout_ok q \<and> file_ok (q_file q) \<and> (\<forall>off. \<not> f_wr_err (q_file q) off) \<and> l1_reach q \<le> 2 ^ 64"

text \<open>Table and cluster of byte \<open>i\<close> carry the flag \<^verbatim>\<open>QCOW2_OFLAG_COPIED\<close>, and the cluster is inside the file.\<close>

definition writable :: "qcow \<Rightarrow> nat \<Rightarrow> bool" where
  "writable q i \<longleftrightarrow> i < l1_reach q \<and>
     (let l1 = q_l1_table q ! (i div 2 ^ (l2bits q + cbits q))
      in l1 AND QCOW2_OFLAG_COPIED \<noteq> 0 \<and> l1 AND NOT QCOW2_OFLAG_COPIED \<noteq> 0 \<and>
         (case load_l2 (q_file q) (2 ^ l2bits q) (l1 AND NOT QCOW2_OFLAG_COPIED) of
            None \<Rightarrow> False
          | Some t \<Rightarrow>
              let e = l2_entries t ! (i div 2 ^ cbits q mod 2 ^ l2bits q)
              in e AND QCOW2_OFLAG_COPIED \<noteq> 0 \<and> e AND QCOW2_OFLAG_COMPRESSED = 0 \<and> e AND QCOW2_OFFSET_MASK \<noteq> 0 \<and>
                 unat (e AND QCOW2_OFFSET_MASK) + 2 ^ cbits q \<le> length (f_bytes (q_file q))))"

lemma reach_index: "i < l1_reach q \<longleftrightarrow> i div 2 ^ (l2bits q + cbits q) < unat (q_table_size q)"
  by (simp add: div_less_iff_less_mult)

lemma read_table_offsets:
  assumes "cache_inv (qs_cache s)" "read_table oom load off s = Ret (s', r)"
  shows "qn_offset ` set (qc_lru (qs_cache s')) \<subseteq> insert off (qn_offset ` set (qc_lru (qs_cache s)))"
proof -
  obtain c x where cx: "table_search off (qs_cache s) = (c, x)" by (cases "table_search off (qs_cache s)")
  note ok = table_search_ok [OF assms(1) cx]
  show ?thesis
  proof (cases "x = None \<and> \<not> oom \<and> load off \<noteq> None")
    case True
    then have c: "c = qs_cache s" using cx by (auto simp: table_search_def split: option.splits)
    let ?n = "\<lparr>qn_offset = off, qn_addr = qs_next s\<rparr>"
    have "cached (qs_cache s) (qn_offset ?n) = None" using True ok(2) by simp
    then obtain c' fr full where c': "cache_table ?n (qs_cache s) = Ret (c', fr)"
      "qc_lru c' = (if full then tl (qc_lru (qs_cache s)) else qc_lru (qs_cache s)) @ [?n]"
      by (rule cache_table_ok [OF assms(1)])
    have "set (tl (qc_lru (qs_cache s))) \<subseteq> set (qc_lru (qs_cache s))" by (cases "qc_lru (qs_cache s)") auto
    then have "qn_offset ` set (qc_lru c') \<subseteq> insert off (qn_offset ` set (qc_lru (qs_cache s)))" using c'(2) by (auto split: if_splits)
    moreover have "qs_cache s' = c'" using True cx c c'(1) assms(2) by (auto simp: read_table_def)
    ultimately show ?thesis by simp
  next
    case False
    then show ?thesis using assms(2) cx ok(4) by (auto simp: read_table_def table_search_def split: option.splits if_splits)
  qed
qed

lemma writable_obtain:
  assumes "writable q i"
  obtains e1 t e where "e1 = q_l1_table q ! (i div 2 ^ (l2bits q + cbits q))" "e1 AND QCOW2_OFLAG_COPIED \<noteq> 0"
    "e1 AND NOT QCOW2_OFLAG_COPIED \<noteq> 0" "load_l2 (q_file q) (2 ^ l2bits q) (e1 AND NOT QCOW2_OFLAG_COPIED) = Some t"
    "e = l2_entries t ! (i div 2 ^ cbits q mod 2 ^ l2bits q)" "e AND QCOW2_OFLAG_COPIED \<noteq> 0"
    "e AND QCOW2_OFLAG_COMPRESSED = 0" "e AND QCOW2_OFFSET_MASK \<noteq> 0"
    "unat (e AND QCOW2_OFFSET_MASK) + 2 ^ cbits q \<le> length (f_bytes (q_file q))"
  using assms by (auto simp: writable_def Let_def split: option.splits)

lemma writable_lookup:
  assumes "writable q i" "i < 2 ^ 64"
  obtains s where "qcow2_lookup q (of_nat i) = Some (Data s)" "unat s + 2 ^ cbits q \<le> length (f_bytes (q_file q))"
  using assms(1) by (rule writable_obtain) (use that assms(2) in \<open>simp add: qcow2_lookup_def Let_def unat_of_nat64\<close>)

lemma writable_readable: "writable q i \<Longrightarrow> i < 2 ^ 64 \<Longrightarrow> readable q i"
  by (rule writable_lookup, assumption+) (simp add: readable_def reach_index [symmetric], simp add: writable_def)

text \<open>The level-2 table of a writable byte is read through the cache.\<close>

lemma get_cluster_table_copied:
  assumes inv: "qcow_inv q" and w: "writable q i" "i < 2 ^ 64" and m: "\<forall>a. \<not> env_oom env a"
  obtains s a t where
    "get_cluster_table env (of_nat i) q = Some (Ret (q\<lparr>q_l2 := s\<rparr>, Some (a, drop_bit (cbits q) (of_nat i) AND (2 ^ l2bits q - 1))))"
    "qcow_inv (q\<lparr>q_l2 := s\<rparr>)" "table_offsets (q\<lparr>q_l2 := s\<rparr>) \<subseteq> table_offsets q" "qs_tables s a = Some t"
    "load_l2 (q_file q) (2 ^ l2bits q) (q_l1_table q ! (i div 2 ^ (l2bits q + cbits q)) AND NOT QCOW2_OFLAG_COPIED) = Some t"
proof -
  have geo: "geometry_ok q" using inv by (simp add: qcow_inv_def)
  obtain e1 t where e1: "e1 = q_l1_table q ! (i div 2 ^ (l2bits q + cbits q))" "e1 AND QCOW2_OFLAG_COPIED \<noteq> 0"
    and t: "load_l2 (q_file q) (2 ^ l2bits q) (e1 AND NOT QCOW2_OFLAG_COPIED) = Some t"
    using writable_obtain [OF w(1)] by metis
  let ?off = "of_nat i :: u64" and ?o = "e1 AND NOT QCOW2_OFLAG_COPIED"
  have u: "unat (drop_bit (l2bits q + cbits q) ?off) = i div 2 ^ (l2bits q + cbits q)"
    by (simp add: unat_drop_bit unat_of_nat64 [OF w(2)])
  have lt: "i div 2 ^ (l2bits q + cbits q) < length (q_l1_table q)"
    using w(1) geo by (simp add: writable_def reach_index geometry_ok_def)
  have tab: "\<not> ucast (q_table_size q) \<le> drop_bit (l2bits q + cbits q) ?off"
    using lt geo by (simp add: word_le_nat_alt u unat_ucast_up geometry_ok_def not_le)
  obtain s r where r: "qcow_read_l2_table False ?o q = Ret (q\<lparr>q_l2 := s\<rparr>, r)" "qcow_inv (q\<lparr>q_l2 := s\<rparr>)"
    "case r of None \<Rightarrow> False \<or> load_l2 (q_file q) (2 ^ l2bits q) ?o = None
     | Some a \<Rightarrow> \<exists>t. qs_tables s a = Some t \<and> load_l2 (q_file q) (2 ^ l2bits q) ?o = Some t"
    by (rule read_l2_table_ok [OF inv])
  then obtain a where a: "r = Some a" "qs_tables s a = Some t" using t by (auto split: option.splits)
  obtain s' where s': "read_table False (load_l2 (q_file q) (unat (2 ^ l2bits q :: u64))) ?o (q_l2 q) = Ret (s', r)" "q\<lparr>q_l2 := s'\<rparr> = q\<lparr>q_l2 := s\<rparr>"
    using r(1) index_values(4) [OF geo] by (cases "read_table False (load_l2 (q_file q) (unat (2 ^ l2bits q :: u64))) ?o (q_l2 q)") (auto simp: qcow_read_l2_table_def)
  have "s' = s" using arg_cong [OF s'(2), of q_l2] by simp
  moreover have "cache_inv (qs_cache (q_l2 q))" using inv by (simp add: qcow_inv_def l2.store_inv_def)
  ultimately have "qn_offset ` set (qc_lru (qs_cache s)) \<subseteq> insert ?o (qn_offset ` set (qc_lru (qs_cache (q_l2 q))))"
    using read_table_offsets s'(1) by blast
  then have "table_offsets (q\<lparr>q_l2 := s\<rparr>) \<subseteq> table_offsets q" using lt e1(1) by (auto simp: table_offsets_def)
  moreover have "get_cluster_table env ?off q = Some (Ret (q\<lparr>q_l2 := s\<rparr>, Some (a, drop_bit (cbits q) ?off AND (2 ^ l2bits q - 1))))"
    using tab l2_index_bound(2) [OF geo, of ?off] lt u e1 r(1) a m by (simp add: get_cluster_table_def index_values [OF geo] Let_def)
  ultimately show ?thesis using that r(2) a(2) t e1(1) by blast
qed

text \<open>
  The effect of a write of a part of one cluster: \<open>s\<close> is the table cache behind it. The position in
  the file is that of the cluster, from the tables.
\<close>

definition wrote :: "nat \<Rightarrow> u8 list \<Rightarrow> qcow_l2_table qstore \<Rightarrow> qcow \<Rightarrow> qcow" where
  "wrote p buf s q = q\<lparr>q_l2 := s, q_file := (q_file q)\<lparr>f_bytes := patch p buf (f_bytes (q_file q))\<rparr>\<rparr>"

lemma write_cluster_copied:
  assumes ok: "disk_ok q" and w: "writable q i" and m: "\<forall>a. \<not> env_oom env a" and src: "src \<noteq> []"
    and len: "len = min (2 ^ cbits q - i mod 2 ^ cbits q) (length src)"
  obtains s st where "qcow2_lookup q (of_nat i) = Some (Data st)" "unat st + 2 ^ cbits q \<le> length (f_bytes (q_file q))"
    "qcow_write_cluster env (of_nat i) src q = Some (Ret (wrote (unat st + i mod 2 ^ cbits q) (take len src) s q, int len))"
    "qcow_inv (q\<lparr>q_l2 := s\<rparr>)" "table_offsets (q\<lparr>q_l2 := s\<rparr>) \<subseteq> table_offsets q"
proof -
  have inv: "qcow_inv q" and geo: "geometry_ok q" and f: "length (f_bytes (q_file q)) < 2 ^ 63" "\<And>off. \<not> f_wr_err (q_file q) off"
    using ok by (auto simp: disk_ok_def qcow_inv_def file_ok_def)
  have i: "i < 2 ^ 64" using ok w by (auto simp: disk_ok_def writable_def intro: less_le_trans)
  let ?off = "of_nat i :: u64" and ?l = "i mod 2 ^ cbits q"
  let ?co = "?off AND (2 ^ cbits q - 1)" and ?i2 = "drop_bit (cbits q) ?off AND (2 ^ l2bits q - 1)"
  obtain s a t where g: "get_cluster_table env ?off q = Some (Ret (q\<lparr>q_l2 := s\<rparr>, Some (a, ?i2)))"
    "qcow_inv (q\<lparr>q_l2 := s\<rparr>)" "table_offsets (q\<lparr>q_l2 := s\<rparr>) \<subseteq> table_offsets q" "qs_tables s a = Some t"
    "load_l2 (q_file q) (2 ^ l2bits q) (q_l1_table q ! (i div 2 ^ (l2bits q + cbits q)) AND NOT QCOW2_OFLAG_COPIED) = Some t"
    by (rule get_cluster_table_copied [OF inv w i m])
  from writable_obtain [OF w] g(5) obtain e where e: "e = l2_entries t ! (i div 2 ^ cbits q mod 2 ^ l2bits q)"
    "e AND QCOW2_OFLAG_COPIED \<noteq> 0" "e AND QCOW2_OFLAG_COMPRESSED = 0" "e AND QCOW2_OFFSET_MASK \<noteq> 0"
    "unat (e AND QCOW2_OFFSET_MASK) + 2 ^ cbits q \<le> length (f_bytes (q_file q))"
    "q_l1_table q ! (i div 2 ^ (l2bits q + cbits q)) AND NOT QCOW2_OFLAG_COPIED \<noteq> 0"
    by (metis option.inject)
  let ?st = "e AND QCOW2_OFFSET_MASK"
  have lk: "qcow2_lookup q ?off = Some (Data ?st)" using e g(5) i by (simp add: qcow2_lookup_def Let_def unat_of_nat64)
  have i2: "unat ?i2 = i div 2 ^ cbits q mod 2 ^ l2bits q" using l2_index_bound(1) [OF geo, of ?off] i by (simp add: unat_of_nat64)
  then have entry: "l2_entry a ?i2 (q\<lparr>q_l2 := s\<rparr>) = Ret e" using g(4) e(1) load_l2_length [OF g(5)] by (simp add: l2_entry_def)
  note co = cluster_offset_bound [OF geo, of ?off, unfolded unat_of_nat64 [OF i]]
  have lt: "?l < 2 ^ cbits q" by simp
  have pos: "unat (?st + ?co) = unat ?st + ?l" using unat_add_lem [of ?st ?co] co(1) e(5) f(1) lt by (simp del: mod_less_divisor)
  have buf: "take (unat (q_cluster_size q - ?co)) src = take len src" using co(3) len by (simp add: min_def)
  have len': "length (take len src) = len" "0 < len" using len lt src by (simp_all del: mod_less_divisor)
  then have ne: "take len src \<noteq> []" by auto
  have room: "unat (?st + ?co) + length (take len src) \<le> length (f_bytes (q_file q))" using pos len lt e(5) len'(1) by (simp del: mod_less_divisor)
  have flag: "(e AND QCOW2_OFLAGS_MASK) AND QCOW2_OFLAG_COPIED = e AND QCOW2_OFLAG_COPIED"
    by (simp add: QCOW2_OFLAGS_MASK_def and.assoc bit.conj_disj_distrib2)
  have wr: "write_image (take len src) (?st + ?co) (q\<lparr>q_l2 := s\<rparr>) = (wrote (unat ?st + ?l) (take len src) s q, True)"
    using pwrite_inside [OF ne room f(1) f(2)] pos by (simp add: write_image_def wrote_def)
  have "qcow_write_cluster env ?off src q = Some (Ret (wrote (unat ?st + ?l) (take len src) s q, int len))"
    using co(2) g(1) entry flag e(2) wr len' buf by (simp add: qcow_write_cluster_def index_values [OF geo] Let_def not_le)
  then show ?thesis using that lk e(5) g(2,3) by blast
qed

text \<open>
  A patch inside the data cluster of byte \<open>i\<close> leaves every table as it is, and changes the bytes of
  the virtual disk at that place only.
\<close>

lemma wrote_ok:
  assumes ok: "disk_ok q" and i: "i < l1_reach q" and lk: "qcow2_lookup q (of_nat i) = Some (Data st)"
    and room: "unat st + 2 ^ cbits q \<le> length (f_bytes (q_file q))" and s: "qcow_inv (q\<lparr>q_l2 := s\<rparr>)"
    and tabs: "table_offsets (q\<lparr>q_l2 := s\<rparr>) \<subseteq> table_offsets q" and len: "i mod 2 ^ cbits q + length buf \<le> 2 ^ cbits q"
  defines "q' \<equiv> wrote (unat st + i mod 2 ^ cbits q) buf s q"
  shows "\<And>off. off \<in> table_offsets q \<Longrightarrow> load_l2 (q_file q') (2 ^ l2bits q) off = load_l2 (q_file q) (2 ^ l2bits q) off"
    and "\<And>j. j < l1_reach q \<Longrightarrow> qcow2_lookup q' (of_nat j) = qcow2_lookup q (of_nat j)"
    and "qcow_inv q'" "disk_ok q'"
    and "\<And>j. j < l1_reach q \<Longrightarrow> writable q j \<Longrightarrow> writable q' j"
    and "\<And>j. j < l1_reach q \<Longrightarrow> readable q j \<Longrightarrow> vbyte q' j = (if i \<le> j \<and> j < i + length buf then buf ! (j - i) else vbyte q j)"
    and "\<And>j. j < l1_reach q \<Longrightarrow> readable q j \<Longrightarrow> readable q' j"
proof -
  let ?p = "unat st + i mod 2 ^ cbits q" and ?f = "q_file q"
  have geo: "geometry_ok q" and lay: "layout_ok q" using ok by (auto simp: disk_ok_def qcow_inv_def)
  have reach: "l1_reach q \<le> 2 ^ 64" using ok by (simp add: disk_ok_def)
  have in_file: "?p + length buf \<le> length (f_bytes ?f)" using room len by linarith
  have same: "q_header q' = q_header q" "q_l1_table q' = q_l1_table q" "q_table_size q' = q_table_size q" "q_l2 q' = s"
    "q_file q' = ?f\<lparr>f_bytes := patch ?p buf (f_bytes ?f)\<rparr>"
    by (simp_all add: q'_def wrote_def)
  show load: "load_l2 (q_file q') (2 ^ l2bits q) off = load_l2 ?f (2 ^ l2bits q) off" if "off \<in> table_offsets q" for off
  proof -
    have "apart (unat st) (2 ^ cbits q) (unat off) (8 * 2 ^ l2bits q)" using lay i lk that by (auto simp: layout_ok_def)
    then have "apart ?p (length buf) (unat off) (8 * 2 ^ l2bits q)" by (rule apart_sub) (use len in linarith)+
    then show ?thesis using load_l2_patch [OF in_file] by (simp add: same)
  qed
  have l1: "q_l1_table q ! (j div 2 ^ (l2bits q + cbits q)) AND NOT QCOW2_OFLAG_COPIED \<in> table_offsets q" if "j < l1_reach q" for j
    using that geo by (auto simp: table_offsets_def reach_index geometry_ok_def)
  show lookup: "qcow2_lookup q' (of_nat j) = qcow2_lookup q (of_nat j)" if "j < l1_reach q" for j
    using load [OF l1 [OF that]] unat_of_nat64 [of j] that reach
    by (simp add: qcow2_lookup_def same Let_def cong: if_cong option.case_cong)
  have geo': "geometry_ok q'" using s by (simp add: qcow_inv_def geometry_ok_def q'_def wrote_def)
  have offs: "qn_offset n \<in> table_offsets q" if "n \<in> set (qc_lru (qs_cache s))" for n
    using tabs that by (auto simp: table_offsets_def)
  have "l2.store_inv ?f (2 ^ l2bits q) s" using s by (simp add: qcow_inv_def)
  then have "l2.store_inv (q_file q') (2 ^ l2bits q) s" using load offs by (auto simp: l2.store_inv_def)
  then show inv': "qcow_inv q'" using geo' same by (simp add: qcow_inv_def)
  have tabs': "table_offsets q' \<subseteq> table_offsets q" using tabs by (simp add: table_offsets_def same)
  have "layout_ok q'" unfolding layout_ok_def same
  proof (intro allI impI)
    fix j s1 assume j: "j < l1_reach q" "qcow2_lookup q' (of_nat j) = Some (Data s1)"
    then have "qcow2_lookup q (of_nat j) = Some (Data s1)" using lookup by simp
    note old = lay [unfolded layout_ok_def, rule_format, OF j(1) this]
    show "(\<forall>off \<in> table_offsets q'. apart (unat s1) (2 ^ cbits q) (unat off) (8 * 2 ^ l2bits q)) \<and>
       (\<forall>k s'. k < l1_reach q \<longrightarrow> qcow2_lookup q' (of_nat k) = Some (Data s') \<longrightarrow> j div 2 ^ cbits q \<noteq> k div 2 ^ cbits q \<longrightarrow>
          apart (unat s1) (2 ^ cbits q) (unat s') (2 ^ cbits q))"
      using old tabs' by (simp add: lookup subset_eq)
  qed
  then show "disk_ok q'" using ok inv' in_file by (simp add: disk_ok_def same file_ok_def)
  show "writable q' j" if "j < l1_reach q" "writable q j" for j
    using that(2) load [OF l1 [OF that(1)]] in_file by (simp add: writable_def same Let_def cong: option.case_cong)
  show "readable q' j" if "j < l1_reach q" "readable q j" for j
    using that(2) lookup [OF that(1)] in_file by (simp add: readable_def same cong: option.case_cong cluster.case_cong)
  show "vbyte q' j = (if i \<le> j \<and> j < i + length buf then buf ! (j - i) else vbyte q j)"
    if j: "j < l1_reach q" "readable q j" for j
  proof (cases "j div 2 ^ cbits q = i div 2 ^ cbits q")
    case True
    then have lj: "qcow2_lookup q (of_nat j) = Some (Data st)"
      using lookup_same_cluster [of j i q] lk i j(1) reach by simp
    have jm: "j mod 2 ^ cbits q < 2 ^ cbits q" by simp
    have "unat st + j mod 2 ^ cbits q < length (f_bytes ?f)" using room jm by linarith
    moreover have dj: "j = j mod 2 ^ cbits q + i div 2 ^ cbits q * 2 ^ cbits q" by (metis True mod_div_mult_eq)
    moreover have di: "i = i mod 2 ^ cbits q + i div 2 ^ cbits q * 2 ^ cbits q" by (rule mod_div_mult_eq [symmetric])
    have "i \<le> j \<longleftrightarrow> i mod 2 ^ cbits q \<le> j mod 2 ^ cbits q" "j - i = j mod 2 ^ cbits q - i mod 2 ^ cbits q"
      "j < i + length buf \<longleftrightarrow> j mod 2 ^ cbits q < i mod 2 ^ cbits q + length buf"
      using di dj by linarith+
    ultimately show ?thesis
      using lj lookup [OF j(1)] patch_nth [OF in_file, of "unat st + j mod 2 ^ cbits q"] by (simp add: vbyte_def same)
  next
    case False
    have out: "\<not> (i \<le> j \<and> j < i + length buf)"
    proof
      assume "i \<le> j \<and> j < i + length buf"
      then have "i + (j - i) = j" "i mod 2 ^ cbits q + (j - i) < 2 ^ cbits q" using len by linarith+
      then show False using False same_cluster [of i "2 ^ cbits q" "j - i"] by simp
    qed
    show ?thesis
    proof (cases "\<exists>s1. qcow2_lookup q (of_nat j) = Some (Data s1)")
      case True
      then obtain s1 where s1: "qcow2_lookup q (of_nat j) = Some (Data s1)" by blast
      have ap: "apart (unat st) (2 ^ cbits q) (unat s1) (2 ^ cbits q)"
        using lay i lk j(1) s1 False by (auto simp: layout_ok_def)
      have jm: "j mod 2 ^ cbits q < 2 ^ cbits q" by simp
      have "unat s1 + j mod 2 ^ cbits q < length (f_bytes ?f)"
        using j(2) s1 jm by (simp add: readable_def del: mod_less_divisor)
      moreover have "\<not> (?p \<le> unat s1 + j mod 2 ^ cbits q \<and> unat s1 + j mod 2 ^ cbits q < ?p + length buf)"
        using ap jm len by (auto simp: apart_def simp del: mod_less_divisor)
      ultimately show ?thesis
        using out s1 lookup [OF j(1)] patch_nth [OF in_file, of "unat s1 + j mod 2 ^ cbits q"] by (auto simp: vbyte_def same)
    next
      case False
      then show ?thesis using out lookup [OF j(1)] by (auto simp: vbyte_def split: option.splits cluster.splits)
    qed
  qed
qed

text \<open>
  What a write may do to an image: the header and tables stay, the image stays in order, and the
  virtual disk changes in the range of the request only.
\<close>

definition disk_write :: "nat \<Rightarrow> u8 list \<Rightarrow> qcow \<Rightarrow> qcow \<Rightarrow> bool" where
  "disk_write pos buf q q' \<longleftrightarrow>
     (\<exists>s bs. q' = q\<lparr>q_l2 := s, q_file := (q_file q)\<lparr>f_bytes := bs\<rparr>\<rparr>) \<and> disk_ok q' \<and>
     (\<forall>j. writable q j \<longrightarrow> writable q' j) \<and>
     (\<forall>j < l1_reach q. readable q j \<longrightarrow> readable q' j \<and>
        vbyte q' j = (if pos \<le> j \<and> j < pos + length buf then buf ! (j - pos) else vbyte q j))"

lemma disk_write_refl: "disk_ok q \<Longrightarrow> disk_write pos [] q q"
  by (auto simp: disk_write_def intro!: exI [of _ "q_l2 q"] exI [of _ "f_bytes (q_file q)"])

lemma disk_write_frame: "disk_write pos buf q q' \<Longrightarrow> q_header q' = q_header q \<and> q_table_size q' = q_table_size q \<and> q_version q' = q_version q"
  by (auto simp: disk_write_def)

lemma disk_write_trans:
  assumes a: "disk_write pos xs q q1" and b: "disk_write (pos + length xs) ys q1 q2"
  shows "disk_write pos (xs @ ys) q q2"
proof -
  have reach: "l1_reach q1 = l1_reach q" using disk_write_frame [OF a] by simp
  obtain s bs where q1: "q1 = q\<lparr>q_l2 := s, q_file := (q_file q)\<lparr>f_bytes := bs\<rparr>\<rparr>" using a by (auto simp: disk_write_def)
  obtain s' bs' where "q2 = q1\<lparr>q_l2 := s', q_file := (q_file q1)\<lparr>f_bytes := bs'\<rparr>\<rparr>" using b by (auto simp: disk_write_def)
  then have "q2 = q\<lparr>q_l2 := s', q_file := (q_file q)\<lparr>f_bytes := bs'\<rparr>\<rparr>" by (simp add: q1)
  moreover have "readable q2 j \<and>
      vbyte q2 j = (if pos \<le> j \<and> j < pos + length (xs @ ys) then (xs @ ys) ! (j - pos) else vbyte q j)"
    if j: "j < l1_reach q" "readable q j" for j
  proof -
    have "readable q1 j" "vbyte q1 j = (if pos \<le> j \<and> j < pos + length xs then xs ! (j - pos) else vbyte q j)"
      using a j by (auto simp: disk_write_def)
    moreover from this have "readable q2 j"
      "vbyte q2 j = (if pos + length xs \<le> j \<and> j < pos + length xs + length ys then ys ! (j - (pos + length xs)) else vbyte q1 j)"
      using b j(1) by (auto simp: disk_write_def reach)
    ultimately show ?thesis by (auto simp: nth_append)
  qed
  ultimately show ?thesis using a b by (auto simp: disk_write_def)
qed

lemma qcow_write_cluster_ok:
  assumes ok: "disk_ok q" and w: "writable q i" and m: "\<forall>a. \<not> env_oom env a" and src: "src \<noteq> []"
    and len: "len = min (2 ^ cbits q - i mod 2 ^ cbits q) (length src)"
  shows "\<exists>q'. qcow_write_cluster env (of_nat i) src q = Some (Ret (q', int len)) \<and> disk_write i (take len src) q q'"
proof -
  obtain s st where c: "qcow2_lookup q (of_nat i) = Some (Data st)" "unat st + 2 ^ cbits q \<le> length (f_bytes (q_file q))"
    "qcow_write_cluster env (of_nat i) src q = Some (Ret (wrote (unat st + i mod 2 ^ cbits q) (take len src) s q, int len))"
    "qcow_inv (q\<lparr>q_l2 := s\<rparr>)" "table_offsets (q\<lparr>q_l2 := s\<rparr>) \<subseteq> table_offsets q"
    by (rule write_cluster_copied [OF assms])
  have i: "i < l1_reach q" using w by (simp add: writable_def)
  have lt: "i mod 2 ^ cbits q < 2 ^ cbits q" by simp
  have "length (take len src) = len" using len by simp
  then have room: "i mod 2 ^ cbits q + length (take len src) \<le> 2 ^ cbits q" using len lt by (simp del: mod_less_divisor)
  note ok' = wrote_ok [OF ok i c(1,2,4,5) room]
  have "disk_write i (take len src) q (wrote (unat st + i mod 2 ^ cbits q) (take len src) s q)"
    unfolding disk_write_def using ok'(4-7) by (auto simp: wrote_def writable_def)
  with c(3) show ?thesis by blast
qed

lemma write_loop_ok:
  assumes m: "\<forall>a. \<not> env_oom env a"
  shows "disk_ok q \<Longrightarrow> base + length src \<le> unat (h_size (q_header q)) \<Longrightarrow> k \<le> length src \<Longrightarrow> length src - k < fuel \<Longrightarrow>
    \<forall>i. base \<le> i \<and> i < base + length src \<longrightarrow> writable q i \<Longrightarrow>
    \<exists>q'. write_sector_loop fuel env (of_nat (base + k)) src k q = Some (Ret (q', int (length src))) \<and>
      disk_write (base + k) (drop k src) q q'"
proof (induction fuel arbitrary: k q)
  case (Suc fuel)
  show ?case
  proof (cases "k = length src")
    case True
    with Suc.prems(1) disk_write_refl show ?thesis by auto
  next
    case False
    let ?i = "base + k" and ?n = "2 ^ cbits q"
    define len where "len = min (?n - ?i mod ?n) (length (drop k src))"
    have k: "k < length src" using False Suc.prems(3) by simp
    then have ne: "drop k src \<noteq> []" by simp
    have w: "writable q ?i" using Suc.prems(5) k by simp
    have lt: "?i mod ?n < ?n" by simp
    then have len0: "0 < len" "len \<le> length src - k" using k by (auto simp: len_def simp del: mod_less_divisor)
    obtain q1 where q1: "qcow_write_cluster env (of_nat ?i) (drop k src) q = Some (Ret (q1, int len))"
      "disk_write ?i (take len (drop k src)) q q1"
      using qcow_write_cluster_ok [OF Suc.prems(1) w m ne len_def] by blast
    note fr = disk_write_frame [OF q1(2)]
    have h: "unat (h_size (q_header q)) < 2 ^ 64" by (rule less_le_trans [OF unsigned_less]) simp
    have in_disk: "\<not> h_size (q_header q) \<le> of_nat ?i"
      unfolding word_le_nat_alt using Suc.prems(2) k unat_of_nat64 [of ?i] h by simp
    have ok1: "disk_ok q1" "\<forall>i. base \<le> i \<and> i < base + length src \<longrightarrow> writable q1 i"
      using q1(2) Suc.prems(5) by (auto simp: disk_write_def)
    have "\<exists>q'. write_sector_loop fuel env (of_nat (base + (k + len))) src (k + len) q1 = Some (Ret (q', int (length src))) \<and>
      disk_write (base + (k + len)) (drop (k + len) src) q1 q'"
      by (rule Suc.IH [OF ok1(1)]) (use Suc.prems(2-4) fr len0 ok1(2) in auto)
    then obtain q2 where q2: "write_sector_loop fuel env (of_nat (base + (k + len))) src (k + len) q1 = Some (Ret (q2, int (length src)))"
      "disk_write (base + (k + len)) (drop (k + len) src) q1 q2" by blast
    have step: "write_sector_loop (Suc fuel) env (of_nat ?i) src k q = Some (Ret (q2, int (length src)))"
      using k in_disk q1(1) q2(1) by (simp add: add.assoc)
    have l: "?i + length (take len (drop k src)) = base + (k + len)" using len0 by simp
    have "disk_write ?i (take len (drop k src) @ drop (k + len) src) q q2"
      by (rule disk_write_trans [OF q1(2)]) (use q2(2) l in \<open>simp add: add.assoc\<close>)
    moreover have "take len (drop k src) @ drop (k + len) src = drop k src"
      by (metis append_take_drop_id drop_drop add.commute)
    ultimately show ?thesis using step by auto
  qed
qed simp

section \<open>A small image\<close>

text \<open>One level-2 table, at offset 0x200, that maps the first cluster of the disk to the cluster at 0x400.\<close>

definition rw_file :: qfile where
  "rw_file = sample_file\<lparr>f_bytes := replicate 512 0 @ [0x80, 0, 0, 0, 0, 0, 4, 0] @ replicate 504 0 @ replicate 512 7\<rparr>"

definition rw_qcow :: qcow where "rw_qcow = sample_qcow\<lparr>q_file := rw_file\<rparr>"

lemma rw_fields [simp]: "cbits rw_qcow = 9" "l2bits rw_qcow = 6" "unat (q_table_size rw_qcow) = 1" "q_file rw_qcow = rw_file"
  "q_l1_table rw_qcow = [0x8000000000000200]" "q_l2 rw_qcow = qstore_empty" "unat (h_size (q_header rw_qcow)) = 0x8000"
  by (simp_all add: rw_qcow_def sample_qcow_def)

lemma rw_flags:
  "(0x8000000000000200 :: u64) AND NOT QCOW2_OFLAG_COPIED = 0x200" "(0x8000000000000200 :: u64) AND QCOW2_OFLAG_COPIED \<noteq> 0"
  "(0x8000000000000400 :: u64) AND QCOW2_OFLAG_COPIED \<noteq> 0" "(0x8000000000000400 :: u64) AND QCOW2_OFLAG_COMPRESSED = 0"
  "(0x8000000000000400 :: u64) AND QCOW2_OFFSET_MASK = 0x400"
  by (simp_all add: QCOW2_OFLAG_COMPRESSED_def QCOW2_OFFSET_MASK_def QCOW2_OFLAGS_MASK_def QCOW2_OFLAG_COPIED_def push_bit_eq_mult)

lemma rw_load:
  obtains t where "load_l2 rw_file 64 0x200 = Some t" "l2_entries t ! 0 = 0x8000000000000400"
    "\<forall>k. 0 < k \<and> k < 64 \<longrightarrow> l2_entries t ! k = 0"
proof -
  let ?bs = "[0x80, 0, 0, 0, 0, 0, 4, 0] @ replicate 504 0 :: u8 list"
  have "take 512 (drop 512 (f_bytes rw_file)) = ?bs" by (simp add: rw_file_def)
  then have load: "load_l2 rw_file 64 0x200 = Some \<lparr>l2_offset = 0x200, l2_dirty = False, l2_entries = be64s 64 ?bs\<rparr>"
    by (simp add: load_l2_def pread_in_full_def) (simp add: rw_file_def sample_file_def)
  have e0: "be64s 64 ?bs ! 0 = 0x8000000000000400" by (simp add: be64s_def be64_def push_bit_eq_mult)
  have zero: "take 8 (replicate n (0 :: u8)) = replicate 8 0" if "8 \<le> n" for n using that by (simp add: min_def)
  have ek: "be64s 64 ?bs ! k = 0" if k: "0 < k" "k < 64" for k
  proof -
    obtain m where "k = Suc m" using k by (cases k) auto
    then have "drop (8 * k) ?bs = drop (8 * m) (drop 8 ?bs)" by (simp only: drop_drop mult_Suc_right add.commute)
    moreover have "drop 8 ?bs = replicate 504 0" by simp
    moreover have "8 \<le> 504 - 8 * m" using k \<open>k = Suc m\<close> by simp
    ultimately have "drop (8 * k) ?bs = replicate (504 - 8 * m) 0" "8 \<le> 504 - 8 * m" by (simp_all only: drop_replicate)
    then have "be64 (drop (8 * k) ?bs) = 0" by (simp add: be64_def zero) (simp add: numeral_eq_Suc)
    then show ?thesis using k by (simp add: be64s_def)
  qed
  from that [OF load] e0 ek show ?thesis by simp
qed

lemma rw_lookup:
  assumes "j < 0x8000"
  shows "qcow2_lookup rw_qcow (of_nat j) = Some (if j < 512 then Data 0x400 else Zero)"
proof -
  obtain t where t: "load_l2 rw_file 64 0x200 = Some t" "l2_entries t ! 0 = 0x8000000000000400"
    "\<forall>k. 0 < k \<and> k < 64 \<longrightarrow> l2_entries t ! k = 0" by (rule rw_load)
  have u: "unat (of_nat j :: u64) = j" using assms by (simp add: unat_of_nat64)
  have "j div 512 mod 64 = j div 512" using assms by simp
  moreover have "j div 512 = 0 \<longleftrightarrow> j < 512" "j div 512 < 64" using assms by auto
  ultimately show ?thesis
    using t rw_flags u assms by (auto simp: qcow2_lookup_def Let_def)
qed

lemma rw_ok: "disk_ok rw_qcow" "i < 512 \<Longrightarrow> writable rw_qcow i"
proof -
  have geo: "geometry_ok rw_qcow" by (simp add: geometry_ok_def rw_qcow_def sample_qcow_def)
  have inv: "qcow_inv rw_qcow" using geo l2.store_inv_empty by (simp add: qcow_inv_def)
  have offs: "table_offsets rw_qcow = {0x200}"
    using rw_flags(1) by (simp add: table_offsets_def qstore_empty_def qcache_empty_def)
  have "layout_ok rw_qcow" unfolding layout_ok_def offs
    by (auto simp: rw_lookup apart_def split: if_splits)
  with inv show "disk_ok rw_qcow" by (simp add: disk_ok_def file_ok_def) (simp add: rw_file_def sample_file_def)
  obtain t where t: "load_l2 rw_file 64 0x200 = Some t" "l2_entries t ! 0 = 0x8000000000000400" by (rule rw_load)
  have len: "length (f_bytes rw_file) = 1536" by (simp add: rw_file_def)
  show "i < 512 \<Longrightarrow> writable rw_qcow i" using t rw_flags len by (simp add: writable_def Let_def)
qed

section \<open>Properties\<close>

text \<open>
  C3: writing to a QCOW2 image refines writing to the virtual disk: for a request inside the disk
  whose tables and clusters the image owns, in an image whose data clusters overlap neither
  each other nor a table, the loop ends within its bound, returns the length of the request,
  and changes the virtual disk at the bytes of the request and nowhere else. The header, the tables and the layout stay.
\<close>

theorem qcow_write_sector_single_correct:
  assumes "disk_ok q" "\<forall>a. \<not> env_oom env a" "unat sector * 512 + length src \<le> unat (h_size (q_header q))"
    and "\<forall>i. unat sector * 512 \<le> i \<and> i < unat sector * 512 + length src \<longrightarrow> writable q i"
  shows "\<exists>q'. qcow_write_sector_single env sector src q = Some (Ret (q', int (length src))) \<and>
    disk_write (unat sector * 512) src q q'"
  using write_loop_ok [OF assms(2,1), of "unat sector * 512" src 0 "length src + 1"] assms(3,4) push_sector [of "unat sector * 512"]
  by (simp add: qcow_write_sector_single_def)

theorem qcow_write_sector_single_correct_witness:
  "\<exists>q'. qcow_write_sector_single \<lparr>env_oom = \<lambda>_. False, env_junk = [], env_dirty = False, env_inflate = \<lambda>_ _. None\<rparr>
     0 [1, 2, 3] rw_qcow = Some (Ret (q', 3)) \<and> vbyte q' 1 = 2"
proof -
  let ?env = "\<lparr>env_oom = \<lambda>_. False, env_junk = [], env_dirty = False, env_inflate = \<lambda>_ _. None\<rparr>"
  have w: "\<forall>i. unat (0 :: u64) * 512 \<le> i \<and> i < unat (0 :: u64) * 512 + length [1, 2, 3 :: u8] \<longrightarrow> writable rw_qcow i"
    using rw_ok(2) by simp
  obtain q' where q': "qcow_write_sector_single ?env 0 [1, 2, 3] rw_qcow = Some (Ret (q', 3))" "disk_write 0 [1, 2, 3] rw_qcow q'"
    using qcow_write_sector_single_correct [OF rw_ok(1) _ _ w, of ?env] by auto
  moreover have "readable rw_qcow 1" using writable_readable [OF rw_ok(2)] by simp
  ultimately have "vbyte q' 1 = 2" by (auto simp: disk_write_def)
  with q' show ?thesis by blast
qed

text \<open>
  C5: what was written to a QCOW2 image is read back: a request of whole sectors that was written returns the same bytes.
\<close>

theorem qcow_write_then_read:
  assumes "disk_ok q" "\<forall>a. \<not> env_oom env a" "q_version q \<noteq> QCOW1_VERSION"
    and "length src < 2 ^ 32" "512 dvd length src" "unat sector * 512 + length src \<le> unat (h_size (q_header q))"
    and "\<forall>i. unat sector * 512 \<le> i \<and> i < unat sector * 512 + length src \<longrightarrow> writable q i"
    and "length dst = length src"
  shows "\<exists>q1 q2. qcow_write_sector_single env sector src q = Some (Ret (q1, int (length src))) \<and>
    qcow_read_sector_single z False sector dst q1 = Some (Ret (q2, src, int (length src)))"
proof -
  let ?b = "unat sector * 512" and ?l = "length src"
  obtain q1 where q1: "write_sector_loop (?l + 1) env (of_nat (?b + 0)) src 0 q = Some (Ret (q1, int ?l))"
    "disk_write (?b + 0) (drop 0 src) q q1"
    using write_loop_ok [OF assms(2,1), of ?b src 0 "?l + 1"] assms(6,7) by auto
  have reach: "i < l1_reach q" "i < 2 ^ 64" if "writable q i" for i
    using that assms(1) by (auto simp: writable_def disk_ok_def intro: less_le_trans)
  have rd: "readable q1 i" "vbyte q1 i = src ! (i - ?b)" if "?b \<le> i" "i < ?b + ?l" for i
    using q1(2) that assms(7) reach writable_readable [of q i] by (auto simp: disk_write_def)
  have same: "q_version q1 = q_version q" "q_header q1 = q_header q" using disk_write_frame [OF q1(2)] by auto
  have ok1: "qcow_inv (q1\<lparr>q_l2 := q_l2 q1\<rparr>)" "file_ok (q_file q1)" using q1(2) by (auto simp: disk_write_def disk_ok_def)
  obtain s where s: "read_sector_loop z False (of_nat ((?b + 0) div 512)) (of_nat 0) 0 dst (q1\<lparr>q_l2 := q_l2 q1\<rparr>) =
      Some (Ret (q1\<lparr>q_l2 := s\<rparr>, take 0 dst @ map (vbyte q1) [?b + 0..<?b + ?l], int ?l))"
    using read_loop_ok [of q1 ?l ?b 0 "q_l2 q1" dst z] assms(3-6,8) same ok1 rd(1) by auto
  have "map (vbyte q1) [?b..<?b + ?l] = src" by (rule nth_equalityI) (use rd(2) in auto)
  with s have "qcow_read_sector_single z False sector dst q1 = Some (Ret (q1\<lparr>q_l2 := s\<rparr>, src, int ?l))"
    by (simp add: qcow_read_sector_single_def)
  moreover have "qcow_write_sector_single env sector src q = Some (Ret (q1, int ?l))"
    using q1(1) push_sector [of ?b] by (simp add: qcow_write_sector_single_def)
  ultimately show ?thesis by blast
qed

theorem qcow_write_then_read_witness:
  "\<exists>q1 q2. qcow_write_sector_single \<lparr>env_oom = \<lambda>_. False, env_junk = [], env_dirty = False, env_inflate = \<lambda>_ _. None\<rparr>
       0 (replicate 512 5) rw_qcow = Some (Ret (q1, 512)) \<and>
     qcow_read_sector_single (\<lambda>_ _. None) False 0 (replicate 512 1) q1 = Some (Ret (q2, replicate 512 5, 512))"
  using qcow_write_then_read [OF rw_ok(1), where src = "replicate 512 5" and sector = 0 and dst = "replicate 512 1"
      and env = "\<lparr>env_oom = \<lambda>_. False, env_junk = [], env_dirty = False, env_inflate = \<lambda>_ _. None\<rparr>" and z = "\<lambda>_ _. None"] rw_ok(2)
  by (simp add: QCOW1_VERSION_def) (simp add: rw_qcow_def sample_qcow_def)

end
