(* ===== verification/QcowAlloc.thy ===== *)
theory QcowAlloc
  imports QcowWrite
begin

text \<open>
  Cluster allocation in \<^verbatim>\<open>disk/qcow.c\<close>: refcounts are read through the cache, and the search returns the
  first run of free clusters behind the last position. What the callers of the allocator
  do with its result: a cluster or table without the flag \<^verbatim>\<open>QCOW2_OFLAG_COPIED\<close> is never written.
\<close>

section \<open>Refcounts without the cache\<close>

definition refcount_of :: "qenv \<Rightarrow> qcow \<Rightarrow> nat \<Rightarrow> u16" where
  "refcount_of env q idx =
     (let n = 2 ^ (cbits q - 1); r = idx div n
      in if unat (q_rf_size q) \<le> r \<or> q_rf_table q ! r = 0 then 0
         else case load_rfb env q (q_rf_table q ! r) of None \<Rightarrow> -1 | Some b \<Rightarrow> rfb_entries b ! (idx mod n))"

interpretation rfb: read_through "\<lambda>off b. load_rfb env q off = Some b" "load_rfb env q" for env q
  by unfold_locales

definition rfb_inv :: "qenv \<Rightarrow> qcow \<Rightarrow> bool" where
  "rfb_inv env q \<longleftrightarrow> 9 \<le> cbits q \<and> cbits q < 31 \<and> q_cluster_size q = 2 ^ cbits q \<and>
     length (q_rf_table q) = unat (q_rf_size q) \<and> rfb.store_inv env q (q_rfb q)"

lemma load_rfb_cong: "q_file q' = q_file q \<Longrightarrow> q_cluster_size q' = q_cluster_size q \<Longrightarrow> load_rfb env q' = load_rfb env q"
  by (simp add: load_rfb_def fun_eq_iff)

lemma load_rfb_frame [simp]: "load_rfb env (q\<lparr>q_rfb := s\<rparr>) = load_rfb env q" "load_rfb env (q\<lparr>q_free_clust_idx := f\<rparr>) = load_rfb env q"
  by (rule load_rfb_cong, simp_all)+

lemma refcount_of_frame [simp]: "refcount_of env (q\<lparr>q_rfb := s\<rparr>) = refcount_of env q"
  "refcount_of env (q\<lparr>q_free_clust_idx := f\<rparr>) = refcount_of env q"
  by (simp_all add: refcount_of_def fun_eq_iff Let_def cong: if_cong option.case_cong)

lemma rfb_inv_frame [simp]: "rfb_inv env (q\<lparr>q_free_clust_idx := f\<rparr>) = rfb_inv env q"
  by (simp add: rfb_inv_def)

lemma load_rfb_length: "load_rfb env q off = Some b \<Longrightarrow> length (rfb_entries b) = unat (q_cluster_size q) div 2"
  by (auto simp: load_rfb_def be16s_def Let_def split: option.splits)

lemma rf_shift_ok: "rfb_inv env q \<Longrightarrow> rf_shift q = Ret (cbits q - 1)"
  by (simp add: rf_shift_def rfb_inv_def)

lemma qcow_get_refcount_ok:
  assumes inv: "rfb_inv env q" and m: "\<forall>a. \<not> env_oom env a" and idx: "idx < 2 ^ 64"
  obtains s where "qcow_get_refcount env (of_nat idx) q = Ret (q\<lparr>q_rfb := s\<rparr>, refcount_of env q idx)" "rfb_inv env (q\<lparr>q_rfb := s\<rparr>)"
proof -
  define sh where "sh = cbits q - 1"
  let ?n = "2 ^ sh :: nat" and ?o = "q_rf_table q ! (idx div 2 ^ sh)"
  have cb: "9 \<le> cbits q" "cbits q < 31" "q_cluster_size q = 2 ^ cbits q" and rl: "length (q_rf_table q) = unat (q_rf_size q)"
    and st: "rfb.store_inv env q (q_rfb q)" using inv by (auto simp: rfb_inv_def)
  have u: "unat (drop_bit sh (of_nat idx :: u64)) = idx div ?n" by (simp add: unat_drop_bit unat_of_nat64 [OF idx])
  have le: "(ucast (q_rf_size q) \<le> drop_bit sh (of_nat idx :: u64)) = (unat (q_rf_size q) \<le> idx div ?n)"
    by (simp only: word_le_nat_alt u) (simp add: unat_ucast_up)
  note start = qcow_get_refcount_def qcow_read_refcount_block_def rf_shift_ok [OF inv, folded sh_def] Let_def u le
  note rc_def = refcount_of_def [of env q idx, folded sh_def]
  show ?thesis
  proof (cases "unat (q_rf_size q) \<le> idx div ?n \<or> ?o = 0")
    case True
    then have "refcount_of env q idx = 0" by (simp add: rc_def Let_def)
    moreover have "qcow_get_refcount env (of_nat idx) q = Ret (q\<lparr>q_rfb := q_rfb q\<rparr>, 0)"
      using True rl by (auto simp: start)
    ultimately show ?thesis using that [of "q_rfb q"] inv by simp
  next
    case False
    obtain s r where s: "read_table False (load_rfb env q) ?o (q_rfb q) = Ret (s, r)" "rfb.store_inv env q s"
      "case r of Some a \<Rightarrow> \<exists>v. qs_tables s a = Some v \<and> load_rfb env q ?o = Some v | None \<Rightarrow> False \<or> load_rfb env q ?o = None"
      using rfb.read_table_ok [OF st, of False ?o] by blast
    have inv': "rfb_inv env (q\<lparr>q_rfb := s\<rparr>)" using inv s(2) by (simp add: rfb_inv_def)
    have rd: "qcow_get_refcount env (of_nat idx) q =
        (case r of None \<Rightarrow> Ret (q\<lparr>q_rfb := s\<rparr>, -1)
         | Some a \<Rightarrow> bind_outcome (rfb_block a (q\<lparr>q_rfb := s\<rparr>)) (\<lambda>b. bind_outcome (rfb_index (of_nat idx) (q\<lparr>q_rfb := s\<rparr>)) (\<lambda>i.
             Ret (q\<lparr>q_rfb := s\<rparr>, if length (rfb_entries b) \<le> i then -1 else rfb_entries b ! i))))"
      using False rl s(1) m by (simp add: start split: option.splits)
    show ?thesis
    proof (cases r)
      case None
      with False s(3) have "refcount_of env q idx = -1" by (simp add: rc_def Let_def)
      with None rd inv' that show ?thesis by simp
    next
      case (Some a)
      then obtain b where b: "qs_tables s a = Some b" "load_rfb env q ?o = Some b" using s(3) by auto
      have "(2 :: nat) ^ cbits q = 2 * ?n" using cb(1) by (simp add: sh_def flip: power_Suc)
      then have "length (rfb_entries b) = ?n" using load_rfb_length [OF b(2)] cb by (simp add: unat_exp64)
      then have "\<not> length (rfb_entries b) \<le> idx mod ?n" by (simp add: not_le)
      moreover have "rfb_index (of_nat idx) (q\<lparr>q_rfb := s\<rparr>) = Ret (idx mod ?n)"
        using rf_shift_ok [OF inv'] sh_def unat_of_nat64 [OF idx] by (simp add: rfb_index_def)
      moreover have "refcount_of env q idx = rfb_entries b ! (idx mod ?n)" using False b(2) by (simp add: rc_def Let_def)
      ultimately show ?thesis using Some rd b(1) inv' that by (simp add: rfb_block_def)
    qed
  qed
qed

section \<open>The search\<close>

text \<open>
  \<open>free_run rc n e\<close>: the \<open>n\<close> clusters from \<open>e\<close> are free. The search looks from \<open>p\<close> on, with a run of
  \<open>i\<close> free clusters just before \<open>p\<close>.
\<close>

definition free_run :: "(nat \<Rightarrow> u16) \<Rightarrow> nat \<Rightarrow> nat \<Rightarrow> bool" where
  "free_run rc n e \<longleftrightarrow> (\<forall>x. e \<le> x \<and> x < e + n \<longrightarrow> rc x = 0)"

lemma alloc_scan_step:
  assumes inv: "rfb_inv env q" and m: "\<forall>a. \<not> env_oom env a" and p: "p < 2 ^ 32" "q_free_clust_idx q = of_nat p"
    and i: "i < n" "n < 2 ^ 32" and ok: "refcount_of env q p \<noteq> -1"
  obtains s where "rfb_inv env (q\<lparr>q_rfb := s\<rparr>)"
    "alloc_scan env (of_nat n) (of_nat i) lst q =
     alloc_scan env (of_nat n) (of_nat (if refcount_of env q p = 0 then i + 1 else 0)) (of_nat p)
       (q\<lparr>q_free_clust_idx := of_nat (p + 1), q_rfb := s\<rparr>)"
proof -
  let ?q = "q\<lparr>q_free_clust_idx := of_nat (p + 1)\<rparr>"
  have u: "unat (of_nat p :: u64) = p" "unat (of_nat i :: u32) = i" "unat (of_nat n :: u64) = n"
    using p(1) i by (simp_all add: unat_of_nat take_bit_nat_eq_self)
  have idx: "(ucast (of_nat p :: u64) :: u32) = of_nat p" using p(1) by (simp add: unsigned_of_nat take_bit_nat_eq_self)
  have "(ucast (of_nat p :: u32) :: u64) = of_nat p" using p(1) by (simp add: unsigned_of_nat take_bit_nat_eq_self)
  moreover have lt: "ucast (of_nat i :: u32) < (of_nat n :: u64)" using i(1) by (simp add: word_less_nat_alt unat_ucast_up u)
  ultimately have "alloc_scan env (of_nat n) (of_nat i) lst q =
      (case qcow_get_refcount env (of_nat p) ?q of
              Ret (q, r) \<Rightarrow>
                if r = -1 then Some (Ret (q, None))
                else if 0 < r then alloc_scan env (of_nat n) 0 (of_nat p) q
                else alloc_scan env (of_nat n) (of_nat i + 1) (of_nat p) q
            | Dies \<Rightarrow> Some Dies | Undefined \<Rightarrow> Some Undefined)"
    by (subst alloc_scan.simps) (simp add: p(2) idx add.commute Let_def)
  moreover have "rfb_inv env ?q" using inv by simp
  then obtain s where s: "rfb_inv env (?q\<lparr>q_rfb := s\<rparr>)" "qcow_get_refcount env (of_nat p) ?q = Ret (?q\<lparr>q_rfb := s\<rparr>, refcount_of env q p)"
    by (rule qcow_get_refcount_ok [OF _ m, of _ p]) (use p(1) in auto)
  moreover have "rfb_inv env (q\<lparr>q_rfb := s\<rparr>)" using s(1) by (simp add: rfb_inv_def)
  moreover have "(of_nat (i + 1) :: u32) = of_nat i + 1" by simp
  ultimately show ?thesis using ok by (intro that [of s]) (simp_all add: word_gt_0 del: of_nat_add of_nat_Suc)
qed

lemma alloc_scan_ok:
  assumes m: "\<forall>a. \<not> env_oom env a" and n: "0 < n" and e: "e + n < 2 ^ 32" "free_run rc n e"
  shows "rfb_inv env q \<Longrightarrow> refcount_of env q = rc \<Longrightarrow> q_free_clust_idx q = of_nat p \<Longrightarrow> i \<le> p \<Longrightarrow> i \<le> n \<Longrightarrow> p \<le> e + n \<Longrightarrow> p - i \<le> e \<Longrightarrow>
    free_run rc i (p - i) \<Longrightarrow> \<forall>x. p \<le> x \<and> x < e + n \<longrightarrow> rc x \<noteq> -1 \<Longrightarrow> \<forall>e'. p - i \<le> e' \<and> e' < e \<longrightarrow> \<not> free_run rc n e' \<Longrightarrow>
    (0 < i \<Longrightarrow> lst = of_nat (p - 1)) \<Longrightarrow>
    \<exists>s. rfb_inv env (q\<lparr>q_rfb := s\<rparr>) \<and> alloc_scan env (of_nat n) (of_nat i) lst q =
      Some (Ret (q\<lparr>q_rfb := s, q_free_clust_idx := of_nat (e + n)\<rparr>, Some (of_nat (e + n - 1))))"
proof (induction "e + n - p" arbitrary: p i lst q)
  case 0
  then have p: "p = e + n" by simp
  then have "i = n" using 0 by simp
  moreover have "unat (of_nat n :: u32) = n" "unat (of_nat n :: u64) = n" using e by (simp_all add: unat_of_nat take_bit_nat_eq_self)
  ultimately show ?case using 0 p n
    by (intro exI [of _ "q_rfb q"], subst alloc_scan.simps) (auto simp: word_less_nat_alt unat_ucast_up)
next
  case (Suc d)
  then have p: "p < e + n" by simp
  have "i < n"
  proof (rule ccontr)
    assume "\<not> i < n"
    then have "i = n" using Suc.prems(5) by simp
    then show False using Suc.prems(4,8) Suc.prems(10) [rule_format, of "p - n"] p by auto
  qed
  have p32: "p < 2 ^ 32" "n < 2 ^ 32" using p e(1) by auto
  have rc: "refcount_of env q p \<noteq> -1" using Suc.prems(2,9) p by auto
  obtain s where s: "rfb_inv env (q\<lparr>q_rfb := s\<rparr>)"
    "alloc_scan env (of_nat n) (of_nat i) lst q =
     alloc_scan env (of_nat n) (of_nat (if refcount_of env q p = 0 then i + 1 else 0)) (of_nat p)
       (q\<lparr>q_free_clust_idx := of_nat (p + 1), q_rfb := s\<rparr>)"
    by (rule alloc_scan_step [OF Suc.prems(1) m p32(1) Suc.prems(3) \<open>i < n\<close> p32(2) rc])
  let ?q = "q\<lparr>q_free_clust_idx := of_nat (p + 1), q_rfb := s\<rparr>" and ?i = "if rc p = 0 then i + 1 else 0"
  have keep: "rfb_inv env ?q" "refcount_of env ?q = rc" using s(1) Suc.prems(2) by (simp_all add: rfb_inv_def)
  have "\<exists>t. rfb_inv env (?q\<lparr>q_rfb := t\<rparr>) \<and> alloc_scan env (of_nat n) (of_nat ?i) (of_nat p) ?q =
      Some (Ret (?q\<lparr>q_rfb := t, q_free_clust_idx := of_nat (e + n)\<rparr>, Some (of_nat (e + n - 1))))"
  proof (cases "rc p = 0")
    case True
    have run: "free_run rc (i + 1) (p - i)" using Suc.prems(4,8) True by (auto simp: free_run_def less_Suc_eq)
    show ?thesis
      by (rule Suc.hyps(1) [where p = "p + 1"]) (use True run keep Suc.hyps(2) Suc.prems \<open>i < n\<close> p in auto)
  next
    case False
    then have "p < e" using e(2) p by (auto simp: free_run_def not_less)
    then show ?thesis
      by (intro Suc.hyps(1) [where p = "p + 1"]) (use False keep Suc.hyps(2) Suc.prems p in \<open>auto simp: free_run_def\<close>)
  qed
  then obtain t where t: "rfb_inv env (?q\<lparr>q_rfb := t\<rparr>)" "alloc_scan env (of_nat n) (of_nat ?i) (of_nat p) ?q =
      Some (Ret (?q\<lparr>q_rfb := t, q_free_clust_idx := of_nat (e + n)\<rparr>, Some (of_nat (e + n - 1))))" by blast
  have "?q\<lparr>q_rfb := t, q_free_clust_idx := of_nat (e + n)\<rparr> = q\<lparr>q_rfb := t, q_free_clust_idx := of_nat (e + n)\<rparr>" by simp
  moreover have "rfb_inv env (q\<lparr>q_rfb := t\<rparr>)" using t(1) by (simp add: rfb_inv_def)
  ultimately show ?case using s(2) t(2) Suc.prems(2) by (metis (no_types, lifting))
qed

section \<open>What allocation leaves alone\<close>

lemma bind_run_Ret: "bind_run m f = Some (Ret y) \<longleftrightarrow> (\<exists>x. m = Some (Ret x) \<and> f x = Some (Ret y))"
  by (cases "(m, f)" rule: bind_run.cases) auto

lemmas run_simps = bind_run_Ret bind_outcome_Ret

definition l2_frame :: "qcow \<Rightarrow> qcow \<Rightarrow> bool" where
  "l2_frame q q' \<longleftrightarrow> q_l2 q' = q_l2 q \<and> q_header q' = q_header q \<and> q_cluster_size q' = q_cluster_size q \<and> q_l1_table q' = q_l1_table q"

lemma l2_frame_refl [simp]: "l2_frame q q"
  by (simp add: l2_frame_def)

lemma l2_frame_trans [trans]: "l2_frame q q1 \<Longrightarrow> l2_frame q1 q2 \<Longrightarrow> l2_frame q q2"
  by (simp add: l2_frame_def)

lemma l2_frame_upd [simp]:
  "l2_frame q (q'\<lparr>q_rfb := s\<rparr>) = l2_frame q q'" "l2_frame q (q'\<lparr>q_file := f\<rparr>) = l2_frame q q'"
  "l2_frame q (q'\<lparr>q_free_clust_idx := i\<rparr>) = l2_frame q q'" "l2_frame q (q'\<lparr>q_rf_table := t\<rparr>) = l2_frame q q'"
  "l2_frame q (put_rfb a b q') = l2_frame q q'" "l2_frame (q\<lparr>q_free_clust_idx := i\<rparr>) q' = l2_frame q q'"
  by (simp_all add: l2_frame_def put_rfb_def)

text \<open>
  \<open>post P m\<close>: if \<open>m\<close> returns, \<open>P\<close> holds of the new state. The rules follow the structure of the operations.
\<close>

definition post :: "(qcow \<Rightarrow> bool) \<Rightarrow> (qcow \<times> 'a) outcome option \<Rightarrow> bool" where
  "post P m \<longleftrightarrow> (\<forall>q x. m = Some (Ret (q, x)) \<longrightarrow> P q)"

lemma post_ends [simp]: "post P None" "post P (Some Dies)" "post P (Some Undefined)" "post P (Some (Ret (q, x))) = P q"
  by (auto simp: post_def)

lemma post_bind: "post P m \<Longrightarrow> (\<And>q x. P q \<Longrightarrow> post R (g q x)) \<Longrightarrow> post R (bind_run m (case_prod g))"
  unfolding post_def run_simps by (clarsimp split: prod.splits) blast

lemma post_value: "(\<And>x. post R (g x)) \<Longrightarrow> post R (bind_run m g)"
  by (auto simp: post_def run_simps)

lemma post_if: "(b \<Longrightarrow> post P m) \<Longrightarrow> (\<not> b \<Longrightarrow> post P n) \<Longrightarrow> post P (if b then m else n)"
  by simp

lemma post_option: "(x = None \<Longrightarrow> post P m) \<Longrightarrow> (\<And>y. x = Some y \<Longrightarrow> post P (f y)) \<Longrightarrow> post P (case x of None \<Rightarrow> m | Some y \<Rightarrow> f y)"
  by (cases x) auto

lemma post_prod: "(\<And>y z. x = (y, z) \<Longrightarrow> post P (f y z)) \<Longrightarrow> post P (case x of (y, z) \<Rightarrow> f y z)"
  by (cases x) auto

lemmas post_rules = post_if post_option post_prod

lemma read_refcount_block_post: "l2_frame q0 q \<Longrightarrow> post (l2_frame q0) (Some (qcow_read_refcount_block env idx q))"
  by (auto simp: post_def qcow_read_refcount_block_def run_simps Let_def split: if_splits)

lemma get_refcount_frame: "qcow_get_refcount env idx q = Ret (q', r) \<Longrightarrow> l2_frame q q'"
proof -
  assume "qcow_get_refcount env idx q = Ret (q', r)"
  then obtain q1 x where r: "qcow_read_refcount_block env idx q = Ret (q1, x)" and
    e: "(case x of RfbNoSpace \<Rightarrow> Ret (q1, 0) | RfbError \<Rightarrow> Ret (q1, -1) | RfbAt a \<Rightarrow>
           bind_outcome (rfb_block a q1) (\<lambda>b. bind_outcome (rfb_index idx q1) (\<lambda>i.
             Ret (q1, if length (rfb_entries b) \<le> i then -1 else rfb_entries b ! i)))) = Ret (q', r)"
    by (auto simp: qcow_get_refcount_def run_simps)
  have "l2_frame q q1" using read_refcount_block_post [of q q env idx] r by simp
  moreover have "q' = q1"
  proof (cases x)
    case (RfbAt a)
    with e show ?thesis by (auto simp: run_simps)
  qed (use e in auto)
  ultimately show ?thesis by simp
qed

lemma write_refcount_block_post: "l2_frame q0 q \<Longrightarrow> post (l2_frame q0) (Some (write_refcount_block a q))"
proof (cases "rfb_block a q")
  case (Ret b)
  assume "l2_frame q0 q"
  then show ?thesis
    by (cases "qcow_pwrite_sync (q_file q) (concat (map u16_be (rfb_entries b))) (rfb_offset b)")
       (simp add: write_refcount_block_def Ret)
qed (simp_all add: write_refcount_block_def)

lemma alloc_scan_frame: "alloc_scan env n i lst q = Some r \<Longrightarrow> \<forall>q' x. r = Ret (q', x) \<longrightarrow> l2_frame q q'"
proof (induction rule: alloc_scan.raw_induct [rotated, consumes 1, case_names step])
  case (step scan env n i lst q r)
  show ?case
  proof (intro allI impI, cases "ucast i < n")
    case True
    fix q' x assume r: "r = Ret (q', x)"
    let ?q = "q\<lparr>q_free_clust_idx := q_free_clust_idx q + 1\<rparr>"
    from step(2) r True obtain q1 c where g: "qcow_get_refcount env (ucast (ucast (q_free_clust_idx q) :: u32)) ?q = Ret (q1, c)"
      by (auto simp: Let_def split: outcome.splits)
    have "l2_frame q q1" using get_refcount_frame [OF g] by simp
    moreover have "l2_frame q1 q'"
      using step(2) r True g step(1) by (auto simp: Let_def split: if_splits)
    ultimately show "l2_frame q q'" by (rule l2_frame_trans)
  qed (use step(2) in auto)
qed

lemma find_clusters_post: "l2_frame q0 q \<Longrightarrow> post (l2_frame q0) (find_clusters env sz q)"
  by (auto simp: post_def find_clusters_def run_simps Let_def dest!: alloc_scan_frame intro: l2_frame_trans)

lemma grow_post:
  assumes upd: "\<And>idx d q. l2_frame q0 q \<Longrightarrow> post (l2_frame q0) (upd idx d q)" and q: "l2_frame q0 q"
  shows "post (l2_frame q0) (qcow_grow_refcount_block upd env idx q)"
  unfolding qcow_grow_refcount_block_def Let_def
  by (rule post_value post_rules post_bind [OF find_clusters_post [OF q]] post_bind [OF write_refcount_block_post] post_bind [OF upd]
      | simp add: q qcow_write_refcount_table_def split: prod.splits)+

lemma update_refcount_post: "l2_frame q0 q \<Longrightarrow> post (l2_frame q0) (update_cluster_refcount fuel env idx d q)"
proof (induction fuel arbitrary: idx d q)
  case (Suc fuel)
  have pick: "post (l2_frame q0) (case r of RfbError \<Rightarrow> Some (Ret (q1, None)) | RfbAt a \<Rightarrow> Some (Ret (q1, Some a))
      | RfbNoSpace \<Rightarrow> qcow_grow_refcount_block (update_cluster_refcount fuel env) env idx q1)" if "l2_frame q0 q1" for q1 r
    using that grow_post [of q0 "update_cluster_refcount fuel env" q1 env idx] Suc.IH by (cases r) auto
  show ?case unfolding update_cluster_refcount.simps(2) Let_def
    by (rule post_bind [OF read_refcount_block_post [OF Suc.prems]] post_bind [OF pick] post_value post_rules
        post_bind [OF write_refcount_block_post] | simp)+
qed (simp add: update_cluster_refcount.simps)

lemma claim_loop_post: "l2_frame q0 q \<Longrightarrow> post (l2_frame q0) (claim_loop env cs q)"
proof (induction cs arbitrary: q)
  case (Cons c cs)
  show ?case unfolding claim_loop.simps
    by (rule post_bind [OF update_refcount_post [OF Cons.prems]] post_if | simp add: Cons.IH)+
qed simp

lemma alloc_clusters_post:
  assumes q: "l2_frame q0 q"
  shows "post (l2_frame q0) (qcow_alloc_clusters env sz u q)"
proof -
  have claim: "post (l2_frame q0) (if u then claim_loop env cs q1 else Some (Ret (q1, True)))" if "l2_frame q0 q1" for q1 cs
    using that by (simp add: claim_loop_post)
  show ?thesis unfolding qcow_alloc_clusters_def
    by (rule post_bind [OF find_clusters_post [OF q]] post_bind [OF claim] post_option post_prod | assumption | simp)+
qed

section \<open>Tables and clusters that are not owned\<close>

text \<open>A second use of the contract of the cache: every cached table carries its own offset.\<close>

lemma load_l2_offset: "load_l2 f n off = Some t \<Longrightarrow> l2_offset t = off"
  by (auto simp: load_l2_def split: option.splits)

interpretation l2o: read_through "\<lambda>off t. l2_offset t = off" "load_l2 f n" for f n
  by unfold_locales (rule load_l2_offset)

lemma store_inv_weaken: "l2.store_inv f n s \<Longrightarrow> l2o.store_inv s"
  unfolding l2.store_inv_def l2o.store_inv_def using load_l2_offset by blast

lemma read_table_last:
  assumes inv: "cache_inv (qs_cache s)" and r: "read_table oom load off s = Ret (s', Some a)"
  obtains xs where "qc_lru (qs_cache s') = xs @ [\<lparr>qn_offset = off, qn_addr = a\<rparr>]" "cache_inv (qs_cache s')"
proof -
  obtain c x where cx: "table_search off (qs_cache s) = (c, x)" by (cases "table_search off (qs_cache s)")
  note ok = table_search_ok [OF inv cx]
  show ?thesis
  proof (cases x)
    case (Some n)
    then have "qn_offset n = off" using ok(2) by (simp add: cached_Some [OF inv])
    moreover have "qn_addr n = a" "qs_cache s' = c" using r cx Some by (auto simp: read_table_def)
    moreover have "n = \<lparr>qn_offset = qn_offset n, qn_addr = qn_addr n\<rparr>" by simp
    ultimately show ?thesis using ok(1,5) Some that by auto
  next
    case None
    let ?n = "\<lparr>qn_offset = off, qn_addr = qs_next s\<rparr>"
    have c: "c = qs_cache s" using cx None by (auto simp: table_search_def split: option.splits)
    obtain v where v: "\<not> oom" "load off = Some v" using r cx None by (auto simp: read_table_def split: if_splits option.splits)
    have "cached (qs_cache s) (qn_offset ?n) = None" using ok(2) None by simp
    then obtain c' fr xs where c': "cache_table ?n (qs_cache s) = Ret (c', fr)" "cache_inv c'" "qc_lru c' = xs @ [?n]"
      by (rule cache_table_ok [OF inv])
    then have "qs_cache s' = c'" "a = qs_next s" using r cx None c v by (auto simp: read_table_def)
    with c' that show ?thesis by blast
  qed
qed

lemma cache_table_again:
  assumes inv: "cache_inv c" and l: "qc_lru c = xs @ [n]"
  shows "cache_table n c = Undefined"
proof -
  obtain c' fr where c': "cache_evict c = Ret (c', fr)" "qc_lru c' = (if qc_nr c = MAX_CACHE_NODES then tl (qc_lru c) else qc_lru c)"
    by (rule cache_evict_ok [OF inv])
  have "n \<in> set (qc_lru c')" using c'(2) l inv by (cases xs) (auto simp: cache_inv_def MAX_CACHE_NODES_def)
  then show ?thesis using c'(1)
    by (cases "rb_insert_by (key_dir qn_offset (qn_offset n)) n (qc_root c')") (simp_all add: cache_table_def table_insert_def)
qed

lemma pwrite_minus_one: "buf \<noteq> [] \<Longrightarrow> pwrite_in_full f buf (-1) = None"
  by (simp add: pwrite_in_full_def unsigned_minus_1_eq_mask mask_eq_exp_minus_1 Let_def)

text \<open>\<open>yields v m\<close>: if \<open>m\<close> returns, the value is \<open>v\<close>.\<close>

definition yields :: "'a \<Rightarrow> (qcow \<times> 'a) outcome option \<Rightarrow> bool" where
  "yields v m \<longleftrightarrow> (\<forall>q x. m = Some (Ret (q, x)) \<longrightarrow> x = v)"

lemma yields_ends [simp]: "yields v None" "yields v (Some Dies)" "yields v (Some Undefined)" "yields v (Some (Ret (q, x))) \<longleftrightarrow> x = v"
  by (auto simp: yields_def)

lemma yields_bind: "(\<And>x. m = Some (Ret x) \<Longrightarrow> yields v (f x)) \<Longrightarrow> yields v (bind_run m f)"
  by (auto simp: yields_def run_simps)

lemma alloc_l2_frame: "qcow_alloc_clusters env sz u q = Some (Ret (q', r)) \<Longrightarrow> l2_frame q q'"
  using alloc_clusters_post [of q q env sz u] by (simp add: post_def)

lemma new_cache_table_inv:
  assumes "l2o.store_inv (q_l2 q)" "new_cache_table env off q = Ret (q', Some a)"
  shows "l2o.store_inv (q_l2 q')" "qs_tables (q_l2 q') a = Some \<lparr>l2_offset = off, l2_dirty = False,
    l2_entries = replicate (2 ^ l2bits q) 0\<rparr>" "q_header q' = q_header q"
proof -
  from assms(2) have q': "l2bits q < 31" "a = qs_next (q_l2 q)"
    "q' = put_l2 a \<lparr>l2_offset = off, l2_dirty = False, l2_entries = replicate (2 ^ l2bits q) 0\<rparr>
       (q\<lparr>q_l2 := (q_l2 q)\<lparr>qs_next := a + 1\<rparr>\<rparr>)"
    by (auto simp: new_cache_table_def run_simps Let_def one_shl_def unat_exp64 split: if_splits)
  show "l2o.store_inv (q_l2 q')" using assms(1) q' unfolding l2o.store_inv_def
    by (auto simp: put_l2_def less_Suc_eq)
  show "qs_tables (q_l2 q') a = Some \<lparr>l2_offset = off, l2_dirty = False, l2_entries = replicate (2 ^ l2bits q) 0\<rparr>"
    "q_header q' = q_header q" using q' by (simp_all add: put_l2_def)
qed

lemma free_cluster_exit_None: "yields None (free_cluster_exit env new q)"
  unfolding free_cluster_exit_def by (rule yields_bind) simp

text \<open>The table of the new cluster cannot be written at offset -1; one that was read is in the cache already.\<close>

lemma install_fresh:
  assumes "qs_tables (q_l2 q) a = Some t" "l2_offset t = -1" "l2_entries t \<noteq> []"
  shows "install_table env l1t_idx l2t_idx l2t_offset new a q = free_cluster_exit env new (drop_l2 a (put_l2 a (t\<lparr>l2_dirty := True\<rparr>) q))"
proof -
  have "concat (map u64_be (l2_entries t)) \<noteq> []" using assms(3) by (cases "l2_entries t") (auto simp: u64_be_def)
  then have "qcow_pwrite_sync (q_file q) (concat (map u64_be (l2_entries t))) (-1) = (q_file q, False)"
    by (simp add: qcow_pwrite_sync_def pwrite_minus_one)
  with assms show ?thesis
    by (simp add: install_table_def l2_at_def put_l2_def qcow_l2_cache_write_def)
qed

lemma install_cached_fails:
  assumes "qs_tables (q_l2 q) a = Some t" "cache_inv (qs_cache (q_l2 q))"
    and "qc_lru (qs_cache (q_l2 q)) = xs @ [\<lparr>qn_offset = l2_offset t, qn_addr = a\<rparr>]"
  shows "yields None (install_table env l1t_idx l2t_idx l2t_offset new a q)"
proof -
  let ?q = "put_l2 a (t\<lparr>l2_dirty := True\<rparr>) q"
  obtain f ok where w: "qcow_pwrite_sync (q_file q) (concat (map u64_be (l2_entries t))) (l2_offset t) = (f, ok)" by fastforce
  have "qcow_l2_cache_write a ?q = Ret (if ok then put_l2 a (t\<lparr>l2_dirty := False\<rparr>) (?q\<lparr>q_file := f\<rparr>) else ?q\<lparr>q_file := f\<rparr>, ok)"
    using w by (simp add: qcow_l2_cache_write_def l2_at_def put_l2_def)
  moreover have "cache_table \<lparr>qn_offset = l2_offset t, qn_addr = a\<rparr> (qs_cache (q_l2 q)) = Undefined"
    by (rule cache_table_again) (use assms in auto)
  ultimately show ?thesis using assms(1)
    by (simp add: install_table_def l2_at_def free_cluster_exit_None) (simp add: put_l2_def)
qed

lemma read_cached_fails:
  assumes inv: "l2o.store_inv (q_l2 q)" and rd: "qcow_read_l2_table oom off q = Ret (q', Some a)"
  shows "yields None (install_table env l1t_idx l2t_idx l2t_offset new a q')"
proof -
  from rd obtain n s where s: "read_table oom (load_l2 (q_file q) n) off (q_l2 q) = Ret (s, Some a)" "q' = q\<lparr>q_l2 := s\<rparr>"
    by (auto simp: qcow_read_l2_table_def run_simps)
  obtain t where t: "qs_tables s a = Some t" "l2_offset t = off"
    using l2o.read_table_ok [OF inv, of oom "q_file q" n off] s(1) by auto
  have "cache_inv (qs_cache (q_l2 q))" using inv by (simp add: l2o.store_inv_def)
  then obtain xs where "qc_lru (qs_cache s) = xs @ [\<lparr>qn_offset = off, qn_addr = a\<rparr>]" "cache_inv (qs_cache s)"
    using s(1) by (rule read_table_last)
  then show ?thesis using t s(2) by (intro install_cached_fails [of _ _ t xs]) auto
qed

lemma copy_table_fails:
  assumes inv: "l2o.store_inv (q_l2 q)"
  shows "yields None (copy_table env l1t_idx l2t_idx l2t_size l2t_offset q)"
  unfolding copy_table_def
proof (rule yields_bind, clarify, goal_cases)
  case a: (1 q1 new)
  have inv1: "l2o.store_inv (q_l2 q1)" using alloc_l2_frame [OF a] inv by (simp add: l2_frame_def)
  show ?case
  proof (cases "new = -1")
    case True
    show ?thesis unfolding True
    proof (simp only: simp_thms if_False if_True, rule yields_bind, clarify, goal_cases)
      case n: (1 q2 r)
      show ?case
      proof (cases r)
        case (Some fresh)
        note new = new_cache_table_inv [OF inv1 n(1) [unfolded Some]]
        have cached: "yields None (case r of None \<Rightarrow> free_cluster_exit env (-1) q3
            | Some a \<Rightarrow> install_table env l1t_idx l2t_idx l2t_offset (-1) a q3)"
          if rd: "qcow_read_l2_table (env_oom env (qs_next (q_l2 q2))) l2t_offset q2 = Ret (q3, r)" for q3 r
          using read_cached_fails [OF new(1)] rd free_cluster_exit_None by (cases r) auto
        show ?thesis
        proof (cases "l2t_offset = 0")
          case True
          with Some install_fresh [OF new(2)] show ?thesis by (simp add: free_cluster_exit_None)
        next
          case False
          with Some cached show ?thesis by (auto intro!: yields_bind)
        qed
      qed (simp add: free_cluster_exit_None)
    qed
  qed simp
qed

lemma copy_cluster_fails:
  assumes "buf \<noteq> []"
  shows "yields (-1) (copy_cluster env off start flags buf a i co q)"
proof -
  have fail: "yields (-1 :: int) (bind_run (qcow_free_clusters env new n q) (\<lambda>q. Some (Ret (q, -1))))" for new n q
    by (rule yields_bind) simp
  have w: "write_image (take n c @ buf @ d) (-1) q = (q, False)" for n c d q
    using assms by (simp add: write_image_def pwrite_minus_one)
  show ?thesis unfolding copy_cluster_def Let_def
  proof (rule yields_bind, clarify, goal_cases)
    case (1 q1 new)
    show ?case
    proof (cases "new = -1")
      case True
      show ?thesis unfolding True
        by (simp only: simp_thms if_False if_True) (rule yields_bind, clarify, simp add: w fail)
    qed simp
  qed
qed

text \<open>Table and cluster of an offset both carry the flag \<^verbatim>\<open>QCOW2_OFLAG_COPIED\<close>.\<close>

definition owned :: "qcow \<Rightarrow> nat \<Rightarrow> bool" where
  "owned q i \<longleftrightarrow>
     (let l1 = q_l1_table q ! (i div 2 ^ (l2bits q + cbits q))
      in l1 AND QCOW2_OFLAG_COPIED \<noteq> 0 \<and>
         (case load_l2 (q_file q) (2 ^ l2bits q) (l1 AND NOT QCOW2_OFLAG_COPIED) of
            None \<Rightarrow> False
          | Some t \<Rightarrow> l2_entries t ! (i div 2 ^ cbits q mod 2 ^ l2bits q) AND QCOW2_OFLAG_COPIED \<noteq> 0))"

lemma get_cluster_table_cases:
  assumes inv: "qcow_inv q"
    and nc: "q_l1_table q ! (unat off div 2 ^ (l2bits q + cbits q)) AND QCOW2_OFLAG_COPIED \<noteq> 0"
    and g: "get_cluster_table env off q = Some (Ret (q', Some (a, i)))"
  obtains t where "load_l2 (q_file q) (2 ^ l2bits q) (q_l1_table q ! (unat off div 2 ^ (l2bits q + cbits q)) AND NOT QCOW2_OFLAG_COPIED) = Some t"
    "qs_tables (q_l2 q') a = Some t" "unat i = unat off div 2 ^ cbits q mod 2 ^ l2bits q" "unat i < length (l2_entries t)"
proof -
  have geo: "geometry_ok q" using inv by (simp add: qcow_inv_def)
  let ?o = "q_l1_table q ! (unat off div 2 ^ (l2bits q + cbits q)) AND NOT QCOW2_OFLAG_COPIED" and ?m = "env_oom env (qs_next (q_l2 q))"
  have i1: "unat (drop_bit (l2bits q + cbits q) off) = unat off div 2 ^ (l2bits q + cbits q)" by (rule unat_drop_bit)
  obtain r where r: "qcow_read_l2_table ?m ?o q = Ret (q', Some r)" "r = a" "i = drop_bit (cbits q) off AND (2 ^ l2bits q - 1)"
    using g nc by (auto simp: get_cluster_table_def index_values [OF geo] Let_def run_simps i1 split: if_splits option.splits)
  obtain s r' where s: "qcow_read_l2_table ?m ?o q = Ret (q\<lparr>q_l2 := s\<rparr>, r')"
    "case r' of None \<Rightarrow> ?m \<or> load_l2 (q_file q) (2 ^ l2bits q) ?o = None
     | Some a \<Rightarrow> \<exists>t. qs_tables s a = Some t \<and> load_l2 (q_file q) (2 ^ l2bits q) ?o = Some t"
    by (rule read_l2_table_ok [OF inv])
  have "q' = q\<lparr>q_l2 := s\<rparr>" "r' = Some a" using r(1,2) s(1) by simp_all
  then obtain t where t: "qs_tables s a = Some t" "load_l2 (q_file q) (2 ^ l2bits q) ?o = Some t" using s(2) by auto
  have "unat i = unat off div 2 ^ cbits q mod 2 ^ l2bits q" using r(3) l2_index_bound(1) [OF geo] by simp
  with t \<open>q' = q\<lparr>q_l2 := s\<rparr>\<close> load_l2_length [OF t(2)] show ?thesis by (intro that [of t]) simp_all
qed

lemma write_not_owned:
  assumes inv: "qcow_inv q" and o: "\<not> owned q (unat off)" and src: "src \<noteq> []"
  shows "yields (-1) (qcow_write_cluster env off src q)"
proof -
  have geo: "geometry_ok q" using inv by (simp add: qcow_inv_def)
  let ?e1 = "q_l1_table q ! (unat off div 2 ^ (l2bits q + cbits q))"
  let ?co = "off AND (2 ^ cbits q - 1)"
  note co = cluster_offset_bound [OF geo, of off]
  have i1: "unat (drop_bit (l2bits q + cbits q) off) = unat off div 2 ^ (l2bits q + cbits q)" by (rule unat_drop_bit)
  have "unat off mod 2 ^ cbits q < 2 ^ cbits q" by simp
  then have buf: "take (unat (q_cluster_size q - ?co)) src \<noteq> []" using co(3) src by (simp del: mod_less_divisor)
  have no_table: False if g: "get_cluster_table env off q = Some (Ret (q1, Some x))" and nc: "?e1 AND QCOW2_OFLAG_COPIED = 0" for q1 x
  proof -
    have "l2o.store_inv (q_l2 q)" using inv store_inv_weaken by (auto simp: qcow_inv_def)
    note fails = copy_table_fails [OF this]
    obtain i j n o' where "copy_table env i j n o' q = Some (Ret (q1, Some x))"
      using g nc by (auto simp: get_cluster_table_def index_values [OF geo] Let_def i1 split: if_splits)
    with fails show False unfolding yields_def by blast
  qed
  show ?thesis unfolding qcow_write_cluster_def index_values [OF geo] bind_run.simps(2) Let_def if_not_P [OF co(2) [folded not_le]]
  proof (rule yields_bind, clarify, goal_cases)
    case (1 q1 r)
    show ?case
    proof (cases r)
      case (Some x)
      obtain a i where x: "x = (a, i)" by fastforce
      note g = 1 [unfolded Some]
      have "?e1 AND QCOW2_OFLAG_COPIED \<noteq> 0" using no_table [OF g] by auto
      from get_cluster_table_cases [OF inv this g [unfolded x]] obtain t where
        t: "load_l2 (q_file q) (2 ^ l2bits q) (?e1 AND NOT QCOW2_OFLAG_COPIED) = Some t" "qs_tables (q_l2 q1) a = Some t"
          "unat i = unat off div 2 ^ cbits q mod 2 ^ l2bits q" "unat i < length (l2_entries t)" by blast
      have e: "l2_entry a i q1 = Ret (l2_entries t ! unat i)" using t by (simp add: l2_entry_def)
      have "l2_entries t ! unat i AND QCOW2_OFLAG_COPIED = 0"
        using o t(1,3) \<open>?e1 AND QCOW2_OFLAG_COPIED \<noteq> 0\<close> by (simp add: owned_def Let_def)
      then have "(l2_entries t ! unat i AND QCOW2_OFLAGS_MASK) AND QCOW2_OFLAG_COPIED = 0"
        by (simp add: and.assoc QCOW2_OFLAGS_MASK_def bit.conj_disj_distrib2)
      then show ?thesis using e buf copy_cluster_fails by (simp add: Some x)
    qed simp
  qed
qed

section \<open>Properties\<close>


definition plain_env :: qenv where
  "plain_env = \<lparr>env_oom = \<lambda>_. False, env_junk = [], env_dirty = False, env_inflate = \<lambda>_ _. None\<rparr>"

lemma plain_env_fields [simp]: "env_oom plain_env a = False" "env_junk plain_env = []"
  by (simp_all add: plain_env_def)



definition blank_qcow :: qcow where "blank_qcow = sample_qcow\<lparr>q_l1_table := [0]\<rparr>"

lemma blank_alloc: "qcow_alloc_clusters plain_env 512 True blank_qcow = Some (Ret (blank_qcow\<lparr>q_free_clust_idx := 1\<rparr>, -1))"
proof -
  have f: "q_cluster_size blank_qcow = 512" "cbits blank_qcow = 9" "q_free_clust_idx blank_qcow = 0" "q_rf_size blank_qcow = 0"
    by (simp_all add: blank_qcow_def sample_qcow_def)
  have rd: "qcow_read_refcount_block env i (blank_qcow\<lparr>q_free_clust_idx := k\<rparr>) = Ret (blank_qcow\<lparr>q_free_clust_idx := k\<rparr>, RfbNoSpace)" for env i k
    using f by (simp add: qcow_read_refcount_block_def rf_shift_def)
  have "alloc_scan plain_env 1 0 0 blank_qcow = Some (Ret (blank_qcow\<lparr>q_free_clust_idx := 1\<rparr>, Some 0))"
    by (subst alloc_scan.simps, simp add: Let_def f qcow_get_refcount_def rd, subst alloc_scan.simps, simp)
  moreover have "update_cluster_refcount (Suc k) plain_env 0 1 (blank_qcow\<lparr>q_free_clust_idx := 1\<rparr>) =
      Some (Ret (blank_qcow\<lparr>q_free_clust_idx := 1\<rparr>, -1))" for k
    using f by (simp add: update_cluster_refcount.simps rd qcow_grow_refcount_block_def rf_shift_def)
  ultimately show ?thesis
    using f by (simp add: qcow_alloc_clusters_def find_clusters_def refcount_fuel_def)
qed


end
