(* ===== verification/QcowFlush.thy ===== *)
theory QcowFlush
  imports QcowWrite
begin

text \<open>
  Flushing and closing a QCOW image. Refcount blocks and level-2 tables are written back by the same
  loop with a writer each; the locale \<open>write_back\<close> is what the loop relies on, and both writers provide it.
\<close>

section \<open>Writing back a list of tables\<close>

locale write_back =
  fixes wr :: "nat \<Rightarrow> qcow \<Rightarrow> (qcow \<times> bool) outcome"
    and tab :: "qcow \<Rightarrow> nat \<Rightarrow> 'v option"
    and clean :: "'v \<Rightarrow> 'v"
    and ok :: "qcow \<Rightarrow> bool"
    and rest :: "qcow \<Rightarrow> 'r"
  assumes wr_ok: "ok q \<Longrightarrow> tab q a = Some t \<Longrightarrow> \<exists>q'. wr a q = Ret (q', True) \<and> ok q' \<and> tab q' = (tab q)(a \<mapsto> clean t) \<and> rest q' = rest q"
    and clean_clean: "clean (clean t) = clean t"
begin

definition cleaned :: "nat set \<Rightarrow> qcow \<Rightarrow> nat \<Rightarrow> 'v option" where
  "cleaned A q a = (if a \<in> A then map_option clean (tab q a) else tab q a)"

lemma flush_loop_ok:
  "ok q \<Longrightarrow> \<forall>n \<in> set ns. tab q (qn_addr n) \<noteq> None \<Longrightarrow>
   \<exists>q'. flush_loop wr ns q = Ret (q', True) \<and> ok q' \<and> tab q' = cleaned (qn_addr ` set ns) q \<and> rest q' = rest q"
proof (induction ns arbitrary: q)
  case Nil
  then show ?case by (auto simp: cleaned_def)
next
  case (Cons n ns)
  then obtain t where t: "tab q (qn_addr n) = Some t" by auto
  from wr_ok [OF Cons.prems(1) t] obtain q1 where q1: "wr (qn_addr n) q = Ret (q1, True)" "ok q1"
    "tab q1 = (tab q)(qn_addr n \<mapsto> clean t)" "rest q1 = rest q" by blast
  have "\<forall>m \<in> set ns. tab q1 (qn_addr m) \<noteq> None" using Cons.prems(2) q1(3) by auto
  from Cons.IH [OF q1(2) this] obtain q' where q': "flush_loop wr ns q1 = Ret (q', True)" "ok q'"
    "tab q' = cleaned (qn_addr ` set ns) q1" "rest q' = rest q1" by blast
  have "tab q' = cleaned (qn_addr ` set (n # ns)) q"
    using q'(3) q1(3) t by (auto simp: cleaned_def fun_eq_iff clean_clean)
  with q1 q' show ?case by auto
qed

end

definition flushable :: "qcow \<Rightarrow> bool" where
  "flushable q \<longleftrightarrow> (\<forall>off. \<not> f_wr_err (q_file q) off) \<and> \<not> f_sync_err (q_file q) \<and>
     (\<forall>a b. qs_tables (q_rfb q) a = Some b \<longrightarrow> unat (rfb_offset b) < 2 ^ 63) \<and>
     (\<forall>a t. qs_tables (q_l2 q) a = Some t \<longrightarrow> unat (l2_offset t) < 2 ^ 63)"

lemma pwrite_sync_ok:
  assumes "\<forall>off. \<not> f_wr_err f off" "\<not> f_sync_err f" "unat off < 2 ^ 63"
  shows "\<exists>bs. qcow_pwrite_sync f buf off = (f\<lparr>f_bytes := bs\<rparr>, True)"
proof (cases "buf = []")
  case True
  then show ?thesis using assms by (intro exI [of _ "f_bytes f"]) (simp add: qcow_pwrite_sync_def pwrite_in_full_def)
next
  case False
  then show ?thesis using assms by (simp add: qcow_pwrite_sync_def pwrite_in_full_def Let_def) (rule exI, rule refl)
qed

interpretation rfb_back: write_back write_refcount_block "\<lambda>q. qs_tables (q_rfb q)" "\<lambda>b. b\<lparr>rfb_dirty := False\<rparr>" flushable
  "\<lambda>q. (qs_cache (q_rfb q), q_l2 q, q_l1_table q)"
proof unfold_locales
  fix q a b assume ok: "flushable q" and b: "qs_tables (q_rfb q) a = Some b"
  have off: "unat (rfb_offset b) < 2 ^ 63" using ok b by (auto simp: flushable_def)
  obtain bs where bs: "qcow_pwrite_sync (q_file q) (concat (map u16_be (rfb_entries b))) (rfb_offset b) = ((q_file q)\<lparr>f_bytes := bs\<rparr>, True)"
    using pwrite_sync_ok [OF _ _ off, of "q_file q"] ok unfolding flushable_def by blast
  show "\<exists>q'. write_refcount_block a q = Ret (q', True) \<and> flushable q' \<and>
      qs_tables (q_rfb q') = (qs_tables (q_rfb q))(a \<mapsto> b\<lparr>rfb_dirty := False\<rparr>) \<and>
      (qs_cache (q_rfb q'), q_l2 q', q_l1_table q') = (qs_cache (q_rfb q), q_l2 q, q_l1_table q)"
  proof (cases "rfb_dirty b")
    case True
    then show ?thesis using ok b bs off by (auto simp: write_refcount_block_def rfb_block_def put_rfb_def flushable_def)
  next
    case False
    then have "b\<lparr>rfb_dirty := False\<rparr> = b" by simp
    then show ?thesis using ok b False by (auto simp: write_refcount_block_def rfb_block_def)
  qed
qed simp

interpretation l2_back: write_back qcow_l2_cache_write "\<lambda>q. qs_tables (q_l2 q)" "\<lambda>t. t\<lparr>l2_dirty := False\<rparr>" flushable
  "\<lambda>q. (qs_cache (q_l2 q), q_rfb q, q_l1_table q)"
proof unfold_locales
  fix q a t assume ok: "flushable q" and t: "qs_tables (q_l2 q) a = Some t"
  have off: "unat (l2_offset t) < 2 ^ 63" using ok t by (auto simp: flushable_def)
  obtain bs where bs: "qcow_pwrite_sync (q_file q) (concat (map u64_be (l2_entries t))) (l2_offset t) = ((q_file q)\<lparr>f_bytes := bs\<rparr>, True)"
    using pwrite_sync_ok [OF _ _ off, of "q_file q"] ok unfolding flushable_def by blast
  show "\<exists>q'. qcow_l2_cache_write a q = Ret (q', True) \<and> flushable q' \<and>
      qs_tables (q_l2 q') = (qs_tables (q_l2 q))(a \<mapsto> t\<lparr>l2_dirty := False\<rparr>) \<and>
      (qs_cache (q_l2 q'), q_rfb q', q_l1_table q') = (qs_cache (q_l2 q), q_rfb q, q_l1_table q)"
  proof (cases "l2_dirty t")
    case True
    then show ?thesis using ok t bs off by (auto simp: qcow_l2_cache_write_def l2_at_def put_l2_def flushable_def)
  next
    case False
    then have "t\<lparr>l2_dirty := False\<rparr> = t" by simp
    then show ?thesis using ok t False by (auto simp: qcow_l2_cache_write_def l2_at_def)
  qed
qed simp

section \<open>Properties\<close>



end
