(* ===== verification/QcowOpen.thy ===== *)
theory QcowOpen
  imports QcowAlloc
begin

text \<open>
  Opening an image in \<^verbatim>\<open>disk/qcow.c\<close>: the header checks, the two header formats, the level-1 and refcount
  tables, and the probe functions. Allocations are numbered in the order of the probe functions;
  \<^verbatim>\<open>env_oom\<close> says which fail. A header that was not read completely holds what was on the stack.
\<close>

section \<open>Headers\<close>

definition be32 :: "u8 list \<Rightarrow> u32" where
  "be32 bs = fold (\<lambda>b v. push_bit 8 v OR ucast b) (take 4 bs) 0"

definition QCOW_MAGIC :: u32 where "QCOW_MAGIC = 0x514649FB"

definition read_header_disk :: "qenv \<Rightarrow> nat \<Rightarrow> qfile \<Rightarrow> u8 list option" where
  "read_header_disk env n f =
     (case pread_in_full f n 0 of
        None \<Rightarrow> None
      | Some bs \<Rightarrow> Some (take n (bs @ drop (length bs) (env_junk env) @ replicate n 0)))"

definition qcow2_read_header :: "qenv \<Rightarrow> qfile \<Rightarrow> qcow_header option" where
  "qcow2_read_header env f =
     (if env_oom env 1 then None
      else case read_header_disk env 72 f of
        None \<Rightarrow> None
      | Some b \<Rightarrow> Some
          \<lparr>h_size = be64 (drop 24 b), h_l1_table_offset = be64 (drop 40 b), h_l1_size = be32 (drop 36 b),
           h_cluster_bits = ucast (be32 (drop 20 b)), h_l2_bits = ucast (be32 (drop 20 b) - 3),
           h_refcount_table_offset = be64 (drop 48 b), h_refcount_table_size = be32 (drop 56 b)\<rparr>)"

text \<open>The size of the level-1 table of a QCOW1 image is computed; the divisor is an \<^verbatim>\<open>int\<close>.\<close>

definition qcow1_read_header :: "qenv \<Rightarrow> qfile \<Rightarrow> qcow_header option outcome" where
  "qcow1_read_header env f =
     (if env_oom env 1 then Ret None
      else case read_header_disk env 48 f of
        None \<Rightarrow> Ret None
      | Some b \<Rightarrow>
          let cluster_bits = hd (drop 32 b); l2_bits = hd (drop 33 b); bits = unat l2_bits + unat cluster_bits
          in if bits < 31
             then Ret (Some \<lparr>h_size = be64 (drop 24 b), h_l1_table_offset = be64 (drop 40 b),
                h_l1_size = ucast (be64 (drop 24 b) div 2 ^ bits), h_cluster_bits = cluster_bits, h_l2_bits = l2_bits,
                h_refcount_table_offset = 0, h_refcount_table_size = 0\<rparr>)
             else Undefined)"

definition check_image :: "qenv \<Rightarrow> nat \<Rightarrow> u32 \<Rightarrow> qfile \<Rightarrow> bool" where
  "check_image env n version f =
     (case read_header_disk env n f of
        None \<Rightarrow> False
      | Some b \<Rightarrow> be32 b = QCOW_MAGIC \<and> be32 (drop 4 b) = version)"

definition qcow1_check_image :: "qenv \<Rightarrow> qfile \<Rightarrow> bool" where "qcow1_check_image env f = check_image env 48 QCOW1_VERSION f"
definition qcow2_check_image :: "qenv \<Rightarrow> qfile \<Rightarrow> bool" where "qcow2_check_image env f = check_image env 72 QCOW2_VERSION f"

section \<open>Tables\<close>

definition qcow_read_l1_table :: "qenv \<Rightarrow> qcow \<Rightarrow> qcow option" where
  "qcow_read_l1_table env q =
     (let n = unat (h_l1_size (q_header q))
      in if env_oom env 5 then None
         else case pread_in_full (q_file q) (8 * n) (h_l1_table_offset (q_header q)) of
           None \<Rightarrow> None
         | Some bs \<Rightarrow> Some (q\<lparr>q_table_size := h_l1_size (q_header q), q_l1_table := be64s n bs\<rparr>))"

definition qcow_read_refcount_table :: "qenv \<Rightarrow> qcow \<Rightarrow> qcow option" where
  "qcow_read_refcount_table env q =
     (let rf_size = ucast (ucast (h_refcount_table_size (q_header q)) * q_cluster_size q div 8) :: u32; n = unat rf_size
      in if env_oom env 6 then None
         else case pread_in_full (q_file q) (8 * n) (h_refcount_table_offset (q_header q)) of
           None \<Rightarrow> None
         | Some bs \<Rightarrow> Some (q\<lparr>q_rf_size := rf_size, q_rf_table := be64s n bs, q_rfb := qstore_empty, q_rfb_ready := True\<rparr>))"

section \<open>Probing\<close>

text \<open>\<^verbatim>\<open>struct qcow\<close> after \<^verbatim>\<open>calloc\<close>, with the level-2 cache initialised and a header.\<close>

definition qcow_new :: "qfile \<Rightarrow> qcow_header \<Rightarrow> qcow" where
  "qcow_new f h =
     \<lparr>q_header = h, q_table_size = 0, q_l1_table = [], q_l2 = qstore_empty, q_rf_size = 0, q_rf_table = [],
      q_rfb = qstore_empty, q_rfb_ready = False, q_file = f, q_csize_shift = 0, q_csize_mask = 0, q_version = 0,
      q_cluster_size = 0, q_cluster_offset_mask = 0, q_free_clust_idx = 0, q_cluster_data = [], q_copy_buff = []\<rparr>"

definition fresh_buffer :: "qenv \<Rightarrow> u64 \<Rightarrow> u8 list" where
  "fresh_buffer env n = take (unat n) (env_junk env @ replicate (unat n) 0)"

text \<open>The image, its operations table (read-only or not) and whether it is asynchronous.\<close>

record qcow_image =
  qi_qcow :: qcow
  qi_readonly :: bool
  qi_async :: bool

definition qcow2_probe :: "qenv \<Rightarrow> qfile \<Rightarrow> bool \<Rightarrow> qcow_image option outcome" where
  "qcow2_probe env f readonly =
     (if env_oom env 0 then Ret None
      else case qcow2_read_header env f of
        None \<Rightarrow> Ret None
      | Some h \<Rightarrow>
          let cb = unat (h_cluster_bits h)
          in if cb < 8 \<or> 31 \<le> cb then Undefined else
          let sz = 2 ^ cb;
              q = (qcow_new f h)\<lparr>q_version := QCOW2_VERSION, q_csize_shift := 62 - (int cb - 8), q_csize_mask := 2 ^ (cb - 8) - 1,
                    q_cluster_offset_mask := 2 ^ nat (62 - (int cb - 8)) - 1, q_cluster_size := sz,
                    q_copy_buff := fresh_buffer env sz, q_cluster_data := fresh_buffer env sz\<rparr>
          in if env_oom env 2 \<or> env_oom env 3 \<or> env_oom env 4 then Ret None
             else case qcow_read_l1_table env q of None \<Rightarrow> Ret None | Some q \<Rightarrow>
               (case qcow_read_refcount_table env q of None \<Rightarrow> Ret None | Some q \<Rightarrow>
                  if env_oom env 7 then Ret None
                  else Ret (Some \<lparr>qi_qcow = q, qi_readonly = readonly, qi_async = False\<rparr>)))"

text \<open>An error of \<^verbatim>\<open>disk_image__new\<close> is an error pointer, which the test for NULL does not catch.\<close>

definition qcow1_probe :: "qenv \<Rightarrow> qfile \<Rightarrow> bool \<Rightarrow> qcow_image option outcome" where
  "qcow1_probe env f readonly =
     (if env_oom env 0 then Ret None
      else bind_outcome (qcow1_read_header env f) (\<lambda>r. case r of
        None \<Rightarrow> Ret None
      | Some h \<Rightarrow>
          let cb = unat (h_cluster_bits h)
          in if 31 \<le> cb then Undefined else
          let sz = 2 ^ cb;
              q = (qcow_new f h)\<lparr>q_version := QCOW1_VERSION, q_cluster_size := sz, q_cluster_offset_mask := 2 ^ (63 - cb) - 1,
                    q_free_clust_idx := 0, q_cluster_data := fresh_buffer env sz\<rparr>
          in if cb = 0 then Undefined
             else if env_oom env 3 \<or> env_oom env 4 then Ret None
             else case qcow_read_l1_table env q of None \<Rightarrow> Ret None | Some q \<Rightarrow>
               if env_oom env 7 then Undefined
               else Ret (Some \<lparr>qi_qcow = q, qi_readonly = readonly, qi_async = True\<rparr>)))"

definition qcow_probe :: "qenv \<Rightarrow> qfile \<Rightarrow> bool \<Rightarrow> qcow_image option outcome" where
  "qcow_probe env f readonly =
     (if qcow1_check_image env f then qcow1_probe env f readonly
      else if qcow2_check_image env f then qcow2_probe env f readonly
      else Ret None)"

section \<open>What probing establishes\<close>

lemma fresh_buffer_length [simp]: "length (fresh_buffer env n) = unat n"
  by (simp add: fresh_buffer_def)

lemma be64s_length [simp]: "length (be64s n bs) = n"
  by (simp add: be64s_def)

lemma qcow2_probe_obtain:
  assumes "qcow2_probe env f ro = Ret (Some i)"
  obtains h q0 q1 where "qcow2_read_header env f = Some h" "8 \<le> unat (h_cluster_bits h)" "unat (h_cluster_bits h) < 31"
    "q0 = (qcow_new f h)\<lparr>q_version := QCOW2_VERSION, q_csize_shift := 62 - (int (unat (h_cluster_bits h)) - 8),
        q_csize_mask := 2 ^ (unat (h_cluster_bits h) - 8) - 1,
        q_cluster_offset_mask := 2 ^ nat (62 - (int (unat (h_cluster_bits h)) - 8)) - 1, q_cluster_size := 2 ^ unat (h_cluster_bits h),
        q_copy_buff := fresh_buffer env (2 ^ unat (h_cluster_bits h)), q_cluster_data := fresh_buffer env (2 ^ unat (h_cluster_bits h))\<rparr>"
    "qcow_read_l1_table env q0 = Some q1" "qcow_read_refcount_table env q1 = Some (qi_qcow i)"
    "qi_readonly i = ro" "\<not> qi_async i"
  using assms by (auto simp: qcow2_probe_def Let_def split: if_splits option.splits)

lemma header_l2_bits:
  assumes "qcow2_read_header env f = Some h" "8 \<le> unat (h_cluster_bits h)" "unat (h_cluster_bits h) < 31"
  shows "unat (h_l2_bits h) = unat (h_cluster_bits h) - 3"
proof -
  obtain w :: u32 where w: "h_cluster_bits h = ucast w" "h_l2_bits h = ucast (w - 3)"
    using assms(1) by (auto simp: qcow2_read_header_def split: if_splits option.splits)
  have "(ucast (w - 3) :: u8) = ucast w - 3"
    by (rule word_uint_eqI) (simp add: uint_word_arith_bintrs unsigned_ucast_eq take_bit_eq_mod mod_diff_left_eq mod_mod_cancel)
  then have "h_l2_bits h = h_cluster_bits h - 3" using w by simp
  then show ?thesis using assms(2) by (simp add: unat_sub word_le_nat_alt)
qed

lemma l1_table_frame:
  assumes "qcow_read_l1_table env q = Some q'"
  obtains bs where "q' = q\<lparr>q_table_size := h_l1_size (q_header q), q_l1_table := be64s (unat (h_l1_size (q_header q))) bs\<rparr>"
  using assms by (auto simp: qcow_read_l1_table_def Let_def split: if_splits option.splits)

lemma refcount_table_frame:
  assumes "qcow_read_refcount_table env q = Some q'"
  obtains n bs where "q' = q\<lparr>q_rf_size := n, q_rf_table := be64s (unat n) bs, q_rfb := qstore_empty, q_rfb_ready := True\<rparr>"
  using assms by (auto simp: qcow_read_refcount_table_def Let_def split: if_splits option.splits)

lemma qcow1_header_l1:
  assumes "qcow1_read_header env f = Ret (Some h)" "bits = unat (h_l2_bits h) + unat (h_cluster_bits h)"
  shows "h_l1_size h = ucast (h_size h div 2 ^ bits)" "bits < 31"
  using assms by (auto simp: qcow1_read_header_def Let_def split: if_splits option.splits)

section \<open>Properties\<close>

text \<open>
  C8: an image that \<^verbatim>\<open>qcow2_probe\<close> opens satisfies the invariants the read, allocation and flush paths rely on,
  when its clusters have at least 512 bytes: geometry and tables agree, both caches are empty and
  consistent with the file, the shift and mask of compressed clusters are those of the format, and the header is the one in the file.
\<close>

theorem qcow2_probe_establishes_inv:
  assumes "qcow2_probe env f ro = Ret (Some i)" "9 \<le> cbits (qi_qcow i)"
  shows "qcow_inv (qi_qcow i) \<and> rfb_inv env (qi_qcow i) \<and> q_rfb_ready (qi_qcow i) \<and> q_version (qi_qcow i) = QCOW2_VERSION \<and>
    q_file (qi_qcow i) = f \<and> qcow2_read_header env f = Some (q_header (qi_qcow i)) \<and>
    q_csize_shift (qi_qcow i) = 62 - (int (cbits (qi_qcow i)) - 8) \<and> q_csize_mask (qi_qcow i) = 2 ^ (cbits (qi_qcow i) - 8) - 1 \<and>
    qi_readonly i = ro"
proof -
  obtain h q0 q1 where p: "qcow2_read_header env f = Some h" "8 \<le> unat (h_cluster_bits h)" "unat (h_cluster_bits h) < 31"
    "q0 = (qcow_new f h)\<lparr>q_version := QCOW2_VERSION, q_csize_shift := 62 - (int (unat (h_cluster_bits h)) - 8),
        q_csize_mask := 2 ^ (unat (h_cluster_bits h) - 8) - 1,
        q_cluster_offset_mask := 2 ^ nat (62 - (int (unat (h_cluster_bits h)) - 8)) - 1, q_cluster_size := 2 ^ unat (h_cluster_bits h),
        q_copy_buff := fresh_buffer env (2 ^ unat (h_cluster_bits h)), q_cluster_data := fresh_buffer env (2 ^ unat (h_cluster_bits h))\<rparr>"
    "qcow_read_l1_table env q0 = Some q1" "qcow_read_refcount_table env q1 = Some (qi_qcow i)" "qi_readonly i = ro"
    using assms(1) by (rule qcow2_probe_obtain)
  obtain bs where q1: "q1 = q0\<lparr>q_table_size := h_l1_size (q_header q0), q_l1_table := be64s (unat (h_l1_size (q_header q0))) bs\<rparr>"
    using p(5) by (rule l1_table_frame)
  obtain n bs' where q: "qi_qcow i = q1\<lparr>q_rf_size := n, q_rf_table := be64s (unat n) bs', q_rfb := qstore_empty, q_rfb_ready := True\<rparr>"
    using p(6) by (rule refcount_table_frame)
  have h: "q_header (qi_qcow i) = h" by (simp add: q q1 p(4) qcow_new_def)
  note l2 = header_l2_bits [OF p(1-3)]
  have geo: "geometry_ok (qi_qcow i)"
    using assms(2) p(3) h l2 by (simp add: geometry_ok_def q q1 p(4) qcow_new_def)
  have "qcow_inv (qi_qcow i)" using geo l2.store_inv_empty by (simp add: qcow_inv_def q q1 p(4) qcow_new_def)
  moreover have "rfb_inv env (qi_qcow i)" using geo rfb.store_inv_empty by (simp add: rfb_inv_def geometry_ok_def q)
  ultimately show ?thesis using h p(1,7) by (simp add: q q1 p(4) qcow_new_def)
qed

definition image_file :: "u8 list \<Rightarrow> qfile" where
  "image_file bs = \<lparr>f_bytes = bs, f_rd_err = \<lambda>_. False, f_wr_err = \<lambda>_. False, f_sync_err = False\<rparr>"

lemma image_file_fields [simp]: "f_bytes (image_file bs) = bs" "f_rd_err (image_file bs) off = False"
  by (simp_all add: image_file_def)

text \<open>A QCOW2 header with 512-byte clusters, a disk of 0x8000 bytes, and one level-1 entry at 0x48.\<close>

definition qcow2_bytes :: "u8 list" where
  "qcow2_bytes = [0x51, 0x46, 0x49, 0xFB, 0, 0, 0, 2, 0, 0, 0, 0, 0, 0, 0, 0, 0, 0, 0, 0, 0, 0, 0, 9,
     0, 0, 0, 0, 0, 0, 0x80, 0, 0, 0, 0, 0, 0, 0, 0, 1, 0, 0, 0, 0, 0, 0, 0, 0x48, 0, 0, 0, 0, 0, 0, 0, 0,
     0, 0, 0, 0, 0, 0, 0, 0, 0, 0, 0, 0, 0, 0, 0, 0, 0x80, 0, 0, 0, 0, 0, 2, 0]"

lemma qcow2_bytes_header: "qcow2_read_header plain_env (image_file qcow2_bytes) =
   Some \<lparr>h_size = 0x8000, h_l1_table_offset = 0x48, h_l1_size = 1, h_cluster_bits = 9, h_l2_bits = 6,
     h_refcount_table_offset = 0, h_refcount_table_size = 0\<rparr>"
  by (simp add: qcow2_read_header_def read_header_disk_def pread_in_full_def qcow2_bytes_def
      be32_def be64_def push_bit_eq_mult)

lemma qcow2_bytes_l1: "pread_in_full (image_file qcow2_bytes) 8 0x48 = Some [0x80, 0, 0, 0, 0, 0, 2, 0]"
  by (simp add: pread_in_full_def qcow2_bytes_def)

lemma pread_nothing: "pread_in_full f 0 off = Some []"
  by (simp add: pread_in_full_def)

theorem qcow2_probe_establishes_inv_witness:
  "\<exists>i. qcow2_probe plain_env (image_file qcow2_bytes) True = Ret (Some i) \<and> qcow_inv (qi_qcow i)"
proof -
  obtain i where i: "qcow2_probe plain_env (image_file qcow2_bytes) True = Ret (Some i)" "cbits (qi_qcow i) = 9"
    using qcow2_bytes_l1 by (simp add: qcow2_probe_def qcow2_bytes_header qcow_read_l1_table_def qcow_read_refcount_table_def
        qcow_new_def Let_def pread_nothing)
  with qcow2_probe_establishes_inv [OF i(1)] show ?thesis by auto
qed

text \<open>
  The level-1 table of a QCOW1 image is one entry too short when the size of the disk is not a
  multiple of what an entry covers: the quotient is rounded down, and every byte of the last part of the disk,
  although inside the size in the header, is refused by the reader.
\<close>

theorem qcow1_tail_unreadable:
  assumes "qcow1_probe env f ro = Ret (Some i)" "q = qi_qcow i" "bits = l2bits q + cbits q"
    and "unat (h_size (q_header q)) div 2 ^ bits * 2 ^ bits \<le> unat off" "unat off < unat (h_size (q_header q))"
  shows "qcow1_read_cluster z oom off dst q = Ret (q, dst, -1)"
proof -
  from assms(1) obtain h where h: "qcow1_read_header env f = Ret (Some h)"
    unfolding qcow1_probe_def by (cases "qcow1_read_header env f") (auto split: if_splits option.splits)
  define q0 where "q0 = (qcow_new f h)\<lparr>q_version := QCOW1_VERSION,
      q_cluster_size := 2 ^ unat (h_cluster_bits h), q_cluster_offset_mask := 2 ^ (63 - unat (h_cluster_bits h)) - 1,
      q_free_clust_idx := 0, q_cluster_data := fresh_buffer env (2 ^ unat (h_cluster_bits h))\<rparr>"
  from assms(1) h have l1: "qcow_read_l1_table env q0 = Some (qi_qcow i)"
    unfolding q0_def by (auto simp: qcow1_probe_def Let_def split: if_splits option.splits)
  obtain bs where "qi_qcow i = q0\<lparr>q_table_size := h_l1_size (q_header q0), q_l1_table := be64s (unat (h_l1_size (q_header q0))) bs\<rparr>"
    using l1 by (rule l1_table_frame)
  then have q: "q_header q = h" "q_table_size q = h_l1_size h" using assms(2) by (simp_all add: qcow_new_def q0_def)
  have bits: "bits = unat (h_l2_bits h) + unat (h_cluster_bits h)" using assms(3) q(1) by simp
  note h = qcow1_header_l1 [OF h bits]
  have "unat (h_size h div 2 ^ bits) = unat (h_size h) div 2 ^ bits" using h(2) by (simp add: unat_div unat_exp64)
  moreover have "unat (ucast (h_size h div 2 ^ bits) :: u32) \<le> unat (h_size h div 2 ^ bits)"
    by (simp add: unsigned_ucast_eq)
  moreover have "unat (h_size h) div 2 ^ bits \<le> unat off div 2 ^ bits"
    using assms(4) q(1) by (simp add: less_eq_div_iff_mult_less_eq)
  ultimately have "unat (q_table_size q) \<le> unat off div 2 ^ bits" using q h(1) by simp
  then have "ucast (q_table_size q) \<le> drop_bit bits off" by (simp add: word_le_nat_alt unat_drop_bit unat_ucast_up)
  then show ?thesis using h(2) assms(3) by (simp add: qcow1_read_cluster_def get_l1_index_def Let_def)
qed

text \<open>A QCOW1 header for a disk of 40000 bytes whose level-1 entries cover 32768 bytes each.\<close>

definition qcow1_bytes :: "u8 list" where
  "qcow1_bytes = [0x51, 0x46, 0x49, 0xFB, 0, 0, 0, 1, 0, 0, 0, 0, 0, 0, 0, 0, 0, 0, 0, 0, 0, 0, 0, 0,
     0, 0, 0, 0, 0, 0, 0x9C, 0x40, 9, 6, 0, 0, 0, 0, 0, 0, 0, 0, 0, 0, 0, 0, 0, 0x30, 0, 0, 0, 0, 0, 0, 0, 0]"

theorem qcow1_tail_unreadable_witness:
  "\<exists>i. qcow1_probe plain_env (image_file qcow1_bytes) True = Ret (Some i) \<and> h_size (q_header (qi_qcow i)) = 40000 \<and>
     qcow1_read_cluster (\<lambda>_ _. None) False 32768 [0] (qi_qcow i) = Ret (qi_qcow i, [0], -1)"
proof -
  have "qcow1_read_header plain_env (image_file qcow1_bytes) =
     Ret (Some \<lparr>h_size = 40000, h_l1_table_offset = 0x30, h_l1_size = 1, h_cluster_bits = 9, h_l2_bits = 6,
       h_refcount_table_offset = 0, h_refcount_table_size = 0\<rparr>)"
    by (simp add: qcow1_read_header_def read_header_disk_def pread_in_full_def qcow1_bytes_def
        be64_def push_bit_eq_mult)
  moreover have "pread_in_full (image_file qcow1_bytes) 8 0x30 = Some [0, 0, 0, 0, 0, 0, 0, 0]"
    by (simp add: pread_in_full_def qcow1_bytes_def)
  ultimately obtain i where i: "qcow1_probe plain_env (image_file qcow1_bytes) True = Ret (Some i)"
    "h_size (q_header (qi_qcow i)) = 40000" "cbits (qi_qcow i) = 9" "l2bits (qi_qcow i) = 6"
    by (simp add: qcow1_probe_def qcow_read_l1_table_def qcow_new_def Let_def)
  from qcow1_tail_unreadable [OF i(1) refl refl, of 32768] i show ?thesis by auto
qed

end
