(* ===== verification/Memory.thy ===== *)
theory Memory
  imports Prelude
begin

text \<open>
  Guest memory (\<^verbatim>\<open>kvm.c\<close>, \<^verbatim>\<open>include/kvm/kvm.h\<close>): the list of memory banks, registration with its overlap
  check and the merging of reserved regions, and the translation between guest and host addresses.
  A host pointer is its address; NULL is 0. The result of the \<^verbatim>\<open>KVM_SET_USER_MEMORY_REGION\<close> call is an
  argument, as is the failure of \<^verbatim>\<open>malloc\<close>.
\<close>

section \<open>Banks\<close>

datatype kvm_mem_type = MEM_RAM | MEM_DEVICE | MEM_RESERVED

record kvm_mem_bank =
  guest_phys_addr :: u64
  host_addr :: u64
  bank_size :: u64
  bank_type :: kvm_mem_type

record mem_state =
  mem_banks :: "kvm_mem_bank list"
  mem_slots :: u32

section \<open>Registration\<close>

definition bank_overlap :: "u64 \<Rightarrow> u64 \<Rightarrow> kvm_mem_bank \<Rightarrow> bool" where
  "bank_overlap guest_phys sz bank =
     (let bank_end = guest_phys_addr bank + bank_size bank - 1; end' = guest_phys + sz - 1
      in \<not> (bank_end < guest_phys \<or> end' < guest_phys_addr bank))"

definition bank_merge :: "u64 \<Rightarrow> u64 \<Rightarrow> kvm_mem_bank \<Rightarrow> kvm_mem_bank" where
  "bank_merge guest_phys sz bank =
     (let bank_end = guest_phys_addr bank + bank_size bank - 1; end' = guest_phys + sz - 1;
          start = min (guest_phys_addr bank) guest_phys
      in bank\<lparr>guest_phys_addr := start, bank_size := max bank_end end' - start + 1\<rparr>)"

text \<open>
  The loop over the banks, at position \<open>i\<close>. \<open>merged\<close> is the position of the bank the region has been merged into; a
  second merge removes it. The result is the list and whether the end was reached, with the merged position.
\<close>

function register_loop :: "kvm_mem_type \<Rightarrow> u64 \<Rightarrow> u64 \<Rightarrow> nat option \<Rightarrow> nat \<Rightarrow> kvm_mem_bank list \<Rightarrow> kvm_mem_bank list \<times> nat option option" where
  "register_loop type guest_phys sz merged i banks =
     (if length banks \<le> i then (banks, Some merged)
      else if \<not> bank_overlap guest_phys sz (banks ! i) then register_loop type guest_phys sz merged (i + 1) banks
      else if bank_type (banks ! i) = MEM_RESERVED \<and> type = MEM_RESERVED then
        let bank = bank_merge guest_phys sz (banks ! i); banks = banks[i := bank]
        in (case merged of
              None \<Rightarrow> register_loop type (guest_phys_addr bank) (bank_size bank) (Some i) (i + 1) banks
            | Some m \<Rightarrow>
                if m < i then register_loop type (guest_phys_addr bank) (bank_size bank) (Some (i - 1)) i (take m banks @ drop (m + 1) banks)
                else (banks, None))
      else (banks, None))"
  by pat_completeness auto
termination
  by (relation "measure (\<lambda>(_, _, _, _, i, banks). length banks - i)") auto

declare register_loop.simps [simp del]

definition kvm__register_mem :: "bool \<Rightarrow> int \<Rightarrow> u64 \<Rightarrow> u64 \<Rightarrow> u64 \<Rightarrow> kvm_mem_type \<Rightarrow> mem_state \<Rightarrow> mem_state \<times> int" where
  "kvm__register_mem oom ioctl guest_phys sz userspace_addr type st =
     (case register_loop type guest_phys sz None 0 (mem_banks st) of
        (banks, None) \<Rightarrow> (st\<lparr>mem_banks := banks\<rparr>, -EINVAL)
      | (banks, Some (Some _)) \<Rightarrow> (st\<lparr>mem_banks := banks\<rparr>, 0)
      | (banks, Some None) \<Rightarrow>
          let bank = \<lparr>guest_phys_addr = guest_phys, host_addr = userspace_addr, bank_size = sz, bank_type = type\<rparr>
          in if oom then (st, -ENOMEM)
             else if type \<noteq> MEM_RESERVED then
               let st = st\<lparr>mem_slots := mem_slots st + 1\<rparr>
               in if ioctl < 0 then (st, ioctl) else (st\<lparr>mem_banks := bank # mem_banks st\<rparr>, 0)
             else (st\<lparr>mem_banks := bank # mem_banks st\<rparr>, 0))"

section \<open>Translation\<close>

fun guest_flat_to_host :: "kvm_mem_bank list \<Rightarrow> u64 \<Rightarrow> u64" where
  "guest_flat_to_host [] offset = 0"
| "guest_flat_to_host (bank # banks) offset =
     (let bank_start = guest_phys_addr bank; bank_end = bank_start + bank_size bank
      in if bank_start \<le> offset \<and> offset < bank_end then host_addr bank + (offset - bank_start)
         else guest_flat_to_host banks offset)"

fun host_to_guest_flat :: "kvm_mem_bank list \<Rightarrow> u64 \<Rightarrow> u64" where
  "host_to_guest_flat [] ptr = 0"
| "host_to_guest_flat (bank # banks) ptr =
     (let bank_start = host_addr bank; bank_end = bank_start + bank_size bank
      in if bank_start \<le> ptr \<and> ptr < bank_end then guest_phys_addr bank + (ptr - bank_start)
         else host_to_guest_flat banks ptr)"

definition host_ptr_in_ram :: "u64 \<Rightarrow> u64 \<Rightarrow> u64 \<Rightarrow> bool" where
  "host_ptr_in_ram ram_start ram_size p \<longleftrightarrow> ram_start \<le> p \<and> p < ram_start + ram_size"

section \<open>Address ranges\<close>

definition range_ok :: "u64 \<Rightarrow> u64 \<Rightarrow> bool" where
  "range_ok start sz \<longleftrightarrow> 0 < unat sz \<and> unat start + unat sz < 2 ^ 64"

definition addrs :: "u64 \<Rightarrow> u64 \<Rightarrow> nat set" where
  "addrs start sz = {unat start..<unat start + unat sz}"

abbreviation guest_addrs :: "kvm_mem_bank \<Rightarrow> nat set" where "guest_addrs b \<equiv> addrs (guest_phys_addr b) (bank_size b)"
abbreviation host_addrs :: "kvm_mem_bank \<Rightarrow> nat set" where "host_addrs b \<equiv> addrs (host_addr b) (bank_size b)"

definition mem_inv :: "kvm_mem_bank list \<Rightarrow> bool" where
  "mem_inv bs \<longleftrightarrow> (\<forall>b \<in> set bs. range_ok (guest_phys_addr b) (bank_size b)) \<and>
     (\<forall>i < length bs. \<forall>j < length bs. i \<noteq> j \<longrightarrow> guest_addrs (bs ! i) \<inter> guest_addrs (bs ! j) = {})"

lemma range_bounds:
  assumes "range_ok start sz"
  shows "unat (start + sz) = unat start + unat sz" "unat (start + sz - 1) = unat start + unat sz - 1"
proof -
  show s: "unat (start + sz) = unat start + unat sz"
    using assms unat_add_lem [of start sz] by (simp add: range_ok_def)
  then have "start + sz \<noteq> 0" using assms by (auto simp: range_ok_def)
  then show "unat (start + sz - 1) = unat start + unat sz - 1" using s unat_minus_one by metis
qed

lemma bank_overlap_iff:
  assumes "range_ok g sz" "range_ok (guest_phys_addr b) (bank_size b)"
  shows "bank_overlap g sz b \<longleftrightarrow> addrs g sz \<inter> guest_addrs b \<noteq> {}"
proof -
  note r = range_bounds [OF assms(1)] range_bounds [OF assms(2)]
  have "bank_overlap g sz b \<longleftrightarrow> unat g < unat (guest_phys_addr b) + unat (bank_size b) \<and> unat (guest_phys_addr b) < unat g + unat sz"
    using assms by (auto simp: bank_overlap_def Let_def word_less_nat_alt r range_ok_def)
  also have "\<dots> \<longleftrightarrow> addrs g sz \<inter> guest_addrs b \<noteq> {}"
  proof
    assume a: "unat g < unat (guest_phys_addr b) + unat (bank_size b) \<and> unat (guest_phys_addr b) < unat g + unat sz"
    then have "max (unat g) (unat (guest_phys_addr b)) \<in> addrs g sz \<inter> guest_addrs b"
      using assms by (auto simp: addrs_def range_ok_def max_def)
    then show "addrs g sz \<inter> guest_addrs b \<noteq> {}" by blast
  qed (auto simp: addrs_def)
  finally show ?thesis .
qed

lemma in_bank: "range_ok start sz \<Longrightarrow> start \<le> x \<and> x < start + sz \<longleftrightarrow> unat x \<in> addrs start sz"
  by (auto simp: word_le_nat_alt word_less_nat_alt range_bounds addrs_def)

lemma bank_merge_ok:
  assumes "range_ok g sz" "range_ok (guest_phys_addr b) (bank_size b)" "bank_overlap g sz b"
  shows "guest_addrs (bank_merge g sz b) = addrs g sz \<union> guest_addrs b"
    "range_ok (guest_phys_addr (bank_merge g sz b)) (bank_size (bank_merge g sz b))"
    "bank_type (bank_merge g sz b) = bank_type b"
proof -
  note r = range_bounds [OF assms(1)] range_bounds [OF assms(2)]
  let ?a = "unat g" and ?b = "unat (guest_phys_addr b)" and ?m = "unat sz" and ?n = "unat (bank_size b)"
  let ?s = "min (guest_phys_addr b) g" and ?e = "max (guest_phys_addr b + bank_size b - 1) (g + sz - 1)"
  have pos: "0 < ?m" "0 < ?n" "?a + ?m < 2 ^ 64" "?b + ?n < 2 ^ 64" using assms(1,2) by (auto simp: range_ok_def)
  have ov: "?a < ?b + ?n" "?b < ?a + ?m" using assms(3) bank_overlap_iff [OF assms(1,2)] by (auto simp: addrs_def)
  have s: "unat ?s = min ?b ?a" by (simp add: min_def word_le_nat_alt)
  have e: "unat ?e = max (?b + ?n - 1) (?a + ?m - 1)" by (simp add: max_def word_le_nat_alt r)
  have "?s \<le> ?e" unfolding word_le_nat_alt s e using pos by auto
  then have d: "unat (?e - ?s) = unat ?e - unat ?s" by (rule unat_sub)
  have lt: "unat (?e - ?s) + 1 < 2 ^ 64" unfolding d s e using pos by auto
  have len: "unat (?e - ?s + 1) = unat ?e - unat ?s + 1" using unat_add_lem [of "?e - ?s" 1] lt d by simp
  have sz: "unat (bank_size (bank_merge g sz b)) = max (?b + ?n) (?a + ?m) - min ?b ?a"
    "unat (guest_phys_addr (bank_merge g sz b)) = min ?b ?a"
    using s e len pos by (auto simp: bank_merge_def Let_def max_def min_def)
  show "guest_addrs (bank_merge g sz b) = addrs g sz \<union> guest_addrs b"
    unfolding addrs_def sz using ov pos by auto
  show "range_ok (guest_phys_addr (bank_merge g sz b)) (bank_size (bank_merge g sz b))"
    unfolding range_ok_def sz using pos by auto
  show "bank_type (bank_merge g sz b) = bank_type b" by (simp add: bank_merge_def Let_def)
qed

section \<open>The overlap check\<close>

lemma register_loop_plain:
  assumes "type \<noteq> MEM_RESERVED"
  shows "register_loop type g sz m i banks = (banks, if \<exists>j < length banks. i \<le> j \<and> bank_overlap g sz (banks ! j) then None else Some m)"
proof (induction "length banks - i" arbitrary: i rule: less_induct)
  case less
  show ?case
  proof (cases "i < length banks \<and> \<not> bank_overlap g sz (banks ! i)")
    case True
    have "register_loop type g sz m i banks = register_loop type g sz m (i + 1) banks"
      using True by (subst register_loop.simps) simp
    moreover have "(\<exists>j < length banks. i \<le> j \<and> bank_overlap g sz (banks ! j)) = (\<exists>j < length banks. i + 1 \<le> j \<and> bank_overlap g sz (banks ! j))"
      using True by (metis Suc_eq_plus1 le_antisym not_less_eq_eq Suc_leD)
    moreover have "length banks - (i + 1) < length banks - i" using True by (elim conjE) linarith
    ultimately show ?thesis using less by (simp only:)
  next
    case False
    then show ?thesis using assms by (subst register_loop.simps) auto
  qed
qed

text \<open>
  The loop for a reserved region keeps: the current region is the bank it was merged into, if any; banks other than that one are
  apart; the current region is apart from the banks already passed. Together they cover \<open>A\<close>.
\<close>

definition merge_inv :: "nat set \<Rightarrow> u64 \<Rightarrow> u64 \<Rightarrow> nat option \<Rightarrow> nat \<Rightarrow> kvm_mem_bank list \<Rightarrow> bool" where
  "merge_inv A g sz merged i bs \<longleftrightarrow> range_ok g sz \<and> (\<forall>b \<in> set bs. range_ok (guest_phys_addr b) (bank_size b)) \<and> i \<le> length bs \<and>
     (\<forall>j < length bs. \<forall>k < length bs. j \<noteq> k \<longrightarrow> merged \<noteq> Some j \<longrightarrow> merged \<noteq> Some k \<longrightarrow> guest_addrs (bs ! j) \<inter> guest_addrs (bs ! k) = {}) \<and>
     (\<forall>j < i. merged \<noteq> Some j \<longrightarrow> addrs g sz \<inter> guest_addrs (bs ! j) = {}) \<and>
     (case merged of None \<Rightarrow> True | Some m \<Rightarrow> m < i \<and> guest_addrs (bs ! m) = addrs g sz) \<and>
     (\<Union>b \<in> set bs. guest_addrs b) \<union> addrs g sz = A"

lemma merge_inv_skip:
  assumes "merge_inv A g sz merged i bs" "i < length bs" "\<not> bank_overlap g sz (bs ! i)"
  shows "merge_inv A g sz merged (i + 1) bs"
proof -
  have "addrs g sz \<inter> guest_addrs (bs ! i) = {}" using assms bank_overlap_iff [of g sz "bs ! i"] by (auto simp: merge_inv_def)
  then show ?thesis using assms by (auto simp: merge_inv_def less_Suc_eq split: option.splits)
qed

lemma set_split_at:
  assumes "i < length bs"
  shows "set bs = insert (bs ! i) (set (take i bs) \<union> set (drop (Suc i) bs))"
    "set (bs[i := b]) = insert b (set (take i bs) \<union> set (drop (Suc i) bs))"
proof -
  show "set bs = insert (bs ! i) (set (take i bs) \<union> set (drop (Suc i) bs))"
    by (subst id_take_nth_drop [OF assms]) auto
  show "set (bs[i := b]) = insert b (set (take i bs) \<union> set (drop (Suc i) bs))"
    by (simp add: upd_conv_take_nth_drop [OF assms])
qed

lemma merge_inv_first:
  assumes inv: "merge_inv A g sz None i bs" and i: "i < length bs" "bank_overlap g sz (bs ! i)"
  shows "merge_inv A (guest_phys_addr (bank_merge g sz (bs ! i))) (bank_size (bank_merge g sz (bs ! i))) (Some i) (i + 1) (bs[i := bank_merge g sz (bs ! i)])"
proof -
  let ?b = "bank_merge g sz (bs ! i)"
  have r: "range_ok g sz" "range_ok (guest_phys_addr (bs ! i)) (bank_size (bs ! i))" using inv i by (auto simp: merge_inv_def)
  note m = bank_merge_ok [OF r i(2)]
  have apart: "guest_addrs ?b \<inter> guest_addrs (bs ! j) = {}" if "j < i" for j
    using inv i(1) that unfolding m(1) merge_inv_def by (auto simp: Int_Un_distrib2)
  have rng: "\<forall>b \<in> set (bs[i := ?b]). range_ok (guest_phys_addr b) (bank_size b)"
    using inv m(2) by (auto simp: merge_inv_def dest!: set_update_subset_insert [THEN subsetD])
  have "(\<Union>b \<in> set (bs[i := ?b]). guest_addrs b) \<union> guest_addrs ?b = A"
    using inv by (auto simp: merge_inv_def set_split_at [OF i(1)] m(1))
  with apart rng m(2) inv i(1) show ?thesis
    by (auto simp: merge_inv_def nth_list_update less_Suc_eq)
qed

lemma merge_inv_again:
  assumes inv: "merge_inv A g sz (Some m) i bs" and i: "i < length bs" "bank_overlap g sz (bs ! i)"
  defines "b \<equiv> bank_merge g sz (bs ! i)"
  defines "bs' \<equiv> take m (bs[i := b]) @ drop (m + 1) (bs[i := b])"
  shows "merge_inv A (guest_phys_addr b) (bank_size b) (Some (i - 1)) i bs'"
proof -
  have r: "range_ok g sz" "range_ok (guest_phys_addr (bs ! i)) (bank_size (bs ! i))" and mi: "m < i" "guest_addrs (bs ! m) = addrs g sz"
    using inv i by (auto simp: merge_inv_def)
  note mg = bank_merge_ok [OF r i(2), folded b_def]
  define old where "old j = (if j < m then j else j + 1)" for j
  have len: "length bs' = length bs - 1" using i mi by (simp add: bs'_def)
  have nth: "bs' ! j = (bs[i := b]) ! old j" if "j < length bs'" for j
    using that i mi by (auto simp: bs'_def old_def nth_append min_def)
  have last: "bs' ! (i - 1) = b" using nth [of "i - 1"] len i(1) mi(1) by (simp add: old_def)
  have other: "bs' ! j = bs ! old j" "old j \<noteq> m" "old j \<noteq> i" "old j < length bs" if "j < length bs'" "j \<noteq> i - 1" for j
    using that nth [of j] len mi(1) i(1) by (auto simp: old_def split: if_splits)
  have inj: "old j \<noteq> old k" if "j \<noteq> k" for j k using that by (auto simp: old_def split: if_splits)
  have set': "set bs' \<subseteq> insert b (set bs)"
    unfolding bs'_def using set_take_subset [of m "bs[i := b]"] set_drop_subset [of "m + 1" "bs[i := b]"] set_update_subset_insert [of bs i b] by auto
  have apart: "guest_addrs b \<inter> guest_addrs (bs' ! j) = {}" if "j < i" "j \<noteq> i - 1" for j
  proof -
    have j: "j < length bs'" "old j < i" using that len i(1) mi(1) by (auto simp: old_def)
    note o = other [OF j(1) that(2)]
    have "addrs g sz \<inter> guest_addrs (bs ! old j) = {}" using inv j(2) o(2) by (auto simp: merge_inv_def)
    moreover have "guest_addrs (bs ! i) \<inter> guest_addrs (bs ! old j) = {}"
      using inv i(1) o(2-4) mi(1) by (auto simp: merge_inv_def)
    ultimately show ?thesis unfolding mg(1) o(1) by (simp add: Int_Un_distrib2)
  qed
  have pairs: "guest_addrs (bs' ! j) \<inter> guest_addrs (bs' ! k) = {}" if "j < length bs'" "k < length bs'" "j \<noteq> k" "j \<noteq> i - 1" "k \<noteq> i - 1" for j k
    using inv other [OF that(1,4)] other [OF that(2,5)] inj [OF that(3)] by (simp add: merge_inv_def)
  have m: "m < length (bs[i := b])" "bs[i := b] ! m = bs ! m" using i(1) mi(1) by simp_all
  have "(\<Union>b \<in> set bs'. guest_addrs b) \<union> guest_addrs b = (\<Union>b \<in> set (bs[i := b]). guest_addrs b) \<union> guest_addrs b"
    unfolding set_split_at(1) [OF m(1)] m(2) by (auto simp: bs'_def mi(2) mg(1))
  also have "\<dots> = (\<Union>b \<in> set bs. guest_addrs b) \<union> addrs g sz"
    by (auto simp: set_split_at [OF i(1)] mg(1))
  also have "\<dots> = A" using inv by (simp add: merge_inv_def)
  finally have "(\<Union>b \<in> set bs'. guest_addrs b) \<union> guest_addrs b = A" .
  with r mg(2) set' apart pairs last len i(1) mi(1) inv show ?thesis
    unfolding merge_inv_def by auto
qed

lemma register_loop_reserved:
  assumes "merge_inv A g sz merged i bs" "register_loop MEM_RESERVED g sz merged i bs = (bs', Some r)"
  shows "\<exists>g' sz'. merge_inv A g' sz' r (length bs') bs' \<and> (r = None \<longrightarrow> bs' = bs \<and> merged = None \<and> g' = g \<and> sz' = sz)"
  using assms
proof (induction "length bs - i" arbitrary: g sz merged i bs rule: less_induct)
  case less
  consider "length bs \<le> i" | "i < length bs" "\<not> bank_overlap g sz (bs ! i)"
    | "i < length bs" "bank_overlap g sz (bs ! i)" "bank_type (bs ! i) = MEM_RESERVED"
    | "i < length bs" "bank_overlap g sz (bs ! i)" "bank_type (bs ! i) \<noteq> MEM_RESERVED" by linarith
  then show ?case
  proof cases
    case 1
    then have "bs' = bs" "r = merged" "i = length bs" using less.prems by (auto simp: register_loop.simps merge_inv_def)
    then show ?thesis using less.prems(1) by blast
  next
    case 2
    then have "register_loop MEM_RESERVED g sz merged (i + 1) bs = (bs', Some r)"
      using less.prems(2) by (subst (asm) register_loop.simps) simp
    with less.hyps [OF _ merge_inv_skip [OF less.prems(1) 2]] 2 show ?thesis by (simp add: diff_less_mono2)
  next
    case 3
    let ?b = "bank_merge g sz (bs ! i)"
    show ?thesis
    proof (cases merged)
      case None
      then have "register_loop MEM_RESERVED (guest_phys_addr ?b) (bank_size ?b) (Some i) (i + 1) (bs[i := ?b]) = (bs', Some r)"
        using less.prems(2) 3 by (subst (asm) register_loop.simps) (simp add: Let_def)
      with less.hyps [OF _ merge_inv_first [OF less.prems(1) [unfolded None] 3(1,2)]] 3(1) show ?thesis
        by (force simp: diff_less_mono2)
    next
      case (Some m)
      then have m: "m < i" using less.prems(1) by (simp add: merge_inv_def)
      then have "register_loop MEM_RESERVED (guest_phys_addr ?b) (bank_size ?b) (Some (i - 1)) i
          (take m (bs[i := ?b]) @ drop (m + 1) (bs[i := ?b])) = (bs', Some r)"
        using less.prems(2) 3 Some by (subst (asm) register_loop.simps) (simp add: Let_def)
      with less.hyps [OF _ merge_inv_again [OF less.prems(1) [unfolded Some] 3(1,2)]] 3(1) m show ?thesis by force
    qed
  next
    case 4
    then have "register_loop MEM_RESERVED g sz merged i bs = (bs, None)" by (subst register_loop.simps) simp
    then show ?thesis using less.prems(2) by simp
  qed
qed

lemma mem_inv_merge: "mem_inv bs \<Longrightarrow> range_ok g sz \<Longrightarrow> merge_inv ((\<Union>b \<in> set bs. guest_addrs b) \<union> addrs g sz) g sz None 0 bs"
  by (simp add: mem_inv_def merge_inv_def)

lemma merge_inv_done_merged: "merge_inv A g sz (Some m) (length bs) bs \<Longrightarrow> mem_inv bs \<and> (\<Union>b \<in> set bs. guest_addrs b) = A"
proof
  assume inv: "merge_inv A g sz (Some m) (length bs) bs"
  then have m: "m < length bs" "guest_addrs (bs ! m) = addrs g sz" by (auto simp: merge_inv_def)
  then have "addrs g sz \<subseteq> (\<Union>b \<in> set bs. guest_addrs b)" using UN_upper [OF nth_mem [OF m(1)], of guest_addrs] by simp
  with inv show "(\<Union>b \<in> set bs. guest_addrs b) = A" by (auto simp: merge_inv_def)
  have "guest_addrs (bs ! i) \<inter> guest_addrs (bs ! j) = {}" if "i < length bs" "j < length bs" "i \<noteq> j" for i j
  proof -
    consider "i = m" | "j = m" | "i \<noteq> m" "j \<noteq> m" by blast
    then show ?thesis
    proof cases
      case 1
      then show ?thesis using inv m(2) that by (simp add: merge_inv_def)
    next
      case 2
      then have "addrs g sz \<inter> guest_addrs (bs ! i) = {}" using inv that by (simp add: merge_inv_def)
      then show ?thesis using 2 m(2) by (simp add: Int_commute)
    next
      case 3
      then show ?thesis using inv that by (simp add: merge_inv_def)
    qed
  qed
  then show "mem_inv bs" using inv by (simp add: mem_inv_def merge_inv_def)
qed

lemma mem_inv_Cons:
  "mem_inv (b # bs) \<longleftrightarrow> range_ok (guest_phys_addr b) (bank_size b) \<and> (\<forall>c \<in> set bs. guest_addrs b \<inter> guest_addrs c = {}) \<and> mem_inv bs"
proof
  assume inv: "mem_inv (b # bs)"
  have "guest_addrs b \<inter> guest_addrs c = {}" if c: "c \<in> set bs" for c
  proof -
    obtain j where "j < length bs" "bs ! j = c" using c unfolding in_set_conv_nth by blast
    with inv show ?thesis unfolding mem_inv_def by (metis Suc_less_eq length_Cons nat.distinct(1) nth_Cons_0 nth_Cons_Suc zero_less_Suc)
  qed
  moreover have "mem_inv bs" using inv unfolding mem_inv_def by (metis Suc_less_eq length_Cons list.set_intros(2) nat.inject nth_Cons_Suc)
  ultimately show "range_ok (guest_phys_addr b) (bank_size b) \<and> (\<forall>c \<in> set bs. guest_addrs b \<inter> guest_addrs c = {}) \<and> mem_inv bs"
    using inv by (simp add: mem_inv_def)
next
  assume r: "range_ok (guest_phys_addr b) (bank_size b) \<and> (\<forall>c \<in> set bs. guest_addrs b \<inter> guest_addrs c = {}) \<and> mem_inv bs"
  then show "mem_inv (b # bs)" by (auto simp: mem_inv_def nth_Cons' Int_commute)
qed

lemma guest_flat_to_host_bank:
  assumes "mem_inv bs" "b \<in> set bs" "unat x \<in> guest_addrs b"
  shows "guest_flat_to_host bs x = host_addr b + (x - guest_phys_addr b)"
  using assms
proof (induction bs)
  case (Cons c bs)
  have r: "range_ok (guest_phys_addr c) (bank_size c)" "mem_inv bs" using Cons.prems(1) by (auto simp: mem_inv_Cons)
  show ?case
  proof (cases "b = c")
    case True
    then show ?thesis using Cons.prems(3) in_bank [OF r(1), of x] by (simp add: Let_def)
  next
    case False
    then have b: "b \<in> set bs" using Cons.prems(2) by simp
    then have "unat x \<notin> guest_addrs c" using Cons.prems(1,3) by (auto simp: mem_inv_Cons)
    then show ?thesis using Cons.IH [OF r(2) b Cons.prems(3)] in_bank [OF r(1), of x] by (auto simp: Let_def)
  qed
qed simp

section \<open>Properties\<close>

text \<open>
  C34: registering RAM or device memory is refused with -EINVAL exactly when the region overlaps a bank, and then nothing
  changes; otherwise the bank is added, banks stay apart, and exactly the guest addresses of the
  region translate to the new host memory.
\<close>

theorem kvm__register_mem_correct:
  assumes "mem_inv (mem_banks st)" "range_ok g sz" "type \<noteq> MEM_RESERVED"
    and b: "b = \<lparr>guest_phys_addr = g, host_addr = h, bank_size = sz, bank_type = type\<rparr>"
  shows "kvm__register_mem False ioctl g sz h type st =
    (if \<exists>c \<in> set (mem_banks st). addrs g sz \<inter> guest_addrs c \<noteq> {} then (st, -EINVAL)
     else if ioctl < 0 then (st\<lparr>mem_slots := mem_slots st + 1\<rparr>, ioctl)
     else (st\<lparr>mem_banks := b # mem_banks st, mem_slots := mem_slots st + 1\<rparr>, 0)) \<and>
   ((\<forall>c \<in> set (mem_banks st). addrs g sz \<inter> guest_addrs c = {}) \<longrightarrow>
      mem_inv (b # mem_banks st) \<and>
      (\<forall>x. guest_flat_to_host (b # mem_banks st) x = (if unat x \<in> addrs g sz then h + (x - g) else guest_flat_to_host (mem_banks st) x)))"
proof
  have ov: "bank_overlap g sz c \<longleftrightarrow> addrs g sz \<inter> guest_addrs c \<noteq> {}" if "c \<in> set (mem_banks st)" for c
    using that assms(1,2) by (intro bank_overlap_iff) (auto simp: mem_inv_def)
  then have "(\<exists>j < length (mem_banks st). bank_overlap g sz (mem_banks st ! j)) = (\<exists>c \<in> set (mem_banks st). addrs g sz \<inter> guest_addrs c \<noteq> {})"
    by (metis in_set_conv_nth)
  then have loop: "register_loop type g sz None 0 (mem_banks st) =
      (mem_banks st, if \<exists>c \<in> set (mem_banks st). addrs g sz \<inter> guest_addrs c \<noteq> {} then None else Some None)"
    using register_loop_plain [OF assms(3), of g sz None 0 "mem_banks st"] by simp
  show "kvm__register_mem False ioctl g sz h type st =
    (if \<exists>c \<in> set (mem_banks st). addrs g sz \<inter> guest_addrs c \<noteq> {} then (st, -EINVAL)
     else if ioctl < 0 then (st\<lparr>mem_slots := mem_slots st + 1\<rparr>, ioctl)
     else (st\<lparr>mem_banks := b # mem_banks st, mem_slots := mem_slots st + 1\<rparr>, 0))"
    using assms(3) by (simp add: kvm__register_mem_def loop b Let_def)
  show "(\<forall>c \<in> set (mem_banks st). addrs g sz \<inter> guest_addrs c = {}) \<longrightarrow>
      mem_inv (b # mem_banks st) \<and>
      (\<forall>x. guest_flat_to_host (b # mem_banks st) x = (if unat x \<in> addrs g sz then h + (x - g) else guest_flat_to_host (mem_banks st) x))"
    using assms(1,2) in_bank [OF assms(2)] by (auto simp: mem_inv_Cons b Let_def)
qed

definition sample_mem :: mem_state where
  "sample_mem = \<lparr>mem_banks = [\<lparr>guest_phys_addr = 0, host_addr = 0x7F0000000000, bank_size = 0x1000, bank_type = MEM_RAM\<rparr>], mem_slots = 1\<rparr>"

lemma sample_mem_inv: "mem_inv (mem_banks sample_mem)"
  by (simp add: sample_mem_def mem_inv_def range_ok_def)

theorem kvm__register_mem_correct_witness:
  "snd (kvm__register_mem False 0 0x2000 0x1000 0x7F0000002000 MEM_RAM sample_mem) = 0 \<and>
   guest_flat_to_host (mem_banks (fst (kvm__register_mem False 0 0x2000 0x1000 0x7F0000002000 MEM_RAM sample_mem))) 0x2004 = 0x7F0000002004"
  using kvm__register_mem_correct [OF sample_mem_inv _ _ refl, of "0x2000" "0x1000" MEM_RAM 0 "0x7F0000002000"]
  by (simp add: range_ok_def) (simp add: sample_mem_def addrs_def)

text \<open>
  A reservation that succeeds leaves the banks apart, and the addresses they cover are the old ones and those
  of the region, whatever reserved banks it was merged with.
\<close>

theorem kvm__reserve_mem_correct:
  assumes "mem_inv (mem_banks st)" "range_ok g sz" "kvm__register_mem oom ioctl g sz 0 MEM_RESERVED st = (st', 0)"
  shows "mem_inv (mem_banks st') \<and>
    (\<Union>b \<in> set (mem_banks st'). guest_addrs b) = (\<Union>b \<in> set (mem_banks st). guest_addrs b) \<union> addrs g sz"
proof -
  let ?A = "(\<Union>b \<in> set (mem_banks st). guest_addrs b) \<union> addrs g sz"
  obtain bs r where l: "register_loop MEM_RESERVED g sz None 0 (mem_banks st) = (bs, r)" by fastforce
  show ?thesis
  proof (cases r)
    case None
    then show ?thesis using assms(3) l by (simp add: kvm__register_mem_def)
  next
    case (Some m)
    from register_loop_reserved [OF mem_inv_merge [OF assms(1,2)] l [unfolded Some]] obtain g' sz' where
      i: "merge_inv ?A g' sz' m (length bs) bs" "m = None \<longrightarrow> bs = mem_banks st \<and> g' = g \<and> sz' = sz" by blast
    show ?thesis
    proof (cases m)
      case None
      then have st': "st' = st\<lparr>mem_banks := \<lparr>guest_phys_addr = g, host_addr = 0, bank_size = sz, bank_type = MEM_RESERVED\<rparr> # mem_banks st\<rparr>"
        using assms(3) l Some by (simp add: kvm__register_mem_def Let_def split: if_splits)
      have "\<forall>c \<in> set (mem_banks st). addrs g sz \<inter> guest_addrs c = {}"
        using i None unfolding merge_inv_def in_set_conv_nth Ball_def by (metis option.distinct(1))
      then show ?thesis using assms(1,2) by (auto simp: st' mem_inv_Cons)
    next
      case (Some k)
      then have "st' = st\<lparr>mem_banks := bs\<rparr>" using assms(3) l \<open>r = Some m\<close> by (simp add: kvm__register_mem_def)
      then show ?thesis using merge_inv_done_merged [OF i(1) [unfolded Some]] by simp
    qed
  qed
qed

theorem kvm__reserve_mem_correct_witness:
  "mem_inv (mem_banks (fst (kvm__register_mem False 0 0x5000 0x1000 0 MEM_RESERVED sample_mem)))"
proof -
  have "kvm__register_mem False 0 0x5000 0x1000 0 MEM_RESERVED sample_mem =
      (fst (kvm__register_mem False 0 0x5000 0x1000 0 MEM_RESERVED sample_mem), 0)"
    by (simp add: kvm__register_mem_def register_loop.simps sample_mem_def bank_overlap_def)
  from kvm__reserve_mem_correct [OF sample_mem_inv _ this] show ?thesis by (simp add: range_ok_def)
qed

text \<open>
  Translating a guest address to the host and back gives the address again, when guest and host ranges
  of the banks are apart.
\<close>

theorem guest_host_roundtrip:
  assumes "mem_inv bs" "mem_inv (map (\<lambda>b. b\<lparr>guest_phys_addr := host_addr b, host_addr := guest_phys_addr b\<rparr>) bs)"
    and "b \<in> set bs" "unat x \<in> guest_addrs b"
  shows "host_to_guest_flat bs (guest_flat_to_host bs x) = x"
proof -
  let ?sw = "\<lambda>b. b\<lparr>guest_phys_addr := host_addr b, host_addr := guest_phys_addr b\<rparr>"
  have swap: "host_to_guest_flat bs p = guest_flat_to_host (map ?sw bs) p" for p
    by (induction bs) (simp_all add: Let_def)
  have h: "guest_flat_to_host bs x = host_addr b + (x - guest_phys_addr b)" by (rule guest_flat_to_host_bank [OF assms(1,3,4)])
  have r: "range_ok (host_addr b) (bank_size b)" using assms(2,3) by (auto simp: mem_inv_def)
  have d: "unat (x - guest_phys_addr b) = unat x - unat (guest_phys_addr b)" "unat x - unat (guest_phys_addr b) < unat (bank_size b)"
    using assms(4) by (auto simp: addrs_def intro!: unat_sub simp: word_le_nat_alt)
  have "unat (host_addr b + (x - guest_phys_addr b)) = unat (host_addr b) + (unat x - unat (guest_phys_addr b))"
    using unat_add_lem [of "host_addr b" "x - guest_phys_addr b"] d r by (simp add: range_ok_def)
  then have "unat (guest_flat_to_host bs x) \<in> guest_addrs (?sw b)" using h d by (simp add: addrs_def)
  from guest_flat_to_host_bank [OF assms(2) _ this] assms(3) h swap show ?thesis by simp
qed

theorem guest_host_roundtrip_witness:
  "host_to_guest_flat (mem_banks sample_mem) (guest_flat_to_host (mem_banks sample_mem) 0x123) = 0x123"
  by (rule guest_host_roundtrip [OF sample_mem_inv, where b = "hd (mem_banks sample_mem)"])
     (simp_all add: sample_mem_def mem_inv_def range_ok_def addrs_def)

text \<open>
  A reservation that fails may have grown a reserved bank before it met the bank it may not overlap:
  the banks then overlap although -EINVAL was returned.
\<close>

theorem failed_reservation_overlaps:
  "\<exists>st st'. mem_inv (mem_banks st) \<and> kvm__register_mem False 0 0x1800 0x1000 0 MEM_RESERVED st = (st', -EINVAL) \<and> \<not> mem_inv (mem_banks st')"
proof -
  let ?r = "\<lparr>guest_phys_addr = 0x1000, host_addr = 0, bank_size = 0x1000, bank_type = MEM_RESERVED\<rparr>"
  let ?m = "\<lparr>guest_phys_addr = 0x2000, host_addr = 0x7F0000000000, bank_size = 0x1000, bank_type = MEM_RAM\<rparr>"
  let ?st = "\<lparr>mem_banks = [?r, ?m], mem_slots = 1\<rparr>"
  have "mem_inv (mem_banks ?st)" by (simp add: mem_inv_Cons range_ok_def addrs_def) (simp add: mem_inv_def)
  moreover have "kvm__register_mem False 0 0x1800 0x1000 0 MEM_RESERVED ?st = (?st\<lparr>mem_banks := [?r\<lparr>bank_size := 0x1800\<rparr>, ?m]\<rparr>, -EINVAL)"
    by (simp add: kvm__register_mem_def register_loop.simps bank_overlap_def bank_merge_def Let_def)
  moreover have "\<not> mem_inv [?r\<lparr>bank_size := 0x1800\<rparr>, ?m]"
  proof -
    have "0x2000 \<in> guest_addrs (?r\<lparr>bank_size := 0x1800\<rparr>) \<inter> guest_addrs ?m" by (simp add: addrs_def)
    then show ?thesis unfolding mem_inv_Cons by auto
  qed
  ultimately show ?thesis by (intro exI [of _ ?st] exI [of _ "?st\<lparr>mem_banks := [?r\<lparr>bank_size := 0x1800\<rparr>, ?m]\<rparr>"]) simp
qed

end
