(* ===== verification/Iovec.thy ===== *)
theory Iovec
  imports Prelude
begin

text \<open>
  Vectors of buffers (\<^verbatim>\<open>struct iovec\<close>) in host memory, and \<^verbatim>\<open>util/iovec.c\<close>, which copies between a
  vector and a linear buffer. Host memory maps the addresses that may be accessed to their bytes; an access elsewhere is
  \<open>Undefined\<close>, and so is reading an entry behind the end of a vector.
\<close>

section \<open>Host memory\<close>

type_synonym hmem = "u64 \<Rightarrow> u8 option"

definition span :: "u64 \<Rightarrow> nat \<Rightarrow> u64 list" where
  "span p n = map (\<lambda>i. p + of_nat i) [0..<n]"

definition rd_at :: "hmem \<Rightarrow> u64 list \<Rightarrow> u8 list outcome" where
  "rd_at m as = (if list_all (\<lambda>a. m a \<noteq> None) as then Ret (map (\<lambda>a. the (m a)) as) else Undefined)"

definition wr_at :: "hmem \<Rightarrow> u64 list \<Rightarrow> u8 list \<Rightarrow> hmem outcome" where
  "wr_at m as bs =
     (if list_all (\<lambda>a. m a \<noteq> None) (take (length bs) as) \<and> length bs \<le> length as
      then Ret (fold (\<lambda>(a, b) m. m(a \<mapsto> b)) (zip as bs) m) else Undefined)"

definition mem_read :: "hmem \<Rightarrow> u64 \<Rightarrow> nat \<Rightarrow> u8 list outcome" where
  "mem_read m p n = rd_at m (span p n)"

definition mem_write :: "hmem \<Rightarrow> u64 \<Rightarrow> u8 list \<Rightarrow> hmem outcome" where
  "mem_write m p bs = wr_at m (span p (length bs)) bs"

record iovec =
  iov_base :: u64
  iov_len :: u64

text \<open>The addresses of a vector, in order.\<close>

definition iov_span :: "iovec list \<Rightarrow> u64 list" where
  "iov_span iov = concat (map (\<lambda>v. span (iov_base v) (unat (iov_len v))) iov)"

section \<open>Copying\<close>

text \<open>\<^verbatim>\<open>min_t(unsigned int, a, len)\<close>, for a positive \<open>len\<close>.\<close>

definition min_u32 :: "u64 \<Rightarrow> int \<Rightarrow> nat" where
  "min_u32 a len = unat (min (ucast a :: u32) (word_of_int len))"

text \<open>\<open>len\<close> is a signed 32-bit integer; the linear buffer must hold that many bytes.\<close>

fun memcpy_toiovec :: "iovec list \<Rightarrow> u8 list \<Rightarrow> int \<Rightarrow> hmem \<Rightarrow> (iovec list \<times> hmem) outcome" where
  "memcpy_toiovec iov kdata len m =
     (if len \<le> 0 then Ret (iov, m)
      else case iov of
        [] \<Rightarrow> Undefined
      | v # iov \<Rightarrow>
          if iov_len v = 0 then bind_outcome (memcpy_toiovec iov kdata len m) (\<lambda>(iov, m). Ret (v # iov, m))
          else let copy = min_u32 (iov_len v) len
            in if length kdata < copy then Undefined
               else bind_outcome (mem_write m (iov_base v) (take copy kdata)) (\<lambda>m.
                 bind_outcome (memcpy_toiovec iov (drop copy kdata) (len - int copy) m) (\<lambda>(iov, m).
                   Ret (v\<lparr>iov_base := iov_base v + of_nat copy, iov_len := iov_len v - of_nat copy\<rparr> # iov, m))))"

fun memcpy_toiovecend :: "iovec list \<Rightarrow> u8 list \<Rightarrow> u64 \<Rightarrow> int \<Rightarrow> hmem \<Rightarrow> hmem outcome" where
  "memcpy_toiovecend iov kdata offset len m =
     (if len \<le> 0 then Ret m
      else case iov of
        [] \<Rightarrow> Undefined
      | v # iov \<Rightarrow>
          if iov_len v \<le> offset then memcpy_toiovecend iov kdata (offset - iov_len v) len m
          else let copy = min_u32 (iov_len v - offset) len
            in if length kdata < copy then Undefined
               else bind_outcome (mem_write m (iov_base v + offset) (take copy kdata)) (\<lambda>m.
                 memcpy_toiovecend iov (drop copy kdata) 0 (len - int copy) m))"

text \<open>The two readers return the bytes stored in the linear buffer.\<close>

fun memcpy_fromiovec :: "iovec list \<Rightarrow> int \<Rightarrow> hmem \<Rightarrow> (iovec list \<times> u8 list) outcome" where
  "memcpy_fromiovec iov len m =
     (if len \<le> 0 then Ret (iov, [])
      else case iov of
        [] \<Rightarrow> Undefined
      | v # iov \<Rightarrow>
          if iov_len v = 0 then bind_outcome (memcpy_fromiovec iov len m) (\<lambda>(iov, kdata). Ret (v # iov, kdata))
          else let copy = min_u32 (iov_len v) len
            in bind_outcome (mem_read m (iov_base v) copy) (\<lambda>bs.
                 bind_outcome (memcpy_fromiovec iov (len - int copy) m) (\<lambda>(iov, kdata).
                   Ret (v\<lparr>iov_base := iov_base v + of_nat copy, iov_len := iov_len v - of_nat copy\<rparr> # iov, bs @ kdata))))"

fun fromiovecend_copy :: "iovec list \<Rightarrow> u64 \<Rightarrow> int \<Rightarrow> hmem \<Rightarrow> u8 list outcome" where
  "fromiovecend_copy iov offset len m =
     (if len \<le> 0 then Ret []
      else case iov of
        [] \<Rightarrow> Undefined
      | v # iov \<Rightarrow>
          let copy = min_u32 (iov_len v - offset) len
          in bind_outcome (mem_read m (iov_base v + offset) copy) (\<lambda>bs.
               bind_outcome (fromiovecend_copy iov 0 (len - int copy) m) (\<lambda>kdata. Ret (bs @ kdata))))"

fun memcpy_fromiovecend :: "iovec list \<Rightarrow> u64 \<Rightarrow> int \<Rightarrow> hmem \<Rightarrow> u8 list outcome" where
  "memcpy_fromiovecend [] offset len m = Undefined"
| "memcpy_fromiovecend (v # iov) offset len m =
     (if iov_len v \<le> offset then memcpy_fromiovecend iov (offset - iov_len v) len m
      else fromiovecend_copy (v # iov) offset len m)"

definition iov_size :: "iovec list \<Rightarrow> nat \<Rightarrow> u64" where
  "iov_size iov n = fold (\<lambda>v n. n + iov_len v) (take n iov) 0"

declare memcpy_toiovec.simps [simp del] memcpy_toiovecend.simps [simp del]
  memcpy_fromiovec.simps [simp del] fromiovecend_copy.simps [simp del]

section \<open>Memory lemmas\<close>

definition mapped :: "hmem \<Rightarrow> u64 list \<Rightarrow> bool" where
  "mapped m as \<longleftrightarrow> list_all (\<lambda>a. m a \<noteq> None) as"

lemma mapped_simps [simp]:
  "mapped m []"
  "mapped m (a # as) \<longleftrightarrow> m a \<noteq> None \<and> mapped m as"
  "mapped m (as @ bs) \<longleftrightarrow> mapped m as \<and> mapped m bs"
  by (auto simp: mapped_def)

lemma mapped_take_drop: "mapped m as \<Longrightarrow> mapped m (take n as)" "mapped m as \<Longrightarrow> mapped m (drop n as)"
  by (auto simp: mapped_def list_all_iff dest: in_set_takeD in_set_dropD)

text \<open>Storing bytes at addresses, and loading them.\<close>

definition put_bytes :: "u64 list \<Rightarrow> u8 list \<Rightarrow> hmem \<Rightarrow> hmem" where
  "put_bytes as bs m = fold (\<lambda>(a, b) m. m(a \<mapsto> b)) (zip as bs) m"

definition get_bytes :: "u64 list \<Rightarrow> hmem \<Rightarrow> u8 list" where
  "get_bytes as m = map (\<lambda>a. the (m a)) as"

lemma rd_at_mapped: "mapped m as \<Longrightarrow> rd_at m as = Ret (get_bytes as m)"
  by (simp add: rd_at_def mapped_def get_bytes_def)

lemma wr_at_mapped: "mapped m as \<Longrightarrow> length bs = length as \<Longrightarrow> wr_at m as bs = Ret (put_bytes as bs m)"
  by (simp add: wr_at_def mapped_def put_bytes_def)

lemma put_bytes_Nil [simp]: "put_bytes as [] m = m" "put_bytes [] bs m = m"
  by (simp_all add: put_bytes_def)

lemma put_bytes_append:
  "length as = length bs \<Longrightarrow> put_bytes (as @ as') (bs @ bs') m = put_bytes as' bs' (put_bytes as bs m)"
  by (simp add: put_bytes_def)

lemma put_bytes_Cons: "put_bytes (a # as) (b # bs) m = put_bytes as bs (m(a \<mapsto> b))"
  by (simp add: put_bytes_def)

lemma put_bytes_other: "a \<notin> set as \<Longrightarrow> put_bytes as bs m a = m a"
proof (induction as arbitrary: bs m)
  case Nil
  then show ?case by simp
next
  case (Cons x as)
  then show ?case by (cases bs) (auto simp: put_bytes_Cons)
qed

lemma mapped_put_bytes [simp]: "mapped m xs \<Longrightarrow> mapped (put_bytes as bs m) xs"
proof (induction as arbitrary: bs m)
  case Nil
  then show ?case by simp
next
  case (Cons x as)
  moreover have "mapped (m(x \<mapsto> b)) xs" for b
    using Cons.prems by (simp add: mapped_def list_all_iff)
  ultimately show ?case by (cases bs) (auto simp: put_bytes_Cons)
qed

lemma get_put_same: "distinct as \<Longrightarrow> length bs = length as \<Longrightarrow> get_bytes as (put_bytes as bs m) = bs"
proof (induction as arbitrary: bs m)
  case Nil
  then show ?case by (simp add: get_bytes_def)
next
  case (Cons x as)
  then obtain b bs' where "bs = b # bs'"
    by (cases bs) auto
  then show ?case
    using Cons by (simp add: put_bytes_Cons get_bytes_def put_bytes_other)
qed

lemma get_put_disjoint: "set as \<inter> set xs = {} \<Longrightarrow> get_bytes xs (put_bytes as bs m) = get_bytes xs m"
  unfolding get_bytes_def by (rule map_cong) (auto, metis disjoint_iff put_bytes_other)

lemma get_bytes_append [simp]: "get_bytes (as @ bs) m = get_bytes as m @ get_bytes bs m"
  by (simp add: get_bytes_def)

lemma length_get_bytes [simp]: "length (get_bytes as m) = length as"
  by (simp add: get_bytes_def)

lemma length_span [simp]: "length (span p n) = n"
  by (simp add: span_def)

lemma span_0 [simp]: "span p 0 = []"
  by (simp add: span_def)

lemma take_span [simp]: "take k (span p n) = span p (min k n)"
  by (simp add: span_def take_map take_upt min_def)

lemma drop_span [simp]: "drop k (span p n) = span (p + of_nat k) (n - k)"
  by (rule nth_equalityI) (simp_all add: span_def algebra_simps less_diff_conv)

lemma span_append: "span p (j + k) = span p j @ span (p + of_nat j) k"
  using append_take_drop_id [of j "span p (j + k)"] by simp

lemma distinct_span:
  assumes "n \<le> 2 ^ 64"
  shows "distinct (span p n)"
proof -
  have "i = j" if "i < n" "j < n" "(of_nat i :: u64) = of_nat j" for i j
  proof -
    have "unat (of_nat i :: u64) = i" "unat (of_nat j :: u64) = j"
      using that(1,2) assms by (simp_all add: unat_of_nat take_bit_eq_mod)
    then show ?thesis
      using that(3) by metis
  qed
  then show ?thesis
    by (auto simp: span_def distinct_map inj_on_def)
qed

lemma in_span:
  assumes "n \<le> 2 ^ 64"
  shows "a \<in> set (span p n) \<longleftrightarrow> unat (a - p) < n"
proof
  assume "a \<in> set (span p n)"
  then obtain i where "i < n" "a = p + of_nat i"
    by (auto simp: span_def)
  then show "unat (a - p) < n"
    using assms by (simp add: unat_of_nat take_bit_eq_mod)
next
  assume "unat (a - p) < n"
  then show "a \<in> set (span p n)"
    by (auto simp: span_def intro!: image_eqI [of _ _ "unat (a - p)"])
qed

lemma get_bytes_const [simp]: "get_bytes as (\<lambda>_. Some b) = replicate (length as) b"
  by (simp add: get_bytes_def map_replicate_const)

lemma mapped_everywhere [simp]: "mapped (\<lambda>_. Some b) as"
  by (induction as) simp_all

lemma iov_span_simps [simp]:
  "iov_span [] = []"
  "iov_span (v # iov) = span (iov_base v) (unat (iov_len v)) @ iov_span iov"
  "iov_span (iov @ iov') = iov_span iov @ iov_span iov'"
  by (simp_all add: iov_span_def)

lemma iov_size_span:
  "iov_size iov (length iov) = of_nat (length (iov_span iov))"
proof -
  have "fold (\<lambda>v n. n + iov_len v) iov k = k + of_nat (length (iov_span iov))" for k :: u64
    by (induction iov arbitrary: k) auto
  then show ?thesis
    by (simp add: iov_size_def)
qed

section \<open>Correctness\<close>

text \<open>Buffers as descriptors describe them: shorter than \<open>2^32\<close> bytes.\<close>

definition iov_ok :: "iovec list \<Rightarrow> bool" where
  "iov_ok iov \<longleftrightarrow> list_all (\<lambda>v. unat (iov_len v) < 2 ^ 32) iov"

lemma iov_ok_simps [simp]: "iov_ok []" "iov_ok (v # iov) \<longleftrightarrow> unat (iov_len v) < 2 ^ 32 \<and> iov_ok iov"
  by (simp_all add: iov_ok_def)

lemma min_u32_min:
  assumes "unat a < 2 ^ 32" "0 < len" "len < 2 ^ 31"
  shows "min_u32 a len = min (unat a) (nat len)"
proof -
  have a: "unat (ucast a :: u32) = unat a"
    using assms(1) by (simp add: unsigned_ucast_eq take_bit_eq_mod)
  have l: "unat (word_of_int len :: u32) = nat len"
    using assms(2,3) by (simp add: unsigned_of_int take_bit_eq_mod)
  show ?thesis
    by (auto simp: min_u32_def min_def word_le_nat_alt a l)
qed

lemma advance_iov:
  assumes "copy \<le> unat (iov_len v)"
  shows "span (iov_base v + of_nat copy) (unat (iov_len v - of_nat copy)) = drop copy (span (iov_base v) (unat (iov_len v)))"
proof -
  have "unat (of_nat copy :: u64) = copy"
    using le_less_trans [OF assms unsigned_less] by (simp add: unat_of_nat take_bit_eq_mod)
  then show ?thesis
    using assms by (simp add: unat_sub word_le_nat_alt)
qed

lemma memcpy_toiovec_ok:
  assumes "iov_ok iov" "length kdata < 2 ^ 31" "length kdata \<le> length (iov_span iov)" "mapped m (take (length kdata) (iov_span iov))"
  shows "\<exists>iov'. memcpy_toiovec iov kdata (int (length kdata)) m = Ret (iov', put_bytes (take (length kdata) (iov_span iov)) kdata m) \<and>
    iov_span iov' = drop (length kdata) (iov_span iov)"
  using assms
proof (induction iov arbitrary: kdata m)
  case Nil
  then show ?case by (simp add: memcpy_toiovec.simps)
next
  case (Cons v iov)
  let ?n = "length kdata" and ?l = "unat (iov_len v)"
  define c where "c = min ?l ?n"
  let ?m = "put_bytes (span (iov_base v) c) (take c kdata) m"
  have split: "take ?n (iov_span (v # iov)) = span (iov_base v) c @ take (?n - c) (iov_span iov)"
    by (simp add: min_def c_def)
  have cn: "c \<le> ?n" "length (drop c kdata) = ?n - c"
    by (simp_all add: c_def)
  have mp: "mapped m (span (iov_base v) c)" "mapped m (take (?n - c) (iov_span iov))"
    using Cons.prems(4) unfolding split by simp_all
  have "?n - c \<le> length (iov_span iov)" "?n - c < 2 ^ 31"
    using Cons.prems(2,3) by (auto simp: c_def min_def)
  then obtain iov' where iov':
    "memcpy_toiovec iov (drop c kdata) (int (?n - c)) ?m = Ret (iov', put_bytes (take (?n - c) (iov_span iov)) (drop c kdata) ?m)"
    "iov_span iov' = drop (?n - c) (iov_span iov)"
    using Cons.IH [of "drop c kdata" ?m] Cons.prems(1) mp(2) unfolding cn(2) by auto
  have put: "put_bytes (take ?n (iov_span (v # iov))) kdata m = put_bytes (take (?n - c) (iov_span iov)) (drop c kdata) ?m"
    using put_bytes_append [of "span (iov_base v) c" "take c kdata" _ "drop c kdata" m] cn unfolding split by simp
  have w: "mem_write m (iov_base v) (take c kdata) = Ret ?m"
    using mp(1) cn by (simp add: mem_write_def wr_at_mapped)
  consider "?n = 0" | "?n > 0" "iov_len v = 0" | "?n > 0" "iov_len v \<noteq> 0"
    by blast
  then show ?case
  proof cases
    case 1
    then show ?thesis
      by (auto simp: memcpy_toiovec.simps)
  next
    case 2
    then show ?thesis
      using iov' put by (intro exI [of _ "v # iov'"]) (simp add: memcpy_toiovec.simps [of "v # iov"] c_def)
  next
    case 3
    let ?v = "v\<lparr>iov_base := iov_base v + of_nat c, iov_len := iov_len v - of_nat c\<rparr>"
    have "min_u32 (iov_len v) (int ?n) = c"
      using Cons.prems(1,2) 3 by (simp add: min_u32_min c_def)
    then have "memcpy_toiovec (v # iov) kdata (int ?n) m = Ret (?v # iov', put_bytes (take ?n (iov_span (v # iov))) kdata m)"
      using iov'(1) put 3 cn w by (subst memcpy_toiovec.simps) (simp add: Let_def of_nat_diff)
    moreover have "iov_span (?v # iov') = drop ?n (iov_span (v # iov))"
      using iov'(2) advance_iov [of c v] by (auto simp: min_def c_def)
    ultimately show ?thesis
      by blast
  qed
qed

lemma memcpy_fromiovec_ok:
  assumes "iov_ok iov" "n < 2 ^ 31" "n \<le> length (iov_span iov)" "mapped m (take n (iov_span iov))"
  shows "\<exists>iov'. memcpy_fromiovec iov (int n) m = Ret (iov', get_bytes (take n (iov_span iov)) m) \<and>
    iov_span iov' = drop n (iov_span iov)"
  using assms
proof (induction iov arbitrary: n)
  case Nil
  then show ?case by (simp add: memcpy_fromiovec.simps get_bytes_def)
next
  case (Cons v iov)
  define c where "c = min (unat (iov_len v)) n"
  have split: "take n (iov_span (v # iov)) = span (iov_base v) c @ take (n - c) (iov_span iov)"
    by (simp add: min_def c_def)
  have mp: "mapped m (span (iov_base v) c)" "mapped m (take (n - c) (iov_span iov))"
    using Cons.prems(4) unfolding split by simp_all
  have "n - c \<le> length (iov_span iov)" "n - c < 2 ^ 31"
    using Cons.prems(2,3) by (auto simp: c_def min_def)
  then obtain iov' where iov':
    "memcpy_fromiovec iov (int (n - c)) m = Ret (iov', get_bytes (take (n - c) (iov_span iov)) m)"
    "iov_span iov' = drop (n - c) (iov_span iov)"
    using Cons.IH [of "n - c"] Cons.prems(1) mp(2) by auto
  consider "n = 0" | "n > 0" "iov_len v = 0" | "n > 0" "iov_len v \<noteq> 0"
    by blast
  then show ?case
  proof cases
    case 1
    then show ?thesis
      by (auto simp: memcpy_fromiovec.simps get_bytes_def)
  next
    case 2
    then show ?thesis
      using iov' by (intro exI [of _ "v # iov'"]) (simp add: memcpy_fromiovec.simps [of "v # iov"] c_def)
  next
    case 3
    let ?v = "v\<lparr>iov_base := iov_base v + of_nat c, iov_len := iov_len v - of_nat c\<rparr>"
    have "min_u32 (iov_len v) (int n) = c"
      using Cons.prems(1,2) 3 by (simp add: min_u32_min c_def)
    then have "memcpy_fromiovec (v # iov) (int n) m = Ret (?v # iov', get_bytes (take n (iov_span (v # iov))) m)"
      unfolding split using iov'(1) 3 mp(1)
      by (subst memcpy_fromiovec.simps) (simp add: Let_def of_nat_diff c_def mem_read_def rd_at_mapped)
    moreover have "iov_span (?v # iov') = drop n (iov_span (v # iov))"
      using iov'(2) advance_iov [of c v] by (auto simp: min_def c_def)
    ultimately show ?thesis
      by blast
  qed
qed

lemma memcpy_toiovecend_ok:
  assumes "iov_ok iov" "length kdata < 2 ^ 31" "unat offset + length kdata \<le> length (iov_span iov)"
    "mapped m (take (length kdata) (drop (unat offset) (iov_span iov)))"
  shows "memcpy_toiovecend iov kdata offset (int (length kdata)) m =
    Ret (put_bytes (take (length kdata) (drop (unat offset) (iov_span iov))) kdata m)"
  using assms
proof (induction iov arbitrary: kdata offset m)
  case Nil
  then show ?case by (simp add: memcpy_toiovecend.simps)
next
  case (Cons v iov)
  let ?n = "length kdata" and ?o = "unat offset" and ?l = "unat (iov_len v)"
  show ?case
  proof (cases "?n = 0 \<or> iov_len v \<le> offset")
    case True
    then show ?thesis
    proof
      assume "iov_len v \<le> offset"
      then show ?thesis
        using Cons.IH [of kdata "offset - iov_len v" m] Cons.prems
        by (subst memcpy_toiovecend.simps) (auto simp: unat_sub word_le_nat_alt)
    qed (simp add: memcpy_toiovecend.simps)
  next
    case False
    then have lt: "?o < ?l" and sub: "unat (iov_len v - offset) = ?l - ?o"
      by (auto simp: word_le_nat_alt not_le unat_sub)
    define c where "c = min (?l - ?o) ?n"
    have split: "take ?n (drop ?o (iov_span (v # iov))) = span (iov_base v + offset) c @ take (?n - c) (iov_span iov)"
      using lt by (auto simp: min_def c_def)
    have cn: "c \<le> ?n" "length (drop c kdata) = ?n - c" "?n - c < 2 ^ 31" "?n - c \<le> length (iov_span iov)"
      using Cons.prems(2,3) lt by (auto simp: c_def min_def)
    let ?m = "put_bytes (span (iov_base v + offset) c) (take c kdata) m"
    have mp: "mapped m (span (iov_base v + offset) c)" "mapped m (take (?n - c) (iov_span iov))"
      using Cons.prems(4) unfolding split by simp_all
    have "min_u32 (iov_len v - offset) (int ?n) = c"
      using Cons.prems(1,2) False sub by (subst min_u32_min) (auto simp: c_def)
    moreover have "mem_write m (iov_base v + offset) (take c kdata) = Ret ?m"
      using mp(1) cn by (simp add: mem_write_def wr_at_mapped)
    moreover have "memcpy_toiovecend iov (drop c kdata) 0 (int (?n - c)) ?m = Ret (put_bytes (take (?n - c) (iov_span iov)) (drop c kdata) ?m)"
      using Cons.IH [of "drop c kdata" 0 ?m] Cons.prems(1) mp(2) cn by simp
    moreover have "put_bytes (take ?n (drop ?o (iov_span (v # iov)))) kdata m = put_bytes (take (?n - c) (iov_span iov)) (drop c kdata) ?m"
      using put_bytes_append [of "span (iov_base v + offset) c" "take c kdata" _ "drop c kdata" m] cn unfolding split by simp
    ultimately show ?thesis
      using False cn by (subst memcpy_toiovecend.simps) (simp add: Let_def of_nat_diff)
  qed
qed

lemma fromiovecend_copy_ok:
  assumes "iov_ok iov" "n < 2 ^ 31" "unat offset + n \<le> length (iov_span iov)" "iov \<noteq> [] \<Longrightarrow> offset \<le> iov_len (hd iov)"
    "mapped m (take n (drop (unat offset) (iov_span iov)))"
  shows "fromiovecend_copy iov offset (int n) m = Ret (get_bytes (take n (drop (unat offset) (iov_span iov))) m)"
  using assms
proof (induction iov arbitrary: n offset)
  case Nil
  then show ?case by (simp add: fromiovecend_copy.simps get_bytes_def)
next
  case (Cons v iov)
  let ?o = "unat offset" and ?l = "unat (iov_len v)"
  have lt: "?o \<le> ?l" and sub: "unat (iov_len v - offset) = ?l - ?o"
    using Cons.prems(4) by (auto simp: word_le_nat_alt not_le unat_sub)
  define c where "c = min (?l - ?o) n"
  have split: "take n (drop ?o (iov_span (v # iov))) = span (iov_base v + offset) c @ take (n - c) (iov_span iov)"
    using lt by (auto simp: min_def c_def)
  have cn: "c \<le> n" "n - c < 2 ^ 31" "n - c \<le> length (iov_span iov)"
    using Cons.prems(2,3) lt by (auto simp: c_def min_def)
  have mp: "mapped m (span (iov_base v + offset) c)" "mapped m (take (n - c) (iov_span iov))"
    using Cons.prems(5) unfolding split by simp_all
  show ?case
  proof (cases "n = 0")
    case True
    then show ?thesis by (simp add: fromiovecend_copy.simps get_bytes_def)
  next
    case False
    then have "min_u32 (iov_len v - offset) (int n) = c"
      using Cons.prems(1,2) sub by (subst min_u32_min) (auto simp: c_def)
    then show ?thesis
      using Cons.IH [of "n - c" 0] Cons.prems(1) mp cn False unfolding split
      by (subst fromiovecend_copy.simps) (simp add: Let_def of_nat_diff mem_read_def rd_at_mapped)
  qed
qed

lemma memcpy_fromiovecend_ok:
  assumes "iov_ok iov" "n < 2 ^ 31" "unat offset + n \<le> length (iov_span iov)" "unat offset < length (iov_span iov)"
    "mapped m (take n (drop (unat offset) (iov_span iov)))"
  shows "memcpy_fromiovecend iov offset (int n) m = Ret (get_bytes (take n (drop (unat offset) (iov_span iov))) m)"
  using assms
proof (induction iov arbitrary: offset)
  case Nil
  then show ?case by simp
next
  case (Cons v iov)
  show ?case
  proof (cases "iov_len v \<le> offset")
    case True
    then show ?thesis
      using Cons.IH [of "offset - iov_len v"] Cons.prems by (auto simp: unat_sub word_le_nat_alt)
  next
    case False
    then show ?thesis
      using fromiovecend_copy_ok [OF Cons.prems(1-3) _ Cons.prems(5)] by simp
  qed
qed

section \<open>Round trips\<close>

text \<open>A pair of routines that store to and load from the same part of a vector.\<close>

locale iov_copy =
  fixes wr :: "iovec list \<Rightarrow> u8 list \<Rightarrow> hmem \<Rightarrow> hmem outcome"
    and rd :: "iovec list \<Rightarrow> nat \<Rightarrow> hmem \<Rightarrow> u8 list outcome"
    and ok :: "iovec list \<Rightarrow> nat \<Rightarrow> bool"
    and area :: "iovec list \<Rightarrow> nat \<Rightarrow> u64 list"
  assumes length_area: "ok iov n \<Longrightarrow> length (area iov n) = n"
    and wr_law: "ok iov (length kdata) \<Longrightarrow> mapped m (area iov (length kdata)) \<Longrightarrow>
      wr iov kdata m = Ret (put_bytes (area iov (length kdata)) kdata m)"
    and rd_law: "ok iov n \<Longrightarrow> mapped m (area iov n) \<Longrightarrow> rd iov n m = Ret (get_bytes (area iov n) m)"
begin

lemma roundtrip:
  assumes "ok iov (length kdata)" "mapped m (area iov (length kdata))" "distinct (area iov (length kdata))"
  shows "\<exists>m'. wr iov kdata m = Ret m' \<and> rd iov (length kdata) m' = Ret kdata \<and>
    (\<forall>a. a \<notin> set (area iov (length kdata)) \<longrightarrow> m' a = m a)"
proof -
  let ?a = "area iov (length kdata)"
  have "mapped (put_bytes ?a kdata m) ?a"
    using assms(2) by simp
  then have "rd iov (length kdata) (put_bytes ?a kdata m) = Ret kdata"
    using rd_law [OF assms(1)] get_put_same [OF assms(3)] length_area [OF assms(1)] by simp
  then show ?thesis
    using wr_law [OF assms(1,2)] put_bytes_other by blast
qed

end

definition copy_ok :: "nat \<Rightarrow> iovec list \<Rightarrow> nat \<Rightarrow> bool" where
  "copy_ok offset iov n \<longleftrightarrow> iov_ok iov \<and> n < 2 ^ 31 \<and> offset + n \<le> length (iov_span iov) \<and> offset < length (iov_span iov)"

definition copy_area :: "nat \<Rightarrow> iovec list \<Rightarrow> nat \<Rightarrow> u64 list" where
  "copy_area offset iov n = take n (drop offset (iov_span iov))"

definition store_iov :: "iovec list \<Rightarrow> u8 list \<Rightarrow> hmem \<Rightarrow> hmem outcome" where
  "store_iov iov kdata m = bind_outcome (memcpy_toiovec iov kdata (int (length kdata)) m) (\<lambda>(_, m). Ret m)"

definition load_iov :: "iovec list \<Rightarrow> nat \<Rightarrow> hmem \<Rightarrow> u8 list outcome" where
  "load_iov iov n m = bind_outcome (memcpy_fromiovec iov (int n) m) (\<lambda>(_, bs). Ret bs)"

interpretation iov_start: iov_copy store_iov load_iov "copy_ok 0" "copy_area 0"
proof unfold_locales
  fix iov n m and kdata :: "u8 list"
  show "copy_ok 0 iov n \<Longrightarrow> length (copy_area 0 iov n) = n"
    by (simp add: copy_ok_def copy_area_def)
  show "store_iov iov kdata m = Ret (put_bytes (copy_area 0 iov (length kdata)) kdata m)"
    if "copy_ok 0 iov (length kdata)" "mapped m (copy_area 0 iov (length kdata))"
    using that memcpy_toiovec_ok [of iov kdata m] by (auto simp: copy_ok_def copy_area_def store_iov_def)
  show "load_iov iov n m = Ret (get_bytes (copy_area 0 iov n) m)" if "copy_ok 0 iov n" "mapped m (copy_area 0 iov n)"
    using that memcpy_fromiovec_ok [of iov n m] by (auto simp: copy_ok_def copy_area_def load_iov_def)
qed

interpretation iov_at: iov_copy
  "\<lambda>iov kdata. memcpy_toiovecend iov kdata offset (int (length kdata))" "\<lambda>iov n. memcpy_fromiovecend iov offset (int n)"
  "copy_ok (unat offset)" "copy_area (unat offset)" for offset
  by unfold_locales
    (auto simp: copy_ok_def copy_area_def intro!: memcpy_toiovecend_ok memcpy_fromiovecend_ok)

text \<open>
  Copying bytes into a vector of buffers at an offset and reading them back gives the same bytes, and only those
  addresses change, whatever the lengths of the buffers (empty ones included), provided the vector is long enough and its buffers do not overlap;
  at offset 0 the routines that consume the vector do the same.
\<close>

theorem iovec_copy_roundtrip:
  assumes "copy_ok (unat offset) iov (length kdata)" "mapped m (iov_span iov)" "distinct (iov_span iov)"
  shows "(\<exists>m'. memcpy_toiovecend iov kdata offset (int (length kdata)) m = Ret m' \<and>
             memcpy_fromiovecend iov offset (int (length kdata)) m' = Ret kdata \<and>
             (\<forall>a. a \<notin> set (copy_area (unat offset) iov (length kdata)) \<longrightarrow> m' a = m a)) \<and>
         (\<exists>iov' m' iov''. memcpy_toiovec iov kdata (int (length kdata)) m = Ret (iov', m') \<and>
             memcpy_fromiovec iov (int (length kdata)) m' = Ret (iov'', kdata) \<and> iov_span iov' = drop (length kdata) (iov_span iov) \<and>
             (\<forall>a. a \<notin> set (copy_area 0 iov (length kdata)) \<longrightarrow> m' a = m a))"
proof
  have area: "mapped m (copy_area k iov n)" "distinct (copy_area k iov n)" for k n
    using assms(2,3) by (simp_all add: copy_area_def mapped_take_drop)
  show "\<exists>m'. memcpy_toiovecend iov kdata offset (int (length kdata)) m = Ret m' \<and>
             memcpy_fromiovecend iov offset (int (length kdata)) m' = Ret kdata \<and>
             (\<forall>a. a \<notin> set (copy_area (unat offset) iov (length kdata)) \<longrightarrow> m' a = m a)"
    by (rule iov_at.roundtrip [OF assms(1) area])
  have ok: "copy_ok 0 iov (length kdata)"
    using assms(1) by (auto simp: copy_ok_def)
  from iov_start.roundtrip [OF ok area] obtain m' where m': "store_iov iov kdata m = Ret m'" "load_iov iov (length kdata) m' = Ret kdata"
    "\<forall>a. a \<notin> set (copy_area 0 iov (length kdata)) \<longrightarrow> m' a = m a"
    by blast
  obtain iov' where "memcpy_toiovec iov kdata (int (length kdata)) m = Ret (iov', m')" "iov_span iov' = drop (length kdata) (iov_span iov)"
    using m'(1) memcpy_toiovec_ok [of iov kdata m] ok area(1) [of 0]
    by (auto simp: store_iov_def bind_outcome_Ret copy_ok_def copy_area_def)
  moreover obtain iov'' where "memcpy_fromiovec iov (int (length kdata)) m' = Ret (iov'', kdata)"
    using m'(2) by (auto simp: load_iov_def bind_outcome_Ret)
  ultimately show "\<exists>iov' m' iov''. memcpy_toiovec iov kdata (int (length kdata)) m = Ret (iov', m') \<and>
             memcpy_fromiovec iov (int (length kdata)) m' = Ret (iov'', kdata) \<and> iov_span iov' = drop (length kdata) (iov_span iov) \<and>
             (\<forall>a. a \<notin> set (copy_area 0 iov (length kdata)) \<longrightarrow> m' a = m a)"
    using m'(3) by blast
qed

definition iov3 :: "iovec list" where
  "iov3 = [\<lparr>iov_base = 100, iov_len = 2\<rparr>, \<lparr>iov_base = 0, iov_len = 0\<rparr>, \<lparr>iov_base = 50, iov_len = 3\<rparr>]"

lemma iov3_span: "iov_span iov3 = [100, 101, 50, 51, 52]"
  by code_simp

lemma iov3_ok: "copy_ok (unat (1 :: u64)) iov3 (length [7, 8, 9 :: u8])" "mapped (\<lambda>_. Some 0) (iov_span iov3)" "distinct (iov_span iov3)"
  unfolding copy_ok_def iov3_span by (simp_all add: iov3_def)

theorem iovec_copy_roundtrip_witness:
  "\<exists>m'. memcpy_toiovecend iov3 [7, 8, 9] 1 3 (\<lambda>_. Some 0) = Ret m' \<and> memcpy_fromiovecend iov3 1 3 m' = Ret [7, 8, 9]"
  using iovec_copy_roundtrip [OF iov3_ok] by auto

end
