(* ===== verification/Virtqueue.thy ===== *)
theory Virtqueue
  imports Memory Iovec
begin

text \<open>
  Virtqueues (\<^verbatim>\<open>virtio/core.c\<close>, \<^verbatim>\<open>include/kvm/virtio.h\<close>): taking buffers from the available ring, following
  descriptor chains, returning buffers on the used ring, deciding whether to signal the guest, and the device status.

  The three parts of a ring are shared with the guest; they are fields of a record, and what the
  guest does between two calls is a change of that record. Constants and the layout are those of the virtio
  specification (\<^verbatim>\<open>linux/virtio_ring.h\<close>); the comparison \<^verbatim>\<open>vring_need_event\<close> of that header is an argument.
  Guest and host have the same byte order. A queue that was not set up has no ring; an index outside a table or
  array is \<open>Undefined\<close>.
\<close>

section \<open>State\<close>

definition VRING_DESC_F_NEXT :: u16 where "VRING_DESC_F_NEXT = 1"
definition VRING_DESC_F_WRITE :: u16 where "VRING_DESC_F_WRITE = 2"
definition VRING_DESC_F_INDIRECT :: u16 where "VRING_DESC_F_INDIRECT = 4"
definition VRING_AVAIL_F_NO_INTERRUPT :: u16 where "VRING_AVAIL_F_NO_INTERRUPT = 1"
definition VIRTIO_RING_F_EVENT_IDX :: u32 where "VIRTIO_RING_F_EVENT_IDX = 29"

record vring_desc =
  d_addr :: u64
  d_len :: u32
  d_flags :: u16
  d_next :: u16

record vring =
  vr_num :: nat
  vr_desc :: "vring_desc list"
  avail_flags :: u16
  avail_idx :: u16
  avail_ring :: "u16 list"
  used_event :: u16
  used_idx :: u16
  used_ring :: "(u32 \<times> u32) list"
  avail_event :: u16

record virt_queue =
  vq_vring :: "vring option"
  vq_pfn :: u32
  last_avail_idx :: u16
  last_used_signalled :: u16
  use_event_idx :: bool
  vq_enabled :: bool

text \<open>An operation on the ring of a queue.\<close>

definition with_ring :: "virt_queue \<Rightarrow> (vring \<Rightarrow> 'a outcome) \<Rightarrow> 'a outcome" where
  "with_ring q f = (case vq_vring q of None \<Rightarrow> Undefined | Some v \<Rightarrow> f v)"

section \<open>The available ring\<close>

definition virt_queue__pop :: "virt_queue \<Rightarrow> (virt_queue \<times> u16) outcome" where
  "virt_queue__pop q =
     with_ring q (\<lambda>v.
       let i = unat (last_avail_idx q) mod vr_num v
       in if vr_num v = 0 \<or> length (avail_ring v) \<le> i then Undefined
          else Ret (q\<lparr>last_avail_idx := last_avail_idx q + 1\<rparr>, avail_ring v ! i))"

definition virt_queue__available :: "virt_queue \<Rightarrow> virt_queue \<times> bool" where
  "virt_queue__available q =
     (case vq_vring q of
        None \<Rightarrow> (q, False)
      | Some v \<Rightarrow>
          let v' = (if use_event_idx q then v\<lparr>avail_event := last_avail_idx q\<rparr> else v)
          in (q\<lparr>vq_vring := Some v'\<rparr>, avail_idx v' \<noteq> last_avail_idx q))"

section \<open>The used ring\<close>

definition virt_queue__used_idx_advance :: "virt_queue \<Rightarrow> u16 \<Rightarrow> virt_queue outcome" where
  "virt_queue__used_idx_advance q jump = with_ring q (\<lambda>v. Ret (q\<lparr>vq_vring := Some (v\<lparr>used_idx := used_idx v + jump\<rparr>)\<rparr>))"

definition virt_queue__set_used_elem_no_update :: "virt_queue \<Rightarrow> u32 \<Rightarrow> u32 \<Rightarrow> u16 \<Rightarrow> virt_queue outcome" where
  "virt_queue__set_used_elem_no_update q head len offset =
     with_ring q (\<lambda>v.
       let i = unat (used_idx v + offset) mod vr_num v
       in if vr_num v = 0 \<or> length (used_ring v) \<le> i then Undefined
          else Ret (q\<lparr>vq_vring := Some (v\<lparr>used_ring := (used_ring v)[i := (head, len)]\<rparr>)\<rparr>))"

definition virt_queue__set_used_elem :: "virt_queue \<Rightarrow> u32 \<Rightarrow> u32 \<Rightarrow> virt_queue outcome" where
  "virt_queue__set_used_elem q head len =
     bind_outcome (virt_queue__set_used_elem_no_update q head len 0) (\<lambda>q. virt_queue__used_idx_advance q 1)"

section \<open>Descriptor chains\<close>

definition virt_desc__test_flag :: "vring_desc \<Rightarrow> u16 \<Rightarrow> bool" where
  "virt_desc__test_flag desc flag \<longleftrightarrow> d_flags desc AND flag \<noteq> 0"

definition next_desc :: "vring_desc \<Rightarrow> u16 \<Rightarrow> u16" where
  "next_desc desc lim = (if \<not> virt_desc__test_flag desc VRING_DESC_F_NEXT then lim else min (d_next desc) lim)"

definition desc_iov :: "kvm_mem_bank list \<Rightarrow> vring_desc \<Rightarrow> iovec" where
  "desc_iov banks d = \<lparr>iov_base = guest_flat_to_host banks (d_addr d), iov_len = ucast (d_len d)\<rparr>"

text \<open>
  The loop of \<^verbatim>\<open>virt_queue__get_head_iov\<close>; \<open>cap\<close> is the length of the array the caller gave for \<^verbatim>\<open>iov\<close>, which the
  code does not know. The index of the next entry is the number of entries filled.
\<close>

function head_iov_loop :: "nat \<Rightarrow> kvm_mem_bank list \<Rightarrow> vring_desc list \<Rightarrow> u16 \<Rightarrow> u16 \<Rightarrow> iovec list \<Rightarrow> u16 \<Rightarrow> u16 \<Rightarrow> (iovec list \<times> u16 \<times> u16) outcome" where
  "head_iov_loop cap banks desc lim idx iov out in' =
     (if cap \<le> length iov \<or> length desc \<le> unat idx then Undefined
      else let d = desc ! unat idx; iov = iov @ [desc_iov banks d];
               w = virt_desc__test_flag d VRING_DESC_F_WRITE;
               in' = (if w then in' + 1 else in'); out = (if w then out else out + 1)
        in if next_desc d lim = lim then Ret (iov, out, in')
           else head_iov_loop cap banks desc lim (next_desc d lim) iov out in')"
  by pat_completeness auto
termination
  by (relation "measure (\<lambda>(cap, _, _, _, _, iov, _, _). cap - length iov)") auto

declare head_iov_loop.simps [simp del]

text \<open>\<open>tables p\<close> are the descriptors that can be read at host address \<open>p\<close>, for indirect tables.\<close>

definition virt_queue__get_head_iov ::
  "nat \<Rightarrow> kvm_mem_bank list \<Rightarrow> (u64 \<Rightarrow> vring_desc list) \<Rightarrow> virt_queue \<Rightarrow> u16 \<Rightarrow> (iovec list \<times> u16 \<times> u16 \<times> u16) outcome" where
  "virt_queue__get_head_iov cap banks tables q head =
     with_ring q (\<lambda>v.
       if length (vr_desc v) \<le> unat head then Undefined
       else let d = vr_desc v ! unat head
         in bind_outcome
              (if virt_desc__test_flag d VRING_DESC_F_INDIRECT
               then head_iov_loop cap banks (tables (guest_flat_to_host banks (d_addr d))) (ucast (d_len d div 16)) 0 [] 0 0
               else head_iov_loop cap banks (vr_desc v) (of_nat (vr_num v)) head [] 0 0)
              (\<lambda>(iov, out, in'). Ret (iov, out, in', head)))"

definition virt_queue__get_iov ::
  "nat \<Rightarrow> kvm_mem_bank list \<Rightarrow> (u64 \<Rightarrow> vring_desc list) \<Rightarrow> virt_queue \<Rightarrow> (virt_queue \<times> iovec list \<times> u16 \<times> u16 \<times> u16) outcome" where
  "virt_queue__get_iov cap banks tables q =
     bind_outcome (virt_queue__pop q) (\<lambda>(q, head).
       bind_outcome (virt_queue__get_head_iov cap banks tables q head) (\<lambda>r. Ret (q, r)))"

text \<open>The variant with two arrays, of \<open>cin\<close> and \<open>cout\<close> entries; it does not follow indirect tables and does not check the index.\<close>

function inout_loop :: "nat \<Rightarrow> nat \<Rightarrow> kvm_mem_bank list \<Rightarrow> vring_desc list \<Rightarrow> u16 \<Rightarrow> iovec list \<Rightarrow> iovec list \<Rightarrow> (iovec list \<times> iovec list) outcome" where
  "inout_loop cin cout banks desc idx ins outs =
     (if length desc \<le> unat idx then Undefined
      else let d = desc ! unat idx; w = virt_desc__test_flag d VRING_DESC_F_WRITE
        in if (if w then cin \<le> length ins else cout \<le> length outs) then Undefined
           else let ins = (if w then ins @ [desc_iov banks d] else ins); outs = (if w then outs else outs @ [desc_iov banks d])
             in if virt_desc__test_flag d VRING_DESC_F_NEXT then inout_loop cin cout banks desc (d_next d) ins outs
                else Ret (ins, outs))"
  by pat_completeness auto
termination
  by (relation "measure (\<lambda>(cin, cout, _, _, _, ins, outs). (cin - length ins) + (cout - length outs))") auto

declare inout_loop.simps [simp del]

definition virt_queue__get_inout_iov ::
  "nat \<Rightarrow> nat \<Rightarrow> kvm_mem_bank list \<Rightarrow> virt_queue \<Rightarrow> (virt_queue \<times> iovec list \<times> iovec list \<times> u16) outcome" where
  "virt_queue__get_inout_iov cin cout banks q =
     bind_outcome (virt_queue__pop q) (\<lambda>(q, head).
       with_ring q (\<lambda>v. bind_outcome (inout_loop cin cout banks (vr_desc v) head [] []) (\<lambda>(ins, outs). Ret (q, ins, outs, head))))"

section \<open>Signalling and set-up\<close>

definition virtio_queue__should_signal :: "(u16 \<Rightarrow> u16 \<Rightarrow> u16 \<Rightarrow> bool) \<Rightarrow> virt_queue \<Rightarrow> (virt_queue \<times> bool) outcome" where
  "virtio_queue__should_signal need_event q =
     with_ring q (\<lambda>v.
       if \<not> use_event_idx q then Ret (q, avail_flags v AND VRING_AVAIL_F_NO_INTERRUPT = 0)
       else if need_event (used_event v) (used_idx v) (last_used_signalled q)
            then Ret (q\<lparr>last_used_signalled := used_idx v\<rparr>, True)
            else Ret (q, False))"

text \<open>The feature word is masked with the number of the feature bit.\<close>

definition virtio_init_device_vq :: "u32 \<Rightarrow> virt_queue \<Rightarrow> virt_queue" where
  "virtio_init_device_vq features q = q\<lparr>use_event_idx := (features AND VIRTIO_RING_F_EVENT_IDX \<noteq> 0), vq_enabled := True\<rparr>"

definition virt_queue_zero :: virt_queue where
  "virt_queue_zero = \<lparr>vq_vring = None, vq_pfn = 0, last_avail_idx = 0, last_used_signalled = 0, use_event_idx = False, vq_enabled = False\<rparr>"

text \<open>The second result is whether the device's own \<^verbatim>\<open>exit_vq\<close> is called.\<close>

definition virtio_exit_vq :: "virt_queue \<Rightarrow> virt_queue \<times> bool" where
  "virtio_exit_vq q = (virt_queue_zero, vq_enabled q)"

datatype dev_field = O_CONFIG u32 | O_MSIX

definition virtio__get_dev_specific_field :: "int \<Rightarrow> bool \<Rightarrow> dev_field" where
  "virtio__get_dev_specific_field offset msix =
     (if msix then if offset < 4 then O_MSIX else O_CONFIG (word_of_int (offset - 4)) else O_CONFIG (word_of_int offset))"

section \<open>Device status\<close>

definition VIRTIO_CONFIG_S_DRIVER_OK :: u32 where "VIRTIO_CONFIG_S_DRIVER_OK = 4"
definition VIRTIO_CONFIG_S_MASK :: u32 where "VIRTIO_CONFIG_S_MASK = 1 OR 2 OR 4 OR 8 OR 0x80"
definition VIRTIO__STATUS_START :: u32 where "VIRTIO__STATUS_START = 0x100"
definition VIRTIO__STATUS_STOP :: u32 where "VIRTIO__STATUS_STOP = 0x200"

text \<open>The new status, whether the device is reset, and the status its \<^verbatim>\<open>notify_status\<close> is called with.\<close>

definition virtio_notify_status :: "u8 \<Rightarrow> u32 \<Rightarrow> u32 \<times> bool \<times> u32" where
  "virtio_notify_status status dev =
     (let ext = ucast status; dev = (dev AND NOT VIRTIO_CONFIG_S_MASK) OR ext
      in if ext AND VIRTIO_CONFIG_S_DRIVER_OK \<noteq> 0 \<and> dev AND VIRTIO__STATUS_START = 0
         then (dev OR VIRTIO__STATUS_START, False, ext OR VIRTIO__STATUS_START)
         else if ext = 0 \<and> dev AND VIRTIO__STATUS_START \<noteq> 0
         then (dev AND NOT VIRTIO__STATUS_START, True, ext OR VIRTIO__STATUS_STOP)
         else (dev, False, ext))"

section \<open>A window on a ring\<close>

text \<open>
  The entries of a ring from free-running index \<open>x\<close> up to \<open>y\<close>. The queue sizes of the devices divide \<open>2^16\<close>, so that
  an index keeps its slot when it wraps around; this is the law the ring operations rely on.
\<close>

definition slot :: "nat \<Rightarrow> u16 \<Rightarrow> nat" where
  "slot num x = unat x mod num"

definition window :: "nat \<Rightarrow> 'a list \<Rightarrow> u16 \<Rightarrow> u16 \<Rightarrow> 'a list" where
  "window num ring x y = map (\<lambda>j. ring ! slot num (x + of_nat j)) [0..<unat (y - x)]"

lemma unat_diff_pred:
  "x \<noteq> y \<Longrightarrow> unat ((y :: 'a :: len word) - x) = Suc (unat (y - (x + 1)))"
proof -
  assume "x \<noteq> y"
  then have "y - x \<noteq> 0" by simp
  then have "unat (y - x - 1) = unat (y - x) - 1" "0 < unat (y - x)"
    by (auto simp: unat_minus_one unat_gt_0)
  then show ?thesis by (simp add: diff_diff_eq)
qed

locale u16_ring =
  fixes num :: nat
  assumes num_pos: "0 < num"
    and num_less: "num < 2 ^ 16"
    and num_dvd: "num dvd 2 ^ 16"
begin

lemma slot_less: "slot num x < num"
  using num_pos by (simp add: slot_def)

lemma slot_add: "slot num (x + of_nat j) = (unat x + j) mod num"
proof -
  have "unat (x + of_nat j) = (unat x + j) mod 2 ^ 16"
    by (simp add: unat_word_ariths unat_of_nat take_bit_eq_mod mod_add_right_eq)
  then show ?thesis
    using num_dvd by (simp add: slot_def mod_mod_cancel)
qed

lemma slot_inj:
  assumes "j < k" "k < num"
  shows "slot num (x + of_nat j) \<noteq> slot num (x + of_nat k)"
proof
  assume "slot num (x + of_nat j) = slot num (x + of_nat k)"
  then have "(unat x + k) mod num = (unat x + j) mod num"
    by (simp add: slot_add)
  then have "num dvd (unat x + k) - (unat x + j)"
    using assms mod_eq_dvd_iff_nat [of "unat x + j" "unat x + k" num] by simp
  then have "num dvd k - j"
    by simp
  then show False
    using assms by (auto dest: dvd_imp_le)
qed

lemma window_Nil: "window num ring x y = [] \<longleftrightarrow> x = y"
  by (auto simp: window_def unat_eq_zero)

lemma length_window: "length (window num ring x y) = unat (y - x)"
  by (simp add: window_def)

lemma window_Cons:
  assumes "x \<noteq> y"
  shows "window num ring x y = ring ! slot num x # window num ring (x + 1) y"
  using unat_diff_pred [OF assms]
  by (simp add: window_def upt_conv_Cons map_Suc_upt [symmetric] add.assoc comp_def del: upt_Suc)

lemma window_snoc:
  assumes "unat (y - x) < num" "length ring = num"
  shows "window num (ring[slot num y := v]) x (y + 1) = window num ring x y @ [v]"
proof -
  have n: "unat (y + 1 - x) = Suc (unat (y - x))"
  proof -
    have "unat ((y - x) + 1) = (unat (y - x) + 1) mod 2 ^ 16"
      unfolding unat_word_ariths(1) [of "y - x" 1] by simp
    then show ?thesis
      using assms(1) num_less by (simp add: algebra_simps)
  qed
  have y: "y = x + of_nat (unat (y - x))"
    by simp
  have "slot num y \<noteq> slot num (x + of_nat j)" if "j < unat (y - x)" for j
    using slot_inj [of j "unat (y - x)" x] that assms(1) by auto
  moreover have "slot num y < length ring"
    using slot_less assms(2) by simp
  ultimately show ?thesis
    by (auto simp: window_def n y [symmetric])
qed

lemma window_other:
  assumes "unat (y - x) \<le> j" "j < num" "length ring = num"
  shows "window num (ring[slot num (x + of_nat j) := v]) x y = window num ring x y"
proof -
  have "slot num (x + of_nat j) \<noteq> slot num (x + of_nat k)" if "k < unat (y - x)" for k
    using slot_inj [of k j x] that assms by auto
  then show ?thesis
    by (auto simp: window_def)
qed

end

text \<open>The queue sizes of the devices.\<close>

interpretation q128: u16_ring 128
  by unfold_locales simp_all

interpretation q256: u16_ring 256
  by unfold_locales simp_all

section \<open>The available ring is a queue\<close>

definition vring_ok :: "vring \<Rightarrow> bool" where
  "vring_ok v \<longleftrightarrow>
     0 < vr_num v \<and> vr_num v < 2 ^ 16 \<and> vr_num v dvd 2 ^ 16 \<and> length (vr_desc v) = vr_num v \<and>
     length (avail_ring v) = vr_num v \<and> length (used_ring v) = vr_num v"

definition pending :: "virt_queue \<Rightarrow> u16 list" where
  "pending q = (case vq_vring q of None \<Rightarrow> []
     | Some v \<Rightarrow> window (vr_num v) (avail_ring v) (last_avail_idx q) (avail_idx v))"

definition vq_ok :: "virt_queue \<Rightarrow> bool" where
  "vq_ok q = (case vq_vring q of None \<Rightarrow> False
     | Some v \<Rightarrow> vring_ok v \<and> unat (avail_idx v - last_avail_idx q) \<le> vr_num v)"

text \<open>What a driver does to offer the buffer with head \<open>h\<close>, when the ring has room for it.\<close>

definition driver_offer :: "u16 \<Rightarrow> vring \<Rightarrow> vring" where
  "driver_offer h v = v\<lparr>avail_ring := (avail_ring v)[slot (vr_num v) (avail_idx v) := h], avail_idx := avail_idx v + 1\<rparr>"

datatype ring_event = Offer u16 | Serve

text \<open>
  An interleaving of driver and device. The device takes a buffer when \<^const>\<open>virt_queue__available\<close> says there is one.
  The results are the buffers the ring accepted and the buffers the device took, in order.
\<close>

fun ring_run :: "ring_event list \<Rightarrow> virt_queue \<Rightarrow> (virt_queue \<times> u16 list \<times> u16 list) outcome" where
  "ring_run [] q = Ret (q, [], [])"
| "ring_run (Offer h # es) q =
     with_ring q (\<lambda>v.
       if unat (avail_idx v - last_avail_idx q) < vr_num v
       then bind_outcome (ring_run es (q\<lparr>vq_vring := Some (driver_offer h v)\<rparr>)) (\<lambda>(q, offered, taken). Ret (q, h # offered, taken))
       else ring_run es q)"
| "ring_run (Serve # es) q =
     (case virt_queue__available q of
        (q, False) \<Rightarrow> ring_run es q
      | (q, True) \<Rightarrow> bind_outcome (virt_queue__pop q) (\<lambda>(q, h).
          bind_outcome (ring_run es q) (\<lambda>(q, offered, taken). Ret (q, offered, h # taken))))"

lemma vring_ok_ring: "vring_ok v \<Longrightarrow> u16_ring (vr_num v)"
  by unfold_locales (auto simp: vring_ok_def)

lemma vq_okE:
  assumes "vq_ok q"
  obtains v where "vq_vring q = Some v" "vring_ok v" "unat (avail_idx v - last_avail_idx q) \<le> vr_num v"
  using assms by (auto simp: vq_ok_def split: option.splits)

lemma available_spec:
  assumes "vq_ok q" "virt_queue__available q = (q', b)"
  shows "vq_ok q'" "pending q' = pending q" "b \<longleftrightarrow> pending q \<noteq> []"
proof -
  obtain v where v: "vq_vring q = Some v" "vring_ok v" "unat (avail_idx v - last_avail_idx q) \<le> vr_num v"
    using assms(1) by (rule vq_okE)
  obtain e where q': "q' = q\<lparr>vq_vring := Some (v\<lparr>avail_event := e\<rparr>)\<rparr>" and b: "b \<longleftrightarrow> avail_idx v \<noteq> last_avail_idx q"
  proof (cases "use_event_idx q")
    case True
    then show thesis
      using assms(2) v(1) that [of "last_avail_idx q"] by (simp add: virt_queue__available_def Let_def)
  next
    case False
    then show thesis
      using assms(2) v(1) that [of "avail_event v"] by (simp add: virt_queue__available_def Let_def)
  qed
  show "vq_ok q'" "pending q' = pending q"
    using v by (simp_all add: q' vq_ok_def pending_def vring_ok_def)
  show "b \<longleftrightarrow> pending q \<noteq> []"
    using v(1) u16_ring.window_Nil [OF vring_ok_ring [OF v(2)], of "avail_ring v" "last_avail_idx q" "avail_idx v"]
    by (auto simp: b pending_def)
qed

lemma pop_spec:
  assumes "vq_ok q" "pending q = h # hs"
  obtains q' where "virt_queue__pop q = Ret (q', h)" "vq_ok q'" "pending q' = hs"
proof -
  obtain v where v: "vq_vring q = Some v" "vring_ok v" "unat (avail_idx v - last_avail_idx q) \<le> vr_num v"
    using assms(1) by (rule vq_okE)
  let ?q = "q\<lparr>last_avail_idx := last_avail_idx q + 1\<rparr>"
  have ring: "u16_ring (vr_num v)"
    using v(2) by (rule vring_ok_ring)
  have ne: "last_avail_idx q \<noteq> avail_idx v"
    using assms(2) v(1) u16_ring.window_Nil [OF ring, of "avail_ring v" "last_avail_idx q" "avail_idx v"]
    by (auto simp: pending_def)
  note cons = u16_ring.window_Cons [OF ring ne, of "avail_ring v"]
  have "virt_queue__pop q = Ret (?q, h)"
    using v assms(2) cons u16_ring.slot_less [OF ring, of "last_avail_idx q"]
    by (auto simp: virt_queue__pop_def with_ring_def pending_def slot_def vring_ok_def Let_def)
  moreover have "vq_ok ?q"
    using v unat_diff_pred [OF ne] by (simp add: vq_ok_def)
  moreover have "pending ?q = hs"
    using v(1) assms(2) cons by (simp add: pending_def)
  ultimately show thesis
    by (rule that)
qed

lemma offer_spec:
  assumes "vq_ok q" "vq_vring q = Some v" "unat (avail_idx v - last_avail_idx q) < vr_num v"
  shows "vq_ok (q\<lparr>vq_vring := Some (driver_offer h v)\<rparr>)"
    and "pending (q\<lparr>vq_vring := Some (driver_offer h v)\<rparr>) = pending q @ [h]"
proof -
  have ok: "vring_ok v"
    using assms(1,2) by (simp add: vq_ok_def)
  note ring = vring_ok_ring [OF ok]
  note snoc = u16_ring.window_snoc [OF ring assms(3), of "avail_ring v" h]
  show p: "pending (q\<lparr>vq_vring := Some (driver_offer h v)\<rparr>) = pending q @ [h]"
    using snoc ok assms(2) by (simp add: pending_def driver_offer_def vring_ok_def)
  have "unat (avail_idx v + 1 - last_avail_idx q) = Suc (unat (avail_idx v - last_avail_idx q))"
    using arg_cong [OF snoc, of length] ok by (simp add: u16_ring.length_window [OF ring] vring_ok_def)
  then show "vq_ok (q\<lparr>vq_vring := Some (driver_offer h v)\<rparr>)"
    using ok assms(3) by (simp add: vq_ok_def driver_offer_def vring_ok_def)
qed

text \<open>
  C11: The available ring is a first-in first-out queue under any interleaving of driver and device: the device takes
  the buffers in the order in which the driver offered them, none is lost, repeated or invented, also across the
  wrap-around of the 16-bit indices, the device never reads outside the ring, and the ring stays well formed.
\<close>

theorem avail_ring_fifo:
  assumes "vq_ok q"
  shows "\<exists>q' offered taken. ring_run es q = Ret (q', offered, taken) \<and> vq_ok q' \<and>
           pending q @ offered = taken @ pending q'"
  using assms
proof (induction es q rule: ring_run.induct)
  case (1 q)
  then show ?case by simp
next
  case (2 h es q)
  then obtain v where v: "vq_vring q = Some v"
    by (auto elim: vq_okE)
  show ?case
  proof (cases "unat (avail_idx v - last_avail_idx q) < vr_num v")
    case True
    note step = offer_spec [OF "2.prems" v True, of h]
    show ?thesis
      using "2.IH"(1) [OF True step(1)] v True step(2) by (auto simp: with_ring_def)
  next
    case False
    then show ?thesis
      using "2.IH"(2) [OF False "2.prems"] v by (auto simp: with_ring_def)
  qed
next
  case (3 es q)
  obtain q1 b where a: "virt_queue__available q = (q1, b)"
    by fastforce
  note av = available_spec [OF "3.prems" a]
  show ?case
  proof (cases b)
    case True
    then obtain h hs where p: "pending q1 = h # hs"
      using av by (metis neq_Nil_conv)
    obtain q2 where q2: "virt_queue__pop q1 = Ret (q2, h)" "vq_ok q2" "pending q2 = hs"
      using pop_spec [OF av(1) p] .
    have "pending q = h # pending q2"
      using p av(2) q2(3) by simp
    then show ?thesis
      using "3.IH"(1) [OF a [symmetric] _ q2(2)] True a q2(1) by auto
  next
    case False
    then show ?thesis
      using "3.IH"(2) [OF a [symmetric] _ av(1)] a av by auto
  qed
qed

text \<open>A ring of four entries with its indices at the end of their range.\<close>

definition ring4 :: vring where
  "ring4 = \<lparr>vr_num = 4, vr_desc = replicate 4 \<lparr>d_addr = 0, d_len = 0, d_flags = 0, d_next = 0\<rparr>, avail_flags = 0, avail_idx = 0xFFFF,
     avail_ring = [0, 0, 0, 0], used_event = 0, used_idx = 0xFFFF, used_ring = replicate 4 (0, 0), avail_event = 0\<rparr>"

definition queue4 :: virt_queue where
  "queue4 = virt_queue_zero\<lparr>vq_vring := Some ring4, last_avail_idx := 0xFFFF\<rparr>"

lemma queue4_ok: "vq_ok queue4"
  by (simp add: queue4_def ring4_def vq_ok_def vring_ok_def virt_queue_zero_def)

theorem avail_ring_fifo_witness:
  "\<exists>q' offered taken. ring_run [Offer 7, Offer 9, Serve, Offer 3, Serve, Serve, Serve] queue4 = Ret (q', offered, taken) \<and> vq_ok q' \<and>
     pending queue4 @ offered = taken @ pending q'"
  using avail_ring_fifo [OF queue4_ok] .

section \<open>The used ring\<close>

text \<open>
  The two ways in which devices return buffers: one at a time, and (\<^verbatim>\<open>virtio/net.c\<close>) by filling consecutive
  entries first and publishing them together.
\<close>

fun complete_all :: "virt_queue \<Rightarrow> (u32 \<times> u32) list \<Rightarrow> virt_queue outcome" where
  "complete_all q [] = Ret q"
| "complete_all q ((head, len) # es) = bind_outcome (virt_queue__set_used_elem q head len) (\<lambda>q. complete_all q es)"

fun fill_used :: "virt_queue \<Rightarrow> (u32 \<times> u32) list \<Rightarrow> u16 \<Rightarrow> virt_queue outcome" where
  "fill_used q [] off = Ret q"
| "fill_used q ((head, len) # es) off =
     bind_outcome (virt_queue__set_used_elem_no_update q head len off) (\<lambda>q. fill_used q es (off + 1))"

definition complete_batch :: "virt_queue \<Rightarrow> (u32 \<times> u32) list \<Rightarrow> virt_queue outcome" where
  "complete_batch q es = bind_outcome (fill_used q es 0) (\<lambda>q. virt_queue__used_idx_advance q (of_nat (length es)))"

fun put_from :: "nat \<Rightarrow> (u32 \<times> u32) list \<Rightarrow> u16 \<Rightarrow> (u32 \<times> u32) list \<Rightarrow> (u32 \<times> u32) list" where
  "put_from num ring idx [] = ring"
| "put_from num ring idx (e # es) = put_from num (ring[slot num idx := e]) (idx + 1) es"

lemma length_put_from [simp]: "length (put_from num ring idx es) = length ring"
  by (induction es arbitrary: ring idx) auto

lemma complete_all_spec:
  assumes "vring_ok v"
  shows "complete_all (q\<lparr>vq_vring := Some v\<rparr>) es =
    Ret (q\<lparr>vq_vring := Some (v\<lparr>used_ring := put_from (vr_num v) (used_ring v) (used_idx v) es, used_idx := used_idx v + of_nat (length es)\<rparr>)\<rparr>)"
  using assms
proof (induction es arbitrary: v)
  case Nil
  then show ?case by simp
next
  case (Cons e es)
  let ?v = "v\<lparr>used_ring := (used_ring v)[slot (vr_num v) (used_idx v) := e], used_idx := used_idx v + 1\<rparr>"
  have "virt_queue__set_used_elem (q\<lparr>vq_vring := Some v\<rparr>) (fst e) (snd e) = Ret (q\<lparr>vq_vring := Some ?v\<rparr>)"
    using Cons.prems u16_ring.slot_less [OF vring_ok_ring [OF Cons.prems], of "used_idx v"]
    by (simp add: virt_queue__set_used_elem_def virt_queue__set_used_elem_no_update_def virt_queue__used_idx_advance_def
        with_ring_def slot_def vring_ok_def)
  moreover have "vring_ok ?v"
    using Cons.prems by (simp add: vring_ok_def)
  ultimately show ?case
    using Cons.IH [of ?v] by (cases e) (simp add: algebra_simps)
qed

lemma fill_used_spec:
  assumes "vring_ok v"
  shows "fill_used (q\<lparr>vq_vring := Some v\<rparr>) es off =
    Ret (q\<lparr>vq_vring := Some (v\<lparr>used_ring := put_from (vr_num v) (used_ring v) (used_idx v + off) es\<rparr>)\<rparr>)"
  using assms
proof (induction es arbitrary: v off)
  case Nil
  then show ?case by simp
next
  case (Cons e es)
  let ?v = "v\<lparr>used_ring := (used_ring v)[slot (vr_num v) (used_idx v + off) := e]\<rparr>"
  have "virt_queue__set_used_elem_no_update (q\<lparr>vq_vring := Some v\<rparr>) (fst e) (snd e) off = Ret (q\<lparr>vq_vring := Some ?v\<rparr>)"
    using Cons.prems u16_ring.slot_less [OF vring_ok_ring [OF Cons.prems], of "used_idx v + off"]
    by (simp add: virt_queue__set_used_elem_no_update_def with_ring_def slot_def vring_ok_def)
  moreover have "vring_ok ?v"
    using Cons.prems by (simp add: vring_ok_def)
  ultimately show ?case
    using Cons.IH [of ?v] by (cases e) (simp add: algebra_simps)
qed

lemma put_from_window:
  assumes "u16_ring num" "length ring = num" "unat (y - x) + length es \<le> num"
  shows "window num (put_from num ring y es) x (y + of_nat (length es)) = window num ring x y @ es"
  using assms
proof (induction es arbitrary: ring y)
  case Nil
  then show ?case by simp
next
  case (Cons e es)
  have less: "unat (y - x) < num"
    using Cons.prems by simp
  note snoc = u16_ring.window_snoc [OF Cons.prems(1) less Cons.prems(2), of e]
  have "unat (y + 1 - x) = Suc (unat (y - x))"
    using arg_cong [OF snoc, of length] by (simp add: u16_ring.length_window [OF Cons.prems(1)])
  then show ?case
    using Cons.IH [of "ring[slot num y := e]" "y + 1"] Cons.prems snoc by (simp add: algebra_simps)
qed

text \<open>
  C12: Returning buffers appends them to what the driver has still to read from the used ring (from the index
  \<open>seen\<close> it last read), in order and with their lengths, also across the wrap-around of the index; returning them one at a
  time and filling the entries first and publishing them together have the same effect; nothing else of the queue changes.
\<close>

theorem used_ring_appends:
  assumes "vq_vring q = Some v" "vring_ok v" "unat (used_idx v - seen) + length es \<le> vr_num v"
  shows "\<exists>ring. complete_all q es = Ret (q\<lparr>vq_vring := Some (v\<lparr>used_ring := ring, used_idx := used_idx v + of_nat (length es)\<rparr>)\<rparr>) \<and>
           complete_batch q es = complete_all q es \<and> length ring = vr_num v \<and>
           window (vr_num v) ring seen (used_idx v + of_nat (length es)) = window (vr_num v) (used_ring v) seen (used_idx v) @ es"
proof -
  have q: "q = q\<lparr>vq_vring := Some v\<rparr>"
    using assms(1) by simp
  have ok: "vring_ok (v\<lparr>used_ring := put_from (vr_num v) (used_ring v) (used_idx v) es\<rparr>)" "length (used_ring v) = vr_num v"
    using assms(2) by (simp_all add: vring_ok_def)
  have "complete_batch q es = complete_all q es"
    using fill_used_spec [OF assms(2), of q es 0] complete_all_spec [OF assms(2), of q es] q
    by (simp add: complete_batch_def virt_queue__used_idx_advance_def with_ring_def)
  then show ?thesis
    using complete_all_spec [OF assms(2), of q es] q put_from_window [OF vring_ok_ring [OF assms(2)] ok(2) assms(3)] ok(2)
    by auto
qed

theorem used_ring_appends_witness:
  "\<exists>ring. complete_all queue4 [(7, 512), (9, 0)] =
       Ret (queue4\<lparr>vq_vring := Some (ring4\<lparr>used_ring := ring, used_idx := 0xFFFF + 2\<rparr>)\<rparr>) \<and>
     complete_batch queue4 [(7, 512), (9, 0)] = complete_all queue4 [(7, 512), (9, 0)] \<and> length ring = 4 \<and>
     window 4 ring 0xFFFF (0xFFFF + 2) = [(7, 512), (9, 0)]"
  using used_ring_appends [of queue4 ring4 "0xFFFF" "[(7, 512), (9, 0)]"] queue4_ok
  by (simp add: queue4_def ring4_def vq_ok_def virt_queue_zero_def window_def)

section \<open>Descriptor chains\<close>

text \<open>The indices of a chain in a table with \<open>lim\<close> entries, as the links of the descriptors say.\<close>

fun linked :: "vring_desc list \<Rightarrow> u16 \<Rightarrow> u16 list \<Rightarrow> bool" where
  "linked desc lim [] \<longleftrightarrow> False"
| "linked desc lim [i] \<longleftrightarrow> unat i < length desc \<and> next_desc (desc ! unat i) lim = lim"
| "linked desc lim (i # j # js) \<longleftrightarrow>
     unat i < length desc \<and> next_desc (desc ! unat i) lim = j \<and> j \<noteq> lim \<and> linked desc lim (j # js)"

definition at_desc :: "vring_desc list \<Rightarrow> u16 list \<Rightarrow> vring_desc list" where
  "at_desc desc js = map (\<lambda>i. desc ! unat i) js"

definition dev_writable :: "vring_desc \<Rightarrow> bool" where
  "dev_writable d \<longleftrightarrow> virt_desc__test_flag d VRING_DESC_F_WRITE"

lemma at_desc_simps [simp]:
  "at_desc desc [] = []"
  "at_desc desc (i # js) = desc ! unat i # at_desc desc js"
  by (simp_all add: at_desc_def)

lemma head_iov_loop_linked:
  assumes "linked desc lim (i # js)" "length iov + length (i # js) \<le> cap"
  shows "head_iov_loop cap banks desc lim i iov out in' =
    Ret (iov @ map (desc_iov banks) (at_desc desc (i # js)),
         out + of_nat (length (filter (\<lambda>d. \<not> dev_writable d) (at_desc desc (i # js)))),
         in' + of_nat (length (filter dev_writable (at_desc desc (i # js)))))"
  using assms
proof (induction js arbitrary: i iov out in')
  case Nil
  then show ?case
    by (subst head_iov_loop.simps) (simp add: Let_def flip: dev_writable_def)
next
  case (Cons j js)
  then have "linked desc lim (j # js)" "j \<noteq> lim" "next_desc (desc ! unat i) lim = j" "unat i < length desc"
    by auto
  then show ?case
    using Cons.IH [of j "iov @ [desc_iov banks (desc ! unat i)]"] Cons.prems(2)
    by (subst head_iov_loop.simps) (simp add: Let_def add.assoc flip: dev_writable_def)
qed

lemma head_iov_loop_unlinked:
  assumes "\<And>js. linked desc lim (i # js) \<Longrightarrow> cap < length iov + length (i # js)"
  shows "head_iov_loop cap banks desc lim i iov out in' = Undefined"
  using assms
proof (induction cap banks desc lim i iov out in' rule: head_iov_loop.induct)
  case (1 cap banks desc lim i iov out in')
  show ?case
  proof (cases "cap \<le> length iov \<or> length desc \<le> unat i")
    case True
    then show ?thesis by (simp add: head_iov_loop.simps)
  next
    case False
    let ?j = "next_desc (desc ! unat i) lim"
    have "?j \<noteq> lim"
      using "1.prems" [of "[]"] False by auto
    moreover have "cap < Suc (length iov) + length (?j # js)" if "linked desc lim (?j # js)" for js
      using "1.prems" [of "?j # js"] that False \<open>?j \<noteq> lim\<close> by auto
    ultimately show ?thesis
      using "1.IH" [OF False refl refl refl refl refl] False by (subst head_iov_loop.simps) (simp add: Let_def)
  qed
qed

lemma linked_unique: "linked desc lim (i # js) \<Longrightarrow> linked desc lim (i # ks) \<Longrightarrow> js = ks"
proof (induction js arbitrary: i ks)
  case Nil
  then show ?case by (cases ks) auto
next
  case (Cons j js)
  then show ?case by (cases ks) auto
qed

lemma linked_suffix: "linked desc lim (js @ i # ks) \<Longrightarrow> linked desc lim (i # ks)"
  by (induction js rule: induct_list012) (auto elim: linked.elims)

lemma linked_distinct: "linked desc lim js \<Longrightarrow> distinct js"
proof (rule ccontr)
  assume "linked desc lim js" "\<not> distinct js"
  then obtain xs i ys zs where js: "js = xs @ i # ys @ i # zs"
    using not_distinct_decomp [of js] by auto
  then have "linked desc lim (i # ys @ i # zs)" "linked desc lim (i # zs)"
    using \<open>linked desc lim js\<close> linked_suffix [of desc lim xs i] linked_suffix [of desc lim "xs @ i # ys" i zs] by auto
  then show False
    using linked_unique by fastforce
qed

lemma linked_bound: "linked desc lim js \<Longrightarrow> i \<in> set js \<Longrightarrow> unat i < length desc"
  by (induction desc lim js rule: linked.induct) auto

lemma linked_length:
  assumes "linked desc lim js"
  shows "length js \<le> length desc"
proof -
  have "length js = card (unat ` set js)"
    using linked_distinct [OF assms] by (simp add: card_image inj_on_def word_unat_eq_iff distinct_card)
  also have "\<dots> \<le> card {..<length desc}"
    using linked_bound [OF assms] by (intro card_mono) auto
  finally show ?thesis by simp
qed

text \<open>The table that holds the chain with head \<open>head\<close>, the limit on its indices and the index of its first descriptor.\<close>

definition chain_table :: "kvm_mem_bank list \<Rightarrow> (u64 \<Rightarrow> vring_desc list) \<Rightarrow> vring \<Rightarrow> u16 \<Rightarrow> vring_desc list \<times> u16 \<times> u16" where
  "chain_table banks tables v head =
     (let d = vr_desc v ! unat head
      in if virt_desc__test_flag d VRING_DESC_F_INDIRECT
         then (tables (guest_flat_to_host banks (d_addr d)), ucast (d_len d div 16), 0)
         else (vr_desc v, of_nat (vr_num v), head))"


text \<open>A request of two descriptors, the first read and the second written by the device.\<close>

definition chain_ring :: vring where
  "chain_ring = ring4\<lparr>vr_desc :=
     [\<lparr>d_addr = 0x1000, d_len = 16, d_flags = 1, d_next = 2\<rparr>, \<lparr>d_addr = 0, d_len = 0, d_flags = 0, d_next = 0\<rparr>,
      \<lparr>d_addr = 0x2000, d_len = 512, d_flags = 2, d_next = 0\<rparr>, \<lparr>d_addr = 0, d_len = 0, d_flags = 1, d_next = 3\<rparr>]\<rparr>"

definition one_bank :: "kvm_mem_bank list" where
  "one_bank = [\<lparr>guest_phys_addr = 0, host_addr = 0x70000000, bank_size = 0x10000, bank_type = MEM_RAM\<rparr>]"

lemmas chain_simps = chain_ring_def ring4_def queue4_def virt_queue_zero_def chain_table_def next_desc_def virt_desc__test_flag_def
  VRING_DESC_F_NEXT_def VRING_DESC_F_WRITE_def VRING_DESC_F_INDIRECT_def one_bank_def desc_iov_def dev_writable_def


text \<open>A descriptor that names itself as its successor makes the loop overrun every array.\<close>

lemma cyclic_chain_overruns:
  "virt_queue__get_head_iov cap one_bank (\<lambda>_. []) (queue4\<lparr>vq_vring := Some chain_ring\<rparr>) 3 = Undefined"
proof -
  have "\<not> linked (vr_desc chain_ring) 4 (3 # js)" for js
    by (induction js) (auto simp: chain_simps)
  then have "head_iov_loop cap one_bank (vr_desc chain_ring) 4 3 [] 0 0 = Undefined"
    by (intro head_iov_loop_unlinked) blast
  then show ?thesis
    by (simp add: virt_queue__get_head_iov_def with_ring_def chain_simps)
qed

section \<open>Signalling\<close>

lemma event_window:
  fixes a b :: u16
  shows "a - b - 1 < a \<longleftrightarrow> b < a"
proof (cases "b + 1 = 0")
  case True
  then have "b = - 1"
    by (simp add: eq_neg_iff_add_eq_0)
  then show ?thesis
    using word_n1_ge [of a] by (simp add: not_less)
next
  case False
  then have "unat (b + 1) = Suc (unat b)"
    by (metis add.commute unatSuc)
  then show ?thesis
    using sub_wrap [of a "b + 1"] False by (simp add: diff_diff_eq word_le_nat_alt word_less_nat_alt) linarith
qed

lemma word_offset_less:
  fixes x y n :: u16
  shows "x - y < n \<longleftrightarrow> (\<exists>k < unat n. x = y + of_nat k)"
proof
  assume "x - y < n"
  then show "\<exists>k < unat n. x = y + of_nat k"
    by (intro exI [of _ "unat (x - y)"]) (simp add: word_less_nat_alt)
next
  assume "\<exists>k < unat n. x = y + of_nat k"
  then obtain k where k: "k < unat n" "x = y + of_nat k"
    by blast
  moreover have "unat n < 2 ^ LENGTH(16)"
    by (rule unsigned_less)
  ultimately have "unat (of_nat k :: u16) = k"
    by (simp add: unat_of_nat take_bit_eq_mod)
  then show "x - y < n"
    using k by (simp add: word_less_nat_alt)
qed

text \<open>
  Whether the guest is interrupted. Without event indices, exactly when the driver did not ask to be left alone. With them
  (\<^verbatim>\<open>vring_need_event\<close> being the comparison the virtio specification gives), exactly when the driver's event index is
  among the used entries published since the last interrupt, also across wrap-around; then those entries count as signalled, and
  asking again at once gives no second interrupt.
\<close>

theorem virtio_queue__should_signal_correct:
  assumes "vq_vring q = Some v"
    and need_event: "\<And>event new_idx old. need_event event new_idx old \<longleftrightarrow> new_idx - event - 1 < new_idx - old"
  shows "if use_event_idx q
         then (let s = (\<exists>k < unat (used_idx v - last_used_signalled q). used_event v = last_used_signalled q + of_nat k);
                   q' = (if s then q\<lparr>last_used_signalled := used_idx v\<rparr> else q)
               in virtio_queue__should_signal need_event q = Ret (q', s) \<and>
                  virtio_queue__should_signal need_event q' = Ret (q', False))
         else virtio_queue__should_signal need_event q = Ret (q, avail_flags v AND VRING_AVAIL_F_NO_INTERRUPT = 0)"
proof -
  have "(new_idx - event - 1 < new_idx - old) \<longleftrightarrow> (\<exists>k < unat (new_idx - old). event = old + of_nat k)" for event new_idx old :: u16
    using event_window [of "new_idx - old" "event - old"] word_offset_less [of event old "new_idx - old"] by simp
  then show ?thesis
    using assms by (auto simp: virtio_queue__should_signal_def with_ring_def Let_def)
qed

text \<open>The comparison the specification gives, at a queue whose event index was just passed.\<close>

theorem virtio_queue__should_signal_correct_witness:
  "let v = ring4\<lparr>used_event := 0xFFFF, used_idx := 1\<rparr>;
       q = queue4\<lparr>vq_vring := Some v, use_event_idx := True, last_used_signalled := 0xFFFE\<rparr>;
       need_event = (\<lambda>event new_idx old :: u16. new_idx - event - 1 < new_idx - old)
   in virtio_queue__should_signal need_event q = Ret (q\<lparr>last_used_signalled := 1\<rparr>, True)"
proof -
  let ?v = "ring4\<lparr>used_event := 0xFFFF, used_idx := 1\<rparr>"
  let ?q = "queue4\<lparr>vq_vring := Some ?v, use_event_idx := True, last_used_signalled := 0xFFFE\<rparr>"
  have "\<exists>k < unat (used_idx ?v - last_used_signalled ?q). used_event ?v = last_used_signalled ?q + of_nat k"
    by (intro exI [of _ 1]) simp
  then show ?thesis
    using virtio_queue__should_signal_correct [of ?q ?v "\<lambda>event new_idx old. new_idx - event - 1 < new_idx - old"]
    by (simp add: Let_def)
qed

section \<open>Device status\<close>

text \<open>The notifications a sequence of status writes causes, with whether each resets the device.\<close>

fun status_run :: "u8 list \<Rightarrow> u32 \<Rightarrow> (bool \<times> u32) list" where
  "status_run [] dev = []"
| "status_run (s # ss) dev = (case virtio_notify_status s dev of (dev, reset, ext) \<Rightarrow> (reset, ext) # status_run ss dev)"

definition hints :: "(bool \<times> u32) list \<Rightarrow> bool list" where
  "hints ns = map (\<lambda>(_, ext). ext AND VIRTIO__STATUS_START \<noteq> 0)
     (filter (\<lambda>(_, ext). ext AND (VIRTIO__STATUS_START OR VIRTIO__STATUS_STOP) \<noteq> 0) ns)"

text \<open>Alternation, beginning with \<open>b\<close>.\<close>

fun alternates :: "bool \<Rightarrow> bool list \<Rightarrow> bool" where
  "alternates b [] \<longleftrightarrow> True"
| "alternates b (x # xs) \<longleftrightarrow> x = b \<and> alternates (\<not> b) xs"

definition started :: "u32 \<Rightarrow> bool" where
  "started dev \<longleftrightarrow> dev AND VIRTIO__STATUS_START \<noteq> 0"

lemma status_bits:
  "dev AND VIRTIO__STATUS_START = 0 \<longleftrightarrow> \<not> bit dev 8"
  "dev AND VIRTIO__STATUS_STOP = 0 \<longleftrightarrow> \<not> bit dev 9"
  "bit VIRTIO__STATUS_START n \<longleftrightarrow> n = 8"
  "bit VIRTIO__STATUS_STOP n \<longleftrightarrow> n = 9"
  "\<not> bit VIRTIO_CONFIG_S_MASK 8"
  using and_exp_eq_0_iff_not_bit [of dev 8] and_exp_eq_0_iff_not_bit [of dev 9]
    bit_exp_iff [where 'a = u32, of 8 n] bit_exp_iff [where 'a = u32, of 9 n]
  by (auto simp: VIRTIO__STATUS_START_def VIRTIO__STATUS_STOP_def VIRTIO_CONFIG_S_MASK_def dest: bit_imp_le_length)

lemma virtio_notify_status_step:
  assumes "virtio_notify_status s dev = (dev', reset, ext)"
  shows "bit ext 8 \<longleftrightarrow> bit dev' 8 \<and> \<not> bit dev 8" "bit ext 9 \<longleftrightarrow> bit dev 8 \<and> \<not> bit dev' 8" "reset \<longleftrightarrow> bit ext 9"
proof -
  have "\<not> bit s 8" "\<not> bit s 9"
    by (auto dest: bit_imp_le_length)
  then show "bit ext 8 \<longleftrightarrow> bit dev' 8 \<and> \<not> bit dev 8" "bit ext 9 \<longleftrightarrow> bit dev 8 \<and> \<not> bit dev' 8" "reset \<longleftrightarrow> bit ext 9"
    using assms by (auto simp: virtio_notify_status_def Let_def status_bits bit_simps split: if_splits)
qed

text \<open>
  For every sequence of status writes, the start and stop hints a device is notified of alternate, beginning with a start when
  it is not started; and the device is reset exactly before a notification with a stop hint.
\<close>

theorem virtio_notify_status_alternates:
  "alternates (\<not> started dev) (hints (status_run ss dev)) \<and>
   list_all (\<lambda>(reset, ext). reset \<longleftrightarrow> ext AND VIRTIO__STATUS_STOP \<noteq> 0) (status_run ss dev)"
proof (induction ss arbitrary: dev)
  case Nil
  then show ?case by (simp add: hints_def)
next
  case (Cons s ss)
  obtain dev' reset ext where n: "virtio_notify_status s dev = (dev', reset, ext)"
    by (cases "virtio_notify_status s dev")
  have "ext AND (VIRTIO__STATUS_START OR VIRTIO__STATUS_STOP) = 0 \<longleftrightarrow> \<not> bit ext 8 \<and> \<not> bit ext 9"
    by (simp add: bit.conj_disj_distrib or_eq_0_iff status_bits)
  then show ?case
    using virtio_notify_status_step [OF n] Cons.IH [of dev'] n by (auto simp: hints_def started_def status_bits)
qed

end
