(* ===== verification/VirtioServe.thy ===== *)
theory VirtioServe
  imports Virtqueue
begin

text \<open>
  How a device works through its queue: the effect of taking and returning buffers on what the driver sees, and the loop
  \<^verbatim>\<open>while (virt_queue__available(vq))\<close> with a request function that takes a buffer, handles it and returns it, which the
  console, the random number generator and the balloon share. The locale \<open>buffer_service\<close> is what the loop needs of the handling of one buffer.
\<close>

section \<open>The queue during a request\<close>

text \<open>What the driver has still to read from the used ring, from the index \<open>seen\<close> on, and the room left there.\<close>

definition completions :: "u16 \<Rightarrow> virt_queue \<Rightarrow> (u32 \<times> u32) list" where
  "completions seen q = (case vq_vring q of None \<Rightarrow> [] | Some v \<Rightarrow> window (vr_num v) (used_ring v) seen (used_idx v))"

definition used_room :: "u16 \<Rightarrow> virt_queue \<Rightarrow> bool" where
  "used_room seen q = (case vq_vring q of None \<Rightarrow> False | Some v \<Rightarrow> unat (used_idx v - seen) < vr_num v)"

text \<open>Queues that differ in the used ring and the indices of the device only.\<close>

definition same_offers :: "virt_queue \<Rightarrow> virt_queue \<Rightarrow> bool" where
  "same_offers q q' \<longleftrightarrow> pending q' = pending q \<and> vq_ok q' \<and>
     map_option vr_desc (vq_vring q') = map_option vr_desc (vq_vring q) \<and> map_option vr_num (vq_vring q') = map_option vr_num (vq_vring q)"

lemma set_used_ok:
  assumes "vq_ok q" "used_room seen q"
  shows "\<exists>q'. virt_queue__set_used_elem q head len = Ret q' \<and> same_offers q q' \<and> completions seen q' = completions seen q @ [(head, len)]"
proof -
  obtain v where v: "vq_vring q = Some v" "vring_ok v" "unat (avail_idx v - last_avail_idx q) \<le> vr_num v"
    using assms(1) by (rule vq_okE)
  have q: "q\<lparr>vq_vring := Some v\<rparr> = q"
    using v(1) by simp
  let ?q = "q\<lparr>vq_vring := Some (v\<lparr>used_ring := put_from (vr_num v) (used_ring v) (used_idx v) [(head, len)], used_idx := used_idx v + 1\<rparr>)\<rparr>"
  have "bind_outcome (virt_queue__set_used_elem q head len) Ret = Ret ?q"
    using complete_all_spec [OF v(2), of q "[(head, len)]"] unfolding q by simp
  then have "virt_queue__set_used_elem q head len = Ret ?q"
    by (cases "virt_queue__set_used_elem q head len") auto
  moreover have "same_offers q ?q"
    using v by (simp add: same_offers_def pending_def vq_ok_def vring_ok_def)
  moreover have "completions seen ?q = completions seen q @ [(head, len)]"
    using put_from_window [OF vring_ok_ring [OF v(2)], of "used_ring v" "used_idx v" seen "[(head, len)]"] v assms(2)
    by (simp add: completions_def used_room_def vring_ok_def)
  ultimately show ?thesis
    by blast
qed

lemma should_signal_ok:
  assumes "vq_ok q"
  shows "\<exists>q' s. virtio_queue__should_signal need_event q = Ret (q', s) \<and> same_offers q q' \<and> completions seen q' = completions seen q"
proof -
  obtain v where v: "vq_vring q = Some v" "vring_ok v" "unat (avail_idx v - last_avail_idx q) \<le> vr_num v"
    using assms by (rule vq_okE)
  obtain e s where "virtio_queue__should_signal need_event q = Ret (q\<lparr>last_used_signalled := e\<rparr>, s)"
  proof (cases "use_event_idx q \<and> need_event (used_event v) (used_idx v) (last_used_signalled q)")
    case True
    then show thesis
      using that [of "used_idx v"] v(1) by (simp add: virtio_queue__should_signal_def with_ring_def)
  next
    case False
    then show thesis
      using that [of "last_used_signalled q"] v(1)
      by (cases "use_event_idx q") (simp_all add: virtio_queue__should_signal_def with_ring_def)
  qed
  then show ?thesis
    using v by (auto simp: same_offers_def pending_def vq_ok_def completions_def)
qed

lemma same_offers_trans: "same_offers q q' \<Longrightarrow> same_offers q' q'' \<Longrightarrow> same_offers q q''"
  by (simp add: same_offers_def)

section \<open>The loop\<close>

text \<open>Taking a buffer, handling it, and returning it with the length that the handling gives.\<close>

definition serve_request ::
  "nat \<Rightarrow> kvm_mem_bank list \<Rightarrow> (u64 \<Rightarrow> vring_desc list) \<Rightarrow> (iovec list \<Rightarrow> u16 \<Rightarrow> u16 \<Rightarrow> 's \<Rightarrow> ('s \<times> int) outcome) \<Rightarrow> virt_queue \<Rightarrow> 's \<Rightarrow> (virt_queue \<times> 's) outcome" where
  "serve_request cap banks tables serve q s =
     bind_outcome (virt_queue__get_iov cap banks tables q) (\<lambda>(q, iov, out, in', head).
     bind_outcome (serve iov out in' s) (\<lambda>(s, len).
     bind_outcome (virt_queue__set_used_elem q (ucast head) (word_of_int len)) (\<lambda>q. Ret (q, s))))"

partial_function (option) while_available :: "(virt_queue \<Rightarrow> 's \<Rightarrow> (virt_queue \<times> 's) outcome) \<Rightarrow> virt_queue \<Rightarrow> 's \<Rightarrow> (virt_queue \<times> 's) outcome option" where
  "while_available request q s =
     (case virt_queue__available q of (q, avail) \<Rightarrow>
        if \<not> avail then Some (Ret (q, s))
        else (case request q s of
                Ret (q, s) \<Rightarrow> while_available request q s
              | Dies \<Rightarrow> Some Dies
              | Undefined \<Rightarrow> Some Undefined))"

text \<open>
  Setting up a queue at a page of guest memory. \<open>ring_at\<close> is the ring that \<^verbatim>\<open>vring_init\<close> of the kernel's header lays out at a host address.
\<close>

definition virtio_get_vq :: "kvm_mem_bank list \<Rightarrow> u32 \<Rightarrow> u32 \<Rightarrow> u64" where
  "virtio_get_vq banks pfn page_size = guest_flat_to_host banks (ucast pfn * ucast page_size)"

definition place_ring :: "(u64 \<Rightarrow> nat \<Rightarrow> u32 \<Rightarrow> vring) \<Rightarrow> kvm_mem_bank list \<Rightarrow> nat \<Rightarrow> u32 \<Rightarrow> u32 \<Rightarrow> u32 \<Rightarrow> virt_queue \<Rightarrow> virt_queue" where
  "place_ring ring_at banks n page_size align pfn q = q\<lparr>vq_pfn := pfn, vq_vring := Some (ring_at (virtio_get_vq banks pfn page_size) n align)\<rparr>"

text \<open>The buffer with head \<open>h\<close>, and handling buffers one after the other.\<close>

definition buffer_of :: "nat \<Rightarrow> kvm_mem_bank list \<Rightarrow> (u64 \<Rightarrow> vring_desc list) \<Rightarrow> virt_queue \<Rightarrow> u16 \<Rightarrow> (iovec list \<times> u16 \<times> u16) option" where
  "buffer_of cap banks tables q h =
     (case virt_queue__get_head_iov cap banks tables q h of Ret (iov, out, in', _) \<Rightarrow> Some (iov, out, in') | _ \<Rightarrow> None)"

fun serve_all :: "(iovec list \<Rightarrow> u16 \<Rightarrow> u16 \<Rightarrow> 's \<Rightarrow> ('s \<times> int) outcome) \<Rightarrow> (iovec list \<times> u16 \<times> u16) list \<Rightarrow> 's \<Rightarrow> ('s \<times> int list) outcome" where
  "serve_all serve [] s = Ret (s, [])"
| "serve_all serve ((iov, out, in') # bufs) s =
     bind_outcome (serve iov out in' s) (\<lambda>(s, len). bind_outcome (serve_all serve bufs s) (\<lambda>(s, lens). Ret (s, len # lens)))"

text \<open>What stays the same of a queue while the device works through it.\<close>

definition same_buffers :: "virt_queue \<Rightarrow> virt_queue \<Rightarrow> bool" where
  "same_buffers q q' \<longleftrightarrow> map_option vr_desc (vq_vring q') = map_option vr_desc (vq_vring q) \<and> map_option vr_num (vq_vring q') = map_option vr_num (vq_vring q)"

lemma buffer_of_cong: "same_buffers q q' \<Longrightarrow> buffer_of cap banks tables q' = buffer_of cap banks tables q"
  by (cases "vq_vring q"; cases "vq_vring q'") (auto simp: same_buffers_def buffer_of_def virt_queue__get_head_iov_def with_ring_def Let_def intro!: ext cong: if_cong)

lemma same_buffers_trans: "same_buffers q q' \<Longrightarrow> same_buffers q' q'' \<Longrightarrow> same_buffers q q''"
  by (simp add: same_buffers_def)

lemma same_offers_buffers: "same_offers q q' \<Longrightarrow> same_buffers q q'"
  by (simp add: same_offers_def same_buffers_def)

lemma available_frame:
  assumes "virt_queue__available q = (q', b)"
  shows "same_buffers q q'" "completions seen q' = completions seen q"
  using assms by (auto simp: virt_queue__available_def same_buffers_def completions_def Let_def split: option.splits if_splits)

lemma pop_buffers:
  assumes "virt_queue__pop q = Ret (q', h)"
  shows "same_buffers q q'" "completions seen q' = completions seen q"
  using assms by (auto simp: virt_queue__pop_def with_ring_def Let_def same_buffers_def completions_def split: option.splits if_splits)

definition used_space :: "u16 \<Rightarrow> virt_queue \<Rightarrow> nat \<Rightarrow> bool" where
  "used_space seen q n \<longleftrightarrow> (case vq_vring q of None \<Rightarrow> False | Some v \<Rightarrow> length (completions seen q) + n \<le> vr_num v)"

lemma used_space_room: "used_space seen q (Suc n) \<Longrightarrow> used_room seen q"
  by (auto simp: used_space_def used_room_def completions_def window_def split: option.splits)

lemma used_space_step:
  "used_space seen q (Suc n) \<Longrightarrow> same_buffers q q' \<Longrightarrow> completions seen q' = completions seen q @ [e] \<Longrightarrow> used_space seen q' n"
  by (auto simp: used_space_def same_buffers_def split: option.splits)

lemma used_space_same:
  "used_space seen q n \<Longrightarrow> same_buffers q q' \<Longrightarrow> completions seen q' = completions seen q \<Longrightarrow> used_space seen q' n"
  by (auto simp: used_space_def same_buffers_def split: option.splits)

locale buffer_service =
  fixes cap :: nat
    and banks :: "kvm_mem_bank list"
    and tables :: "u64 \<Rightarrow> vring_desc list"
    and serve :: "iovec list \<Rightarrow> u16 \<Rightarrow> u16 \<Rightarrow> 's \<Rightarrow> ('s \<times> int) outcome"
    and inv :: "'s \<Rightarrow> bool"
    and good :: "iovec list \<times> u16 \<times> u16 \<Rightarrow> bool"
  assumes serve_ok: "inv s \<Longrightarrow> good (iov, out, in') \<Longrightarrow> \<exists>s' len. serve iov out in' s = Ret (s', len) \<and> inv s'"
begin

abbreviation request :: "virt_queue \<Rightarrow> 's \<Rightarrow> (virt_queue \<times> 's) outcome" where
  "request \<equiv> serve_request cap banks tables serve"

lemma request_step:
  assumes "vq_ok q" "pending q = h # hs" "buffer_of cap banks tables q h = Some (iov, out, in')" "good (iov, out, in')" "inv s" "used_room seen q"
  obtains q' s' len where "request q s = Ret (q', s')" "serve iov out in' s = Ret (s', len)" "inv s'" "vq_ok q'" "pending q' = hs"
    "same_buffers q q'" "completions seen q' = completions seen q @ [(ucast h, word_of_int len)]"
proof -
  obtain q1 where q1: "virt_queue__pop q = Ret (q1, h)" "vq_ok q1" "pending q1 = hs"
    using assms(1,2) by (rule pop_spec)
  note f1 = pop_buffers [OF q1(1)]
  obtain s' len where s': "serve iov out in' s = Ret (s', len)" "inv s'"
    using serve_ok [OF assms(5,4)] by blast
  have "used_room seen q1"
    using assms(6) q1(1) by (auto simp: used_room_def virt_queue__pop_def with_ring_def Let_def split: option.splits if_splits)
  from set_used_ok [OF q1(2) this, of "ucast h" "word_of_int len"] obtain q2 where
    q2: "virt_queue__set_used_elem q1 (ucast h) (word_of_int len) = Ret q2" "same_offers q1 q2" "completions seen q2 = completions seen q1 @ [(ucast h, word_of_int len)]"
    by blast
  have "buffer_of cap banks tables q1 h = Some (iov, out, in')"
    using assms(3) buffer_of_cong [OF f1(1), of cap banks tables] by simp
  then have head: "virt_queue__get_head_iov cap banks tables q1 h = Ret (iov, out, in', h)"
    by (auto simp: buffer_of_def virt_queue__get_head_iov_def with_ring_def bind_outcome_Ret Let_def split: outcome.splits option.splits if_splits)
  show thesis
  proof (rule that [OF _ s'])
    show "request q s = Ret (q2, s')"
      by (simp add: serve_request_def virt_queue__get_iov_def q1(1) head s' q2(1))
    show "vq_ok q2" "pending q2 = hs"
      using q2(2) q1(3) by (simp_all add: same_offers_def)
    show "same_buffers q q2"
      using f1(1) same_offers_buffers [OF q2(2)] by (rule same_buffers_trans)
    show "completions seen q2 = completions seen q @ [(ucast h, word_of_int len)]"
      using f1(2) q2(3) by simp
  qed
qed

text \<open>The loop ends with every pending buffer handled once, in order, and returned in that order.\<close>

lemma drains:
  assumes "vq_ok q" "inv s" "map (buffer_of cap banks tables q) (pending q) = map Some bufs" "list_all good bufs" "used_space seen q (length bufs)"
  shows "\<exists>q' s' lens. while_available request q s = Some (Ret (q', s')) \<and> serve_all serve bufs s = Ret (s', lens) \<and> inv s' \<and>
    vq_ok q' \<and> pending q' = [] \<and> completions seen q' = completions seen q @ zip (map ucast (pending q)) (map word_of_int lens) \<and> length lens = length bufs"
  using assms
proof (induction bufs arbitrary: q s)
  case Nil
  obtain q' b where q': "virt_queue__available q = (q', b)"
    by fastforce
  with available_spec [OF Nil.prems(1) q'] available_frame(2) [OF q', of seen] Nil.prems show ?case
    by (subst while_available.simps) auto
next
  case (Cons buf bufs)
  obtain q1 b where q1: "virt_queue__available q = (q1, b)"
    by fastforce
  note sp = available_spec [OF Cons.prems(1) q1] and fr = available_frame [OF q1]
  obtain h hs where p: "pending q = h # hs"
    using Cons.prems(3) by (cases "pending q") auto
  obtain iov out in' where buf: "buf = (iov, out, in')"
    by (cases buf)
  have bo: "buffer_of cap banks tables q1 = buffer_of cap banks tables q"
    using buffer_of_cong [OF fr(1)] .
  have space: "used_space seen q1 (Suc (length bufs))"
    using Cons.prems(5) used_space_same [OF _ fr(1) fr(2)] by simp
  obtain q2 s2 len where q2: "request q1 s = Ret (q2, s2)" "serve iov out in' s = Ret (s2, len)" "inv s2" "vq_ok q2" "pending q2 = hs"
    "same_buffers q1 q2" "completions seen q2 = completions seen q1 @ [(ucast h, word_of_int len)]"
    using request_step [OF sp(1), of h hs iov out in' s seen] sp(2) p bo Cons.prems(2,3,4) buf used_space_room [OF space] by auto
  have "map (buffer_of cap banks tables q2) (pending q2) = map Some bufs"
    using Cons.prems(3) p q2(5) bo buffer_of_cong [OF q2(6)] by simp
  then obtain q' s' lens where r: "while_available request q2 s2 = Some (Ret (q', s'))" "serve_all serve bufs s2 = Ret (s', lens)" "inv s'"
    "vq_ok q'" "pending q' = []" "completions seen q' = completions seen q2 @ zip (map ucast (pending q2)) (map word_of_int lens)" "length lens = length bufs"
    using Cons.IH [OF q2(4,3) _ _ used_space_step [OF space q2(6,7)]] Cons.prems(4) by auto
  moreover have "while_available request q s = Some (Ret (q', s'))"
    by (subst while_available.simps) (simp add: q1 sp(3) p q2(1) r(1))
  ultimately show ?case
    using q2(2,5,7) fr(2) p buf by auto
qed

end

section \<open>A queue with two buffers\<close>

definition two_queue :: "u16 \<Rightarrow> virt_queue" where
  "two_queue flags = queue4\<lparr>vq_vring := Some (ring4\<lparr>vr_desc := [\<lparr>d_addr = 0x1000, d_len = 4, d_flags = flags, d_next = 0\<rparr>,
      \<lparr>d_addr = 0x2000, d_len = 8, d_flags = flags, d_next = 0\<rparr>, \<lparr>d_addr = 0, d_len = 0, d_flags = 0, d_next = 0\<rparr>, \<lparr>d_addr = 0, d_len = 0, d_flags = 0, d_next = 0\<rparr>],
      avail_idx := 1, avail_ring := [1, 0, 0, 0], used_idx := 0\<rparr>), last_avail_idx := 0xFFFF\<rparr>"

lemma two_queue_ok: "vq_ok (two_queue flags)" "pending (two_queue flags) = [0, 1]" "used_space 0 (two_queue flags) 2" "completions 0 (two_queue flags) = []"
  by (simp_all add: two_queue_def queue4_def ring4_def vq_ok_def vring_ok_def virt_queue_zero_def pending_def window_def slot_def used_space_def completions_def
    upt_conv_Cons)

lemma two_queue_buffers:
  "map (buffer_of 128 one_bank (\<lambda>_. []) (two_queue 2)) [0, 1] =
     map Some [([\<lparr>iov_base = 0x70001000, iov_len = 4\<rparr>], 0, 1), ([\<lparr>iov_base = 0x70002000, iov_len = 8\<rparr>], 0, 1)]"
  "map (buffer_of 128 one_bank (\<lambda>_. []) (two_queue 0)) [0, 1] =
     map Some [([\<lparr>iov_base = 0x70001000, iov_len = 4\<rparr>], 1, 0), ([\<lparr>iov_base = 0x70002000, iov_len = 8\<rparr>], 1, 0)]"
  by (simp_all add: two_queue_def buffer_of_def virt_queue__get_head_iov_def with_ring_def head_iov_loop.simps Let_def chain_simps)

end
