(* ===== verification/ReadWrite.thy ===== *)
theory ReadWrite
  imports Iovec
begin

text \<open>
  \<^verbatim>\<open>util/read-write.c\<close>: reading and writing a whole buffer or vector of buffers with system calls that may be
  interrupted or transfer less than was asked for.

  What the kernel does at each call is given by a schedule: \<open>Part n\<close> is a call that transfers at most \<open>n\<close> bytes
  (a read that is not at the end of the file transfers at least one), \<open>Fail e\<close> a call that fails with error number \<open>e\<close>; after the schedule
  every call transfers what it can. Sizes and offsets are below \<open>2^63\<close>. A negative return value is -1, and \<^verbatim>\<open>errno\<close> is not modelled.
\<close>

section \<open>System calls\<close>

datatype sysret = Part nat | Fail int

record rwfile =
  rw_bytes :: "u8 list"
  rw_pos :: nat
  rw_sched :: "sysret list"

abbreviation (input) EINTR :: int where "EINTR \<equiv> 4"
abbreviation (input) EAGAIN :: int where "EAGAIN \<equiv> 11"

definition splice_at :: "u8 list \<Rightarrow> nat \<Rightarrow> u8 list \<Rightarrow> u8 list" where
  "splice_at bs off buf =
     (if buf = [] then bs
      else let bs = bs @ replicate (off - length bs) 0 in take off bs @ buf @ drop (off + length buf) bs)"

text \<open>What a decision of the kernel allows a read or a write of \<open>n\<close> bytes to transfer; \<open>None\<close> is a failure.\<close>

definition rd_limit :: "sysret option \<Rightarrow> nat \<Rightarrow> nat option" where
  "rd_limit d n = (case d of None \<Rightarrow> Some n | Some (Part k) \<Rightarrow> Some (min n (max 1 k)) | Some (Fail _) \<Rightarrow> None)"

definition wr_limit :: "sysret option \<Rightarrow> nat \<Rightarrow> nat option" where
  "wr_limit d n = (case d of None \<Rightarrow> Some n | Some (Part k) \<Rightarrow> Some (min n k) | Some (Fail _) \<Rightarrow> None)"

text \<open>The \<^verbatim>\<open>restart\<close> loops: the first call that does not fail with EAGAIN or EINTR.\<close>

fun restart :: "sysret list \<Rightarrow> sysret option \<times> sysret list" where
  "restart [] = (None, [])"
| "restart (Part n # s) = (Some (Part n), s)"
| "restart (Fail e # s) = (if e = EAGAIN \<or> e = EINTR then restart s else (Some (Fail e), s))"

definition xread :: "nat \<Rightarrow> rwfile \<Rightarrow> rwfile \<times> u8 list option" where
  "xread count f =
     (case restart (rw_sched f) of (d, s) \<Rightarrow>
        let f = f\<lparr>rw_sched := s\<rparr>
        in case rd_limit d count of
             None \<Rightarrow> (f, None)
           | Some n \<Rightarrow> let bs = take n (drop (rw_pos f) (rw_bytes f)) in (f\<lparr>rw_pos := rw_pos f + length bs\<rparr>, Some bs))"

definition xwrite :: "u8 list \<Rightarrow> rwfile \<Rightarrow> rwfile \<times> nat option" where
  "xwrite buf f =
     (case restart (rw_sched f) of (d, s) \<Rightarrow>
        let f = f\<lparr>rw_sched := s\<rparr>
        in case wr_limit d (length buf) of
             None \<Rightarrow> (f, None)
           | Some n \<Rightarrow> (f\<lparr>rw_bytes := splice_at (rw_bytes f) (rw_pos f) (take n buf), rw_pos := rw_pos f + n\<rparr>, Some n))"

definition xpread :: "nat \<Rightarrow> nat \<Rightarrow> rwfile \<Rightarrow> rwfile \<times> u8 list option" where
  "xpread count off f =
     (case restart (rw_sched f) of (d, s) \<Rightarrow>
        let f = f\<lparr>rw_sched := s\<rparr>
        in (f, map_option (\<lambda>n. take n (drop off (rw_bytes f))) (rd_limit d count)))"

definition xpwrite :: "u8 list \<Rightarrow> nat \<Rightarrow> rwfile \<Rightarrow> rwfile \<times> nat option" where
  "xpwrite buf off f =
     (case restart (rw_sched f) of (d, s) \<Rightarrow>
        let f = f\<lparr>rw_sched := s\<rparr>
        in case wr_limit d (length buf) of
             None \<Rightarrow> (f, None)
           | Some n \<Rightarrow> (f\<lparr>rw_bytes := splice_at (rw_bytes f) off (take n buf)\<rparr>, Some n))"

section \<open>Whole buffers\<close>

text \<open>\<open>acc\<close> is what has been stored in the buffer. The results are the file, the contents of the buffer and the return value.\<close>

function read_loop :: "nat \<Rightarrow> u8 list \<Rightarrow> rwfile \<Rightarrow> rwfile \<times> u8 list \<times> int" where
  "read_loop count acc f =
     (if count = 0 then (f, acc, int (length acc))
      else case xread count f of
        (f, Some (b # bs)) \<Rightarrow> read_loop (count - length (b # bs)) (acc @ b # bs) f
      | (f, _) \<Rightarrow> (f, acc, if acc \<noteq> [] then int (length acc) else -1))"
  by pat_completeness auto
termination by (relation "measure fst") auto

definition read_in_full :: "nat \<Rightarrow> rwfile \<Rightarrow> rwfile \<times> u8 list \<times> int" where
  "read_in_full count f = read_loop count [] f"

definition read_file :: "nat \<Rightarrow> rwfile \<Rightarrow> rwfile \<times> u8 list \<times> int" where
  "read_file max_size f =
     (case read_in_full max_size f of (f, buf, ret) \<Rightarrow>
        case xread 1 f of (f, r) \<Rightarrow> (f, buf, if r = Some [] then ret else -1))"

function write_loop :: "u8 list \<Rightarrow> nat \<Rightarrow> rwfile \<Rightarrow> rwfile \<times> int" where
  "write_loop buf tot f =
     (if buf = [] then (f, int tot)
      else case xwrite buf f of
        (f, Some (Suc n)) \<Rightarrow> write_loop (drop (Suc n) buf) (tot + Suc n) f
      | (f, _) \<Rightarrow> (f, -1))"
  by pat_completeness auto
termination by (relation "measure (\<lambda>(buf, _, _). length buf)") auto

definition write_in_full :: "u8 list \<Rightarrow> rwfile \<Rightarrow> rwfile \<times> int" where
  "write_in_full buf f = write_loop buf 0 f"

function pread_loop :: "nat \<Rightarrow> nat \<Rightarrow> u8 list \<Rightarrow> rwfile \<Rightarrow> rwfile \<times> u8 list \<times> int" where
  "pread_loop count off acc f =
     (if count = 0 then (f, acc, int (length acc))
      else case xpread count off f of
        (f, Some (b # bs)) \<Rightarrow> pread_loop (count - length (b # bs)) (off + length (b # bs)) (acc @ b # bs) f
      | (f, _) \<Rightarrow> (f, acc, if acc \<noteq> [] then int (length acc) else -1))"
  by pat_completeness auto
termination by (relation "measure fst") auto

definition pread_in_full_sys :: "nat \<Rightarrow> nat \<Rightarrow> rwfile \<Rightarrow> rwfile \<times> u8 list \<times> int" where
  "pread_in_full_sys count off f = pread_loop count off [] f"

function pwrite_loop :: "u8 list \<Rightarrow> nat \<Rightarrow> nat \<Rightarrow> rwfile \<Rightarrow> rwfile \<times> int" where
  "pwrite_loop buf off tot f =
     (if buf = [] then (f, int tot)
      else case xpwrite buf off f of
        (f, Some (Suc n)) \<Rightarrow> pwrite_loop (drop (Suc n) buf) (off + Suc n) (tot + Suc n) f
      | (f, _) \<Rightarrow> (f, -1))"
  by pat_completeness auto
termination by (relation "measure (\<lambda>(buf, _, _, _). length buf)") auto

definition pwrite_in_full_sys :: "u8 list \<Rightarrow> nat \<Rightarrow> rwfile \<Rightarrow> rwfile \<times> int" where
  "pwrite_in_full_sys buf off f = pwrite_loop buf off 0 f"

declare read_loop.simps [simp del] write_loop.simps [simp del] pread_loop.simps [simp del] pwrite_loop.simps [simp del]

section \<open>Vectors\<close>

text \<open>
  The vector is what the caller's array holds from \<^verbatim>\<open>iov\<close> on, which may be more than \<open>iovcnt\<close> entries: \<^verbatim>\<open>shift_iovec\<close> looks
  at the entry behind the last one. Behind the end of the array it is \<open>Undefined\<close>. A vector with an address that is not
  mapped makes the call fail (EFAULT).
\<close>

definition xpreadv :: "iovec list \<Rightarrow> nat \<Rightarrow> rwfile \<Rightarrow> hmem \<Rightarrow> rwfile \<times> hmem \<times> nat option" where
  "xpreadv iov off f m =
     (case restart (rw_sched f) of (d, s) \<Rightarrow>
        let f = f\<lparr>rw_sched := s\<rparr>; as = iov_span iov
        in case rd_limit d (length as) of
             None \<Rightarrow> (f, m, None)
           | Some n \<Rightarrow>
               let bs = take n (drop off (rw_bytes f))
               in if mapped m as then (f, put_bytes as bs m, Some (length bs)) else (f, m, None))"

definition xpwritev :: "iovec list \<Rightarrow> nat \<Rightarrow> hmem \<Rightarrow> rwfile \<Rightarrow> rwfile \<times> nat option" where
  "xpwritev iov off m f =
     (case restart (rw_sched f) of (d, s) \<Rightarrow>
        let f = f\<lparr>rw_sched := s\<rparr>; as = iov_span iov
        in case wr_limit d (length as) of
             None \<Rightarrow> (f, None)
           | Some n \<Rightarrow>
               if mapped m as then (f\<lparr>rw_bytes := splice_at (rw_bytes f) off (take n (get_bytes as m))\<rparr>, Some n) else (f, None))"

text \<open>The stream variants do the same at the position of the file, and move it.\<close>

definition xreadv :: "iovec list \<Rightarrow> rwfile \<Rightarrow> hmem \<Rightarrow> rwfile \<times> hmem \<times> nat option" where
  "xreadv iov f m =
     (case xpreadv iov (rw_pos f) f m of (f, m, r) \<Rightarrow> (f\<lparr>rw_pos := rw_pos f + (case r of None \<Rightarrow> 0 | Some n \<Rightarrow> n)\<rparr>, m, r))"

definition xwritev :: "iovec list \<Rightarrow> hmem \<Rightarrow> rwfile \<Rightarrow> rwfile \<times> nat option" where
  "xwritev iov m f =
     (case xpwritev iov (rw_pos f) m f of (f, r) \<Rightarrow> (f\<lparr>rw_pos := rw_pos f + (case r of None \<Rightarrow> 0 | Some n \<Rightarrow> n)\<rparr>, r))"

definition get_iov_size :: "iovec list \<Rightarrow> nat \<Rightarrow> nat" where
  "get_iov_size iov iovcnt = sum_list (map (\<lambda>v. unat (iov_len v)) (take iovcnt iov))"

fun shift_iovec :: "iovec list \<Rightarrow> int \<Rightarrow> nat \<Rightarrow> nat \<Rightarrow> int \<Rightarrow> nat \<Rightarrow> (iovec list \<times> int \<times> nat \<times> int \<times> nat) outcome" where
  "shift_iovec [] iovcnt nr tot count off = Undefined"
| "shift_iovec (v # iov) iovcnt nr tot count off =
     (let l = unat (iov_len v)
      in if l \<le> nr then shift_iovec iov (iovcnt - 1) (nr - l) (tot + l) (count - int l) (off + l)
         else Ret (v # iov, iovcnt, tot, count, off))"

partial_function (option) preadv_loop ::
  "iovec list \<Rightarrow> int \<Rightarrow> nat \<Rightarrow> int \<Rightarrow> nat \<Rightarrow> rwfile \<Rightarrow> hmem \<Rightarrow> (rwfile \<times> hmem \<times> int) outcome option" where
  "preadv_loop iov iovcnt tot count off f m =
     (if count = 0 then Some (Ret (f, m, int tot))
      else case xpreadv (take (nat iovcnt) iov) off f m of (f, m, r) \<Rightarrow>
        if r = None \<or> r = Some 0 then Some (Ret (f, m, if 0 < tot then int tot else -1))
        else case shift_iovec iov iovcnt (the r) tot count off of
               Ret (iov, iovcnt, tot, count, off) \<Rightarrow> preadv_loop iov iovcnt tot count off f m
             | _ \<Rightarrow> Some Undefined)"

definition preadv_in_full :: "iovec list \<Rightarrow> nat \<Rightarrow> nat \<Rightarrow> rwfile \<Rightarrow> hmem \<Rightarrow> (rwfile \<times> hmem \<times> int) outcome option" where
  "preadv_in_full iov iovcnt off f m = preadv_loop iov (int iovcnt) 0 (int (get_iov_size iov iovcnt)) off f m"

partial_function (option) pwritev_loop ::
  "iovec list \<Rightarrow> int \<Rightarrow> nat \<Rightarrow> int \<Rightarrow> nat \<Rightarrow> hmem \<Rightarrow> rwfile \<Rightarrow> (rwfile \<times> int) outcome option" where
  "pwritev_loop iov iovcnt tot count off m f =
     (if count = 0 then Some (Ret (f, int tot))
      else case xpwritev (take (nat iovcnt) iov) off m f of (f, r) \<Rightarrow>
        if r = None \<or> r = Some 0 then Some (Ret (f, -1))
        else case shift_iovec iov iovcnt (the r) tot count off of
               Ret (iov, iovcnt, tot, count, off) \<Rightarrow> pwritev_loop iov iovcnt tot count off m f
             | _ \<Rightarrow> Some Undefined)"

definition pwritev_in_full :: "iovec list \<Rightarrow> nat \<Rightarrow> nat \<Rightarrow> hmem \<Rightarrow> rwfile \<Rightarrow> (rwfile \<times> int) outcome option" where
  "pwritev_in_full iov iovcnt off m f = pwritev_loop iov (int iovcnt) 0 (int (get_iov_size iov iovcnt)) off m f"

partial_function (option) readv_loop ::
  "iovec list \<Rightarrow> int \<Rightarrow> nat \<Rightarrow> int \<Rightarrow> rwfile \<Rightarrow> hmem \<Rightarrow> (rwfile \<times> hmem \<times> int) outcome option" where
  "readv_loop iov iovcnt tot count f m =
     (if count = 0 then Some (Ret (f, m, int tot))
      else case xreadv (take (nat iovcnt) iov) f m of (f, m, r) \<Rightarrow>
        if r = None \<or> r = Some 0 then Some (Ret (f, m, if 0 < tot then int tot else -1))
        else case shift_iovec iov iovcnt (the r) tot count 0 of
               Ret (iov, iovcnt, tot, count, _) \<Rightarrow> readv_loop iov iovcnt tot count f m
             | _ \<Rightarrow> Some Undefined)"

definition readv_in_full :: "iovec list \<Rightarrow> nat \<Rightarrow> rwfile \<Rightarrow> hmem \<Rightarrow> (rwfile \<times> hmem \<times> int) outcome option" where
  "readv_in_full iov iovcnt f m = readv_loop iov (int iovcnt) 0 (int (get_iov_size iov iovcnt)) f m"

partial_function (option) writev_loop ::
  "iovec list \<Rightarrow> int \<Rightarrow> nat \<Rightarrow> int \<Rightarrow> hmem \<Rightarrow> rwfile \<Rightarrow> (rwfile \<times> int) outcome option" where
  "writev_loop iov iovcnt tot count m f =
     (if count = 0 then Some (Ret (f, int tot))
      else case xwritev (take (nat iovcnt) iov) m f of (f, r) \<Rightarrow>
        if r = None \<or> r = Some 0 then Some (Ret (f, -1))
        else case shift_iovec iov iovcnt (the r) tot count 0 of
               Ret (iov, iovcnt, tot, count, _) \<Rightarrow> writev_loop iov iovcnt tot count m f
             | _ \<Rightarrow> Some Undefined)"

definition writev_in_full :: "iovec list \<Rightarrow> nat \<Rightarrow> hmem \<Rightarrow> rwfile \<Rightarrow> (rwfile \<times> int) outcome option" where
  "writev_in_full iov iovcnt m f = writev_loop iov (int iovcnt) 0 (int (get_iov_size iov iovcnt)) m f"

section \<open>Schedules\<close>

text \<open>A schedule without errors other than interruptions, and in which every write transfers something.\<close>

definition no_fail :: "sysret list \<Rightarrow> bool" where
  "no_fail s \<longleftrightarrow> list_all (\<lambda>d. case d of Fail e \<Rightarrow> e = EAGAIN \<or> e = EINTR | Part n \<Rightarrow> 0 < n) s"

lemma restart_no_fail:
  assumes "no_fail s" "restart s = (d, s')"
  shows "no_fail s'" "d = None \<and> s' = [] \<or> (\<exists>n > 0. d = Some (Part n)) \<and> length s' < length s"
  using assms by (induction s rule: restart.induct) (auto simp: no_fail_def split: if_splits)

lemma restart_shorter: "restart s = (d, s') \<Longrightarrow> length s' \<le> length s"
  by (induction s rule: restart.induct) (auto split: if_splits)

lemma limits_no_fail:
  assumes "no_fail s" "restart s = (d, s')" "0 < n"
  obtains k where "rd_limit d n = Some k" "wr_limit d n = Some k" "0 < k" "k \<le> n" "k = n \<or> length s' < length s"
  using restart_no_fail [OF assms(1,2)] assms(3)
  by (fastforce simp: rd_limit_def wr_limit_def max_def)

section \<open>Whole buffers\<close>

text \<open>The bytes of the file are read from \<open>off\<close> on, up to the first failure; all of them without failures.\<close>

lemma pread_loop_spec:
  assumes "pread_loop count off acc f = (f', buf, ret)"
  shows "rw_bytes f' = rw_bytes f \<and>
    (\<exists>n. buf = acc @ take n (drop off (rw_bytes f)) \<and> n \<le> count \<and>
       ret = (if count = 0 \<or> buf \<noteq> [] then int (length buf) else -1) \<and> (no_fail (rw_sched f) \<longrightarrow> n = count))"
  using assms
proof (induction count off acc f rule: pread_loop.induct)
  case (1 count off acc f)
  show ?case
  proof (cases "count = 0")
    case True
    then show ?thesis
      using "1.prems" by (subst (asm) pread_loop.simps) auto
  next
    case False
    obtain d s where r: "restart (rw_sched f) = (d, s)"
      by fastforce
    let ?f = "f\<lparr>rw_sched := s\<rparr>"
    have x: "xpread count off f = (?f, map_option (\<lambda>n. take n (drop off (rw_bytes f))) (rd_limit d count))"
      by (simp add: xpread_def r)
    show ?thesis
    proof (cases "map_option (\<lambda>n. take n (drop off (rw_bytes f))) (rd_limit d count)")
      case None
      then have "\<not> no_fail (rw_sched f)"
        using limits_no_fail [OF _ r, of count] False by fastforce
      moreover have "f' = ?f" "buf = acc" "ret = (if acc \<noteq> [] then int (length acc) else -1)"
        using "1.prems" False x None by (auto simp: pread_loop.simps [of count])
      ultimately show ?thesis
        using False by (intro conjI exI [of _ 0]) auto
    next
      case (Some bs)
      then obtain k where k: "rd_limit d count = Some k" "bs = take k (drop off (rw_bytes f))"
        by auto
      then have kc: "k \<le> count" "0 < k"
        using False by (auto simp: rd_limit_def split: option.splits sysret.splits)
      show ?thesis
      proof (cases bs)
        case Nil
        then have "take count (drop off (rw_bytes f)) = []"
          using k kc by auto
        moreover have "f' = ?f" "buf = acc" "ret = (if acc \<noteq> [] then int (length acc) else -1)"
          using "1.prems" False x Some Nil by (auto simp: pread_loop.simps [of count])
        ultimately show ?thesis
          using False by (intro conjI exI [of _ count]) auto
      next
        case (Cons b bs')
        have rec: "pread_loop (count - length bs) (off + length bs) (acc @ bs) ?f = (f', buf, ret)"
          using "1.prems" False x Some Cons by (subst (asm) pread_loop.simps) auto
        have nf: "no_fail (rw_sched f) \<Longrightarrow> no_fail s"
          using restart_no_fail(1) [OF _ r] by blast
        from "1.IH" [OF False x [symmetric] Some] rec Cons obtain n where
          n: "rw_bytes f' = rw_bytes f" "buf = acc @ bs @ take n (drop (off + length bs) (rw_bytes f))" "n \<le> count - length bs"
          "ret = (if count - length bs = 0 \<or> buf \<noteq> [] then int (length buf) else -1)" "no_fail s \<longrightarrow> n = count - length bs"
          by auto
        have len: "length bs \<le> count" "bs = take (length bs) (drop off (rw_bytes f))"
          using k kc by (auto simp: min_def)
        then have "buf = acc @ take (length bs + n) (drop off (rw_bytes f))"
          using n(2) by (metis add.commute drop_drop take_add)
        moreover have "ret = (if count = 0 \<or> buf \<noteq> [] then int (length buf) else -1)"
          using n(2,4) Cons by simp
        moreover have "length bs + n \<le> count" "no_fail (rw_sched f) \<longrightarrow> length bs + n = count"
          using n(3,5) len(1) nf by auto
        ultimately show ?thesis
          using n(1) by blast
      qed
    qed
  qed
qed

lemma splice_Nil [simp]: "splice_at bs off [] = bs"
  by (simp add: splice_at_def)

lemma splice_append: "splice_at (splice_at bs off xs) (off + length xs) ys = splice_at bs off (xs @ ys)"
proof -
  have "min (length bs) off + (off - length bs) = off"
    by simp
  then show ?thesis
    by (auto simp: splice_at_def Let_def ac_simps)
qed

lemma length_splice_ge: "length bs \<le> length (splice_at bs off xs)"
  by (auto simp: splice_at_def Let_def)

lemma pwrite_loop_spec:
  assumes "pwrite_loop buf off tot f = (f', ret)"
  shows "\<exists>n \<le> length buf. rw_bytes f' = splice_at (rw_bytes f) off (take n buf) \<and>
    ret = (if n = length buf then int (tot + length buf) else -1) \<and> (no_fail (rw_sched f) \<longrightarrow> n = length buf)"
  using assms
proof (induction buf off tot f rule: pwrite_loop.induct)
  case (1 buf off tot f)
  show ?case
  proof (cases "buf = []")
    case True
    then show ?thesis
      using "1.prems" by (subst (asm) pwrite_loop.simps) auto
  next
    case False
    obtain d s where r: "restart (rw_sched f) = (d, s)"
      by fastforce
    have fail: "\<exists>n \<le> length buf. rw_bytes f' = splice_at (rw_bytes f) off (take n buf) \<and>
        ret = (if n = length buf then int (tot + length buf) else -1) \<and> (no_fail (rw_sched f) \<longrightarrow> n = length buf)"
      if "wr_limit d (length buf) = None \<or> wr_limit d (length buf) = Some 0"
    proof -
      have "\<not> no_fail (rw_sched f)"
        using limits_no_fail [OF _ r, of "length buf"] False that by fastforce
      moreover have "rw_bytes f' = rw_bytes f" "ret = -1"
        using "1.prems" False that by (auto simp: pwrite_loop.simps [of buf] xpwrite_def r)
      ultimately show ?thesis
        using False by (intro exI [of _ 0]) auto
    qed
    show ?thesis
    proof (cases "wr_limit d (length buf) = None \<or> wr_limit d (length buf) = Some 0")
      case True
      then show ?thesis by (rule fail)
    next
      case ok: False
      then obtain k where k: "wr_limit d (length buf) = Some (Suc k)"
        by (metis not0_implies_Suc option.exhaust)
      then have le: "Suc k \<le> length buf"
        by (auto simp: wr_limit_def split: option.splits sysret.splits)
      let ?f = "f\<lparr>rw_sched := s, rw_bytes := splice_at (rw_bytes f) off (take (Suc k) buf)\<rparr>"
      have x: "xpwrite buf off f = (?f, Some (Suc k))"
        using k by (simp add: xpwrite_def r)
      have rec: "pwrite_loop (drop (Suc k) buf) (off + Suc k) (tot + Suc k) ?f = (f', ret)"
        using "1.prems" False x by (subst (asm) pwrite_loop.simps) auto
      from "1.IH" [OF False x [symmetric] refl refl rec] obtain n where
        n: "n \<le> length buf - Suc k" "rw_bytes f' = splice_at (splice_at (rw_bytes f) off (take (Suc k) buf)) (off + Suc k) (take n (drop (Suc k) buf))"
        "ret = (if n = length buf - Suc k then int (tot + Suc k + (length buf - Suc k)) else -1)" "no_fail s \<longrightarrow> n = length buf - Suc k"
        unfolding length_drop by (simp del: of_nat_add) blast
      have "splice_at (splice_at (rw_bytes f) off (take (Suc k) buf)) (off + Suc k) (take n (drop (Suc k) buf)) =
          splice_at (rw_bytes f) off (take (Suc k + n) buf)"
        using splice_append [of "rw_bytes f" off "take (Suc k) buf" "take n (drop (Suc k) buf)"] le
        by (simp only: take_add length_take min_absorb2)
      then show ?thesis
        using n le restart_no_fail(1) [OF _ r] by (intro exI [of _ "Suc k + n"]) auto
    qed
  qed
qed

section \<open>Vectors\<close>

lemma put_bytes_cong:
  assumes "length as = length bs" "\<And>a. a \<notin> set as \<Longrightarrow> m a = m' a"
  shows "put_bytes as bs m = put_bytes as bs m'"
  using assms
proof (induction as arbitrary: bs m m')
  case Nil
  then show ?case by (simp add: fun_eq_iff)
next
  case (Cons a as)
  then obtain b bs' where bs: "bs = b # bs'"
    by (cases bs) auto
  have "put_bytes as bs' (m(a \<mapsto> b)) = put_bytes as bs' (m'(a \<mapsto> b))"
  proof (rule Cons.IH)
    show "length as = length bs'"
      using Cons.prems(1) bs by simp
    show "(m(a \<mapsto> b)) x = (m'(a \<mapsto> b)) x" if "x \<notin> set as" for x
      using Cons.prems(2) [of x] that by simp
  qed
  then show ?case
    by (simp add: bs put_bytes_Cons)
qed

lemma put_bytes_over:
  "length as = length bs \<Longrightarrow> put_bytes as bs (put_bytes as (take k bs) m) = put_bytes as bs m"
  by (rule put_bytes_cong) (auto simp: put_bytes_other)

lemma put_bytes_split:
  assumes "length xs = length as" "length ys = length bs" "length as \<le> n"
  shows "put_bytes bs ys (put_bytes (as @ bs) (take n (xs @ ys)) m) = put_bytes (as @ bs) (xs @ ys) m"
  using assms by (simp add: put_bytes_append put_bytes_over)

lemma get_iov_size_span: "get_iov_size iov n = length (iov_span (take n iov))"
proof -
  have "sum_list (map (\<lambda>v. unat (iov_len v)) vs) = length (iov_span vs)" for vs
    by (induction vs) auto
  then show ?thesis
    by (simp add: get_iov_size_def)
qed

text \<open>What \<^verbatim>\<open>shift_iovec\<close> skips are the entries that were transferred completely.\<close>

lemma shift_iovec_spec:
  assumes "nr \<le> length (iov_span ws)" "iov_len u \<noteq> 0"
  shows "\<exists>ws1 ws2. ws = ws1 @ ws2 \<and> length (iov_span ws1) \<le> nr \<and> (nr = length (iov_span ws) \<longrightarrow> ws2 = []) \<and>
    shift_iovec (ws @ u # rest) cnt nr tot count off =
      Ret (ws2 @ u # rest, cnt - int (length ws1), tot + length (iov_span ws1), count - int (length (iov_span ws1)), off + length (iov_span ws1))"
  using assms(1)
proof (induction ws arbitrary: cnt nr tot count off)
  case Nil
  then show ?case
    using assms(2) by (simp add: Let_def unsigned_eq_0_iff)
next
  case (Cons w ws)
  let ?l = "unat (iov_len w)"
  show ?case
  proof (cases "?l \<le> nr")
    case True
    then have "nr - ?l \<le> length (iov_span ws)"
      using Cons.prems by simp
    from Cons.IH [OF this, of "cnt - 1" "tot + ?l" "count - int ?l" "off + ?l"] obtain ws1 ws2 where
      "ws = ws1 @ ws2" "length (iov_span ws1) \<le> nr - ?l" "nr - ?l = length (iov_span ws) \<longrightarrow> ws2 = []"
      "shift_iovec (ws @ u # rest) (cnt - 1) (nr - ?l) (tot + ?l) (count - int ?l) (off + ?l) =
        Ret (ws2 @ u # rest, cnt - 1 - int (length ws1), tot + ?l + length (iov_span ws1),
          count - int ?l - int (length (iov_span ws1)), off + ?l + length (iov_span ws1))"
      by blast
    then show ?thesis
      using True by (intro exI [of _ "w # ws1"] exI [of _ ws2]) (auto simp: Let_def algebra_simps)
  next
    case False
    then show ?thesis
      by (intro exI [of _ "[]"] exI [of _ "w # ws"]) (auto simp: Let_def)
  qed
qed

lemma shift_iovec_at:
  assumes "nr \<le> length (iov_span ws)" "iov_len u \<noteq> 0"
  shows "\<exists>ws1 ws2. ws = ws1 @ ws2 \<and> length (iov_span ws1) \<le> nr \<and> (nr = length (iov_span ws) \<longrightarrow> ws2 = []) \<and>
    shift_iovec (ws @ u # rest) (int (length ws)) nr tot (int (length (iov_span ws))) off =
      Ret (ws2 @ u # rest, int (length ws2), tot + length (iov_span ws1), int (length (iov_span ws2)), off + length (iov_span ws1))"
proof -
  from shift_iovec_spec [OF assms, of rest "int (length ws)" tot "int (length (iov_span ws))" off] obtain ws1 ws2 where
    "ws = ws1 @ ws2" "length (iov_span ws1) \<le> nr" "nr = length (iov_span ws) \<longrightarrow> ws2 = []"
    "shift_iovec (ws @ u # rest) (int (length ws)) nr tot (int (length (iov_span ws))) off =
      Ret (ws2 @ u # rest, int (length ws) - int (length ws1), tot + length (iov_span ws1),
        int (length (iov_span ws)) - int (length (iov_span ws1)), off + length (iov_span ws1))"
    by blast
  then show ?thesis
    by (intro exI [of _ ws1] exI [of _ ws2]) simp
qed

lemma preadv_loop_ok:
  assumes "no_fail (rw_sched f)" "iov_len u \<noteq> 0" "off + length (iov_span ws) \<le> length (rw_bytes f)" "mapped m (iov_span ws)"
  shows "\<exists>f'. preadv_loop (ws @ u # rest) (int (length ws)) tot (int (length (iov_span ws))) off f m =
    Some (Ret (f', put_bytes (iov_span ws) (take (length (iov_span ws)) (drop off (rw_bytes f))) m, int (tot + length (iov_span ws)))) \<and>
    rw_bytes f' = rw_bytes f \<and> no_fail (rw_sched f')"
  using assms
proof (induction "length (rw_sched f)" arbitrary: f ws tot off m rule: less_induct)
  case less
  let ?n = "length (iov_span ws)" and ?data = "take (length (iov_span ws)) (drop off (rw_bytes f))"
  show ?case
  proof (cases "?n = 0")
    case True
    then show ?thesis
      using less.prems(1) by (subst preadv_loop.simps) auto
  next
    case False
    obtain d s where r: "restart (rw_sched f) = (d, s)"
      by fastforce
    obtain k where k: "rd_limit d ?n = Some k" "0 < k" "k \<le> ?n" "k = ?n \<or> length s < length (rw_sched f)"
      using limits_no_fail [OF less.prems(1) r, of ?n] False by blast
    let ?f = "f\<lparr>rw_sched := s\<rparr>" and ?m = "put_bytes (iov_span ws) (take k ?data) m"
    have x: "xpreadv ws off f m = (?f, ?m, Some k)"
      using k less.prems(3,4) by (auto simp: xpreadv_def r Let_def min_def)
    obtain ws1 ws2 where ws: "ws = ws1 @ ws2" "length (iov_span ws1) \<le> k" "k = ?n \<longrightarrow> ws2 = []" and
      sh: "shift_iovec (ws @ u # rest) (int (length ws)) k tot (int ?n) off =
        Ret (ws2 @ u # rest, int (length ws2), tot + length (iov_span ws1), int (length (iov_span ws2)), off + length (iov_span ws1))"
      using shift_iovec_at [OF k(3) less.prems(2)] by blast
    have nf: "no_fail s"
      using restart_no_fail(1) [OF less.prems(1) r] .
    have step: "preadv_loop (ws @ u # rest) (int (length ws)) tot (int ?n) off f m =
        preadv_loop (ws2 @ u # rest) (int (length ws2)) (tot + length (iov_span ws1)) (int (length (iov_span ws2))) (off + length (iov_span ws1)) ?f ?m"
      using False x k(2) sh by (subst preadv_loop.simps) simp
    have data: "?data = take (length (iov_span ws1)) (drop off (rw_bytes f)) @ take (length (iov_span ws2)) (drop (off + length (iov_span ws1)) (rw_bytes f))"
      by (simp add: ws(1) take_add add.commute)
    have put: "put_bytes (iov_span ws2) (take (length (iov_span ws2)) (drop (off + length (iov_span ws1)) (rw_bytes f))) ?m = put_bytes (iov_span ws) ?data m"
      unfolding data unfolding ws(1) iov_span_simps
      by (rule put_bytes_split) (use less.prems(3) ws(1,2) in simp_all)
    show ?thesis
    proof (cases "ws2 = []")
      case True
      then show ?thesis
        using step put nf ws(1) by (simp add: preadv_loop.simps [of "u # rest"])
    next
      case more: False
      then have "length s < length (rw_sched f)"
        using k(4) ws(3) by blast
      then show ?thesis
        using less.hyps [of ?f "off + length (iov_span ws1)" ws2 ?m "tot + length (iov_span ws1)"] less.prems nf step put ws(1) by auto
    qed
  qed
qed

lemma splice_over: "splice_at (splice_at bs off (take j ys)) off ys = splice_at bs off ys"
proof (cases "take j ys = [] \<or> ys = []")
  case False
  have "min (length bs) off + (off - length bs) = off"
    by simp
  then show ?thesis
    using False by (auto simp: splice_at_def Let_def min_def add.commute)
qed auto

lemma pwritev_loop_ok:
  assumes "no_fail (rw_sched f)" "iov_len u \<noteq> 0" "mapped m (iov_span ws)"
  shows "\<exists>f'. pwritev_loop (ws @ u # rest) (int (length ws)) tot (int (length (iov_span ws))) off m f =
    Some (Ret (f', int (tot + length (iov_span ws)))) \<and>
    rw_bytes f' = splice_at (rw_bytes f) off (get_bytes (iov_span ws) m) \<and> no_fail (rw_sched f')"
  using assms
proof (induction "length (rw_sched f)" arbitrary: f ws tot off rule: less_induct)
  case less
  let ?n = "length (iov_span ws)" and ?data = "get_bytes (iov_span ws) m"
  show ?case
  proof (cases "?n = 0")
    case True
    then show ?thesis
      using less.prems(1) by (subst pwritev_loop.simps) (auto simp: get_bytes_def)
  next
    case False
    obtain d s where r: "restart (rw_sched f) = (d, s)"
      by fastforce
    obtain k where k: "wr_limit d ?n = Some k" "0 < k" "k \<le> ?n" "k = ?n \<or> length s < length (rw_sched f)"
      using limits_no_fail [OF less.prems(1) r, of ?n] False by blast
    let ?f = "f\<lparr>rw_sched := s, rw_bytes := splice_at (rw_bytes f) off (take k ?data)\<rparr>"
    have x: "xpwritev ws off m f = (?f, Some k)"
      using k less.prems(3) by (simp add: xpwritev_def r Let_def)
    obtain ws1 ws2 where ws: "ws = ws1 @ ws2" "length (iov_span ws1) \<le> k" "k = ?n \<longrightarrow> ws2 = []" and
      sh: "shift_iovec (ws @ u # rest) (int (length ws)) k tot (int ?n) off =
        Ret (ws2 @ u # rest, int (length ws2), tot + length (iov_span ws1), int (length (iov_span ws2)), off + length (iov_span ws1))"
      using shift_iovec_at [OF k(3) less.prems(2)] by blast
    have nf: "no_fail s"
      using restart_no_fail(1) [OF less.prems(1) r] .
    have step: "pwritev_loop (ws @ u # rest) (int (length ws)) tot (int ?n) off m f =
        pwritev_loop (ws2 @ u # rest) (int (length ws2)) (tot + length (iov_span ws1)) (int (length (iov_span ws2))) (off + length (iov_span ws1)) m ?f"
      using False x k(2) sh by (subst pwritev_loop.simps) simp
    have put: "splice_at (splice_at (rw_bytes f) off (take k ?data)) (off + length (iov_span ws1)) (get_bytes (iov_span ws2) m) =
        splice_at (rw_bytes f) off ?data"
      using splice_over [of "splice_at (rw_bytes f) off (get_bytes (iov_span ws1) m)" "off + length (iov_span ws1)"]
        splice_append [of "rw_bytes f" off "get_bytes (iov_span ws1) m"] ws(1,2) by simp
    show ?thesis
    proof (cases "ws2 = []")
      case True
      then show ?thesis
        using step put nf ws(1) by (simp add: pwritev_loop.simps [of "u # rest"] get_bytes_def)
    next
      case more: False
      then have "length s < length (rw_sched f)"
        using k(4) ws(3) by blast
      then show ?thesis
        using less.hyps [of ?f ws2 "tot + length (iov_span ws1)" "off + length (iov_span ws1)"] less.prems nf step put ws(1) by auto
    qed
  qed
qed


definition two_bufs :: "iovec list" where
  "two_bufs = [\<lparr>iov_base = 100, iov_len = 2\<rparr>, \<lparr>iov_base = 200, iov_len = 2\<rparr>, \<lparr>iov_base = 300, iov_len = 1\<rparr>]"

definition short_file :: "sysret list \<Rightarrow> rwfile" where
  "short_file s = \<lparr>rw_bytes = [1, 2, 3, 4, 5], rw_pos = 0, rw_sched = s\<rparr>"

lemma two_bufs_span: "iov_span (take 2 two_bufs) = [100, 101, 200, 201]"
  by code_simp


text \<open>When the file ends inside a buffer, \<^verbatim>\<open>preadv_in_full\<close> reads the same bytes again for ever.\<close>

definition stuck :: "iovec \<Rightarrow> nat \<Rightarrow> rwfile \<Rightarrow> hmem \<Rightarrow> bool" where
  "stuck v off f m \<longleftrightarrow> rw_sched f = [] \<and> off < length (rw_bytes f) \<and> length (rw_bytes f) < off + unat (iov_len v) \<and>
     mapped m (span (iov_base v) (unat (iov_len v)))"

lemma stuck_step:
  assumes "stuck v off f m"
  shows "xpreadv [v] off f m = (f, put_bytes (span (iov_base v) (unat (iov_len v))) (drop off (rw_bytes f)) m, Some (length (rw_bytes f) - off))"
    "shift_iovec (v # rest) 1 (length (rw_bytes f) - off) 0 count off = Ret (v # rest, 1, 0, count, off)"
    "stuck v off f (put_bytes (span (iov_base v) (unat (iov_len v))) bs m)" "length (rw_bytes f) \<noteq> off" "\<not> length (rw_bytes f) \<le> off"
    "uint (iov_len v) \<noteq> 0"
proof -
  have "f\<lparr>rw_sched := []\<rparr> = f"
    using assms by (cases f) (simp add: stuck_def)
  then show "xpreadv [v] off f m = (f, put_bytes (span (iov_base v) (unat (iov_len v))) (drop off (rw_bytes f)) m, Some (length (rw_bytes f) - off))"
    using assms by (auto simp: stuck_def xpreadv_def rd_limit_def)
  show "shift_iovec (v # rest) 1 (length (rw_bytes f) - off) 0 count off = Ret (v # rest, 1, 0, count, off)"
    using assms by (auto simp: stuck_def Let_def)
  have "0 < unat (iov_len v)"
    using assms by (auto simp: stuck_def)
  then show "uint (iov_len v) \<noteq> 0"
    by (metis less_numeral_extra(3) nat_0_iff order_refl unat_eq_nat_uint)
qed (use assms in \<open>simp_all add: stuck_def Let_def\<close>)

lemma stuck_hangs:
  "preadv_loop iov cnt tot count off f m = Some y \<Longrightarrow>
   \<not> (stuck v off f m \<and> iov = v # rest \<and> cnt = 1 \<and> tot = 0 \<and> count = int (unat (iov_len v)))"
proof (induction rule: preadv_loop.raw_induct [rotated, consumes 1, case_names step])
  case (step preadv_loop iov cnt tot count off f m y)
  show ?case
  proof
    assume a: "stuck v off f m \<and> iov = v # rest \<and> cnt = 1 \<and> tot = 0 \<and> count = int (unat (iov_len v))"
    note st = stuck_step [of v off f m]
    from step(2) a st(1,2,4,5,6) have "preadv_loop (v # rest) 1 0 (int (unat (iov_len v))) off f
        (put_bytes (span (iov_base v) (unat (iov_len v))) (drop off (rw_bytes f)) m) = Some y"
      by simp
    from step(1) [OF this] show False
      using a st(3) by simp
  qed
qed

lemma preadv_short_file_hangs:
  assumes "rw_sched f = []" "off < length (rw_bytes f)" "length (rw_bytes f) < off + unat (iov_len v)"
    "mapped m (span (iov_base v) (unat (iov_len v)))"
  shows "preadv_in_full (v # rest) 1 off f m = None"
  using stuck_hangs [of "v # rest" 1 0 "int (unat (iov_len v))" off f m _ v rest] assms
  by (cases "preadv_in_full (v # rest) 1 off f m") (auto simp: preadv_in_full_def get_iov_size_def stuck_def)

text \<open>When every byte of a vector that ends its array is transferred, \<^verbatim>\<open>shift_iovec\<close> reads behind the array.\<close>

lemma preadv_overruns_array:
  assumes "rw_sched f = []" "off + length (iov_span iov) \<le> length (rw_bytes f)" "iov_span iov \<noteq> []" "mapped m (iov_span iov)"
  shows "preadv_in_full iov (length iov) off f m = Some Undefined"
proof -
  have "shift_iovec iov cnt (length (iov_span iov)) tot count off' = Undefined" for cnt tot count off'
    by (induction iov arbitrary: cnt tot count off') (simp_all add: Let_def)
  moreover have "xpreadv iov off f m = (f, put_bytes (iov_span iov) (take (length (iov_span iov)) (drop off (rw_bytes f))) m, Some (length (iov_span iov)))"
    using assms by (simp add: xpreadv_def rd_limit_def Let_def)
  ultimately show ?thesis
    using assms(3) by (simp add: preadv_in_full_def get_iov_size_span preadv_loop.simps)
qed

text \<open>
  After a short transfer inside a buffer the stream variants start the buffer again with the bytes that follow: here the first
  byte of the file is lost.
\<close>

lemma readv_loses_bytes:
  "\<exists>f'. readv_in_full two_bufs 1 (short_file [Part 1]) (\<lambda>_. Some 0) = Some (Ret (f', put_bytes [100, 101] [2, 3] (\<lambda>_. Some 0), 2))"
proof -
  let ?v = "\<lparr>iov_base = 100, iov_len = 2\<rparr> :: iovec"
  have sp: "span 100 2 = [100, 101]"
    by code_simp
  have over: "put_bytes [100, 101] [2, 3] (put_bytes [100, 101] [1] m) = put_bytes [100, 101] [2, 3] m" for m
    by (rule put_bytes_cong) (auto simp: put_bytes_other)
  show ?thesis
    unfolding readv_in_full_def
    by (subst readv_loop.simps, simp add: two_bufs_def get_iov_size_def xreadv_def xpreadv_def short_file_def rd_limit_def sp Let_def,
        subst readv_loop.simps, simp add: xreadv_def xpreadv_def rd_limit_def sp Let_def over put_bytes_Cons [of _ _ 1],
        subst readv_loop.simps, simp add: over put_bytes_Cons)
qed

section \<open>Whole files\<close>

text \<open>Reading a stream is reading at its position, which moves on by what was read.\<close>

lemma pread_loop_pos:
  "pread_loop count off acc (f\<lparr>rw_pos := p\<rparr>) = (case pread_loop count off acc f of (f', r) \<Rightarrow> (f'\<lparr>rw_pos := p\<rparr>, r))"
proof (induction count off acc f rule: pread_loop.induct)
  case (1 count off acc f)
  obtain d s where r: "restart (rw_sched f) = (d, s)"
    by fastforce
  show ?case
  proof (cases "count \<noteq> 0 \<and> (\<exists>n b bs. rd_limit d count = Some n \<and> take n (drop off (rw_bytes f)) = b # bs)")
    case True
    then obtain n b bs where n: "count \<noteq> 0" "rd_limit d count = Some n" "take n (drop off (rw_bytes f)) = b # bs"
      by blast
    have x: "xpread count off f = (f\<lparr>rw_sched := s\<rparr>, Some (b # bs))"
      "xpread count off (f\<lparr>rw_pos := p\<rparr>) = (f\<lparr>rw_pos := p, rw_sched := s\<rparr>, Some (b # bs))"
      using n r by (simp_all add: xpread_def)
    have swap: "f\<lparr>rw_pos := p, rw_sched := s\<rparr> = f\<lparr>rw_sched := s, rw_pos := p\<rparr>"
      by simp
    show ?thesis
      using "1.IH" [OF n(1) x(1) [symmetric] refl refl] n(1) x
      by (subst (1 2) pread_loop.simps) (simp add: swap)
  next
    case False
    then show ?thesis
      using r by (subst (1 2) pread_loop.simps) (auto simp: xpread_def split: option.splits list.splits)
  qed
qed

lemma read_loop_pread:
  "read_loop count acc f =
    (case pread_loop count (rw_pos f) acc f of (f', buf, ret) \<Rightarrow> (f'\<lparr>rw_pos := rw_pos f + (length buf - length acc)\<rparr>, buf, ret))"
proof (induction count acc f rule: read_loop.induct)
  case (1 count acc f)
  obtain d s where r: "restart (rw_sched f) = (d, s)"
    by fastforce
  show ?case
  proof (cases "count \<noteq> 0 \<and> (\<exists>n b bs. rd_limit d count = Some n \<and> take n (drop (rw_pos f) (rw_bytes f)) = b # bs)")
    case True
    then obtain n b bs where n: "count \<noteq> 0" "rd_limit d count = Some n" "take n (drop (rw_pos f) (rw_bytes f)) = b # bs"
      by blast
    let ?f = "f\<lparr>rw_sched := s\<rparr>" and ?k = "length (b # bs)"
    have x: "xread count f = (?f\<lparr>rw_pos := rw_pos f + ?k\<rparr>, Some (b # bs))" "xpread count (rw_pos f) f = (?f, Some (b # bs))"
      using n r by (simp_all add: xpread_def xread_def Let_def)
    obtain f' buf ret where p: "pread_loop (count - ?k) (rw_pos f + ?k) (acc @ b # bs) ?f = (f', buf, ret)"
      by (metis prod_cases3)
    have "length acc + ?k \<le> length buf"
      using pread_loop_spec [OF p] by auto
    then show ?thesis
      using "1.IH" [OF n(1) x(1) [symmetric] refl refl] n(1) x p
      by (subst read_loop.simps, subst pread_loop.simps) (simp add: pread_loop_pos)
  next
    case False
    then show ?thesis
      using r by (subst read_loop.simps, subst pread_loop.simps)
        (auto simp: xpread_def xread_def Let_def split: option.splits list.splits)
  qed
qed

lemma pread_loop_sched: "rw_sched f = [] \<Longrightarrow> rw_sched (fst (pread_loop count off acc f)) = []"
proof (induction count off acc f rule: pread_loop.induct)
  case (1 count off acc f)
  then show ?case
    by (subst pread_loop.simps) (auto simp: xpread_def split: option.splits list.splits)
qed

lemma read_in_full_pread:
  "read_in_full count f =
    (case pread_in_full_sys count (rw_pos f) f of (f', buf, ret) \<Rightarrow> (f'\<lparr>rw_pos := rw_pos f + length buf\<rparr>, buf, ret))"
  by (simp add: read_in_full_def pread_in_full_sys_def read_loop_pread)

text \<open>
  \<^verbatim>\<open>read_file\<close> returns the size of a file that fits the buffer; it fails for a larger one, and for an empty file, although that has been read completely.
\<close>

lemma read_file_spec:
  assumes "rw_sched f = []" "rw_pos f = 0" "read_file n f = (f', buf, ret)"
  shows "buf = take n (rw_bytes f)"
    "ret = (if length (rw_bytes f) \<le> n \<and> (rw_bytes f \<noteq> [] \<or> n = 0) then int (length (rw_bytes f)) else -1)"
proof -
  obtain f1 buf1 ret1 where p: "pread_loop n 0 [] f = (f1, buf1, ret1)"
    by (metis prod_cases3)
  from pread_loop_spec [OF p] have b: "rw_bytes f1 = rw_bytes f" "buf1 = take n (rw_bytes f)" "ret1 = (if n = 0 \<or> buf1 \<noteq> [] then int (length buf1) else -1)"
    using assms(1) by (auto simp: no_fail_def)
  have "rw_sched f1 = []"
    using pread_loop_sched [OF assms(1), of n 0 "[]"] p by simp
  then show "buf = take n (rw_bytes f)"
    "ret = (if length (rw_bytes f) \<le> n \<and> (rw_bytes f \<noteq> [] \<or> n = 0) then int (length (rw_bytes f)) else -1)"
    using assms p b
    by (auto simp: read_file_def read_in_full_def read_loop_pread xread_def rd_limit_def Let_def)
qed

end
