(* ===== verification/Disk.thy ===== *)
theory Disk
  imports ReadWrite QcowDisk
begin

text \<open>
  Disk images (\<^verbatim>\<open>disk/core.c\<close>, \<^verbatim>\<open>disk/raw.c\<close>): the dispatch to the operations of an image, and the operations of raw
  images, as a private mapping (read-only images) and with vectored reads and writes (built without asynchronous I/O).
  The contract of a disk is a locale; raw images, mapped images and read-only QCOW images are its instances.

  A request is the part of the caller's vector from its first buffer on and the number of buffers; the callback of a request is the value it
  is called with, if it is called. Buffers of one request do not overlap.
\<close>

section \<open>Disk images\<close>

type_synonym 'd disk_read = "u64 \<Rightarrow> iovec list \<Rightarrow> nat \<Rightarrow> hmem \<Rightarrow> 'd \<Rightarrow> ('d \<times> hmem \<times> int) outcome option"
type_synonym 'd disk_write = "u64 \<Rightarrow> iovec list \<Rightarrow> nat \<Rightarrow> hmem \<Rightarrow> 'd \<Rightarrow> ('d \<times> int) outcome option"
type_synonym 'd disk_flush = "'d \<Rightarrow> ('d \<times> int) outcome"

record 'd disk_image_operations =
  op_read :: "'d disk_read option"
  op_write :: "'d disk_write option"
  op_flush :: "'d disk_flush option"

record 'd disk_image =
  d_ops :: "'d disk_image_operations"
  d_priv :: 'd
  d_size :: u64
  d_async :: bool
  d_has_cb :: bool

section \<open>Dispatch\<close>

definition callback :: "'d disk_image \<Rightarrow> int \<Rightarrow> int option" where
  "callback disk tot = (if \<not> d_async disk \<and> d_has_cb disk then Some tot else None)"

text \<open>The results are the image, memory, the return value, and the call of the callback.\<close>

definition disk_image__read ::
  "'d disk_image \<Rightarrow> u64 \<Rightarrow> iovec list \<Rightarrow> nat \<Rightarrow> hmem \<Rightarrow> ('d disk_image \<times> hmem \<times> int \<times> int option) outcome option" where
  "disk_image__read disk sector iov iovcount m =
     (case op_read (d_ops disk) of
        None \<Rightarrow> Some (Ret (disk, m, 0, callback disk 0))
      | Some rd \<Rightarrow> bind_run (rd sector iov iovcount m (d_priv disk)) (\<lambda>(d, m, tot).
          let disk = disk\<lparr>d_priv := d\<rparr>
          in Some (Ret (disk, m, tot, if tot < 0 then None else callback disk tot))))"

definition disk_image__write ::
  "'d disk_image \<Rightarrow> u64 \<Rightarrow> iovec list \<Rightarrow> nat \<Rightarrow> hmem \<Rightarrow> ('d disk_image \<times> int \<times> int option) outcome option" where
  "disk_image__write disk sector iov iovcount m =
     (case op_write (d_ops disk) of
        None \<Rightarrow> Some (Ret (disk, 0, callback disk 0))
      | Some wr \<Rightarrow> bind_run (wr sector iov iovcount m (d_priv disk)) (\<lambda>(d, tot).
          let disk = disk\<lparr>d_priv := d\<rparr>
          in Some (Ret (disk, tot, if tot < 0 then None else callback disk tot))))"

text \<open>\<open>fsync\<close> is the result of \<^verbatim>\<open>fsync(disk->fd)\<close>.\<close>

definition disk_image__flush :: "int \<Rightarrow> 'd disk_image \<Rightarrow> ('d disk_image \<times> int) outcome" where
  "disk_image__flush fsync disk =
     (case op_flush (d_ops disk) of
        None \<Rightarrow> Ret (disk, fsync)
      | Some fl \<Rightarrow> bind_outcome (fl (d_priv disk)) (\<lambda>(d, r). Ret (disk\<lparr>d_priv := d\<rparr>, r)))"

definition disk_image__set_callback :: "'d disk_image \<Rightarrow> 'd disk_image" where
  "disk_image__set_callback disk = disk\<lparr>d_has_cb := True\<rparr>"

section \<open>Raw images\<close>

definition raw_image__read :: "rwfile disk_read" where
  "raw_image__read sector iov iovcount m f =
     (let offset = unat (push_bit SECTOR_SHIFT sector)
      in if 2 ^ 63 \<le> offset \<and> get_iov_size iov iovcount \<noteq> 0 then Some (Ret (f, m, -1))
         else bind_run (preadv_in_full iov iovcount offset f m) (\<lambda>(f, m, tot). Some (Ret (f, m, tot))))"

definition raw_image__write :: "rwfile disk_write" where
  "raw_image__write sector iov iovcount m f =
     (let offset = unat (push_bit SECTOR_SHIFT sector)
      in if 2 ^ 63 \<le> offset \<and> get_iov_size iov iovcount \<noteq> 0 then Some (Ret (f, -1))
         else pwritev_in_full iov iovcount offset m f)"

text \<open>The mapping is the bytes of the image; an access behind it is \<open>Undefined\<close>.\<close>

fun read_mmap_loop :: "u8 list \<Rightarrow> u64 \<Rightarrow> iovec list \<Rightarrow> int \<Rightarrow> hmem \<Rightarrow> (hmem \<times> int) outcome" where
  "read_mmap_loop priv offset [] tot m = Ret (m, tot)"
| "read_mmap_loop priv offset (v # iov) tot m =
     (let n = unat (iov_len v)
      in if 0 < n \<and> length priv < unat offset + n then Undefined
         else bind_outcome (mem_write m (iov_base v) (take n (drop (unat offset) priv))) (\<lambda>m.
           read_mmap_loop priv (offset + iov_len v) iov (tot + int n) m))"

definition raw_image__read_mmap :: "u8 list disk_read" where
  "raw_image__read_mmap sector iov iovcount m priv =
     Some (if length iov < iovcount then Undefined
           else bind_outcome (read_mmap_loop priv (push_bit SECTOR_SHIFT sector) (take iovcount iov) 0 m) (\<lambda>(m, tot). Ret (priv, m, tot)))"

fun write_mmap_loop :: "hmem \<Rightarrow> u64 \<Rightarrow> iovec list \<Rightarrow> int \<Rightarrow> u8 list \<Rightarrow> (u8 list \<times> int) outcome" where
  "write_mmap_loop m offset [] tot priv = Ret (priv, tot)"
| "write_mmap_loop m offset (v # iov) tot priv =
     (let n = unat (iov_len v)
      in if 0 < n \<and> length priv < unat offset + n then Undefined
         else bind_outcome (mem_read m (iov_base v) n) (\<lambda>bs.
           write_mmap_loop m (offset + iov_len v) iov (tot + int n) (splice_at priv (unat offset) bs)))"

definition raw_image__write_mmap :: "u8 list disk_write" where
  "raw_image__write_mmap sector iov iovcount m priv =
     Some (if length iov < iovcount then Undefined
           else write_mmap_loop m (push_bit SECTOR_SHIFT sector) (take iovcount iov) 0 priv)"

definition raw_image_regular_ops :: "rwfile disk_image_operations" where
  "raw_image_regular_ops = \<lparr>op_read = Some raw_image__read, op_write = Some raw_image__write, op_flush = None\<rparr>"

definition ro_ops :: "u8 list disk_image_operations" where
  "ro_ops = \<lparr>op_read = Some raw_image__read_mmap, op_write = Some raw_image__write_mmap, op_flush = None\<rparr>"

definition ro_ops_nowrite :: "rwfile disk_image_operations" where
  "ro_ops_nowrite = \<lparr>op_read = Some raw_image__read, op_write = None, op_flush = None\<rparr>"

section \<open>QCOW images\<close>

fun chunks :: "nat list \<Rightarrow> 'a list \<Rightarrow> 'a list list" where
  "chunks [] bs = []"
| "chunks (n # ns) bs = take n bs # chunks ns (drop n bs)"

text \<open>The read operation of QCOW images on buffers in host memory.\<close>

definition qcow_read_op :: "inflate \<Rightarrow> bool \<Rightarrow> qcow disk_read" where
  "qcow_read_op z oom sector iov iovcount m q =
     (let vs = take iovcount iov; as = iov_span vs
      in case rd_at m as of
           Ret bs \<Rightarrow>
             bind_run (qcow_read_sector z oom sector (chunks (map (\<lambda>v. unat (iov_len v)) vs) bs) 0 q) (\<lambda>(q, ds, tot).
               bind_run (Some (wr_at m as (concat ds))) (\<lambda>m. Some (Ret (q, m, tot))))
         | _ \<Rightarrow> Some Undefined)"

definition qcow_disk_readonly_ops :: "inflate \<Rightarrow> bool \<Rightarrow> qcow disk_image_operations" where
  "qcow_disk_readonly_ops z oom = \<lparr>op_read = Some (qcow_read_op z oom), op_write = None, op_flush = None\<rparr>"

section \<open>The contract of a disk\<close>

text \<open>
  A request the block device passes on: whole sectors in mapped buffers, followed in its array by the entry for the status byte.
\<close>

definition request_ok :: "iovec list \<Rightarrow> nat \<Rightarrow> hmem \<Rightarrow> bool" where
  "request_ok iov n m \<longleftrightarrow> n < length iov \<and> iov_len (iov ! n) \<noteq> 0 \<and> mapped m (iov_span (take n iov)) \<and>
     list_all (\<lambda>v. unat (iov_len v) < 2 ^ 32 \<and> 512 dvd unat (iov_len v)) (take n iov)"

abbreviation req_span :: "iovec list \<Rightarrow> nat \<Rightarrow> u64 list" where "req_span iov n \<equiv> iov_span (take n iov)"

locale disk_reads =
  fixes rd :: "'d disk_read"
    and ok :: "'d \<Rightarrow> bool"
    and byte :: "'d \<Rightarrow> nat \<Rightarrow> u8"
    and dsize :: "'d \<Rightarrow> nat"
  assumes rd_law: "ok d \<Longrightarrow> request_ok iov n m \<Longrightarrow> unat sector * 512 + length (req_span iov n) \<le> dsize d \<Longrightarrow>
    \<exists>d'. rd sector iov n m d =
        Some (Ret (d', put_bytes (req_span iov n) (map (byte d) [unat sector * 512..<unat sector * 512 + length (req_span iov n)]) m,
          int (length (req_span iov n)))) \<and>
      ok d' \<and> byte d' = byte d \<and> dsize d' = dsize d"

locale disk_writes = disk_reads +
  fixes wr :: "'d disk_write"
  assumes wr_law: "ok d \<Longrightarrow> request_ok iov n m \<Longrightarrow> unat sector * 512 + length (req_span iov n) \<le> dsize d \<Longrightarrow>
    \<exists>d'. wr sector iov n m d = Some (Ret (d', int (length (req_span iov n)))) \<and> ok d' \<and> dsize d' = dsize d \<and>
      (\<forall>i < dsize d. byte d' i = (if unat sector * 512 \<le> i \<and> i < unat sector * 512 + length (req_span iov n)
         then get_bytes (req_span iov n) m ! (i - unat sector * 512) else byte d i))"
begin

lemma write_then_read:
  assumes "ok d" "request_ok iov n m" "request_ok iov' n' m'" "length (req_span iov' n') = length (req_span iov n)"
    "unat sector * 512 + length (req_span iov n) \<le> dsize d" "distinct (req_span iov' n')"
  shows "\<exists>d' d'' m''. wr sector iov n m d = Some (Ret (d', int (length (req_span iov n)))) \<and>
    rd sector iov' n' m' d' = Some (Ret (d'', m'', int (length (req_span iov n)))) \<and> ok d'' \<and>
    get_bytes (req_span iov' n') m'' = get_bytes (req_span iov n) m"
proof -
  let ?p = "unat sector * 512" and ?l = "length (req_span iov n)"
  obtain d' where d': "wr sector iov n m d = Some (Ret (d', int ?l))" "ok d'" "dsize d' = dsize d"
    "\<forall>i < dsize d. byte d' i = (if ?p \<le> i \<and> i < ?p + ?l then get_bytes (req_span iov n) m ! (i - ?p) else byte d i)"
    using wr_law [OF assms(1,2,5)] by blast
  have eq: "map (byte d') [?p..<?p + ?l] = get_bytes (req_span iov n) m"
    using d'(4) assms(5) by (intro nth_equalityI) auto
  show ?thesis
    using rd_law [OF d'(2) assms(3), of sector] d' assms(4,5,6) eq by (auto simp: get_put_same)
qed

end

section \<open>Raw images keep the contract\<close>

lemma sector_offset:
  assumes "unat sector * 512 < 2 ^ 64"
  shows "unat (push_bit SECTOR_SHIFT sector :: u64) = unat sector * 512"
  using assms by (simp add: SECTOR_SHIFT_def push_bit_eq_mult unat_word_ariths)

lemma map_nth_upt: "p + n \<le> length bs \<Longrightarrow> map ((!) bs) [p..<p + n] = take n (drop p bs)"
  by (rule nth_equalityI) auto

definition raw_ok :: "rwfile \<Rightarrow> bool" where
  "raw_ok f \<longleftrightarrow> no_fail (rw_sched f) \<and> length (rw_bytes f) < 2 ^ 63"

lemma request_iov:
  assumes "request_ok iov n m"
  shows "iov = take n iov @ iov ! n # drop (Suc n) iov" "int n = int (length (take n iov))" "iov_len (iov ! n) \<noteq> 0" "mapped m (req_span iov n)"
  using assms id_take_nth_drop [of n iov] by (auto simp: request_ok_def)

lemma splice_inside:
  assumes "off + length xs \<le> length bs"
  shows "length (splice_at bs off xs) = length bs"
    "i < length bs \<Longrightarrow> splice_at bs off xs ! i = (if off \<le> i \<and> i < off + length xs then xs ! (i - off) else bs ! i)"
  using assms by (auto simp: splice_at_def Let_def nth_append)

interpretation raw: disk_writes raw_image__read raw_ok "\<lambda>f. (!) (rw_bytes f)" "\<lambda>f. length (rw_bytes f)" raw_image__write
proof unfold_locales
  fix d :: rwfile and iov n m and sector :: u64
  let ?as = "req_span iov n" and ?p = "unat sector * 512"
  assume d: "raw_ok d" and r: "request_ok iov n m" and fits: "?p + length ?as \<le> length (rw_bytes d)"
  have off: "unat (push_bit SECTOR_SHIFT sector) = ?p" "\<not> 2 ^ 63 \<le> ?p"
    using d fits by (auto simp: raw_ok_def intro!: sector_offset)
  note iov = request_iov [OF r]
  have nf: "no_fail (rw_sched d)"
    using d by (simp add: raw_ok_def)
  from preadv_loop_ok [OF nf iov(3) fits iov(4), of "drop (Suc n) iov" 0] obtain f' where
    f': "preadv_in_full iov n ?p d m = Some (Ret (f', put_bytes ?as (take (length ?as) (drop ?p (rw_bytes d))) m, int (length ?as)))"
      "rw_bytes f' = rw_bytes d" "no_fail (rw_sched f')"
    unfolding iov(1) [symmetric] iov(2) [symmetric] by (auto simp: preadv_in_full_def get_iov_size_span)
  then show "\<exists>d'. raw_image__read sector iov n m d =
        Some (Ret (d', put_bytes ?as (map ((!) (rw_bytes d)) [?p..<?p + length ?as]) m, int (length ?as))) \<and>
      raw_ok d' \<and> (!) (rw_bytes d') = (!) (rw_bytes d) \<and> length (rw_bytes d') = length (rw_bytes d)"
    using d fits off by (auto simp: raw_image__read_def raw_ok_def map_nth_upt Let_def)
  from pwritev_loop_ok [OF nf iov(3,4), of "drop (Suc n) iov" 0 ?p] obtain f' where
    f': "pwritev_in_full iov n ?p m d = Some (Ret (f', int (length ?as)))"
      "rw_bytes f' = splice_at (rw_bytes d) ?p (get_bytes ?as m)" "no_fail (rw_sched f')"
    unfolding iov(1) [symmetric] iov(2) [symmetric] by (auto simp: pwritev_in_full_def get_iov_size_span)
  then show "\<exists>d'. raw_image__write sector iov n m d = Some (Ret (d', int (length ?as))) \<and> raw_ok d' \<and> length (rw_bytes d') = length (rw_bytes d) \<and>
      (\<forall>i < length (rw_bytes d). rw_bytes d' ! i = (if ?p \<le> i \<and> i < ?p + length ?as then get_bytes ?as m ! (i - ?p) else rw_bytes d ! i))"
    using d fits off by (auto simp: raw_image__write_def raw_ok_def Let_def splice_inside)
qed

section \<open>Mapped images keep the contract\<close>

lemma read_mmap_loop_ok:
  assumes "unat offset + length (iov_span vs) \<le> length priv" "length priv < 2 ^ 64" "mapped m (iov_span vs)"
  shows "read_mmap_loop priv offset vs tot m =
    Ret (put_bytes (iov_span vs) (take (length (iov_span vs)) (drop (unat offset) priv)) m, tot + int (length (iov_span vs)))"
  using assms
proof (induction vs arbitrary: offset tot m)
  case Nil
  then show ?case by simp
next
  case (Cons v vs)
  let ?n = "unat (iov_len v)"
  have o: "unat (offset + iov_len v) = unat offset + ?n"
    using Cons.prems(1,2) by (simp add: unat_word_ariths)
  have w: "mem_write m (iov_base v) (take ?n (drop (unat offset) priv)) =
      Ret (put_bytes (span (iov_base v) ?n) (take ?n (drop (unat offset) priv)) m)"
    using Cons.prems by (simp add: mem_write_def wr_at_mapped)
  have "take (?n + k) (drop (unat offset) priv) = take ?n (drop (unat offset) priv) @ take k (drop (unat offset + ?n) priv)" for k
    unfolding take_add drop_drop by (simp add: add.commute)
  then show ?case
    using Cons.IH [of "offset + iov_len v" "put_bytes (span (iov_base v) ?n) (take ?n (drop (unat offset) priv)) m" "tot + int ?n"] Cons.prems o w
    by (simp add: Let_def put_bytes_append)
qed

lemma write_mmap_loop_ok:
  assumes "unat offset + length (iov_span vs) \<le> length priv" "length priv < 2 ^ 64" "mapped m (iov_span vs)"
  shows "write_mmap_loop m offset vs tot priv =
    Ret (splice_at priv (unat offset) (get_bytes (iov_span vs) m), tot + int (length (iov_span vs)))"
  using assms
proof (induction vs arbitrary: offset tot priv)
  case Nil
  then show ?case by (simp add: get_bytes_def)
next
  case (Cons v vs)
  let ?n = "unat (iov_len v)" and ?bs = "get_bytes (span (iov_base v) (unat (iov_len v))) m"
  have o: "unat (offset + iov_len v) = unat offset + ?n"
    using Cons.prems(1,2) by (simp add: unat_word_ariths)
  have l: "length (splice_at priv (unat offset) ?bs) = length priv"
    using Cons.prems(1) by (intro splice_inside) simp
  show ?case
    using Cons.IH [of "offset + iov_len v" "splice_at priv (unat offset) ?bs" "tot + int ?n"] Cons.prems o l
      splice_append [of priv "unat offset" ?bs "get_bytes (iov_span vs) m"]
    by (simp add: Let_def mem_read_def rd_at_mapped)
qed

interpretation mmap: disk_writes raw_image__read_mmap "\<lambda>priv. length priv < 2 ^ 63" "(!)" length raw_image__write_mmap
proof unfold_locales
  fix d :: "u8 list" and iov n m and sector :: u64
  let ?as = "req_span iov n" and ?p = "unat sector * 512"
  assume d: "length d < 2 ^ 63" and r: "request_ok iov n m" and fits: "?p + length ?as \<le> length d"
  have off: "unat (push_bit SECTOR_SHIFT sector) = ?p" "length d < 2 ^ 64" "n < length iov"
    using d fits r by (auto simp: request_ok_def intro!: sector_offset)
  note iov = request_iov [OF r]
  show "\<exists>d'. raw_image__read_mmap sector iov n m d =
        Some (Ret (d', put_bytes ?as (map ((!) d) [?p..<?p + length ?as]) m, int (length ?as))) \<and>
      length d' < 2 ^ 63 \<and> (!) d' = (!) d \<and> length d' = length d"
    using read_mmap_loop_ok [of "push_bit SECTOR_SHIFT sector" "take n iov" d m 0] d fits off iov(4)
    by (simp add: raw_image__read_mmap_def map_nth_upt)
  show "\<exists>d'. raw_image__write_mmap sector iov n m d = Some (Ret (d', int (length ?as))) \<and> length d' < 2 ^ 63 \<and> length d' = length d \<and>
      (\<forall>i < length d. d' ! i = (if ?p \<le> i \<and> i < ?p + length ?as then get_bytes ?as m ! (i - ?p) else d ! i))"
    using write_mmap_loop_ok [of "push_bit SECTOR_SHIFT sector" "take n iov" d m 0] d fits off iov(4)
    by (simp add: raw_image__write_mmap_def splice_inside)
qed

section \<open>QCOW images keep the contract\<close>

lemma chunks_simps [simp]:
  "length (chunks ns bs) = length ns"
  "sum_list ns \<le> length bs \<Longrightarrow> map length (chunks ns bs) = ns"
proof -
  show "length (chunks ns bs) = length ns"
    by (induction ns arbitrary: bs) auto
  show "sum_list ns \<le> length bs \<Longrightarrow> map length (chunks ns bs) = ns"
    by (induction ns arbitrary: bs) auto
qed

definition qcow_ok :: "qcow \<Rightarrow> bool" where
  "qcow_ok q \<longleftrightarrow> qcow_inv q \<and> q_version q \<noteq> QCOW1_VERSION \<and> file_ok (q_file q) \<and> (\<forall>i < unat (h_size (q_header q)). readable q i)"

lemma read_single_ok:
  assumes "qcow_ok q" "length dst < 2 ^ 32" "512 dvd length dst" "unat sector * 512 + length dst \<le> unat (h_size (q_header q))"
  obtains s where "qcow_read_sector_single z False sector dst q =
      Some (Ret (q\<lparr>q_l2 := s\<rparr>, map (vbyte q) [unat sector * 512..<unat sector * 512 + length dst], int (length dst)))"
    "qcow_ok (q\<lparr>q_l2 := s\<rparr>)"
proof -
  have q: "q_version q \<noteq> QCOW1_VERSION" "file_ok (q_file q)" "qcow_inv (q\<lparr>q_l2 := q_l2 q\<rparr>)"
    "\<forall>i. unat sector * 512 \<le> i \<and> i < unat sector * 512 + length dst \<longrightarrow> readable q i"
    using assms(1,4) by (auto simp: qcow_ok_def)
  from read_loop_ok [OF q(1,2) assms(2-4) _ q(4), of 0 "q_l2 q" dst z] q(3) obtain s where
    "qcow_inv (q\<lparr>q_l2 := s\<rparr>)"
    "read_sector_loop z False sector 0 0 dst q =
      Some (Ret (q\<lparr>q_l2 := s\<rparr>, map (vbyte q) [unat sector * 512..<unat sector * 512 + length dst], int (length dst)))"
    by auto
  then show thesis
    using assms(1) by (intro that [of s]) (auto simp: qcow_read_sector_single_def qcow_ok_def)
qed

lemma qcow_read_sector_ok:
  assumes "qcow_ok q" "list_all (\<lambda>d. length d < 2 ^ 32 \<and> 512 dvd length d) dsts"
    "unat sector * 512 + length (concat dsts) \<le> unat (h_size (q_header q))"
  shows "\<exists>s ds. qcow_read_sector z False sector dsts tot q = Some (Ret (q\<lparr>q_l2 := s\<rparr>, ds, tot + int (length (concat dsts)))) \<and>
    concat ds = map (vbyte q) [unat sector * 512..<unat sector * 512 + length (concat dsts)] \<and> qcow_ok (q\<lparr>q_l2 := s\<rparr>)"
  using assms
proof (induction dsts arbitrary: sector tot q)
  case Nil
  then show ?case by (auto intro: exI [of _ "q_l2 q"])
next
  case (Cons d dsts)
  let ?p = "unat sector * 512" and ?l = "length d"
  have d: "?l < 2 ^ 32" "512 dvd ?l" "?p + ?l \<le> unat (h_size (q_header q))"
    using Cons.prems by auto
  obtain s where s: "qcow_read_sector_single z False sector d q =
      Some (Ret (q\<lparr>q_l2 := s\<rparr>, map (vbyte q) [?p..<?p + ?l], int ?l))" "qcow_ok (q\<lparr>q_l2 := s\<rparr>)"
    using read_single_ok [OF Cons.prems(1) d] by blast
  have "unat (h_size (q_header q)) < 2 ^ LENGTH(64)"
    by (rule unsigned_less)
  then have "unat sector + ?l div 512 < 2 ^ 64"
    using d(3) by simp
  then have sec: "unat (sector + of_nat (?l div 512)) * 512 = ?p + ?l"
    using d(2) by (simp add: unat_word_ariths unat_of_nat take_bit_eq_mod mod_add_right_eq add_mult_distrib)
  from Cons.IH [OF s(2), of "sector + of_nat (?l div 512)" "tot + int ?l"] Cons.prems(2,3) sec obtain s' ds where
    s': "qcow_read_sector z False (sector + of_nat (?l div 512)) dsts (tot + int ?l) (q\<lparr>q_l2 := s\<rparr>) =
      Some (Ret (q\<lparr>q_l2 := s'\<rparr>, ds, tot + int ?l + int (length (concat dsts))))"
    "concat ds = map (vbyte q) [?p + ?l..<?p + ?l + length (concat dsts)]" "qcow_ok (q\<lparr>q_l2 := s'\<rparr>)"
    by auto
  have "[?p..<?p + (?l + length (concat dsts))] = [?p..<?p + ?l] @ [?p + ?l..<?p + ?l + length (concat dsts)]"
    using upt_add_eq_append [of ?p "?p + ?l" "length (concat dsts)"] by (simp add: add.assoc)
  then show ?case
    using s(1) s' d(1) by (intro exI [of _ s'] exI [of _ "map (vbyte q) [?p..<?p + ?l] # ds"]) (simp add: Let_def)
qed

lemma qcow_read_op_ok:
  assumes "qcow_ok q" "request_ok iov n m" "unat sector * 512 + length (req_span iov n) \<le> unat (h_size (q_header q))"
  shows "\<exists>s. qcow_read_op z False sector iov n m q =
    Some (Ret (q\<lparr>q_l2 := s\<rparr>, put_bytes (req_span iov n) (map (vbyte q) [unat sector * 512..<unat sector * 512 + length (req_span iov n)]) m,
      int (length (req_span iov n)))) \<and> qcow_ok (q\<lparr>q_l2 := s\<rparr>)"
proof -
  let ?as = "req_span iov n" and ?ns = "map (\<lambda>v. unat (iov_len v)) (take n iov)"
  have mp: "mapped m ?as"
    using assms(2) by (simp add: request_ok_def)
  have sum: "sum_list ?ns = length ?as"
    by (metis get_iov_size_def get_iov_size_span)
  let ?ds = "chunks ?ns (get_bytes ?as m)"
  have len: "map length ?ds = ?ns" "length (concat ?ds) = length ?as"
    using sum by (simp_all add: length_concat)
  have "list_all (\<lambda>d. length d < 2 ^ 32 \<and> 512 dvd length d) ?ds = list_all (\<lambda>k. k < 2 ^ 32 \<and> 512 dvd k) (map length ?ds)"
    by (simp add: list.pred_map comp_def)
  then have "list_all (\<lambda>d. length d < 2 ^ 32 \<and> 512 dvd length d) ?ds"
    using assms(2) unfolding len(1) by (simp add: request_ok_def list.pred_map comp_def)
  from qcow_read_sector_ok [OF assms(1) this, of sector z 0] assms(3) len(2) obtain s ds where
    "qcow_read_sector z False sector ?ds 0 q = Some (Ret (q\<lparr>q_l2 := s\<rparr>, ds, int (length ?as)))"
    "concat ds = map (vbyte q) [unat sector * 512..<unat sector * 512 + length ?as]" "qcow_ok (q\<lparr>q_l2 := s\<rparr>)"
    by auto
  then show ?thesis
    using mp by (intro exI [of _ s]) (simp add: qcow_read_op_def Let_def rd_at_mapped wr_at_mapped)
qed

interpretation qcow: disk_reads "qcow_read_op z False" qcow_ok vbyte "\<lambda>q. unat (h_size (q_header q))" for z
proof unfold_locales
  fix d iov n m and sector :: u64
  assume "qcow_ok d" "request_ok iov n m" "unat sector * 512 + length (req_span iov n) \<le> unat (h_size (q_header d))"
  from qcow_read_op_ok [OF this, of z]
  show "\<exists>d'. qcow_read_op z False sector iov n m d =
      Some (Ret (d', put_bytes (req_span iov n) (map (vbyte d) [unat sector * 512..<unat sector * 512 + length (req_span iov n)]) m,
        int (length (req_span iov n)))) \<and>
    qcow_ok d' \<and> vbyte d' = vbyte d \<and> unat (h_size (q_header d')) = unat (h_size (q_header d))"
    by auto
qed

section \<open>Properties\<close>

text \<open>
  The file operations the QCOW code is modelled with are what the loops over interruptible system calls compute:
  whatever interruptions and short transfers occur, \<^verbatim>\<open>pread_in_full\<close> delivers the bytes of the file from the offset on (as many as there
  are, -1 when there are none), and \<^verbatim>\<open>pwrite_in_full\<close> stores the whole buffer at the offset, extending the file with zeroes where needed.
\<close>

theorem file_io_refines:
  assumes "no_fail (rw_sched f)" "f_bytes g = rw_bytes f" "\<not> f_rd_err g off" "\<not> f_wr_err g off" "unat off < 2 ^ 63"
  shows "(case pread_in_full_sys count (unat off) f of (f', buf, ret) \<Rightarrow>
            rw_bytes f' = rw_bytes f \<and>
            (case pread_in_full g count off of None \<Rightarrow> ret = -1 | Some bs \<Rightarrow> buf = bs \<and> ret = int (length bs))) \<and>
         (case pwrite_in_full_sys src (unat off) f of (f', ret) \<Rightarrow>
            ret = int (length src) \<and> pwrite_in_full g src off = Some (g\<lparr>f_bytes := rw_bytes f'\<rparr>))"
proof
  obtain f' buf ret where r: "pread_loop count (unat off) [] f = (f', buf, ret)"
    by (metis prod_cases3)
  from pread_loop_spec [OF r] assms show "case pread_in_full_sys count (unat off) f of (f', buf, ret) \<Rightarrow>
            rw_bytes f' = rw_bytes f \<and>
            (case pread_in_full g count off of None \<Rightarrow> ret = -1 | Some bs \<Rightarrow> buf = bs \<and> ret = int (length bs))"
    by (auto simp: pread_in_full_sys_def r pread_in_full_def Let_def)
  obtain f' ret where w: "pwrite_loop src (unat off) 0 f = (f', ret)"
    by fastforce
  from pwrite_loop_spec [OF w] assms have "rw_bytes f' = splice_at (rw_bytes f) (unat off) src" "ret = int (length src)"
    by auto
  then show "case pwrite_in_full_sys src (unat off) f of (f', ret) \<Rightarrow>
            ret = int (length src) \<and> pwrite_in_full g src off = Some (g\<lparr>f_bytes := rw_bytes f'\<rparr>)"
    using assms by (auto simp: pwrite_in_full_sys_def w pwrite_in_full_def Let_def splice_at_def)
qed

theorem file_io_refines_witness:
  "(case pread_in_full_sys 3 4 (short_file [Part 1]) of (f', buf, ret) \<Rightarrow> buf = [5] \<and> ret = 1) \<and>
   (case pwrite_in_full_sys [8, 9] 4 (short_file [Part 1, Fail 11]) of (f', ret) \<Rightarrow> ret = 2 \<and> rw_bytes f' = [1, 2, 3, 4, 8, 9])"
proof -
  let ?g = "sample_file\<lparr>f_bytes := [1, 2, 3, 4, 5]\<rparr>"
  have rd: "pread_in_full ?g 3 4 = Some [5]" and wr: "pwrite_in_full ?g [8, 9] 4 = Some (?g\<lparr>f_bytes := [1, 2, 3, 4, 8, 9]\<rparr>)"
    by (simp_all add: pread_in_full_def pwrite_in_full_def sample_file_def)
  have "case pread_in_full_sys 3 4 (short_file [Part 1]) of (f', buf, ret) \<Rightarrow> buf = [5] \<and> ret = 1"
    using file_io_refines [of "short_file [Part 1]" ?g 4 3 "[]"] rd by (auto simp: short_file_def no_fail_def sample_file_def)
  moreover have "case pwrite_in_full_sys [8, 9] 4 (short_file [Part 1, Fail 11]) of (f', ret) \<Rightarrow> ret = 2 \<and> rw_bytes f' = [1, 2, 3, 4, 8, 9]"
    using file_io_refines [of "short_file [Part 1, Fail 11]" ?g 4 0 "[8, 9]"] wr by (auto simp: short_file_def no_fail_def sample_file_def)
  ultimately show ?thesis by blast
qed

text \<open>
  What is written to a raw disk image is read back: writing whole sectors inside the image and then reading them, into other buffers of the same total size,
  both succeed, call the callback with the number of bytes, and deliver the written bytes, for images accessed with system calls
  and for mapped images alike.
\<close>

theorem raw_disk_write_then_read:
  assumes "request_ok iov n m" "request_ok iov' n' m'" "length (req_span iov' n') = length (req_span iov n)" "distinct (req_span iov' n')"
    and "raw_ok (d_priv disk)" "d_ops disk = raw_image_regular_ops" "\<not> d_async disk" "d_has_cb disk"
    and "unat sector * 512 + length (req_span iov n) \<le> length (rw_bytes (d_priv disk))"
    and "length (d_priv mdisk) < 2 ^ 63" "d_ops mdisk = ro_ops" "\<not> d_async mdisk" "d_has_cb mdisk"
    and "unat sector * 512 + length (req_span iov n) \<le> length (d_priv mdisk)"
  defines "tot \<equiv> int (length (req_span iov n))"
  shows "(\<exists>disk' disk'' m''. disk_image__write disk sector iov n m = Some (Ret (disk', tot, Some tot)) \<and>
            disk_image__read disk' sector iov' n' m' = Some (Ret (disk'', m'', tot, Some tot)) \<and>
            get_bytes (req_span iov' n') m'' = get_bytes (req_span iov n) m) \<and>
         (\<exists>disk' disk'' m''. disk_image__write mdisk sector iov n m = Some (Ret (disk', tot, Some tot)) \<and>
            disk_image__read disk' sector iov' n' m' = Some (Ret (disk'', m'', tot, Some tot)) \<and>
            get_bytes (req_span iov' n') m'' = get_bytes (req_span iov n) m)"
  using raw.write_then_read [OF assms(5,1,2,3,9,4)] mmap.write_then_read [OF assms(10,1,2,3,14,4)] assms(6-8,11-13)
  by (auto simp: disk_image__write_def disk_image__read_def raw_image_regular_ops_def ro_ops_def callback_def tot_def Let_def)

definition raw_disk :: "rwfile disk_image" where
  "raw_disk = \<lparr>d_ops = raw_image_regular_ops, d_priv = \<lparr>rw_bytes = replicate 1024 0, rw_pos = 0, rw_sched = [Part 100, Fail 4]\<rparr>,
     d_size = 1024, d_async = False, d_has_cb = True\<rparr>"

definition mmap_disk :: "u8 list disk_image" where
  "mmap_disk = \<lparr>d_ops = ro_ops, d_priv = replicate 1024 0, d_size = 1024, d_async = False, d_has_cb = True\<rparr>"

definition sector_iov :: "iovec list" where
  "sector_iov = [\<lparr>iov_base = 0x1000, iov_len = 512\<rparr>, \<lparr>iov_base = 0x9000, iov_len = 1\<rparr>]"

lemma sample_disks:
  "raw_ok (d_priv raw_disk)" "d_ops raw_disk = raw_image_regular_ops" "\<not> d_async raw_disk" "d_has_cb raw_disk" "length (rw_bytes (d_priv raw_disk)) = 1024"
  "length (d_priv mmap_disk) = 1024" "d_ops mmap_disk = ro_ops" "\<not> d_async mmap_disk" "d_has_cb mmap_disk"
  by (simp_all add: raw_disk_def mmap_disk_def raw_ok_def no_fail_def)

lemma sector_iov_ok: "request_ok sector_iov 1 (\<lambda>_. Some b)" "req_span sector_iov 1 = span 0x1000 512"
  by (simp_all add: request_ok_def sector_iov_def)

theorem raw_disk_write_then_read_witness:
  "\<exists>disk' disk'' m''. disk_image__write raw_disk 1 sector_iov 1 (\<lambda>_. Some 7) = Some (Ret (disk', 512, Some 512)) \<and>
     disk_image__read disk' 1 sector_iov 1 (\<lambda>_. Some 0) = Some (Ret (disk'', m'', 512, Some 512)) \<and>
     get_bytes (span 0x1000 512) m'' = replicate 512 7"
proof -
  have "get_bytes (span 0x1000 512) (\<lambda>_. Some 7) = replicate 512 7"
    by (simp add: get_bytes_def map_replicate_const)
  then show ?thesis
    using raw_disk_write_then_read [OF sector_iov_ok(1) sector_iov_ok(1), of raw_disk 1 mmap_disk 7 0] distinct_span [of 512 "0x1000"]
    unfolding sector_iov_ok(2) by (simp add: sample_disks)
qed

text \<open>A request that starts behind a mapped image is not refused: the copy leaves the mapping.\<close>

lemma mapped_image_overrun:
  assumes "length priv \<le> unat (push_bit SECTOR_SHIFT sector)" "iov_len v \<noteq> 0"
  shows "raw_image__read_mmap sector (v # iov) (Suc n) m priv = Some Undefined"
    "n \<le> length iov \<Longrightarrow> raw_image__write_mmap sector (v # iov) (Suc n) m priv = Some Undefined"
proof -
  have "0 < unat (iov_len v)"
    using assms(2) by (simp add: unat_gt_0)
  then show "raw_image__read_mmap sector (v # iov) (Suc n) m priv = Some Undefined"
    "n \<le> length iov \<Longrightarrow> raw_image__write_mmap sector (v # iov) (Suc n) m priv = Some Undefined"
    using assms(1) by (auto simp: raw_image__read_mmap_def raw_image__write_mmap_def Let_def)
qed

text \<open>A failed read or write does not call the callback; a write to an image without a write operation is reported as done.\<close>

lemma failed_read_no_callback:
  assumes "op_read (d_ops disk) = Some rd" "rd sector iov n m (d_priv disk) = Some (Ret (d, m', tot))" "tot < 0"
  shows "disk_image__read disk sector iov n m = Some (Ret (disk\<lparr>d_priv := d\<rparr>, m', tot, None))"
  using assms by (simp add: disk_image__read_def)

lemma readonly_write_dropped:
  assumes "op_write (d_ops disk) = None" "\<not> d_async disk" "d_has_cb disk"
  shows "disk_image__write disk sector iov n m = Some (Ret (disk, 0, Some 0))"
  using assms by (simp add: disk_image__write_def callback_def)

end
