(* ===== verification/VirtioBlk.thy ===== *)
theory VirtioBlk
  imports VirtioServe Disk
begin

text \<open>
  The virtio block device (\<^verbatim>\<open>virtio/blk.c\<close>): taking requests from the queue, carrying them out on the disk image, storing the status byte and returning
  the buffer on the used ring. Request data is in host memory; the ring itself is the record of \<^verbatim>\<open>Virtqueue\<close>. Constants and the
  layout of the request header are those of the virtio specification. An image that completes requests asynchronously
  (\<^verbatim>\<open>disk->async\<close>) does so outside this model. The mutex around the used ring is not modelled.
\<close>

section \<open>State\<close>

definition VIRTIO_BLK_QUEUE_SIZE :: nat where "VIRTIO_BLK_QUEUE_SIZE = 256"
definition DISK_SEG_MAX :: nat where "DISK_SEG_MAX = VIRTIO_BLK_QUEUE_SIZE - 2"
definition VIRTIO_BLK_T_IN :: u32 where "VIRTIO_BLK_T_IN = 0"
definition VIRTIO_BLK_T_OUT :: u32 where "VIRTIO_BLK_T_OUT = 1"
definition VIRTIO_BLK_T_FLUSH :: u32 where "VIRTIO_BLK_T_FLUSH = 4"
definition VIRTIO_BLK_T_GET_ID :: u32 where "VIRTIO_BLK_T_GET_ID = 8"
definition VIRTIO_BLK_ID_BYTES :: nat where "VIRTIO_BLK_ID_BYTES = 20"
definition VIRTIO_BLK_S_OK :: u8 where "VIRTIO_BLK_S_OK = 0"
definition VIRTIO_BLK_S_IOERR :: u8 where "VIRTIO_BLK_S_IOERR = 1"

record blk_dev_req =
  r_iov :: "iovec list"
  r_out :: u16
  r_in :: u16
  r_head :: u16

record 'd blk_dev =
  b_vq :: virt_queue
  b_disk :: "'d disk_image"
  b_mem :: hmem
  b_signals :: nat

text \<open>
  What the device depends on: guest memory banks and the indirect tables in them, the comparison of event indices, the result of \<^verbatim>\<open>fsync\<close>, and
  the result of \<^verbatim>\<open>fstat\<close> on the image (device, special device and inode number, or the error).
\<close>

record blk_env =
  e_banks :: "kvm_mem_bank list"
  e_tables :: "u64 \<Rightarrow> vring_desc list"
  e_need_event :: "u16 \<Rightarrow> u16 \<Rightarrow> u16 \<Rightarrow> bool"
  e_fsync :: int
  e_stat :: "(nat \<times> nat \<times> nat) option"

section \<open>Completion\<close>

definition virtio_blk_complete :: "blk_env \<Rightarrow> blk_dev_req \<Rightarrow> int \<Rightarrow> 'd blk_dev \<Rightarrow> 'd blk_dev outcome" where
  "virtio_blk_complete env req len b =
     (let i = unat (r_out req) + unat (r_in req) - 1
      in if length (r_iov req) \<le> i then Undefined
         else bind_outcome (mem_write (b_mem b) (iov_base (r_iov req ! i)) [if len < 0 then VIRTIO_BLK_S_IOERR else VIRTIO_BLK_S_OK]) (\<lambda>m.
              bind_outcome (virt_queue__set_used_elem (b_vq b) (ucast (r_head req)) (word_of_int len)) (\<lambda>q.
              bind_outcome (virtio_queue__should_signal (e_need_event env) q) (\<lambda>(q, s).
                Ret (b\<lparr>b_vq := q, b_mem := m, b_signals := b_signals b + (if s then 1 else 0)\<rparr>)))))"

section \<open>Requests\<close>

definition le_bytes :: "u8 list \<Rightarrow> nat" where
  "le_bytes bs = foldr (\<lambda>b n. unat b + 256 * n) bs 0"

fun decimal :: "nat \<Rightarrow> u8 list" where
  "decimal n = (if n < 10 then [of_nat (48 + n)] else decimal (n div 10) @ [of_nat (48 + n mod 10)])"

declare decimal.simps [simp del]

text \<open>\<^verbatim>\<open>disk_image__get_serial\<close>: what is stored in the buffer of \<open>len\<close> bytes, and the new value of \<open>len\<close>.\<close>

definition disk_image__get_serial :: "(nat \<times> nat \<times> nat) option \<Rightarrow> nat \<Rightarrow> u8 list \<times> nat" where
  "disk_image__get_serial st len =
     (case st of
        None \<Rightarrow> ([], len)
      | Some (dev, rdev, ino) \<Rightarrow>
          let text = decimal dev @ decimal rdev @ decimal ino in (if len = 0 then [] else take (len - 1) text @ [0], length text))"

text \<open>Calling the callback of the image, when it was called.\<close>

definition run_callback :: "blk_env \<Rightarrow> blk_dev_req \<Rightarrow> int option \<Rightarrow> 'd blk_dev \<Rightarrow> 'd blk_dev outcome" where
  "run_callback env req cb b = (case cb of None \<Rightarrow> Ret b | Some len \<Rightarrow> virtio_blk_complete env req len b)"

text \<open>
  A read or write of a request with fewer than two buffers passes a negative count of buffers on, which the loops of the
  images count down from: \<open>Undefined\<close>.
\<close>

definition virtio_blk_do_io_request :: "blk_env \<Rightarrow> blk_dev_req \<Rightarrow> 'd blk_dev \<Rightarrow> 'd blk_dev outcome option" where
  "virtio_blk_do_io_request env req b =
     (case r_iov req of
        [] \<Rightarrow> Some Undefined
      | hdr # iov \<Rightarrow>
          bind_run (Some (mem_read (b_mem b) (iov_base hdr) 16)) (\<lambda>bs.
            let type = of_nat (le_bytes (take 4 bs)) :: u32; sector = of_nat (le_bytes (drop 8 bs)) :: u64;
                n = unat (r_out req) + unat (r_in req)
            in if type = VIRTIO_BLK_T_IN then
                 if n < 2 then Some Undefined
                 else bind_run (disk_image__read (b_disk b) sector iov (n - 2) (b_mem b)) (\<lambda>(disk, m, _, cb).
                   Some (run_callback env req cb (b\<lparr>b_disk := disk, b_mem := m\<rparr>)))
               else if type = VIRTIO_BLK_T_OUT then
                 if n < 2 then Some Undefined
                 else bind_run (disk_image__write (b_disk b) sector iov (n - 2) (b_mem b)) (\<lambda>(disk, _, cb).
                   Some (run_callback env req cb (b\<lparr>b_disk := disk\<rparr>)))
               else if type = VIRTIO_BLK_T_FLUSH then
                 bind_run (Some (disk_image__flush (e_fsync env) (b_disk b))) (\<lambda>(disk, block_cnt).
                   Some (virtio_blk_complete env req block_cnt (b\<lparr>b_disk := disk\<rparr>)))
               else if type = VIRTIO_BLK_T_GET_ID then
                 (case iov of
                    [] \<Rightarrow> Some Undefined
                  | v # _ \<Rightarrow>
                      (case disk_image__get_serial (e_stat env) VIRTIO_BLK_ID_BYTES of (text, block_cnt) \<Rightarrow>
                         bind_run (Some (mem_write (b_mem b) (iov_base v) text)) (\<lambda>m.
                           Some (virtio_blk_complete env req (int block_cnt) (b\<lparr>b_mem := m\<rparr>)))))
               else Some (Ret b)))"

text \<open>
  One pass of the loop of \<^verbatim>\<open>virtio_blk_do_io\<close>, and the loop. The device has one request structure, with room for as many buffers,
  for each of its 256 descriptors; the index the guest gives is not checked.
\<close>

definition do_io_pass :: "blk_env \<Rightarrow> 'd blk_dev \<Rightarrow> 'd blk_dev outcome option" where
  "do_io_pass env b =
     bind_run (Some (virt_queue__pop (b_vq b))) (\<lambda>(q, head).
       if VIRTIO_BLK_QUEUE_SIZE \<le> unat head then Some Undefined
       else bind_run (Some (virt_queue__get_head_iov VIRTIO_BLK_QUEUE_SIZE (e_banks env) (e_tables env) q head)) (\<lambda>(iov, out, in', head).
         virtio_blk_do_io_request env \<lparr>r_iov = iov, r_out = out, r_in = in', r_head = head\<rparr> (b\<lparr>b_vq := q\<rparr>)))"

partial_function (option) virtio_blk_do_io :: "blk_env \<Rightarrow> 'd blk_dev \<Rightarrow> 'd blk_dev outcome option" where
  "virtio_blk_do_io env b =
     (case virt_queue__available (b_vq b) of (q, avail) \<Rightarrow>
        if \<not> avail then Some (Ret (b\<lparr>b_vq := q\<rparr>))
        else (case do_io_pass env (b\<lparr>b_vq := q\<rparr>) of
                None \<Rightarrow> None
              | Some (Ret b) \<Rightarrow> virtio_blk_do_io env b
              | Some Dies \<Rightarrow> Some Dies
              | Some Undefined \<Rightarrow> Some Undefined))"

definition get_host_features :: u32 where
  "get_host_features = push_bit 2 1 OR push_bit 9 1 OR push_bit 29 1 OR push_bit 28 1"

section \<open>Completion of a request\<close>

lemma virtio_blk_complete_ok:
  assumes "vq_ok (b_vq b)" "used_room seen (b_vq b)" "unat (r_out req) + unat (r_in req) = length (r_iov req)" "r_iov req \<noteq> []"
    "b_mem b (iov_base (last (r_iov req))) \<noteq> None" "0 \<le> len"
  shows "\<exists>q sig. virtio_blk_complete env req len b =
      Ret (b\<lparr>b_vq := q, b_mem := (b_mem b)(iov_base (last (r_iov req)) \<mapsto> VIRTIO_BLK_S_OK), b_signals := sig\<rparr>) \<and>
    same_offers (b_vq b) q \<and> completions seen q = completions seen (b_vq b) @ [(ucast (r_head req), word_of_int len)]"
proof -
  let ?m = "(b_mem b)(iov_base (last (r_iov req)) \<mapsto> VIRTIO_BLK_S_OK)"
  have nth: "r_iov req ! (length (r_iov req) - Suc 0) = last (r_iov req)" "\<not> length (r_iov req) \<le> length (r_iov req) - Suc 0"
    using assms(4) by (simp_all add: last_conv_nth not_le)
  have w: "mem_write (b_mem b) (iov_base (last (r_iov req))) [VIRTIO_BLK_S_OK] = Ret ?m"
    using assms(5) by (simp add: mem_write_def wr_at_def span_def)
  obtain q1 where q1: "virt_queue__set_used_elem (b_vq b) (ucast (r_head req)) (word_of_int len) = Ret q1" "same_offers (b_vq b) q1"
    "completions seen q1 = completions seen (b_vq b) @ [(ucast (r_head req), word_of_int len)]"
    using set_used_ok [OF assms(1,2)] by blast
  obtain q2 s where q2: "virtio_queue__should_signal (e_need_event env) q1 = Ret (q2, s)" "same_offers q1 q2" "completions seen q2 = completions seen q1"
    using should_signal_ok [of q1 "e_need_event env" seen] q1(2) unfolding same_offers_def by blast
  have "virtio_blk_complete env req len b =
      Ret (b\<lparr>b_vq := q2, b_mem := ?m, b_signals := b_signals b + (if s then 1 else 0)\<rparr>)"
    using nth w q1(1) q2(1) assms(3,6) by (simp add: virtio_blk_complete_def Let_def)
  then show ?thesis
    using q1(3) q2(3) same_offers_trans [OF q1(2) q2(2)]
    by (intro exI [of _ q2] exI [of _ "b_signals b + (if s then 1 else 0)"] conjI) simp_all
qed

section \<open>Reading and writing through the queue\<close>

text \<open>
  A request for whole sectors: the header, the data buffers and the status byte, with header fields \<open>type\<close> and \<open>sector\<close>,
  its data buffers apart from each other and from the status byte.
\<close>

definition data_iov :: "blk_dev_req \<Rightarrow> u64 list" where
  "data_iov req = req_span (tl (r_iov req)) (length (r_iov req) - 2)"

definition io_request :: "u32 \<Rightarrow> u64 \<Rightarrow> blk_dev_req \<Rightarrow> hmem \<Rightarrow> bool" where
  "io_request type sector req m \<longleftrightarrow>
     2 \<le> length (r_iov req) \<and> unat (r_out req) + unat (r_in req) = length (r_iov req) \<and>
     request_ok (tl (r_iov req)) (length (r_iov req) - 2) m \<and>
     mapped m (span (iov_base (hd (r_iov req))) 16) \<and>
     of_nat (le_bytes (take 4 (get_bytes (span (iov_base (hd (r_iov req))) 16) m))) = type \<and>
     of_nat (le_bytes (drop 8 (get_bytes (span (iov_base (hd (r_iov req))) 16) m))) = sector \<and>
     m (iov_base (last (r_iov req))) \<noteq> None \<and> iov_base (last (r_iov req)) \<notin> set (data_iov req) \<and> distinct (data_iov req)"

definition device_ok :: "u16 \<Rightarrow> 'd blk_dev \<Rightarrow> bool" where
  "device_ok seen b \<longleftrightarrow> vq_ok (b_vq b) \<and> used_room seen (b_vq b) \<and> \<not> d_async (b_disk b) \<and> d_has_cb (b_disk b)"

lemma io_request_iov:
  assumes "io_request type sector req m"
  obtains hdr iov where "r_iov req = hdr # iov" "iov \<noteq> []" "unat (r_out req) + unat (r_in req) = length iov + 1"
    "request_ok iov (length iov - 1) m" "data_iov req = req_span iov (length iov - 1)" "last (r_iov req) = last iov"
    "mem_read m (iov_base hdr) 16 = Ret (get_bytes (span (iov_base hdr) 16) m)"
    "of_nat (le_bytes (take 4 (get_bytes (span (iov_base hdr) 16) m))) = type"
    "of_nat (le_bytes (drop 8 (get_bytes (span (iov_base hdr) 16) m))) = sector"
proof -
  obtain hdr iov where "r_iov req = hdr # iov" "iov \<noteq> []"
    using assms by (cases "r_iov req"; cases "tl (r_iov req)") (auto simp: io_request_def)
  then show thesis
    using assms by (intro that [of hdr iov]) (auto simp: io_request_def data_iov_def mem_read_def rd_at_mapped numeral_2_eq_2)
qed

context disk_reads
begin

lemma blk_read_request:
  assumes "io_request VIRTIO_BLK_T_IN sector req (b_mem b)" "device_ok seen b"
    and "op_read (d_ops (b_disk b)) = Some rd" "ok (d_priv (b_disk b))"
    and "unat sector * 512 + length (data_iov req) \<le> dsize (d_priv (b_disk b))"
  shows "\<exists>b'. virtio_blk_do_io_request env req b = Some (Ret b') \<and> same_offers (b_vq b) (b_vq b') \<and>
    completions seen (b_vq b') = completions seen (b_vq b) @ [(ucast (r_head req), of_nat (length (data_iov req)))] \<and>
    get_bytes (data_iov req) (b_mem b') = map (byte (d_priv (b_disk b))) [unat sector * 512..<unat sector * 512 + length (data_iov req)] \<and>
    b_mem b' (iov_base (last (r_iov req))) = Some VIRTIO_BLK_S_OK \<and>
    (\<forall>a. a \<notin> set (data_iov req) \<and> a \<noteq> iov_base (last (r_iov req)) \<longrightarrow> b_mem b' a = b_mem b a) \<and>
    ok (d_priv (b_disk b')) \<and> byte (d_priv (b_disk b')) = byte (d_priv (b_disk b)) \<and> dsize (d_priv (b_disk b')) = dsize (d_priv (b_disk b)) \<and>
    d_ops (b_disk b') = d_ops (b_disk b)"
proof -
  obtain hdr iov where req: "r_iov req = hdr # iov" "iov \<noteq> []" "unat (r_out req) + unat (r_in req) = length iov + 1"
    "request_ok iov (length iov - 1) (b_mem b)" "data_iov req = req_span iov (length iov - 1)" "last (r_iov req) = last iov"
    "mem_read (b_mem b) (iov_base hdr) 16 = Ret (get_bytes (span (iov_base hdr) 16) (b_mem b))"
    "of_nat (le_bytes (take 4 (get_bytes (span (iov_base hdr) 16) (b_mem b)))) = VIRTIO_BLK_T_IN"
    "of_nat (le_bytes (drop 8 (get_bytes (span (iov_base hdr) 16) (b_mem b)))) = sector"
    using assms(1) by (rule io_request_iov)
  let ?st = "iov_base (last iov)" and ?d = "d_priv (b_disk b)"
  let ?bs = "map (byte ?d) [unat sector * 512..<unat sector * 512 + length (data_iov req)]"
  let ?m = "put_bytes (data_iov req) ?bs (b_mem b)"
  from rd_law [OF assms(4) req(4), of sector] assms(5) obtain d' where
    d': "rd sector iov (length iov - 1) (b_mem b) ?d = Some (Ret (d', ?m, int (length (data_iov req))))" "ok d'" "byte d' = byte ?d" "dsize d' = dsize ?d"
    unfolding req(5) by blast
  let ?disk = "(b_disk b)\<lparr>d_priv := d'\<rparr>"
  let ?b = "b\<lparr>b_disk := ?disk, b_mem := ?m\<rparr>"
  have rd: "disk_image__read (b_disk b) sector iov (length iov - 1) (b_mem b) =
      Some (Ret (?disk, ?m, int (length (data_iov req)), Some (int (length (data_iov req)))))"
    using d'(1) assms(2,3) by (simp add: disk_image__read_def callback_def device_ok_def Let_def)
  have st: "?st \<notin> set (data_iov req)" "distinct (data_iov req)" "b_mem b ?st \<noteq> None"
    using assms(1) req(6) by (simp_all add: io_request_def)
  then have "b_mem ?b ?st \<noteq> None"
    by (simp add: put_bytes_other)
  then obtain q sig where q: "virtio_blk_complete env req (int (length (data_iov req))) ?b =
      Ret (?b\<lparr>b_vq := q, b_mem := ?m(?st \<mapsto> VIRTIO_BLK_S_OK), b_signals := sig\<rparr>)"
    "same_offers (b_vq b) q" "completions seen q = completions seen (b_vq b) @ [(ucast (r_head req), of_nat (length (data_iov req)))]"
    using virtio_blk_complete_ok [of ?b seen req "int (length (data_iov req))" env] assms(2) req(1,2,3,6) by (auto simp: device_ok_def)
  let ?b' = "?b\<lparr>b_vq := q, b_mem := ?m(?st \<mapsto> VIRTIO_BLK_S_OK), b_signals := sig\<rparr>"
  have "virtio_blk_do_io_request env req b = Some (Ret ?b')"
    using req(1-3,7-9) rd q(1) by (simp add: virtio_blk_do_io_request_def Let_def run_callback_def)
  moreover have "get_bytes (data_iov req) (?m(?st \<mapsto> VIRTIO_BLK_S_OK)) = get_bytes (data_iov req) ?m"
    using st(1) by (auto simp: get_bytes_def)
  then have "get_bytes (data_iov req) (b_mem ?b') = ?bs"
    using st(2) by (simp add: get_put_same)
  ultimately show ?thesis
    using q(2,3) d'(2-4) req(6) by (intro exI [of _ ?b']) (auto simp: put_bytes_other)
qed

end

context disk_writes
begin

lemma blk_write_request:
  assumes "io_request VIRTIO_BLK_T_OUT sector req (b_mem b)" "device_ok seen b"
    and "op_write (d_ops (b_disk b)) = Some wr" "ok (d_priv (b_disk b))"
    and "unat sector * 512 + length (data_iov req) \<le> dsize (d_priv (b_disk b))"
  shows "\<exists>b'. virtio_blk_do_io_request env req b = Some (Ret b') \<and> same_offers (b_vq b) (b_vq b') \<and>
    completions seen (b_vq b') = completions seen (b_vq b) @ [(ucast (r_head req), of_nat (length (data_iov req)))] \<and>
    b_mem b' = (b_mem b)(iov_base (last (r_iov req)) \<mapsto> VIRTIO_BLK_S_OK) \<and>
    ok (d_priv (b_disk b')) \<and> dsize (d_priv (b_disk b')) = dsize (d_priv (b_disk b)) \<and> d_ops (b_disk b') = d_ops (b_disk b) \<and>
    (\<forall>i < dsize (d_priv (b_disk b)). byte (d_priv (b_disk b')) i =
      (if unat sector * 512 \<le> i \<and> i < unat sector * 512 + length (data_iov req)
       then get_bytes (data_iov req) (b_mem b) ! (i - unat sector * 512) else byte (d_priv (b_disk b)) i))"
proof -
  obtain hdr iov where req: "r_iov req = hdr # iov" "iov \<noteq> []" "unat (r_out req) + unat (r_in req) = length iov + 1"
    "request_ok iov (length iov - 1) (b_mem b)" "data_iov req = req_span iov (length iov - 1)" "last (r_iov req) = last iov"
    "mem_read (b_mem b) (iov_base hdr) 16 = Ret (get_bytes (span (iov_base hdr) 16) (b_mem b))"
    "of_nat (le_bytes (take 4 (get_bytes (span (iov_base hdr) 16) (b_mem b)))) = VIRTIO_BLK_T_OUT"
    "of_nat (le_bytes (drop 8 (get_bytes (span (iov_base hdr) 16) (b_mem b)))) = sector"
    using assms(1) by (rule io_request_iov)
  let ?st = "iov_base (last iov)" and ?d = "d_priv (b_disk b)"
  from wr_law [OF assms(4) req(4), of sector] assms(5) obtain d' where
    d': "wr sector iov (length iov - 1) (b_mem b) ?d = Some (Ret (d', int (length (data_iov req))))" "ok d'" "dsize d' = dsize ?d"
    "\<forall>i < dsize ?d. byte d' i = (if unat sector * 512 \<le> i \<and> i < unat sector * 512 + length (data_iov req)
       then get_bytes (data_iov req) (b_mem b) ! (i - unat sector * 512) else byte ?d i)"
    unfolding req(5) by blast
  let ?disk = "(b_disk b)\<lparr>d_priv := d'\<rparr>"
  let ?b = "b\<lparr>b_disk := ?disk\<rparr>"
  have wr: "disk_image__write (b_disk b) sector iov (length iov - 1) (b_mem b) =
      Some (Ret (?disk, int (length (data_iov req)), Some (int (length (data_iov req)))))"
    using d'(1) assms(2,3) by (simp add: disk_image__write_def callback_def device_ok_def Let_def)
  have "b_mem ?b ?st \<noteq> None"
    using assms(1) req(6) by (simp add: io_request_def)
  then obtain q sig where q: "virtio_blk_complete env req (int (length (data_iov req))) ?b =
      Ret (?b\<lparr>b_vq := q, b_mem := (b_mem b)(?st \<mapsto> VIRTIO_BLK_S_OK), b_signals := sig\<rparr>)"
    "same_offers (b_vq b) q" "completions seen q = completions seen (b_vq b) @ [(ucast (r_head req), of_nat (length (data_iov req)))]"
    using virtio_blk_complete_ok [of ?b seen req "int (length (data_iov req))" env] assms(2) req(1,2,3,6) by (auto simp: device_ok_def)
  let ?b' = "?b\<lparr>b_vq := q, b_mem := (b_mem b)(?st \<mapsto> VIRTIO_BLK_S_OK), b_signals := sig\<rparr>"
  have types: "VIRTIO_BLK_T_OUT \<noteq> VIRTIO_BLK_T_IN"
    by (simp add: VIRTIO_BLK_T_OUT_def VIRTIO_BLK_T_IN_def)
  have "virtio_blk_do_io_request env req b = Some (Ret ?b')"
    using req(1-3,7-9) wr q(1) types by (simp add: virtio_blk_do_io_request_def Let_def run_callback_def)
  then show ?thesis
    using q(2,3) d'(2-4) req(6) by (intro exI [of _ ?b']) simp
qed

end

section \<open>From the queue to the disk\<close>

text \<open>A device with one request pending, which starts at descriptor \<open>h\<close> and has the buffers of \<open>req\<close>.\<close>

definition one_request :: "blk_env \<Rightarrow> u16 \<Rightarrow> blk_dev_req \<Rightarrow> 'd blk_dev \<Rightarrow> bool" where
  "one_request env h req b \<longleftrightarrow> pending (b_vq b) = [h] \<and> unat h < VIRTIO_BLK_QUEUE_SIZE \<and> r_head req = h \<and>
     virt_queue__get_head_iov VIRTIO_BLK_QUEUE_SIZE (e_banks env) (e_tables env) (b_vq b) h = Ret (r_iov req, r_out req, r_in req, h)"

lemma get_head_iov_cong:
  assumes "map_option vr_desc (vq_vring q') = map_option vr_desc (vq_vring q)" "map_option vr_num (vq_vring q') = map_option vr_num (vq_vring q)"
  shows "virt_queue__get_head_iov cap banks tables q' h = virt_queue__get_head_iov cap banks tables q h"
  using assms by (cases "vq_vring q"; cases "vq_vring q'") (auto simp: virt_queue__get_head_iov_def with_ring_def Let_def)

lemma available_same:
  assumes "vq_ok q" "virt_queue__available q = (q', a)"
  shows "same_offers q q'" "completions seen q' = completions seen q" "used_room seen q' = used_room seen q"
  using assms available_spec [OF assms]
  by (auto elim!: vq_okE simp: virt_queue__available_def same_offers_def completions_def used_room_def Let_def split: if_splits)

lemma pop_frame:
  assumes "virt_queue__pop q = Ret (q', h)"
  shows "vq_vring q' = vq_vring q"
  using assms by (auto simp: virt_queue__pop_def with_ring_def Let_def split: option.splits if_splits)

text \<open>The loop serves the one request and ends, when carrying out the request returns and leaves no other pending.\<close>

lemma do_io_one:
  assumes "one_request env h req b" "device_ok seen b"
    and serve: "\<And>b1. b_mem b1 = b_mem b \<Longrightarrow> b_disk b1 = b_disk b \<Longrightarrow> device_ok seen b1 \<Longrightarrow>
      \<exists>b2. virtio_blk_do_io_request env req b1 = Some (Ret b2) \<and> same_offers (b_vq b1) (b_vq b2) \<and>
        completions seen (b_vq b2) = completions seen (b_vq b1) @ cs \<and> P (b_mem b2) (b_disk b2)"
  shows "\<exists>b'. virtio_blk_do_io env b = Some (Ret b') \<and> pending (b_vq b') = [] \<and> vq_ok (b_vq b') \<and>
    completions seen (b_vq b') = completions seen (b_vq b) @ cs \<and> P (b_mem b') (b_disk b')"
proof -
  have ok: "vq_ok (b_vq b)" and pend: "pending (b_vq b) = [h]"
    using assms(1,2) by (simp_all add: one_request_def device_ok_def)
  obtain q1 a where q1: "virt_queue__available (b_vq b) = (q1, a)"
    by fastforce
  note av = available_spec [OF ok q1] available_same [OF ok q1]
  obtain q2 where q2: "virt_queue__pop q1 = Ret (q2, h)" "vq_ok q2" "pending q2 = []"
    using pop_spec [OF av(1), of h "[]"] av(2) pend by auto
  have ring: "vq_vring q2 = vq_vring q1"
    by (rule pop_frame [OF q2(1)])
  have iov: "virt_queue__get_head_iov VIRTIO_BLK_QUEUE_SIZE (e_banks env) (e_tables env) q2 h = Ret (r_iov req, r_out req, r_in req, h)"
    using get_head_iov_cong [of q2 "b_vq b"] ring av(4) [of] assms(1) by (simp add: same_offers_def one_request_def)
  let ?b = "b\<lparr>b_vq := q2\<rparr>"
  have "device_ok seen ?b"
    using assms(2) q2(2) ring av(6) [of seen] by (simp add: device_ok_def used_room_def)
  then obtain b2 where b2: "virtio_blk_do_io_request env req ?b = Some (Ret b2)" "same_offers q2 (b_vq b2)"
    "completions seen (b_vq b2) = completions seen q2 @ cs" "P (b_mem b2) (b_disk b2)"
    using serve [of ?b] by auto
  have comp: "completions seen q2 = completions seen (b_vq b)"
    using ring av(5) [of seen] by (simp add: completions_def)
  have same: "\<lparr>r_iov = r_iov req, r_out = r_out req, r_in = r_in req, r_head = h\<rparr> = req"
    using assms(1) by (simp add: one_request_def)
  have pass: "do_io_pass env (b\<lparr>b_vq := q1\<rparr>) = Some (Ret b2)"
    using q2(1) iov b2(1) assms(1) by (simp add: do_io_pass_def one_request_def same)
  obtain q3 a3 where q3: "virt_queue__available (b_vq b2) = (q3, a3)"
    by fastforce
  have ok2: "vq_ok (b_vq b2)" "pending (b_vq b2) = []"
    using b2(2) q2(3) by (simp_all add: same_offers_def)
  note av3 = available_spec [OF ok2(1) q3] available_same [OF ok2(1) q3]
  have "virtio_blk_do_io env b = Some (Ret (b2\<lparr>b_vq := q3\<rparr>))"
    using q1 pend av(3) pass q3 ok2(2) av3(3) by (simp add: virtio_blk_do_io.simps [of env b] virtio_blk_do_io.simps [of env b2])
  then show ?thesis
    using av3 ok2 b2(3,4) comp by simp
qed

text \<open>
  C1: A guest reads a QCOW2 disk through the virtio block device. With one well-formed read request on the queue, for sectors inside the
  disk, the device ends with no request pending; the data buffers, wherever they are in memory and however the request is divided into them, hold the bytes the
  tables of the image give for these sectors; the status byte says success; the buffer is returned on the used ring, once, with the number of
  bytes; no other memory changes and the disk keeps its contents.
\<close>

theorem blk_read_from_qcow:
  assumes "one_request env h req b" "device_ok seen b" "io_request VIRTIO_BLK_T_IN sector req (b_mem b)"
    and "d_ops (b_disk b) = qcow_disk_readonly_ops z False" "qcow_ok (d_priv (b_disk b))"
    and "unat sector * 512 + length (data_iov req) \<le> unat (h_size (q_header (d_priv (b_disk b))))"
  shows "\<exists>b'. virtio_blk_do_io env b = Some (Ret b') \<and> pending (b_vq b') = [] \<and>
    completions seen (b_vq b') = completions seen (b_vq b) @ [(ucast h, of_nat (length (data_iov req)))] \<and>
    get_bytes (data_iov req) (b_mem b') = map (vbyte (d_priv (b_disk b))) [unat sector * 512..<unat sector * 512 + length (data_iov req)] \<and>
    b_mem b' (iov_base (last (r_iov req))) = Some VIRTIO_BLK_S_OK \<and>
    (\<forall>a. a \<notin> set (data_iov req) \<and> a \<noteq> iov_base (last (r_iov req)) \<longrightarrow> b_mem b' a = b_mem b a) \<and>
    vbyte (d_priv (b_disk b')) = vbyte (d_priv (b_disk b))"
proof -
  let ?P = "\<lambda>m disk. get_bytes (data_iov req) m = map (vbyte (d_priv (b_disk b))) [unat sector * 512..<unat sector * 512 + length (data_iov req)] \<and>
    m (iov_base (last (r_iov req))) = Some VIRTIO_BLK_S_OK \<and>
    (\<forall>a. a \<notin> set (data_iov req) \<and> a \<noteq> iov_base (last (r_iov req)) \<longrightarrow> m a = b_mem b a) \<and> vbyte (d_priv disk) = vbyte (d_priv (b_disk b))"
  have op: "op_read (d_ops (b_disk b)) = Some (qcow_read_op z False)"
    using assms(4) by (simp add: qcow_disk_readonly_ops_def)
  have h: "r_head req = h"
    using assms(1) by (simp add: one_request_def)
  have "\<exists>b2. virtio_blk_do_io_request env req b1 = Some (Ret b2) \<and> same_offers (b_vq b1) (b_vq b2) \<and>
      completions seen (b_vq b2) = completions seen (b_vq b1) @ [(ucast h, of_nat (length (data_iov req)))] \<and> ?P (b_mem b2) (b_disk b2)"
    if "b_mem b1 = b_mem b" "b_disk b1 = b_disk b" "device_ok seen b1" for b1
    using qcow.blk_read_request [where b = b1 and env = env and req = req and sector = sector and seen = seen and z = z] that assms(3,5,6) op h
    by auto
  from do_io_one [OF assms(1,2) this] show ?thesis
    by blast
qed

text \<open>A queue of four descriptors with one request of three buffers, for the first sector.\<close>

definition blk_ring :: vring where
  "blk_ring = \<lparr>vr_num = 4, vr_desc =
     [\<lparr>d_addr = 0x1000, d_len = 16, d_flags = 1, d_next = 1\<rparr>, \<lparr>d_addr = 0x2000, d_len = 512, d_flags = 3, d_next = 2\<rparr>,
      \<lparr>d_addr = 0x3000, d_len = 1, d_flags = 2, d_next = 0\<rparr>, \<lparr>d_addr = 0, d_len = 0, d_flags = 0, d_next = 0\<rparr>],
     avail_flags = 0, avail_idx = 1, avail_ring = [0, 0, 0, 0], used_event = 0, used_idx = 0, used_ring = replicate 4 (0, 0), avail_event = 0\<rparr>"

definition blk_queue :: virt_queue where
  "blk_queue = virt_queue_zero\<lparr>vq_vring := Some blk_ring\<rparr>"

definition plain_blk_env :: blk_env where
  "plain_blk_env = \<lparr>e_banks = one_bank, e_tables = (\<lambda>_. []), e_need_event = (\<lambda>_ _ _. True), e_fsync = 0, e_stat = None\<rparr>"

definition sector_req :: blk_dev_req where
  "sector_req = \<lparr>r_iov = [\<lparr>iov_base = 0x70001000, iov_len = 16\<rparr>, \<lparr>iov_base = 0x70002000, iov_len = 512\<rparr>, \<lparr>iov_base = 0x70003000, iov_len = 1\<rparr>],
     r_out = 1, r_in = 2, r_head = 0\<rparr>"

definition blk_on :: "'d disk_image \<Rightarrow> hmem \<Rightarrow> 'd blk_dev" where
  "blk_on disk m = \<lparr>b_vq = blk_queue, b_disk = disk, b_mem = m, b_signals = 0\<rparr>"

lemma sector_req_data: "data_iov sector_req = span 0x70002000 512"
  by (simp add: data_iov_def sector_req_def)

lemma blk_queue_ok: "vq_ok blk_queue" "used_room 0 blk_queue" "pending blk_queue = [0]" "completions 0 blk_queue = []"
  by (simp_all add: blk_queue_def blk_ring_def virt_queue_zero_def vq_ok_def vring_ok_def used_room_def pending_def window_def slot_def completions_def)

lemma blk_one_request: "one_request plain_blk_env 0 sector_req (blk_on disk m)"
proof -
  have "linked (vr_desc blk_ring) 4 (0 # [1, 2])"
    by (simp add: blk_ring_def next_desc_def virt_desc__test_flag_def VRING_DESC_F_NEXT_def)
  from head_iov_loop_linked [OF this, of "[]" 256 one_bank 0 0]
  have "virt_queue__get_head_iov VIRTIO_BLK_QUEUE_SIZE one_bank (\<lambda>_. []) blk_queue 0 = Ret (r_iov sector_req, r_out sector_req, r_in sector_req, 0)"
    by (simp add: virt_queue__get_head_iov_def VIRTIO_BLK_QUEUE_SIZE_def with_ring_def blk_queue_def blk_ring_def sector_req_def virt_desc__test_flag_def
        VRING_DESC_F_INDIRECT_def dev_writable_def VRING_DESC_F_WRITE_def desc_iov_def one_bank_def)
  then show ?thesis
    using blk_queue_ok(3) by (simp add: one_request_def blk_on_def plain_blk_env_def VIRTIO_BLK_QUEUE_SIZE_def sector_req_def)
qed

lemma blk_device_ok: "\<not> d_async disk \<Longrightarrow> d_has_cb disk \<Longrightarrow> device_ok 0 (blk_on disk m)"
  using blk_queue_ok by (simp add: device_ok_def blk_on_def)

lemma sector_req_io:
  assumes "mapped m (span 0x70001000 16)" "mapped m (span 0x70002000 512)" "m 0x70003000 \<noteq> None"
    "of_nat (le_bytes (take 4 (get_bytes (span 0x70001000 16) m))) = type" "of_nat (le_bytes (drop 8 (get_bytes (span 0x70001000 16) m))) = sector"
  shows "io_request type sector sector_req m"
proof -
  have "0x70003000 \<notin> set (span 0x70002000 512)"
    by (subst in_span) simp_all
  then show ?thesis
    using assms distinct_span [of 512 "0x70002000"] sector_req_data
    by (simp add: io_request_def sector_req_def request_ok_def)
qed

definition small_qcow :: qcow where
  "small_qcow = sample_qcow\<lparr>q_header := (q_header sample_qcow)\<lparr>h_size := 512\<rparr>\<rparr>"

lemma small_qcow_ok: "qcow_ok small_qcow" "vbyte small_qcow = vbyte sample_qcow"
proof -
  have f: "q_l1_table small_qcow = q_l1_table sample_qcow" "q_file small_qcow = q_file sample_qcow" "cbits small_qcow = cbits sample_qcow"
    "l2bits small_qcow = l2bits sample_qcow" "q_table_size small_qcow = q_table_size sample_qcow"
    by (simp_all add: small_qcow_def)
  have lk: "qcow2_lookup small_qcow x = qcow2_lookup sample_qcow x" for x
    unfolding qcow2_lookup_def f by (rule refl)
  have rd: "readable small_qcow = readable sample_qcow"
    unfolding fun_eq_iff readable_def lk f by blast
  show "vbyte small_qcow = vbyte sample_qcow"
    unfolding fun_eq_iff vbyte_def lk f by blast
  have "qcow_inv small_qcow"
    using sample_qcow_ok(1) by (simp add: qcow_inv_def geometry_ok_def small_qcow_def)
  then show "qcow_ok small_qcow"
    using sample_qcow_ok rd by (simp add: qcow_ok_def) (simp add: small_qcow_def sample_qcow_def QCOW1_VERSION_def)
qed

definition qcow_disk :: "qcow disk_image" where
  "qcow_disk = \<lparr>d_ops = qcow_disk_readonly_ops (\<lambda>_ _. None) False, d_priv = small_qcow, d_size = 512, d_async = False, d_has_cb = True\<rparr>"

theorem blk_read_from_qcow_witness:
  "\<exists>b'. virtio_blk_do_io plain_blk_env (blk_on qcow_disk (\<lambda>_. Some 0)) = Some (Ret b') \<and> pending (b_vq b') = [] \<and>
     completions 0 (b_vq b') = [(0, 512)] \<and> get_bytes (span 0x70002000 512) (b_mem b') = map (vbyte small_qcow) [0..<512]"
proof -
  have z: "le_bytes (replicate n 0) = 0" for n
    by (induction n) (simp_all add: le_bytes_def)
  have io: "io_request VIRTIO_BLK_T_IN 0 sector_req (b_mem (blk_on qcow_disk (\<lambda>_. Some 0)))"
    using z by (simp add: blk_on_def VIRTIO_BLK_T_IN_def sector_req_io)
  have ready: "device_ok 0 (blk_on qcow_disk (\<lambda>_. Some 0))"
    by (rule blk_device_ok) (simp_all add: qcow_disk_def)
  have "d_ops (b_disk (blk_on qcow_disk (\<lambda>_. Some 0))) = qcow_disk_readonly_ops (\<lambda>_ _. None) False"
    "qcow_ok (d_priv (b_disk (blk_on qcow_disk (\<lambda>_. Some 0))))"
    "unat (0 :: u64) * 512 + length (data_iov sector_req) \<le> unat (h_size (q_header (d_priv (b_disk (blk_on qcow_disk (\<lambda>_. Some 0))))))"
    by (simp_all add: blk_on_def qcow_disk_def small_qcow_ok sector_req_data) (simp add: small_qcow_def)
  from blk_read_from_qcow [OF blk_one_request ready io this] show ?thesis
    unfolding sector_req_data using blk_queue_ok(4) by (auto simp: qcow_disk_def blk_on_def)
qed

text \<open>
  C2: A guest writes a raw disk through the virtio block device. With one well-formed write request on the queue, for sectors inside the image, the
  device ends with no request pending; the image, accessed with system calls that may be interrupted or transfer less than asked for, holds the data of
  the request in these sectors and is otherwise unchanged; the status byte says success, and nothing else in memory changes; the buffer is returned on the used ring, once, with the number of bytes.
\<close>

theorem blk_write_to_raw:
  assumes "one_request env h req b" "device_ok seen b" "io_request VIRTIO_BLK_T_OUT sector req (b_mem b)"
    and "d_ops (b_disk b) = raw_image_regular_ops" "raw_ok (d_priv (b_disk b))"
    and "unat sector * 512 + length (data_iov req) \<le> length (rw_bytes (d_priv (b_disk b)))"
  shows "\<exists>b'. virtio_blk_do_io env b = Some (Ret b') \<and> pending (b_vq b') = [] \<and>
    completions seen (b_vq b') = completions seen (b_vq b) @ [(ucast h, of_nat (length (data_iov req)))] \<and>
    b_mem b' = (b_mem b)(iov_base (last (r_iov req)) \<mapsto> VIRTIO_BLK_S_OK) \<and>
    length (rw_bytes (d_priv (b_disk b'))) = length (rw_bytes (d_priv (b_disk b))) \<and>
    (\<forall>i < length (rw_bytes (d_priv (b_disk b))). rw_bytes (d_priv (b_disk b')) ! i =
      (if unat sector * 512 \<le> i \<and> i < unat sector * 512 + length (data_iov req)
       then get_bytes (data_iov req) (b_mem b) ! (i - unat sector * 512) else rw_bytes (d_priv (b_disk b)) ! i))"
proof -
  let ?P = "\<lambda>m disk. m = (b_mem b)(iov_base (last (r_iov req)) \<mapsto> VIRTIO_BLK_S_OK) \<and>
    length (rw_bytes (d_priv disk)) = length (rw_bytes (d_priv (b_disk b))) \<and>
    (\<forall>i < length (rw_bytes (d_priv (b_disk b))). rw_bytes (d_priv disk) ! i =
      (if unat sector * 512 \<le> i \<and> i < unat sector * 512 + length (data_iov req)
       then get_bytes (data_iov req) (b_mem b) ! (i - unat sector * 512) else rw_bytes (d_priv (b_disk b)) ! i))"
  have op: "op_write (d_ops (b_disk b)) = Some raw_image__write"
    using assms(4) by (simp add: raw_image_regular_ops_def)
  have h: "r_head req = h"
    using assms(1) by (simp add: one_request_def)
  have "\<exists>b2. virtio_blk_do_io_request env req b1 = Some (Ret b2) \<and> same_offers (b_vq b1) (b_vq b2) \<and>
      completions seen (b_vq b2) = completions seen (b_vq b1) @ [(ucast h, of_nat (length (data_iov req)))] \<and> ?P (b_mem b2) (b_disk b2)"
    if "b_mem b1 = b_mem b" "b_disk b1 = b_disk b" "device_ok seen b1" for b1
    using raw.blk_write_request [where b = b1 and env = env and req = req and sector = sector and seen = seen] that assms(3,5,6) op h
    by auto
  from do_io_one [OF assms(1,2) this] show ?thesis
    by blast
qed

theorem blk_write_to_raw_witness:
  "\<exists>b'. virtio_blk_do_io plain_blk_env (blk_on raw_disk ((\<lambda>_. Some 0)(0x70001000 \<mapsto> 1))) = Some (Ret b') \<and> pending (b_vq b') = [] \<and>
     completions 0 (b_vq b') = [(0, 512)] \<and> b_mem b' 0x70003000 = Some VIRTIO_BLK_S_OK"
proof -
  let ?m = "(\<lambda>_. Some 0)(0x70001000 \<mapsto> 1) :: hmem"
  have tail: "get_bytes (span 0x70001001 15) ?m = replicate 15 0"
  proof -
    have "0x70001000 \<notin> set (span 0x70001001 15)"
      by (subst in_span) (simp_all add: unsigned_minus_1_eq_mask mask_eq_exp_minus_1)
    then have "get_bytes (span 0x70001001 15) ?m = get_bytes (span 0x70001001 15) (\<lambda>_. Some 0)"
      unfolding get_bytes_def by (intro map_cong) auto
    then show ?thesis
      by simp
  qed
  have hd: "get_bytes (span 0x70001000 1) ?m = [1]"
    by (simp add: span_def get_bytes_def)
  have z: "get_bytes (span 0x70001000 16) ?m = 1 # replicate 15 0"
    using span_append [of "0x70001000" 1 15] tail hd by simp
  have n: "le_bytes (replicate n 0) = 0" for n
    by (induction n) (simp_all add: le_bytes_def)
  have l: "le_bytes (take 4 (1 # replicate 15 0)) = 1" "le_bytes (drop 8 (1 # replicate 15 0)) = 0"
    using n by (simp_all add: le_bytes_def [of "1 # _"] numeral_eq_Suc [of num.One]) (simp add: le_bytes_def)
  have mp: "mapped ?m as" for as
    by (induction as) simp_all
  have io: "io_request VIRTIO_BLK_T_OUT 0 sector_req (b_mem (blk_on raw_disk ?m))"
    using z l mp by (simp add: blk_on_def VIRTIO_BLK_T_OUT_def sector_req_io)
  have ready: "device_ok 0 (blk_on raw_disk ?m)"
    by (rule blk_device_ok) (simp_all add: sample_disks)
  have "d_ops (b_disk (blk_on raw_disk ?m)) = raw_image_regular_ops" "raw_ok (d_priv (b_disk (blk_on raw_disk ?m)))"
    "unat (0 :: u64) * 512 + length (data_iov sector_req) \<le> length (rw_bytes (d_priv (b_disk (blk_on raw_disk ?m))))"
    by (simp_all add: blk_on_def sample_disks sector_req_data)
  from blk_write_to_raw [OF blk_one_request ready io this] show ?thesis
    unfolding sector_req_data using blk_queue_ok(4) by (auto simp: blk_on_def sector_req_def)
qed

text \<open>A read that fails on the disk returns neither a status nor the buffer: the request is lost.\<close>

lemma failed_read_lost:
  assumes "io_request VIRTIO_BLK_T_IN sector req (b_mem b)" "op_read (d_ops (b_disk b)) = Some rd"
    and "rd sector (tl (r_iov req)) (length (r_iov req) - 2) (b_mem b) (d_priv (b_disk b)) = Some (Ret (d, m, tot))" "tot < 0"
  shows "virtio_blk_do_io_request env req b = Some (Ret (b\<lparr>b_disk := (b_disk b)\<lparr>d_priv := d\<rparr>, b_mem := m\<rparr>))"
proof -
  obtain hdr iov where req: "r_iov req = hdr # iov" "iov \<noteq> []" "unat (r_out req) + unat (r_in req) = length iov + 1"
    "request_ok iov (length iov - 1) (b_mem b)" "data_iov req = req_span iov (length iov - 1)" "last (r_iov req) = last iov"
    "mem_read (b_mem b) (iov_base hdr) 16 = Ret (get_bytes (span (iov_base hdr) 16) (b_mem b))"
    "of_nat (le_bytes (take 4 (get_bytes (span (iov_base hdr) 16) (b_mem b)))) = VIRTIO_BLK_T_IN"
    "of_nat (le_bytes (drop 8 (get_bytes (span (iov_base hdr) 16) (b_mem b)))) = sector"
    using assms(1) by (rule io_request_iov)
  have "disk_image__read (b_disk b) sector iov (length iov - 1) (b_mem b) = Some (Ret ((b_disk b)\<lparr>d_priv := d\<rparr>, m, tot, None))"
    using assms(2-4) req(1) by (simp add: disk_image__read_def)
  then show ?thesis
    using req(1-3,7-9) by (simp add: virtio_blk_do_io_request_def Let_def run_callback_def)
qed

end
