(* ===== verification/Bytes.thy ===== *)
theory Bytes
  imports Prelude
begin

text \<open>
  Integers in memory: a word is stored with its least significant byte first, as on the hosts the code is built for. The
  conversions to network order, access to a field of a byte array, and the Internet checksum as RFC 1071 defines it, which
  is the reference for the routine of \<^verbatim>\<open>net/uip/csum.c\<close>.
\<close>

section \<open>Words as bytes\<close>

definition to_le :: "nat \<Rightarrow> 'a :: len word \<Rightarrow> u8 list" where
  "to_le n w = map (\<lambda>i. ucast (drop_bit (8 * i) w)) [0..<n]"

definition of_le :: "u8 list \<Rightarrow> 'a :: len word" where
  "of_le bs = foldr (\<lambda>b w. ucast b OR push_bit 8 w) bs 0"

lemma of_le_to_le_part:
  fixes w :: "'a :: len word"
  shows "of_le (map (\<lambda>i. ucast (drop_bit (8 * i) w) :: u8) [k..<k + n]) = take_bit (8 * n) (drop_bit (8 * k) w)"
proof (induction n arbitrary: k)
  case 0
  then show ?case by (simp add: of_le_def)
next
  case (Suc n)
  have step: "ucast (ucast x :: u8) OR push_bit 8 (take_bit (8 * n) (drop_bit 8 x)) = take_bit (8 * Suc n) x" for x :: "'a word"
    by (rule bit_word_eqI) (auto simp: bit_simps)
  have "of_le (map (\<lambda>i. ucast (drop_bit (8 * i) w) :: u8) [k..<k + Suc n]) =
      ucast (ucast (drop_bit (8 * k) w) :: u8) OR push_bit 8 (of_le (map (\<lambda>i. ucast (drop_bit (8 * i) w) :: u8) [Suc k..<Suc k + n]))"
    by (simp add: upt_conv_Cons of_le_def del: upt_Suc)
  also have "\<dots> = take_bit (8 * Suc n) (drop_bit (8 * k) w)"
    unfolding Suc.IH step [symmetric] by (simp add: add.commute)
  finally show ?case .
qed

lemma of_le_to_le: "LENGTH('a) \<le> 8 * n \<Longrightarrow> of_le (to_le n w) = (w :: 'a :: len word)"
  using of_le_to_le_part [of w 0 n] by (simp add: to_le_def take_bit_word_eq_self)

lemma length_to_le [simp]: "length (to_le n w) = n"
  by (simp add: to_le_def)

lemma to_le_Suc: "to_le (Suc n) w = ucast w # to_le n (drop_bit 8 w)"
  by (simp add: to_le_def upt_conv_Cons map_Suc_upt [symmetric] add.commute del: upt_Suc)

lemma of_le_Cons: "of_le (b # bs) = ucast b OR push_bit 8 (of_le bs)"
  by (simp add: of_le_def)

lemma of_le_high: "8 * length bs \<le> i \<Longrightarrow> \<not> bit (of_le bs :: 'a :: len word) i"
proof (induction bs arbitrary: i)
  case (Cons c bs)
  have "\<not> bit c i"
    using Cons.prems by (auto dest: bit_imp_le_length)
  then show ?case
    using Cons.IH [of "i - 8"] Cons.prems by (auto simp: of_le_Cons bit_simps)
qed (simp add: of_le_def)

lemma of_le_byte [simp]: "of_le [b] = (b :: u8)"
  by (simp add: of_le_def)

lemma to_le_of_le: "length bs = n \<Longrightarrow> 8 * n \<le> LENGTH('a) \<Longrightarrow> to_le n (of_le bs :: 'a :: len word) = bs"
proof (induction bs arbitrary: n)
  case Nil
  then show ?case by (simp add: to_le_def)
next
  case (Cons b bs)
  then obtain k where k: "n = Suc k" "length bs = k" "8 * Suc k \<le> LENGTH('a)" by (cases n) auto
  have hd: "ucast (ucast b OR push_bit 8 (x :: 'a word)) = b" for x
    by (rule bit_word_eqI) (use k(3) in \<open>auto simp: bit_simps\<close>)
  have tl: "drop_bit 8 (ucast b OR push_bit 8 (of_le bs :: 'a word)) = (of_le bs :: 'a word)"
  proof (rule bit_word_eqI)
    fix i assume "i < LENGTH('a)"
    have "\<not> bit (of_le bs :: 'a word) i" if "8 * k \<le> i"
      using that k(2) of_le_high [of bs i] by simp
    moreover have "\<not> bit b (8 + i)"
      by (auto dest: bit_imp_le_length)
    ultimately show "bit (drop_bit 8 (ucast b OR push_bit 8 (of_le bs :: 'a word))) i = bit (of_le bs :: 'a word) i"
      using k(3) \<open>i < LENGTH('a)\<close> by (cases "8 * k \<le> i") (auto simp: bit_simps)
  qed
  show ?case
    using Cons.IH [of k] k hd tl by (simp add: to_le_Suc of_le_Cons)
qed

section \<open>Network order\<close>

definition htons :: "u16 \<Rightarrow> u16" where
  "htons w = of_le (rev (to_le 2 w))"

definition htonl :: "u32 \<Rightarrow> u32" where
  "htonl w = of_le (rev (to_le 4 w))"

lemma to_le_htons [simp]: "to_le 2 (htons w) = rev (to_le 2 w)"
  by (simp add: htons_def to_le_of_le)

lemma to_le_htonl [simp]: "to_le 4 (htonl w) = rev (to_le 4 w)"
  by (simp add: htonl_def to_le_of_le)

lemma htons_htons [simp]: "htons (htons w) = w"
  by (simp add: htons_def to_le_of_le of_le_to_le)

lemma htonl_htonl [simp]: "htonl (htonl w) = w"
  by (simp add: htonl_def to_le_of_le of_le_to_le)

lemma htons_inject [simp]: "htons v = htons w \<longleftrightarrow> v = w"
  by (metis htons_htons)

lemma htonl_inject [simp]: "htonl v = htonl w \<longleftrightarrow> v = w"
  by (metis htonl_htonl)

section \<open>Fields\<close>

definition field :: "nat \<Rightarrow> nat \<Rightarrow> u8 list \<Rightarrow> u8 list" where
  "field off n bs = take n (drop off bs)"

definition put_at :: "nat \<Rightarrow> u8 list \<Rightarrow> u8 list \<Rightarrow> u8 list" where
  "put_at off xs bs = take off bs @ xs @ drop (off + length xs) bs"

lemma length_field [simp]: "off + n \<le> length bs \<Longrightarrow> length (field off n bs) = n"
  by (simp add: field_def)

lemma length_put_at [simp]: "off + length xs \<le> length bs \<Longrightarrow> length (put_at off xs bs) = length bs"
  by (simp add: put_at_def)

lemma field_put_same: "off + length xs \<le> length bs \<Longrightarrow> length xs = n \<Longrightarrow> field off n (put_at off xs bs) = xs"
  by (simp add: field_def put_at_def)

lemma field_put_other:
  assumes "off + length xs \<le> length bs" "o' + n \<le> off \<or> off + length xs \<le> o'"
  shows "field o' n (put_at off xs bs) = field o' n bs"
  using assms
proof (elim disjE)
  assume le: "o' + n \<le> off"
  then have "o' \<le> off" "n \<le> off - o'" by simp_all
  then show ?thesis
    using assms(1) le by (simp add: field_def put_at_def drop_take)
next
  assume "off + length xs \<le> o'"
  then have "off + (length xs + (o' - (off + length xs))) = o'" "off \<le> o'" by simp_all
  then show ?thesis
    using assms(1) by (simp add: field_def put_at_def add.commute add.left_commute)
qed

lemma field_append: "field off (n + k) bs = field off n bs @ field (off + n) k bs"
  unfolding field_def take_add drop_drop by (simp add: add.commute)

lemma field_field: "i + k \<le> n \<Longrightarrow> field i k (field off n bs) = field (off + i) k bs"
  by (simp add: field_def drop_take min_def add.commute)

lemma field_0: "field 0 n bs = take n bs"
  by (simp add: field_def)

lemma field_rest: "field off (length bs - off) bs = drop off bs"
  by (simp add: field_def)

lemma field_split: "k \<le> n \<Longrightarrow> field off n e = field off k e @ field (off + k) (n - k) e"
  using field_append [of off k "n - k" e] by simp

lemma field_put_inside: "o' + n \<le> length xs \<Longrightarrow> field o' n (put_at 0 xs bs) = field o' n xs"
  by (simp add: field_def put_at_def)

lemma field_put_within:
  assumes "off \<le> o'" "o' + length xs \<le> off + n" "off + n \<le> length bs"
  shows "field off n (put_at o' xs bs) = put_at (o' - off) xs (field off n bs)"
proof -
  have "off + (o' - off) = o'" "off + n = o' + length xs + (off + n - (o' + length xs))"
    using assms by simp_all
  then show ?thesis
    using assms by (auto simp: field_def put_at_def drop_take min_def)
qed

lemma put_at_twice: "length xs = length ys \<Longrightarrow> off + length ys \<le> length bs \<Longrightarrow> put_at off xs (put_at off ys bs) = put_at off xs bs"
  by (simp add: put_at_def)

section \<open>The Internet checksum\<close>

text \<open>The sum of the 16-bit words of a message in network order, an odd last byte being padded with zero. A message with its checksum is valid when the sum is zero in ones' complement arithmetic.\<close>

fun net_sum :: "u8 list \<Rightarrow> nat" where
  "net_sum (a # b # bs) = 256 * unat a + unat b + net_sum bs"
| "net_sum [a] = 256 * unat a"
| "net_sum [] = 0"

definition csum_valid :: "u8 list \<Rightarrow> bool" where
  "csum_valid bs \<longleftrightarrow> 65535 dvd net_sum bs"

lemma net_sum_append: "even (length xs) \<Longrightarrow> net_sum (xs @ ys) = net_sum xs + net_sum ys"
  by (induction xs rule: net_sum.induct) auto

lemma net_sum_pad: "odd (length xs) \<Longrightarrow> net_sum (xs @ [0]) = net_sum xs"
  by (induction xs rule: net_sum.induct) auto

lemma net_sum_split: "even off \<Longrightarrow> off \<le> length p \<Longrightarrow> net_sum p = net_sum (take off p) + net_sum (drop off p)"
  using net_sum_append [of "take off p" "drop off p"] by simp

lemma net_sum_put:
  assumes "even off" "off + 2 \<le> length p" "field off 2 p = [0, 0]" "length x = 2"
  shows "net_sum (put_at off x p) = net_sum p + net_sum x"
proof -
  have "net_sum p = net_sum (take off p) + net_sum (drop (off + 2) p)"
    using net_sum_split [of off p] net_sum_split [of 2 "drop off p"] assms by (simp add: field_def add.commute)
  then show ?thesis
    using assms by (simp add: put_at_def net_sum_append)
qed

end
