(* ===== verification/P9Pdu.thy ===== *)
theory P9Pdu
  imports Iovec Bytes
begin

text \<open>
  Messages of the 9P file server (\<^verbatim>\<open>virtio/9p-pdu.c\<close>): reading from and writing to the buffers of a request, and the
  encoding and decoding of message fields under the control of a format string.

  The variable arguments are a list of values; an argument of another type than the format says is \<open>Undefined\<close>. A structure is the list of the fields
  that the code passes on, in that order. A string is its characters without the final zero, \<open>None\<close> is a null pointer. \<open>old\<close> is what a
  variable holds where a short message does not overwrite it, \<open>oom\<close> whether \<^verbatim>\<open>malloc\<close> fails. Guest and host store integers with the least
  significant byte first.
\<close>

section \<open>Messages\<close>

record p9_pdu =
  read_offset :: nat
  write_offset :: nat
  in_iov :: "iovec list"
  out_iov :: "iovec list"

datatype p9_arg =
    Int8 u8
  | Int16 u16
  | Int32 u32
  | Int64 u64
  | Str "u8 list option"
  | Rec "p9_arg list"

section \<open>Reading and writing\<close>

fun pdu_read_loop :: "iovec list \<Rightarrow> nat \<Rightarrow> nat \<Rightarrow> hmem \<Rightarrow> u8 list outcome" where
  "pdu_read_loop [] offset n m = Ret []"
| "pdu_read_loop (v # iov) offset n m =
     (if n = 0 then Ret []
      else if unat (iov_len v) \<le> offset then pdu_read_loop iov (offset - unat (iov_len v)) n m
      else let len = min (unat (iov_len v) - offset) n
        in bind_outcome (mem_read m (iov_base v + of_nat offset) len) (\<lambda>bs.
             bind_outcome (pdu_read_loop iov 0 (n - len) m) (\<lambda>bs'. Ret (bs @ bs'))))"

definition virtio_p9_pdu_read :: "nat \<Rightarrow> hmem \<Rightarrow> p9_pdu \<Rightarrow> (p9_pdu \<times> u8 list) outcome" where
  "virtio_p9_pdu_read n m pdu =
     bind_outcome (pdu_read_loop (out_iov pdu) (read_offset pdu) n m) (\<lambda>bs.
       Ret (pdu\<lparr>read_offset := read_offset pdu + length bs\<rparr>, bs))"

text \<open>The second result is the number of bytes that were stored.\<close>

fun pdu_write_loop :: "iovec list \<Rightarrow> nat \<Rightarrow> u8 list \<Rightarrow> hmem \<Rightarrow> (hmem \<times> nat) outcome" where
  "pdu_write_loop [] offset bs m = Ret (m, 0)"
| "pdu_write_loop (v # iov) offset bs m =
     (if bs = [] then Ret (m, 0)
      else if unat (iov_len v) \<le> offset then pdu_write_loop iov (offset - unat (iov_len v)) bs m
      else let len = min (unat (iov_len v) - offset) (length bs)
        in bind_outcome (mem_write m (iov_base v + of_nat offset) (take len bs)) (\<lambda>m.
             bind_outcome (pdu_write_loop iov 0 (drop len bs) m) (\<lambda>(m, n). Ret (m, len + n))))"

definition virtio_p9_pdu_write :: "u8 list \<Rightarrow> hmem \<Rightarrow> p9_pdu \<Rightarrow> (p9_pdu \<times> hmem) outcome" where
  "virtio_p9_pdu_write bs m pdu =
     bind_outcome (pdu_write_loop (in_iov pdu) (write_offset pdu) bs m) (\<lambda>(m, copied).
       Ret (pdu\<lparr>write_offset := write_offset pdu + copied\<rparr>, m))"

section \<open>Integers\<close>

definition over :: "nat \<Rightarrow> (nat \<Rightarrow> u8) \<Rightarrow> u8 list \<Rightarrow> u8 list" where
  "over n old bs = bs @ map old [length bs..<n]"

section \<open>Decoding\<close>

definition fmt_qid :: string where "fmt_qid = ''bdq''"
definition fmt_wstat :: string where "fmt_wstat = ''wwdQdddqssss''"
definition fmt_iattr :: string where "fmt_iattr = ''ddddqqqqq''"
definition fmt_stat_dotl :: string where "fmt_stat_dotl = ''qQdddqqqqqqqqqqqqqqq''"

text \<open>
  The string case: the length is a signed 16-bit integer. With -1, a buffer of no bytes is allocated and the read is not
  bounded; with a smaller length the allocation fails.
\<close>

definition decode_str :: "bool \<Rightarrow> (nat \<Rightarrow> u8) \<Rightarrow> hmem \<Rightarrow> p9_pdu \<Rightarrow> (p9_pdu \<times> u8 list option) outcome" where
  "decode_str oom old m pdu =
     bind_outcome (virtio_p9_pdu_read 2 m pdu) (\<lambda>(pdu, bs).
       let len = sint (of_le (over 2 old bs) :: u16)
       in if oom \<or> len < -1 then Ret (pdu, None)
          else if len = -1 then Undefined
          else bind_outcome (virtio_p9_pdu_read (nat len) m pdu) (\<lambda>(pdu, bs). Ret (pdu, Some (over (nat len) old bs))))"

definition decode_struct_fmt :: "char \<Rightarrow> string option" where
  "decode_struct_fmt c = (if c = CHR ''Q'' then Some fmt_qid else if c = CHR ''S'' then Some fmt_wstat else if c = CHR ''I'' then Some fmt_iattr else None)"

text \<open>One character of the format that does not stand for a structure. The results are the values stored and the new value of \<open>retval\<close>.\<close>

definition decode_scalar :: "bool \<Rightarrow> (nat \<Rightarrow> u8) \<Rightarrow> hmem \<Rightarrow> char \<Rightarrow> int \<Rightarrow> p9_pdu \<Rightarrow> (p9_pdu \<times> p9_arg list \<times> int) outcome" where
  "decode_scalar oom old m c retval pdu =
     (if c = CHR ''b'' then bind_outcome (virtio_p9_pdu_read 1 m pdu) (\<lambda>(pdu, bs). Ret (pdu, [Int8 (of_le (over 1 old bs))], retval))
      else if c = CHR ''w'' then bind_outcome (virtio_p9_pdu_read 2 m pdu) (\<lambda>(pdu, bs). Ret (pdu, [Int16 (of_le (over 2 old bs))], retval))
      else if c = CHR ''d'' then bind_outcome (virtio_p9_pdu_read 4 m pdu) (\<lambda>(pdu, bs). Ret (pdu, [Int32 (of_le (over 4 old bs))], retval))
      else if c = CHR ''q'' then bind_outcome (virtio_p9_pdu_read 8 m pdu) (\<lambda>(pdu, bs). Ret (pdu, [Int64 (of_le (over 8 old bs))], retval))
      else if c = CHR ''s'' then
        bind_outcome (decode_str oom old m pdu) (\<lambda>(pdu, s). Ret (pdu, [Str s], if s = None then ENOMEM else retval))
      else Ret (pdu, [], EINVAL))"

text \<open>
  The loop over the format; \<open>nested\<close> is the call for a structure. \<open>retval\<close> is the value of that variable: an error does not end the loop.
  The calls are nested at most twice, which is what \<open>depth\<close> counts.
\<close>

type_synonym decoder = "string \<Rightarrow> int \<Rightarrow> p9_pdu \<Rightarrow> (p9_pdu \<times> p9_arg list \<times> int) outcome"

fun decode_loop :: "decoder \<Rightarrow> bool \<Rightarrow> (nat \<Rightarrow> u8) \<Rightarrow> hmem \<Rightarrow> decoder" where
  "decode_loop nested oom old m [] retval pdu = Ret (pdu, [], retval)"
| "decode_loop nested oom old m (c # fmt) retval pdu =
     bind_outcome
       (case decode_struct_fmt c of
          None \<Rightarrow> decode_scalar oom old m c retval pdu
        | Some f \<Rightarrow> bind_outcome (nested f 0 pdu) (\<lambda>(pdu, fs, r). Ret (pdu, [Rec fs], r)))
       (\<lambda>(pdu, vals, retval).
          bind_outcome (decode_loop nested oom old m fmt retval pdu) (\<lambda>(pdu, vals', retval). Ret (pdu, vals @ vals', retval)))"

primrec virtio_p9_decode :: "nat \<Rightarrow> bool \<Rightarrow> (nat \<Rightarrow> u8) \<Rightarrow> hmem \<Rightarrow> decoder" where
  "virtio_p9_decode 0 oom old m = decode_loop (\<lambda>_ _ _. Undefined) oom old m"
| "virtio_p9_decode (Suc depth) oom old m = decode_loop (virtio_p9_decode depth oom old m) oom old m"

definition virtio_p9_pdu_readf :: "bool \<Rightarrow> (nat \<Rightarrow> u8) \<Rightarrow> hmem \<Rightarrow> string \<Rightarrow> p9_pdu \<Rightarrow> (p9_pdu \<times> p9_arg list \<times> int) outcome" where
  "virtio_p9_pdu_readf oom old m fmt pdu = virtio_p9_decode 2 oom old m fmt 0 pdu"

section \<open>Encoding\<close>

definition USHRT_MAX :: nat where "USHRT_MAX = 65535"

text \<open>The bytes of one scalar argument; \<open>None\<close> when it is not of the type the format says.\<close>

fun scalar_bytes :: "char \<Rightarrow> p9_arg \<Rightarrow> u8 list option" where
  "scalar_bytes c (Int8 w) = (if c = CHR ''b'' then Some (to_le 1 w) else None)"
| "scalar_bytes c (Int16 w) = (if c = CHR ''w'' then Some (to_le 2 w) else None)"
| "scalar_bytes c (Int32 w) = (if c = CHR ''d'' then Some (to_le 4 w) else None)"
| "scalar_bytes c (Int64 w) = (if c = CHR ''q'' then Some (to_le 8 w) else None)"
| "scalar_bytes c _ = None"

definition encode_str :: "u8 list option \<Rightarrow> hmem \<Rightarrow> p9_pdu \<Rightarrow> (p9_pdu \<times> hmem) outcome" where
  "encode_str s m pdu =
     (let str = (case s of None \<Rightarrow> [] | Some str \<Rightarrow> str); len = min (length str) USHRT_MAX
      in bind_outcome (virtio_p9_pdu_write (to_le 2 (of_nat len :: u16)) m pdu) (\<lambda>(pdu, m). virtio_p9_pdu_write (take len str) m pdu))"

definition encode_struct_fmt :: "char \<Rightarrow> string option" where
  "encode_struct_fmt c = (if c = CHR ''Q'' then Some fmt_qid else if c = CHR ''S'' then Some fmt_wstat else if c = CHR ''A'' then Some fmt_stat_dotl else None)"

type_synonym encoder = "string \<Rightarrow> p9_arg list \<Rightarrow> int \<Rightarrow> hmem \<Rightarrow> p9_pdu \<Rightarrow> (p9_pdu \<times> hmem \<times> int) outcome"

definition encode_arg :: "encoder \<Rightarrow> char \<Rightarrow> p9_arg \<Rightarrow> int \<Rightarrow> hmem \<Rightarrow> p9_pdu \<Rightarrow> (p9_pdu \<times> hmem \<times> int) outcome" where
  "encode_arg nested c a retval m pdu =
     (case a of
        Str s \<Rightarrow> if c = CHR ''s'' then bind_outcome (encode_str s m pdu) (\<lambda>(pdu, m). Ret (pdu, m, retval)) else Undefined
      | Rec fs \<Rightarrow> (case encode_struct_fmt c of None \<Rightarrow> Undefined | Some f \<Rightarrow> nested f fs 0 m pdu)
      | _ \<Rightarrow> (case scalar_bytes c a of None \<Rightarrow> Undefined
              | Some bs \<Rightarrow> bind_outcome (virtio_p9_pdu_write bs m pdu) (\<lambda>(pdu, m). Ret (pdu, m, retval))))"

fun encode_loop :: "encoder \<Rightarrow> encoder" where
  "encode_loop nested [] args retval m pdu = Ret (pdu, m, retval)"
| "encode_loop nested (c # fmt) args retval m pdu =
     (if c \<in> set ''bwdqsQSA'' then
        (case args of
           [] \<Rightarrow> Undefined
         | a # args \<Rightarrow> bind_outcome (encode_arg nested c a retval m pdu) (\<lambda>(pdu, m, retval). encode_loop nested fmt args retval m pdu))
      else encode_loop nested fmt args EINVAL m pdu)"

primrec virtio_p9_pdu_encode :: "nat \<Rightarrow> encoder" where
  "virtio_p9_pdu_encode 0 = encode_loop (\<lambda>_ _ _ _ _. Undefined)"
| "virtio_p9_pdu_encode (Suc depth) = encode_loop (virtio_p9_pdu_encode depth)"

definition virtio_p9_pdu_writef :: "string \<Rightarrow> p9_arg list \<Rightarrow> hmem \<Rightarrow> p9_pdu \<Rightarrow> (p9_pdu \<times> hmem \<times> int) outcome" where
  "virtio_p9_pdu_writef fmt args m pdu = virtio_p9_pdu_encode 2 fmt args 0 m pdu"

section \<open>Buffers\<close>

lemma pdu_write_loop_ok:
  assumes "offset + length bs \<le> length (iov_span iov)" "mapped m (take (length bs) (drop offset (iov_span iov)))"
  shows "pdu_write_loop iov offset bs m = Ret (put_bytes (take (length bs) (drop offset (iov_span iov))) bs m, length bs)"
  using assms
proof (induction iov arbitrary: offset bs m)
  case Nil
  then show ?case by simp
next
  case (Cons v iov)
  let ?l = "unat (iov_len v)"
  show ?case
  proof (cases "bs = [] \<or> ?l \<le> offset")
    case True
    then show ?thesis
      using Cons.IH [of "offset - ?l" bs m] Cons.prems by auto
  next
    case False
    define c where "c = min (?l - offset) (length bs)"
    have split: "take (length bs) (drop offset (iov_span (v # iov))) = span (iov_base v + of_nat offset) c @ take (length bs - c) (iov_span iov)"
      using False by (auto simp: min_def c_def)
    have cn: "c \<le> length bs" "length bs - c \<le> length (iov_span iov)"
      using Cons.prems(1) False by (auto simp: c_def min_def)
    let ?m = "put_bytes (span (iov_base v + of_nat offset) c) (take c bs) m"
    have mp: "mapped m (span (iov_base v + of_nat offset) c)" "mapped m (take (length bs - c) (iov_span iov))"
      using Cons.prems(2) unfolding split by simp_all
    have "mem_write m (iov_base v + of_nat offset) (take c bs) = Ret ?m"
      using mp(1) cn by (simp add: mem_write_def wr_at_mapped)
    moreover have "pdu_write_loop iov 0 (drop c bs) ?m = Ret (put_bytes (take (length bs - c) (iov_span iov)) (drop c bs) ?m, length bs - c)"
      using Cons.IH [of 0 "drop c bs" ?m] mp(2) cn by simp
    moreover have "put_bytes (take (length bs) (drop offset (iov_span (v # iov)))) bs m = put_bytes (take (length bs - c) (iov_span iov)) (drop c bs) ?m"
      using put_bytes_append [of "span (iov_base v + of_nat offset) c" "take c bs" _ "drop c bs" m] cn unfolding split by simp
    ultimately show ?thesis
      using False cn by (simp add: Let_def c_def [symmetric])
  qed
qed

lemma pdu_read_loop_ok:
  assumes "offset + n \<le> length (iov_span iov)" "mapped m (take n (drop offset (iov_span iov)))"
  shows "pdu_read_loop iov offset n m = Ret (get_bytes (take n (drop offset (iov_span iov))) m)"
  using assms
proof (induction iov arbitrary: offset n)
  case Nil
  then show ?case by (simp add: get_bytes_def)
next
  case (Cons v iov)
  let ?l = "unat (iov_len v)"
  show ?case
  proof (cases "n = 0 \<or> ?l \<le> offset")
    case True
    then show ?thesis
      using Cons.IH [of "offset - ?l" n] Cons.prems by (auto simp: get_bytes_def)
  next
    case False
    define c where "c = min (?l - offset) n"
    have split: "take n (drop offset (iov_span (v # iov))) = span (iov_base v + of_nat offset) c @ take (n - c) (iov_span iov)"
      using False by (auto simp: min_def c_def)
    have cn: "c \<le> n" "n - c \<le> length (iov_span iov)"
      using Cons.prems(1) False by (auto simp: c_def min_def)
    have mp: "mapped m (span (iov_base v + of_nat offset) c)" "mapped m (take (n - c) (iov_span iov))"
      using Cons.prems(2) unfolding split by simp_all
    then show ?thesis
      using Cons.IH [of 0 "n - c"] False cn unfolding split
      by (simp add: Let_def c_def [symmetric] mem_read_def rd_at_mapped)
  qed
qed

text \<open>The part of the buffers of a message that the next \<open>n\<close> bytes are written to or read from.\<close>

definition out_area :: "p9_pdu \<Rightarrow> nat \<Rightarrow> u64 list" where
  "out_area pdu n = take n (drop (write_offset pdu) (iov_span (in_iov pdu)))"

definition in_area :: "p9_pdu \<Rightarrow> nat \<Rightarrow> u64 list" where
  "in_area pdu n = take n (drop (read_offset pdu) (iov_span (out_iov pdu)))"

definition has_room :: "hmem \<Rightarrow> p9_pdu \<Rightarrow> nat \<Rightarrow> bool" where
  "has_room m pdu n \<longleftrightarrow> write_offset pdu + n \<le> length (iov_span (in_iov pdu)) \<and> mapped m (out_area pdu n)"

definition holds :: "hmem \<Rightarrow> p9_pdu \<Rightarrow> u8 list \<Rightarrow> bool" where
  "holds m pdu bs \<longleftrightarrow> read_offset pdu + length bs \<le> length (iov_span (out_iov pdu)) \<and> mapped m (in_area pdu (length bs)) \<and>
     get_bytes (in_area pdu (length bs)) m = bs"

abbreviation moved_out :: "p9_pdu \<Rightarrow> nat \<Rightarrow> p9_pdu" where "moved_out pdu n \<equiv> pdu\<lparr>write_offset := write_offset pdu + n\<rparr>"
abbreviation moved_in :: "p9_pdu \<Rightarrow> nat \<Rightarrow> p9_pdu" where "moved_in pdu n \<equiv> pdu\<lparr>read_offset := read_offset pdu + n\<rparr>"

lemma pdu_write_ok:
  "has_room m pdu (length bs) \<Longrightarrow> virtio_p9_pdu_write bs m pdu = Ret (moved_out pdu (length bs), put_bytes (out_area pdu (length bs)) bs m)"
  by (simp add: virtio_p9_pdu_write_def pdu_write_loop_ok has_room_def out_area_def)

lemma pdu_read_ok:
  "holds m pdu bs \<Longrightarrow> virtio_p9_pdu_read (length bs) m pdu = Ret (moved_in pdu (length bs), bs)"
  by (simp add: virtio_p9_pdu_read_def pdu_read_loop_ok holds_def in_area_def)

lemma out_area_add: "out_area pdu (n + k) = out_area pdu n @ out_area (moved_out pdu n) k"
  unfolding out_area_def take_add drop_drop by (simp add: add.commute)

lemma in_area_add: "in_area pdu (n + k) = in_area pdu n @ in_area (moved_in pdu n) k"
  unfolding in_area_def take_add drop_drop by (simp add: add.commute)

lemma has_room_add:
  "has_room m pdu (n + k) \<Longrightarrow> has_room m pdu n \<and> has_room (put_bytes as bs m) (moved_out pdu n) k"
  by (auto simp: has_room_def out_area_add)

lemma holds_append: "holds m pdu (xs @ ys) \<longleftrightarrow> holds m pdu xs \<and> holds m (moved_in pdu (length xs)) ys"
proof -
  have "length (in_area pdu (length xs)) = length xs" if "read_offset pdu + length xs \<le> length (iov_span (out_iov pdu))"
    using that by (simp add: in_area_def)
  then show ?thesis
    by (auto simp: holds_def in_area_add)
qed

lemma put_out_area:
  assumes "has_room m pdu (length xs + length ys)"
  shows "put_bytes (out_area (moved_out pdu (length xs)) (length ys)) ys (put_bytes (out_area pdu (length xs)) xs m) =
    put_bytes (out_area pdu (length (xs @ ys))) (xs @ ys) m"
proof -
  have "length (out_area pdu (length xs)) = length xs"
    using assms by (auto simp: has_room_def out_area_def)
  then show ?thesis
    by (simp add: out_area_add put_bytes_append)
qed

section \<open>Integers\<close>

lemma over_full [simp]: "length bs = n \<Longrightarrow> over n old bs = bs"
  by (simp add: over_def)

section \<open>The wire format\<close>

text \<open>
  The bytes of a message, given its format and arguments: the reference for both directions. \<open>None\<close> when the arguments do not fit the format, use
  what only one direction knows, or have a string that is too long for the signed length of the decoder.
\<close>

fun wire_arg :: "(string \<Rightarrow> p9_arg list \<Rightarrow> u8 list option) \<Rightarrow> char \<Rightarrow> p9_arg \<Rightarrow> u8 list option" where
  "wire_arg nested c (Str (Some s)) =
     (if c = CHR ''s'' \<and> length s < 2 ^ 15 then Some (to_le 2 (of_nat (length s) :: u16) @ s) else None)"
| "wire_arg nested c (Str None) = None"
| "wire_arg nested c (Rec fs) =
     (if c = CHR ''Q'' then nested fmt_qid fs else if c = CHR ''S'' then nested fmt_wstat fs else None)"
| "wire_arg nested c a = scalar_bytes c a"

fun wire_loop :: "(string \<Rightarrow> p9_arg list \<Rightarrow> u8 list option) \<Rightarrow> string \<Rightarrow> p9_arg list \<Rightarrow> u8 list option" where
  "wire_loop nested [] [] = Some []"
| "wire_loop nested (c # fmt) (a # args) =
     (case wire_arg nested c a of
        None \<Rightarrow> None
      | Some bs \<Rightarrow> (case wire_loop nested fmt args of None \<Rightarrow> None | Some bs' \<Rightarrow> Some (bs @ bs')))"
| "wire_loop nested _ _ = None"

primrec wire :: "nat \<Rightarrow> string \<Rightarrow> p9_arg list \<Rightarrow> u8 list option" where
  "wire 0 = wire_loop (\<lambda>_ _. None)"
| "wire (Suc depth) = wire_loop (wire depth)"

text \<open>What an encoder and a decoder have to do with a format.\<close>

definition encodes :: "encoder \<Rightarrow> (string \<Rightarrow> p9_arg list \<Rightarrow> u8 list option) \<Rightarrow> bool" where
  "encodes enc w \<longleftrightarrow> (\<forall>fmt args bs m pdu. w fmt args = Some bs \<longrightarrow> has_room m pdu (length bs) \<longrightarrow>
     enc fmt args 0 m pdu = Ret (moved_out pdu (length bs), put_bytes (out_area pdu (length bs)) bs m, 0))"

definition decodes :: "hmem \<Rightarrow> decoder \<Rightarrow> (string \<Rightarrow> p9_arg list \<Rightarrow> u8 list option) \<Rightarrow> bool" where
  "decodes m dec w \<longleftrightarrow> (\<forall>fmt args bs pdu. w fmt args = Some bs \<longrightarrow> holds m pdu bs \<longrightarrow>
     dec fmt 0 pdu = Ret (moved_in pdu (length bs), args, 0))"

lemma scalar_bytes_char: "scalar_bytes c a = Some bs \<Longrightarrow> c \<in> set ''bwdq''"
  by (cases a) (auto split: if_splits)

lemma encode_str_ok:
  assumes "has_room m pdu (2 + length s)" "length s < 2 ^ 15"
  shows "encode_str (Some s) m pdu =
    Ret (moved_out pdu (2 + length s), put_bytes (out_area pdu (2 + length s)) (to_le 2 (of_nat (length s) :: u16) @ s) m)"
proof -
  let ?h = "to_le 2 (of_nat (length s) :: u16)"
  have h: "has_room m pdu (length ?h)" "has_room (put_bytes (out_area pdu 2) ?h m) (moved_out pdu 2) (length s)"
    using has_room_add [OF assms(1)] by simp_all
  show ?thesis
    using pdu_write_ok [OF h(1)] pdu_write_ok [OF h(2)] put_out_area [of m pdu ?h s] assms
    by (simp add: encode_str_def Let_def USHRT_MAX_def min_def add.assoc)
qed

lemma encode_arg_ok:
  assumes "encodes nested w" "wire_arg w c a = Some bs" "has_room m pdu (length bs)"
  shows "c \<in> set ''bwdqsQSA'' \<and> encode_arg nested c a 0 m pdu = Ret (moved_out pdu (length bs), put_bytes (out_area pdu (length bs)) bs m, 0)"
proof (cases a)
  case (Str so)
  then show ?thesis
    using assms(2,3) encode_str_ok [of m pdu] by (cases so) (auto simp: encode_arg_def split: if_splits)
next
  case (Rec fs)
  then show ?thesis
    using assms by (auto simp: encode_arg_def encode_struct_fmt_def encodes_def split: if_splits)
qed (use assms(2,3) pdu_write_ok [of m pdu bs] scalar_bytes_char in \<open>fastforce simp: encode_arg_def\<close>)+

lemma encode_loop_bytes:
  assumes "encodes nested w" "wire_loop w fmt args = Some bs" "has_room m pdu (length bs)"
  shows "encode_loop nested fmt args 0 m pdu = Ret (moved_out pdu (length bs), put_bytes (out_area pdu (length bs)) bs m, 0)"
  using assms
proof (induction w fmt args arbitrary: bs m pdu rule: wire_loop.induct)
  case (2 w c fmt a args)
  obtain xs ys where b: "wire_arg w c a = Some xs" "wire_loop w fmt args = Some ys" "bs = xs @ ys"
    using "2.prems"(2) by (auto split: option.splits)
  have room: "has_room m pdu (length xs + length ys)"
    using "2.prems"(3) b(3) by simp
  have r: "has_room m pdu (length xs)" "has_room (put_bytes (out_area pdu (length xs)) xs m) (moved_out pdu (length xs)) (length ys)"
    using has_room_add [OF room] by simp_all
  have "encode_loop nested fmt args 0 (put_bytes (out_area pdu (length xs)) xs m) (moved_out pdu (length xs)) =
      Ret (moved_out pdu (length bs), put_bytes (out_area pdu (length bs)) bs m, 0)"
    using "2.IH" [OF b(1) "2.prems"(1) b(2) r(2)] put_out_area [OF room] b(3) by (simp add: add.assoc)
  then show ?case
    using encode_arg_ok [OF "2.prems"(1) b(1) r(1)] by simp
qed auto

lemma virtio_p9_pdu_encode_ok: "encodes (virtio_p9_pdu_encode depth) (wire depth)"
proof (induction depth)
  case 0
  have "encodes (\<lambda>_ _ _ _ _. Undefined) (\<lambda>_ _. None)"
    by (simp add: encodes_def)
  then show ?case
    using encode_loop_bytes [of "\<lambda>_ _ _ _ _. Undefined" "\<lambda>_ _. None"] by (simp add: encodes_def)
next
  case (Suc depth)
  then show ?case
    using encode_loop_bytes [OF Suc] by (simp add: encodes_def)
qed

lemma decode_str_ok:
  assumes "holds m pdu (to_le 2 (of_nat (length s) :: u16) @ s)" "length s < 2 ^ 15"
  shows "decode_str False old m pdu = Ret (moved_in pdu (2 + length s), Some s)"
proof -
  let ?h = "to_le 2 (of_nat (length s) :: u16)"
  have h: "holds m pdu ?h" "holds m (moved_in pdu 2) s"
    using assms(1) by (simp_all add: holds_append)
  have "uint (of_nat (length s) :: u16) = int (length s)"
    using assms(2) by (simp add: unsigned_of_nat take_bit_eq_mod)
  then have "sint (of_nat (length s) :: u16) = int (length s)"
    using assms(2) by (simp add: sint_uint signed_take_bit_int_eq_self)
  then have "sint (of_le ?h :: u16) = int (length s)"
    by (simp add: of_le_to_le)
  then show ?thesis
    using pdu_read_ok [OF h(1)] pdu_read_ok [OF h(2)] by (simp add: decode_str_def Let_def add.assoc)
qed

lemma decode_scalar_ok:
  assumes "wire_arg w c a = Some bs" "\<And>fs. a \<noteq> Rec fs" "holds m pdu bs"
  shows "decode_struct_fmt c = None \<and> decode_scalar False old m c 0 pdu = Ret (moved_in pdu (length bs), [a], 0)"
proof (cases a)
  case (Str so)
  then show ?thesis
    using assms(1,3) decode_str_ok [of m pdu] by (cases so) (auto simp: decode_scalar_def decode_struct_fmt_def split: if_splits)
qed (use assms pdu_read_ok [of m pdu bs] in \<open>auto simp: decode_scalar_def decode_struct_fmt_def of_le_to_le split: if_splits\<close>)

lemma decode_loop_bytes:
  assumes "decodes m nested w" "wire_loop w fmt args = Some bs" "holds m pdu bs"
  shows "decode_loop nested False old m fmt 0 pdu = Ret (moved_in pdu (length bs), args, 0)"
  using assms
proof (induction w fmt args arbitrary: bs pdu rule: wire_loop.induct)
  case (2 w c fmt a args)
  obtain xs ys where b: "wire_arg w c a = Some xs" "wire_loop w fmt args = Some ys" "bs = xs @ ys"
    using "2.prems"(2) by (auto split: option.splits)
  have h: "holds m pdu xs" "holds m (moved_in pdu (length xs)) ys"
    using "2.prems"(3) b(3) by (simp_all add: holds_append)
  have rest: "decode_loop nested False old m fmt 0 (moved_in pdu (length xs)) = Ret (moved_in pdu (length bs), args, 0)"
    using "2.IH" [OF b(1) "2.prems"(1) b(2) h(2)] b(3) by (simp add: add.assoc)
  show ?case
  proof (cases "\<exists>fs. a = Rec fs")
    case True
    then obtain fs where a: "a = Rec fs"
      by blast
    then obtain f where f: "decode_struct_fmt c = Some f" "w f fs = Some xs"
      using b(1) by (auto simp: decode_struct_fmt_def split: if_splits)
    have "nested f 0 pdu = Ret (moved_in pdu (length xs), fs, 0)"
      using "2.prems"(1) f(2) h(1) by (simp add: decodes_def)
    then show ?thesis
      using f(1) a rest by simp
  next
    case False
    then show ?thesis
      using decode_scalar_ok [OF b(1) _ h(1)] rest by simp
  qed
qed auto

lemma virtio_p9_decode_ok: "decodes m (virtio_p9_decode depth False old m) (wire depth)"
proof (induction depth)
  case 0
  have "decodes m (\<lambda>_ _ _. Undefined) (\<lambda>_ _. None)"
    by (simp add: decodes_def)
  then show ?case
    using decode_loop_bytes [of m "\<lambda>_ _ _. Undefined" "\<lambda>_ _. None"] by (simp add: decodes_def)
next
  case (Suc depth)
  then show ?case
    using decode_loop_bytes [OF Suc] by (simp add: decodes_def)
qed

text \<open>
  C33: The two directions of the message coding agree. For a format and arguments that the wire format covers (integers of all sizes, strings,
  the \<^verbatim>\<open>qid\<close> and \<^verbatim>\<open>wstat\<close> structures, nested), writing the message stores exactly its bytes at the write offset, however
  the buffers divide them, and moves the offset behind them; and reading a message that holds these bytes, in any buffers, gives back the arguments. Both return 0.
\<close>

theorem p9_message_roundtrip:
  assumes "wire 2 fmt args = Some bs" "has_room m pdu (length bs)" "holds m' pdu' bs"
  shows "virtio_p9_pdu_writef fmt args m pdu = Ret (moved_out pdu (length bs), put_bytes (out_area pdu (length bs)) bs m, 0) \<and>
         virtio_p9_pdu_readf False old m' fmt pdu' = Ret (moved_in pdu' (length bs), args, 0)"
  using assms virtio_p9_pdu_encode_ok [of 2] virtio_p9_decode_ok [of m' 2 old]
  by (simp add: virtio_p9_pdu_writef_def virtio_p9_pdu_readf_def encodes_def decodes_def)

definition sample_args :: "p9_arg list" where
  "sample_args = [Int32 7, Str (Some [97, 98]), Rec [Int8 1, Int32 2, Int64 3]]"

definition sample_bytes :: "u8 list" where
  "sample_bytes = [7, 0, 0, 0, 2, 0, 97, 98, 1, 2, 0, 0, 0, 3, 0, 0, 0, 0, 0, 0, 0]"

lemma sample_wire: "wire 2 ''dsQ'' sample_args = Some sample_bytes"
  by code_simp

theorem p9_message_roundtrip_witness:
  "virtio_p9_pdu_writef ''dsQ'' sample_args (\<lambda>_. Some 0) \<lparr>read_offset = 0, write_offset = 7, in_iov = [\<lparr>iov_base = 100, iov_len = 40\<rparr>], out_iov = []\<rparr> =
     Ret (\<lparr>read_offset = 0, write_offset = 28, in_iov = [\<lparr>iov_base = 100, iov_len = 40\<rparr>], out_iov = []\<rparr>, put_bytes (span 107 21) sample_bytes (\<lambda>_. Some 0), 0) \<and>
   virtio_p9_pdu_readf False (\<lambda>_. 0) (put_bytes (span 107 21) sample_bytes (\<lambda>_. Some 0)) ''dsQ''
       \<lparr>read_offset = 7, write_offset = 0, in_iov = [], out_iov = [\<lparr>iov_base = 100, iov_len = 40\<rparr>]\<rparr> =
     Ret (\<lparr>read_offset = 28, write_offset = 0, in_iov = [], out_iov = [\<lparr>iov_base = 100, iov_len = 40\<rparr>]\<rparr>, sample_args, 0)"
proof -
  let ?pdu = "\<lparr>read_offset = 0, write_offset = 7, in_iov = [\<lparr>iov_base = 100, iov_len = 40\<rparr>], out_iov = []\<rparr> :: p9_pdu"
  let ?pdu' = "\<lparr>read_offset = 7, write_offset = 0, in_iov = [], out_iov = [\<lparr>iov_base = 100, iov_len = 40\<rparr>]\<rparr> :: p9_pdu"
  let ?m = "put_bytes (span 107 21) sample_bytes (\<lambda>_. Some 0)"
  have len: "length sample_bytes = 21"
    by (simp add: sample_bytes_def)
  have area: "out_area ?pdu 21 = span 107 21" "in_area ?pdu' 21 = span 107 21"
    by (simp_all add: out_area_def in_area_def)
  have room: "has_room (\<lambda>_. Some 0) ?pdu (length sample_bytes)"
    unfolding has_room_def len area by simp
  have hold: "holds ?m ?pdu' sample_bytes"
    unfolding holds_def len area using get_put_same [of "span 107 21" sample_bytes] distinct_span [of 21 107] by (simp add: len)
  from p9_message_roundtrip [OF sample_wire room hold, of "\<lambda>_. 0"] show ?thesis
    unfolding len area by simp
qed

text \<open>A string length of 65535 is read as -1: the decoder stores in front of and behind an empty buffer.\<close>

lemma decode_str_overflow:
  assumes "holds m pdu [255, 255]"
  shows "decode_str False old m pdu = Undefined"
proof -
  have "sint (of_le [255, 255] :: u16) = -1"
    by (simp add: of_le_def push_bit_eq_mult)
  moreover have "virtio_p9_pdu_read 2 m pdu = Ret (moved_in pdu 2, [255, 255])"
    using pdu_read_ok [OF assms] by (simp add: numeral_2_eq_2)
  ultimately show ?thesis
    by (simp add: decode_str_def Let_def)
qed

end
