(* ===== verification/UipCsum.thy ===== *)
theory UipCsum
  imports Bytes
begin

text \<open>
  The user-mode network: packets and checksums (\<^verbatim>\<open>include/kvm/uip.h\<close>, \<^verbatim>\<open>net/uip/csum.c\<close>).

  A frame is an array of bytes; the fields of the packed structures are read and written at their offsets, integers as the
  host stores them, so that \<^verbatim>\<open>ntohs\<close> and \<^verbatim>\<open>htons\<close> are visible where the code has them. An access behind the
  end of the array is \<open>Faults\<close>. A call that waits for a condition that does not hold is \<open>Waits\<close>.
\<close>

section \<open>How a call ends\<close>

datatype 'a run = Done 'a | Waits | Faults

fun bind_run :: "'a run \<Rightarrow> ('a \<Rightarrow> 'b run) \<Rightarrow> 'b run" where
  "bind_run (Done x) f = f x"
| "bind_run Waits f = Waits"
| "bind_run Faults f = Faults"

fun lift_run :: "'a outcome \<Rightarrow> 'a run" where
  "lift_run (Ret x) = Done x"
| "lift_run Dies = Faults"
| "lift_run Undefined = Faults"

definition need :: "nat \<Rightarrow> u8 list \<Rightarrow> 'b run \<Rightarrow> 'b run" where
  "need n bs k = (if length bs < n then Faults else k)"

lemma bind_run_Done: "bind_run m f = Done y \<longleftrightarrow> (\<exists>x. m = Done x \<and> f x = Done y)"
  by (cases m) auto

lemma need_Done [simp]: "n \<le> length bs \<Longrightarrow> need n bs k = k"
  by (simp add: need_def)

section \<open>Fields of a frame\<close>

definition ld8 :: "nat \<Rightarrow> u8 list \<Rightarrow> u8" where
  "ld8 off bs = of_le (field off 1 bs)"

definition ld16 :: "nat \<Rightarrow> u8 list \<Rightarrow> u16" where
  "ld16 off bs = of_le (field off 2 bs)"

definition ld32 :: "nat \<Rightarrow> u8 list \<Rightarrow> u32" where
  "ld32 off bs = of_le (field off 4 bs)"

text \<open>The offsets of the members of \<^verbatim>\<open>uip_eth\<close>, \<^verbatim>\<open>uip_arp\<close>, \<^verbatim>\<open>uip_ip\<close>, \<^verbatim>\<open>uip_icmp\<close>, \<^verbatim>\<open>uip_udp\<close> and \<^verbatim>\<open>uip_tcp\<close>.\<close>

abbreviation (input) "eth_dst \<equiv> 0 :: nat"
abbreviation (input) "eth_src \<equiv> 6 :: nat"
abbreviation (input) "eth_type \<equiv> 12 :: nat"
abbreviation (input) "sizeof_eth \<equiv> 14 :: nat"

abbreviation (input) "arp_op \<equiv> 20 :: nat"
abbreviation (input) "arp_smac \<equiv> 22 :: nat"
abbreviation (input) "arp_sip \<equiv> 28 :: nat"
abbreviation (input) "arp_dmac \<equiv> 32 :: nat"
abbreviation (input) "arp_dip \<equiv> 38 :: nat"
abbreviation (input) "sizeof_arp \<equiv> 42 :: nat"

abbreviation (input) "ip_vhl \<equiv> 14 :: nat"
abbreviation (input) "ip_tos \<equiv> 15 :: nat"
abbreviation (input) "ip_len \<equiv> 16 :: nat"
abbreviation (input) "ip_id \<equiv> 18 :: nat"
abbreviation (input) "ip_flgfrag \<equiv> 20 :: nat"
abbreviation (input) "ip_ttl \<equiv> 22 :: nat"
abbreviation (input) "ip_proto \<equiv> 23 :: nat"
abbreviation (input) "ip_csum \<equiv> 24 :: nat"
abbreviation (input) "ip_sip \<equiv> 26 :: nat"
abbreviation (input) "ip_dip \<equiv> 30 :: nat"
abbreviation (input) "sizeof_ip \<equiv> 34 :: nat"

abbreviation (input) "icmp_type \<equiv> 34 :: nat"
abbreviation (input) "icmp_code \<equiv> 35 :: nat"
abbreviation (input) "icmp_csum \<equiv> 36 :: nat"

abbreviation (input) "udp_sport \<equiv> 34 :: nat"
abbreviation (input) "udp_dport \<equiv> 36 :: nat"
abbreviation (input) "udp_len_off \<equiv> 38 :: nat"
abbreviation (input) "udp_csum \<equiv> 40 :: nat"
abbreviation (input) "udp_payload \<equiv> 42 :: nat"

abbreviation (input) "tcp_sport \<equiv> 34 :: nat"
abbreviation (input) "tcp_dport \<equiv> 36 :: nat"
abbreviation (input) "tcp_seq \<equiv> 38 :: nat"
abbreviation (input) "tcp_ack \<equiv> 42 :: nat"
abbreviation (input) "tcp_off \<equiv> 46 :: nat"
abbreviation (input) "tcp_flg \<equiv> 47 :: nat"
abbreviation (input) "tcp_win \<equiv> 48 :: nat"
abbreviation (input) "tcp_csum \<equiv> 50 :: nat"
abbreviation (input) "tcp_urgent \<equiv> 52 :: nat"
abbreviation (input) "sizeof_tcp \<equiv> 54 :: nat"

definition UIP_ETH_P_IP :: u16 where "UIP_ETH_P_IP = 0x0800"
definition UIP_ETH_P_ARP :: u16 where "UIP_ETH_P_ARP = 0x0806"
definition UIP_IP_VER_4 :: u8 where "UIP_IP_VER_4 = 0x40"
definition UIP_IP_HDR_LEN :: u8 where "UIP_IP_HDR_LEN = 0x05"
definition UIP_IP_TTL :: u8 where "UIP_IP_TTL = 0x40"
definition UIP_IP_P_UDP :: u8 where "UIP_IP_P_UDP = 0x11"
definition UIP_IP_P_TCP :: u8 where "UIP_IP_P_TCP = 0x06"
definition UIP_IP_P_ICMP :: u8 where "UIP_IP_P_ICMP = 0x01"
definition UIP_MAX_TCP_PAYLOAD :: nat where "UIP_MAX_TCP_PAYLOAD = 64 * 1024 - 20 - 20 - 1"
definition UIP_MAX_UDP_PAYLOAD :: nat where "UIP_MAX_UDP_PAYLOAD = 64 * 1024 - 20 - 8 - 1"

lemmas uip_constants = UIP_ETH_P_IP_def UIP_ETH_P_ARP_def UIP_IP_VER_4_def UIP_IP_HDR_LEN_def UIP_IP_TTL_def
  UIP_IP_P_UDP_def UIP_IP_P_TCP_def UIP_IP_P_ICMP_def UIP_MAX_TCP_PAYLOAD_def UIP_MAX_UDP_PAYLOAD_def

definition uip_ip_hdrlen :: "u8 list \<Rightarrow> u16" where
  "uip_ip_hdrlen p = ucast (ld8 ip_vhl p AND 0x0f) * 4"

definition uip_ip_len :: "u8 list \<Rightarrow> u16" where
  "uip_ip_len p = htons (ld16 ip_len p)"

definition uip_udp_hdrlen :: u16 where
  "uip_udp_hdrlen = 8"

definition uip_udp_len :: "u8 list \<Rightarrow> u16" where
  "uip_udp_len p = htons (ld16 udp_len_off p)"

definition uip_tcp_hdrlen :: "u8 list \<Rightarrow> u16" where
  "uip_tcp_hdrlen p = ucast (drop_bit 4 (ld8 tcp_off p)) * 4"

definition uip_tcp_len :: "u8 list \<Rightarrow> u16" where
  "uip_tcp_len p = uip_ip_len p - uip_ip_hdrlen p"

definition uip_tcp_payloadlen :: "u8 list \<Rightarrow> u16" where
  "uip_tcp_payloadlen p = uip_tcp_len p - uip_tcp_hdrlen p"

definition uip_tcp_payload :: "u8 list \<Rightarrow> nat" where
  "uip_tcp_payload p = tcp_sport + unat (uip_tcp_hdrlen p)"

definition uip_tcp_is_syn :: "u8 list \<Rightarrow> bool" where
  "uip_tcp_is_syn p \<longleftrightarrow> ld8 tcp_flg p AND 2 \<noteq> 0"

definition uip_tcp_is_fin :: "u8 list \<Rightarrow> bool" where
  "uip_tcp_is_fin p \<longleftrightarrow> ld8 tcp_flg p AND 1 \<noteq> 0"

definition uip_tcp_isn :: "u8 list \<Rightarrow> u32" where
  "uip_tcp_isn p = htonl (ld32 tcp_seq p)"

definition uip_tcp_isn_alloc :: u32 where
  "uip_tcp_isn_alloc = 10000000"

definition uip_eth_hdrlen :: nat where
  "uip_eth_hdrlen = 14"

section \<open>The checksum routine\<close>

text \<open>The sum is a \<^verbatim>\<open>long\<close>: at most 32768 words of 16 bits do not overflow it.\<close>

fun csum_loop :: "nat \<Rightarrow> u8 list \<Rightarrow> nat \<Rightarrow> nat" where
  "csum_loop acc addr count =
     (if 1 < count then csum_loop (acc + unat (ld16 0 addr)) (drop 2 addr) (count - 2)
      else if 0 < count then acc + unat (ld8 0 addr) else acc)"

function csum_fold :: "nat \<Rightarrow> nat" where
  "csum_fold acc = (if drop_bit 16 acc \<noteq> 0 then csum_fold ((acc AND 0xffff) + drop_bit 16 acc) else acc)"
  by auto

lemma and_ffff: "(s :: nat) AND 0xffff = s mod 65536"
  using take_bit_eq_mask [of 16 s] by (simp add: mask_eq_exp_minus_1 take_bit_eq_mod)

lemma csum_fold_decreases: "drop_bit 16 s \<noteq> 0 \<Longrightarrow> (s AND 0xffff) + drop_bit 16 s < (s :: nat)"
proof -
  assume "drop_bit 16 s \<noteq> 0"
  then have "0 < s div 65536" by (simp add: drop_bit_eq_div)
  moreover have "s = s mod 65536 + 65536 * (s div 65536)" by simp
  ultimately have "s mod 65536 + s div 65536 < s" by linarith
  then show ?thesis by (simp add: and_ffff drop_bit_eq_div)
qed

termination csum_fold
  by (relation "measure id") (use csum_fold_decreases in auto)

declare csum_loop.simps [simp del] csum_fold.simps [simp del]

definition uip_csum :: "u16 \<Rightarrow> u8 list \<Rightarrow> u16 \<Rightarrow> u16 run" where
  "uip_csum csum addr count =
     need (unat count) addr (Done (NOT (of_nat (csum_fold (csum_loop (unat csum) addr (unat count))))))"

definition uip_csum_ip :: "u8 list \<Rightarrow> u16 run" where
  "uip_csum_ip p = uip_csum 0 (drop ip_vhl p) (uip_ip_hdrlen p)"

definition uip_csum_icmp :: "u8 list \<Rightarrow> (u8 list \<times> u16) run" where
  "uip_csum_icmp p =
     bind_run (uip_csum 0 (drop icmp_type p) (htons (ld16 ip_len p) - uip_ip_hdrlen p - 8)) (\<lambda>c. Done (put_at icmp_csum (to_le 2 c) p, c))"

text \<open>The pseudo header is stored behind the segment, in the buffer of the frame. \<open>len\<close> is in network order.\<close>

definition pseudo_hdr :: "u8 list \<Rightarrow> u16 \<Rightarrow> u8 list" where
  "pseudo_hdr p len = field ip_sip 4 p @ field ip_dip 4 p @ [0, ld8 ip_proto p] @ to_le 2 len"

definition csum_segment :: "nat \<Rightarrow> u8 list \<Rightarrow> u8 list \<Rightarrow> (u8 list \<times> u16) run" where
  "csum_segment len hdr p =
     (if odd len then
        need (udp_sport + len + 1 + length hdr) p (
          let p = put_at (udp_sport + len + 1) hdr (put_at (udp_sport + len) [0] p)
          in bind_run (uip_csum 0 (drop udp_sport p) (of_nat (len + 1 + length hdr))) (\<lambda>c. Done (p, c)))
      else
        need (udp_sport + len + length hdr) p (
          let p = put_at (udp_sport + len) hdr p
          in bind_run (uip_csum 0 (drop udp_sport p) (of_nat (len + length hdr))) (\<lambda>c. Done (p, c))))"

definition uip_csum_udp :: "u8 list \<Rightarrow> (u8 list \<times> u16) run" where
  "uip_csum_udp p = csum_segment (unat (uip_udp_len p)) (pseudo_hdr p (ld16 udp_len_off p)) p"

definition uip_csum_tcp :: "u8 list \<Rightarrow> (u8 list \<times> u16) run" where
  "uip_csum_tcp p =
     (let tcp_len = htons (ld16 ip_len p) - uip_ip_hdrlen p
      in csum_segment (unat tcp_len) (pseudo_hdr p (htons tcp_len)) p)"

section \<open>The routine computes the Internet checksum\<close>

lemma csum_fold_props: "csum_fold s < 65536 \<and> csum_fold s mod 65535 = s mod 65535 \<and> (csum_fold s = 0 \<longleftrightarrow> s = 0)"
proof (induction s rule: csum_fold.induct)
  case (1 s)
  show ?case
  proof (cases "drop_bit 16 s = 0")
    case True
    then have "s < 65536" by (simp add: drop_bit_eq_div div_eq_0_iff)
    then show ?thesis using True by (simp add: csum_fold.simps [of s])
  next
    case False
    let ?t = "s mod 65536 + s div 65536"
    have s: "s = s mod 65536 + 65536 * (s div 65536)" by simp
    have "s = ?t + 65535 * (s div 65536)"
      using s by linarith
    then have m: "s mod 65535 = ?t mod 65535"
      by (metis mod_mult_self2)
    have "?t = 0 \<longleftrightarrow> s = 0" by auto
    then show ?thesis
      using 1 [OF False] False m by (simp add: csum_fold.simps [of s] and_ffff drop_bit_eq_div)
  qed
qed

lemma unat_bytes: "unat (of_le [a, b] :: u16) = unat a + 256 * unat b" for a b :: u8
proof -
  have "of_le [a, b] = (ucast a :: u16) + push_bit 8 (ucast b)"
    by (simp add: of_le_def, rule disjunctive_add_eq_or [symmetric])
       (rule bit_word_eqI, use bit_imp_le_length [of a] in \<open>fastforce simp: bit_simps\<close>)
  also have "\<dots> = (of_nat (unat a + 256 * unat b) :: u16)"
    by (simp add: push_bit_eq_mult)
  finally have "unat (of_le [a, b] :: u16) = unat (of_nat (unat a + 256 * unat b) :: u16)"
    by (rule arg_cong)
  then have "unat (of_le [a, b] :: u16) = (unat a + 256 * unat b) mod 2 ^ 16"
    by (simp only: unat_of_nat) simp
  moreover have "unat a < 2 ^ LENGTH(8)" "unat b < 2 ^ LENGTH(8)"
    by (rule unsigned_less)+
  ultimately show ?thesis by simp
qed

lemma csum_loop_net: "n \<le> length addr \<Longrightarrow> (256 * csum_loop s addr n) mod 65535 = (256 * s + net_sum (take n addr)) mod 65535"
proof (induction s addr n rule: csum_loop.induct)
  case (1 s addr n)
  consider "1 < n" | "n = 1" | "n = 0" by linarith
  then show ?case
  proof cases
    case 1
    then obtain a b rest where addr: "addr = a # b # rest" and n: "n = Suc (Suc (n - 2))"
      using "1.prems" by (cases addr rule: net_sum.cases) auto
    have "256 * (s + unat (ld16 0 addr)) + net_sum (take (n - 2) rest) = 256 * s + net_sum (take n addr) + 65535 * unat b"
      by (subst n) (simp add: addr ld16_def field_def unat_bytes algebra_simps)
    then have "(256 * (s + unat (ld16 0 addr)) + net_sum (take (n - 2) rest)) mod 65535 = (256 * s + net_sum (take n addr)) mod 65535"
      by (metis mod_mult_self2)
    then show ?thesis
      using "1.IH" [OF 1] "1.prems" 1 addr by (simp add: csum_loop.simps [of s])
  next
    case 2
    then obtain a rest where addr: "addr = a # rest"
      using "1.prems" by (cases addr) auto
    then show ?thesis
      using 2 by (simp add: csum_loop.simps [of s] ld8_def field_def of_le_def algebra_simps)
  qed (simp add: csum_loop.simps [of s])
qed

lemma net_sum_le: "net_sum (to_le 2 c) mod 65535 = 256 * unat c mod 65535" for c :: u16
proof -
  obtain a b where ab: "to_le 2 c = [a, b]"
    by (simp add: to_le_def numeral_2_eq_2)
  then have "unat c = unat a + 256 * unat b"
    using unat_bytes [of a b] of_le_to_le [of 2 c] by simp
  then have "256 * unat c = net_sum (to_le 2 c) + 65535 * unat b"
    using ab by simp
  then show ?thesis by simp
qed

lemma uip_csum_complements:
  assumes "uip_csum 0 addr n = Done c"
  shows "65535 dvd net_sum (take (unat n) addr) + net_sum (to_le 2 c)"
proof -
  let ?s = "csum_loop 0 addr (unat n)"
  have n: "unat n \<le> length addr" and c: "c = NOT (of_nat (csum_fold ?s))"
    using assms by (auto simp: uip_csum_def need_def split: if_splits)
  have "c = of_nat (65535 - csum_fold ?s)"
    using csum_fold_props [of ?s] unfolding c by (simp add: of_nat_diff not_eq_complement)
  then have "unat c = 65535 - csum_fold ?s"
    using csum_fold_props [of ?s] by (simp add: unat_of_nat del: of_nat_diff)
  then have "unat c + csum_fold ?s = 65535"
    using csum_fold_props [of ?s] by linarith
  moreover have "(?s + unat c) mod 65535 = (csum_fold ?s + unat c) mod 65535"
    using csum_fold_props [of ?s] by (intro mod_add_cong) simp_all
  ultimately have "(256 * (?s + unat c)) mod 65535 = 0"
    by (metis add.commute mod_mult_right_eq mod_self mult_0_right mod_0)
  then have "(256 * ?s + 256 * unat c) mod 65535 = 0"
    by (simp only: distrib_left)
  then have "(net_sum (take (unat n) addr) + net_sum (to_le 2 c)) mod 65535 = 0"
    using csum_loop_net [OF n, of 0] net_sum_le [of c] mod_add_cong [of "256 * ?s" 65535 "net_sum (take (unat n) addr)" "256 * unat c" "net_sum (to_le 2 c)"] by simp
  then show ?thesis by (simp add: mod_eq_0_iff_dvd)
qed

lemma uip_csum_Done: "unat n \<le> length addr \<Longrightarrow> \<exists>c. uip_csum s addr n = Done c"
  by (simp add: uip_csum_def)

text \<open>The checksum of a part of a frame, stored in that part.\<close>

lemma csum_field:
  assumes "uip_csum 0 (drop off e) n = Done c" "field (off + k) 2 e = [0, 0]" "even k" "k + 2 \<le> unat n" "off + unat n \<le> length e"
  shows "csum_valid (field off (unat n) (put_at (off + k) (to_le 2 c) e))"
proof -
  have f: "field k 2 (field off (unat n) e) = [0, 0]"
    using assms by (simp add: field_field)
  have "field off (unat n) (put_at (off + k) (to_le 2 c) e) = put_at k (to_le 2 c) (field off (unat n) e)"
    using field_put_within [of off "off + k" "to_le 2 c" "unat n" e] assms by simp
  moreover have "net_sum (put_at k (to_le 2 c) (field off (unat n) e)) = net_sum (field off (unat n) e) + net_sum (to_le 2 c)"
    using assms f by (intro net_sum_put) simp_all
  ultimately show ?thesis
    using uip_csum_complements [OF assms(1)] by (simp add: csum_valid_def field_def)
qed

lemma unat_u16: "n < 65536 \<Longrightarrow> unat (of_nat n :: u16) = n"
  by (simp add: unat_of_nat)

lemma csum_segment_bytes:
  assumes fit: "34 + len + len mod 2 + length hdr \<le> length p" and small: "len + 1 + length hdr < 65536" and ev: "even (length hdr)"
  obtains p' c where "csum_segment len hdr p = Done (p', c)" "length p' = length p"
    "\<And>off n. off + n \<le> 34 + len \<Longrightarrow> field off n p' = field off n p"
    "65535 dvd net_sum hdr + net_sum (field 34 len p) + net_sum (to_le 2 c)"
proof (cases "odd len")
  case True
  let ?q = "put_at (34 + len + 1) hdr (put_at (34 + len) [0] p)"
  have odd: "len mod 2 = 1" using True by presburger
  have q: "length ?q = length p" "\<And>off n. off + n \<le> 34 + len \<Longrightarrow> field off n ?q = field off n p"
    using fit odd by (simp_all add: field_put_other)
  have w: "unat (of_nat (len + 1 + length hdr) :: u16) = len + 1 + length hdr"
    using small by (rule unat_u16)
  have "unat (of_nat (len + 1 + length hdr) :: u16) \<le> length (drop 34 ?q)"
    unfolding w using q(1) fit odd by simp
  then obtain c where c: "uip_csum 0 (drop 34 ?q) (of_nat (len + 1 + length hdr)) = Done c"
    using uip_csum_Done by blast
  have "take (len + 1 + length hdr) (drop 34 ?q) = field 34 (len + 1 + length hdr) ?q"
    by (simp add: field_def)
  also have "\<dots> = field 34 len ?q @ field (34 + len) 1 ?q @ field (34 + len + 1) (length hdr) ?q"
    by (simp only: add.assoc field_append)
  also have "\<dots> = (field 34 len p @ [0]) @ hdr"
    using fit odd q(2) [of 34 len] by (simp add: field_put_same field_put_other)
  finally have "net_sum (take (len + 1 + length hdr) (drop 34 ?q)) = net_sum ((field 34 len p @ [0]) @ hdr)"
    by (rule arg_cong)
  also have "\<dots> = net_sum hdr + net_sum (field 34 len p)"
    using True fit net_sum_append [of "field 34 len p @ [0]" hdr] net_sum_pad [of "field 34 len p"] by simp
  finally have "net_sum (take (len + 1 + length hdr) (drop 34 ?q)) = net_sum hdr + net_sum (field 34 len p)" .
  then have "65535 dvd net_sum hdr + net_sum (field 34 len p) + net_sum (to_le 2 c)"
    using uip_csum_complements [OF c] w by simp
  then show ?thesis
    using that [of ?q c] q c True fit odd by (simp add: csum_segment_def need_def)
next
  case False
  let ?q = "put_at (34 + len) hdr p"
  have even: "len mod 2 = 0" using False by presburger
  have q: "length ?q = length p" "\<And>off n. off + n \<le> 34 + len \<Longrightarrow> field off n ?q = field off n p"
    using fit even by (simp_all add: field_put_other)
  have w: "unat (of_nat (len + length hdr) :: u16) = len + length hdr"
    by (rule unat_u16) (use small in simp)
  have "unat (of_nat (len + length hdr) :: u16) \<le> length (drop 34 ?q)"
    unfolding w using q(1) fit even by simp
  then obtain c where c: "uip_csum 0 (drop 34 ?q) (of_nat (len + length hdr)) = Done c"
    using uip_csum_Done by blast
  have "take (len + length hdr) (drop 34 ?q) = field 34 len ?q @ field (34 + len) (length hdr) ?q"
    by (simp add: field_def [symmetric] field_append)
  also have "\<dots> = field 34 len p @ hdr"
    using fit even q(2) [of 34 len] by (simp add: field_put_same)
  finally have "net_sum (take (len + length hdr) (drop 34 ?q)) = net_sum hdr + net_sum (field 34 len p)"
    using False fit by (simp add: net_sum_append)
  then have "65535 dvd net_sum hdr + net_sum (field 34 len p) + net_sum (to_le 2 c)"
    using uip_csum_complements [OF c] w by simp
  then show ?thesis
    using that [of ?q c] q c False fit even by (simp add: csum_segment_def need_def)
qed

text \<open>The checksum of a segment, stored in it, makes pseudo header and segment valid.\<close>

lemma csum_segment_valid:
  assumes "34 + len + len mod 2 + length hdr \<le> length p" "len + 1 + length hdr < 65536" "even (length hdr)"
    "even k" "k + 2 \<le> len" "field (34 + k) 2 p = [0, 0]"
  obtains p' c where "csum_segment len hdr p = Done (p', c)" "length p' = length p"
    "\<And>off n. off + n \<le> 34 + len \<Longrightarrow> field off n p' = field off n p"
    "csum_valid (hdr @ field 34 len (put_at (34 + k) (to_le 2 c) p'))"
proof (rule csum_segment_bytes [OF assms(1-3)])
  fix p' c
  assume run: "csum_segment len hdr p = Done (p', c)" "length p' = length p" "\<And>off n. off + n \<le> 34 + len \<Longrightarrow> field off n p' = field off n p"
    and sum0: "65535 dvd net_sum hdr + net_sum (field 34 len p) + net_sum (to_le 2 c)"
  have z: "field k 2 (field 34 len p) = [0, 0]"
    using assms by (simp add: field_field)
  have "field 34 len (put_at (34 + k) (to_le 2 c) p') = put_at k (to_le 2 c) (field 34 len p)"
    using field_put_within [of 34 "34 + k" "to_le 2 c" len p'] run(2) run(3) [of 34 len] assms by simp
  moreover have "net_sum (put_at k (to_le 2 c) (field 34 len p)) = net_sum (field 34 len p) + net_sum (to_le 2 c)"
    using assms z by (intro net_sum_put) simp_all
  ultimately have "csum_valid (hdr @ field 34 len (put_at (34 + k) (to_le 2 c) p'))"
    using sum0 assms(3) by (simp add: csum_valid_def net_sum_append add.assoc)
  then show ?thesis
    using that run by blast
qed

text \<open>
  C32: The checksum routine computes the Internet checksum. Stored in a zeroed field of the message it was computed from, at an even
  offset, its result makes the ones' complement sum of the message's words in network order zero, which is what a receiver checks; the routine
  terminates for every message of less than 64 KiB.
\<close>

theorem uip_csum_verifies:
  assumes "length p < 2 ^ 16" "even off" "off + 2 \<le> length p" "field off 2 p = [0, 0]"
  shows "\<exists>c. uip_csum 0 p (of_nat (length p)) = Done c \<and> csum_valid (put_at off (to_le 2 c) p)"
proof -
  have len: "unat (of_nat (length p) :: u16) = length p"
    using assms(1) by (simp add: unat_of_nat)
  then obtain c where c: "uip_csum 0 p (of_nat (length p)) = Done c"
    using uip_csum_Done [of "of_nat (length p)" p 0] by auto
  show ?thesis
    using c csum_field [of 0 p "of_nat (length p)" c off] assms len by (simp add: field_0)
qed

theorem uip_csum_verifies_witness:
  "\<exists>c. uip_csum 0 [0x45, 0, 0, 0, 1] 5 = Done c \<and> csum_valid (put_at 2 (to_le 2 c) [0x45, 0, 0, 0, 1])"
  using uip_csum_verifies [of "[0x45, 0, 0, 0, 1]" 2] by (simp add: field_def)

end
