(* ===== verification/UipBuf.thy ===== *)
theory UipBuf
  imports UipCsum
begin

text \<open>
  The user-mode network: the pool of buffers for frames on their way to the guest (\<^verbatim>\<open>net/uip/buf.c\<close>), and the state of the
  network (\<^verbatim>\<open>struct uip_info\<close>).

  A buffer is identified by its position in the list \<^verbatim>\<open>buf_head\<close>. Every operation on the pool holds \<^verbatim>\<open>buf_lock\<close>
  and is one step; a call that would wait on a condition variable is \<open>Waits\<close>. Debugging output is left out.
\<close>

section \<open>State\<close>

datatype uip_buf_status = UIP_BUF_STATUS_FREE | UIP_BUF_STATUS_INUSE | UIP_BUF_STATUS_USED

text \<open>The lists \<open>vnet\<close> and \<open>eth\<close> are the allocated arrays, of which \<open>vnet_len\<close> and \<open>eth_len\<close> bytes are valid.\<close>

record uip_buf =
  vnet_len :: int
  eth_len :: int
  status :: uip_buf_status
  vnet :: "u8 list"
  eth :: "u8 list"

record uip_udp_socket =
  u_addr :: "u32 \<times> u16"
  u_dport :: u32
  u_sport :: u32
  u_dip :: u32
  u_sip :: u32
  u_fd :: int

record uip_tcp_socket =
  t_addr :: "u32 \<times> u16"
  t_dport :: u32
  t_sport :: u32
  guest_acked :: u32
  window_size :: u16
  isn_server :: u32
  isn_guest :: u32
  ack_server :: u32
  seq_server :: u32
  write_done :: bool
  read_done :: bool
  t_dip :: u32
  t_sip :: u32
  t_thread :: bool
  t_buf :: bool
  t_fd :: int

text \<open>What the network did with the sockets of the host, in order.\<close>

datatype host_event =
    SendTo int "u8 list" "u32 \<times> u16"
  | WriteFd int "u8 list"
  | ShutDown int
  | CloseFd int

record uip_info =
  udp_sockets :: "uip_udp_socket list"
  tcp_sockets :: "uip_tcp_socket list"
  guest_mac :: "u8 list"
  host_mac :: "u8 list"
  buf_head :: "uip_buf list"
  udp_thread :: bool
  udp_epollfd :: int
  buf_free_nr :: int
  buf_used_nr :: int
  guest_ip :: u32
  guest_netmask :: u32
  host_ip :: u32
  dns_ip :: "u32 list"
  domain_name :: "u8 list option"
  buf_nr :: nat
  vnet_hdr_len :: nat
  host_log :: "host_event list"

record uip_tx_arg =
  arg_vnet :: "u8 list"
  arg_eth :: "u8 list"
  arg_vnet_len :: int
  arg_eth_len :: int

section \<open>Operations\<close>

fun first_status :: "uip_buf_status \<Rightarrow> uip_buf list \<Rightarrow> nat option" where
  "first_status s [] = None"
| "first_status s (b # bs) = (if status b = s then Some 0 else map_option Suc (first_status s bs))"

definition set_status :: "nat \<Rightarrow> uip_buf_status \<Rightarrow> uip_buf list \<Rightarrow> uip_buf list" where
  "set_status i s bs = bs[i := (bs ! i)\<lparr>status := s\<rparr>]"

definition uip_buf_get_used :: "uip_info \<Rightarrow> (uip_info \<times> nat option) run" where
  "uip_buf_get_used info =
     (if \<not> 0 < buf_used_nr info then Waits
      else case first_status UIP_BUF_STATUS_USED (buf_head info) of
        None \<Rightarrow> Done (info, None)
      | Some i \<Rightarrow> Done (info\<lparr>buf_head := set_status i UIP_BUF_STATUS_INUSE (buf_head info), buf_used_nr := buf_used_nr info - 1\<rparr>, Some i))"

definition uip_buf_get_free :: "uip_info \<Rightarrow> (uip_info \<times> nat option) run" where
  "uip_buf_get_free info =
     (if \<not> 0 < buf_free_nr info then Waits
      else case first_status UIP_BUF_STATUS_FREE (buf_head info) of
        None \<Rightarrow> Done (info, None)
      | Some i \<Rightarrow> Done (info\<lparr>buf_head := set_status i UIP_BUF_STATUS_INUSE (buf_head info), buf_free_nr := buf_free_nr info - 1\<rparr>, Some i))"

definition uip_buf_set_used :: "nat \<Rightarrow> uip_info \<Rightarrow> uip_info" where
  "uip_buf_set_used i info = info\<lparr>buf_head := set_status i UIP_BUF_STATUS_USED (buf_head info), buf_used_nr := buf_used_nr info + 1\<rparr>"

definition uip_buf_set_free :: "nat \<Rightarrow> uip_info \<Rightarrow> uip_info" where
  "uip_buf_set_free i info = info\<lparr>buf_head := set_status i UIP_BUF_STATUS_FREE (buf_head info), buf_free_nr := buf_free_nr info + 1\<rparr>"

text \<open>\<^verbatim>\<open>memcpy\<close> to the start of an array; a negative length is a huge one.\<close>

definition copy_in :: "u8 list \<Rightarrow> int \<Rightarrow> u8 list \<Rightarrow> u8 list run" where
  "copy_in src n dst =
     (if n < 0 \<or> length src < nat n \<or> length dst < nat n then Faults else Done (put_at 0 (take (nat n) src) dst))"

text \<open>\<^verbatim>\<open>VIRTIO_NET_HDR_F_DATA_VALID\<close>, \<^verbatim>\<open>VIRTIO_NET_HDR_GSO_NONE\<close> and four 16-bit zeros.\<close>

definition vnet_valid_hdr :: "u8 list" where
  "vnet_valid_hdr = 2 # replicate 9 0"

definition uip_buf_clone :: "uip_tx_arg \<Rightarrow> uip_info \<Rightarrow> (uip_info \<times> nat) run" where
  "uip_buf_clone arg info =
     bind_run (uip_buf_get_free info) (\<lambda>(info, r).
       case r of
         None \<Rightarrow> Faults
       | Some i \<Rightarrow>
           let buf = buf_head info ! i
           in bind_run (copy_in (arg_vnet arg) (arg_vnet_len arg) (vnet buf)) (\<lambda>vn.
              bind_run (copy_in (arg_eth arg) (arg_eth_len arg) (eth buf)) (\<lambda>et.
                let vn = (if 10 \<le> arg_vnet_len arg then put_at 0 vnet_valid_hdr vn else vn)
                in need sizeof_eth (arg_eth arg) (need sizeof_eth et (
                     let et = put_at eth_dst (field eth_src 6 (arg_eth arg)) (put_at eth_src (host_mac info) et);
                         buf = buf\<lparr>vnet := vn, eth := et, vnet_len := arg_vnet_len arg, eth_len := arg_eth_len arg\<rparr>
                     in Done (info\<lparr>buf_head := (buf_head info)[i := buf]\<rparr>, i))))))"

section \<open>Initialisation\<close>

definition UIP_ETH_BUF_LEN :: nat where
  "UIP_ETH_BUF_LEN = 1024 * 64 + 12"

definition uip_static_init :: "uip_info \<Rightarrow> uip_info" where
  "uip_static_init info = info\<lparr>udp_sockets := [], tcp_sockets := [], buf_head := [], buf_used_nr := 0\<rparr>"

text \<open>
  \<^verbatim>\<open>fscanf\<close> reads the words of \<^verbatim>\<open>/etc/resolv.conf\<close> in pairs, whatever the lines are; a word that does not fit
  its array of 256 bytes is stored behind it. \<open>aton\<close> is \<^verbatim>\<open>inet_aton\<close>; an address is in network order.
\<close>

fun words_of :: "string \<Rightarrow> string \<Rightarrow> string list" where
  "words_of w [] = (if w = [] then [] else [rev w])"
| "words_of w (c # cs) =
     (if c \<in> {CHR '' '', CHR 0x09, CHR 0x0A, CHR 0x0B, CHR 0x0C, CHR 0x0D}
      then (if w = [] then words_of [] cs else rev w # words_of [] cs)
      else words_of (c # w) cs)"

definition UIP_DHCP_MAX_DNS_SERVER_NR :: nat where "UIP_DHCP_MAX_DNS_SERVER_NR = 3"
definition UIP_DHCP_MAX_DOMAIN_NAME_LEN :: nat where "UIP_DHCP_MAX_DOMAIN_NAME_LEN = 256"

definition dns_line :: "(string \<Rightarrow> u32 option) \<Rightarrow> string \<Rightarrow> string \<Rightarrow> nat \<times> int \<times> uip_info \<Rightarrow> nat \<times> int \<times> uip_info" where
  "dns_line aton key val s =
     (case s of (n, ret, info) \<Rightarrow>
        if take 6 key = ''domain'' then (n, ret, info\<lparr>domain_name := Some (map of_char (take UIP_DHCP_MAX_DOMAIN_NAME_LEN val))\<rparr>)
        else if take 10 key = ''nameserver'' then
          (case aton val of
             None \<Rightarrow> s
           | Some addr \<Rightarrow>
               if n < UIP_DHCP_MAX_DNS_SERVER_NR then (n + 1, 0, info\<lparr>dns_ip := (dns_ip info)[n := htonl addr]\<rparr>) else (n, 0, info))
        else s)"

fun dns_loop :: "(string \<Rightarrow> u32 option) \<Rightarrow> string list \<Rightarrow> nat \<times> int \<times> uip_info \<Rightarrow> (nat \<times> int \<times> uip_info) run" where
  "dns_loop aton (key # val # ws) s =
     (if 256 \<le> length key \<or> 256 \<le> length val then Faults else dns_loop aton ws (dns_line aton key val s))"
| "dns_loop aton [key] s = (if 256 \<le> length key then Faults else Done s)"
| "dns_loop aton [] s = Done s"

definition uip_dhcp_get_dns :: "(string \<Rightarrow> u32 option) \<Rightarrow> string option \<Rightarrow> uip_info \<Rightarrow> (uip_info \<times> int) run" where
  "uip_dhcp_get_dns aton conf info =
     (case conf of
        None \<Rightarrow> Done (info, -1)
      | Some txt \<Rightarrow> bind_run (dns_loop aton (words_of [] txt) (0, -1, info)) (\<lambda>(n, ret, info). Done (info, ret)))"

text \<open>Allocation does not fail.\<close>

definition fresh_buf :: "uip_info \<Rightarrow> uip_buf" where
  "fresh_buf info = \<lparr>vnet_len = int (vnet_hdr_len info), eth_len = int UIP_ETH_BUF_LEN, status = UIP_BUF_STATUS_FREE,
     vnet = replicate (vnet_hdr_len info) 0, eth = replicate UIP_ETH_BUF_LEN 0\<rparr>"

definition uip_init :: "(string \<Rightarrow> u32 option) \<Rightarrow> string option \<Rightarrow> uip_info \<Rightarrow> (uip_info \<times> int) run" where
  "uip_init aton conf info =
     bind_run (uip_dhcp_get_dns aton conf
       (info\<lparr>buf_head := buf_head info @ replicate (buf_nr info) (fresh_buf info), buf_free_nr := int (buf_nr info)\<rparr>)) (\<lambda>(info, _). Done (info, 0))"

section \<open>Ownership\<close>

text \<open>
  What the pool promises: the counters are the numbers of free and of used buffers, the buffers in use are exactly those some thread
  holds, and the arrays keep the sizes they were allocated with.
\<close>

definition count_status :: "uip_buf_status \<Rightarrow> uip_buf list \<Rightarrow> nat" where
  "count_status s bs = length (filter (\<lambda>b. status b = s) bs)"

definition buf_ok :: "nat \<Rightarrow> uip_buf \<Rightarrow> bool" where
  "buf_ok n b \<longleftrightarrow> length (vnet b) = n \<and> length (eth b) = UIP_ETH_BUF_LEN"

definition inuse :: "uip_buf list \<Rightarrow> nat set" where
  "inuse bs = {i. i < length bs \<and> status (bs ! i) = UIP_BUF_STATUS_INUSE}"

definition pool_inv :: "nat set \<Rightarrow> uip_info \<Rightarrow> bool" where
  "pool_inv held info \<longleftrightarrow>
     buf_free_nr info = int (count_status UIP_BUF_STATUS_FREE (buf_head info)) \<and>
     buf_used_nr info = int (count_status UIP_BUF_STATUS_USED (buf_head info)) \<and>
     held = inuse (buf_head info) \<and>
     list_all (buf_ok (vnet_hdr_len info)) (buf_head info)"

lemma first_status_Some: "first_status s bs = Some i \<Longrightarrow> i < length bs \<and> status (bs ! i) = s \<and> (\<forall>j < i. status (bs ! j) \<noteq> s)"
proof (induction bs arbitrary: i)
  case (Cons b bs)
  then show ?case
    by (auto simp: nth_Cons split: if_splits nat.splits)
qed simp

lemma first_status_None: "first_status s bs = None \<longleftrightarrow> count_status s bs = 0"
  by (induction bs) (auto simp: count_status_def)

lemma count_status_update:
  "i < length bs \<Longrightarrow> count_status s (bs[i := b]) + (if status (bs ! i) = s then 1 else 0) = count_status s bs + (if status b = s then 1 else 0)"
proof (induction bs arbitrary: i)
  case (Cons c bs)
  then show ?case
    by (cases i) (fastforce simp: count_status_def)+
qed simp

lemma inuse_update:
  "i < length bs \<Longrightarrow> inuse (bs[i := b]) = (if status b = UIP_BUF_STATUS_INUSE then insert i (inuse bs) else inuse bs - {i})"
  by (auto simp: inuse_def nth_list_update)

lemma list_all_update: "list_all P bs \<Longrightarrow> P b \<Longrightarrow> list_all P (bs[i := b])"
  by (auto simp: list_all_iff dest: set_update_subset_insert [THEN subsetD])

lemma list_all_nthD: "list_all P bs \<Longrightarrow> i < length bs \<Longrightarrow> P (bs ! i)"
  by (simp add: list_all_length)

lemma buf_ok_status [simp]: "buf_ok n (b\<lparr>status := s\<rparr>) = buf_ok n b"
  by (simp add: buf_ok_def)

lemma get_free_cases:
  assumes "pool_inv held info"
  shows "uip_buf_get_free info = (case first_status UIP_BUF_STATUS_FREE (buf_head info) of None \<Rightarrow> Waits
    | Some i \<Rightarrow> Done (info\<lparr>buf_head := set_status i UIP_BUF_STATUS_INUSE (buf_head info), buf_free_nr := buf_free_nr info - 1\<rparr>, Some i))"
  using assms first_status_None [of UIP_BUF_STATUS_FREE "buf_head info"]
  by (auto simp: uip_buf_get_free_def pool_inv_def split: option.splits)

lemma get_used_cases:
  assumes "pool_inv held info"
  shows "uip_buf_get_used info = (case first_status UIP_BUF_STATUS_USED (buf_head info) of None \<Rightarrow> Waits
    | Some i \<Rightarrow> Done (info\<lparr>buf_head := set_status i UIP_BUF_STATUS_INUSE (buf_head info), buf_used_nr := buf_used_nr info - 1\<rparr>, Some i))"
  using assms first_status_None [of UIP_BUF_STATUS_USED "buf_head info"]
  by (auto simp: uip_buf_get_used_def pool_inv_def split: option.splits)

lemma set_status_props:
  assumes "i < length bs"
  shows "count_status s (set_status i s' bs) = count_status s bs + (if s = s' then 1 else 0) - (if status (bs ! i) = s then 1 else 0)"
    and "inuse (set_status i s' bs) = (if s' = UIP_BUF_STATUS_INUSE then insert i (inuse bs) else inuse bs - {i})"
    and "list_all (buf_ok n) bs \<Longrightarrow> list_all (buf_ok n) (set_status i s' bs)"
  using count_status_update [OF assms, of s "(bs ! i)\<lparr>status := s'\<rparr>"] inuse_update [OF assms, of "(bs ! i)\<lparr>status := s'\<rparr>"]
    list_all_update [of "buf_ok n" bs "(bs ! i)\<lparr>status := s'\<rparr>" i] list_all_nthD [of "buf_ok n" bs i] assms
  by (auto simp: set_status_def)

lemma count_status_pos: "i < length bs \<Longrightarrow> 0 < count_status (status (bs ! i)) bs"
  by (auto simp: count_status_def filter_empty_conv)

lemma pool_inv_take:
  assumes "pool_inv held info" "i < length (buf_head info)"
  shows "status (buf_head info ! i) = UIP_BUF_STATUS_FREE \<Longrightarrow> pool_inv (insert i held)
      (info\<lparr>buf_head := set_status i UIP_BUF_STATUS_INUSE (buf_head info), buf_free_nr := buf_free_nr info - 1\<rparr>)"
    and "status (buf_head info ! i) = UIP_BUF_STATUS_USED \<Longrightarrow> pool_inv (insert i held)
      (info\<lparr>buf_head := set_status i UIP_BUF_STATUS_INUSE (buf_head info), buf_used_nr := buf_used_nr info - 1\<rparr>)"
  using assms set_status_props [OF assms(2)] count_status_pos [OF assms(2)] by (auto simp: pool_inv_def)

lemma pool_inv_give:
  assumes "pool_inv held info" "i \<in> held"
  shows "pool_inv (held - {i}) (uip_buf_set_used i info)" and "pool_inv (held - {i}) (uip_buf_set_free i info)"
proof -
  have i: "i < length (buf_head info)" "status (buf_head info ! i) = UIP_BUF_STATUS_INUSE"
    using assms by (auto simp: pool_inv_def inuse_def)
  show "pool_inv (held - {i}) (uip_buf_set_used i info)" "pool_inv (held - {i}) (uip_buf_set_free i info)"
    using assms i(2) set_status_props [OF i(1)] by (auto simp: pool_inv_def uip_buf_set_used_def uip_buf_set_free_def)
qed

lemma pool_inv_fill:
  assumes "pool_inv held info" "i \<in> held" "status b = UIP_BUF_STATUS_INUSE" "buf_ok (vnet_hdr_len info) b"
  shows "pool_inv held (info\<lparr>buf_head := (buf_head info)[i := b]\<rparr>)"
proof -
  have i: "i < length (buf_head info)" "status (buf_head info ! i) = UIP_BUF_STATUS_INUSE"
    using assms by (auto simp: pool_inv_def inuse_def)
  show ?thesis
    using assms i(2) count_status_update [OF i(1), of UIP_BUF_STATUS_FREE b] count_status_update [OF i(1), of UIP_BUF_STATUS_USED b] inuse_update [OF i(1), of b]
    by (auto simp: pool_inv_def list_all_update)
qed

text \<open>The steps of the threads that use the pool, with the set of buffers they hold.\<close>

inductive pool_step :: "uip_info \<times> nat set \<Rightarrow> uip_info \<times> nat set \<Rightarrow> bool" where
  get_free: "uip_buf_get_free info = Done (info', Some i) \<Longrightarrow> pool_step (info, held) (info', insert i held)"
| get_used: "uip_buf_get_used info = Done (info', Some i) \<Longrightarrow> pool_step (info, held) (info', insert i held)"
| fill: "i \<in> held \<Longrightarrow> status b = UIP_BUF_STATUS_INUSE \<Longrightarrow> buf_ok (vnet_hdr_len info) b \<Longrightarrow>
    pool_step (info, held) (info\<lparr>buf_head := (buf_head info)[i := b]\<rparr>, held)"
| set_used: "i \<in> held \<Longrightarrow> pool_step (info, held) (uip_buf_set_used i info, held - {i})"
| set_free: "i \<in> held \<Longrightarrow> pool_step (info, held) (uip_buf_set_free i info, held - {i})"

inductive_cases pool_stepE: "pool_step (info, held) s"

lemma pool_step_inv: "pool_step s s' \<Longrightarrow> pool_inv (snd s) (fst s) \<Longrightarrow> pool_inv (snd s') (fst s')"
proof (induction rule: pool_step.induct)
  case (get_free info info' i held)
  then show ?case
    using first_status_Some [of UIP_BUF_STATUS_FREE "buf_head info" i] pool_inv_take(1) [of held info i]
    by (auto simp: get_free_cases split: option.splits)
next
  case (get_used info info' i held)
  then show ?case
    using first_status_Some [of UIP_BUF_STATUS_USED "buf_head info" i] pool_inv_take(2) [of held info i]
    by (auto simp: get_used_cases split: option.splits)
qed (auto intro: pool_inv_fill pool_inv_give)

lemma pool_reach_inv: "pool_step\<^sup>*\<^sup>* s s' \<Longrightarrow> pool_inv (snd s) (fst s) \<Longrightarrow> pool_inv (snd s') (fst s')"
  by (induction rule: rtranclp_induct) (auto intro: pool_step_inv)

text \<open>Reading the name servers leaves everything else alone.\<close>

definition no_dns :: "uip_info \<Rightarrow> uip_info" where
  "no_dns info = info\<lparr>domain_name := None, dns_ip := []\<rparr>"

lemma dns_line_frame: "no_dns (snd (snd (dns_line aton key val s))) = no_dns (snd (snd s))"
  by (cases s) (simp add: dns_line_def no_dns_def split: option.split)

lemma dns_loop_frame: "dns_loop aton ws s = Done s' \<Longrightarrow> no_dns (snd (snd s')) = no_dns (snd (snd s))"
  by (induction aton ws s rule: dns_loop.induct) (auto simp: dns_line_frame split: if_splits)

lemma uip_init_frame:
  assumes "uip_init aton conf info = Done (info', r)"
  shows "no_dns info' = no_dns (info\<lparr>buf_head := buf_head info @ replicate (buf_nr info) (fresh_buf info), buf_free_nr := int (buf_nr info)\<rparr>)"
  using assms dns_loop_frame by (fastforce simp: uip_init_def uip_dhcp_get_dns_def bind_run_Done split: option.splits)

lemma pool_inv_no_dns: "pool_inv held info = pool_inv held (no_dns info)" "length (buf_head info) = length (buf_head (no_dns info))"
  by (simp_all add: pool_inv_def no_dns_def)

lemma uip_init_inv:
  assumes "uip_init aton conf (uip_static_init info) = Done (info', r)"
  shows "pool_inv {} info' \<and> length (buf_head info') = buf_nr info"
proof -
  let ?b = "fresh_buf (uip_static_init info)"
  have "inuse (replicate n ?b) = {}" for n
    by (auto simp: inuse_def fresh_buf_def)
  moreover have "count_status UIP_BUF_STATUS_FREE (replicate n ?b) = n" "count_status UIP_BUF_STATUS_USED (replicate n ?b) = 0" for n
    by (simp_all add: count_status_def fresh_buf_def)
  moreover have "list_all (buf_ok (vnet_hdr_len info)) (replicate n ?b)" for n
    by (simp add: list_all_length buf_ok_def fresh_buf_def uip_static_init_def)
  ultimately show ?thesis
    unfolding pool_inv_no_dns(1) [of _ info'] pool_inv_no_dns(2) [of info'] uip_init_frame [OF assms] by (simp add: no_dns_def pool_inv_def uip_static_init_def)
qed

text \<open>
  C18: Buffers have one owner. After initialisation, whatever the threads of the network do with the pool, in any interleaving, the
  counters are the numbers of free and used buffers and the buffers marked as in use are exactly those some thread holds. A thread waits for a
  free (used) buffer exactly when there is none, never gets a null pointer, and the buffer it gets was free (used) and is held by nobody else.
\<close>

theorem uip_pool_ownership:
  assumes "uip_init aton conf (uip_static_init info) = Done (info0, 0)" "pool_step\<^sup>*\<^sup>* (info0, {}) (info', held)"
  shows "pool_inv held info' \<and>
    (uip_buf_get_free info' = Waits \<longleftrightarrow> (\<forall>b \<in> set (buf_head info'). status b \<noteq> UIP_BUF_STATUS_FREE)) \<and>
    (uip_buf_get_used info' = Waits \<longleftrightarrow> (\<forall>b \<in> set (buf_head info'). status b \<noteq> UIP_BUF_STATUS_USED)) \<and>
    (\<forall>info'' r. uip_buf_get_free info' = Done (info'', r) \<or> uip_buf_get_used info' = Done (info'', r) \<longrightarrow>
       (\<exists>i. r = Some i \<and> i < length (buf_head info') \<and> i \<notin> held))"
proof -
  have inv: "pool_inv held info'"
    using pool_reach_inv [OF assms(2)] uip_init_inv [OF assms(1)] by simp
  have none: "first_status s (buf_head info') = None \<longleftrightarrow> (\<forall>b \<in> set (buf_head info'). status b \<noteq> s)" for s
    by (auto simp: first_status_None count_status_def filter_empty_conv)
  have some: "i < length (buf_head info') \<and> i \<notin> held" if "first_status s (buf_head info') = Some i" "s \<noteq> UIP_BUF_STATUS_INUSE" for s i
    using first_status_Some [OF that(1)] that(2) inv by (auto simp: pool_inv_def inuse_def)
  show ?thesis
  proof (intro conjI allI impI)
    show "uip_buf_get_free info' = Waits \<longleftrightarrow> (\<forall>b \<in> set (buf_head info'). status b \<noteq> UIP_BUF_STATUS_FREE)"
      unfolding get_free_cases [OF inv] none [symmetric] by (simp split: option.split)
    show "uip_buf_get_used info' = Waits \<longleftrightarrow> (\<forall>b \<in> set (buf_head info'). status b \<noteq> UIP_BUF_STATUS_USED)"
      unfolding get_used_cases [OF inv] none [symmetric] by (simp split: option.split)
    fix info'' r
    assume "uip_buf_get_free info' = Done (info'', r) \<or> uip_buf_get_used info' = Done (info'', r)"
    then have "first_status UIP_BUF_STATUS_FREE (buf_head info') = r \<and> r \<noteq> None \<or> first_status UIP_BUF_STATUS_USED (buf_head info') = r \<and> r \<noteq> None"
      unfolding get_free_cases [OF inv] get_used_cases [OF inv] by (elim disjE) (auto split: option.splits)
    then show "\<exists>i. r = Some i \<and> i < length (buf_head info') \<and> i \<notin> held"
      using some [of UIP_BUF_STATUS_FREE] some [of UIP_BUF_STATUS_USED] by fastforce
  qed (rule inv)
qed

definition sample_info :: uip_info where
  "sample_info = \<lparr>udp_sockets = [], tcp_sockets = [], guest_mac = [2, 0, 0, 0, 0, 1], host_mac = [2, 0, 0, 0, 0, 2], buf_head = [], udp_thread = False,
     udp_epollfd = 0, buf_free_nr = 0, buf_used_nr = 0, guest_ip = 0xC0A8210F, guest_netmask = 0xFFFFFF00, host_ip = 0xC0A82101,
     dns_ip = [0, 0, 0], domain_name = None, buf_nr = 2, vnet_hdr_len = 10, host_log = []\<rparr>"

definition sample_net :: uip_info where
  "sample_net = sample_info\<lparr>buf_head := replicate 2 (fresh_buf sample_info), buf_free_nr := 2\<rparr>"

lemma sample_static: "uip_static_init sample_info = sample_info"
  by (simp add: uip_static_init_def sample_info_def)

lemma sample_init: "uip_init aton None (uip_static_init sample_info) = Done (sample_net, 0)"
  unfolding sample_static by (simp add: uip_init_def uip_dhcp_get_dns_def sample_net_def) (simp add: sample_info_def)

lemma sample_get_free: "uip_buf_get_free sample_net =
    Done (sample_net\<lparr>buf_head := [(fresh_buf sample_info)\<lparr>status := UIP_BUF_STATUS_INUSE\<rparr>, fresh_buf sample_info], buf_free_nr := 1\<rparr>, Some 0)"
  by (simp add: uip_buf_get_free_def sample_net_def numeral_2_eq_2 set_status_def) (simp add: fresh_buf_def)

theorem uip_pool_ownership_witness:
  "pool_inv {0} (sample_net\<lparr>buf_head := [(fresh_buf sample_info)\<lparr>status := UIP_BUF_STATUS_INUSE\<rparr>, fresh_buf sample_info], buf_free_nr := 1\<rparr>)"
  using uip_pool_ownership [OF sample_init, of _ "{0}"] pool_step.get_free [OF sample_get_free, of "{}"] by auto

end
