(* ===== verification/UipIp.thy ===== *)
theory UipIp
  imports UipBuf
begin

text \<open>
  The user-mode network: replies to ARP, ICMP, UDP and DHCP packets of the guest (\<^verbatim>\<open>net/uip/arp.c\<close>,
  \<^verbatim>\<open>net/uip/icmp.c\<close>, \<^verbatim>\<open>net/uip/udp.c\<close>, \<^verbatim>\<open>net/uip/dhcp.c\<close>).

  The results of the system calls are given by an environment. The frame of the guest is the array \<open>arg_eth\<close>.
\<close>

section \<open>Writing a frame\<close>

fun stores :: "(nat \<times> u8 list) list \<Rightarrow> u8 list \<Rightarrow> u8 list run" where
  "stores [] bs = Done bs"
| "stores ((off, xs) # ws) bs = (if off + length xs \<le> length bs then stores ws (put_at off xs bs) else Faults)"

definition buf_eth :: "nat \<Rightarrow> uip_info \<Rightarrow> u8 list" where
  "buf_eth i info = eth (buf_head info ! i)"

definition set_eth :: "nat \<Rightarrow> u8 list \<Rightarrow> uip_info \<Rightarrow> uip_info" where
  "set_eth i e info = info\<lparr>buf_head := (buf_head info)[i := (buf_head info ! i)\<lparr>eth := e\<rparr>]\<rparr>"

section \<open>ARP\<close>

definition uip_tx_do_arp :: "uip_tx_arg \<Rightarrow> uip_info \<Rightarrow> uip_info run" where
  "uip_tx_do_arp arg info =
     bind_run (uip_buf_clone arg info) (\<lambda>(info, i).
       let arp = arg_eth arg
       in need sizeof_arp arp (
            bind_run (stores [(arp_op, to_le 2 (htons 2)), (arp_dmac, field arp_smac 6 arp), (arp_dip, field arp_sip 4 arp)] (buf_eth i info)) (\<lambda>e.
              if ld32 arp_dip arp = htonl (host_ip info) then
                bind_run (stores [(arp_smac, host_mac info), (arp_sip, to_le 4 (htonl (host_ip info)))] e) (\<lambda>e.
                  Done (uip_buf_set_used i (set_eth i e info)))
              else Done (set_eth i e info))))"

section \<open>ICMP\<close>

definition uip_tx_do_ipv4_icmp :: "uip_tx_arg \<Rightarrow> uip_info \<Rightarrow> uip_info run" where
  "uip_tx_do_ipv4_icmp arg info =
     (let ip = arg_eth arg
      in need (icmp_csum) ip (
           bind_run (uip_buf_clone arg info) (\<lambda>(info, i).
             bind_run (stores [(ip_sip, field ip_dip 4 ip), (ip_dip, field ip_sip 4 ip), (ip_csum, [0, 0]), (icmp_type, [0]), (icmp_csum, [0, 0])] (buf_eth i info)) (\<lambda>e.
             bind_run (uip_csum_ip e) (\<lambda>c.
             bind_run (stores [(ip_csum, to_le 2 c)] e) (\<lambda>e.
             bind_run (uip_csum_icmp e) (\<lambda>(e, c).
             bind_run (stores [(icmp_csum, to_le 2 c)] e) (\<lambda>e.
               Done (uip_buf_set_used i (set_eth i e info))))))))))"

section \<open>UDP\<close>

text \<open>The frame for a payload; without one, the payload is what the buffer holds. \<^verbatim>\<open>ip2->len\<close> is added up in network order, as in the source.\<close>

definition udp_ip_len :: "u8 list \<Rightarrow> u16" where
  "udp_ip_len e = ld16 udp_len_off e + htons (uip_ip_hdrlen e)"

definition udp_header :: "uip_info \<Rightarrow> uip_udp_socket \<Rightarrow> int \<Rightarrow> (nat \<times> u8 list) list" where
  "udp_header info sk payload_len =
     [(eth_src, host_mac info), (eth_dst, guest_mac info), (eth_type, to_le 2 (htons UIP_ETH_P_IP)),
      (ip_vhl, [UIP_IP_VER_4 OR UIP_IP_HDR_LEN]), (ip_tos, [0]), (ip_id, [0, 0]), (ip_flgfrag, [0, 0]), (ip_ttl, [UIP_IP_TTL]),
      (ip_proto, [UIP_IP_P_UDP]), (ip_csum, [0, 0]), (ip_sip, to_le 4 (u_dip sk)), (ip_dip, to_le 4 (u_sip sk)),
      (udp_sport, to_le 2 (ucast (u_dport sk) :: u16)), (udp_dport, to_le 2 (ucast (u_sport sk) :: u16)),
      (udp_len_off, to_le 2 (htons (word_of_int payload_len + uip_udp_hdrlen))), (udp_csum, [0, 0])]"

definition uip_udp_make_pkg :: "uip_info \<Rightarrow> uip_udp_socket \<Rightarrow> uip_buf \<Rightarrow> u8 list option \<Rightarrow> int \<Rightarrow> uip_buf run" where
  "uip_udp_make_pkg info sk buf payload payload_len =
     bind_run (stores (udp_header info sk payload_len) (eth buf)) (\<lambda>e.
     bind_run (case payload of
                 None \<Rightarrow> Done e
               | Some bs \<Rightarrow> if payload_len < 0 \<or> length bs < nat payload_len then Faults else stores [(udp_payload, take (nat payload_len) bs)] e) (\<lambda>e.
     bind_run (stores [(ip_len, to_le 2 (udp_ip_len e))] e) (\<lambda>e.
     bind_run (uip_csum_ip e) (\<lambda>c.
     bind_run (stores [(ip_csum, to_le 2 c)] e) (\<lambda>e.
     bind_run (uip_csum_udp e) (\<lambda>(e, c).
     bind_run (stores [(udp_csum, to_le 2 c)] e) (\<lambda>e.
       if length (vnet buf) < vnet_hdr_len info then Faults
       else Done (buf\<lparr>eth := e, vnet_len := int (vnet_hdr_len info), vnet := put_at 0 (replicate (vnet_hdr_len info) 0) (vnet buf),
                      eth_len := int (unat (htons (ld16 ip_len e))) + int uip_eth_hdrlen\<rparr>))))))))"

text \<open>What the host answers to the system calls of one packet: the results of \<^verbatim>\<open>socket\<close>, \<^verbatim>\<open>connect\<close>, \<^verbatim>\<open>epoll_create\<close>,
  \<^verbatim>\<open>sendto\<close>, \<^verbatim>\<open>write\<close> and \<^verbatim>\<open>pthread_create\<close>, and whether the allocation of a buffer fails.\<close>

record net_env =
  env_socket :: int
  env_connect :: int
  env_epoll :: int
  env_sendto :: int
  env_write :: int
  env_thread :: int
  env_oom :: bool

definition udp_match :: "u32 \<Rightarrow> u32 \<Rightarrow> u16 \<Rightarrow> u16 \<Rightarrow> uip_udp_socket \<Rightarrow> bool" where
  "udp_match sip dip sport dport sk \<longleftrightarrow> u_sip sk = sip \<and> u_dip sk = dip \<and> u_sport sk = ucast sport \<and> u_dport sk = ucast dport"

definition uip_udp_socket_find :: "net_env \<Rightarrow> u32 \<Rightarrow> u32 \<Rightarrow> u16 \<Rightarrow> u16 \<Rightarrow> uip_info \<Rightarrow> uip_info \<times> uip_udp_socket option" where
  "uip_udp_socket_find env sip dip sport dport info =
     (case find (udp_match sip dip sport dport) (udp_sockets info) of
        Some sk \<Rightarrow> (info, Some sk)
      | None \<Rightarrow>
          if env_socket env < 0 then (info, None)
          else let sk = \<lparr>u_addr = (dip, dport), u_dport = ucast dport, u_sport = ucast sport, u_dip = dip, u_sip = sip, u_fd = env_socket env\<rparr>;
                   info = (if udp_epollfd info \<le> 0 then info\<lparr>udp_epollfd := env_epoll env\<rparr> else info)
            in (info\<lparr>udp_sockets := udp_sockets info @ [sk]\<rparr>, Some sk))"

text \<open>A negative length is refused by the kernel, which returns -1.\<close>

definition uip_udp_socket_send :: "net_env \<Rightarrow> uip_udp_socket \<Rightarrow> u8 list \<Rightarrow> uip_info \<Rightarrow> (uip_info \<times> int) run" where
  "uip_udp_socket_send env sk udp info =
     (let len = int (unat (htons (ld16 udp_len_off udp))) - int (unat uip_udp_hdrlen)
      in if len < 0 then Done (info, if len \<noteq> -1 then -1 else 0)
         else need (udp_payload + nat len) udp (
           Done (info\<lparr>host_log := host_log info @ [SendTo (u_fd sk) (field udp_payload (nat len) udp) (u_addr sk)]\<rparr>, if env_sendto env \<noteq> len then -1 else 0)))"

text \<open>One round of the thread that receives from the sockets, for a datagram that \<^verbatim>\<open>recvfrom\<close> returned.\<close>

definition uip_udp_socket_thread :: "uip_udp_socket \<Rightarrow> u8 list \<Rightarrow> uip_info \<Rightarrow> uip_info run" where
  "uip_udp_socket_thread sk datagram info =
     (let payload = take UIP_MAX_UDP_PAYLOAD datagram
      in bind_run (uip_buf_get_free info) (\<lambda>(info, r).
           case r of
             None \<Rightarrow> Faults
           | Some i \<Rightarrow> bind_run (uip_udp_make_pkg info sk (buf_head info ! i) (Some payload) (int (length payload))) (\<lambda>b.
               Done (uip_buf_set_used i (info\<lparr>buf_head := (buf_head info)[i := b]\<rparr>)))))"

section \<open>DHCP\<close>

abbreviation (input) "dhcp_msg_type \<equiv> 42 :: nat"
abbreviation (input) "dhcp_client_ip \<equiv> 54 :: nat"
abbreviation (input) "dhcp_your_ip \<equiv> 58 :: nat"
abbreviation (input) "dhcp_server_ip \<equiv> 62 :: nat"
abbreviation (input) "dhcp_agent_ip \<equiv> 66 :: nat"
abbreviation (input) "dhcp_magic_cookie \<equiv> 278 :: nat"
abbreviation (input) "dhcp_option \<equiv> 282 :: nat"

definition UIP_DHCP_MAX_PAYLOAD_LEN :: int where "UIP_DHCP_MAX_PAYLOAD_LEN = 300 - 64 + 312"
definition UIP_DHCP_LEASE_TIME :: u32 where "UIP_DHCP_LEASE_TIME = 0x3840"

definition dhcp_is :: "u8 \<Rightarrow> u8 list \<Rightarrow> bool" where
  "dhcp_is t p \<longleftrightarrow> ld8 (dhcp_option + 2) p = t \<and> ld8 (dhcp_option + 1) p = 1 \<and> ld8 dhcp_option p = 53"

definition uip_dhcp_is_discovery :: "u8 list \<Rightarrow> bool" where
  "uip_dhcp_is_discovery p = dhcp_is 1 p"

definition uip_dhcp_is_request :: "u8 list \<Rightarrow> bool" where
  "uip_dhcp_is_request p = dhcp_is 3 p"

definition uip_udp_is_dhcp :: "u8 list \<Rightarrow> bool run" where
  "uip_udp_is_dhcp p =
     need udp_len_off p (
       if htons (ld16 udp_sport p) \<noteq> 68 \<or> htons (ld16 udp_dport p) \<noteq> 67 then Done False
       else need dhcp_option p (Done (htonl (ld32 dhcp_magic_cookie p) = 0x63825363)))"

definition dns_options :: "u32 list \<Rightarrow> u8 list" where
  "dns_options ds = concat (map (\<lambda>d. if d = 0 then [] else [6, 4] @ to_le 4 (htonl d)) ds)"

definition uip_dhcp_fill_option_name_and_server :: "uip_info \<Rightarrow> u8 list" where
  "uip_dhcp_fill_option_name_and_server info =
     (case domain_name info of
        None \<Rightarrow> []
      | Some s \<Rightarrow> let domain_name_len = of_nat (length s) :: u8 in [15, domain_name_len] @ take (unat domain_name_len) s) @
     dns_options (take UIP_DHCP_MAX_DNS_SERVER_NR (dns_ip info))"

text \<open>The options are written one behind the other; the terminating zero of the string \<^verbatim>\<open>EMPTY_ADDR\<close> is overwritten.\<close>

definition uip_dhcp_fill_option :: "uip_info \<Rightarrow> u8 \<Rightarrow> u8 list" where
  "uip_dhcp_fill_option info reply_msg_type =
     [53, 1, reply_msg_type] @
     [54, 4] @ to_le 4 (htonl (host_ip info)) @
     [51, 4] @ to_le 4 (htonl UIP_DHCP_LEASE_TIME) @
     [1, 4] @ to_le 4 (htonl (guest_netmask info)) @
     [3, 4] @ to_le 4 (htonl (host_ip info)) @
     [17, 7] @ map of_char ''0.0.0.0'' @
     uip_dhcp_fill_option_name_and_server info @
     [255]"

definition dhcp_socket :: "uip_info \<Rightarrow> uip_udp_socket" where
  "dhcp_socket info = \<lparr>u_addr = (0, 0), u_dport = ucast (htons 67), u_sport = ucast (htons 68), u_dip = htonl (host_ip info), u_sip = htonl (guest_ip info), u_fd = 0\<rparr>"

definition uip_dhcp_make_pkg :: "uip_info \<Rightarrow> u8 \<Rightarrow> u8 list \<Rightarrow> (u8 list \<times> uip_udp_socket) run" where
  "uip_dhcp_make_pkg info reply_msg_type e =
     bind_run (stores [(dhcp_msg_type, [2]), (dhcp_client_ip, to_le 4 (0 :: u32)), (dhcp_your_ip, to_le 4 (htonl (guest_ip info))),
       (dhcp_server_ip, to_le 4 (htonl (host_ip info))), (dhcp_agent_ip, to_le 4 (0 :: u32)), (dhcp_option, uip_dhcp_fill_option info reply_msg_type)] e) (\<lambda>e.
       Done (e, dhcp_socket info))"

definition uip_tx_do_ipv4_udp_dhcp :: "uip_tx_arg \<Rightarrow> uip_info \<Rightarrow> (uip_info \<times> int) run" where
  "uip_tx_do_ipv4_udp_dhcp arg info =
     (let dhcp = arg_eth arg;
          reply = (if uip_dhcp_is_discovery dhcp then Some 2 else if uip_dhcp_is_request dhcp then Some 5 else None)
      in need (dhcp_option + 3) dhcp (
           case reply of
             None \<Rightarrow> Done (info, -1)
           | Some reply_msg_type \<Rightarrow>
               bind_run (uip_buf_clone arg info) (\<lambda>(info, i).
               bind_run (uip_dhcp_make_pkg info reply_msg_type (buf_eth i info)) (\<lambda>(e, sk).
               bind_run (uip_udp_make_pkg info sk ((buf_head info ! i)\<lparr>eth := e\<rparr>) None UIP_DHCP_MAX_PAYLOAD_LEN) (\<lambda>b.
                 Done (uip_buf_set_used i (info\<lparr>buf_head := (buf_head info)[i := b]\<rparr>), 0))))))"

definition uip_tx_do_ipv4_udp :: "net_env \<Rightarrow> uip_tx_arg \<Rightarrow> uip_info \<Rightarrow> (uip_info \<times> int) run" where
  "uip_tx_do_ipv4_udp env arg info =
     (let udp = arg_eth arg
      in bind_run (uip_udp_is_dhcp udp) (\<lambda>dhcp.
           if dhcp then bind_run (uip_tx_do_ipv4_udp_dhcp arg info) (\<lambda>(info, _). Done (info, 0))
           else case uip_udp_socket_find env (ld32 ip_sip udp) (ld32 ip_dip udp) (ld16 udp_sport udp) (ld16 udp_dport udp) info of
             (info, None) \<Rightarrow> Done (info, -1)
           | (info, Some sk) \<Rightarrow>
               need udp_csum udp (
                 bind_run (uip_udp_socket_send env sk udp info) (\<lambda>(info, ret).
                   if ret \<noteq> 0 then Done (info, -1)
                   else if udp_thread info then Done (info, 0)
                   else if env_oom env then Done (info, -1)
                   else Done (info\<lparr>udp_thread := True\<rparr>, 0)))))"

section \<open>Delivering a frame\<close>

text \<open>The header and the frame the guest gets with a buffer.\<close>

definition frame_of :: "uip_buf \<Rightarrow> u8 list \<times> u8 list" where
  "frame_of b = (take (nat (vnet_len b)) (vnet b), take (nat (eth_len b)) (eth b))"

definition lens_ok :: "uip_buf \<Rightarrow> bool" where
  "lens_ok b \<longleftrightarrow> 0 \<le> vnet_len b \<and> nat (vnet_len b) \<le> length (vnet b) \<and> 0 \<le> eth_len b \<and> nat (eth_len b) \<le> length (eth b)"

text \<open>A reply takes the first free buffer and hands it over to the guest; nothing else changes.\<close>

definition delivers :: "u8 list \<times> u8 list \<Rightarrow> uip_info \<Rightarrow> uip_info \<Rightarrow> bool" where
  "delivers hf info info' \<longleftrightarrow>
     (\<exists>i b. first_status UIP_BUF_STATUS_FREE (buf_head info) = Some i \<and>
        info' = info\<lparr>buf_free_nr := buf_free_nr info - 1, buf_head := (buf_head info)[i := b], buf_used_nr := buf_used_nr info + 1\<rparr> \<and>
        status b = UIP_BUF_STATUS_USED \<and> buf_ok (vnet_hdr_len info) b \<and> lens_ok b \<and> frame_of b = hf)"

definition macs_ok :: "uip_info \<Rightarrow> bool" where
  "macs_ok info \<longleftrightarrow> length (host_mac info) = 6 \<and> length (guest_mac info) = 6"

text \<open>A packet of the guest that fits the buffers, with a header of the right size.\<close>

definition arg_ok :: "uip_info \<Rightarrow> uip_tx_arg \<Rightarrow> bool" where
  "arg_ok info arg \<longleftrightarrow> arg_vnet_len arg = int (length (arg_vnet arg)) \<and> arg_eth_len arg = int (length (arg_eth arg)) \<and>
     length (arg_vnet arg) = vnet_hdr_len info \<and> 10 \<le> vnet_hdr_len info \<and> 14 \<le> length (arg_eth arg) \<and> length (arg_eth arg) \<le> UIP_ETH_BUF_LEN"

definition reply_vnet :: "uip_tx_arg \<Rightarrow> u8 list" where
  "reply_vnet arg = vnet_valid_hdr @ drop 10 (arg_vnet arg)"

definition cloned :: "uip_tx_arg \<Rightarrow> uip_info \<Rightarrow> uip_buf \<Rightarrow> uip_buf" where
  "cloned arg info b = b\<lparr>status := UIP_BUF_STATUS_INUSE, vnet := reply_vnet arg,
     eth := put_at 0 (field 6 6 (arg_eth arg)) (put_at 6 (host_mac info) (put_at 0 (arg_eth arg) (eth b))),
     vnet_len := arg_vnet_len arg, eth_len := arg_eth_len arg\<rparr>"

lemma uip_buf_clone_ok:
  assumes inv: "pool_inv held info" and free: "first_status UIP_BUF_STATUS_FREE (buf_head info) = Some i"
    and ok: "arg_ok info arg" "macs_ok info"
  shows "uip_buf_clone arg info =
    Done (info\<lparr>buf_free_nr := buf_free_nr info - 1, buf_head := (buf_head info)[i := cloned arg info (buf_head info ! i)]\<rparr>, i)"
proof -
  have i: "i < length (buf_head info)" "status (buf_head info ! i) = UIP_BUF_STATUS_FREE"
    using first_status_Some [OF free] by auto
  then have b: "length (vnet (buf_head info ! i)) = vnet_hdr_len info" "length (eth (buf_head info ! i)) = UIP_ETH_BUF_LEN"
    using inv list_all_nthD [of "buf_ok (vnet_hdr_len info)" "buf_head info" i] by (auto simp: pool_inv_def buf_ok_def)
  have "put_at 0 vnet_valid_hdr (put_at 0 (arg_vnet arg) (vnet (buf_head info ! i))) = reply_vnet arg"
    using ok b by (simp add: put_at_def reply_vnet_def arg_ok_def vnet_valid_hdr_def)
  then show ?thesis
    using ok b i by (simp add: uip_buf_clone_def get_free_cases [OF inv] free copy_in_def arg_ok_def set_status_def cloned_def macs_ok_def
      UIP_ETH_BUF_LEN_def vnet_valid_hdr_def need_def)
qed

definition fit :: "u8 list \<Rightarrow> (nat \<times> u8 list) list \<Rightarrow> bool" where
  "fit bs ws \<longleftrightarrow> list_all (\<lambda>(off, xs). off + length xs \<le> length bs) ws"

definition apart :: "nat \<times> u8 list \<Rightarrow> nat \<times> u8 list \<Rightarrow> bool" where
  "apart w v \<longleftrightarrow> fst w + length (snd w) \<le> fst v \<or> fst v + length (snd v) \<le> fst w"

definition written :: "(nat \<times> u8 list) list \<Rightarrow> u8 list \<Rightarrow> u8 list" where
  "written ws bs = fold (\<lambda>(off, xs). put_at off xs) ws bs"

lemma written_simps [simp]: "written [] bs = bs" "written ((off, xs) # ws) bs = written ws (put_at off xs bs)"
  by (simp_all add: written_def)

lemma fit_simps [simp]: "fit bs []" "fit bs ((off, xs) # ws) \<longleftrightarrow> off + length xs \<le> length bs \<and> fit bs ws"
  by (simp_all add: fit_def)

lemma fit_put: "off + length xs \<le> length bs \<Longrightarrow> fit (put_at off xs bs) ws = fit bs ws"
  by (simp add: fit_def)

lemma stores_Done: "fit bs ws \<Longrightarrow> stores ws bs = Done (written ws bs) \<and> length (written ws bs) = length bs"
  by (induction ws arbitrary: bs) (auto simp: fit_put)

lemma field_written_other:
  "fit bs ws \<Longrightarrow> list_all (\<lambda>(off, xs). o' + n \<le> off \<or> off + length xs \<le> o') ws \<Longrightarrow> field o' n (written ws bs) = field o' n bs"
proof (induction ws arbitrary: bs)
  case (Cons w ws)
  then show ?case by (cases w) (auto simp: fit_put field_put_other)
qed simp

lemma field_written:
  "fit bs ws \<Longrightarrow> sorted_wrt apart ws \<Longrightarrow> (off, xs) \<in> set ws \<Longrightarrow> n = length xs \<Longrightarrow> field off n (written ws bs) = xs"
proof (induction ws arbitrary: bs)
  case (Cons w ws)
  show ?case
  proof (cases "w = (off, xs)")
    case True
    have "field off n (written ws (put_at off xs bs)) = field off n (put_at off xs bs)"
      by (rule field_written_other) (use Cons.prems True in \<open>auto simp: fit_put list_all_iff apart_def\<close>)
    then show ?thesis
      using True Cons.prems by (simp add: field_put_same)
  next
    case False
    then show ?thesis
      using Cons by (cases w) (auto simp: fit_put)
  qed
qed simp

text \<open>The common end of the handlers: the buffer they took is filled and handed over.\<close>

lemma delivers_buf:
  assumes "first_status UIP_BUF_STATUS_FREE (buf_head info) = Some i" "buf_ok (vnet_hdr_len info) b" "lens_ok b"
  shows "delivers (frame_of b) info (uip_buf_set_used i (info\<lparr>buf_free_nr := buf_free_nr info - 1, buf_head := (buf_head info)[i := b]\<rparr>))"
proof -
  have "frame_of (b\<lparr>status := UIP_BUF_STATUS_USED\<rparr>) = frame_of b" "lens_ok (b\<lparr>status := UIP_BUF_STATUS_USED\<rparr>)"
    using assms(3) by (simp_all add: frame_of_def lens_ok_def)
  moreover have "uip_buf_set_used i (info\<lparr>buf_free_nr := buf_free_nr info - 1, buf_head := (buf_head info)[i := b]\<rparr>) =
      info\<lparr>buf_free_nr := buf_free_nr info - 1, buf_head := (buf_head info)[i := b\<lparr>status := UIP_BUF_STATUS_USED\<rparr>], buf_used_nr := buf_used_nr info + 1\<rparr>"
    using first_status_Some [OF assms(1)] by (simp add: uip_buf_set_used_def set_status_def)
  ultimately show ?thesis
    unfolding delivers_def using assms by (intro exI [of _ i] exI [of _ "b\<lparr>status := UIP_BUF_STATUS_USED\<rparr>"]) simp
qed

lemma cloned_ok: "arg_ok info arg \<Longrightarrow> length e = UIP_ETH_BUF_LEN \<Longrightarrow> buf_ok (vnet_hdr_len info) ((cloned arg info b)\<lparr>eth := e\<rparr>)"
  by (simp add: buf_ok_def cloned_def arg_ok_def reply_vnet_def vnet_valid_hdr_def)

lemma delivers_clone:
  assumes free: "first_status UIP_BUF_STATUS_FREE (buf_head info) = Some i" and ok: "arg_ok info arg"
    and len: "length e = UIP_ETH_BUF_LEN" and frame: "take (length (arg_eth arg)) e = f"
  shows "delivers (reply_vnet arg, f) info (uip_buf_set_used i (set_eth i e
    (info\<lparr>buf_free_nr := buf_free_nr info - 1, buf_head := (buf_head info)[i := cloned arg info (buf_head info ! i)]\<rparr>)))"
proof -
  let ?b = "(cloned arg info (buf_head info ! i))\<lparr>eth := e\<rparr>"
  have "frame_of ?b = (reply_vnet arg, f)" "lens_ok ?b"
    using ok frame len by (simp_all add: frame_of_def lens_ok_def cloned_def arg_ok_def reply_vnet_def vnet_valid_hdr_def)
  then show ?thesis
    using delivers_buf [OF free cloned_ok [OF ok len], of "buf_head info ! i"] first_status_Some [OF free] by (simp add: set_eth_def)
qed

lemma first_free:
  assumes "pool_inv held info" "0 < buf_free_nr info"
  obtains i where "first_status UIP_BUF_STATUS_FREE (buf_head info) = Some i" "i < length (buf_head info)"
    "length (vnet (buf_head info ! i)) = vnet_hdr_len info" "length (eth (buf_head info ! i)) = UIP_ETH_BUF_LEN"
proof (cases "first_status UIP_BUF_STATUS_FREE (buf_head info)")
  case None
  then show ?thesis
    using assms first_status_None [of UIP_BUF_STATUS_FREE "buf_head info"] by (simp add: pool_inv_def)
next
  case (Some i)
  then show ?thesis
    using that [of i] assms first_status_Some [OF Some] list_all_nthD [of "buf_ok (vnet_hdr_len info)" "buf_head info" i] by (auto simp: pool_inv_def buf_ok_def)
qed

lemma buf_eth_clone [simp]:
  "i < length (buf_head info) \<Longrightarrow> buf_eth i (info\<lparr>buf_free_nr := x, buf_head := (buf_head info)[i := b]\<rparr>) = eth b"
  by (simp add: buf_eth_def)

lemma delivers_frame:
  "delivers hf info info' \<Longrightarrow> host_mac info' = host_mac info \<and> guest_mac info' = guest_mac info \<and> vnet_hdr_len info' = vnet_hdr_len info \<and>
     tcp_sockets info' = tcp_sockets info \<and> udp_sockets info' = udp_sockets info \<and> host_log info' = host_log info"
  by (auto simp: delivers_def)

lemma delivers_inv:
  assumes "delivers hf info info'" "pool_inv held info"
  shows "pool_inv held info'"
proof -
  obtain i b where d: "first_status UIP_BUF_STATUS_FREE (buf_head info) = Some i" "status b = UIP_BUF_STATUS_USED" "buf_ok (vnet_hdr_len info) b"
      "info' = info\<lparr>buf_free_nr := buf_free_nr info - 1, buf_head := (buf_head info)[i := b], buf_used_nr := buf_used_nr info + 1\<rparr>"
    using assms(1) by (auto simp: delivers_def)
  have i: "i < length (buf_head info)" "status (buf_head info ! i) = UIP_BUF_STATUS_FREE"
    using first_status_Some [OF d(1)] by auto
  then show ?thesis
    using assms(2) d(2,3) count_status_update [OF i(1), of UIP_BUF_STATUS_FREE b] count_status_update [OF i(1), of UIP_BUF_STATUS_USED b] inuse_update [OF i(1), of b]
    unfolding d(4) by (auto simp: pool_inv_def list_all_update inuse_def)
qed

section \<open>ARP and ICMP replies\<close>

definition arp_reply :: "uip_info \<Rightarrow> u8 list \<Rightarrow> u8 list" where
  "arp_reply info p = field 6 6 p @ host_mac info @ field 12 8 p @ [0, 2] @ host_mac info @ rev (to_le 4 (host_ip info)) @ field 22 6 p @ field 28 4 p @ drop 42 p"

lemma to_le_2: "rev (to_le 2 (2 :: u16)) = [0, 2]"
  by code_simp

text \<open>
  ARP. A request of the guest for the address of the host is answered with the host's hardware address, sent to the guest: sender and target
  are exchanged, and everything else of the packet is kept.
\<close>

lemma arp_reply_ok:
  assumes inv: "pool_inv held info" and ok: "arg_ok info arg" "macs_ok info" and len: "42 \<le> length (arg_eth arg)"
    and host: "ld32 38 (arg_eth arg) = htonl (host_ip info)" and free: "0 < buf_free_nr info"
  shows "\<exists>info'. uip_tx_do_arp arg info = Done info' \<and> delivers (reply_vnet arg, arp_reply info (arg_eth arg)) info info'"
proof -
  let ?p = "arg_eth arg" and ?n = "length (arg_eth arg)"
  obtain i where i: "first_status UIP_BUF_STATUS_FREE (buf_head info) = Some i"
      and b: "length (eth (buf_head info ! i)) = UIP_ETH_BUF_LEN" "i < length (buf_head info)"
    using first_free [OF inv free] by metis
  let ?old = "eth (cloned arg info (buf_head info ! i))"
  let ?ws = "[(20, rev (to_le 2 (2 :: u16))), (32, field 22 6 ?p), (38, field 28 4 ?p), (22, host_mac info), (28, rev (to_le 4 (host_ip info)))]"
  let ?e = "written ?ws ?old"
  have n: "?n \<le> UIP_ETH_BUF_LEN" "length (host_mac info) = 6"
    using ok by (auto simp: arg_ok_def macs_ok_def)
  have old: "length ?old = UIP_ETH_BUF_LEN"
    using b n len by (simp add: cloned_def)
  then have le: "length ?e = UIP_ETH_BUF_LEN"
    using n len by simp
  have "take ?n ?e = field 0 6 ?e @ field 6 6 ?e @ field 12 8 ?e @ field 20 2 ?e @ field 22 6 ?e @ field 28 4 ?e @ field 32 6 ?e @ field 38 4 ?e @ field 42 (?n - 42) ?e"
    using len by (simp add: field_0 [symmetric] field_split [of 6 ?n 0] field_split [of 6 "?n - 6" 6] field_split [of 8 "?n - 12" 12] field_split [of 2 "?n - 20" 20]
      field_split [of 6 "?n - 22" 22] field_split [of 4 "?n - 28" 28] field_split [of 6 "?n - 32" 32] field_split [of 4 "?n - 38" 38])
  moreover have "field 0 6 ?e = field 6 6 ?p" "field 6 6 ?e = host_mac info" "field 12 8 ?e = field 12 8 ?p" "field 42 (?n - 42) ?e = drop 42 ?p"
    using old b n len by (simp_all add: cloned_def field_put_same field_put_other field_put_inside field_rest UIP_ETH_BUF_LEN_def)
  moreover have "field 20 2 ?e = [0, 2]" "field 22 6 ?e = host_mac info" "field 28 4 ?e = rev (to_le 4 (host_ip info))" "field 32 6 ?e = field 22 6 ?p" "field 38 4 ?e = field 28 4 ?p"
    using old n len by (simp_all add: field_put_same field_put_other UIP_ETH_BUF_LEN_def to_le_2)
  ultimately have "take ?n ?e = arp_reply info ?p"
    by (simp only: arp_reply_def)
  then have "delivers (reply_vnet arg, arp_reply info ?p) info (uip_buf_set_used i (set_eth i ?e
      (info\<lparr>buf_free_nr := buf_free_nr info - 1, buf_head := (buf_head info)[i := cloned arg info (buf_head info ! i)]\<rparr>)))"
    by (rule delivers_clone [OF i ok(1) le])
  moreover have "uip_tx_do_arp arg info = Done (uip_buf_set_used i (set_eth i ?e
      (info\<lparr>buf_free_nr := buf_free_nr info - 1, buf_head := (buf_head info)[i := cloned arg info (buf_head info ! i)]\<rparr>)))"
    using old n(2) len host b(2) by (simp add: uip_tx_do_arp_def Let_def uip_buf_clone_ok [OF inv i ok] UIP_ETH_BUF_LEN_def)
  ultimately show ?thesis by blast
qed

text \<open>A request for any other address keeps the buffer it took for ever: after as many of them as there are free buffers, the network waits.\<close>

lemma arp_other_target_leaks:
  assumes inv: "pool_inv held info" and ok: "arg_ok info arg" "macs_ok info" and len: "42 \<le> length (arg_eth arg)"
    and host: "ld32 38 (arg_eth arg) \<noteq> htonl (host_ip info)" and free: "0 < buf_free_nr info"
  obtains info' i where "uip_tx_do_arp arg info = Done info'" "pool_inv (insert i held) info'" "buf_free_nr info' = buf_free_nr info - 1"
    "arg_ok info' arg" "macs_ok info'" "host_ip info' = host_ip info"
proof -
  obtain i where i: "first_status UIP_BUF_STATUS_FREE (buf_head info) = Some i"
      and b: "length (eth (buf_head info ! i)) = UIP_ETH_BUF_LEN" "i < length (buf_head info)"
    using first_free [OF inv free] by metis
  let ?c = "cloned arg info (buf_head info ! i)"
  let ?ws = "[(20, rev (to_le 2 (2 :: u16))), (32, field 22 6 (arg_eth arg)), (38, field 28 4 (arg_eth arg))]"
  have c: "length (eth ?c) = UIP_ETH_BUF_LEN"
    using b ok len by (simp add: cloned_def arg_ok_def macs_ok_def UIP_ETH_BUF_LEN_def)
  have fit: "fit (eth ?c) ?ws"
    using c len by (simp add: UIP_ETH_BUF_LEN_def)
  let ?b = "?c\<lparr>eth := written ?ws (eth ?c)\<rparr>"
  let ?info = "info\<lparr>buf_free_nr := buf_free_nr info - 1, buf_head := (buf_head info)[i := ?b]\<rparr>"
  have run: "uip_tx_do_arp arg info = Done ?info"
    using stores_Done [OF fit] len host b by (simp add: uip_tx_do_arp_def Let_def uip_buf_clone_ok [OF inv i ok] set_eth_def del: stores.simps written_simps)
  have "buf_ok (vnet_hdr_len info) ?b" "status ?b = UIP_BUF_STATUS_INUSE"
    using cloned_ok [OF ok(1), of "written ?ws (eth ?c)" "buf_head info ! i"] stores_Done [OF fit] c by (simp_all add: cloned_def)
  then have "pool_inv (insert i held) ?info"
    using inv first_status_Some [OF i] count_status_update [OF b(2), of UIP_BUF_STATUS_FREE ?b] count_status_update [OF b(2), of UIP_BUF_STATUS_USED ?b] inuse_update [OF b(2), of ?b]
    by (simp add: pool_inv_def list_all_update)
  then show ?thesis
    using that [OF run] ok by (simp add: arg_ok_def macs_ok_def)
qed

fun arp_times :: "nat \<Rightarrow> uip_tx_arg \<Rightarrow> uip_info \<Rightarrow> uip_info run" where
  "arp_times 0 arg info = Done info"
| "arp_times (Suc n) arg info = bind_run (uip_tx_do_arp arg info) (arp_times n arg)"

lemma arp_exhausts_pool:
  assumes "pool_inv held info" "arg_ok info arg" "macs_ok info" "42 \<le> length (arg_eth arg)" "ld32 38 (arg_eth arg) \<noteq> htonl (host_ip info)" "buf_free_nr info = int n"
  shows "arp_times (Suc n) arg info = Waits"
  using assms
proof (induction n arbitrary: held info)
  case 0
  then show ?case
    by (simp add: uip_tx_do_arp_def uip_buf_clone_def uip_buf_get_free_def)
next
  case (Suc n)
  then have "0 < buf_free_nr info" by simp
  then obtain info' i where "uip_tx_do_arp arg info = Done info'" "pool_inv (insert i held) info'" "buf_free_nr info' = buf_free_nr info - 1"
      "arg_ok info' arg" "macs_ok info'" "host_ip info' = host_ip info"
    by (rule arp_other_target_leaks [OF Suc.prems(1-5)])
  then show ?case
    using Suc.IH [of "insert i held" info'] Suc.prems by simp
qed

lemma icmp_csums:
  assumes "length e = UIP_ETH_BUF_LEN" "uip_ip_hdrlen e = 20" "unat (uip_ip_len e) = t" "32 \<le> t" "14 + t \<le> UIP_ETH_BUF_LEN"
    "field 24 2 e = [0, 0]" "field 36 2 e = [0, 0]"
  obtains c d where "uip_csum_ip e = Done c"
    "uip_csum_icmp (put_at 24 (to_le 2 c) e) = Done (put_at 36 (to_le 2 d) (put_at 24 (to_le 2 c) e), d)"
    "csum_valid (field 14 20 (put_at 36 (to_le 2 d) (put_at 24 (to_le 2 c) e)))"
    "csum_valid (field 34 (t - 28) (put_at 36 (to_le 2 d) (put_at 24 (to_le 2 c) e)))"
proof -
  obtain c where c: "uip_csum 0 (drop 14 e) 20 = Done c"
    using uip_csum_Done [of 20 "drop 14 e" 0] assms(1) by (auto simp: UIP_ETH_BUF_LEN_def)
  let ?e = "put_at 24 (to_le 2 c) e"
  have e: "length ?e = UIP_ETH_BUF_LEN" "field 14 1 ?e = field 14 1 e" "field 16 2 ?e = field 16 2 e" "field 36 2 ?e = [0, 0]"
    using assms by (simp_all add: field_put_other UIP_ETH_BUF_LEN_def)
  have w: "htons (ld16 16 ?e) - uip_ip_hdrlen ?e - 8 = uip_ip_len e - 28"
    using assms(2) e(2,3) by (simp add: uip_ip_hdrlen_def ld8_def ld16_def uip_ip_len_def)
  have cnt: "unat (uip_ip_len e - 28) = t - 28"
    using assms(3,4) unat_sub [of 28 "uip_ip_len e"] by (simp add: word_le_nat_alt)
  have "unat (uip_ip_len e - 28) \<le> length (drop 34 ?e)"
    using cnt assms(5) e(1) by (simp add: UIP_ETH_BUF_LEN_def)
  then obtain d where d: "uip_csum 0 (drop 34 ?e) (uip_ip_len e - 28) = Done d"
    using uip_csum_Done by blast
  show ?thesis
  proof (rule that)
    show "uip_csum_ip e = Done c"
      using c assms(2) by (simp add: uip_csum_ip_def)
    show "uip_csum_icmp ?e = Done (put_at 36 (to_le 2 d) ?e, d)"
      unfolding uip_csum_icmp_def w using d by simp
    show "csum_valid (field 14 20 (put_at 36 (to_le 2 d) ?e))"
      using csum_field [OF c, of 10] assms e by (simp add: field_put_other UIP_ETH_BUF_LEN_def)
    show "csum_valid (field 34 (t - 28) (put_at 36 (to_le 2 d) ?e))"
      using csum_field [OF d, of 2] assms e cnt by (simp add: UIP_ETH_BUF_LEN_def)
  qed
qed

text \<open>
  ICMP. An echo request is answered by the same packet with the addresses exchanged, type 0 and a valid header checksum. The checksum of the
  message is computed without its last eight bytes: it is valid exactly when these bytes do not contribute to the sum.
\<close>

definition icmp_reply :: "uip_info \<Rightarrow> u8 list \<Rightarrow> u8 list \<Rightarrow> bool" where
  "icmp_reply info p f \<longleftrightarrow> length f = length p \<and>
     field 0 24 f = field 6 6 p @ host_mac info @ field 12 12 p \<and>
     field 26 10 f = field 30 4 p @ field 26 4 p @ [0] @ field 35 1 p \<and> drop 38 f = drop 38 p \<and> csum_valid (field 14 20 f) \<and>
     (let t = unat (uip_ip_len p) in csum_valid (field 34 (t - 20) f) \<longleftrightarrow> csum_valid (field (14 + t - 8) 8 p))"

lemma icmp_reply_ok:
  assumes inv: "pool_inv held info" and ok: "arg_ok info arg" "macs_ok info"
    and hdr: "uip_ip_hdrlen (arg_eth arg) = 20" and tot: "unat (uip_ip_len (arg_eth arg)) = t" "32 \<le> t" "even t" "14 + t \<le> length (arg_eth arg)"
    and free: "0 < buf_free_nr info"
  shows "\<exists>info' f. uip_tx_do_ipv4_icmp arg info = Done info' \<and> delivers (reply_vnet arg, f) info info' \<and> icmp_reply info (arg_eth arg) f"
proof -
  let ?p = "arg_eth arg" and ?n = "length (arg_eth arg)"
  obtain i where i: "first_status UIP_BUF_STATUS_FREE (buf_head info) = Some i"
      and b: "length (eth (buf_head info ! i)) = UIP_ETH_BUF_LEN" "i < length (buf_head info)"
    using first_free [OF inv free] by metis
  define old where "old = eth (cloned arg info (buf_head info ! i))"
  define mid where "mid = written [(26, field 30 4 ?p), (30, field 26 4 ?p), (24, [0, 0]), (34, [0]), (36, [0, 0])] old"
  have n: "46 \<le> ?n" "?n \<le> UIP_ETH_BUF_LEN" "length (host_mac info) = 6"
    using ok tot by (auto simp: arg_ok_def macs_ok_def)
  have lo: "length old = UIP_ETH_BUF_LEN"
    using b n by (simp add: old_def cloned_def)
  then have lm: "length mid = UIP_ETH_BUF_LEN"
    using n by (simp add: mid_def UIP_ETH_BUF_LEN_def)
  have f: "field 14 1 mid = field 14 1 ?p" "field 16 2 mid = field 16 2 ?p" "field 24 2 mid = [0, 0]" "field 36 2 mid = [0, 0]"
    using lo b n by (simp_all add: mid_def old_def cloned_def field_put_same field_put_other field_put_inside UIP_ETH_BUF_LEN_def)
  have "uip_ip_hdrlen mid = 20" "unat (uip_ip_len mid) = t"
    using hdr tot f(1,2) by (simp_all add: uip_ip_hdrlen_def uip_ip_len_def ld8_def ld16_def)
  then obtain c d where cd: "uip_csum_ip mid = Done c"
      "uip_csum_icmp (put_at 24 (to_le 2 c) mid) = Done (put_at 36 (to_le 2 d) (put_at 24 (to_le 2 c) mid), d)"
      "csum_valid (field 14 20 (put_at 36 (to_le 2 d) (put_at 24 (to_le 2 c) mid)))"
      "csum_valid (field 34 (t - 28) (put_at 36 (to_le 2 d) (put_at 24 (to_le 2 c) mid)))"
    using icmp_csums [OF lm _ _ tot(2) _ f(3,4)] tot n by auto
  let ?e = "put_at 36 (to_le 2 d) (put_at 24 (to_le 2 c) mid)"
  have e: "length ?e = UIP_ETH_BUF_LEN"
    using lm by (simp add: UIP_ETH_BUF_LEN_def)
  have st: "stores [(26, field 30 4 ?p), (30, field 26 4 ?p), (24, [0, 0]), (34, [0]), (36, [0, 0])] old = Done mid"
    using lo n unfolding mid_def by (intro stores_Done [THEN conjunct1]) (simp add: UIP_ETH_BUF_LEN_def)
  have st2: "stores [(24, to_le 2 c)] mid = Done (put_at 24 (to_le 2 c) mid)" "stores [(36, to_le 2 d)] ?e = Done ?e"
    using lm e by (simp_all add: UIP_ETH_BUF_LEN_def put_at_twice)
  have run: "uip_tx_do_ipv4_icmp arg info = Done (uip_buf_set_used i (set_eth i ?e
      (info\<lparr>buf_free_nr := buf_free_nr info - 1, buf_head := (buf_head info)[i := cloned arg info (buf_head info ! i)]\<rparr>)))"
    using b(2) n cd(1,2) by (simp add: uip_tx_do_ipv4_icmp_def Let_def uip_buf_clone_ok [OF inv i ok] st [unfolded old_def] st2 del: stores.simps)
  have del: "delivers (reply_vnet arg, take ?n ?e) info (uip_buf_set_used i (set_eth i ?e
      (info\<lparr>buf_free_nr := buf_free_nr info - 1, buf_head := (buf_head info)[i := cloned arg info (buf_head info ! i)]\<rparr>)))"
    by (rule delivers_clone [OF i ok(1) e refl])
  have fe: "field 0 6 ?e = field 6 6 ?p" "field 6 6 ?e = host_mac info" "field 12 12 ?e = field 12 12 ?p" "field 26 4 ?e = field 30 4 ?p" "field 30 4 ?e = field 26 4 ?p"
      "field 34 1 ?e = [0]" "field 35 1 ?e = field 35 1 ?p" "field 38 (?n - 38) ?e = field 38 (?n - 38) ?p" "field (14 + t - 8) 8 ?e = field (14 + t - 8) 8 ?p"
    using lo b n tot by (simp_all add: mid_def old_def cloned_def field_put_same field_put_other field_put_inside UIP_ETH_BUF_LEN_def)
  define f where "f = take ?n ?e"
  have ff: "field off k f = field off k ?e" if "off + k \<le> ?n" for off k
    using that n by (simp add: f_def field_0 [symmetric] field_field)
  have head: "field 0 24 f = field 6 6 ?p @ host_mac info @ field 12 12 ?p" "field 26 10 f = field 30 4 ?p @ field 26 4 ?p @ [0] @ field 35 1 ?p"
    using n fe by (simp_all add: ff field_split [of 6 24 0] field_split [of 6 18 6] field_split [of 4 10 26] field_split [of 4 6 30] field_split [of 1 2 34])
  have lf: "length f = ?n"
    using e n by (simp add: f_def)
  then have tail: "drop 38 f = drop 38 ?p"
    using ff [of 38 "?n - 38"] n fe(8) field_rest [of 38 f] field_rest [of 38 ?p] by simp
  have "field 34 (t - 20) f = field 34 (t - 28) ?e @ field (14 + t - 8) 8 ?p"
    using ff [of 34 "t - 20"] field_split [of "t - 28" "t - 20" 34 ?e] tot fe(9) by simp
  then have "csum_valid (field 34 (t - 20) f) \<longleftrightarrow> csum_valid (field (14 + t - 8) 8 ?p)"
    using cd(4) tot e n by (simp add: csum_valid_def net_sum_append UIP_ETH_BUF_LEN_def dvd_add_right_iff)
  then show ?thesis
    using run del head lf tail cd(3) ff [of 14 20] n tot(1) unfolding f_def icmp_reply_def Let_def by auto
qed

end
