(* ===== verification/UipUdp.thy ===== *)
theory UipUdp
  imports UipIp
begin

text \<open>
  The user-mode network: the UDP and DHCP frames built for the guest are accepted by a receiver that checks what the RFCs 791, 768 and 2131 say.
\<close>

section \<open>A receiver\<close>

definition be16n :: "u8 list \<Rightarrow> nat" where
  "be16n bs = 256 * unat (bs ! 0) + unat (bs ! 1)"

text \<open>A frame that carries an IP packet without options, complete and with a valid header checksum.\<close>

definition ip_frame_ok :: "u8 \<Rightarrow> u8 list \<Rightarrow> bool" where
  "ip_frame_ok proto f \<longleftrightarrow>
     34 \<le> length f \<and> field 12 2 f = [0x08, 0x00] \<and> field 14 1 f = [0x45] \<and> be16n (field 16 2 f) + 14 = length f \<and>
     field 23 1 f = [proto] \<and> csum_valid (field 14 20 f)"

definition pseudo_of :: "u8 list \<Rightarrow> u8 list \<Rightarrow> u8 list" where
  "pseudo_of f len = field 26 4 f @ field 30 4 f @ [0] @ field 23 1 f @ len"

record udp_view =
  v_macs :: "u8 list \<times> u8 list"
  v_ips :: "u8 list \<times> u8 list"
  v_ports :: "u8 list \<times> u8 list"
  v_data :: "u8 list"

text \<open>Destination first, then source.\<close>

definition udp_parse :: "u8 list \<Rightarrow> udp_view option" where
  "udp_parse f =
     (if ip_frame_ok 17 f \<and> 42 \<le> length f \<and> be16n (field 38 2 f) + 34 = length f \<and> csum_valid (pseudo_of f (field 38 2 f) @ drop 34 f)
      then Some \<lparr>v_macs = (field 0 6 f, field 6 6 f), v_ips = (field 30 4 f, field 26 4 f), v_ports = (field 36 2 f, field 34 2 f), v_data = drop 42 f\<rparr>
      else None)"

section \<open>Lengths in network order\<close>

lemma unat_htons: "unat (htons w) = 256 * (unat w mod 256) + unat w div 256"
proof -
  obtain a b where ab: "to_le 2 w = [a, b]"
    by (simp add: to_le_def numeral_2_eq_2)
  have "unat w = unat a + 256 * unat b"
    using unat_bytes [of a b] of_le_to_le [of 2 w] ab by simp
  moreover have "unat a < 256"
    using unsigned_less [of a, where 'a = nat] by simp
  moreover have "unat (htons w) = unat b + 256 * unat a"
    using unat_bytes [of b a] ab by (simp add: htons_def)
  ultimately show ?thesis by simp
qed

lemma unat_htons_bytes: "unat w = 256 * x + h \<Longrightarrow> h < 256 \<Longrightarrow> unat (htons w) = 256 * h + x"
  by (simp add: unat_htons)

lemma be16n_rev: "be16n (rev (to_le 2 w)) = unat w" for w :: u16
proof -
  obtain a b where ab: "to_le 2 w = [a, b]"
    by (simp add: to_le_def numeral_2_eq_2)
  have "unat w = unat a + 256 * unat b"
    using unat_bytes [of a b] of_le_to_le [of 2 w] ab by simp
  then show ?thesis
    using ab by (simp add: be16n_def)
qed

lemma be16n_field: "off + 2 \<le> length e \<Longrightarrow> be16n (field off 2 e) = unat (htons (ld16 off e))"
  using be16n_rev [of "htons (ld16 off e)"] by (simp add: ld16_def to_le_of_le)

text \<open>Adding the header length in network order loses the carry out of the low byte.\<close>

lemma udp_ip_len_carry:
  assumes "l < 65516"
  shows "unat (htons (htons (of_nat l) + htons 20)) = (if l mod 256 < 236 then l + 20 else l + 20 - 256)"
proof -
  have l: "unat (of_nat l :: u16) = l"
    by (rule unat_u16) (use assms in simp)
  have 20: "unat (htons 20) = 5120"
    by (simp add: unat_htons)
  have q: "l div 256 < 256" "l mod 256 < 256" "l = 256 * (l div 256) + l mod 256"
    using assms by (simp_all add: div_less_iff_less_mult)
  have s: "unat (htons (of_nat l) + htons 20) = (256 * (l mod 256) + l div 256 + 5120) mod 65536"
    by (simp add: unat_word_ariths unat_htons l 20)
  show ?thesis
  proof (cases "l mod 256 < 236")
    case True
    then have "unat (htons (of_nat l) + htons 20) = 256 * (l mod 256 + 20) + l div 256"
      unfolding s using q by simp
    then have "unat (htons (htons (of_nat l) + htons 20)) = 256 * (l div 256) + (l mod 256 + 20)"
      using q(1) by (rule unat_htons_bytes)
    then show ?thesis
      using True q(3) by simp
  next
    case False
    then have "256 * (l mod 256) + l div 256 + 5120 = 256 * (l mod 256 + 20 - 256) + l div 256 + 65536"
      by simp
    then have "unat (htons (of_nat l) + htons 20) = 256 * (l mod 256 + 20 - 256) + l div 256"
      unfolding s using q False by simp
    then have "unat (htons (htons (of_nat l) + htons 20)) = 256 * (l div 256) + (l mod 256 + 20 - 256)"
      using q(1) by (rule unat_htons_bytes)
    then show ?thesis
      using False q(3) by simp
  qed
qed

section \<open>The common part of segments\<close>

lemma pseudo_of_cong: "field 26 4 e = field 26 4 r \<Longrightarrow> field 30 4 e = field 30 4 r \<Longrightarrow> field 23 1 e = field 23 1 r \<Longrightarrow> pseudo_of e l = pseudo_of r l"
  by (simp add: pseudo_of_def)

text \<open>
  What follows when the header and data of a segment of \<open>l\<close> bytes are in the frame \<open>p\<close>, with both checksums zero, that of the segment at offset \<open>k\<close>: the
  packet length \<open>w\<close> and both checksums are stored; \<open>lb\<close> is the length in the pseudo header.
\<close>

lemma segment_frame:
  assumes p: "length p = UIP_ETH_BUF_LEN" "field 14 1 p = [0x45]" "field 24 2 p = [0, 0]" "field (34 + k) 2 p = [0, 0]"
    and k: "even k" "2 \<le> k" "k + 2 \<le> l" "46 + l + l mod 2 \<le> UIP_ETH_BUF_LEN" and w: "length w = 2" "length lb = 2"
  obtains c d p' where "uip_csum_ip (put_at 16 w p) = Done c"
    "csum_segment l (pseudo_of (put_at 24 (to_le 2 c) (put_at 16 w p)) lb) (put_at 24 (to_le 2 c) (put_at 16 w p)) = Done (p', d)" "length p' = UIP_ETH_BUF_LEN"
    "field 16 2 (put_at (34 + k) (to_le 2 d) p') = w" "csum_valid (field 14 20 (put_at (34 + k) (to_le 2 d) p'))"
    "csum_valid (pseudo_of (put_at (34 + k) (to_le 2 d) p') lb @ field 34 l (put_at (34 + k) (to_le 2 d) p'))"
    "\<And>off n. off + n \<le> 34 + l \<Longrightarrow> off + n \<le> 16 \<or> 18 \<le> off \<and> off + n \<le> 24 \<or> 26 \<le> off \<and> off + n \<le> 34 + k \<or> 36 + k \<le> off \<Longrightarrow>
       field off n (put_at (34 + k) (to_le 2 d) p') = field off n p"
proof -
  define q where "q = put_at 16 w p"
  have q: "length q = UIP_ETH_BUF_LEN" "field 16 2 q = w" "\<And>off n. off + n \<le> 16 \<or> 18 \<le> off \<Longrightarrow> field off n q = field off n p"
    using p(1) w by (auto simp: q_def field_put_same field_put_other UIP_ETH_BUF_LEN_def)
  have hq: "uip_ip_hdrlen q = 20"
    using q(3) [of 14 1] p(2) by (simp add: uip_ip_hdrlen_def ld8_def)
  obtain c where c: "uip_csum 0 (drop 14 q) 20 = Done c"
    using uip_csum_Done [of 20 "drop 14 q" 0] q(1) by (auto simp: UIP_ETH_BUF_LEN_def)
  define r where "r = put_at 24 (to_le 2 c) q"
  have r: "length r = UIP_ETH_BUF_LEN" "field 16 2 r = w" "csum_valid (field 14 20 r)"
      "\<And>off n. off + n \<le> 16 \<or> 18 \<le> off \<and> off + n \<le> 24 \<or> 26 \<le> off \<Longrightarrow> field off n r = field off n p"
    using q csum_field [OF c, of 10] p(3) by (auto simp: r_def field_put_same field_put_other UIP_ETH_BUF_LEN_def)
  have lp: "length (pseudo_of r lb) = 12"
    using r(1) w(2) by (simp add: pseudo_of_def UIP_ETH_BUF_LEN_def)
  obtain p' d where d: "csum_segment l (pseudo_of r lb) r = Done (p', d)" "length p' = length r"
      "\<And>off n. off + n \<le> 34 + l \<Longrightarrow> field off n p' = field off n r"
      "csum_valid (pseudo_of r lb @ field 34 l (put_at (34 + k) (to_le 2 d) p'))"
  proof (rule csum_segment_valid [of l "pseudo_of r lb" r k])
    show "field (34 + k) 2 r = [0, 0]"
      using r(4) [of "34 + k" 2] p(4) by simp
  qed (use k lp r(1) in \<open>auto simp: UIP_ETH_BUF_LEN_def\<close>)
  define e where "e = put_at (34 + k) (to_le 2 d) p'"
  have e: "field off n e = field off n r" if "off + n \<le> 34 + l" "off + n \<le> 34 + k \<or> 36 + k \<le> off" for off n
    using that d(2,3) r(1) k by (auto simp: e_def field_put_other)
  show ?thesis
  proof (rule that [of c p' d, folded q_def, folded r_def, folded e_def])
    show "csum_valid (pseudo_of e lb @ field 34 l e)"
      using d(4) e [of 26 4] e [of 30 4] e [of 23 1] k by (simp add: pseudo_of_cong [of e r lb] e_def [symmetric])
    show "field off n e = field off n p"
      if "off + n \<le> 34 + l" "off + n \<le> 16 \<or> 18 \<le> off \<and> off + n \<le> 24 \<or> 26 \<le> off \<and> off + n \<le> 34 + k \<or> 36 + k \<le> off" for off n
      using that e [of off n] r(4) [of off n] k by auto
  qed (use c hq d r e [of 16 2] e [of 14 20] k in \<open>auto simp: uip_csum_ip_def\<close>)
qed

section \<open>UDP frames\<close>

lemma to_le_ethertype: "to_le 2 (2048 :: u16) = [0, 8]"
  by code_simp

lemma udp_frame_fields:
  assumes len: "length (eth buf) = UIP_ETH_BUF_LEN" and macs: "macs_ok info" and pl: "payload = None \<or> payload = Some bs" and n: "length bs = n" "54 + n + n mod 2 \<le> UIP_ETH_BUF_LEN"
    and old: "payload = None \<Longrightarrow> field 42 n (eth buf) = bs"
  obtains e where "uip_udp_make_pkg info sk buf payload (int n) =
      (if length (vnet buf) < vnet_hdr_len info then Faults
       else Done (buf\<lparr>eth := e, vnet_len := int (vnet_hdr_len info), vnet := put_at 0 (replicate (vnet_hdr_len info) 0) (vnet buf),
                      eth_len := int (unat (htons (ld16 16 e))) + 14\<rparr>))"
    "length e = UIP_ETH_BUF_LEN"
    "field 0 6 e = guest_mac info" "field 6 6 e = host_mac info" "field 12 2 e = [0x08, 0x00]" "field 14 1 e = [0x45]"
    "ld16 16 e = htons (of_nat (n + 8)) + htons 20" "field 23 1 e = [17]" "csum_valid (field 14 20 e)"
    "field 26 4 e = to_le 4 (u_dip sk)" "field 30 4 e = to_le 4 (u_sip sk)" "field 34 2 e = to_le 2 (ucast (u_dport sk) :: u16)"
    "field 36 2 e = to_le 2 (ucast (u_sport sk) :: u16)" "field 38 2 e = rev (to_le 2 (of_nat (n + 8) :: u16))" "field 42 n e = bs"
    "csum_valid (pseudo_of e (field 38 2 e) @ field 34 (n + 8) e)"
proof -
  let ?ws = "udp_header info sk (int n)"
  define h where "h = written ?ws (eth buf)"
  have macs6: "length (host_mac info) = 6" "length (guest_mac info) = 6"
    using macs by (auto simp: macs_ok_def)
  have fit: "fit (eth buf) ?ws"
    using len macs6 by (simp add: udp_header_def UIP_ETH_BUF_LEN_def)
  have ap: "sorted_wrt apart ?ws"
    using macs6 by (simp add: udp_header_def apart_def)
  have st: "stores ?ws (eth buf) = Done h" "length h = UIP_ETH_BUF_LEN"
    using stores_Done [OF fit] len by (simp_all add: h_def)
  note fw = field_written [OF fit ap, folded h_def]
  have h: "field 0 6 h = guest_mac info" "field 6 6 h = host_mac info" "field 12 2 h = to_le 2 (htons UIP_ETH_P_IP)" "field 14 1 h = [UIP_IP_VER_4 OR UIP_IP_HDR_LEN]" 
      "field 23 1 h = [UIP_IP_P_UDP]" "field 24 2 h = [0, 0]" "field 26 4 h = to_le 4 (u_dip sk)" "field 30 4 h = to_le 4 (u_sip sk)"
      "field 34 2 h = to_le 2 (ucast (u_dport sk) :: u16)" "field 36 2 h = to_le 2 (ucast (u_sport sk) :: u16)" 
      "field 38 2 h = to_le 2 (htons (of_nat (n + 8)))" "field 40 2 h = [0, 0]" "field 42 n h = field 42 n (eth buf)"
  proof -
    show "field 42 n h = field 42 n (eth buf)"
      using field_written_other [OF fit, of 42 n] macs6 by (simp add: h_def udp_header_def)
  qed (rule fw; simp add: udp_header_def macs6 uip_udp_hdrlen_def)+
  define p where "p = (case payload of None \<Rightarrow> h | Some bs \<Rightarrow> put_at 42 bs h)"
  have p: "length p = UIP_ETH_BUF_LEN" "field 42 n p = bs" "\<And>off k. off + k \<le> 42 \<Longrightarrow> field off k p = field off k h"
    using pl n st(2) h(13) old by (auto simp: p_def field_put_same field_put_other)
  have pay: "(case payload of None \<Rightarrow> Done h
      | Some bs \<Rightarrow> if int n < 0 \<or> length bs < nat (int n) then Faults else stores [(42, take (nat (int n)) bs)] h) = Done p"
    using pl n st(2) by (auto simp: p_def)
  have hl: "uip_ip_hdrlen p = 20" "htons (ld16 38 p) = of_nat (n + 8)"
    using h(4,11) p(3) by (simp_all add: uip_ip_hdrlen_def ld8_def ld16_def uip_constants of_le_to_le del: of_nat_add to_le_htons)
  obtain c d p' where f: "uip_csum_ip (put_at 16 (to_le 2 (udp_ip_len p)) p) = Done c"
      "csum_segment (n + 8) (pseudo_of (put_at 24 (to_le 2 c) (put_at 16 (to_le 2 (udp_ip_len p)) p)) (field 38 2 p))
         (put_at 24 (to_le 2 c) (put_at 16 (to_le 2 (udp_ip_len p)) p)) = Done (p', d)" "length p' = UIP_ETH_BUF_LEN"
      "field 16 2 (put_at (34 + 6) (to_le 2 d) p') = to_le 2 (udp_ip_len p)" "csum_valid (field 14 20 (put_at (34 + 6) (to_le 2 d) p'))"
      "csum_valid (pseudo_of (put_at (34 + 6) (to_le 2 d) p') (field 38 2 p) @ field 34 (n + 8) (put_at (34 + 6) (to_le 2 d) p'))"
      "\<And>off j. off + j \<le> 34 + (n + 8) \<Longrightarrow> off + j \<le> 16 \<or> 18 \<le> off \<and> off + j \<le> 24 \<or> 26 \<le> off \<and> off + j \<le> 34 + 6 \<or> 36 + 6 \<le> off \<Longrightarrow>
         field off j (put_at (34 + 6) (to_le 2 d) p') = field off j p"
  proof (rule segment_frame [of p 6 "n + 8" "to_le 2 (udp_ip_len p)" "field 38 2 p"])
    show "46 + (n + 8) + (n + 8) mod 2 \<le> UIP_ETH_BUF_LEN"
      using n(2) by (simp add: mod_add_right_eq [of n 8 2, symmetric])
  qed (use p h(4,6,12) st(2) in \<open>auto simp: uip_constants UIP_ETH_BUF_LEN_def\<close>)
  define q r e where "q = put_at 16 (to_le 2 (udp_ip_len p)) p" and "r = put_at 24 (to_le 2 c) q" and "e = put_at 40 (to_le 2 d) p'"
  have r: "length q = UIP_ETH_BUF_LEN" "length r = UIP_ETH_BUF_LEN" "field 38 2 r = field 38 2 p" "field 26 4 r = field 26 4 p" "field 30 4 r = field 30 4 p" "field 23 1 r = field 23 1 p"
    using p(1) by (simp_all add: q_def r_def field_put_other UIP_ETH_BUF_LEN_def)
  have len8: "unat (uip_udp_len r) = n + 8"
    using r(3) hl(2) n(2) unat_u16 [of "n + 8"] by (simp add: uip_udp_len_def ld16_def UIP_ETH_BUF_LEN_def)
  have ps: "pseudo_hdr r (ld16 38 r) = pseudo_of r (field 38 2 p)"
    using r p(1) p(3) [of 23 1] h(5) by (simp add: pseudo_hdr_def pseudo_of_def ld8_def ld16_def to_le_of_le UIP_ETH_BUF_LEN_def)
  have sr: "stores [(16, to_le 2 (udp_ip_len p))] p = Done q" "stores [(24, to_le 2 c)] q = Done r" "stores [(40, to_le 2 d)] p' = Done e"
    using p(1) r(1) f(3) by (simp_all add: q_def r_def e_def UIP_ETH_BUF_LEN_def)
  have run: "uip_udp_make_pkg info sk buf payload (int n) =
      (if length (vnet buf) < vnet_hdr_len info then Faults
       else Done (buf\<lparr>eth := e, vnet_len := int (vnet_hdr_len info), vnet := put_at 0 (replicate (vnet_hdr_len info) 0) (vnet buf),
                      eth_len := int (unat (htons (ld16 16 e))) + 14\<rparr>))"
    using f(1,2) [folded q_def, folded r_def] len8 ps unfolding uip_udp_make_pkg_def st(1) bind_run.simps pay sr
    by (simp add: uip_csum_udp_def sr uip_eth_hdrlen_def del: stores.simps)
  note fe = f(4-7) [simplified, folded e_def]
  show ?thesis
  proof (rule that [OF run])
    show "csum_valid (pseudo_of e (field 38 2 e) @ field 34 (n + 8) e)"
      using fe(3) fe(4) [of 38 2] by simp
    have "ld16 38 p = htons (of_nat (n + 8))"
      using hl(2) htons_htons [of "ld16 38 p"] by simp
    then show "ld16 16 e = htons (of_nat (n + 8)) + htons 20"
      using fe(1) hl(1) by (simp add: ld16_def of_le_to_le udp_ip_len_def del: of_nat_add)
    show "length e = UIP_ETH_BUF_LEN"
      using f(3) by (simp add: e_def UIP_ETH_BUF_LEN_def)
  qed (use fe p h in \<open>auto simp: uip_constants to_le_ethertype\<close>)
qed

text \<open>The frame of the buffer, when its length did not lose the carry.\<close>

lemma take_eth_len:
  assumes "length e = UIP_ETH_BUF_LEN" "unat (htons (ld16 16 e)) = n + 28" "42 + n \<le> UIP_ETH_BUF_LEN"
  shows "length (take (nat (int (unat (htons (ld16 16 e))) + 14)) e) = n + 42"
    and "off + k \<le> 42 + n \<Longrightarrow> field off k (take (nat (int (unat (htons (ld16 16 e))) + 14)) e) = field off k e"
proof -
  have 42: "nat (int (unat (htons (ld16 16 e))) + 14) = n + 42"
    using assms(2) by simp
  show "length (take (nat (int (unat (htons (ld16 16 e))) + 14)) e) = n + 42"
    unfolding 42 using assms by simp
  show "field off k (take (nat (int (unat (htons (ld16 16 e))) + 14)) e) = field off k e" if "off + k \<le> 42 + n"
    unfolding 42 using that assms(3) field_field [of off k "n + 42" 0 e] by (simp add: field_0)
qed

lemma udp_make_pkg_ok:
  assumes buf: "buf_ok (vnet_hdr_len info) buf" and macs: "macs_ok info"
    and pl: "payload = None \<and> field 42 (length bs) (eth buf) = bs \<or> payload = Some bs"
    and fits: "54 + length bs + length bs mod 2 \<le> UIP_ETH_BUF_LEN" and carry: "(length bs + 8) mod 256 < 236"
  shows "\<exists>buf'. uip_udp_make_pkg info sk buf payload (int (length bs)) = Done buf' \<and> status buf' = status buf \<and> buf_ok (vnet_hdr_len info) buf' \<and> lens_ok buf' \<and>
    fst (frame_of buf') = replicate (vnet_hdr_len info) 0 \<and>
    udp_parse (snd (frame_of buf')) = Some \<lparr>v_macs = (guest_mac info, host_mac info), v_ips = (to_le 4 (u_sip sk), to_le 4 (u_dip sk)),
      v_ports = (to_le 2 (ucast (u_sport sk) :: u16), to_le 2 (ucast (u_dport sk) :: u16)), v_data = bs\<rparr>"
proof -
  let ?n = "length bs"
  have b: "length (eth buf) = UIP_ETH_BUF_LEN" "length (vnet buf) = vnet_hdr_len info"
    using buf by (auto simp: buf_ok_def)
  show ?thesis
  proof (rule udp_frame_fields [OF b(1) macs _ refl fits, of payload sk])
    fix e
    assume run: "uip_udp_make_pkg info sk buf payload (int ?n) =
        (if length (vnet buf) < vnet_hdr_len info then Faults
         else Done (buf\<lparr>eth := e, vnet_len := int (vnet_hdr_len info), vnet := put_at 0 (replicate (vnet_hdr_len info) 0) (vnet buf),
                        eth_len := int (unat (htons (ld16 16 e))) + 14\<rparr>))"
      and len: "length e = UIP_ETH_BUF_LEN" and iplen: "ld16 16 e = htons (of_nat (?n + 8)) + htons 20"
      and e: "field 0 6 e = guest_mac info" "field 6 6 e = host_mac info" "field 12 2 e = [0x08, 0x00]" "field 14 1 e = [0x45]"
        "field 23 1 e = [17]" "csum_valid (field 14 20 e)"
        "field 26 4 e = to_le 4 (u_dip sk)" "field 30 4 e = to_le 4 (u_sip sk)" "field 34 2 e = to_le 2 (ucast (u_dport sk) :: u16)"
        "field 36 2 e = to_le 2 (ucast (u_sport sk) :: u16)" "field 38 2 e = rev (to_le 2 (of_nat (?n + 8) :: u16))" "field 42 ?n e = bs"
        "csum_valid (pseudo_of e (field 38 2 e) @ field 34 (?n + 8) e)"
    define f where "f = take (nat (int (unat (htons (ld16 16 e))) + 14)) e"
    have tot: "unat (htons (ld16 16 e)) = ?n + 28"
      unfolding iplen using udp_ip_len_carry [of "?n + 8"] carry fits by (simp add: UIP_ETH_BUF_LEN_def)
    have n42: "42 + ?n \<le> UIP_ETH_BUF_LEN"
      using fits by simp
    note fl = take_eth_len(1) [OF len tot n42, folded f_def] and ff = take_eth_len(2) [OF len tot n42, folded f_def]
    have l: "length f - 34 = ?n + 8" "length f - 42 = ?n"
      using fl by simp_all
    have rest: "drop 34 f = field 34 (?n + 8) e" "drop 42 f = bs"
      unfolding field_rest [symmetric, of _ f] l by (rule ff, simp) (rule trans [OF ff e(12)], simp)
    have fe: "field 0 6 f = field 0 6 e" "field 6 6 f = field 6 6 e" "field 12 2 f = field 12 2 e" "field 14 1 f = field 14 1 e" "field 14 20 f = field 14 20 e" "field 16 2 f = field 16 2 e"
        "field 23 1 f = field 23 1 e" "field 26 4 f = field 26 4 e" "field 30 4 f = field 30 4 e" "field 34 2 f = field 34 2 e" "field 36 2 f = field 36 2 e" "field 38 2 f = field 38 2 e"
      by (rule ff; simp)+
    have l16: "be16n (field 16 2 e) = ?n + 28"
      using be16n_field [of 16 e] len tot by (simp add: UIP_ETH_BUF_LEN_def)
    have l38: "be16n (field 38 2 e) = ?n + 8"
      unfolding e(11) be16n_rev using fits by (intro unat_u16) (simp add: UIP_ETH_BUF_LEN_def)
    have ip: "ip_frame_ok 17 f"
      unfolding ip_frame_ok_def fl fe l16 using e(3-6) by simp
    have "pseudo_of f (field 38 2 f) = pseudo_of e (field 38 2 e)"
      by (simp only: pseudo_of_def fe)
    then have "udp_parse f = Some \<lparr>v_macs = (field 0 6 e, field 6 6 e), v_ips = (field 30 4 e, field 26 4 e), v_ports = (field 36 2 e, field 34 2 e), v_data = bs\<rparr>"
      using ip l38 e(13) by (simp add: udp_parse_def fl rest fe)
    moreover have "frame_of (buf\<lparr>eth := e, vnet_len := int (vnet_hdr_len info), vnet := put_at 0 (replicate (vnet_hdr_len info) 0) (vnet buf),
        eth_len := int (unat (htons (ld16 16 e))) + 14\<rparr>) = (replicate (vnet_hdr_len info) 0, f)"
      using b by (simp add: frame_of_def f_def put_at_def)
    ultimately show ?thesis
      unfolding run using e(1,2,7-10) b len tot n42 by (simp add: buf_ok_def lens_ok_def)
  qed (use b pl in auto)
qed


definition sample_sk :: uip_udp_socket where
  "sample_sk = \<lparr>u_addr = (0x08080808, 0x3500), u_dport = 0x3500, u_sport = 0x1234, u_dip = 0x08080808, u_sip = 0x0F21A8C0, u_fd = 5\<rparr>"

lemma sample_bufs: "buf_ok (vnet_hdr_len sample_info) (fresh_buf sample_info)" "macs_ok sample_info"
  by (simp_all add: buf_ok_def fresh_buf_def macs_ok_def sample_info_def)


text \<open>When the addition carries, the frame the guest gets lacks its last 256 bytes.\<close>

lemma udp_length_loses_carry:
  assumes "buf_ok (vnet_hdr_len info) buf" "macs_ok info" "54 + length bs + length bs mod 2 \<le> UIP_ETH_BUF_LEN" "236 \<le> (length bs + 8) mod 256"
  shows "\<exists>buf'. uip_udp_make_pkg info sk buf (Some bs) (int (length bs)) = Done buf' \<and> eth_len buf' = int (length bs) + 42 - 256"
proof (rule udp_frame_fields [OF _ assms(2) _ refl assms(3), of buf "Some bs" sk])
  fix e
  assume run: "uip_udp_make_pkg info sk buf (Some bs) (int (length bs)) =
        (if length (vnet buf) < vnet_hdr_len info then Faults
         else Done (buf\<lparr>eth := e, vnet_len := int (vnet_hdr_len info), vnet := put_at 0 (replicate (vnet_hdr_len info) 0) (vnet buf),
                        eth_len := int (unat (htons (ld16 16 e))) + 14\<rparr>))"
    and iplen: "ld16 16 e = htons (of_nat (length bs + 8)) + htons 20"
  have "236 \<le> length bs + 8"
    using assms(4) mod_less_eq_dividend [of "length bs + 8" 256] by linarith
  moreover have "unat (htons (ld16 16 e)) = length bs + 8 + 20 - 256"
    unfolding iplen using udp_ip_len_carry [of "length bs + 8"] assms(3,4) by (simp add: UIP_ETH_BUF_LEN_def)
  ultimately show ?thesis
    using run assms(1) by (simp add: buf_ok_def)
qed (use assms in \<open>auto simp: buf_ok_def\<close>)

text \<open>A datagram of the largest size is copied past the end of the buffer.\<close>

lemma udp_max_datagram_overflows:
  assumes "length (eth buf) = UIP_ETH_BUF_LEN" "macs_ok info" "length bs = UIP_MAX_UDP_PAYLOAD"
  shows "uip_udp_make_pkg info sk buf (Some bs) (int (length bs)) = Faults"
proof -
  have fit: "fit (eth buf) (udp_header info sk (int (length bs)))"
    using assms by (simp add: udp_header_def UIP_ETH_BUF_LEN_def macs_ok_def)
  show ?thesis
    using stores_Done [OF fit] assms(1,3) by (simp add: uip_udp_make_pkg_def UIP_ETH_BUF_LEN_def UIP_MAX_UDP_PAYLOAD_def)
qed

end
