(* ===== verification/UipDhcp.thy ===== *)
theory UipDhcp
  imports UipUdp
begin

text \<open>
  The user-mode network: the DHCP server (\<^verbatim>\<open>net/uip/dhcp.c\<close>) offers the guest its address, in a message that a client can parse.
\<close>

section \<open>A parser of options\<close>

fun dhcp_options :: "u8 list \<Rightarrow> (u8 \<times> u8 list) list option" where
  "dhcp_options [] = None"
| "dhcp_options (t # bs) =
     (if t = 255 then Some []
      else if t = 0 then dhcp_options bs
      else case bs of
        [] \<Rightarrow> None
      | l # rest \<Rightarrow>
          if length rest < unat l then None
          else map_option (Cons (t, take (unat l) rest)) (dhcp_options (drop (unat l) rest)))"

lemma dhcp_options_end [simp]: "dhcp_options (255 # bs) = Some []"
  by simp

lemma dhcp_options_item:
  "t \<noteq> 0 \<Longrightarrow> t \<noteq> 255 \<Longrightarrow> unat l = length xs \<Longrightarrow> dhcp_options (t # l # xs @ bs) = map_option (Cons (t, xs)) (dhcp_options bs)"
  by simp

declare dhcp_options.simps [simp del]

definition name_options :: "uip_info \<Rightarrow> (u8 \<times> u8 list) list" where
  "name_options info = (case domain_name info of None \<Rightarrow> [] | Some s \<Rightarrow> [(15, s)]) @
     map (\<lambda>d. (6, rev (to_le 4 d))) (filter (\<lambda>d. d \<noteq> 0) (take 3 (dns_ip info)))"

definition offered_options :: "uip_info \<Rightarrow> u8 \<Rightarrow> (u8 \<times> u8 list) list" where
  "offered_options info t =
     [(53, [t]), (54, rev (to_le 4 (host_ip info))), (51, rev (to_le 4 UIP_DHCP_LEASE_TIME)), (1, rev (to_le 4 (guest_netmask info))),
      (3, rev (to_le 4 (host_ip info))), (17, map of_char ''0.0.0.0'')] @ name_options info"

lemma dns_options_parse: "dhcp_options (dns_options ds @ bs) = map_option (append (map (\<lambda>d. (6, rev (to_le 4 d))) (filter (\<lambda>d. d \<noteq> 0) ds))) (dhcp_options bs)"
proof (induction ds)
  case Nil
  then show ?case by (cases "dhcp_options bs") (simp_all add: dns_options_def)
next
  case (Cons d ds)
  have "dns_options (d # ds) @ bs = (if d = 0 then [] else 6 # 4 # rev (to_le 4 d)) @ dns_options ds @ bs"
    by (simp add: dns_options_def)
  then show ?case
    using Cons dhcp_options_item [of 6 4 "rev (to_le 4 d)" "dns_options ds @ bs"] by (cases "dhcp_options bs") simp_all
qed

lemma name_options_parse:
  assumes "\<And>s. domain_name info = Some s \<Longrightarrow> length s < 256"
  shows "dhcp_options (uip_dhcp_fill_option_name_and_server info @ 255 # bs) = Some (name_options info)"
proof (cases "domain_name info")
  case None
  then show ?thesis
    by (simp add: uip_dhcp_fill_option_name_and_server_def name_options_def dns_options_parse UIP_DHCP_MAX_DNS_SERVER_NR_def)
next
  case (Some s)
  then have "unat (of_nat (length s) :: u8) = length s"
    using assms by (simp add: unat_of_nat)
  then show ?thesis
    using Some dhcp_options_item [of 15 "of_nat (length s)" s "dns_options (take 3 (dns_ip info)) @ 255 # bs"]
    by (simp add: uip_dhcp_fill_option_name_and_server_def name_options_def dns_options_parse UIP_DHCP_MAX_DNS_SERVER_NR_def)
qed

lemma fill_option_parse:
  assumes "\<And>s. domain_name info = Some s \<Longrightarrow> length s < 256"
  shows "dhcp_options (uip_dhcp_fill_option info t @ bs) = Some (offered_options info t)"
proof -
  let ?host = "rev (to_le 4 (host_ip info))" and ?rest = "uip_dhcp_fill_option_name_and_server info @ 255 # bs"
  have "uip_dhcp_fill_option info t @ bs = 53 # 1 # [t] @ (54 # 4 # ?host @ (51 # 4 # rev (to_le 4 UIP_DHCP_LEASE_TIME) @
      (1 # 4 # rev (to_le 4 (guest_netmask info)) @ (3 # 4 # ?host @ (17 # 7 # map of_char ''0.0.0.0'' @ ?rest)))))"
    by (simp add: uip_dhcp_fill_option_def)
  then show ?thesis
    using name_options_parse [OF assms, of info bs] by (simp add: dhcp_options_item [of _ _ "[t]", simplified] dhcp_options_item [of _ _ "rev (to_le 4 w)" for w]
      dhcp_options_item [of _ _ "map of_char ''0.0.0.0''", simplified] offered_options_def)
qed

section \<open>The reply\<close>

definition dhcp_writes :: "uip_info \<Rightarrow> u8 \<Rightarrow> (nat \<times> u8 list) list" where
  "dhcp_writes info t = [(42, [2]), (54, to_le 4 (0 :: u32)), (58, to_le 4 (htonl (guest_ip info))), (62, to_le 4 (htonl (host_ip info))),
     (66, to_le 4 (0 :: u32)), (282, uip_dhcp_fill_option info t)]"

lemma dhcp_pkg_fields:
  assumes len: "length e = UIP_ETH_BUF_LEN" and opts: "length (uip_dhcp_fill_option info t) \<le> 308" and dom: "\<And>s. domain_name info = Some s \<Longrightarrow> length s < 256"
  obtains e' where "uip_dhcp_make_pkg info t e = Done (e', dhcp_socket info)" "length e' = UIP_ETH_BUF_LEN"
    "field 42 1 e' = [2]" "field 46 4 e' = field 46 4 e" "field 58 4 e' = rev (to_le 4 (guest_ip info))"
    "dhcp_options (drop 240 (field 42 548 e')) = Some (offered_options info t)"
proof -
  let ?ws = "dhcp_writes info t" and ?o = "uip_dhcp_fill_option info t"
  have fit: "fit e ?ws"
    using len opts by (simp add: dhcp_writes_def UIP_ETH_BUF_LEN_def)
  have ap: "sorted_wrt apart ?ws"
    by (simp add: dhcp_writes_def apart_def)
  define e' where "e' = written ?ws e"
  have e': "stores ?ws e = Done e'" "length e' = UIP_ETH_BUF_LEN"
    using stores_Done [OF fit] len by (simp_all add: e'_def)
  note fw = field_written [OF fit ap, folded e'_def] and fo = field_written_other [OF fit, folded e'_def]
  have o: "field 282 (length ?o) e' = ?o"
    by (rule fw) (simp_all add: dhcp_writes_def)
  have "drop 240 (field 42 548 e') = field 282 308 e'"
    by (simp add: field_def drop_take)
  also have "\<dots> = ?o @ field (282 + length ?o) (308 - length ?o) e'"
    using field_split [OF opts, of 282 e'] o by simp
  finally have "dhcp_options (drop 240 (field 42 548 e')) = Some (offered_options info t)"
    using fill_option_parse [OF dom] by simp
  moreover have "field 42 1 e' = [2]" "field 58 4 e' = to_le 4 (htonl (guest_ip info))"
    by (rule fw; simp add: dhcp_writes_def)+
  moreover have "field 46 4 e' = field 46 4 e"
    by (rule fo) (simp add: dhcp_writes_def)
  ultimately show ?thesis
    using that [of e'] e' by (simp add: uip_dhcp_make_pkg_def dhcp_writes_def [symmetric, simplified] del: stores.simps)
qed

lemma udp_header_pool [simp]: "udp_header (info\<lparr>buf_free_nr := x, buf_head := bs\<rparr>) sk n = udp_header info sk n"
  by (simp add: udp_header_def)

lemma make_pkg_pool [simp]:
  "uip_udp_make_pkg (info\<lparr>buf_free_nr := x, buf_head := bs\<rparr>) sk = uip_udp_make_pkg info sk"
  "uip_dhcp_make_pkg (info\<lparr>buf_free_nr := x, buf_head := bs\<rparr>) t = uip_dhcp_make_pkg info t"
  by (simp_all add: fun_eq_iff uip_udp_make_pkg_def uip_dhcp_make_pkg_def uip_dhcp_fill_option_def uip_dhcp_fill_option_name_and_server_def dhcp_socket_def del: stores.simps cong: if_cong)

lemma dhcp_ports: "to_le 2 (ucast (ucast (htons 68) :: u32) :: u16) = [0, 68]" "to_le 2 (ucast (ucast (htons 67) :: u32) :: u16) = [0, 67]"
  by code_simp+

definition dhcp_reply_type :: "u8 list \<Rightarrow> u8 option" where
  "dhcp_reply_type p = (if uip_dhcp_is_discovery p then Some 2 else if uip_dhcp_is_request p then Some 5 else None)"

text \<open>
  A discovery is answered with an offer and a request with an acknowledgement, in a frame the guest accepts: from the server's port to the
  client's, with the transaction of the request, the guest's configured address, and options that parse to the message type, the server, the lease
  time, the netmask, the router, and the domain and name servers of the host.
\<close>

definition dhcp_reply :: "uip_info \<Rightarrow> u8 list \<Rightarrow> u8 \<Rightarrow> u8 list \<Rightarrow> bool" where
  "dhcp_reply info p t f \<longleftrightarrow> (\<exists>v. udp_parse f = Some v \<and>
     v_macs v = (guest_mac info, host_mac info) \<and> v_ips v = (rev (to_le 4 (guest_ip info)), rev (to_le 4 (host_ip info))) \<and> v_ports v = ([0, 68], [0, 67]) \<and>
     field 0 1 (v_data v) = [2] \<and> field 4 4 (v_data v) = field 46 4 p \<and> field 16 4 (v_data v) = rev (to_le 4 (guest_ip info)) \<and>
     dhcp_options (drop 240 (v_data v)) = Some (offered_options info t))"

lemma dhcp_reply_ok:
  assumes inv: "pool_inv held info" and ok: "arg_ok info arg" "macs_ok info" and free: "0 < buf_free_nr info"
    and len: "285 \<le> length (arg_eth arg)" and type: "dhcp_reply_type (arg_eth arg) = Some t"
    and opts: "length (uip_dhcp_fill_option info t) \<le> 308" and dom: "\<And>s. domain_name info = Some s \<Longrightarrow> length s < 256"
  shows "\<exists>info' f. uip_tx_do_ipv4_udp_dhcp arg info = Done (info', 0) \<and> delivers (replicate (vnet_hdr_len info) 0, f) info info' \<and> dhcp_reply info (arg_eth arg) t f"
proof -
  let ?p = "arg_eth arg"
  obtain i where i: "first_status UIP_BUF_STATUS_FREE (buf_head info) = Some i"
      and b: "length (eth (buf_head info ! i)) = UIP_ETH_BUF_LEN" "i < length (buf_head info)"
    using first_free [OF inv free] by metis
  define c where "c = cloned arg info (buf_head info ! i)"
  have le: "length (eth c) = UIP_ETH_BUF_LEN" and xid: "field 46 4 (eth c) = field 46 4 ?p"
    using b ok len by (simp_all add: c_def cloned_def arg_ok_def macs_ok_def field_put_other field_put_inside UIP_ETH_BUF_LEN_def)
  obtain e where e: "uip_dhcp_make_pkg info t (eth c) = Done (e, dhcp_socket info)" "length e = UIP_ETH_BUF_LEN"
      "field 42 1 e = [2]" "field 46 4 e = field 46 4 (eth c)" "field 58 4 e = rev (to_le 4 (guest_ip info))"
      "dhcp_options (drop 240 (field 42 548 e)) = Some (offered_options info t)"
    using dhcp_pkg_fields [OF le opts dom] by metis
  have bc: "buf_ok (vnet_hdr_len info) (c\<lparr>eth := e\<rparr>)"
    unfolding c_def by (rule cloned_ok [OF ok(1) e(2)])
  have data: "length (field 42 548 e) = 548"
    using e(2) by (simp add: UIP_ETH_BUF_LEN_def)
  obtain b' where b': "uip_udp_make_pkg info (dhcp_socket info) (c\<lparr>eth := e\<rparr>) None 548 = Done b'" "buf_ok (vnet_hdr_len info) b'" "lens_ok b'"
      "fst (frame_of b') = replicate (vnet_hdr_len info) 0"
      "udp_parse (snd (frame_of b')) = Some \<lparr>v_macs = (guest_mac info, host_mac info), v_ips = (rev (to_le 4 (guest_ip info)), rev (to_le 4 (host_ip info))),
        v_ports = ([0, 68], [0, 67]), v_data = field 42 548 e\<rparr>"
    using udp_make_pkg_ok [OF bc ok(2), of None "field 42 548 e" "dhcp_socket info"] data by (auto simp: dhcp_socket_def dhcp_ports UIP_ETH_BUF_LEN_def)
  have "frame_of b' = (replicate (vnet_hdr_len info) 0, snd (frame_of b'))"
    using b'(4) by (metis prod.collapse)
  then have del: "delivers (replicate (vnet_hdr_len info) 0, snd (frame_of b')) info
      (uip_buf_set_used i (info\<lparr>buf_free_nr := buf_free_nr info - 1, buf_head := (buf_head info)[i := b']\<rparr>))"
    using delivers_buf [OF i b'(2,3)] by simp
  have run: "uip_tx_do_ipv4_udp_dhcp arg info = Done (uip_buf_set_used i (info\<lparr>buf_free_nr := buf_free_nr info - 1, buf_head := (buf_head info)[i := b']\<rparr>), 0)"
    using type len b b'(1) e(1) unfolding uip_tx_do_ipv4_udp_dhcp_def dhcp_reply_type_def [symmetric] Let_def
    by (simp add: uip_buf_clone_ok [OF inv i ok] c_def [symmetric] UIP_DHCP_MAX_PAYLOAD_LEN_def)
  have "field 0 1 (field 42 548 e) = [2]" "field 4 4 (field 42 548 e) = field 46 4 ?p" "field 16 4 (field 42 548 e) = rev (to_le 4 (guest_ip info))"
    using e(3-5) xid by (simp_all add: field_field)
  then show ?thesis
    using run del b'(5) e(6) by (intro exI conjI) (assumption | simp add: dhcp_reply_def)+
qed

end
