(* ===== verification/UipTcp.thy ===== *)
theory UipTcp
  imports UipUdp
begin

text \<open>
  The user-mode network: TCP connections of the guest (\<^verbatim>\<open>net/uip/tcp.c\<close>). The guest's end of a connection is played by the
  network, which copies the data between frames and a socket of the host.

  A socket is identified by its position in the list \<^verbatim>\<open>tcp_socket_head\<close>. The receiving thread is cut into the steps between two waits: a
  chunk of the data it has read, and its end.
\<close>

section \<open>Frames\<close>

definition UIP_TCP_HDR_LEN :: u8 where "UIP_TCP_HDR_LEN = 0x50"
definition UIP_TCP_WIN_SIZE :: u16 where "UIP_TCP_WIN_SIZE = 14600"
definition UIP_TCP_FLAG_FIN :: u8 where "UIP_TCP_FLAG_FIN = 1"
definition UIP_TCP_FLAG_SYN :: u8 where "UIP_TCP_FLAG_SYN = 2"
definition UIP_TCP_FLAG_ACK :: u8 where "UIP_TCP_FLAG_ACK = 16"

lemmas tcp_constants = UIP_TCP_HDR_LEN_def UIP_TCP_WIN_SIZE_def UIP_TCP_FLAG_FIN_def UIP_TCP_FLAG_SYN_def UIP_TCP_FLAG_ACK_def

definition tcp_header :: "uip_info \<Rightarrow> uip_tcp_socket \<Rightarrow> u8 \<Rightarrow> (nat \<times> u8 list) list" where
  "tcp_header info sk flag =
     [(eth_src, host_mac info), (eth_dst, guest_mac info), (eth_type, to_le 2 (htons UIP_ETH_P_IP)),
      (ip_vhl, [UIP_IP_VER_4 OR UIP_IP_HDR_LEN]), (ip_tos, [0]), (ip_id, [0, 0]), (ip_flgfrag, [0, 0]), (ip_ttl, [UIP_IP_TTL]),
      (ip_proto, [UIP_IP_P_TCP]), (ip_csum, [0, 0]), (ip_sip, to_le 4 (t_dip sk)), (ip_dip, to_le 4 (t_sip sk)),
      (tcp_sport, to_le 2 (ucast (t_dport sk) :: u16)), (tcp_dport, to_le 2 (ucast (t_sport sk) :: u16)),
      (tcp_seq, to_le 4 (htonl (seq_server sk))), (tcp_ack, to_le 4 (htonl (ack_server sk))),
      (tcp_off, [UIP_TCP_HDR_LEN]), (tcp_flg, [flag]), (tcp_win, to_le 2 (htons UIP_TCP_WIN_SIZE)), (tcp_csum, [0, 0]), (tcp_urgent, [0, 0])]"

text \<open>The frame of a segment in a buffer.\<close>

definition tcp_make_pkg :: "uip_info \<Rightarrow> uip_tcp_socket \<Rightarrow> u8 \<Rightarrow> u8 list \<Rightarrow> uip_buf \<Rightarrow> uip_buf run" where
  "tcp_make_pkg info sk flag payload buf =
     bind_run (stores (tcp_header info sk flag) (eth buf)) (\<lambda>e.
     bind_run (if 0 < length payload then stores [(uip_tcp_payload e, payload)] e else Done e) (\<lambda>e.
     bind_run (stores [(ip_len, to_le 2 (htons (uip_tcp_hdrlen e + of_nat (length payload) + uip_ip_hdrlen e)))] e) (\<lambda>e.
     bind_run (uip_csum_ip e) (\<lambda>c.
     bind_run (stores [(ip_csum, to_le 2 c)] e) (\<lambda>e.
     bind_run (uip_csum_tcp e) (\<lambda>(e, c).
     bind_run (stores [(tcp_csum, to_le 2 c)] e) (\<lambda>e.
       if length (vnet buf) < vnet_hdr_len info then Faults
       else Done (buf\<lparr>eth := e, vnet_len := int (vnet_hdr_len info), vnet := put_at 0 (replicate (vnet_hdr_len info) 0) (vnet buf),
                      eth_len := int (unat (htons (ld16 ip_len e))) + int uip_eth_hdrlen\<rparr>))))))))"

definition upd_tcp :: "nat \<Rightarrow> (uip_tcp_socket \<Rightarrow> uip_tcp_socket) \<Rightarrow> uip_info \<Rightarrow> uip_info" where
  "upd_tcp k f info = info\<lparr>tcp_sockets := (tcp_sockets info)[k := f (tcp_sockets info ! k)]\<rparr>"

definition uip_tcp_payload_send :: "nat \<Rightarrow> u8 \<Rightarrow> u8 list \<Rightarrow> uip_info \<Rightarrow> uip_info run" where
  "uip_tcp_payload_send k flag payload info =
     bind_run (uip_buf_get_free info) (\<lambda>(info, r).
       case r of
         None \<Rightarrow> Faults
       | Some i \<Rightarrow> bind_run (tcp_make_pkg info (tcp_sockets info ! k) flag payload (buf_head info ! i)) (\<lambda>b.
           Done (uip_buf_set_used i (upd_tcp k (\<lambda>sk. sk\<lparr>seq_server := seq_server sk + of_nat (length payload)\<rparr>) (info\<lparr>buf_head := (buf_head info)[i := b]\<rparr>)))))"

section \<open>Sockets\<close>

definition log_event :: "host_event \<Rightarrow> uip_info \<Rightarrow> uip_info" where
  "log_event ev info = info\<lparr>host_log := host_log info @ [ev]\<rparr>"

text \<open>\<open>locked\<close>: whether the caller holds \<^verbatim>\<open>sk->lock\<close>, which is not recursive.\<close>

definition uip_tcp_socket_close :: "bool \<Rightarrow> nat \<Rightarrow> uip_info \<Rightarrow> uip_info run" where
  "uip_tcp_socket_close locked k info =
     (let sk = tcp_sockets info ! k; info = log_event (ShutDown (t_fd sk)) info
      in if write_done sk \<and> read_done sk then
           (if locked then Waits
            else let info = log_event (CloseFd (t_fd sk)) (log_event (ShutDown (t_fd sk)) info)
              in Done (info\<lparr>tcp_sockets := take k (tcp_sockets info) @ drop (k + 1) (tcp_sockets info)\<rparr>))
         else Done info)"

definition tcp_match :: "u32 \<Rightarrow> u32 \<Rightarrow> u16 \<Rightarrow> u16 \<Rightarrow> uip_tcp_socket \<Rightarrow> bool" where
  "tcp_match sip dip sport dport sk \<longleftrightarrow> t_sip sk = sip \<and> t_dip sk = dip \<and> t_sport sk = ucast sport \<and> t_dport sk = ucast dport"

fun find_index :: "('a \<Rightarrow> bool) \<Rightarrow> 'a list \<Rightarrow> nat option" where
  "find_index P [] = None"
| "find_index P (x # xs) = (if P x then Some 0 else map_option Suc (find_index P xs))"

definition uip_tcp_socket_find :: "uip_info \<Rightarrow> u32 \<Rightarrow> u32 \<Rightarrow> u16 \<Rightarrow> u16 \<Rightarrow> nat option" where
  "uip_tcp_socket_find info sip dip sport dport = find_index (tcp_match sip dip sport dport) (tcp_sockets info)"

text \<open>\<^verbatim>\<open>inet_addr("127.0.0.1")\<close> in network order. The addresses and ports stored are those of the packet, which are also the arguments.\<close>

definition uip_tcp_socket_alloc :: "net_env \<Rightarrow> u32 \<Rightarrow> u32 \<Rightarrow> u16 \<Rightarrow> u16 \<Rightarrow> uip_info \<Rightarrow> (uip_info \<times> nat option)" where
  "uip_tcp_socket_alloc env sip dip sport dport info =
     (let addr = (if htonl dip = host_ip info then htonl 0x7F000001 else dip, dport);
          sk = \<lparr>t_addr = addr, t_dport = ucast dport, t_sport = ucast sport, guest_acked = 0, window_size = 0, isn_server = 0, isn_guest = 0,
                ack_server = 0, seq_server = 0, write_done = False, read_done = False, t_dip = dip, t_sip = sip, t_thread = False, t_buf = False, t_fd = env_socket env\<rparr>
      in if env_connect env \<noteq> 0 then (info, None) else (info\<lparr>tcp_sockets := tcp_sockets info @ [sk]\<rparr>, Some (length (tcp_sockets info))))"

definition uip_tcp_socket_receive :: "net_env \<Rightarrow> nat \<Rightarrow> uip_info \<Rightarrow> uip_info" where
  "uip_tcp_socket_receive env k info =
     (if t_thread (tcp_sockets info ! k) \<or> env_oom env then info
      else upd_tcp k (\<lambda>sk. sk\<lparr>t_buf := True, t_thread := (env_thread env = 0)\<rparr>) info)"

definition uip_tcp_socket_send :: "net_env \<Rightarrow> nat \<Rightarrow> u8 list \<Rightarrow> uip_info \<Rightarrow> (uip_info \<times> int) run" where
  "uip_tcp_socket_send env k tcp info =
     (let sk = tcp_sockets info ! k; len = unat (uip_tcp_payloadlen tcp)
      in if write_done sk then Done (info, 0)
         else need (uip_tcp_payload tcp + len) tcp (
           Done (if 0 < env_write env then log_event (WriteFd (t_fd sk) (field (uip_tcp_payload tcp) (nat (env_write env)) tcp)) info else info, env_write env)))"

section \<open>Packets of the guest\<close>

definition tcp_do_syn :: "net_env \<Rightarrow> u8 list \<Rightarrow> uip_info \<Rightarrow> (uip_info \<times> int) run" where
  "tcp_do_syn env tcp info =
     (case uip_tcp_socket_alloc env (ld32 ip_sip tcp) (ld32 ip_dip tcp) (ld16 tcp_sport tcp) (ld16 tcp_dport tcp) info of
        (info, None) \<Rightarrow> Done (info, -1)
      | (info, Some k) \<Rightarrow>
          need tcp_csum tcp (let info = upd_tcp k (\<lambda>sk. sk\<lparr>window_size := htons (ld16 tcp_win tcp), isn_guest := uip_tcp_isn tcp, isn_server := uip_tcp_isn_alloc,
                seq_server := uip_tcp_isn_alloc, ack_server := uip_tcp_isn tcp + 1\<rparr>) info
          in bind_run (uip_tcp_payload_send k (UIP_TCP_FLAG_SYN OR UIP_TCP_FLAG_ACK) [] info) (\<lambda>info.
               Done (uip_tcp_socket_receive env k (upd_tcp k (\<lambda>sk. sk\<lparr>seq_server := seq_server sk + 1\<rparr>) info), 0))))"

definition tcp_do_fin :: "nat \<Rightarrow> uip_info \<Rightarrow> (uip_info \<times> int) run" where
  "tcp_do_fin k info =
     (if write_done (tcp_sockets info ! k) then Done (info, 0)
      else bind_run (uip_tcp_payload_send k UIP_TCP_FLAG_ACK [] (upd_tcp k (\<lambda>sk. sk\<lparr>write_done := True, ack_server := ack_server sk + 1\<rparr>) info)) (\<lambda>info.
           bind_run (uip_tcp_socket_close False k info) (\<lambda>info. Done (info, 0))))"

definition tcp_do_data :: "net_env \<Rightarrow> nat \<Rightarrow> u8 list \<Rightarrow> uip_info \<Rightarrow> (uip_info \<times> int) run" where
  "tcp_do_data env k tcp info =
     bind_run (uip_tcp_socket_send env k tcp info) (\<lambda>(info, ret).
       if ret < 0 then Done (info, -1)
       else bind_run (uip_tcp_payload_send k UIP_TCP_FLAG_ACK [] (upd_tcp k (\<lambda>sk. sk\<lparr>ack_server := ack_server sk + word_of_int ret\<rparr>) info)) (\<lambda>info. Done (info, 0)))"

definition uip_tx_do_ipv4_tcp :: "net_env \<Rightarrow> uip_tx_arg \<Rightarrow> uip_info \<Rightarrow> (uip_info \<times> int) run" where
  "uip_tx_do_ipv4_tcp env arg info =
     (let tcp = arg_eth arg
      in need tcp_win tcp (
           if uip_tcp_is_syn tcp then tcp_do_syn env tcp info
           else case uip_tcp_socket_find info (ld32 ip_sip tcp) (ld32 ip_dip tcp) (ld16 tcp_sport tcp) (ld16 tcp_dport tcp) of
             None \<Rightarrow> Done (info, -1)
           | Some k \<Rightarrow>
               need tcp_csum tcp (let info = upd_tcp k (\<lambda>sk. sk\<lparr>window_size := htons (ld16 tcp_win tcp), guest_acked := htonl (ld32 tcp_ack tcp)\<rparr>) info
               in if uip_tcp_is_fin tcp then tcp_do_fin k info
                  else if uip_tcp_payloadlen tcp = 0 then Done (info, 0)
                  else tcp_do_data env k tcp info)))"

section \<open>The receiving thread\<close>

text \<open>How much the guest's window lets through, a signed 32-bit integer.\<close>

definition tcp_window :: "uip_tcp_socket \<Rightarrow> int" where
  "tcp_window sk = sint (guest_acked sk + ucast (window_size sk) - seq_server sk)"

text \<open>One round of the inner loop, with the data read from the socket that is not yet sent. The result has what is left.\<close>

definition tcp_thread_chunk :: "nat \<Rightarrow> u8 list \<Rightarrow> uip_info \<Rightarrow> (uip_info \<times> u8 list) run" where
  "tcp_thread_chunk k left info =
     (let len = tcp_window (tcp_sockets info ! k)
      in if len \<le> 0 then Waits
         else let n = min (min (nat len) (length left)) UIP_MAX_TCP_PAYLOAD
           in bind_run (uip_tcp_payload_send k UIP_TCP_FLAG_ACK (take n left) info) (\<lambda>info. Done (info, drop n left)))"

definition tcp_thread_out :: "nat \<Rightarrow> uip_info \<Rightarrow> uip_info run" where
  "tcp_thread_out k info =
     bind_run (uip_tcp_socket_close False k info) (\<lambda>info.
     bind_run (uip_tcp_payload_send k (UIP_TCP_FLAG_FIN OR UIP_TCP_FLAG_ACK) [] info) (\<lambda>info.
       Done (upd_tcp k (\<lambda>sk. sk\<lparr>seq_server := seq_server sk + 1, read_done := True\<rparr>) info)))"

section \<open>Exit\<close>

text \<open>The caller holds the lock of the socket.\<close>

definition uip_tcp_socket_free :: "nat \<Rightarrow> uip_info \<Rightarrow> uip_info run" where
  "uip_tcp_socket_free k info = uip_tcp_socket_close True k (upd_tcp k (\<lambda>sk. sk\<lparr>write_done := True, read_done := True\<rparr>) info)"

fun tcp_exit_loop :: "nat \<Rightarrow> uip_info \<Rightarrow> uip_info run" where
  "tcp_exit_loop 0 info = Done info"
| "tcp_exit_loop (Suc n) info = bind_run (uip_tcp_socket_free 0 info) (tcp_exit_loop n)"

definition uip_tcp_exit :: "uip_info \<Rightarrow> uip_info run" where
  "uip_tcp_exit info = tcp_exit_loop (length (tcp_sockets info)) info"

section \<open>The segments are well-formed\<close>

record tcp_view =
  s_macs :: "u8 list \<times> u8 list"
  s_ips :: "u8 list \<times> u8 list"
  s_ports :: "u8 list \<times> u8 list"
  s_seq :: u32
  s_ack :: u32
  s_flags :: u8
  s_win :: u16
  s_data :: "u8 list"

text \<open>A receiver of frames with a TCP segment without options. Destination first, then source.\<close>

definition tcp_parse :: "u8 list \<Rightarrow> tcp_view option" where
  "tcp_parse f =
     (if ip_frame_ok 6 f \<and> 54 \<le> length f \<and> field 46 1 f = [0x50] \<and> csum_valid (pseudo_of f (rev (to_le 2 (of_nat (length f - 34) :: u16))) @ drop 34 f)
      then Some \<lparr>s_macs = (field 0 6 f, field 6 6 f), s_ips = (field 30 4 f, field 26 4 f), s_ports = (field 36 2 f, field 34 2 f),
        s_seq = htonl (ld32 38 f), s_ack = htonl (ld32 42 f), s_flags = ld8 47 f, s_win = htons (ld16 48 f), s_data = drop 54 f\<rparr>
      else None)"

lemma tcp_frame_fields:
  assumes len: "length (eth buf) = UIP_ETH_BUF_LEN" and macs: "macs_ok info" and n: "length bs = n" "66 + n + n mod 2 \<le> UIP_ETH_BUF_LEN"
  obtains e where "tcp_make_pkg info sk flag bs buf =
      (if length (vnet buf) < vnet_hdr_len info then Faults
       else Done (buf\<lparr>eth := e, vnet_len := int (vnet_hdr_len info), vnet := put_at 0 (replicate (vnet_hdr_len info) 0) (vnet buf),
                      eth_len := int (unat (htons (ld16 16 e))) + 14\<rparr>))"
    "length e = UIP_ETH_BUF_LEN"
    "field 0 6 e = guest_mac info" "field 6 6 e = host_mac info" "field 12 2 e = [0x08, 0x00]" "field 14 1 e = [0x45]"
    "ld16 16 e = htons (of_nat (n + 40))" "field 23 1 e = [6]" "csum_valid (field 14 20 e)"
    "field 26 4 e = to_le 4 (t_dip sk)" "field 30 4 e = to_le 4 (t_sip sk)" "field 34 2 e = to_le 2 (ucast (t_dport sk) :: u16)"
    "field 36 2 e = to_le 2 (ucast (t_sport sk) :: u16)" "field 38 4 e = to_le 4 (htonl (seq_server sk))" "field 42 4 e = to_le 4 (htonl (ack_server sk))"
    "field 46 1 e = [0x50]" "field 47 1 e = [flag]" "field 48 2 e = to_le 2 (htons UIP_TCP_WIN_SIZE)" "field 54 n e = bs"
    "csum_valid (pseudo_of e (rev (to_le 2 (of_nat (n + 20) :: u16))) @ field 34 (n + 20) e)"
proof -
  let ?ws = "tcp_header info sk flag"
  define h where "h = written ?ws (eth buf)"
  have macs6: "length (host_mac info) = 6" "length (guest_mac info) = 6"
    using macs by (auto simp: macs_ok_def)
  have fit: "fit (eth buf) ?ws"
    using len macs6 by (simp add: tcp_header_def UIP_ETH_BUF_LEN_def)
  have ap: "sorted_wrt apart ?ws"
    using macs6 by (simp add: tcp_header_def apart_def)
  have st: "stores ?ws (eth buf) = Done h" "length h = UIP_ETH_BUF_LEN"
    using stores_Done [OF fit] len by (simp_all add: h_def)
  have h: "field 0 6 h = guest_mac info" "field 6 6 h = host_mac info" "field 12 2 h = to_le 2 (htons UIP_ETH_P_IP)" "field 14 1 h = [UIP_IP_VER_4 OR UIP_IP_HDR_LEN]"
      "field 23 1 h = [UIP_IP_P_TCP]" "field 24 2 h = [0, 0]" "field 26 4 h = to_le 4 (t_dip sk)" "field 30 4 h = to_le 4 (t_sip sk)"
      "field 34 2 h = to_le 2 (ucast (t_dport sk) :: u16)" "field 36 2 h = to_le 2 (ucast (t_sport sk) :: u16)"
      "field 38 4 h = to_le 4 (htonl (seq_server sk))" "field 42 4 h = to_le 4 (htonl (ack_server sk))" "field 46 1 h = [UIP_TCP_HDR_LEN]" "field 47 1 h = [flag]"
      "field 48 2 h = to_le 2 (htons UIP_TCP_WIN_SIZE)" "field 50 2 h = [0, 0]"
    by (rule field_written [OF fit ap, folded h_def]; simp add: tcp_header_def macs6)+
  have off: "uip_tcp_payload h = 54"
    using h(13) by (simp add: uip_tcp_payload_def uip_tcp_hdrlen_def ld8_def tcp_constants)
  define p where "p = put_at 54 bs h"
  have p: "length p = UIP_ETH_BUF_LEN" "field 54 n p = bs" "\<And>off k. off + k \<le> 54 \<Longrightarrow> field off k p = field off k h"
    using n st(2) by (auto simp: p_def field_put_same field_put_other)
  have pay: "(if 0 < length bs then stores [(uip_tcp_payload h, bs)] h else Done h) = Done p"
    using n st(2) off by (auto simp: p_def put_at_def)
  let ?w = "htons (of_nat (n + 40)) :: u16"
  have w: "uip_tcp_hdrlen p + of_nat (length bs) + uip_ip_hdrlen p = of_nat (n + 40)"
    using p(3) [of 46 1] p(3) [of 14 1] h(4,13) n(1) by (simp add: uip_tcp_hdrlen_def uip_ip_hdrlen_def ld8_def tcp_constants uip_constants)
  let ?lb = "to_le 2 (htons (of_nat (n + 20)))"
  obtain c d p' where f: "uip_csum_ip (put_at 16 (to_le 2 ?w) p) = Done c"
      "csum_segment (n + 20) (pseudo_of (put_at 24 (to_le 2 c) (put_at 16 (to_le 2 ?w) p)) ?lb)
         (put_at 24 (to_le 2 c) (put_at 16 (to_le 2 ?w) p)) = Done (p', d)" "length p' = UIP_ETH_BUF_LEN"
      "field 16 2 (put_at (34 + 16) (to_le 2 d) p') = to_le 2 ?w" "csum_valid (field 14 20 (put_at (34 + 16) (to_le 2 d) p'))"
      "csum_valid (pseudo_of (put_at (34 + 16) (to_le 2 d) p') ?lb @ field 34 (n + 20) (put_at (34 + 16) (to_le 2 d) p'))"
      "\<And>off j. off + j \<le> 34 + (n + 20) \<Longrightarrow> off + j \<le> 16 \<or> 18 \<le> off \<and> off + j \<le> 24 \<or> 26 \<le> off \<and> off + j \<le> 34 + 16 \<or> 36 + 16 \<le> off \<Longrightarrow>
         field off j (put_at (34 + 16) (to_le 2 d) p') = field off j p"
  proof (rule segment_frame [of p 16 "n + 20" "to_le 2 ?w" ?lb])
    show "46 + (n + 20) + (n + 20) mod 2 \<le> UIP_ETH_BUF_LEN"
      using n(2) by (simp add: mod_add_right_eq [of n 20 2, symmetric])
  qed (use p h(4,6,16) st(2) in \<open>auto simp: uip_constants UIP_ETH_BUF_LEN_def\<close>)
  define q r e where "q = put_at 16 (to_le 2 ?w) p" and "r = put_at 24 (to_le 2 c) q" and "e = put_at 50 (to_le 2 d) p'"
  have r: "length q = UIP_ETH_BUF_LEN" "length r = UIP_ETH_BUF_LEN" "field 16 2 r = to_le 2 ?w" "field 14 1 r = field 14 1 p" "field 23 1 r = field 23 1 p"
    using p(1) by (simp_all add: q_def r_def field_put_same field_put_other UIP_ETH_BUF_LEN_def del: to_le_htons)
  have "htons (ld16 16 r) - uip_ip_hdrlen r = of_nat (n + 20)"
    using r(3,4) p(3) [of 14 1] h(4) by (simp add: ld16_def of_le_to_le uip_ip_hdrlen_def ld8_def uip_constants del: to_le_htons)
  moreover have "unat (of_nat (n + 20) :: u16) = n + 20"
    using n(2) by (intro unat_u16) (simp add: UIP_ETH_BUF_LEN_def)
  moreover have "pseudo_hdr r l = pseudo_of r (to_le 2 l)" for l
    using r(5) p(3) [of 23 1] h(5) by (simp add: pseudo_hdr_def pseudo_of_def ld8_def)
  ultimately have sum: "uip_csum_tcp r = Done (p', d)"
    using f(2) [folded q_def, folded r_def] unfolding uip_csum_tcp_def Let_def by simp
  have sr: "stores [(16, to_le 2 ?w)] p = Done q" "stores [(24, to_le 2 c)] q = Done r" "stores [(50, to_le 2 d)] p' = Done e"
    using p(1) r(1) f(3) by (simp_all add: q_def r_def e_def UIP_ETH_BUF_LEN_def)
  have run: "tcp_make_pkg info sk flag bs buf =
      (if length (vnet buf) < vnet_hdr_len info then Faults
       else Done (buf\<lparr>eth := e, vnet_len := int (vnet_hdr_len info), vnet := put_at 0 (replicate (vnet_hdr_len info) 0) (vnet buf),
                      eth_len := int (unat (htons (ld16 16 e))) + 14\<rparr>))"
    using f(1) [folded q_def] sum unfolding tcp_make_pkg_def st(1) bind_run.simps pay w sr
    by (simp add: sr uip_eth_hdrlen_def del: stores.simps)
  note fe = f(4-7) [simplified, folded e_def]
  show ?thesis
  proof (rule that [OF run])
    show "csum_valid (pseudo_of e (rev (to_le 2 (of_nat (n + 20) :: u16))) @ field 34 (n + 20) e)"
      using fe(3) by simp
    show "ld16 16 e = htons (of_nat (n + 40))"
      using f(4) by (simp add: e_def ld16_def of_le_to_le del: of_nat_add to_le_htons)
    show "length e = UIP_ETH_BUF_LEN"
      using f(3) by (simp add: e_def UIP_ETH_BUF_LEN_def)
  qed (use fe p h in \<open>auto simp: uip_constants tcp_constants to_le_ethertype\<close>)
qed

text \<open>The segment in a buffer, as a receiver sees it.\<close>

definition segment_of :: "uip_info \<Rightarrow> uip_tcp_socket \<Rightarrow> u8 \<Rightarrow> u8 list \<Rightarrow> tcp_view" where
  "segment_of info sk flag bs =
     \<lparr>s_macs = (guest_mac info, host_mac info), s_ips = (to_le 4 (t_sip sk), to_le 4 (t_dip sk)),
      s_ports = (to_le 2 (ucast (t_sport sk) :: u16), to_le 2 (ucast (t_dport sk) :: u16)),
      s_seq = seq_server sk, s_ack = ack_server sk, s_flags = flag, s_win = UIP_TCP_WIN_SIZE, s_data = bs\<rparr>"

lemma tcp_make_pkg_ok:
  assumes buf: "buf_ok (vnet_hdr_len info) buf" and macs: "macs_ok info" and fits: "66 + length bs + length bs mod 2 \<le> UIP_ETH_BUF_LEN"
  shows "\<exists>buf'. tcp_make_pkg info sk flag bs buf = Done buf' \<and> status buf' = status buf \<and> buf_ok (vnet_hdr_len info) buf' \<and> lens_ok buf' \<and>
    fst (frame_of buf') = replicate (vnet_hdr_len info) 0 \<and> tcp_parse (snd (frame_of buf')) = Some (segment_of info sk flag bs)"
proof -
  let ?n = "length bs"
  have b: "length (eth buf) = UIP_ETH_BUF_LEN" "length (vnet buf) = vnet_hdr_len info"
    using buf by (auto simp: buf_ok_def)
  show ?thesis
  proof (rule tcp_frame_fields [OF b(1) macs refl fits, of sk flag])
    fix e
    assume run: "tcp_make_pkg info sk flag bs buf =
        (if length (vnet buf) < vnet_hdr_len info then Faults
         else Done (buf\<lparr>eth := e, vnet_len := int (vnet_hdr_len info), vnet := put_at 0 (replicate (vnet_hdr_len info) 0) (vnet buf),
                        eth_len := int (unat (htons (ld16 16 e))) + 14\<rparr>))"
      and len: "length e = UIP_ETH_BUF_LEN" and iplen: "ld16 16 e = htons (of_nat (?n + 40))"
      and e: "field 0 6 e = guest_mac info" "field 6 6 e = host_mac info" "field 12 2 e = [0x08, 0x00]" "field 14 1 e = [0x45]"
        "field 23 1 e = [6]" "csum_valid (field 14 20 e)"
        "field 26 4 e = to_le 4 (t_dip sk)" "field 30 4 e = to_le 4 (t_sip sk)" "field 34 2 e = to_le 2 (ucast (t_dport sk) :: u16)"
        "field 36 2 e = to_le 2 (ucast (t_sport sk) :: u16)" "field 38 4 e = to_le 4 (htonl (seq_server sk))" "field 42 4 e = to_le 4 (htonl (ack_server sk))"
        "field 46 1 e = [0x50]" "field 47 1 e = [flag]" "field 48 2 e = to_le 2 (htons UIP_TCP_WIN_SIZE)" "field 54 ?n e = bs"
        "csum_valid (pseudo_of e (rev (to_le 2 (of_nat (?n + 20) :: u16))) @ field 34 (?n + 20) e)"
    define f where "f = take (nat (int (unat (htons (ld16 16 e))) + 14)) e"
    have tot: "unat (htons (ld16 16 e)) = (?n + 12) + 28"
      unfolding iplen htons_htons using fits unat_u16 [of "?n + 40"] by (simp add: UIP_ETH_BUF_LEN_def)
    have n42: "42 + (?n + 12) \<le> UIP_ETH_BUF_LEN"
      using fits by simp
    note fl = take_eth_len(1) [OF len tot n42, folded f_def] and ff = take_eth_len(2) [OF len tot n42, folded f_def]
    have l: "length f - 34 = ?n + 20" "length f - 54 = ?n"
      using fl by simp_all
    have rest: "drop 34 f = field 34 (?n + 20) e" "drop 54 f = bs"
      unfolding field_rest [symmetric, of _ f] l by (rule ff, simp) (rule trans [OF ff e(16)], simp)
    have fe: "field 0 6 f = field 0 6 e" "field 6 6 f = field 6 6 e" "field 12 2 f = field 12 2 e" "field 14 1 f = field 14 1 e" "field 14 20 f = field 14 20 e" "field 16 2 f = field 16 2 e"
        "field 23 1 f = field 23 1 e" "field 26 4 f = field 26 4 e" "field 30 4 f = field 30 4 e" "field 34 2 f = field 34 2 e" "field 36 2 f = field 36 2 e"
        "field 38 4 f = field 38 4 e" "field 42 4 f = field 42 4 e" "field 46 1 f = field 46 1 e" "field 47 1 f = field 47 1 e" "field 48 2 f = field 48 2 e"
      by (rule ff; simp)+
    have l16: "be16n (field 16 2 e) = ?n + 12 + 28"
      using be16n_field [of 16 e] len tot by (simp add: UIP_ETH_BUF_LEN_def)
    have ip: "ip_frame_ok 6 f"
      unfolding ip_frame_ok_def fl fe l16 using e(3-6) by simp
    have ps: "pseudo_of f lb = pseudo_of e lb" for lb
      by (simp only: pseudo_of_def fe)
    have "tcp_parse f = Some (segment_of info sk flag bs)"
      using ip e(1,2,7-15,17) unfolding tcp_parse_def ps l rest fe ld32_def ld16_def ld8_def
      by (simp add: fl segment_of_def of_le_to_le del: to_le_htonl to_le_htons)
    moreover have "frame_of (buf\<lparr>eth := e, vnet_len := int (vnet_hdr_len info), vnet := put_at 0 (replicate (vnet_hdr_len info) 0) (vnet buf),
        eth_len := int (unat (htons (ld16 16 e))) + 14\<rparr>) = (replicate (vnet_hdr_len info) 0, f)"
      using b by (simp add: frame_of_def f_def put_at_def)
    ultimately show ?thesis
      unfolding run using b len tot n42 by (simp add: buf_ok_def lens_ok_def)
  qed
qed

lemma upd_tcp_simps [simp]:
  "buf_head (upd_tcp k f info) = buf_head info" "buf_free_nr (upd_tcp k f info) = buf_free_nr info" "buf_used_nr (upd_tcp k f info) = buf_used_nr info"
  "vnet_hdr_len (upd_tcp k f info) = vnet_hdr_len info" "host_mac (upd_tcp k f info) = host_mac info" "guest_mac (upd_tcp k f info) = guest_mac info"
  "tcp_sockets (upd_tcp k f info) = (tcp_sockets info)[k := f (tcp_sockets info ! k)]"
  by (simp_all add: upd_tcp_def)

lemma tcp_make_pkg_pool [simp]: "tcp_make_pkg (info\<lparr>buf_head := bs, buf_free_nr := x\<rparr>) sk = tcp_make_pkg info sk"
proof -
  have "tcp_header (info\<lparr>buf_head := bs, buf_free_nr := x\<rparr>) sk flag = tcp_header info sk flag" for flag
    by (simp add: tcp_header_def)
  then show ?thesis
    by (simp add: fun_eq_iff tcp_make_pkg_def del: stores.simps cong: if_cong)
qed

lemma uip_tcp_payload_send_ok:
  assumes inv: "pool_inv held info" and macs: "macs_ok info" and free: "0 < buf_free_nr info" and fits: "66 + length bs + length bs mod 2 \<le> UIP_ETH_BUF_LEN"
  obtains info' f where "uip_tcp_payload_send k flag bs info = Done info'"
    "delivers (replicate (vnet_hdr_len info) 0, f) (upd_tcp k (\<lambda>sk. sk\<lparr>seq_server := seq_server sk + of_nat (length bs)\<rparr>) info) info'"
    "tcp_parse f = Some (segment_of info (tcp_sockets info ! k) flag bs)"
proof -
  obtain i where i: "first_status UIP_BUF_STATUS_FREE (buf_head info) = Some i" "i < length (buf_head info)"
      and b: "buf_ok (vnet_hdr_len info) ((buf_head info ! i)\<lparr>status := UIP_BUF_STATUS_INUSE\<rparr>)"
    using first_free [OF inv free] by (metis buf_ok_def buf_ok_status)
  obtain b' where b': "tcp_make_pkg info (tcp_sockets info ! k) flag bs ((buf_head info ! i)\<lparr>status := UIP_BUF_STATUS_INUSE\<rparr>) = Done b'"
      "buf_ok (vnet_hdr_len info) b'" "lens_ok b'" "fst (frame_of b') = replicate (vnet_hdr_len info) 0"
      "tcp_parse (snd (frame_of b')) = Some (segment_of info (tcp_sockets info ! k) flag bs)"
    using tcp_make_pkg_ok [OF b macs fits] by metis
  let ?upd = "\<lambda>sk. sk\<lparr>seq_server := seq_server sk + of_nat (length bs)\<rparr>" and ?info = "info\<lparr>buf_free_nr := buf_free_nr info - 1, buf_head := (buf_head info)[i := b']\<rparr>"
  have "upd_tcp k ?upd ?info = (upd_tcp k ?upd info)\<lparr>buf_free_nr := buf_free_nr info - 1, buf_head := (buf_head info)[i := b']\<rparr>"
    by (rule uip_info.equality) (simp_all add: upd_tcp_def)
  moreover have "frame_of b' = (replicate (vnet_hdr_len info) 0, snd (frame_of b'))"
    using b'(4) by (metis prod.collapse)
  ultimately have "delivers (replicate (vnet_hdr_len info) 0, snd (frame_of b')) (upd_tcp k ?upd info) (uip_buf_set_used i (upd_tcp k ?upd ?info))"
    using delivers_buf [of "upd_tcp k ?upd info" i b'] i(1) b'(2,3) by simp
  moreover have "uip_tcp_payload_send k flag bs info = Done (uip_buf_set_used i (upd_tcp k ?upd ?info))"
    using i b'(1) by (simp add: uip_tcp_payload_send_def get_free_cases [OF inv] set_status_def)
  ultimately show ?thesis
    using that b'(5) by blast
qed

section \<open>Data for the guest\<close>

definition chunk_len :: "uip_tcp_socket \<Rightarrow> u8 list \<Rightarrow> nat" where
  "chunk_len sk left = min (min (nat (tcp_window sk)) (length left)) UIP_MAX_TCP_PAYLOAD"

lemma tcp_window_less:
  assumes "int n \<le> tcp_window sk"
  shows "tcp_window (sk\<lparr>seq_server := seq_server sk + of_nat n\<rparr>) = tcp_window sk - int n"
proof -
  let ?x = "guest_acked sk + ucast (window_size sk) - seq_server sk"
  have "sint ?x < 2 ^ 31"
    using sint_less [of ?x] by simp
  then have r: "- (2 ^ 31) \<le> sint ?x - int n" "sint ?x - int n < 2 ^ 31"
    using assms by (simp_all add: tcp_window_def)
  have "guest_acked sk + ucast (window_size sk) - (seq_server sk + of_nat n) = ?x - of_nat n"
    by (simp add: algebra_simps)
  also have "\<dots> = word_of_int (sint ?x - int n)"
    by simp
  finally have "sint (guest_acked sk + ucast (window_size sk) - (seq_server sk + of_nat n)) = signed_take_bit 31 (sint ?x - int n)"
    by (simp only: sint_sbintrunc') simp
  also have "\<dots> = sint ?x - int n"
    by (rule signed_take_bit_int_eq_self) (use r in simp_all)
  finally show ?thesis by (simp add: tcp_window_def)
qed

lemma tcp_thread_chunk_ok:
  assumes "pool_inv held info" "macs_ok info" "0 < buf_free_nr info" "67 + length left \<le> UIP_ETH_BUF_LEN" "k < length (tcp_sockets info)"
    "0 < tcp_window (tcp_sockets info ! k)"
  obtains info' f where "tcp_thread_chunk k left info = Done (info', drop (chunk_len (tcp_sockets info ! k) left) left)"
    "tcp_sockets info' = (tcp_sockets info)[k := (tcp_sockets info ! k)\<lparr>seq_server := seq_server (tcp_sockets info ! k) + of_nat (chunk_len (tcp_sockets info ! k) left)\<rparr>]"
    "delivers (replicate (vnet_hdr_len info) 0, f) (info\<lparr>tcp_sockets := tcp_sockets info'\<rparr>) info'"
    "tcp_parse f = Some (segment_of info (tcp_sockets info ! k) UIP_TCP_FLAG_ACK (take (chunk_len (tcp_sockets info ! k) left) left))"
    "0 \<le> tcp_window (tcp_sockets info' ! k)"
proof -
  let ?sk = "tcp_sockets info ! k"
  let ?n = "chunk_len ?sk left"
  have n: "length (take ?n left) = ?n" "int ?n \<le> tcp_window ?sk"
    using assms(6) by (simp_all add: chunk_len_def)
  have fits: "66 + length (take ?n left) + length (take ?n left) mod 2 \<le> UIP_ETH_BUF_LEN"
    using assms(4) by simp
  obtain info' f where run: "uip_tcp_payload_send k UIP_TCP_FLAG_ACK (take ?n left) info = Done info'"
      "delivers (replicate (vnet_hdr_len info) 0, f) (upd_tcp k (\<lambda>sk. sk\<lparr>seq_server := seq_server sk + of_nat (length (take ?n left))\<rparr>) info) info'"
      "tcp_parse f = Some (segment_of info ?sk UIP_TCP_FLAG_ACK (take ?n left))"
    by (rule uip_tcp_payload_send_ok [OF assms(1-3) fits])
  have sks: "tcp_sockets info' = (tcp_sockets info)[k := ?sk\<lparr>seq_server := seq_server ?sk + of_nat ?n\<rparr>]"
    using run(2) n(1) by (auto simp: delivers_def)
  have "tcp_window (tcp_sockets info' ! k) = tcp_window ?sk - int ?n"
    using tcp_window_less [OF n(2)] sks assms(5) by simp
  then have win: "0 \<le> tcp_window (tcp_sockets info' ! k)"
    using n(2) by simp
  have chunk: "tcp_thread_chunk k left info = Done (info', drop ?n left)"
    using assms(6) run(1) by (simp add: tcp_thread_chunk_def chunk_len_def)
  have "info\<lparr>tcp_sockets := tcp_sockets info'\<rparr> = upd_tcp k (\<lambda>sk. sk\<lparr>seq_server := seq_server sk + of_nat (length (take ?n left))\<rparr>) info"
    using sks n(1) by (simp add: upd_tcp_def)
  then have del: "delivers (replicate (vnet_hdr_len info) 0, f) (info\<lparr>tcp_sockets := tcp_sockets info'\<rparr>) info'"
    using run(2) by simp
  show ?thesis
    by (rule that [OF chunk sks del run(3) win])
qed

text \<open>
  The receiving thread sends when the guest's window is open and only into it. With a free buffer and an open window it delivers one
  valid segment with the next bytes of the data, as many as the window takes, numbered with the connection's sequence number, which is
  advanced by their count; the window is never exceeded. With a closed window it waits.
\<close>

theorem tcp_thread_chunk_correct:
  assumes "pool_inv held info" "macs_ok info" "0 < buf_free_nr info" "67 + length left \<le> UIP_ETH_BUF_LEN" "k < length (tcp_sockets info)"
  shows "if tcp_window (tcp_sockets info ! k) \<le> 0 then tcp_thread_chunk k left info = Waits
    else \<exists>info' f. let sk = tcp_sockets info ! k; n = chunk_len sk left in
      tcp_thread_chunk k left info = Done (info', drop n left) \<and>
      tcp_sockets info' = (tcp_sockets info)[k := sk\<lparr>seq_server := seq_server sk + of_nat n\<rparr>] \<and>
      delivers (replicate (vnet_hdr_len info) 0, f) (info\<lparr>tcp_sockets := tcp_sockets info'\<rparr>) info' \<and>
      tcp_parse f = Some (segment_of info sk UIP_TCP_FLAG_ACK (take n left)) \<and> 0 \<le> tcp_window (tcp_sockets info' ! k)"
proof (cases "tcp_window (tcp_sockets info ! k) \<le> 0")
  case True
  then show ?thesis by (simp add: tcp_thread_chunk_def)
next
  case False
  then have "0 < tcp_window (tcp_sockets info ! k)" by simp
  from tcp_thread_chunk_ok [OF assms this] show ?thesis
    unfolding Let_def if_not_P [OF False] by blast
qed

definition sample_tsk :: uip_tcp_socket where
  "sample_tsk = \<lparr>t_addr = (0x08080808, 0x5000), t_dport = 0x5000, t_sport = 0x3412, guest_acked = 10000001, window_size = 100, isn_server = 10000000, isn_guest = 7,
     ack_server = 8, seq_server = 10000001, write_done = False, read_done = False, t_dip = 0x08080808, t_sip = 0x0F21A8C0, t_thread = True, t_buf = True, t_fd = 9\<rparr>"

definition sample_conn :: uip_info where
  "sample_conn = sample_net\<lparr>tcp_sockets := [sample_tsk]\<rparr>"

definition sample_env :: net_env where
  "sample_env = \<lparr>env_socket = 5, env_connect = 0, env_epoll = 6, env_sendto = 0, env_write = 3, env_thread = 0, env_oom = False\<rparr>"

lemma sample_pool: "pool_inv {} sample_net" "macs_ok sample_net" "0 < buf_free_nr sample_net"
  using uip_init_inv [OF sample_init] by (simp_all add: macs_ok_def sample_net_def sample_info_def)

lemma sample_conn_pool: "pool_inv {} sample_conn" "macs_ok sample_conn" "0 < buf_free_nr sample_conn" "tcp_sockets sample_conn = [sample_tsk]"
  using sample_pool by (simp_all add: sample_conn_def pool_inv_def macs_ok_def)

lemma sample_window: "tcp_window sample_tsk = 100" "chunk_len sample_tsk [1, 2, 3] = 3"
proof -
  show w: "tcp_window sample_tsk = 100"
    by (simp add: tcp_window_def sample_tsk_def)
  show "chunk_len sample_tsk [1, 2, 3] = 3"
    by (simp add: chunk_len_def w UIP_MAX_TCP_PAYLOAD_def)
qed

lemma sample_small: "67 + length [1, 2, 3 :: u8] \<le> UIP_ETH_BUF_LEN"
  by (simp add: UIP_ETH_BUF_LEN_def)

theorem tcp_thread_chunk_correct_witness:
  "\<exists>info' f. tcp_thread_chunk 0 [1, 2, 3] sample_conn = Done (info', []) \<and> tcp_parse f = Some (segment_of sample_conn sample_tsk UIP_TCP_FLAG_ACK [1, 2, 3])"
  using tcp_thread_chunk_correct [OF sample_conn_pool(1-3) sample_small, of 0]
  by (auto simp: sample_conn_pool(4) sample_window Let_def)

text \<open>
  The steps that matter to the data of one connection, with the segments the guest got so far: the thread sends a chunk; or something else
  happens, such as an acknowledgement of the guest, traffic of other connections, or buffers coming back, which leaves the sequence number of this connection alone.
\<close>

inductive tcp_stream :: "nat \<Rightarrow> uip_info \<times> u8 list \<times> tcp_view list \<Rightarrow> uip_info \<times> u8 list \<times> tcp_view list \<Rightarrow> bool" for k where
  chunk: "tcp_thread_chunk k left info = Done (info', left') \<Longrightarrow> delivers (h, f) (info\<lparr>tcp_sockets := tcp_sockets info'\<rparr>) info' \<Longrightarrow>
    tcp_parse f = Some v \<Longrightarrow> tcp_stream k (info, left, out) (info', left', out @ [v])"
| other: "k < length (tcp_sockets info') \<Longrightarrow> seq_server (tcp_sockets info' ! k) = seq_server (tcp_sockets info ! k) \<Longrightarrow>
    pool_inv held info' \<Longrightarrow> macs_ok info' \<Longrightarrow> tcp_stream k (info, left, out) (info', left, out)"

definition in_sequence :: "u32 \<Rightarrow> tcp_view list \<Rightarrow> bool" where
  "in_sequence s0 out \<longleftrightarrow> (\<forall>j < length out. s_seq (out ! j) = s0 + of_nat (length (concat (map s_data (take j out)))))"

definition stream_inv :: "nat \<Rightarrow> u32 \<Rightarrow> u8 list \<Rightarrow> uip_info \<times> u8 list \<times> tcp_view list \<Rightarrow> bool" where
  "stream_inv k s0 data s \<longleftrightarrow> (case s of (info, left, out) \<Rightarrow>
     (\<exists>held. pool_inv held info) \<and> macs_ok info \<and> k < length (tcp_sockets info) \<and> concat (map s_data out) @ left = data \<and> in_sequence s0 out \<and>
     seq_server (tcp_sockets info ! k) = s0 + of_nat (length (concat (map s_data out))))"

lemma delivers_functional:
  assumes "delivers (h, f) info info'" "delivers (h', f') info info'"
  shows "f = f'"
proof -
  obtain i b where b: "first_status UIP_BUF_STATUS_FREE (buf_head info) = Some i" "buf_head info' = (buf_head info)[i := b]" "frame_of b = (h, f)"
    using assms(1) by (auto simp: delivers_def)
  obtain c where c: "buf_head info' = (buf_head info)[i := c]" "frame_of c = (h', f')"
    using assms(2) b(1) by (auto simp: delivers_def)
  have "b = c"
    using b(2) c(1) first_status_Some [OF b(1)] by (metis nth_list_update_eq)
  then show ?thesis
    using b(3) c(2) by simp
qed

lemma chunk_needs_buffer:
  assumes "tcp_thread_chunk k left info = Done x" "pool_inv held info"
  shows "0 < buf_free_nr info \<and> 0 < tcp_window (tcp_sockets info ! k)"
proof -
  have w: "0 < tcp_window (tcp_sockets info ! k)"
    using assms(1) by (auto simp: tcp_thread_chunk_def Let_def split: if_splits)
  moreover have "uip_buf_get_free info \<noteq> Waits"
    using assms(1) w by (auto simp: tcp_thread_chunk_def Let_def uip_tcp_payload_send_def bind_run_Done)
  ultimately show ?thesis
    by (auto simp: uip_buf_get_free_def split: if_splits)
qed

lemma in_sequence_snoc:
  "in_sequence s0 out \<Longrightarrow> s_seq v = s0 + of_nat (length (concat (map s_data out))) \<Longrightarrow> in_sequence s0 (out @ [v])"
  by (auto simp: in_sequence_def nth_append less_Suc_eq)

lemma stream_step:
  assumes "tcp_stream k s s'" "stream_inv k s0 data s" "67 + length data \<le> UIP_ETH_BUF_LEN"
  shows "stream_inv k s0 data s'"
  using assms
proof (induction rule: tcp_stream.induct)
  case (chunk left info info' left' h f v out)
  then obtain held where inv: "pool_inv held info" "macs_ok info" "k < length (tcp_sockets info)" "concat (map s_data out) @ left = data" "in_sequence s0 out"
      "seq_server (tcp_sockets info ! k) = s0 + of_nat (length (concat (map s_data out)))"
    by (auto simp: stream_inv_def)
  let ?sk = "tcp_sockets info ! k"
  let ?n = "chunk_len ?sk left"
  have small: "67 + length left \<le> UIP_ETH_BUF_LEN"
    using chunk.prems(2) inv(4) by auto
  note nb = chunk_needs_buffer [OF chunk.hyps(1) inv(1)]
  obtain i2 g where ok: "tcp_thread_chunk k left info = Done (i2, drop ?n left)" "tcp_sockets i2 = (tcp_sockets info)[k := ?sk\<lparr>seq_server := seq_server ?sk + of_nat ?n\<rparr>]"
      "delivers (replicate (vnet_hdr_len info) 0, g) (info\<lparr>tcp_sockets := tcp_sockets i2\<rparr>) i2" "tcp_parse g = Some (segment_of info ?sk UIP_TCP_FLAG_ACK (take ?n left))"
    by (rule tcp_thread_chunk_ok [OF inv(1,2) nb [THEN conjunct1] small inv(3) nb [THEN conjunct2]])
  have same: "info' = i2" "left' = drop ?n left"
    using ok(1) chunk.hyps(1) by auto
  have "f = g"
    using delivers_functional chunk.hyps(2) ok(3) unfolding same by blast
  then have v: "v = segment_of info ?sk UIP_TCP_FLAG_ACK (take ?n left)"
    using ok(4) chunk.hyps(3) by simp
  have "pool_inv held (info\<lparr>tcp_sockets := tcp_sockets i2\<rparr>)" "macs_ok i2"
    using inv(1,2) delivers_frame [OF ok(3)] by (auto simp: pool_inv_def macs_ok_def)
  then have "pool_inv held i2" "macs_ok i2"
    using delivers_inv [OF ok(3)] by auto
  moreover have "length (take ?n left) = ?n"
    by (simp add: chunk_len_def)
  ultimately show ?case
    using inv(3-6) in_sequence_snoc [of s0 out v] ok(2) unfolding same by (auto simp: stream_inv_def v segment_of_def add.assoc)
qed (auto simp: stream_inv_def)



section \<open>Packets of the guest\<close>

lemma delivers_sockets:
  assumes "delivers hf info info'"
  shows "delivers hf (info\<lparr>tcp_sockets := ss\<rparr>) (info'\<lparr>tcp_sockets := ss\<rparr>)"
proof -
  obtain i b where d: "first_status UIP_BUF_STATUS_FREE (buf_head info) = Some i" "status b = UIP_BUF_STATUS_USED" "buf_ok (vnet_hdr_len info) b" "lens_ok b" "frame_of b = hf"
      and info': "info' = info\<lparr>buf_free_nr := buf_free_nr info - 1, buf_head := (buf_head info)[i := b], buf_used_nr := buf_used_nr info + 1\<rparr>"
    using assms by (auto simp: delivers_def)
  have "info'\<lparr>tcp_sockets := ss\<rparr> = info\<lparr>tcp_sockets := ss, buf_free_nr := buf_free_nr info - 1, buf_head := (buf_head info)[i := b], buf_used_nr := buf_used_nr info + 1\<rparr>"
    unfolding info' by (rule uip_info.equality) simp_all
  then show ?thesis
    unfolding delivers_def using d by auto
qed

lemma pool_inv_sockets [simp]:
  "pool_inv held (info\<lparr>tcp_sockets := ss\<rparr>) = pool_inv held info" "macs_ok (info\<lparr>tcp_sockets := ss\<rparr>) = macs_ok info"
  "pool_inv held (info\<lparr>host_log := l\<rparr>) = pool_inv held info" "macs_ok (info\<lparr>host_log := l\<rparr>) = macs_ok info"
  by (simp_all add: pool_inv_def macs_ok_def)

lemma upd_tcp_snoc: "upd_tcp (length ss) f (info\<lparr>tcp_sockets := ss @ [sk]\<rparr>) = info\<lparr>tcp_sockets := ss @ [f sk]\<rparr>"
  by (simp add: upd_tcp_def)

lemma segment_of_sockets [simp]: "segment_of (info\<lparr>tcp_sockets := ss\<rparr>) = segment_of info" "segment_of (info\<lparr>host_log := l\<rparr>) = segment_of info"
  by (simp_all add: fun_eq_iff segment_of_def)

lemma ucast_u16_u32 [simp]: "ucast (ucast w :: u32) = w" for w :: u16
  by (rule bit_word_eqI) (auto simp: bit_simps)

lemma to_le_ld: "off + 4 \<le> length p \<Longrightarrow> to_le 4 (ld32 off p) = field off 4 p" "off + 2 \<le> length p \<Longrightarrow> to_le 2 (ld16 off p) = field off 2 p"
  by (simp_all add: ld32_def ld16_def to_le_of_le)

lemma empty_fits: "66 + length [] + length [] mod 2 \<le> UIP_ETH_BUF_LEN"
  by (simp add: UIP_ETH_BUF_LEN_def)

text \<open>
  Connections. When the guest opens a connection and the host can connect, a socket is added for it with the guest's initial sequence number
  acknowledged, and the guest is sent a valid SYN-ACK with exchanged addresses and ports; the next byte of the server has the number after it.
\<close>

theorem tcp_syn_answered:
  assumes "pool_inv held info" "macs_ok info" "0 < buf_free_nr info" "50 \<le> length (arg_eth arg)" "uip_tcp_is_syn (arg_eth arg)" "env_connect env = 0"
  shows "\<exists>info' f v sk. uip_tx_do_ipv4_tcp env arg info = Done (info', 0) \<and> tcp_sockets info' = tcp_sockets info @ [sk] \<and>
    tcp_match (ld32 26 (arg_eth arg)) (ld32 30 (arg_eth arg)) (ld16 34 (arg_eth arg)) (ld16 36 (arg_eth arg)) sk \<and>
    seq_server sk = uip_tcp_isn_alloc + 1 \<and> ack_server sk = uip_tcp_isn (arg_eth arg) + 1 \<and> \<not> write_done sk \<and> \<not> read_done sk \<and>
    delivers (replicate (vnet_hdr_len info) 0, f) (info\<lparr>tcp_sockets := tcp_sockets info'\<rparr>) info' \<and> tcp_parse f = Some v \<and>
    s_flags v = UIP_TCP_FLAG_SYN OR UIP_TCP_FLAG_ACK \<and> s_seq v = uip_tcp_isn_alloc \<and> s_ack v = uip_tcp_isn (arg_eth arg) + 1 \<and> s_data v = [] \<and>
    s_ips v = (field 26 4 (arg_eth arg), field 30 4 (arg_eth arg)) \<and> s_ports v = (field 34 2 (arg_eth arg), field 36 2 (arg_eth arg))"
proof -
  let ?p = "arg_eth arg" and ?k = "length (tcp_sockets info)"
  define sk where "sk = \<lparr>t_addr = (if htonl (ld32 30 ?p) = host_ip info then htonl 0x7F000001 else ld32 30 ?p, ld16 36 ?p), t_dport = ucast (ld16 36 ?p), t_sport = ucast (ld16 34 ?p),
    guest_acked = 0, window_size = htons (ld16 48 ?p), isn_server = uip_tcp_isn_alloc, isn_guest = uip_tcp_isn ?p, ack_server = uip_tcp_isn ?p + 1, seq_server = uip_tcp_isn_alloc,
    write_done = False, read_done = False, t_dip = ld32 30 ?p, t_sip = ld32 26 ?p, t_thread = False, t_buf = False, t_fd = env_socket env\<rparr>"
  let ?info = "info\<lparr>tcp_sockets := tcp_sockets info @ [sk]\<rparr>"
  have inv: "pool_inv held ?info" "macs_ok ?info" "0 < buf_free_nr ?info"
    using assms by simp_all
  obtain i2 f where run: "uip_tcp_payload_send ?k (UIP_TCP_FLAG_SYN OR UIP_TCP_FLAG_ACK) [] ?info = Done i2"
      "delivers (replicate (vnet_hdr_len ?info) 0, f) (upd_tcp ?k (\<lambda>sk. sk\<lparr>seq_server := seq_server sk + of_nat (length ([] :: u8 list))\<rparr>) ?info) i2"
      "tcp_parse f = Some (segment_of ?info (tcp_sockets ?info ! ?k) (UIP_TCP_FLAG_SYN OR UIP_TCP_FLAG_ACK) [])"
    by (rule uip_tcp_payload_send_ok [OF inv empty_fits])
  have del: "delivers (replicate (vnet_hdr_len info) 0, f) ?info i2"
    using run(2) by (simp add: upd_tcp_snoc)
  then have sks: "tcp_sockets i2 = tcp_sockets info @ [sk]"
    using delivers_frame by fastforce
  define sk' where "sk' = (if env_oom env then sk\<lparr>seq_server := uip_tcp_isn_alloc + 1\<rparr> else sk\<lparr>seq_server := uip_tcp_isn_alloc + 1, t_buf := True, t_thread := (env_thread env = 0)\<rparr>)"
  let ?fin = "i2\<lparr>tcp_sockets := tcp_sockets info @ [sk']\<rparr>"
  have fin: "uip_tcp_socket_receive env ?k (upd_tcp ?k (\<lambda>sk. sk\<lparr>seq_server := seq_server sk + 1\<rparr>) i2) = ?fin"
    by (simp add: uip_tcp_socket_receive_def upd_tcp_def sks sk'_def) (simp add: sk_def)
  have "uip_tx_do_ipv4_tcp env arg info = Done (?fin, 0)"
    using run(1) fin assms(4-6)
    by (simp add: uip_tx_do_ipv4_tcp_def tcp_do_syn_def uip_tcp_socket_alloc_def Let_def upd_tcp_snoc sk_def [symmetric, simplified])
  moreover have "delivers (replicate (vnet_hdr_len info) 0, f) (info\<lparr>tcp_sockets := tcp_sockets ?fin\<rparr>) ?fin"
    using delivers_sockets [OF del, of "tcp_sockets info @ [sk']"] by simp
  moreover have "tcp_parse f = Some (segment_of info sk (UIP_TCP_FLAG_SYN OR UIP_TCP_FLAG_ACK) [])"
    using run(3) by simp
  moreover have "tcp_match (ld32 26 ?p) (ld32 30 ?p) (ld16 34 ?p) (ld16 36 ?p) sk'" "seq_server sk' = uip_tcp_isn_alloc + 1" "ack_server sk' = uip_tcp_isn ?p + 1" "\<not> write_done sk'" "\<not> read_done sk'"
    by (simp_all add: sk'_def sk_def tcp_match_def)
  moreover have "tcp_sockets ?fin = tcp_sockets info @ [sk']" by simp
  ultimately show ?thesis
    using assms(4) by (intro exI conjI) (assumption | simp add: segment_of_def sk_def to_le_ld)+
qed

definition sample_syn :: "u8 list" where
  "sample_syn = [2, 0, 0, 0, 0, 2, 2, 0, 0, 0, 0, 1, 8, 0, 0x45, 0, 0, 40, 0, 0, 0, 0, 64, 6, 0, 0, 192, 168, 33, 15, 8, 8, 8, 8,
     0x12, 0x34, 0, 80, 0, 0, 0, 7, 0, 0, 0, 0, 0x50, 2, 1, 0, 0, 0, 0, 0]"

definition sample_arg :: "u8 list \<Rightarrow> uip_tx_arg" where
  "sample_arg p = \<lparr>arg_vnet = replicate 10 0, arg_eth = p, arg_vnet_len = 10, arg_eth_len = int (length p)\<rparr>"

theorem tcp_syn_answered_witness:
  "\<exists>info' f v sk. uip_tx_do_ipv4_tcp sample_env (sample_arg sample_syn) sample_net = Done (info', 0) \<and> tcp_sockets info' = tcp_sockets sample_net @ [sk] \<and>
    seq_server sk = 10000001 \<and> tcp_parse f = Some v \<and> s_flags v = 18 \<and> s_seq v = 10000000 \<and> s_ack v = 8"
proof -
  have "length sample_syn = 54" "uip_tcp_is_syn sample_syn" "uip_tcp_isn sample_syn = 7"
    by code_simp+
  then show ?thesis
    using tcp_syn_answered [OF sample_pool, of "sample_arg sample_syn" sample_env]
    by (auto simp: sample_arg_def sample_env_def tcp_constants uip_tcp_isn_alloc_def)
qed

lemma find_index_Some: "find_index P xs = Some k \<Longrightarrow> k < length xs \<and> P (xs ! k) \<and> (\<forall>j < k. \<not> P (xs ! j))"
proof (induction xs arbitrary: k)
  case (Cons x xs)
  then show ?case
    by (auto simp: nth_Cons split: if_splits nat.splits)
qed simp

text \<open>
  Data of the guest. A data segment on a known connection is written to the socket, all of it when the host takes it, and acknowledged with a valid
  segment whose acknowledgement number has grown by the bytes written; the window and acknowledgement of the guest are taken over. The sequence
  number of the segment plays no role: a segment sent again is written again.
\<close>

theorem tcp_data_forwarded:
  assumes "pool_inv held info" "macs_ok info" "0 < buf_free_nr info" "54 \<le> length (arg_eth arg)" "\<not> uip_tcp_is_syn (arg_eth arg)" "\<not> uip_tcp_is_fin (arg_eth arg)"
    "uip_tcp_socket_find info (ld32 26 (arg_eth arg)) (ld32 30 (arg_eth arg)) (ld16 34 (arg_eth arg)) (ld16 36 (arg_eth arg)) = Some k"
    "unat (uip_tcp_payloadlen (arg_eth arg)) = n" "0 < n" "uip_tcp_payload (arg_eth arg) + n \<le> length (arg_eth arg)"
    "\<not> write_done (tcp_sockets info ! k)" "env_write env = int n"
  shows "\<exists>info' f sk. uip_tx_do_ipv4_tcp env arg info = Done (info', 0) \<and>
    sk = (tcp_sockets info ! k)\<lparr>window_size := htons (ld16 48 (arg_eth arg)), guest_acked := htonl (ld32 42 (arg_eth arg)), ack_server := ack_server (tcp_sockets info ! k) + of_nat n\<rparr> \<and>
    tcp_sockets info' = (tcp_sockets info)[k := sk] \<and>
    host_log info' = host_log info @ [WriteFd (t_fd sk) (field (uip_tcp_payload (arg_eth arg)) n (arg_eth arg))] \<and>
    delivers (replicate (vnet_hdr_len info) 0, f) (info\<lparr>tcp_sockets := tcp_sockets info', host_log := host_log info'\<rparr>) info' \<and>
    tcp_parse f = Some (segment_of info sk UIP_TCP_FLAG_ACK [])"
proof -
  let ?p = "arg_eth arg"
  have k: "k < length (tcp_sockets info)"
    using assms(7) find_index_Some by (auto simp: uip_tcp_socket_find_def)
  define sk where "sk = (tcp_sockets info ! k)\<lparr>window_size := htons (ld16 48 ?p), guest_acked := htonl (ld32 42 ?p), ack_server := ack_server (tcp_sockets info ! k) + of_nat n\<rparr>"
  let ?log = "host_log info @ [WriteFd (t_fd sk) (field (uip_tcp_payload ?p) n ?p)]"
  let ?info = "info\<lparr>tcp_sockets := (tcp_sockets info)[k := sk], host_log := ?log\<rparr>"
  have inv: "pool_inv held ?info" "macs_ok ?info" "0 < buf_free_nr ?info"
    using assms(1-3) by simp_all
  obtain i2 f where run: "uip_tcp_payload_send k UIP_TCP_FLAG_ACK [] ?info = Done i2"
      "delivers (replicate (vnet_hdr_len ?info) 0, f) (upd_tcp k (\<lambda>sk. sk\<lparr>seq_server := seq_server sk + of_nat (length ([] :: u8 list))\<rparr>) ?info) i2"
      "tcp_parse f = Some (segment_of ?info (tcp_sockets ?info ! k) UIP_TCP_FLAG_ACK [])"
    by (rule uip_tcp_payload_send_ok [OF inv empty_fits])
  have same: "upd_tcp k (\<lambda>sk. sk\<lparr>seq_server := seq_server sk + of_nat (length ([] :: u8 list))\<rparr>) ?info = ?info"
    using k by (rule_tac uip_info.equality) (simp_all add: upd_tcp_def)
  then have del: "delivers (replicate (vnet_hdr_len info) 0, f) ?info i2"
    using run(2) by simp
  have i2: "tcp_sockets i2 = (tcp_sockets info)[k := sk]" "host_log i2 = ?log"
    using delivers_frame [OF del] by simp_all
  have len: "uip_tcp_payloadlen ?p \<noteq> 0"
    using assms(8,9) by auto
  let ?seen = "upd_tcp k (\<lambda>sk. sk\<lparr>window_size := htons (ld16 48 ?p), guest_acked := htonl (ld32 42 ?p)\<rparr>) info"
  have "upd_tcp k (\<lambda>sk. sk\<lparr>ack_server := ack_server sk + word_of_int (int n)\<rparr>) (log_event (WriteFd (t_fd (tcp_sockets ?seen ! k)) (field (uip_tcp_payload ?p) n ?p)) ?seen) = ?info"
    using k by (rule_tac uip_info.equality) (simp_all add: upd_tcp_def log_event_def sk_def)
  then have "tcp_do_data env k ?p ?seen = Done (i2, 0)"
    using run(1) assms(8-12) k by (simp add: tcp_do_data_def uip_tcp_socket_send_def)
  then have "uip_tx_do_ipv4_tcp env arg info = Done (i2, 0)"
    using assms(4-7) len by (simp add: uip_tx_do_ipv4_tcp_def Let_def)
  moreover have "delivers (replicate (vnet_hdr_len info) 0, f) (info\<lparr>tcp_sockets := tcp_sockets i2, host_log := host_log i2\<rparr>) i2"
    using del by (simp add: i2)
  moreover have "tcp_parse f = Some (segment_of info sk UIP_TCP_FLAG_ACK [])"
    using run(3) k by simp
  ultimately show ?thesis
    using i2 sk_def by blast
qed

definition sample_data :: "u8 list" where
  "sample_data = [2, 0, 0, 0, 0, 2, 2, 0, 0, 0, 0, 1, 8, 0, 0x45, 0, 0, 43, 0, 0, 0, 0, 64, 6, 0, 0, 192, 168, 33, 15, 8, 8, 8, 8,
     0x12, 0x34, 0, 80, 0, 0, 0, 8, 0, 0, 0, 0, 0x50, 16, 1, 0, 0, 0, 0, 0, 97, 98, 99]"

theorem tcp_data_forwarded_witness:
  "\<exists>info' f. uip_tx_do_ipv4_tcp sample_env (sample_arg sample_data) sample_conn = Done (info', 0) \<and>
    host_log info' = host_log sample_conn @ [WriteFd 9 [97, 98, 99]] \<and> ack_server (tcp_sockets info' ! 0) = 11 \<and>
    tcp_parse f = Some (segment_of sample_conn (tcp_sockets info' ! 0) UIP_TCP_FLAG_ACK [])"
proof -
  have p: "length sample_data = 57" "\<not> uip_tcp_is_syn sample_data" "\<not> uip_tcp_is_fin sample_data" "unat (uip_tcp_payloadlen sample_data) = 3" "uip_tcp_payload sample_data = 54"
      "field 54 3 sample_data = [97, 98, 99]" "tcp_match (ld32 26 sample_data) (ld32 30 sample_data) (ld16 34 sample_data) (ld16 36 sample_data) sample_tsk"
    by code_simp+
  have f: "uip_tcp_socket_find sample_conn (ld32 26 sample_data) (ld32 30 sample_data) (ld16 34 sample_data) (ld16 36 sample_data) = Some 0"
    using p(7) by (simp add: uip_tcp_socket_find_def sample_conn_pool(4))
  have e: "arg_eth (sample_arg sample_data) = sample_data" "env_write sample_env = 3" "\<not> write_done sample_tsk" "t_fd sample_tsk = 9" "ack_server sample_tsk = 8"
    by (simp_all add: sample_arg_def sample_env_def sample_tsk_def)
  show ?thesis
    using tcp_data_forwarded [OF sample_conn_pool(1-3), of "sample_arg sample_data" 0 3 sample_env, unfolded e(1) p(5) sample_conn_pool(4), OF _ p(2,3) f p(4)] e p(1,6) by auto
qed

text \<open>Leaving with an open connection waits for a lock that the caller holds.\<close>

lemma uip_tcp_exit_deadlocks: "tcp_sockets info \<noteq> [] \<Longrightarrow> uip_tcp_exit info = Waits"
  by (cases "tcp_sockets info")
    (simp_all add: uip_tcp_exit_def uip_tcp_socket_free_def uip_tcp_socket_close_def upd_tcp_def log_event_def)

lemma uip_tcp_payload_send_sockets:
  "uip_tcp_payload_send k flag bs info = Done info' \<Longrightarrow>
     tcp_sockets info' = (tcp_sockets info)[k := (tcp_sockets info ! k)\<lparr>seq_server := seq_server (tcp_sockets info ! k) + of_nat (length bs)\<rparr>]"
  by (auto simp: uip_tcp_payload_send_def bind_run_Done uip_buf_get_free_def uip_buf_set_used_def split: if_splits option.splits)

text \<open>A connection that the guest closes first stays in the list after the server has closed too, and its descriptor is not closed.\<close>

lemma tcp_guest_close_first_leaks:
  assumes "tcp_thread_out k info = Done info'" "k < length (tcp_sockets info)" "\<not> read_done (tcp_sockets info ! k)" "write_done (tcp_sockets info ! k)"
  shows "length (tcp_sockets info') = length (tcp_sockets info) \<and> write_done (tcp_sockets info' ! k) \<and> read_done (tcp_sockets info' ! k)"
  using assms by (auto simp: tcp_thread_out_def bind_run_Done uip_tcp_socket_close_def log_event_def dest!: uip_tcp_payload_send_sockets)

end
