(* ===== verification/UipCore.thy ===== *)
theory UipCore
  imports UipDhcp UipTcp Iovec
begin

text \<open>
  The user-mode network: entry points (\<^verbatim>\<open>net/uip/core.c\<close>, \<^verbatim>\<open>net/uip/ipv4.c\<close>). The buffers of a request are
  in host memory; all of a packet is read before it is examined.
\<close>

section \<open>Packets from the guest\<close>

definition uip_tx_do_ipv4 :: "net_env \<Rightarrow> uip_tx_arg \<Rightarrow> uip_info \<Rightarrow> (uip_info \<times> int) run" where
  "uip_tx_do_ipv4 env arg info =
     (let ip = arg_eth arg
      in need (ip_vhl + 1) ip (
           if uip_ip_hdrlen ip \<noteq> 20 then Done (info, -1)
           else need (ip_proto + 1) ip (
             if ld8 ip_proto ip = UIP_IP_P_ICMP then bind_run (uip_tx_do_ipv4_icmp arg info) (\<lambda>info. Done (info, 0))
             else if ld8 ip_proto ip = UIP_IP_P_TCP then bind_run (uip_tx_do_ipv4_tcp env arg info) (\<lambda>(info, _). Done (info, 0))
             else if ld8 ip_proto ip = UIP_IP_P_UDP then bind_run (uip_tx_do_ipv4_udp env arg info) (\<lambda>(info, _). Done (info, 0))
             else Done (info, 0))))"

text \<open>A length as an \<^verbatim>\<open>int\<close>.\<close>

definition to_int :: "nat \<Rightarrow> int" where
  "to_int n = sint (of_nat n :: u32)"

fun read_iovs :: "hmem \<Rightarrow> iovec list \<Rightarrow> u8 list run" where
  "read_iovs m [] = Done []"
| "read_iovs m (v # iov) = bind_run (lift_run (mem_read m (iov_base v) (unat (iov_len v)))) (\<lambda>bs. bind_run (read_iovs m iov) (\<lambda>bs'. Done (bs @ bs')))"

text \<open>
  The Ethernet frame and its length: in place when it is in one buffer, in a linear copy otherwise. \<open>Done None\<close> when the copy
  cannot be allocated.
\<close>

definition tx_frame :: "net_env \<Rightarrow> hmem \<Rightarrow> iovec list \<Rightarrow> nat \<Rightarrow> (u8 list \<times> int) option run" where
  "tx_frame env m iov out =
     (if 2 < out then
        (let total = sum_list (map (\<lambda>v. unat (iov_len v)) (take (out - 1) (drop 1 iov)))
         in if length iov < out then Faults
            else if env_oom env \<or> to_int total < 0 then Done None
            else if to_int total < int total then Faults
            else bind_run (read_iovs m (take (out - 1) (drop 1 iov))) (\<lambda>bs. Done (Some (bs, to_int total))))
      else bind_run (read_iovs m [iov ! 1]) (\<lambda>bs. Done (Some (bs, to_int (unat (iov_len (iov ! 1)))))))"

definition tx_dispatch :: "net_env \<Rightarrow> uip_tx_arg \<Rightarrow> uip_info \<Rightarrow> uip_info run" where
  "tx_dispatch env arg info =
     need sizeof_eth (arg_eth arg) (
       let proto = htons (ld16 eth_type (arg_eth arg))
       in if proto = UIP_ETH_P_ARP then uip_tx_do_arp arg info
          else if proto = UIP_ETH_P_IP then bind_run (uip_tx_do_ipv4 env arg info) (\<lambda>(info, _). Done info)
          else Done info)"

definition uip_tx :: "net_env \<Rightarrow> hmem \<Rightarrow> iovec list \<Rightarrow> nat \<Rightarrow> uip_info \<Rightarrow> (uip_info \<times> int) run" where
  "uip_tx env m iov out info =
     (if length iov < 2 then Faults
      else bind_run (read_iovs m [iov ! 0]) (\<lambda>hdr.
        bind_run (tx_frame env m iov out) (\<lambda>fr.
          case fr of
            None \<Rightarrow> Done (info, -ENOMEM)
          | Some (p, plen) \<Rightarrow>
              let hlen = to_int (unat (iov_len (iov ! 0)))
              in bind_run (tx_dispatch env \<lparr>arg_vnet = hdr, arg_eth = p, arg_vnet_len = hlen, arg_eth_len = plen\<rparr> info) (\<lambda>info.
                   Done (info, hlen + plen)))))"

section \<open>Packets for the guest\<close>

definition uip_rx :: "hmem \<Rightarrow> iovec list \<Rightarrow> uip_info \<Rightarrow> (uip_info \<times> hmem \<times> int) run" where
  "uip_rx m iov info =
     bind_run (uip_buf_get_used info) (\<lambda>(info, r).
       case r of
         None \<Rightarrow> Faults
       | Some i \<Rightarrow>
           let buf = buf_head info ! i
           in bind_run (lift_run (memcpy_toiovecend iov (vnet buf) 0 (vnet_len buf) m)) (\<lambda>m.
              bind_run (lift_run (memcpy_toiovecend iov (eth buf) (word_of_int (vnet_len buf)) (eth_len buf) m)) (\<lambda>m.
                Done (uip_buf_set_free i info, m, vnet_len buf + eth_len buf))))"

section \<open>Exit\<close>

definition uip_udp_exit :: "uip_info \<Rightarrow> uip_info" where
  "uip_udp_exit info =
     (let info = info\<lparr>udp_thread := False\<rparr>;
          info = (if 0 < udp_epollfd info then (log_event (CloseFd (udp_epollfd info)) info)\<lparr>udp_epollfd := 0\<rparr> else info)
      in fold (\<lambda>sk. log_event (CloseFd (u_fd sk))) (udp_sockets info) info)"

definition uip_dhcp_exit :: "uip_info \<Rightarrow> uip_info" where
  "uip_dhcp_exit info = info\<lparr>domain_name := None\<rparr>"

definition uip_exit :: "uip_info \<Rightarrow> uip_info run" where
  "uip_exit info = bind_run (uip_tcp_exit (uip_udp_exit info)) (\<lambda>info. Done (uip_static_init (uip_dhcp_exit info)))"

section \<open>Requests in memory\<close>

definition tx_request :: "hmem \<Rightarrow> iovec list \<Rightarrow> uip_tx_arg" where
  "tx_request m iov = \<lparr>arg_vnet = get_bytes (iov_span [hd iov]) m, arg_eth = get_bytes (iov_span (tl iov)) m,
     arg_vnet_len = int (length (iov_span [hd iov])), arg_eth_len = int (length (iov_span (tl iov)))\<rparr>"

lemma read_iovs_ok: "mapped m (iov_span iov) \<Longrightarrow> read_iovs m iov = Done (get_bytes (iov_span iov) m)"
  by (induction iov) (simp_all add: mem_read_def rd_at_mapped get_bytes_def)

lemma to_int_small: "n < 2 ^ 31 \<Longrightarrow> to_int n = int n"
proof -
  assume "n < 2 ^ 31"
  then have "signed_take_bit 31 (int n) = int n"
    by (intro signed_take_bit_int_eq_self) simp_all
  moreover have "(of_nat n :: u32) = word_of_int (int n)"
    by simp
  ultimately show ?thesis
    unfolding to_int_def by (simp only: sint_sbintrunc') simp
qed

lemma sum_iov_len: "sum_list (map (\<lambda>v. unat (iov_len v)) iov) = length (iov_span iov)"
  by (induction iov) simp_all

lemma uip_tx_dispatch:
  assumes "2 \<le> length iov" "mapped m (iov_span iov)" "length (iov_span iov) < 2 ^ 31" "\<not> env_oom env"
  shows "uip_tx env m iov (length iov) info = bind_run (tx_dispatch env (tx_request m iov) info) (\<lambda>info. Done (info, int (length (iov_span iov))))"
proof -
  obtain v w vs where iov: "iov = v # w # vs"
    using assms(1) by (metis One_nat_def Suc_1 Suc_le_length_iff)
  have m: "mapped m (iov_span [v])" "mapped m (iov_span (w # vs))"
    using assms(2) by (simp_all add: iov)
  have l: "length (iov_span [v]) < 2 ^ 31" "length (iov_span (w # vs)) < 2 ^ 31"
    using assms(3) by (simp_all add: iov)
  have "tx_frame env m iov (length iov) = Done (Some (get_bytes (iov_span (w # vs)) m, int (length (iov_span (w # vs)))))"
  proof (cases vs)
    case Nil
    then show ?thesis
      using read_iovs_ok [OF m(2)] l(2) by (simp add: tx_frame_def iov to_int_small del: read_iovs.simps iov_span_simps) (simp add: to_int_small)
  next
    case (Cons u us)
    then show ?thesis
      using read_iovs_ok [OF m(2)] l(2) assms(4) sum_iov_len [of "w # vs"]
      by (simp add: tx_frame_def iov to_int_small Let_def del: read_iovs.simps iov_span_simps sum_list.Cons list.map)
  qed
  moreover have "to_int (unat (iov_len v)) = int (length (iov_span [v]))"
    using l(1) by (simp add: to_int_small)
  ultimately show ?thesis
    using read_iovs_ok [OF m(1)] unfolding uip_tx_def tx_request_def iov
    by (simp del: read_iovs.simps) (simp add: Let_def)
qed

section \<open>Handing a frame to the guest\<close>

lemma memcpy_toiovecend_take:
  "n \<le> length kdata \<Longrightarrow> memcpy_toiovecend iov kdata offset (int n) m = memcpy_toiovecend iov (take n kdata) offset (int n) m"
proof (induction iov arbitrary: n kdata offset m)
  case (Cons v iov)
  let ?c = "min_u32 (iov_len v - offset) (int n)"
  have c: "?c \<le> n"
    by (auto simp: min_u32_def min_def word_le_nat_alt unat_of_nat intro: order_trans [OF _ mod_less_eq_dividend])
  have "memcpy_toiovecend iov (drop ?c kdata) 0 (int n - int ?c) = memcpy_toiovecend iov (drop ?c (take n kdata)) 0 (int n - int ?c)"
    using Cons.IH [of "n - ?c" "drop ?c kdata" 0] Cons.prems c by (simp add: fun_eq_iff drop_take of_nat_diff)
  then show ?case
    using Cons.IH [OF Cons.prems, of "offset - iov_len v" m] Cons.prems c by (simp add: memcpy_toiovecend.simps [of "v # iov"] Let_def min_def)
qed (simp add: memcpy_toiovecend.simps)

lemma first_status_only: "i < length bs \<Longrightarrow> status (bs ! i) = s \<Longrightarrow> \<forall>j < i. status (bs ! j) \<noteq> s \<Longrightarrow> first_status s bs = Some i"
proof (induction bs arbitrary: i)
  case (Cons b bs)
  show ?case
  proof (cases i)
    case 0
    then show ?thesis using Cons.prems by simp
  next
    case (Suc j)
    then have "status b \<noteq> s" "\<forall>k < j. status (bs ! k) \<noteq> s"
      using Cons.prems(3) by (force simp: nth_Cons split: nat.splits)+
    then show ?thesis
      using Cons.IH [of j] Cons.prems Suc by simp
  qed
qed simp

definition rx_room :: "hmem \<Rightarrow> iovec list \<Rightarrow> nat \<Rightarrow> bool" where
  "rx_room m iov n \<longleftrightarrow> iov_ok iov \<and> n < 2 ^ 31 \<and> n \<le> length (iov_span iov) \<and> mapped m (iov_span iov)"

lemma uip_rx_delivered:
  assumes "delivers (h, f) info info'" "pool_inv held info" "buf_used_nr info = 0" "rx_room m iov (length h + length f)"
  obtains info2 where "uip_rx m iov info' = Done (info2, put_bytes (take (length h + length f) (iov_span iov)) (h @ f) m, int (length h + length f))"
    "pool_inv held info2" "buf_free_nr info2 = buf_free_nr info" "buf_used_nr info2 = 0"
proof -
  obtain i b where d: "first_status UIP_BUF_STATUS_FREE (buf_head info) = Some i" "status b = UIP_BUF_STATUS_USED" "lens_ok b" "frame_of b = (h, f)"
      "info' = info\<lparr>buf_free_nr := buf_free_nr info - 1, buf_head := (buf_head info)[i := b], buf_used_nr := buf_used_nr info + 1\<rparr>"
    using assms(1) by (auto simp: delivers_def)
  have i: "i < length (buf_head info)"
    using first_status_Some [OF d(1)] by simp
  have inv': "pool_inv held info'"
    using delivers_inv [OF assms(1,2)] .
  have "\<forall>c \<in> set (buf_head info). status c \<noteq> UIP_BUF_STATUS_USED"
    using assms(2,3) by (auto simp: pool_inv_def count_status_def filter_empty_conv)
  then have first: "first_status UIP_BUF_STATUS_USED (buf_head info') = Some i"
    using i d(2) by (intro first_status_only) (auto simp: d(5))
  have i': "i < length (buf_head info')" "status (buf_head info' ! i) = UIP_BUF_STATUS_USED"
    using first_status_Some [OF first] by auto
  define gotten where "gotten = info'\<lparr>buf_head := set_status i UIP_BUF_STATUS_INUSE (buf_head info'), buf_used_nr := buf_used_nr info' - 1\<rparr>"
  have got: "uip_buf_get_used info' = Done (gotten, Some i)"
    by (simp add: get_used_cases [OF inv'] first gotten_def)
  have b: "vnet (buf_head gotten ! i) = vnet b" "eth (buf_head gotten ! i) = eth b" "vnet_len (buf_head gotten ! i) = vnet_len b" "eth_len (buf_head gotten ! i) = eth_len b"
    using i by (simp_all add: gotten_def d(5) set_status_def)
  have l: "vnet_len b = int (length h)" "eth_len b = int (length f)" "take (length h) (vnet b) = h" "take (length f) (eth b) = f" "length h \<le> length (vnet b)" "length f \<le> length (eth b)"
    using d(3,4) by (auto simp: lens_ok_def frame_of_def)
  let ?s = "iov_span iov"
  have room: "iov_ok iov" "length h < 2 ^ 31" "length f < 2 ^ 31" "length h + length f \<le> length ?s" "mapped m ?s"
    using assms(4) by (auto simp: rx_room_def)
  have off: "unat (word_of_int (vnet_len b) :: u64) = length h"
    using room(2) l(1) by (simp add: unat_of_nat)
  have "memcpy_toiovecend iov (vnet b) 0 (vnet_len b) m = Ret (put_bytes (take (length h) ?s) h m)"
    using memcpy_toiovecend_take [OF l(5), of iov 0 m] memcpy_toiovecend_ok [OF room(1,2), of 0 m] room l by (simp add: mapped_take_drop)
  moreover have "memcpy_toiovecend iov (eth b) (word_of_int (vnet_len b)) (eth_len b) (put_bytes (take (length h) ?s) h m) =
      Ret (put_bytes (take (length f) (drop (length h) ?s)) f (put_bytes (take (length h) ?s) h m))"
    using memcpy_toiovecend_take [OF l(6), of iov "word_of_int (vnet_len b)" "put_bytes (take (length h) ?s) h m"]
      memcpy_toiovecend_ok [OF room(1,3), of "word_of_int (vnet_len b)" "put_bytes (take (length h) ?s) h m"] room l off by (simp add: mapped_take_drop)
  moreover have "put_bytes (take (length f) (drop (length h) ?s)) f (put_bytes (take (length h) ?s) h m) = put_bytes (take (length h + length f) ?s) (h @ f) m"
    using room(4) put_bytes_append [of "take (length h) ?s" h "take (length f) (drop (length h) ?s)" f m] by (simp add: take_add)
  ultimately have run: "uip_rx m iov info' = Done (uip_buf_set_free i gotten, put_bytes (take (length h + length f) ?s) (h @ f) m, int (length h + length f))"
    using l(1,2) unfolding uip_rx_def got by (simp add: b Let_def)
  have "i \<notin> held"
    using inv' i' by (auto simp: pool_inv_def inuse_def)
  moreover have "pool_inv (insert i held - {i}) (uip_buf_set_free i gotten)"
    unfolding gotten_def by (rule pool_inv_give(2) [OF pool_inv_take(2) [OF inv' i']]) simp
  ultimately have "pool_inv held (uip_buf_set_free i gotten)"
    by simp
  then show ?thesis
    using that [OF run] assms(3) by (simp add: gotten_def d(5) uip_buf_set_free_def)
qed

section \<open>Questions and answers\<close>

text \<open>
  What a protocol promises to its client, the guest: packets that are \<open>ready\<close> are answered with one frame, related to the packet by \<open>reply\<close>.
  The exchange through the two queues, and the return of the buffer, follow for every protocol.
\<close>

definition net_idle :: "nat set \<Rightarrow> uip_info \<Rightarrow> bool" where
  "net_idle held info \<longleftrightarrow> pool_inv held info \<and> macs_ok info \<and> 0 < buf_free_nr info \<and> buf_used_nr info = 0"

definition tx_ready :: "net_env \<Rightarrow> hmem \<Rightarrow> iovec list \<Rightarrow> uip_info \<Rightarrow> bool" where
  "tx_ready env m iov info \<longleftrightarrow> 2 \<le> length iov \<and> mapped m (iov_span iov) \<and> length (iov_span iov) < 2 ^ 31 \<and> \<not> env_oom env \<and> arg_ok info (tx_request m iov)"

text \<open>The guest's next receive request gets these bytes, whatever its buffers, and the network is then as idle as before.\<close>

definition received :: "nat set \<Rightarrow> uip_info \<Rightarrow> uip_info \<Rightarrow> u8 list \<Rightarrow> bool" where
  "received held info info1 bs \<longleftrightarrow>
     (\<forall>m iov. rx_room m iov (length bs) \<longrightarrow>
        (\<exists>info2. uip_rx m iov info1 = Done (info2, put_bytes (take (length bs) (iov_span iov)) bs m, int (length bs)) \<and>
           pool_inv held info2 \<and> buf_free_nr info2 = buf_free_nr info \<and> buf_used_nr info2 = 0))"

locale answering =
  fixes ready :: "uip_info \<Rightarrow> u8 list \<Rightarrow> bool"
    and reply :: "uip_info \<Rightarrow> uip_tx_arg \<Rightarrow> u8 list \<Rightarrow> u8 list \<Rightarrow> bool"
  assumes answers: "pool_inv held info \<Longrightarrow> macs_ok info \<Longrightarrow> 0 < buf_free_nr info \<Longrightarrow> arg_ok info arg \<Longrightarrow> ready info (arg_eth arg) \<Longrightarrow>
    \<exists>info' h f. tx_dispatch env arg info = Done info' \<and> delivers (h, f) info info' \<and> reply info arg h f"
begin

lemma exchange:
  assumes "net_idle held info" "tx_ready env m iov info" "ready info (arg_eth (tx_request m iov))"
  shows "\<exists>info1 h f. uip_tx env m iov (length iov) info = Done (info1, int (length (iov_span iov))) \<and>
    reply info (tx_request m iov) h f \<and> received held info info1 (h @ f)"
proof -
  have idle: "pool_inv held info" "macs_ok info" "0 < buf_free_nr info" "buf_used_nr info = 0"
    using assms(1) by (auto simp: net_idle_def)
  have tx: "2 \<le> length iov" "mapped m (iov_span iov)" "length (iov_span iov) < 2 ^ 31" "\<not> env_oom env" "arg_ok info (tx_request m iov)"
    using assms(2) by (auto simp: tx_ready_def)
  obtain info1 h f where a: "tx_dispatch env (tx_request m iov) info = Done info1" "delivers (h, f) info info1" "reply info (tx_request m iov) h f"
    using answers [OF idle(1-3) tx(5) assms(3)] by blast
  have "uip_tx env m iov (length iov) info = Done (info1, int (length (iov_span iov)))"
    using uip_tx_dispatch [OF tx(1-4)] a(1) by simp
  moreover have "received held info info1 (h @ f)"
    unfolding received_def using uip_rx_delivered [OF a(2) idle(1,4)] by (metis length_append)
  ultimately show ?thesis
    using a(3) by blast
qed

end

definition arp_ready :: "uip_info \<Rightarrow> u8 list \<Rightarrow> bool" where
  "arp_ready info p \<longleftrightarrow> 42 \<le> length p \<and> htons (ld16 12 p) = 0x0806 \<and> ld32 38 p = htonl (host_ip info)"

definition icmp_ready :: "uip_info \<Rightarrow> u8 list \<Rightarrow> bool" where
  "icmp_ready info p \<longleftrightarrow> htons (ld16 12 p) = 0x0800 \<and> uip_ip_hdrlen p = 20 \<and> ld8 23 p = 1 \<and>
     (let t = unat (uip_ip_len p) in 32 \<le> t \<and> even t \<and> 14 + t \<le> length p)"

definition dhcp_ready :: "uip_info \<Rightarrow> u8 list \<Rightarrow> bool" where
  "dhcp_ready info p \<longleftrightarrow> 285 \<le> length p \<and> htons (ld16 12 p) = 0x0800 \<and> uip_ip_hdrlen p = 20 \<and> ld8 23 p = 17 \<and>
     htons (ld16 34 p) = 68 \<and> htons (ld16 36 p) = 67 \<and> htonl (ld32 278 p) = 0x63825363 \<and>
     (case dhcp_reply_type p of None \<Rightarrow> False | Some t \<Rightarrow> length (uip_dhcp_fill_option info t) \<le> 308) \<and>
     (case domain_name info of None \<Rightarrow> True | Some s \<Rightarrow> length s < 256)"

interpretation arp: answering arp_ready "\<lambda>info arg h f. h = reply_vnet arg \<and> f = arp_reply info (arg_eth arg)"
proof
  fix held info arg env
  assume "pool_inv held info" "macs_ok info" "0 < buf_free_nr info" "arg_ok info arg" "arp_ready info (arg_eth arg)"
  then show "\<exists>info' h f. tx_dispatch env arg info = Done info' \<and> delivers (h, f) info info' \<and> h = reply_vnet arg \<and> f = arp_reply info (arg_eth arg)"
    using arp_reply_ok [of held info arg] by (auto simp: arp_ready_def tx_dispatch_def UIP_ETH_P_ARP_def)
qed

interpretation icmp: answering icmp_ready "\<lambda>info arg h f. h = reply_vnet arg \<and> icmp_reply info (arg_eth arg) f"
proof
  fix held info arg env
  assume *: "pool_inv held info" "macs_ok info" "0 < buf_free_nr info" "arg_ok info arg" "icmp_ready info (arg_eth arg)"
  then obtain info' f where r: "uip_tx_do_ipv4_icmp arg info = Done info'" "delivers (reply_vnet arg, f) info info'" "icmp_reply info (arg_eth arg) f"
    using icmp_reply_ok [of held info arg] by (auto simp: icmp_ready_def Let_def)
  then have "tx_dispatch env arg info = Done info'"
    using *(5) by (simp add: icmp_ready_def Let_def tx_dispatch_def uip_tx_do_ipv4_def uip_constants)
  then show "\<exists>info' h f. tx_dispatch env arg info = Done info' \<and> delivers (h, f) info info' \<and> h = reply_vnet arg \<and> icmp_reply info (arg_eth arg) f"
    using r by blast
qed

interpretation dhcp: answering dhcp_ready
  "\<lambda>info arg h f. h = replicate (vnet_hdr_len info) 0 \<and> dhcp_reply info (arg_eth arg) (the (dhcp_reply_type (arg_eth arg))) f"
proof
  fix held info arg env
  assume *: "pool_inv held info" "macs_ok info" "0 < buf_free_nr info" "arg_ok info arg" "dhcp_ready info (arg_eth arg)"
  then obtain t where t: "dhcp_reply_type (arg_eth arg) = Some t" "length (uip_dhcp_fill_option info t) \<le> 308"
    by (auto simp: dhcp_ready_def split: option.splits)
  obtain info' f where r: "uip_tx_do_ipv4_udp_dhcp arg info = Done (info', 0)" "delivers (replicate (vnet_hdr_len info) 0, f) info info'" "dhcp_reply info (arg_eth arg) t f"
    using dhcp_reply_ok [OF *(1,4,2,3) _ t] *(5) by (auto simp: dhcp_ready_def split: option.splits)
  then have "tx_dispatch env arg info = Done info'"
    using *(5) by (simp add: dhcp_ready_def tx_dispatch_def uip_tx_do_ipv4_def uip_tx_do_ipv4_udp_def uip_udp_is_dhcp_def uip_constants)
  then show "\<exists>info' h f. tx_dispatch env arg info = Done info' \<and> delivers (h, f) info info' \<and> h = replicate (vnet_hdr_len info) 0 \<and>
      dhcp_reply info (arg_eth arg) (the (dhcp_reply_type (arg_eth arg))) f"
    using r t(1) by auto
qed

section \<open>Exchanges\<close>

text \<open>
  ARP, from the guest's transmit request to its receive request. A request for the address of the host, in any buffers, is answered with the host's
  hardware address: the next receive request gets the packet with sender and target exchanged, complete and in any buffers, and
  every buffer of the network is free again.
\<close>

theorem arp_exchange:
  assumes "net_idle held info" "tx_ready env m iov info" "arp_ready info (arg_eth (tx_request m iov))"
  shows "\<exists>info1. uip_tx env m iov (length iov) info = Done (info1, int (length (iov_span iov))) \<and>
    received held info info1 (reply_vnet (tx_request m iov) @ arp_reply info (arg_eth (tx_request m iov)))"
  using arp.exchange [OF assms] by blast

text \<open>
  ICMP. An echo request is answered in the same way with the packet, addresses exchanged and marked as a reply, with a valid header
  checksum; the checksum of the message leaves out its last eight bytes and is right exactly when these do not contribute.
\<close>

theorem icmp_exchange:
  assumes "net_idle held info" "tx_ready env m iov info" "icmp_ready info (arg_eth (tx_request m iov))"
  shows "\<exists>info1 f. uip_tx env m iov (length iov) info = Done (info1, int (length (iov_span iov))) \<and>
    received held info info1 (reply_vnet (tx_request m iov) @ f) \<and> icmp_reply info (arg_eth (tx_request m iov)) f"
  using icmp.exchange [OF assms] by blast

text \<open>
  C17: DHCP. A discovery is answered with an offer and a request with an acknowledgement, in a frame the guest accepts: from the server's port to
  the client's, with the transaction of the request, the guest's configured address, and options that parse to the message type, the
  server, the lease time, the netmask, the router, and the domain and name servers of the host.
\<close>

theorem dhcp_exchange:
  assumes "net_idle held info" "tx_ready env m iov info" "dhcp_ready info (arg_eth (tx_request m iov))"
  shows "\<exists>info1 f. uip_tx env m iov (length iov) info = Done (info1, int (length (iov_span iov))) \<and>
    received held info info1 (replicate (vnet_hdr_len info) 0 @ f) \<and>
    dhcp_reply info (arg_eth (tx_request m iov)) (the (dhcp_reply_type (arg_eth (tx_request m iov)))) f"
  using dhcp.exchange [OF assms] by blast

section \<open>Sample packets\<close>

definition sample_mem :: "u8 list \<Rightarrow> hmem" where
  "sample_mem p = put_bytes (span 0x10000 (length p)) p (\<lambda>_. Some 0)"

definition sample_iov :: "u8 list \<Rightarrow> iovec list" where
  "sample_iov p = [\<lparr>iov_base = 0x100, iov_len = 10\<rparr>, \<lparr>iov_base = 0x10000, iov_len = of_nat (length p)\<rparr>]"

lemma sample_request:
  assumes "14 \<le> length p" "length p < 2 ^ 16"
  shows "arg_eth (tx_request (sample_mem p) (sample_iov p)) = p" "tx_ready sample_env (sample_mem p) (sample_iov p) sample_net"
proof -
  have l: "unat (of_nat (length p) :: u64) = length p"
    using assms by (simp add: unat_of_nat)
  have "distinct (span 0x10000 (length p))"
    by (rule distinct_span) (use assms in simp)
  then have p: "get_bytes (span 0x10000 (length p)) (sample_mem p) = p"
    by (simp add: sample_mem_def get_put_same)
  show e: "arg_eth (tx_request (sample_mem p) (sample_iov p)) = p"
    using p l by (simp add: tx_request_def sample_iov_def)
  show "tx_ready sample_env (sample_mem p) (sample_iov p) sample_net"
    using assms l by (simp add: tx_ready_def sample_iov_def sample_env_def arg_ok_def tx_request_def sample_mem_def sample_net_def sample_info_def UIP_ETH_BUF_LEN_def)
qed

lemma sample_lens: "length (sample_iov p) = 2" "length p < 2 ^ 16 \<Longrightarrow> length (iov_span (sample_iov p)) = 10 + length p"
  by (simp_all add: sample_iov_def unat_of_nat)

lemma sample_idle: "net_idle {} sample_net"
  using uip_init_inv [OF sample_init] by (simp add: net_idle_def macs_ok_def sample_net_def sample_info_def)

definition sample_arp :: "u8 list" where
  "sample_arp = replicate 6 0xFF @ [2, 0, 0, 0, 0, 1, 8, 6, 0, 1, 8, 0, 6, 4, 0, 1, 2, 0, 0, 0, 0, 1, 192, 168, 33, 15, 0, 0, 0, 0, 0, 0, 192, 168, 33, 1]"

theorem arp_exchange_witness:
  "\<exists>info1. uip_tx sample_env (sample_mem sample_arp) (sample_iov sample_arp) 2 sample_net = Done (info1, 52) \<and>
    received {} sample_net info1 (reply_vnet (tx_request (sample_mem sample_arp) (sample_iov sample_arp)) @ arp_reply sample_net sample_arp)"
proof -
  have l: "length sample_arp = 42"
    by (simp add: sample_arp_def)
  have "arp_ready sample_net sample_arp"
    unfolding arp_ready_def l by (simp add: sample_net_def sample_info_def) (code_simp)
  then show ?thesis
    using arp_exchange [OF sample_idle sample_request(2), of sample_arp] sample_request(1) [of sample_arp] l by (simp add: sample_lens)
qed

definition sample_icmp :: "u8 list" where
  "sample_icmp = [2, 0, 0, 0, 0, 2, 2, 0, 0, 0, 0, 1, 8, 0, 0x45, 0, 0, 32, 0, 0, 0, 0, 64, 1, 0, 0, 192, 168, 33, 15, 192, 168, 33, 1, 8, 0, 0, 0, 0, 1, 0, 1, 1, 2, 3, 4]"

theorem icmp_exchange_witness:
  "\<exists>info1 f. uip_tx sample_env (sample_mem sample_icmp) (sample_iov sample_icmp) 2 sample_net = Done (info1, 56) \<and>
    received {} sample_net info1 (reply_vnet (tx_request (sample_mem sample_icmp) (sample_iov sample_icmp)) @ f) \<and> icmp_reply sample_net sample_icmp f"
proof -
  have l: "length sample_icmp = 46"
    by (simp add: sample_icmp_def)
  have "htons (ld16 12 sample_icmp) = 0x0800" "uip_ip_hdrlen sample_icmp = 20" "ld8 23 sample_icmp = 1" "uip_ip_len sample_icmp = 32"
    by code_simp+
  then have "icmp_ready sample_net sample_icmp"
    by (simp add: icmp_ready_def l)
  then show ?thesis
    using icmp_exchange [OF sample_idle sample_request(2), of sample_icmp] sample_request(1) [of sample_icmp] l by (simp add: sample_lens)
qed

definition sample_dhcp :: "u8 list" where
  "sample_dhcp = replicate 12 0 @ [8, 0, 0x45] @ replicate 8 0 @ [17] @ replicate 10 0 @ [0, 68, 0, 67] @ replicate 8 0 @ [1, 2, 3, 4] @ replicate 228 0 @ [0x63, 0x82, 0x53, 0x63, 53, 1, 1]"

theorem dhcp_exchange_witness:
  "\<exists>info1 f. uip_tx sample_env (sample_mem sample_dhcp) (sample_iov sample_dhcp) 2 sample_net = Done (info1, 295) \<and>
    received {} sample_net info1 (replicate (vnet_hdr_len sample_net) 0 @ f) \<and> dhcp_reply sample_net sample_dhcp 2 f"
proof -
  have l: "length sample_dhcp = 285"
    by (simp add: sample_dhcp_def)
  have "htons (ld16 12 sample_dhcp) = 0x0800" "uip_ip_hdrlen sample_dhcp = 20" "ld8 23 sample_dhcp = 17" "htons (ld16 34 sample_dhcp) = 68" "htons (ld16 36 sample_dhcp) = 67"
      "htonl (ld32 278 sample_dhcp) = 0x63825363" and t: "dhcp_reply_type sample_dhcp = Some 2"
    by code_simp+
  moreover have "length (uip_dhcp_fill_option sample_net 2) \<le> 308"
    by (simp add: uip_dhcp_fill_option_def uip_dhcp_fill_option_name_and_server_def dns_options_def UIP_DHCP_MAX_DNS_SERVER_NR_def sample_net_def sample_info_def)
  ultimately have "dhcp_ready sample_net sample_dhcp"
    by (simp add: dhcp_ready_def l) (simp add: sample_net_def sample_info_def)
  then show ?thesis
    using dhcp_exchange [OF sample_idle sample_request(2), of sample_dhcp] sample_request(1) [of sample_dhcp] l t by (simp add: sample_lens)
qed

end
