(* ===== verification/Threadpool.thy ===== *)
theory Threadpool
  imports Prelude
begin

text \<open>
  The thread pool (\<^verbatim>\<open>util/threadpool.c\<close>) that runs the virtqueue handlers of the devices.

  Every thread has a position in the code of the pool; a step takes one thread from one position to the next. What is between a
  \<^verbatim>\<open>mutex_lock(&job_mutex)\<close> and its unlock is one step. The mutex of a job is a flag, since it is held across two such
  sections. A position inside \<^verbatim>\<open>pthread_cond_wait\<close> is left when the condition is signalled, or spuriously. Jobs and threads
  are numbers. The counters \<open>notified\<close>, \<open>served\<close> and \<open>cancelled\<close> are not in the code: they count the calls of \<^verbatim>\<open>thread_pool__do_job\<close> for a
  job, the callbacks that have returned, and the signals that a cancellation dropped.
\<close>

section \<open>State\<close>

datatype position =
    Outside                     \<comment> \<open>not in the pool\<close>
  | DoPush nat                  \<comment> \<open>\<^verbatim>\<open>do_job\<close>: the count was 0, the mutex of the job is held, the job is not queued yet\<close>
  | DoSignal                    \<comment> \<open>\<^verbatim>\<open>do_job\<close>: before the signal\<close>
  | WPop                        \<comment> \<open>\<^verbatim>\<open>threadfunc\<close>: before the inner loop looks at the queue\<close>
  | WWait                       \<comment> \<open>\<^verbatim>\<open>threadfunc\<close>: in \<^verbatim>\<open>pthread_cond_wait\<close>\<close>
  | WGot nat                    \<comment> \<open>\<^verbatim>\<open>threadfunc\<close>: has a job, before \<^verbatim>\<open>running\<close> is tested\<close>
  | WRun nat                    \<comment> \<open>\<^verbatim>\<open>handle_job\<close>: in the callback\<close>
  | WDone nat                   \<comment> \<open>\<^verbatim>\<open>handle_job\<close>: the callback has returned\<close>
  | WPush nat                   \<comment> \<open>\<^verbatim>\<open>handle_job\<close>: signalled again, the mutex of the job is held\<close>
  | WNext                       \<comment> \<open>\<^verbatim>\<open>handle_job\<close>: before the next job is taken\<close>
  | WExit                       \<comment> \<open>the thread has ended\<close>

record thread_pool =
  jobs_head :: "nat list"
  signalcount :: "nat \<Rightarrow> int"
  job_locked :: "nat \<Rightarrow> bool"
  has_callback :: "nat \<Rightarrow> bool"
  running :: bool
  threadcount :: nat
  pos :: "nat \<Rightarrow> position"
  notified :: "nat \<Rightarrow> int"
  served :: "nat \<Rightarrow> int"
  cancelled :: "nat \<Rightarrow> int"

definition move :: "nat \<Rightarrow> position \<Rightarrow> thread_pool \<Rightarrow> thread_pool" where
  "move t p s = s\<lparr>pos := (pos s)(t := p)\<rparr>"

section \<open>Operations\<close>

definition thread_pool__job_pop_locked :: "thread_pool \<Rightarrow> thread_pool \<times> nat option" where
  "thread_pool__job_pop_locked s =
     (case jobs_head s of [] \<Rightarrow> (s, None) | j # js \<Rightarrow> (s\<lparr>jobs_head := js\<rparr>, Some j))"

definition thread_pool__job_push_locked :: "nat \<Rightarrow> thread_pool \<Rightarrow> thread_pool" where
  "thread_pool__job_push_locked j s = s\<lparr>jobs_head := jobs_head s @ [j]\<rparr>"

definition thread_pool__init_job :: "nat \<Rightarrow> bool \<Rightarrow> thread_pool \<Rightarrow> thread_pool" where
  "thread_pool__init_job j callback s =
     s\<lparr>signalcount := (signalcount s)(j := 0), job_locked := (job_locked s)(j := False), has_callback := (has_callback s)(j := callback)\<rparr>"

text \<open>\<^verbatim>\<open>thread_pool__do_job\<close>, up to the push or to the end of the section under the mutex of the job; \<open>None\<close> when the mutex is held.\<close>

definition thread_pool__do_job :: "nat \<Rightarrow> nat \<Rightarrow> thread_pool \<Rightarrow> thread_pool option" where
  "thread_pool__do_job t j s =
     (if \<not> has_callback s j then Some s
      else if job_locked s j then None
      else let n = signalcount s j;
               s = s\<lparr>signalcount := (signalcount s)(j := n + 1), notified := (notified s)(j := notified s j + 1)\<rparr>
        in Some (if n = 0 then move t (DoPush j) (s\<lparr>job_locked := (job_locked s)(j := True)\<rparr>) else move t DoSignal s))"

definition do_job_push :: "nat \<Rightarrow> nat \<Rightarrow> thread_pool \<Rightarrow> thread_pool" where
  "do_job_push t j s = move t DoSignal ((thread_pool__job_push_locked j s)\<lparr>job_locked := (job_locked s)(j := False)\<rparr>)"

text \<open>\<open>w\<close> is the waiting thread that the signal wakes, if one waits.\<close>

definition do_job_signal :: "nat \<Rightarrow> nat option \<Rightarrow> thread_pool \<Rightarrow> thread_pool" where
  "do_job_signal t w s = move t Outside (case w of None \<Rightarrow> s | Some w \<Rightarrow> move w WPop s)"

definition thread_pool__threadfunc :: "nat \<Rightarrow> thread_pool \<Rightarrow> thread_pool" where
  "thread_pool__threadfunc t s =
     (if \<not> running s then move t WExit s
      else case thread_pool__job_pop_locked s of
        (s, None) \<Rightarrow> move t WWait s
      | (s, Some j) \<Rightarrow> move t (WGot j) s)"

definition threadfunc_handle :: "nat \<Rightarrow> nat \<Rightarrow> thread_pool \<Rightarrow> thread_pool" where
  "threadfunc_handle t j s = (if running s then move t (WRun j) s else move t WExit s)"

text \<open>The section under the mutex of the job after the callback; \<open>None\<close> when the mutex is held.\<close>

definition thread_pool__handle_job :: "nat \<Rightarrow> nat \<Rightarrow> thread_pool \<Rightarrow> thread_pool option" where
  "thread_pool__handle_job t j s =
     (if job_locked s j then None
      else let n = signalcount s j - 1;
               s = s\<lparr>signalcount := (signalcount s)(j := n), served := (served s)(j := served s j + 1)\<rparr>
        in Some (if 0 < n then move t (WPush j) (s\<lparr>job_locked := (job_locked s)(j := True)\<rparr>) else move t WNext s))"

definition handle_job_push :: "nat \<Rightarrow> nat \<Rightarrow> thread_pool \<Rightarrow> thread_pool" where
  "handle_job_push t j s = move t WNext ((thread_pool__job_push_locked j s)\<lparr>job_locked := (job_locked s)(j := False)\<rparr>)"

definition handle_job_next :: "nat \<Rightarrow> thread_pool \<Rightarrow> thread_pool" where
  "handle_job_next t s =
     (case thread_pool__job_pop_locked s of
        (s, None) \<Rightarrow> move t WPop s
      | (s, Some j) \<Rightarrow> move t (WRun j) s)"

text \<open>One turn of the loop of \<^verbatim>\<open>thread_pool__cancel_job\<close>; the result is its \<^verbatim>\<open>running\<close>.\<close>

definition thread_pool__cancel_job :: "nat \<Rightarrow> thread_pool \<Rightarrow> thread_pool \<times> bool" where
  "thread_pool__cancel_job j s =
     (if j \<notin> set (jobs_head s) then (s, 0 < signalcount s j)
      else (s\<lparr>jobs_head := remove1 j (jobs_head s), signalcount := (signalcount s)(j := 0),
              cancelled := (cancelled s)(j := cancelled s j + signalcount s j)\<rparr>, False))"

text \<open>\<open>oom\<close> and \<open>res\<close> are the results of \<^verbatim>\<open>realloc\<close> and \<^verbatim>\<open>pthread_create\<close>; \<open>t\<close> is the new thread.\<close>

definition thread_pool__addthread :: "bool \<Rightarrow> int \<Rightarrow> nat \<Rightarrow> thread_pool \<Rightarrow> thread_pool \<times> int" where
  "thread_pool__addthread oom res t s =
     (if oom then (s, -1)
      else if res = 0 then (move t WPop (s\<lparr>threadcount := threadcount s + 1\<rparr>), 0)
      else (s, res))"

definition thread_pool__init :: "bool \<Rightarrow> int \<Rightarrow> nat \<Rightarrow> thread_pool \<Rightarrow> thread_pool \<times> int" where
  "thread_pool__init oom res t s =
     (case thread_pool__addthread oom res t (s\<lparr>running := True\<rparr>) of (s, r) \<Rightarrow> (s, if r < 0 then 0 else 1))"

text \<open>\<^verbatim>\<open>thread_pool__exit\<close> up to the signals; \<open>ws\<close> are the threads they wake.\<close>

definition thread_pool__exit :: "nat list \<Rightarrow> thread_pool \<Rightarrow> thread_pool" where
  "thread_pool__exit ws s = fold (\<lambda>w. move w WPop) ws (s\<lparr>running := False\<rparr>)"

text \<open>The child of a fork has only the thread that forked; \<open>t\<close> is the worker it creates.\<close>

definition thread_pool__post_copy :: "bool \<Rightarrow> int \<Rightarrow> nat \<Rightarrow> thread_pool \<Rightarrow> thread_pool \<times> int" where
  "thread_pool__post_copy oom res t s =
     (case thread_pool__addthread oom res t (s\<lparr>pos := \<lambda>_. Outside, threadcount := 0\<rparr>) of (s, r) \<Rightarrow> (s, 0))"

definition thread_pool_empty :: thread_pool where
  "thread_pool_empty = \<lparr>jobs_head = [], signalcount = \<lambda>_. 0, job_locked = \<lambda>_. False, has_callback = \<lambda>_. False, running = False, threadcount = 0,
     pos = \<lambda>_. Outside, notified = \<lambda>_. 0, served = \<lambda>_. 0, cancelled = \<lambda>_. 0\<rparr>"

section \<open>Steps\<close>

text \<open>The steps that the pool takes on its own, once a call is under way.\<close>

inductive pool_internal :: "thread_pool \<Rightarrow> thread_pool \<Rightarrow> bool" where
  push: "pos s t = DoPush j \<Longrightarrow> pool_internal s (do_job_push t j s)"
| signal_none: "pos s t = DoSignal \<Longrightarrow> \<forall>w. pos s w \<noteq> WWait \<Longrightarrow> pool_internal s (do_job_signal t None s)"
| signal_one: "pos s t = DoSignal \<Longrightarrow> pos s w = WWait \<Longrightarrow> pool_internal s (do_job_signal t (Some w) s)"
| take: "pos s t = WPop \<Longrightarrow> pool_internal s (thread_pool__threadfunc t s)"
| handle: "pos s t = WGot j \<Longrightarrow> pool_internal s (threadfunc_handle t j s)"
| return: "pos s t = WRun j \<Longrightarrow> pool_internal s (move t (WDone j) s)"
| finish: "pos s t = WDone j \<Longrightarrow> thread_pool__handle_job t j s = Some s' \<Longrightarrow> pool_internal s s'"
| again: "pos s t = WPush j \<Longrightarrow> pool_internal s (handle_job_push t j s)"
| next_job: "pos s t = WNext \<Longrightarrow> pool_internal s (handle_job_next t s)"

text \<open>All steps: also calls from outside, spurious wake-ups, new threads, and the set-up of a job that nobody uses.\<close>

inductive tp_step :: "thread_pool \<Rightarrow> thread_pool \<Rightarrow> bool" where
  internal: "pool_internal s s' \<Longrightarrow> tp_step s s'"
| notify: "pos s t = Outside \<Longrightarrow> thread_pool__do_job t j s = Some s' \<Longrightarrow> tp_step s s'"
| cancel: "tp_step s (fst (thread_pool__cancel_job j s))"
| spurious: "pos s t = WWait \<Longrightarrow> tp_step s (move t WPop s)"
| add: "pos s t = Outside \<Longrightarrow> tp_step s (fst (thread_pool__addthread oom res t s))"
| set_up: "signalcount s j = 0 \<Longrightarrow> tp_step s (thread_pool__init_job j callback s)"

definition pool_started :: "nat \<Rightarrow> thread_pool" where
  "pool_started t = fst (thread_pool__init False 0 t thread_pool_empty)"

section \<open>Invariant\<close>

text \<open>A pending job is in exactly one place: in the queue, or with one thread.\<close>

fun owns :: "position \<Rightarrow> nat option" where
  "owns (DoPush j) = Some j"
| "owns (WGot j) = Some j"
| "owns (WRun j) = Some j"
| "owns (WDone j) = Some j"
| "owns (WPush j) = Some j"
| "owns _ = None"

lemma owns_Some: "owns p = Some j \<longleftrightarrow> p = DoPush j \<or> p = WGot j \<or> p = WRun j \<or> p = WDone j \<or> p = WPush j"
  by (cases p) auto

definition own_ok :: "nat list \<Rightarrow> (nat \<Rightarrow> int) \<Rightarrow> (nat \<Rightarrow> nat option) \<Rightarrow> bool" where
  "own_ok qu sc ow \<longleftrightarrow> distinct qu \<and> (\<forall>j. 0 \<le> sc j) \<and> (\<forall>j \<in> set qu. 0 < sc j) \<and>
     (\<forall>t j. ow t = Some j \<longrightarrow> 0 < sc j \<and> j \<notin> set qu) \<and> (\<forall>t t' j. ow t = Some j \<longrightarrow> ow t' = Some j \<longrightarrow> t = t') \<and>
     (\<forall>j. 0 < sc j \<longrightarrow> j \<in> set qu \<or> (\<exists>t. ow t = Some j))"

definition jobs_ok :: "thread_pool \<Rightarrow> bool" where
  "jobs_ok s \<longleftrightarrow> own_ok (jobs_head s) (signalcount s) (owns \<circ> pos s)"

fun holds :: "position \<Rightarrow> nat option" where
  "holds (DoPush j) = Some j"
| "holds (WPush j) = Some j"
| "holds _ = None"

lemma holds_Some: "holds p = Some j \<longleftrightarrow> p = DoPush j \<or> p = WPush j"
  by (cases p) auto

definition held_ok :: "(nat \<Rightarrow> bool) \<Rightarrow> (nat \<Rightarrow> nat option) \<Rightarrow> bool" where
  "held_ok lk ho \<longleftrightarrow> (\<forall>j. lk j \<longrightarrow> (\<exists>t. ho t = Some j))"

definition locks_ok :: "thread_pool \<Rightarrow> bool" where
  "locks_ok s \<longleftrightarrow> held_ok (job_locked s) (holds \<circ> pos s)"

definition counts_ok :: "thread_pool \<Rightarrow> bool" where
  "counts_ok s \<longleftrightarrow> (\<forall>j. notified s j = served s j + cancelled s j + signalcount s j)"

text \<open>Whenever there is a job in the queue, a worker is awake or about to be signalled.\<close>

fun awake :: "position \<Rightarrow> bool" where
  "awake WWait = False"
| "awake Outside = False"
| "awake (DoPush j) = False"
| "awake WExit = False"
| "awake _ = True"

fun worker :: "position \<Rightarrow> bool" where
  "worker Outside = False"
| "worker (DoPush j) = False"
| "worker DoSignal = False"
| "worker _ = True"

definition awake_ok :: "bool \<Rightarrow> (nat \<Rightarrow> position) \<Rightarrow> bool" where
  "awake_ok nojob ps \<longleftrightarrow> (\<forall>t. ps t \<noteq> WExit) \<and> (\<exists>t. worker (ps t)) \<and> (nojob \<or> (\<exists>t. awake (ps t)))"

definition wake_ok :: "thread_pool \<Rightarrow> bool" where
  "wake_ok s \<longleftrightarrow> running s \<and> awake_ok (jobs_head s = []) (pos s)"

lemmas tp_op_defs = move_def thread_pool__job_pop_locked_def thread_pool__job_push_locked_def thread_pool__init_job_def thread_pool__do_job_def
  do_job_push_def do_job_signal_def thread_pool__threadfunc_def threadfunc_handle_def thread_pool__handle_job_def handle_job_push_def
  handle_job_next_def thread_pool__cancel_job_def thread_pool__addthread_def Let_def

lemma own_take: "own_ok (j # js) sc ow \<Longrightarrow> ow t = None \<Longrightarrow> own_ok js sc (ow(t := Some j))"
  by (auto simp: own_ok_def) (metis option.distinct(1))+

lemma own_push: "own_ok qu sc ow \<Longrightarrow> ow t = Some j \<Longrightarrow> own_ok (qu @ [j]) sc (ow(t := None))"
  by (auto simp: own_ok_def) (metis option.inject)+

lemma own_finish: "own_ok qu sc ow \<Longrightarrow> ow t = Some j \<Longrightarrow> own_ok qu (sc(j := 0)) (ow(t := None))"
  by (auto simp: own_ok_def) (metis option.inject)+

lemma own_again: "own_ok qu sc ow \<Longrightarrow> 0 < sc j \<Longrightarrow> 0 < n \<Longrightarrow> own_ok qu (sc(j := n)) ow"
  by (auto simp: own_ok_def)

lemma own_notify: "own_ok qu sc ow \<Longrightarrow> ow t = None \<Longrightarrow> sc j = 0 \<Longrightarrow> 0 < n \<Longrightarrow> own_ok qu (sc(j := n)) (ow(t := Some j))"
  by (auto simp: own_ok_def) (metis less_irrefl option.distinct(1))+

lemma own_cancel: "own_ok qu sc ow \<Longrightarrow> j \<in> set qu \<Longrightarrow> own_ok (remove1 j qu) (sc(j := 0)) ow"
  by (auto simp: own_ok_def)

lemma own_idem: "own_ok qu sc ow \<Longrightarrow> ow t = x \<Longrightarrow> own_ok qu sc (ow(t := x))"
  by (simp add: fun_upd_idem)

lemma own_count: "own_ok qu sc ow \<Longrightarrow> 0 \<le> sc j" "own_ok qu sc ow \<Longrightarrow> ow t = Some j \<Longrightarrow> 0 < sc j"
  by (auto simp: own_ok_def)

lemmas own_rules = own_take own_push own_finish own_again own_notify own_cancel own_idem

lemma jobs_ok_step:
  assumes "tp_step s s'" "jobs_ok s" "running s"
  shows "jobs_ok s'"
  using assms
proof (induction rule: tp_step.induct)
  case (internal s s')
  then show ?case
  proof (induction rule: pool_internal.induct)
    case (finish s t j s')
    then have ow: "own_ok (jobs_head s) (signalcount s) (owns \<circ> pos s)" "(owns \<circ> pos s) t = Some j"
      by (simp_all add: jobs_ok_def)
    have "0 < signalcount s j"
      using own_count(2) [OF ow] .
    then consider "signalcount s j - 1 = 0" | "1 < signalcount s j"
      by linarith
    then show ?case
    proof cases
      case 1
      with finish own_finish [OF ow] show ?thesis
        by (auto simp: jobs_ok_def tp_op_defs fun_upd_comp simp del: o_apply split: if_splits)
    next
      case 2
      with finish ow show ?thesis
        by (auto simp: jobs_ok_def tp_op_defs fun_upd_comp intro!: own_again own_idem split: if_splits)
    qed
  next
    case (push s t j)
    then show ?case
      by (auto simp: jobs_ok_def tp_op_defs fun_upd_comp intro: own_push)
  next
    case (again s t j)
    then show ?case
      by (auto simp: jobs_ok_def tp_op_defs fun_upd_comp intro: own_push)
  next
    case (take s t)
    then show ?case
      by (auto simp: jobs_ok_def tp_op_defs fun_upd_comp intro: own_rules split: if_splits list.splits)
  next
    case (next_job s t)
    then show ?case
      by (auto simp: jobs_ok_def tp_op_defs fun_upd_comp intro: own_rules split: if_splits list.splits)
  qed (auto simp: jobs_ok_def tp_op_defs fun_upd_comp intro!: own_rules split: if_splits list.splits)
next
  case (notify s t j s')
  then have ow: "own_ok (jobs_head s) (signalcount s) (owns \<circ> pos s)" "(owns \<circ> pos s) t = None"
    by (simp_all add: jobs_ok_def)
  show ?case
  proof (cases "signalcount s j = 0")
    case True
    with notify own_notify [OF ow True, of 1] ow show ?thesis
      by (auto simp: jobs_ok_def tp_op_defs fun_upd_comp simp del: o_apply split: if_splits)
  next
    case False
    with own_count(1) [OF ow(1), of j] have "0 < signalcount s j"
      by simp
    with notify ow show ?thesis
      by (auto simp: jobs_ok_def tp_op_defs fun_upd_comp intro!: own_again own_idem split: if_splits)
  qed
next
  case (set_up s j callback)
  then show ?case
    by (simp add: jobs_ok_def tp_op_defs fun_upd_idem)
qed (auto simp: jobs_ok_def tp_op_defs fun_upd_comp intro!: own_cancel own_idem split: if_splits)

lemma counts_ok_step:
  assumes "tp_step s s'" "counts_ok s"
  shows "counts_ok s'"
  using assms
proof (induction rule: tp_step.induct)
  case (internal s s')
  then show ?case
    by (induction rule: pool_internal.induct)
      (auto simp: counts_ok_def tp_op_defs split: if_splits list.splits)
qed (auto simp: counts_ok_def tp_op_defs split: if_splits list.splits)

lemma held_other: "held_ok lk ho \<Longrightarrow> ho t = None \<Longrightarrow> held_ok lk (ho(t := x))"
  by (auto simp: held_ok_def) (metis option.distinct(1))

lemma held_release: "held_ok lk ho \<Longrightarrow> ho t = Some j \<Longrightarrow> held_ok (lk(j := False)) (ho(t := None))"
  by (auto simp: held_ok_def) (metis option.inject)

lemma held_acquire: "held_ok lk ho \<Longrightarrow> ho t = None \<Longrightarrow> held_ok (lk(j := True)) (ho(t := Some j))"
  by (auto simp: held_ok_def) (metis option.distinct(1))

lemma held_reset: "held_ok lk ho \<Longrightarrow> held_ok (lk(j := False)) ho"
  by (simp add: held_ok_def)

lemma locks_ok_step:
  assumes "tp_step s s'" "locks_ok s"
  shows "locks_ok s'"
  using assms
proof (induction rule: tp_step.induct)
  case (internal s s')
  then show ?case
    by (induction rule: pool_internal.induct)
      (auto simp: locks_ok_def tp_op_defs fun_upd_comp intro!: held_other held_release held_acquire split: if_splits list.splits)
qed (auto simp: locks_ok_def tp_op_defs fun_upd_comp intro!: held_other held_acquire held_reset split: if_splits list.splits)

lemma awake_move:
  assumes "awake_ok nojob ps" "worker (ps t) \<longrightarrow> worker p" "p \<noteq> WExit" "awake p \<or> nojob' \<or> (nojob \<longrightarrow> nojob') \<and> \<not> awake (ps t)"
  shows "awake_ok nojob' (ps(t := p))"
  using assms by (auto simp: awake_ok_def)

lemma worker_not_waiting: "worker p \<Longrightarrow> p \<noteq> WWait \<Longrightarrow> p \<noteq> WExit \<Longrightarrow> awake p"
  by (cases p) auto

lemma awake_leave:
  assumes "awake_ok nojob ps" "ps t = DoSignal" "\<forall>w. ps w \<noteq> WWait"
  shows "awake_ok nojob (ps(t := Outside))"
proof -
  obtain w where w: "worker (ps w)" "awake (ps w)"
    using assms worker_not_waiting by (auto simp: awake_ok_def)
  with assms(2) have "w \<noteq> t"
    by auto
  with assms w show ?thesis
    by (auto simp: awake_ok_def)
qed

lemma wake_ok_step:
  assumes "tp_step s s'" "wake_ok s"
  shows "wake_ok s'"
  using assms
proof (induction rule: tp_step.induct)
  case (internal s s')
  then show ?case
  proof (induction rule: pool_internal.induct)
    case (signal_none s t)
    then show ?case
      by (simp add: wake_ok_def tp_op_defs awake_leave)
  next
    case (signal_one s t w)
    then have "awake_ok (jobs_head s = []) ((pos s)(w := WPop))"
      by (auto simp: wake_ok_def intro!: awake_move)
    moreover have "awake (((pos s)(w := WPop, t := Outside)) w)" "w \<noteq> t"
      using signal_one by auto
    ultimately show ?case
      using signal_one by (fastforce simp: wake_ok_def tp_op_defs awake_ok_def)
  qed (auto simp: wake_ok_def tp_op_defs intro!: awake_move split: if_splits list.splits)
next
  case (cancel s j)
  then show ?case
    by (auto simp: wake_ok_def tp_op_defs awake_ok_def)
qed (auto simp: wake_ok_def tp_op_defs intro!: awake_move split: if_splits list.splits)

definition tp_inv :: "thread_pool \<Rightarrow> bool" where
  "tp_inv s \<longleftrightarrow> jobs_ok s \<and> locks_ok s \<and> counts_ok s \<and> wake_ok s"

lemma tp_inv_init: "tp_inv (pool_started t)"
  by (auto simp: tp_inv_def pool_started_def thread_pool__init_def thread_pool_empty_def thread_pool__addthread_def move_def jobs_ok_def own_ok_def
    locks_ok_def held_ok_def counts_ok_def wake_ok_def awake_ok_def)

lemma tp_inv_step: "tp_step s s' \<Longrightarrow> tp_inv s \<Longrightarrow> tp_inv s'"
  using jobs_ok_step locks_ok_step counts_ok_step wake_ok_step by (auto simp: tp_inv_def wake_ok_def)

lemma tp_inv_reachable: "tp_step\<^sup>*\<^sup>* (pool_started t) s \<Longrightarrow> tp_inv s"
  by (induction rule: rtranclp_induct) (auto intro: tp_inv_init tp_inv_step)

section \<open>Progress\<close>

text \<open>A potential that every internal step decreases, over the threads \<open>T\<close> and jobs \<open>J\<close> that there are.\<close>

fun position_weight :: "position \<Rightarrow> nat" where
  "position_weight Outside = 0"
| "position_weight (DoPush j) = 9"
| "position_weight DoSignal = 2"
| "position_weight WPop = 1"
| "position_weight WWait = 0"
| "position_weight (WGot j) = 6"
| "position_weight (WRun j) = 5"
| "position_weight (WDone j) = 4"
| "position_weight (WPush j) = 9"
| "position_weight WNext = 2"
| "position_weight WExit = 0"

definition potential :: "nat set \<Rightarrow> nat set \<Rightarrow> thread_pool \<Rightarrow> nat" where
  "potential T J s = (\<Sum>t\<in>T. position_weight (pos s t)) + 6 * length (jobs_head s) + (\<Sum>j\<in>J. 10 * nat (signalcount s j))"

definition bounded_by :: "nat set \<Rightarrow> nat set \<Rightarrow> thread_pool \<Rightarrow> bool" where
  "bounded_by T J s \<longleftrightarrow> finite T \<and> finite J \<and> (\<forall>t. t \<notin> T \<longrightarrow> pos s t = Outside) \<and> (\<forall>j. signalcount s j \<noteq> 0 \<longrightarrow> j \<in> J)"

lemma sum_update:
  fixes f :: "'a \<Rightarrow> nat"
  assumes "finite T" "t \<in> T"
  shows "(\<Sum>u\<in>T. f (if u = t then a else g u)) + f (g t) = (\<Sum>u\<in>T. f (g u)) + f a"
proof -
  have "(\<Sum>u\<in>T. f (if u = t then a else g u)) = f a + (\<Sum>u\<in>T - {t}. f (g u))"
    using assms by (subst sum.remove [of _ t]) auto
  moreover have "(\<Sum>u\<in>T. f (g u)) = f (g t) + (\<Sum>u\<in>T - {t}. f (g u))"
    using assms by (rule sum.remove)
  ultimately show ?thesis
    by simp
qed

lemma potential_move:
  "finite T \<Longrightarrow> t \<in> T \<Longrightarrow> potential T J (move t p s) + position_weight (pos s t) = potential T J s + position_weight p"
  using sum_update [of T t position_weight p "pos s"] by (simp add: potential_def move_def fun_upd_def)

lemma potential_head: "potential T J (s\<lparr>jobs_head := js\<rparr>) + 6 * length (jobs_head s) = potential T J s + 6 * length js"
  by (simp add: potential_def)

lemma potential_count:
  "finite J \<Longrightarrow> j \<in> J \<Longrightarrow> potential T J (s\<lparr>signalcount := (signalcount s)(j := n)\<rparr>) + 10 * nat (signalcount s j) = potential T J s + 10 * nat n"
  using sum_update [of J j "\<lambda>x. 10 * nat x" n "signalcount s"] by (simp add: potential_def fun_upd_def)

lemma potential_other [simp]:
  "potential T J (s\<lparr>job_locked := l\<rparr>) = potential T J s"
  "potential T J (s\<lparr>served := v\<rparr>) = potential T J s"
  by (simp_all add: potential_def)

lemma potential_decreases:
  assumes "pool_internal s s'" "tp_inv s" "bounded_by T J s"
  shows "potential T J s' < potential T J s"
  using assms
proof (induction rule: pool_internal.induct)
  case (push s t j)
  then have t: "finite T" "t \<in> T"
    by (auto simp: bounded_by_def)
  define s1 where "s1 = (s\<lparr>jobs_head := jobs_head s @ [j]\<rparr>)\<lparr>job_locked := (job_locked s)(j := False)\<rparr>"
  have "potential T J (move t DoSignal s1) + 9 = potential T J s1 + 2"
    using potential_move [OF t, of J DoSignal s1] push by (simp add: s1_def)
  moreover have "potential T J s1 = potential T J s + 6"
    using potential_head [of T J "jobs_head s @ [j]" s] by (simp add: s1_def)
  ultimately show ?case
    by (simp add: do_job_push_def thread_pool__job_push_locked_def s1_def)
next
  case (again s t j)
  then have t: "finite T" "t \<in> T"
    by (auto simp: bounded_by_def)
  define s1 where "s1 = (s\<lparr>jobs_head := jobs_head s @ [j]\<rparr>)\<lparr>job_locked := (job_locked s)(j := False)\<rparr>"
  have "potential T J (move t WNext s1) + 9 = potential T J s1 + 2"
    using potential_move [OF t, of J WNext s1] again by (simp add: s1_def)
  moreover have "potential T J s1 = potential T J s + 6"
    using potential_head [of T J "jobs_head s @ [j]" s] by (simp add: s1_def)
  ultimately show ?case
    by (simp add: handle_job_push_def thread_pool__job_push_locked_def s1_def)
next
  case (signal_none s t)
  then have "finite T" "t \<in> T"
    by (auto simp: bounded_by_def)
  from potential_move [OF this, of J Outside s] signal_none show ?case
    by (simp add: do_job_signal_def)
next
  case (signal_one s t w)
  then have t: "finite T" "t \<in> T" "w \<in> T" "w \<noteq> t"
    by (auto simp: bounded_by_def)
  have "potential T J (move w WPop s) = potential T J s + 1"
    using potential_move [OF t(1,3), of J WPop s] signal_one by simp
  moreover have "pos (move w WPop s) t = DoSignal"
    using signal_one t by (simp add: move_def)
  ultimately show ?case
    using potential_move [OF t(1,2), of J Outside "move w WPop s"] by (simp add: do_job_signal_def)
next
  case (return s t j)
  then have "finite T" "t \<in> T"
    by (auto simp: bounded_by_def)
  from potential_move [OF this, of J "WDone j" s] return show ?case
    by simp
next
  case (handle s t j)
  then have "finite T" "t \<in> T"
    by (auto simp: bounded_by_def)
  from potential_move [OF this, of J "WRun j" s] handle show ?case
    by (simp add: threadfunc_handle_def tp_inv_def wake_ok_def)
next
  case (take s t)
  then have t: "finite T" "t \<in> T"
    by (auto simp: bounded_by_def)
  show ?case
  proof (cases "jobs_head s")
    case Nil
    with potential_move [OF t, of J WWait s] take show ?thesis
      by (simp add: thread_pool__threadfunc_def thread_pool__job_pop_locked_def tp_inv_def wake_ok_def)
  next
    case (Cons j js)
    with potential_move [OF t, of J "WGot j" "s\<lparr>jobs_head := js\<rparr>"] potential_head [of T J js s] take show ?thesis
      by (simp add: thread_pool__threadfunc_def thread_pool__job_pop_locked_def tp_inv_def wake_ok_def)
  qed
next
  case (next_job s t)
  then have t: "finite T" "t \<in> T"
    by (auto simp: bounded_by_def)
  show ?case
  proof (cases "jobs_head s")
    case Nil
    with potential_move [OF t, of J WPop s] next_job show ?thesis
      by (simp add: handle_job_next_def thread_pool__job_pop_locked_def)
  next
    case (Cons j js)
    with potential_move [OF t, of J "WRun j" "s\<lparr>jobs_head := js\<rparr>"] potential_head [of T J js s] next_job show ?thesis
      by (simp add: handle_job_next_def thread_pool__job_pop_locked_def)
  qed
next
  case (finish s t j s')
  then have t: "finite T" "t \<in> T" and ow: "own_ok (jobs_head s) (signalcount s) (owns \<circ> pos s)" "(owns \<circ> pos s) t = Some j"
    by (auto simp: bounded_by_def tp_inv_def jobs_ok_def)
  have n: "0 < signalcount s j" "j \<in> J" "finite J"
    using own_count(2) [OF ow] finish by (auto simp: bounded_by_def)
  define s1 where "s1 = s\<lparr>signalcount := (signalcount s)(j := signalcount s j - 1)\<rparr>"
  have "potential T J s1 + 10 = potential T J s"
    using potential_count [OF n(3,2), of T s "signalcount s j - 1"] n by (simp add: s1_def nat_diff_distrib)
  moreover have "potential T J s' + 4 \<le> potential T J s1 + 9"
    using finish potential_move [OF t, of J "WPush j" "s1\<lparr>served := (served s)(j := served s j + 1), job_locked := (job_locked s)(j := True)\<rparr>"]
      potential_move [OF t, of J WNext "s1\<lparr>served := (served s)(j := served s j + 1)\<rparr>"]
    by (auto simp: thread_pool__handle_job_def Let_def s1_def split: if_splits)
  ultimately show ?case
    by simp
qed

lemma bounded_by_internal: "pool_internal s s' \<Longrightarrow> bounded_by T J s \<Longrightarrow> tp_inv s \<Longrightarrow> bounded_by T J s'"
proof (induction rule: pool_internal.induct)
  case (finish s t j s')
  then have "own_ok (jobs_head s) (signalcount s) (owns \<circ> pos s)" "(owns \<circ> pos s) t = Some j"
    by (auto simp: tp_inv_def jobs_ok_def)
  from own_count(2) [OF this] finish show ?case
    by (auto simp: bounded_by_def tp_op_defs split: if_splits)
qed (auto simp: bounded_by_def tp_op_defs split: list.splits)

lemma internal_frame: "pool_internal s s' \<Longrightarrow> notified s' = notified s \<and> cancelled s' = cancelled s"
  by (induction rule: pool_internal.induct) (auto simp: tp_op_defs split: list.splits if_splits)

lemma internal_run:
  assumes "(pool_internal ^^ n) s s'" "tp_inv s" "bounded_by T J s"
  shows "tp_inv s' \<and> bounded_by T J s' \<and> potential T J s' + n \<le> potential T J s \<and> notified s' = notified s \<and> cancelled s' = cancelled s"
  using assms
proof (induction n arbitrary: s')
  case 0
  then show ?case by simp
next
  case (Suc n)
  then obtain u where u: "(pool_internal ^^ n) s u" "pool_internal u s'"
    by auto
  with Suc.IH [of u] Suc.prems have "tp_inv u" "bounded_by T J u" "potential T J u + n \<le> potential T J s" "notified u = notified s" "cancelled u = cancelled s"
    by auto
  with u(2) show ?case
    using potential_decreases [of u s' T J] tp_inv_step [OF tp_step.internal, of u s'] bounded_by_internal [of u s' T J] internal_frame [of u s'] by simp
qed

text \<open>The pool does not block: where no internal step is possible, every thread is outside or waits.\<close>

lemma quiet_positions:
  assumes "tp_inv s" "\<forall>s'. \<not> pool_internal s s'"
  shows "pos s t = Outside \<or> pos s t = WWait"
proof -
  have "\<not> job_locked s j" for j
    using assms pool_internal.push pool_internal.again
    by (simp add: tp_inv_def locks_ok_def held_ok_def holds_Some) blast
  then have "\<exists>s'. thread_pool__handle_job t j s = Some s'" for j
    by (simp add: thread_pool__handle_job_def Let_def)
  moreover have "pos s t \<noteq> DoSignal"
    using assms(2) pool_internal.signal_none [of s t] pool_internal.signal_one [of s t] by blast
  ultimately show ?thesis
    using assms by (cases "pos s t") (auto simp: tp_inv_def wake_ok_def awake_ok_def intro: pool_internal.intros)
qed

lemma quiet_served:
  assumes "tp_inv s" "\<forall>s'. \<not> pool_internal s s'"
  shows "signalcount s j = 0"
proof -
  have "\<not> awake (pos s t)" "owns (pos s t) = None" for t
    using quiet_positions [OF assms, of t] by auto
  moreover from this have "jobs_head s = []"
    using assms(1) by (auto simp: tp_inv_def wake_ok_def awake_ok_def)
  moreover have "0 \<le> signalcount s j" "0 < signalcount s j \<longrightarrow> j \<in> set (jobs_head s) \<or> (\<exists>t. owns (pos s t) = Some j)"
    using assms(1) by (auto simp: tp_inv_def jobs_ok_def own_ok_def)
  ultimately show ?thesis
    by simp
qed

text \<open>A pool with worker 0, in which thread 1 signals job 7, and the steps until it rests.\<close>

definition sample_pool :: thread_pool where
  "sample_pool = the (thread_pool__do_job 1 7 (thread_pool__init_job 7 True (pool_started 0)))"

definition sample_pool_run :: "thread_pool \<Rightarrow> thread_pool" where
  "sample_pool_run s =
     (let s = do_job_push 1 7 s; s = thread_pool__threadfunc 0 s; s = threadfunc_handle 0 7 s; s = move 0 (WDone 7) s;
          s = the (thread_pool__handle_job 0 7 s); s = handle_job_next 0 s; s = do_job_signal 1 None s
      in thread_pool__threadfunc 0 s)"

lemmas sample_pool_defs = sample_pool_def sample_pool_run_def pool_started_def thread_pool__init_def thread_pool_empty_def tp_op_defs

lemma sample_pool_reachable: "tp_step\<^sup>*\<^sup>* (pool_started 0) sample_pool"
proof -
  have "tp_step (pool_started 0) (thread_pool__init_job 7 True (pool_started 0))"
    by (rule tp_step.set_up) (simp add: sample_pool_defs)
  moreover have "tp_step (thread_pool__init_job 7 True (pool_started 0)) sample_pool"
    by (rule tp_step.notify [of _ 1 7]) (simp_all add: sample_pool_defs)
  ultimately show ?thesis
    by (blast intro: rtranclp_trans)
qed

lemma sample_pool_bounded: "bounded_by {0, 1} {7} sample_pool"
  by (auto simp: bounded_by_def sample_pool_defs)

lemma resting: "\<forall>t. pos s t = Outside \<or> pos s t = WWait \<Longrightarrow> \<not> pool_internal s u"
  by (auto elim!: pool_internal.cases) (metis position.distinct)+

lemma sample_pool_steps:
  shows "(pool_internal ^^ 8) sample_pool (sample_pool_run sample_pool)" (is ?run)
    and "\<forall>t. pos (sample_pool_run sample_pool) t = Outside \<or> pos (sample_pool_run sample_pool) t = WWait" (is ?rest)
    and "served (sample_pool_run sample_pool) 7 = 1" (is ?served)
proof -
  define s1 where "s1 = do_job_push 1 7 sample_pool"
  define s2 where "s2 = thread_pool__threadfunc 0 s1"
  define s3 where "s3 = threadfunc_handle 0 7 s2"
  define s4 where "s4 = move 0 (WDone 7) s3"
  define s5 where "s5 = the (thread_pool__handle_job 0 7 s4)"
  define s6 where "s6 = handle_job_next 0 s5"
  define s7 where "s7 = do_job_signal 1 None s6"
  note unfold = tp_op_defs
  have p: "pos sample_pool 1 = DoPush 7" "pos sample_pool 0 = WPop" "jobs_head sample_pool = []" "signalcount sample_pool 7 = 1" "running sample_pool"
    "served sample_pool 7 = 0" "\<forall>t. t \<noteq> 0 \<longrightarrow> t \<noteq> 1 \<longrightarrow> pos sample_pool t = Outside"
    by (simp_all add: sample_pool_defs)
  then have p1: "pos s1 1 = DoSignal" "pos s1 0 = WPop" "jobs_head s1 = [7]" "signalcount s1 7 = 1" "running s1" "\<not> job_locked s1 7"
    "served s1 7 = 0" "\<forall>t. t \<noteq> 0 \<longrightarrow> t \<noteq> 1 \<longrightarrow> pos s1 t = Outside"
    by (simp_all add: s1_def unfold)
  then have p2: "pos s2 1 = DoSignal" "pos s2 0 = WGot 7" "jobs_head s2 = []" "signalcount s2 7 = 1" "running s2" "\<not> job_locked s2 7" "served s2 7 = 0" "\<forall>t. t \<noteq> 0 \<longrightarrow> t \<noteq> 1 \<longrightarrow> pos s2 t = Outside"
    by (simp_all add: s2_def unfold)
  then have p3: "pos s3 1 = DoSignal" "pos s3 0 = WRun 7" "jobs_head s3 = []" "signalcount s3 7 = 1" "running s3" "\<not> job_locked s3 7" "served s3 7 = 0" "\<forall>t. t \<noteq> 0 \<longrightarrow> t \<noteq> 1 \<longrightarrow> pos s3 t = Outside"
    by (simp_all add: s3_def unfold)
  then have p4: "pos s4 1 = DoSignal" "pos s4 0 = WDone 7" "jobs_head s4 = []" "signalcount s4 7 = 1" "running s4" "\<not> job_locked s4 7" "served s4 7 = 0" "\<forall>t. t \<noteq> 0 \<longrightarrow> t \<noteq> 1 \<longrightarrow> pos s4 t = Outside"
    by (simp_all add: s4_def unfold)
  then have p5: "thread_pool__handle_job 0 7 s4 = Some s5" "pos s5 1 = DoSignal" "pos s5 0 = WNext" "jobs_head s5 = []" "running s5" "served s5 7 = 1" "\<forall>t. t \<noteq> 0 \<longrightarrow> t \<noteq> 1 \<longrightarrow> pos s5 t = Outside"
    by (simp_all add: s5_def unfold)
  then have p6: "pos s6 1 = DoSignal" "pos s6 0 = WPop" "jobs_head s6 = []" "running s6" "served s6 7 = 1" "\<forall>t. t \<noteq> 0 \<longrightarrow> t \<noteq> 1 \<longrightarrow> pos s6 t = Outside"
    by (simp_all add: s6_def unfold)
  then have p7: "pos s7 0 = WPop" "jobs_head s7 = []" "running s7" "served s7 7 = 1" "\<forall>t. t \<noteq> 0 \<longrightarrow> pos s7 t = Outside"
    by (simp_all add: s7_def unfold)
  have wait: "\<forall>t. pos s6 t \<noteq> WWait"
    using p6 by (metis position.distinct)
  have a: "pool_internal sample_pool s1" unfolding s1_def by (rule pool_internal.push) (rule p)
  have b: "pool_internal s1 s2" unfolding s2_def by (rule pool_internal.take) (rule p1)
  have c: "pool_internal s2 s3" unfolding s3_def by (rule pool_internal.handle) (rule p2)
  have d: "pool_internal s3 s4" unfolding s4_def by (rule pool_internal.return) (rule p3)
  have e: "pool_internal s4 s5" by (rule pool_internal.finish [of _ 0 7]) (rule p4 p5)+
  have f: "pool_internal s5 s6" unfolding s6_def by (rule pool_internal.next_job) (rule p5)
  have g: "pool_internal s6 s7" unfolding s7_def by (rule pool_internal.signal_none) (rule p6 wait)+
  have h: "pool_internal s7 (thread_pool__threadfunc 0 s7)" by (rule pool_internal.take) (rule p7)
  have run: "sample_pool_run sample_pool = thread_pool__threadfunc 0 s7"
    by (simp add: sample_pool_run_def s7_def s6_def s5_def s4_def s3_def s2_def s1_def Let_def)
  have eight: "(8 :: nat) = Suc (Suc (Suc (Suc (Suc (Suc (Suc (Suc 0)))))))"
    by simp
  show ?run
    unfolding eight run
    by (rule relpowp_Suc_I relpowp_0_I a b c d e f g h)+
  show ?rest ?served
    unfolding run using p7 by (simp_all add: unfold)
qed

section \<open>What the pool promises\<close>





text \<open>
  When \<^verbatim>\<open>thread_pool__cancel_job\<close> leaves its loop, the job is not queued and no thread has it.
\<close>

theorem thread_pool__cancel_job_correct:
  assumes "tp_step\<^sup>*\<^sup>* (pool_started w) s" "thread_pool__cancel_job j s = (s', False)"
  shows "j \<notin> set (jobs_head s') \<and> signalcount s' j = 0 \<and> owns (pos s' t) \<noteq> Some j"
proof -
  have "own_ok (jobs_head s) (signalcount s) (owns \<circ> pos s)"
    using tp_inv_reachable [OF assms(1)] by (simp add: tp_inv_def jobs_ok_def)
  then show ?thesis
    using assms(2) by (auto simp: thread_pool__cancel_job_def own_ok_def not_less dest: antisym split: if_splits) force+
qed

theorem thread_pool__cancel_job_correct_witness:
  "signalcount (fst (thread_pool__cancel_job 7 (pool_started 0))) 7 = 0"
  using thread_pool__cancel_job_correct [of 0 "pool_started 0" 7 "fst (thread_pool__cancel_job 7 (pool_started 0))"] by (simp add: sample_pool_defs)

section \<open>A job that runs while the process forks\<close>

text \<open>
  The worker that runs a job is not copied into the child, but the signal count is: the job is never queued again, whatever the guest
  signals, until it is set up again.
\<close>

definition job_lost :: "nat \<Rightarrow> thread_pool \<Rightarrow> bool" where
  "job_lost j s \<longleftrightarrow> 0 < signalcount s j \<and> j \<notin> set (jobs_head s) \<and> (\<forall>t. owns (pos s t) \<noteq> Some j)"

lemma job_lost_step: "tp_step s s' \<Longrightarrow> job_lost j s \<Longrightarrow> job_lost j s'"
proof (induction rule: tp_step.induct)
  case (internal s s')
  then show ?case
    by (induction rule: pool_internal.induct) (auto simp: job_lost_def owns_Some tp_op_defs split: if_splits list.splits)
qed (auto simp: job_lost_def owns_Some tp_op_defs split: if_splits list.splits)

lemma fork_loses_running_job:
  assumes "tp_inv s" "owns (pos s t) = Some j" "tp_step\<^sup>*\<^sup>* (fst (thread_pool__post_copy oom res w s)) s'"
  shows "pos s' u \<noteq> WRun j"
proof -
  have "own_ok (jobs_head s) (signalcount s) (owns \<circ> pos s)" "(owns \<circ> pos s) t = Some j"
    using assms(1,2) by (simp_all add: tp_inv_def jobs_ok_def)
  then have "0 < signalcount s j" "j \<notin> set (jobs_head s)"
    by (auto simp: own_ok_def)
  then have "job_lost j (fst (thread_pool__post_copy oom res w s))"
    by (auto simp: job_lost_def thread_pool__post_copy_def thread_pool__addthread_def move_def)
  with assms(3) have "job_lost j s'"
    by (induction rule: rtranclp_induct) (auto intro: job_lost_step)
  then show ?thesis
    by (simp add: job_lost_def owns_Some)
qed

end
