(* ===== verification/Ioeventfd.thy ===== *)
theory Ioeventfd
  imports Prelude
begin

text \<open>
  Event file descriptors for guest writes (\<^verbatim>\<open>ioeventfd.c\<close>): the list of registered events and the requests to the kernel.

  \<open>kvm_requests\<close> are the \<^verbatim>\<open>KVM_IOEVENTFD\<close> requests that succeeded, \<open>epoll_set\<close> the descriptors in the set that the worker polls. The callback of an
  event is a number. Results of \<^verbatim>\<open>malloc\<close> and of the system calls are arguments.
\<close>

section \<open>State\<close>

record ioevent =
  io_addr :: u64
  io_len :: u8
  ev_fn :: nat
  ev_fd :: int
  datamatch :: u64
  ev_flags :: u32

record kvm_ioeventfd =
  ke_addr :: u64
  ke_len :: u32
  ke_datamatch :: u64
  ke_fd :: int
  ke_flags :: u32

record ioeventfd_state =
  used_ioevents :: "ioevent list"
  ioeventfd_avail :: bool
  kvm_requests :: "kvm_ioeventfd list"
  epoll_set :: "int list"

definition IOEVENTFD_FLAG_PIO :: u32 where "IOEVENTFD_FLAG_PIO = 1"
definition IOEVENTFD_FLAG_USER_POLL :: u32 where "IOEVENTFD_FLAG_USER_POLL = 2"
definition KVM_IOEVENTFD_FLAG_DATAMATCH :: u32 where "KVM_IOEVENTFD_FLAG_DATAMATCH = 1"
definition KVM_IOEVENTFD_FLAG_PIO :: u32 where "KVM_IOEVENTFD_FLAG_PIO = 2"
definition KVM_IOEVENTFD_FLAG_DEASSIGN :: u32 where "KVM_IOEVENTFD_FLAG_DEASSIGN = 4"

abbreviation (input) ENOSYS :: int where "ENOSYS \<equiv> 38"

section \<open>Operations\<close>

definition ioeventfd_state_init :: "bool \<Rightarrow> ioeventfd_state" where
  "ioeventfd_state_init avail = \<lparr>used_ioevents = [], ioeventfd_avail = avail, kvm_requests = [], epoll_set = []\<rparr>"

text \<open>\<open>ioctl\<close> and \<open>ctl\<close> are the error numbers of the \<^verbatim>\<open>ioctl\<close> and of \<^verbatim>\<open>epoll_ctl\<close>, 0 for success. On x86 \<^verbatim>\<open>KVM_IOEVENTFD_HAS_PIO\<close> is true.\<close>

definition kvm_request :: "ioevent \<Rightarrow> u32 \<Rightarrow> kvm_ioeventfd" where
  "kvm_request ev flags = \<lparr>ke_addr = io_addr ev, ke_len = ucast (io_len ev), ke_datamatch = datamatch ev, ke_fd = ev_fd ev, ke_flags = flags\<rparr>"

definition ioeventfd__add_event :: "bool \<Rightarrow> int \<Rightarrow> int \<Rightarrow> ioevent \<Rightarrow> u32 \<Rightarrow> ioeventfd_state \<Rightarrow> ioeventfd_state \<times> int" where
  "ioeventfd__add_event oom ioctl ctl ev flags s =
     (if \<not> ioeventfd_avail s then (s, - ENOSYS)
      else if oom then (s, - ENOMEM)
      else let kflags = (if flags AND IOEVENTFD_FLAG_PIO \<noteq> 0 then KVM_IOEVENTFD_FLAG_DATAMATCH OR KVM_IOEVENTFD_FLAG_PIO else KVM_IOEVENTFD_FLAG_DATAMATCH)
        in if ioctl \<noteq> 0 then (s, - ioctl)
           else let s = s\<lparr>kvm_requests := kvm_requests s @ [kvm_request ev kflags]\<rparr>
             in if flags AND IOEVENTFD_FLAG_USER_POLL \<noteq> 0 \<and> ctl \<noteq> 0 then (s, - ctl)
                else let s = (if flags AND IOEVENTFD_FLAG_USER_POLL \<noteq> 0 then s\<lparr>epoll_set := epoll_set s @ [ev_fd ev]\<rparr> else s)
                  in (s\<lparr>used_ioevents := used_ioevents s @ [ev\<lparr>ev_flags := kflags\<rparr>]\<rparr>, 0))"

definition ev_matches :: "u64 \<Rightarrow> u64 \<Rightarrow> ioevent \<Rightarrow> bool" where
  "ev_matches addr dm ev \<longleftrightarrow> io_addr ev = addr \<and> datamatch ev = dm"

definition ioeventfd__del_event :: "u64 \<Rightarrow> u64 \<Rightarrow> ioeventfd_state \<Rightarrow> ioeventfd_state \<times> int" where
  "ioeventfd__del_event addr dm s =
     (if \<not> ioeventfd_avail s then (s, - ENOSYS)
      else case find (ev_matches addr dm) (used_ioevents s) of
        None \<Rightarrow> (s, - ENOENT)
      | Some ev \<Rightarrow> (s\<lparr>kvm_requests := kvm_requests s @ [kvm_request ev (ev_flags ev OR KVM_IOEVENTFD_FLAG_DEASSIGN)],
                      epoll_set := filter (\<lambda>fd. fd \<noteq> ev_fd ev) (epoll_set s), used_ioevents := remove1 ev (used_ioevents s)\<rparr>, 0))"

text \<open>
  The events that one \<^verbatim>\<open>epoll_wait\<close> of the worker returned, \<open>None\<close> for the stop descriptor; the result is the list of callbacks called and whether
  the worker goes on.
\<close>

fun ioeventfd__thread :: "ioevent option list \<Rightarrow> nat list \<times> bool" where
  "ioeventfd__thread [] = ([], True)"
| "ioeventfd__thread (None # evs) = ([], False)"
| "ioeventfd__thread (Some ev # evs) = (case ioeventfd__thread evs of (fns, c) \<Rightarrow> (ev_fn ev # fns, c))"

text \<open>\<open>epfd\<close>, \<open>ctl\<close> and \<open>thr\<close> are the results of \<^verbatim>\<open>epoll_create\<close>, \<^verbatim>\<open>epoll_ctl\<close> and of starting the worker.\<close>

definition ioeventfd__init :: "bool \<Rightarrow> int \<Rightarrow> int \<Rightarrow> int \<Rightarrow> int \<Rightarrow> ioeventfd_state \<Rightarrow> ioeventfd_state \<times> int" where
  "ioeventfd__init supported errno epfd ctl thr s =
     (let s = s\<lparr>ioeventfd_avail := supported\<rparr>
      in (s, if \<not> supported then 1 else if epfd < 0 then - errno else if ctl < 0 then ctl else if thr < 0 then thr else 0))"

text \<open>In the child of a fork every event gets a new descriptor, which is polled; \<open>fds\<close> are the results of \<^verbatim>\<open>eventfd\<close>.\<close>

definition ioeventfd__post_copy :: "bool \<Rightarrow> int \<Rightarrow> int \<Rightarrow> int \<Rightarrow> int list \<Rightarrow> ioeventfd_state \<Rightarrow> (ioeventfd_state \<times> int) outcome" where
  "ioeventfd__post_copy supported epfd ctl thr fds s =
     (let s = s\<lparr>ioeventfd_avail := supported\<rparr>
      in if \<not> supported then Ret (s, 1)
         else if epfd < 0 \<or> ctl < 0 \<or> (\<exists>fd \<in> set (take (length (used_ioevents s)) fds). fd < 0) \<or> thr < 0 then Dies
         else Ret (s\<lparr>used_ioevents := map2 (\<lambda>ev fd. ev\<lparr>ev_fd := fd\<rparr>) (used_ioevents s) fds, epoll_set := take (length (used_ioevents s)) fds\<rparr>, 0))"

definition ioeventfd__exit :: "int \<Rightarrow> int \<Rightarrow> ioeventfd_state \<Rightarrow> int" where
  "ioeventfd__exit wr rd s = (if \<not> ioeventfd_avail s then 0 else if wr < 0 then wr else if rd < 0 then rd else 0)"

section \<open>What the kernel has registered\<close>

text \<open>The documented effect of the requests: one with the flag for removal takes back an earlier one with the same fields.\<close>

definition apply_request :: "kvm_ioeventfd \<Rightarrow> kvm_ioeventfd list \<Rightarrow> kvm_ioeventfd list" where
  "apply_request r ks =
     (if ke_flags r AND KVM_IOEVENTFD_FLAG_DEASSIGN = 0 then ks @ [r]
      else remove1 (r\<lparr>ke_flags := ke_flags r AND NOT KVM_IOEVENTFD_FLAG_DEASSIGN\<rparr>) ks)"

definition kernel_events :: "ioeventfd_state \<Rightarrow> kvm_ioeventfd list" where
  "kernel_events s = fold apply_request (kvm_requests s) []"

definition ev_request :: "ioevent \<Rightarrow> kvm_ioeventfd" where
  "ev_request ev = kvm_request ev (ev_flags ev)"

definition ioe_inv :: "ioeventfd_state \<Rightarrow> bool" where
  "ioe_inv s \<longleftrightarrow> kernel_events s = map ev_request (used_ioevents s) \<and> (\<forall>ev \<in> set (used_ioevents s). ev_flags ev AND KVM_IOEVENTFD_FLAG_DEASSIGN = 0) \<and>
     distinct (map ev_fd (used_ioevents s))"

lemma ioe_inv_init: "ioe_inv (ioeventfd_state_init avail)"
  by (simp add: ioe_inv_def ioeventfd_state_init_def kernel_events_def)

text \<open>The registration with the kernel is undone only when the event is in the list, so a failure to poll the descriptor leaves it behind.\<close>

lemma ioeventfd__add_event_inv:
  assumes "ioe_inv s" "ev_fd ev \<notin> ev_fd ` set (used_ioevents s)" "ctl = 0"
    and "ioeventfd__add_event oom ioctl ctl ev flags s = (s', r)"
  shows "ioe_inv s' \<and> (r = 0 \<longrightarrow> (\<exists>e. used_ioevents s' = used_ioevents s @ [e] \<and> ev_matches (io_addr ev) (datamatch ev) e \<and> ev_fn e = ev_fn ev)) \<and>
    (r \<noteq> 0 \<longrightarrow> s' = s)"
  using assms
  by (auto simp: ioeventfd__add_event_def Let_def ioe_inv_def kernel_events_def apply_request_def ev_request_def kvm_request_def ev_matches_def
    KVM_IOEVENTFD_FLAG_DATAMATCH_def KVM_IOEVENTFD_FLAG_PIO_def KVM_IOEVENTFD_FLAG_DEASSIGN_def split: if_splits)

lemma remove1_map_inj:
  "inj_on f (set (x # xs)) \<Longrightarrow> remove1 (f x) (map f xs) = map f (remove1 x xs)"
  by (induction xs) (auto simp: inj_on_def)

lemma deassign_mask:
  "(x :: u32) AND KVM_IOEVENTFD_FLAG_DEASSIGN = 0 \<Longrightarrow> (x OR KVM_IOEVENTFD_FLAG_DEASSIGN) AND KVM_IOEVENTFD_FLAG_DEASSIGN \<noteq> 0"
  "(x :: u32) AND KVM_IOEVENTFD_FLAG_DEASSIGN = 0 \<Longrightarrow> (x OR KVM_IOEVENTFD_FLAG_DEASSIGN) AND NOT KVM_IOEVENTFD_FLAG_DEASSIGN = x"
proof -
  assume a: "x AND KVM_IOEVENTFD_FLAG_DEASSIGN = 0"
  have d: "KVM_IOEVENTFD_FLAG_DEASSIGN \<noteq> 0"
    by (simp add: KVM_IOEVENTFD_FLAG_DEASSIGN_def)
  show "(x OR KVM_IOEVENTFD_FLAG_DEASSIGN) AND KVM_IOEVENTFD_FLAG_DEASSIGN \<noteq> 0"
    using a d by (simp add: bit.conj_disj_distrib2)
  show "(x OR KVM_IOEVENTFD_FLAG_DEASSIGN) AND NOT KVM_IOEVENTFD_FLAG_DEASSIGN = x"
    using a by (simp add: bit_eq_iff bit_simps) blast
qed

lemma ioeventfd__del_event_inv:
  assumes "ioe_inv s" "ioeventfd__del_event addr dm s = (s', r)"
  shows "ioe_inv s' \<and> (\<forall>ev \<in> set (used_ioevents s'). ev \<in> set (used_ioevents s))"
proof (cases "ioeventfd_avail s \<and> find (ev_matches addr dm) (used_ioevents s) \<noteq> None")
  case False
  with assms show ?thesis
    by (auto simp: ioeventfd__del_event_def split: option.splits if_splits)
next
  case True
  then obtain ev where ev: "find (ev_matches addr dm) (used_ioevents s) = Some ev" "ioeventfd_avail s"
    by auto
  then have mem: "ev \<in> set (used_ioevents s)"
    by (auto simp: find_Some_iff)
  have inj: "inj_on ev_request (set (ev # used_ioevents s))"
    using assms(1) mem by (auto simp: ioe_inv_def inj_on_def ev_request_def kvm_request_def distinct_map insert_absorb)
  have flags: "ev_flags ev AND KVM_IOEVENTFD_FLAG_DEASSIGN = 0"
    using assms(1) mem by (simp add: ioe_inv_def)
  have s': "s' = s\<lparr>kvm_requests := kvm_requests s @ [kvm_request ev (ev_flags ev OR KVM_IOEVENTFD_FLAG_DEASSIGN)],
      epoll_set := filter (\<lambda>fd. fd \<noteq> ev_fd ev) (epoll_set s), used_ioevents := remove1 ev (used_ioevents s)\<rparr>"
    using assms(2) ev by (simp add: ioeventfd__del_event_def)
  have "kernel_events s' = remove1 (ev_request ev) (kernel_events s)"
    using deassign_mask [OF flags] by (simp add: s' kernel_events_def apply_request_def kvm_request_def ev_request_def)
  also have "\<dots> = map ev_request (used_ioevents s')"
    using assms(1) remove1_map_inj [OF inj] by (simp add: s' ioe_inv_def)
  finally show ?thesis
    using assms(1) set_remove1_subset [of ev "used_ioevents s"]
    by (auto simp: ioe_inv_def s' distinct_map distinct_remove1 inj_on_def)
qed

text \<open>When the events of one address and value are unique, removing one removes all.\<close>

definition ev_key :: "ioevent \<Rightarrow> u64 \<times> u64" where
  "ev_key ev = (io_addr ev, datamatch ev)"

definition keys_unique :: "ioeventfd_state \<Rightarrow> bool" where
  "keys_unique s \<longleftrightarrow> distinct (map ev_key (used_ioevents s))"

lemma remove1_key:
  "distinct (map f xs) \<Longrightarrow> find (\<lambda>x. f x = k) xs = Some e \<Longrightarrow> remove1 e xs = filter (\<lambda>x. f x \<noteq> k) xs"
proof (induction xs)
  case Nil
  then show ?case by simp
next
  case (Cons x xs)
  show ?case
  proof (cases "f x = k")
    case True
    with Cons.prems have "filter (\<lambda>y. f y \<noteq> k) xs = xs"
      by (auto intro!: filter_True simp: image_iff)
    with True Cons.prems show ?thesis by simp
  next
    case False
    with Cons show ?thesis
      by (auto simp: find_Some_iff)
  qed
qed

lemma ev_matches_key: "ev_matches addr dm = (\<lambda>ev. ev_key ev = (addr, dm))"
  by (auto simp: ev_matches_def ev_key_def)

lemma ioeventfd__del_event_gone:
  assumes "ioeventfd_avail s" "keys_unique s"
  shows "used_ioevents (fst (ioeventfd__del_event addr dm s)) = filter (\<lambda>ev. ev_key ev \<noteq> (addr, dm)) (used_ioevents s)"
proof (cases "find (ev_matches addr dm) (used_ioevents s)")
  case None
  then have "filter (\<lambda>ev. ev_key ev \<noteq> (addr, dm)) (used_ioevents s) = used_ioevents s"
    by (auto simp: find_None_iff ev_matches_key intro!: filter_True)
  with None assms show ?thesis by (simp add: ioeventfd__del_event_def)
next
  case (Some ev)
  with assms remove1_key [of ev_key "used_ioevents s" "(addr, dm)" ev] show ?thesis
    by (simp add: ioeventfd__del_event_def ev_matches_key keys_unique_def)
qed

text \<open>When the descriptor cannot be polled, the kernel keeps a registration that is in no list.\<close>

lemma ioeventfd_poll_failure_leaks:
  assumes "ioe_inv s" "ioeventfd_avail s" "ctl \<noteq> 0"
    and "ioeventfd__add_event False 0 ctl ev IOEVENTFD_FLAG_USER_POLL s = (s', r)"
  shows "used_ioevents s' = used_ioevents s \<and> length (kernel_events s') = Suc (length (used_ioevents s'))"
proof -
  have "s' = s\<lparr>kvm_requests := kvm_requests s @ [kvm_request ev KVM_IOEVENTFD_FLAG_DATAMATCH]\<rparr>"
    using assms by (simp add: ioeventfd__add_event_def IOEVENTFD_FLAG_USER_POLL_def IOEVENTFD_FLAG_PIO_def Let_def)
  with assms(1) show ?thesis
    by (simp add: ioe_inv_def kernel_events_def apply_request_def kvm_request_def KVM_IOEVENTFD_FLAG_DATAMATCH_def KVM_IOEVENTFD_FLAG_DEASSIGN_def)
qed

end
