(* ===== verification/P9Fid.thy ===== *)
theory P9Fid
  imports RBTree P9Pdu
begin

text \<open>
  The 9P file server (\<^verbatim>\<open>virtio/9p.c\<close>): its state, the table of file identifiers, and paths.

  An identifier is allocated at an address; the red-black tree of the device holds the address under the number the guest uses. A path is its
  characters without the final zero; \<open>f_path\<close> is the part of \<^verbatim>\<open>abs_path\<close> that \<^verbatim>\<open>path\<close> points to, behind the root directory of the device.

  What the host's kernel does is given by a function of the calls made so far and the call at hand. Every call is recorded. A function that may jump to
  \<^verbatim>\<open>err_out\<close> has an optional result, where \<open>None\<close> is the jump.
\<close>

section \<open>State\<close>

type_synonym path = "u8 list"

record p9_fid =
  f_fid :: u32
  f_uid :: u32
  f_path :: path
  f_dir :: "int option"
  f_fd :: int

record fid_node =
  fn_fid :: u32
  fn_addr :: nat

record p9_stat =
  st_mode :: u32
  st_ino :: u64
  st_nlink :: u64
  st_uid :: u32
  st_gid :: u32
  st_rdev :: u64
  st_size :: u64
  st_blksize :: u64
  st_blocks :: u64
  st_atime :: "u64 \<times> u64"
  st_mtime :: "u64 \<times> u64"
  st_ctime :: "u64 \<times> u64"

record p9_dirent =
  d_name :: path
  d_off :: u64
  d_type :: u8

datatype utime = UTIME_AT u64 u64 | UTIME_NOW | UTIME_OMIT

datatype p9_event =
    Lstat path
  | StatF path
  | OpenDir path
  | OpenF path u32 "u32 option"
  | CloseF int
  | CloseDir int
  | MkDir path u32
  | ChMod path u32
  | UTimes path utime utime
  | LChown path u32 u32
  | Truncate path u64
  | Remove path
  | Rename path path
  | ReadLink path
  | StatFs path
  | MkNod path u32 u32 u32
  | FSync int
  | FDataSync int
  | SymLink path path
  | LinkF path path
  | PReadV int "iovec list" u64
  | PWriteV int "u8 list" u64
  | SeekDir int u64
  | DirFd int

record p9_statfs =
  sf_type :: u64
  sf_bsize :: u64
  sf_blocks :: u64
  sf_bfree :: u64
  sf_bavail :: u64
  sf_files :: u64
  sf_ffree :: u64
  sf_fsid :: "u32 \<times> u32"
  sf_namelen :: u64

text \<open>
  The result of a call: its value, the error number when it is negative, and what it stores. A call that returns a pointer is negative for NULL. The entries
  are what \<^verbatim>\<open>readdir\<close> goes on to return, until NULL, on a directory stream after \<^verbatim>\<open>seekdir\<close>.
\<close>

record p9_result =
  res_ret :: int
  res_errno :: int
  res_stat :: p9_stat
  res_bytes :: "u8 list"
  res_dents :: "p9_dirent list"
  res_statfs :: p9_statfs

record p9_host =
  sys_call :: "p9_event list \<Rightarrow> p9_event \<Rightarrow> p9_result"
  host_oom :: bool
  host_stack :: "nat \<Rightarrow> u8"

record p9_state =
  fid_tree :: "fid_node rb_node"
  fid_store :: "nat \<Rightarrow> p9_fid option"
  fid_next :: nat
  root_dir :: path
  cur_pdu :: p9_pdu
  cur_mem :: hmem
  cur_errno :: int
  cur_outlen :: u32
  sys_log :: "p9_event list"

type_synonym 'a p9 = "p9_state \<Rightarrow> ('a option \<times> p9_state) outcome"

section \<open>Sequencing\<close>

definition p9_return :: "'a \<Rightarrow> 'a p9" where
  "p9_return x s = Ret (Some x, s)"

definition p9_bind :: "'a p9 \<Rightarrow> ('a \<Rightarrow> 'b p9) \<Rightarrow> 'b p9" where
  "p9_bind m f s = bind_outcome (m s) (\<lambda>(r, s). case r of None \<Rightarrow> Ret (None, s) | Some x \<Rightarrow> f x s)"

definition p9_undefined :: "'a p9" where
  "p9_undefined s = Undefined"

definition p9_fail :: "int \<Rightarrow> 'a p9" where
  "p9_fail e s = Ret (None, s\<lparr>cur_errno := e\<rparr>)"

definition p9_get :: "(p9_state \<Rightarrow> 'a) \<Rightarrow> 'a p9" where
  "p9_get f s = Ret (Some (f s), s)"

definition p9_call :: "p9_host \<Rightarrow> p9_event \<Rightarrow> p9_result p9" where
  "p9_call host e s =
     (let r = sys_call host (sys_log s) e
      in Ret (Some r, s\<lparr>sys_log := sys_log s @ [e], cur_errno := (if res_ret r < 0 then res_errno r else cur_errno s)\<rparr>))"

text \<open>A call whose failure is a jump to \<^verbatim>\<open>err_out\<close>.\<close>

definition p9_check :: "p9_host \<Rightarrow> p9_event \<Rightarrow> p9_result p9" where
  "p9_check host e = p9_bind (p9_call host e) (\<lambda>r s. if res_ret r < 0 then Ret (None, s) else Ret (Some r, s))"

section \<open>The table of identifiers\<close>

definition PATH_MAX :: nat where "PATH_MAX = 4096"
abbreviation (input) ENAMETOOLONG :: int where "ENAMETOOLONG \<equiv> 36"
abbreviation (input) EACCES :: int where "EACCES \<equiv> 13"
abbreviation (input) EMFILE :: int where "EMFILE \<equiv> 24"
abbreviation (input) ENFILE :: int where "ENFILE \<equiv> 23"
abbreviation (input) EOPNOTSUPP :: int where "EOPNOTSUPP \<equiv> 95"

text \<open>The insertion compares with the sign of a 32-bit difference, the search compares the numbers.\<close>

definition insert_dir :: "u32 \<Rightarrow> fid_node \<Rightarrow> rb_dir" where
  "insert_dir fid n = (let result = sint (fid - fn_fid n) in if result < 0 then GoLeft else if 0 < result then GoRight else Here)"

definition insert_new_fid :: "fid_node \<Rightarrow> fid_node rb_node \<Rightarrow> (fid_node rb_node \<times> int) outcome" where
  "insert_new_fid n t =
     (case rb_insert_by (insert_dir (fn_fid n)) n t of
        Inserted t' \<Rightarrow> Ret (t', 0)
      | Occupied _ \<Rightarrow> Ret (t, - EEXIST)
      | Crashed \<Rightarrow> Undefined)"

definition find_or_create_fid :: "p9_host \<Rightarrow> u32 \<Rightarrow> p9_state \<Rightarrow> (nat option \<times> p9_state) outcome" where
  "find_or_create_fid host fid s =
     (case rb_search (key_dir fn_fid fid) (fid_tree s) of
        Some n \<Rightarrow> Ret (Some (fn_addr n), s)
      | None \<Rightarrow>
          if host_oom host \<or> PATH_MAX \<le> length (root_dir s) then Ret (None, s)
          else let a = fid_next s; pfid = \<lparr>f_fid = fid, f_uid = 0, f_path = [], f_dir = None, f_fd = 0\<rparr>
            in bind_outcome (insert_new_fid \<lparr>fn_fid = fid, fn_addr = a\<rparr> (fid_tree s)) (\<lambda>(t, _).
                 Ret (Some a, s\<lparr>fid_tree := t, fid_store := (fid_store s)(a \<mapsto> pfid), fid_next := a + 1\<rparr>)))"

text \<open>The callers use the result without a test for NULL.\<close>

definition get_fid :: "p9_host \<Rightarrow> u32 \<Rightarrow> nat p9" where
  "get_fid host fid s =
     bind_outcome (find_or_create_fid host fid s) (\<lambda>(r, s). case r of None \<Rightarrow> Undefined | Some a \<Rightarrow> Ret (Some a, s))"

definition load_fid :: "nat \<Rightarrow> p9_fid p9" where
  "load_fid a s = (case fid_store s a of None \<Rightarrow> Undefined | Some f \<Rightarrow> Ret (Some f, s))"

definition store_fid :: "nat \<Rightarrow> (p9_fid \<Rightarrow> p9_fid) \<Rightarrow> unit p9" where
  "store_fid a f s = (case fid_store s a of None \<Rightarrow> Undefined | Some x \<Rightarrow> Ret (Some (), s\<lparr>fid_store := (fid_store s)(a \<mapsto> f x)\<rparr>))"

definition erase_fid :: "nat \<Rightarrow> unit p9" where
  "erase_fid a s =
     (case rb_erase_entry (\<lambda>n. fn_addr n = a) (fid_tree s) of
        None \<Rightarrow> Undefined
      | Some t \<Rightarrow> Ret (Some (), s\<lparr>fid_tree := t, fid_store := (fid_store s)(a := None)\<rparr>))"

definition close_fid :: "p9_host \<Rightarrow> u32 \<Rightarrow> unit p9" where
  "close_fid host fid =
     p9_bind (get_fid host fid) (\<lambda>a.
     p9_bind (load_fid a) (\<lambda>pfid.
     p9_bind (if 0 < f_fd pfid then p9_bind (p9_call host (CloseF (f_fd pfid))) (\<lambda>_. p9_return ()) else p9_return ()) (\<lambda>_.
     p9_bind (case f_dir pfid of Some d \<Rightarrow> p9_bind (p9_call host (CloseDir d)) (\<lambda>_. p9_return ()) | None \<Rightarrow> p9_return ()) (\<lambda>_.
     erase_fid a))))"

section \<open>Paths\<close>

definition cstr :: "u8 list \<Rightarrow> u8 list" where
  "cstr bs = takeWhile (\<lambda>b. b \<noteq> 0) bs"

text \<open>The characters of the separator and of the name of the parent directory.\<close>

abbreviation (input) slash :: u8 where "slash \<equiv> 47"

definition dotdot :: "u8 list" where "dotdot = [46, 46]"

fun strstr :: "u8 list \<Rightarrow> u8 list \<Rightarrow> bool" where
  "strstr [] pat = (pat = [])"
| "strstr (c # cs) pat = (take (length pat) (c # cs) = pat \<or> strstr cs pat)"

definition path_is_illegal :: "path \<Rightarrow> bool" where
  "path_is_illegal path \<longleftrightarrow>
     strstr path (slash # dotdot @ [slash]) \<or> 3 \<le> length path \<and> drop (length path - 3) path = slash # dotdot"

definition get_full_path_helper :: "path \<Rightarrow> u8 list \<Rightarrow> path p9" where
  "get_full_path_helper dirname name =
     (let full_path = dirname @ slash # name
      in if PATH_MAX \<le> length full_path then p9_fail ENAMETOOLONG
         else if path_is_illegal full_path then p9_fail EACCES
         else p9_return full_path)"

definition abs_path :: "p9_fid \<Rightarrow> path p9" where
  "abs_path f = p9_get (\<lambda>s. root_dir s @ f_path f)"

definition get_full_path :: "p9_fid \<Rightarrow> u8 list \<Rightarrow> path p9" where
  "get_full_path f name = p9_bind (abs_path f) (\<lambda>p. get_full_path_helper p name)"

definition stat_rel :: "p9_host \<Rightarrow> path \<Rightarrow> p9_stat p9" where
  "stat_rel host path =
     p9_bind (p9_get root_dir) (\<lambda>root.
     p9_bind (get_full_path_helper root path) (\<lambda>full_path.
     p9_bind (p9_check host (Lstat full_path)) (\<lambda>r. p9_return (res_stat r))))"

text \<open>\<^verbatim>\<open>join_path\<close>; the callers treat a failure as \<^verbatim>\<open>ENAMETOOLONG\<close>, or ignore it.\<close>

definition join_path :: "nat \<Rightarrow> path \<Rightarrow> bool p9" where
  "join_path a name =
     p9_bind (p9_get root_dir) (\<lambda>root.
       if PATH_MAX - length root \<le> length name then p9_return False
       else p9_bind (store_fid a (\<lambda>f. f\<lparr>f_path := name\<rparr>)) (\<lambda>_. p9_return True))"

definition join_or_fail :: "nat \<Rightarrow> path \<Rightarrow> unit p9" where
  "join_or_fail a name = p9_bind (join_path a name) (\<lambda>ok. if ok then p9_return () else p9_fail ENAMETOOLONG)"

text \<open>\<^verbatim>\<open>path[size]\<close> behind a full prefix is the final zero or a separator.\<close>

definition virtio_p9_ancestor :: "path \<Rightarrow> path \<Rightarrow> bool" where
  "virtio_p9_ancestor path ancestor \<longleftrightarrow>
     take (length ancestor) path = ancestor \<and> (length path = length ancestor \<or> length ancestor < length path \<and> path ! length ancestor = slash)"

definition virtio_p9_fix_path :: "nat \<Rightarrow> path \<Rightarrow> path \<Rightarrow> unit p9" where
  "virtio_p9_fix_path a old_name new_name =
     p9_bind (load_fid a) (\<lambda>f.
       if length old_name = length (f_path f) then p9_bind (join_path a new_name) (\<lambda>_. p9_return ())
       else let tmp_name = new_name @ drop (length old_name) (f_path f)
         in if PATH_MAX \<le> length tmp_name then p9_return ()
            else p9_bind (join_path a tmp_name) (\<lambda>_. p9_return ()))"

definition P9_NOFID :: u32 where "P9_NOFID = -1"

fun rename_fids_loop :: "fid_node list \<Rightarrow> path \<Rightarrow> path \<Rightarrow> unit p9" where
  "rename_fids_loop [] old_name new_name = p9_return ()"
| "rename_fids_loop (n # ns) old_name new_name =
     p9_bind (load_fid (fn_addr n)) (\<lambda>f.
     p9_bind (if f_fid f \<noteq> P9_NOFID \<and> virtio_p9_ancestor (f_path f) old_name then virtio_p9_fix_path (fn_addr n) old_name new_name else p9_return ()) (\<lambda>_.
     rename_fids_loop ns old_name new_name))"

text \<open>The loop from \<^verbatim>\<open>rb_first\<close> with \<^verbatim>\<open>rb_next\<close> visits the entries in order.\<close>

definition rename_fids :: "path \<Rightarrow> path \<Rightarrow> unit p9" where
  "rename_fids old_name new_name = p9_bind (p9_get fid_tree) (\<lambda>t. rename_fids_loop (inorder t) old_name new_name)"

section \<open>The table as a map\<close>

lemma descend_cong: "(\<And>x. x \<in> set (inorder t) \<Longrightarrow> d x = d' x) \<Longrightarrow> rb_descend d p t = rb_descend d' p t"
  by (induction d p t rule: rb_descend.induct) (auto split: rb_dir.splits)

lemma insert_by_cong: "(\<And>x. x \<in> set (inorder t) \<Longrightarrow> d x = d' x) \<Longrightarrow> rb_insert_by d n t = rb_insert_by d' n t"
  unfolding rb_insert_by_def by (subst descend_cong [of t d d']) auto

definition small_fid :: "u32 \<Rightarrow> bool" where
  "small_fid k \<longleftrightarrow> k < 0x80000000"

lemma insert_dir_small:
  assumes "small_fid k" "small_fid (fn_fid n)"
  shows "insert_dir k n = key_dir fn_fid k n"
proof -
  have small: "uint k < 2 ^ 31" "uint (fn_fid n) < 2 ^ 31"
    using assms by (simp_all add: small_fid_def word_less_def)
  have "signed_take_bit 31 (uint k - uint (fn_fid n)) = uint k - uint (fn_fid n)"
    by (rule signed_take_bit_int_eq_self) (use small uint_ge_0 [of k] uint_ge_0 [of "fn_fid n"] in linarith)+
  then have "sint (k - fn_fid n) = uint k - uint (fn_fid n)"
    by (simp add: sint_uint uint_word_arith_bintrs signed_take_bit_take_bit)
  then show ?thesis
    by (auto simp: insert_dir_def key_dir_def Let_def word_less_def)
qed

text \<open>What the guest can tell of the table: which numbers stand for which identifier.\<close>

definition fid_view :: "p9_state \<Rightarrow> u32 \<Rightarrow> p9_fid option" where
  "fid_view s k = (case key_map fn_fid (fid_tree s) k of None \<Rightarrow> None | Some n \<Rightarrow> fid_store s (fn_addr n))"

definition fids_inv :: "p9_state \<Rightarrow> bool" where
  "fids_inv s \<longleftrightarrow> key_inv fn_fid (fid_tree s) \<and> (\<forall>n \<in> set (inorder (fid_tree s)). small_fid (fn_fid n)) \<and>
     distinct (map fn_addr (inorder (fid_tree s))) \<and> dom (fid_store s) = fn_addr ` set (inorder (fid_tree s)) \<and>
     (\<forall>a \<in> dom (fid_store s). a < fid_next s)"

definition fresh_fid :: "u32 \<Rightarrow> p9_fid" where
  "fresh_fid fid = \<lparr>f_fid = fid, f_uid = 0, f_path = [], f_dir = None, f_fd = 0\<rparr>"

lemma insert_fid_ok:
  assumes "fids_inv s" "small_fid fid" "key_map fn_fid (fid_tree s) fid = None"
  obtains t where "insert_new_fid \<lparr>fn_fid = fid, fn_addr = fid_next s\<rparr> (fid_tree s) = Ret (t, 0)"
    "fids_inv (s\<lparr>fid_tree := t, fid_store := (fid_store s)(fid_next s \<mapsto> fresh_fid fid), fid_next := fid_next s + 1\<rparr>)"
    "key_map fn_fid t = (key_map fn_fid (fid_tree s))(fid \<mapsto> \<lparr>fn_fid = fid, fn_addr = fid_next s\<rparr>)"
proof -
  let ?n = "\<lparr>fn_fid = fid, fn_addr = fid_next s\<rparr>"
  have key: "key_inv fn_fid (fid_tree s)" and small: "\<And>n. n \<in> set (inorder (fid_tree s)) \<Longrightarrow> small_fid (fn_fid n)"
    using assms(1) by (auto simp: fids_inv_def)
  have "rb_insert_by (insert_dir fid) ?n (fid_tree s) = rb_insert_by (key_dir fn_fid fid) ?n (fid_tree s)"
    by (rule insert_by_cong) (use insert_dir_small assms(2) small in blast)
  moreover from key obtain t xs ys where t: "rb_insert_by (key_dir fn_fid fid) ?n (fid_tree s) = Inserted t" "key_inv fn_fid t"
    "inorder (fid_tree s) = xs @ ys" "inorder t = xs @ ?n # ys" "key_map fn_fid t = (key_map fn_fid (fid_tree s))(fid \<mapsto> ?n)"
    by (rule key_insert_cases [of _ _ ?n]) (use assms(3) in auto)
  ultimately have "insert_new_fid ?n (fid_tree s) = Ret (t, 0)"
    by (simp add: insert_new_fid_def)
  moreover have "fids_inv (s\<lparr>fid_tree := t, fid_store := (fid_store s)(fid_next s \<mapsto> fresh_fid fid), fid_next := fid_next s + 1\<rparr>)"
    using assms(1,2) t by (auto simp: fids_inv_def less_Suc_eq)
  ultimately show thesis
    using that t(5) by blast
qed

lemma get_fid_ok:
  assumes "fids_inv s" "small_fid fid" "\<not> host_oom host" "length (root_dir s) < PATH_MAX"
  obtains a s' where "get_fid host fid s = Ret (Some a, s')" "fids_inv s'" "fid_store s' a = fid_view s' fid"
    "fid_view s' = (case fid_view s fid of None \<Rightarrow> (fid_view s)(fid \<mapsto> fresh_fid fid) | Some _ \<Rightarrow> fid_view s)"
    "sys_log s' = sys_log s" "root_dir s' = root_dir s" "\<exists>n \<in> set (inorder (fid_tree s')). fn_fid n = fid \<and> fn_addr n = a"
proof (cases "key_map fn_fid (fid_tree s) fid")
  case (Some n)
  then have n: "n \<in> set (inorder (fid_tree s))" "fn_fid n = fid"
    using assms(1) by (auto simp: fids_inv_def key_map_Some)
  then obtain f where "fid_store s (fn_addr n) = Some f"
    using assms(1) by (fastforce simp: fids_inv_def)
  with Some n assms(1) show ?thesis
    by (intro that [of "fn_addr n" s]) (auto simp: get_fid_def find_or_create_fid_def key_map_def fid_view_def)
next
  case None
  from assms(1,2) None obtain t where t: "insert_new_fid \<lparr>fn_fid = fid, fn_addr = fid_next s\<rparr> (fid_tree s) = Ret (t, 0)"
    "fids_inv (s\<lparr>fid_tree := t, fid_store := (fid_store s)(fid_next s \<mapsto> fresh_fid fid), fid_next := fid_next s + 1\<rparr>)" (is "fids_inv ?s")
    "key_map fn_fid t = (key_map fn_fid (fid_tree s))(fid \<mapsto> \<lparr>fn_fid = fid, fn_addr = fid_next s\<rparr>)"
    by (rule insert_fid_ok)
  have old: "fn_addr n \<noteq> fid_next s" if "key_map fn_fid (fid_tree s) k = Some n" for k n
    using that assms(1) by (fastforce simp: fids_inv_def key_map_Some)
  have view: "fid_view ?s = (fid_view s)(fid \<mapsto> fresh_fid fid)"
    using old by (auto simp: fid_view_def t(3) fun_eq_iff split: option.splits)
  have "get_fid host fid s = Ret (Some (fid_next s), ?s)"
    using None assms(3,4) t(1) by (simp add: get_fid_def find_or_create_fid_def key_map_def fresh_fid_def Let_def)
  moreover have "\<exists>n \<in> set (inorder (fid_tree ?s)). fn_fid n = fid \<and> fn_addr n = fid_next s"
    using t(2,3) key_map_Some [of fn_fid t fid "\<lparr>fn_fid = fid, fn_addr = fid_next s\<rparr>"] by (auto simp: fids_inv_def intro!: bexI)
  ultimately show ?thesis
    using t(2) view None by (intro that [of "fid_next s" ?s]) (auto simp: fid_view_def [of s])
qed


lemma erase_fid_ok:
  assumes "fids_inv s" "n \<in> set (inorder (fid_tree s))"
  obtains s' where "erase_fid (fn_addr n) s = Ret (Some (), s')" "fids_inv s'" "fid_view s' = (fid_view s)(fn_fid n := None)" "sys_log s' = sys_log s" "root_dir s' = root_dir s"
proof -
  have key: "key_inv fn_fid (fid_tree s)" and addr: "distinct (map fn_addr (inorder (fid_tree s)))"
    using assms(1) by (auto simp: fids_inv_def)
  have "\<exists>m \<in> set (inorder (fid_tree s)). fn_addr m = fn_addr n"
    using assms(2) by blast
  with key obtain t xs m ys where t: "rb_erase_entry (\<lambda>m. fn_addr m = fn_addr n) (fid_tree s) = Some t" "key_inv fn_fid t" "fn_addr m = fn_addr n"
    "inorder (fid_tree s) = xs @ m # ys" "inorder t = xs @ ys" "key_map fn_fid t = (key_map fn_fid (fid_tree s))(fn_fid m := None)"
    by (rule key_erase_cases)
  have m: "m = n"
    using addr t(3,4) assms(2) by (auto simp: rev_image_eqI)
  let ?s = "s\<lparr>fid_tree := t, fid_store := (fid_store s)(fn_addr n := None)\<rparr>"
  have "fids_inv ?s"
    using assms(1) t m by (auto simp: fids_inv_def rev_image_eqI)
  moreover have "fid_view ?s = (fid_view s)(fn_fid n := None)"
  proof
    fix k
    have "fn_addr n' \<noteq> fn_addr n" if "key_map fn_fid (fid_tree s) k = Some n'" "k \<noteq> fn_fid n" for n'
      using that key addr t(4) m by (auto simp: key_map_Some rev_image_eqI)
    then show "fid_view ?s k = ((fid_view s)(fn_fid n := None)) k"
      using m by (auto simp: fid_view_def t(6) split: option.splits)
  qed
  ultimately show thesis
    using that [of ?s] t(1) by (simp add: erase_fid_def)
qed

lemma fids_frame:
  assumes "fid_tree s' = fid_tree s" "fid_store s' = fid_store s" "fid_next s' = fid_next s"
  shows "fids_inv s' \<longleftrightarrow> fids_inv s" "fid_view s' = fid_view s"
  using assms by (simp_all add: fids_inv_def fid_view_def [abs_def] cong: option.case_cong)

text \<open>What closing an identifier closes on the host.\<close>

definition close_events :: "p9_fid \<Rightarrow> p9_event list" where
  "close_events f = (if 0 < f_fd f then [CloseF (f_fd f)] else []) @ (case f_dir f of Some d \<Rightarrow> [CloseDir d] | None \<Rightarrow> [])"

lemma close_fid_ok:
  assumes "fids_inv s" "small_fid fid" "\<not> host_oom host" "length (root_dir s) < PATH_MAX"
  shows "\<exists>s'. close_fid host fid s = Ret (Some (), s') \<and> fids_inv s' \<and> fid_view s' = (fid_view s)(fid := None) \<and> root_dir s' = root_dir s \<and>
    sys_log s' = sys_log s @ (case fid_view s fid of None \<Rightarrow> [] | Some f \<Rightarrow> close_events f)"
proof -
  obtain a s1 where s1: "get_fid host fid s = Ret (Some a, s1)" "fids_inv s1" "fid_store s1 a = fid_view s1 fid"
    "fid_view s1 = (case fid_view s fid of None \<Rightarrow> (fid_view s)(fid \<mapsto> fresh_fid fid) | Some _ \<Rightarrow> fid_view s)"
    "sys_log s1 = sys_log s" "root_dir s1 = root_dir s" "\<exists>n \<in> set (inorder (fid_tree s1)). fn_fid n = fid \<and> fn_addr n = a"
    using assms by (rule get_fid_ok)
  obtain n where n: "n \<in> set (inorder (fid_tree s1))" "fn_fid n = fid" "fn_addr n = a"
    using s1(7) by blast
  define f where "f = (case fid_view s fid of None \<Rightarrow> fresh_fid fid | Some f \<Rightarrow> f)"
  have f: "fid_store s1 a = Some f"
    using s1(3,4) by (auto simp: f_def split: option.splits)
  obtain s2 where s2: "close_fid host fid s = erase_fid a s2" "fid_tree s2 = fid_tree s1" "fid_store s2 = fid_store s1" "fid_next s2 = fid_next s1"
    "sys_log s2 = sys_log s1 @ close_events f" "root_dir s2 = root_dir s1"
    using f by (cases "0 < f_fd f"; cases "f_dir f")
      (simp_all add: close_fid_def p9_bind_def s1(1) load_fid_def p9_call_def p9_return_def Let_def close_events_def)
  have "fids_inv s2" "n \<in> set (inorder (fid_tree s2))" "fid_view s2 = fid_view s1"
    using fids_frame [OF s2(2-4)] s1(2) n(1) s2(2) by simp_all
  moreover from this(1,2) obtain s3 where "erase_fid (fn_addr n) s2 = Ret (Some (), s3)" "fids_inv s3" "fid_view s3 = (fid_view s2)(fn_fid n := None)"
    "sys_log s3 = sys_log s2" "root_dir s3 = root_dir s2"
    by (rule erase_fid_ok)
  ultimately show ?thesis
    using s2 n s1(4,5,6) by (auto simp: f_def fresh_fid_def close_events_def fun_eq_iff split: option.splits)
qed


text \<open>
  C15: For numbers below 2 to the power of 31 the table of identifiers is a map from numbers to identifiers. Looking a number up finds its identifier, or adds a new one for
  it, with everything else unchanged; closing it closes what it has open on the host, and then the number stands for nothing and everything else
  is unchanged. No node of the tree is lost or left behind.
\<close>

theorem fid_table_is_map:
  assumes "fids_inv s" "small_fid fid" "\<not> host_oom host" "length (root_dir s) < PATH_MAX"
  shows "(\<exists>a s'. get_fid host fid s = Ret (Some a, s') \<and> fids_inv s' \<and> fid_store s' a = fid_view s' fid \<and> sys_log s' = sys_log s \<and>
      fid_view s' = (case fid_view s fid of None \<Rightarrow> (fid_view s)(fid \<mapsto> fresh_fid fid) | Some _ \<Rightarrow> fid_view s)) \<and>
    (\<exists>s'. close_fid host fid s = Ret (Some (), s') \<and> fids_inv s' \<and> fid_view s' = (fid_view s)(fid := None) \<and>
      sys_log s' = sys_log s @ (case fid_view s fid of None \<Rightarrow> [] | Some f \<Rightarrow> close_events f))"
  using get_fid_ok [OF assms] close_fid_ok [OF assms] by metis

definition quiet_host :: p9_host where
  "quiet_host = \<lparr>sys_call = \<lambda>_ _. \<lparr>res_ret = 0, res_errno = 0,
       res_stat = \<lparr>st_mode = 0x4000, st_ino = 1, st_nlink = 1, st_uid = 0, st_gid = 0, st_rdev = 0, st_size = 0, st_blksize = 0, st_blocks = 0,
         st_atime = (0, 0), st_mtime = (0, 0), st_ctime = (0, 0)\<rparr>, res_bytes = [], res_dents = [],
       res_statfs = \<lparr>sf_type = 0, sf_bsize = 0, sf_blocks = 0, sf_bfree = 0, sf_bavail = 0, sf_files = 0, sf_ffree = 0, sf_fsid = (0, 0), sf_namelen = 0\<rparr>\<rparr>,
     host_oom = False, host_stack = \<lambda>_. 0\<rparr>"

definition idle_state :: p9_state where
  "idle_state = \<lparr>fid_tree = RBNull, fid_store = \<lambda>_. None, fid_next = 0, root_dir = [47, 114],
     cur_pdu = \<lparr>read_offset = 7, write_offset = 7, in_iov = [], out_iov = []\<rparr>, cur_mem = \<lambda>_. None, cur_errno = 0, cur_outlen = 0, sys_log = []\<rparr>"

lemma idle_ok: "fids_inv idle_state" "length (root_dir idle_state) < PATH_MAX" "fid_view idle_state = (\<lambda>_. None)"
  by (simp_all add: fids_inv_def idle_state_def PATH_MAX_def fid_view_def [abs_def] key_map_def rb_search_def)

theorem fid_table_is_map_witness:
  "(\<exists>a s'. get_fid quiet_host 5 idle_state = Ret (Some a, s') \<and> fid_store s' a = Some (fresh_fid 5) \<and> fid_view s' = [5 \<mapsto> fresh_fid 5]) \<and>
   (\<exists>s'. close_fid quiet_host 5 idle_state = Ret (Some (), s') \<and> fid_view s' = (\<lambda>_. None))"
proof -
  have "small_fid 5" "\<not> host_oom quiet_host"
    by (simp_all add: small_fid_def quiet_host_def)
  from fid_table_is_map [OF idle_ok(1) this idle_ok(2)] show ?thesis
    by (auto simp: idle_ok(3))
qed

text \<open>
  Numbers that are 2 to the power of 31 or more apart: the second one is put on the wrong side, and a lookup does not find it again but makes a second identifier, which
  is not in the tree.
\<close>

fun get_all :: "p9_host \<Rightarrow> u32 list \<Rightarrow> p9_state \<Rightarrow> (nat list \<times> nat) option" where
  "get_all host [] s = Some ([], length (inorder (fid_tree s)))"
| "get_all host (k # ks) s =
     (case get_fid host k s of
        Ret (Some a, s') \<Rightarrow> (case get_all host ks s' of Some (bs, n) \<Rightarrow> Some (a # bs, n) | None \<Rightarrow> None)
      | _ \<Rightarrow> None)"

lemma distant_fid_lost: "get_all quiet_host [1, 0x80000002, 0x80000002] idle_state = Some ([0, 1, 2], 2)"
  by code_simp

end
