(* ===== verification/P9Handlers.thy ===== *)
theory P9Handlers
  imports P9Fid
begin

text \<open>
  The request handlers of the 9P file server (\<^verbatim>\<open>virtio/9p.c\<close>), one definition for each handler of the table
  \<^verbatim>\<open>virtio_9p_dotl_handler\<close>. A handler reads its arguments from the buffers of the request, works on identifiers and host files, and writes its
  reply, or the error reply after a jump to \<^verbatim>\<open>err_out\<close>. Flag values are those of x86 Linux.
\<close>

section \<open>Arguments and replies\<close>

definition VIRTIO_9P_HDR_LEN :: nat where "VIRTIO_9P_HDR_LEN = 7"
definition P9_RLERROR :: u8 where "P9_RLERROR = 7"

definition readf :: "p9_host \<Rightarrow> string \<Rightarrow> p9_arg list p9" where
  "readf host fmt s =
     bind_outcome (virtio_p9_pdu_readf (host_oom host) (host_stack host) (cur_mem s) fmt (cur_pdu s)) (\<lambda>(pdu, vals, _). Ret (Some vals, s\<lparr>cur_pdu := pdu\<rparr>))"

definition writef :: "string \<Rightarrow> p9_arg list \<Rightarrow> unit p9" where
  "writef fmt args s =
     bind_outcome (virtio_p9_pdu_writef fmt args (cur_mem s) (cur_pdu s)) (\<lambda>(pdu, m, _). Ret (Some (), s\<lparr>cur_pdu := pdu, cur_mem := m\<rparr>))"

text \<open>The arguments that were read. A handler that uses a string that could not be allocated dereferences NULL.\<close>

definition arg8 :: "p9_arg list \<Rightarrow> nat \<Rightarrow> u8" where "arg8 vals i = (case vals ! i of Int8 w \<Rightarrow> w | _ \<Rightarrow> 0)"
definition arg16 :: "p9_arg list \<Rightarrow> nat \<Rightarrow> u16" where "arg16 vals i = (case vals ! i of Int16 w \<Rightarrow> w | _ \<Rightarrow> 0)"
definition arg32 :: "p9_arg list \<Rightarrow> nat \<Rightarrow> u32" where "arg32 vals i = (case vals ! i of Int32 w \<Rightarrow> w | _ \<Rightarrow> 0)"
definition arg64 :: "p9_arg list \<Rightarrow> nat \<Rightarrow> u64" where "arg64 vals i = (case vals ! i of Int64 w \<Rightarrow> w | _ \<Rightarrow> 0)"
definition argrec :: "p9_arg list \<Rightarrow> nat \<Rightarrow> p9_arg list" where "argrec vals i = (case vals ! i of Rec fs \<Rightarrow> fs | _ \<Rightarrow> [])"

definition argstr :: "p9_arg list \<Rightarrow> nat \<Rightarrow> u8 list option" where
  "argstr vals i = (case vals ! i of Str s \<Rightarrow> map_option cstr s | _ \<Rightarrow> None)"

definition use_str :: "u8 list option \<Rightarrow> u8 list p9" where
  "use_str s = (case s of None \<Rightarrow> p9_undefined | Some str \<Rightarrow> p9_return str)"

definition p9_update :: "(p9_state \<Rightarrow> p9_state) \<Rightarrow> unit p9" where
  "p9_update f s = Ret (Some (), f s)"

definition set_read_offset :: "nat \<Rightarrow> unit p9" where
  "set_read_offset n = p9_update (\<lambda>s. s\<lparr>cur_pdu := (cur_pdu s)\<lparr>read_offset := n\<rparr>\<rparr>)"

definition set_write_offset :: "nat \<Rightarrow> unit p9" where
  "set_write_offset n = p9_update (\<lambda>s. s\<lparr>cur_pdu := (cur_pdu s)\<lparr>write_offset := n\<rparr>\<rparr>)"

definition skip_write :: "nat \<Rightarrow> unit p9" where
  "skip_write n = p9_update (\<lambda>s. s\<lparr>cur_pdu := moved_out (cur_pdu s) n\<rparr>)"

definition set_outlen :: "u32 \<Rightarrow> unit p9" where
  "set_outlen n = p9_update (\<lambda>s. s\<lparr>cur_outlen := n\<rparr>)"

definition write_pos :: "nat p9" where
  "write_pos = p9_get (\<lambda>s. write_offset (cur_pdu s))"

definition p9_then :: "'a p9 \<Rightarrow> 'b p9 \<Rightarrow> 'b p9" where
  "p9_then m k = p9_bind m (\<lambda>_. k)"

definition virtio_p9_set_reply_header :: "p9_host \<Rightarrow> u32 \<Rightarrow> unit p9" where
  "virtio_p9_set_reply_header host len =
     p9_then (set_read_offset 4)
     (p9_bind (readf host ''bw'') (\<lambda>args.
     p9_then (set_write_offset 0)
     (writef ''dbw'' [Int32 len, Int8 (arg8 args 0 + 1), Int16 (arg16 args 1)])))"

definition virtio_p9_error_reply :: "p9_host \<Rightarrow> int \<Rightarrow> unit p9" where
  "virtio_p9_error_reply host err =
     p9_then (set_write_offset VIRTIO_9P_HDR_LEN)
     (p9_then (writef ''d'' [Int32 (word_of_int (if err = EMFILE then ENFILE else err))])
     (p9_bind write_pos (\<lambda>n.
     p9_then (set_outlen (of_nat n))
     (p9_then (set_read_offset 5)
     (p9_bind (readf host ''w'') (\<lambda>args.
     p9_then (set_write_offset 0)
     (writef ''dbw'' [Int32 (of_nat n), Int8 P9_RLERROR, Int16 (arg16 args 0)])))))))"

text \<open>The end of a handler: the length of what was written, and the header.\<close>

definition reply_with :: "p9_host \<Rightarrow> u32 \<Rightarrow> unit p9" where
  "reply_with host n = p9_then (set_outlen n) (virtio_p9_set_reply_header host n)"

definition reply :: "p9_host \<Rightarrow> unit p9" where
  "reply host = p9_bind write_pos (\<lambda>n. reply_with host (of_nat n))"

definition err_out :: "p9_host \<Rightarrow> unit p9 \<Rightarrow> unit p9" where
  "err_out host m s =
     bind_outcome (m s) (\<lambda>(r, s). case r of Some _ \<Rightarrow> Ret (Some (), s) | None \<Rightarrow> virtio_p9_error_reply host (cur_errno s) s)"

section \<open>Helpers\<close>

definition S_ISDIR :: "u32 \<Rightarrow> bool" where "S_ISDIR mode \<longleftrightarrow> mode AND 0xF000 = 0x4000"
definition P9_QTDIR :: u8 where "P9_QTDIR = 0x80"
definition P9_STATS_BASIC :: u64 where "P9_STATS_BASIC = 0x7ff"

definition stat2qid :: "p9_stat \<Rightarrow> p9_arg" where
  "stat2qid st = Rec [Int8 (if S_ISDIR (st_mode st) then P9_QTDIR else 0), Int32 (ucast (fst (st_mtime st))), Int64 (st_ino st)]"

text \<open>The fields of \<^verbatim>\<open>struct p9_stat_dotl\<close> in the order of the format \<^verbatim>\<open>A\<close>; those the code does not set are zero.\<close>

definition virtio_p9_fill_stat :: "p9_stat \<Rightarrow> p9_arg" where
  "virtio_p9_fill_stat st =
     Rec [Int64 P9_STATS_BASIC, stat2qid st, Int32 (st_mode st), Int32 (st_uid st), Int32 (st_gid st), Int64 (st_nlink st), Int64 (st_rdev st),
          Int64 (st_size st), Int64 (st_blksize st), Int64 (st_blocks st), Int64 (fst (st_atime st)), Int64 (snd (st_atime st)),
          Int64 (fst (st_mtime st)), Int64 (snd (st_mtime st)), Int64 (fst (st_ctime st)), Int64 (snd (st_ctime st)), Int64 0, Int64 0, Int64 0, Int64 0]"

definition O_CREAT :: u32 where "O_CREAT = 0x40"
definition O_NOCTTY :: u32 where "O_NOCTTY = 0x100"
definition O_ASYNC :: u32 where "O_ASYNC = 0x2000"
definition O_DIRECT :: u32 where "O_DIRECT = 0x4000"
definition O_NOFOLLOW :: u32 where "O_NOFOLLOW = 0x20000"

definition virtio_p9_openflags :: "u32 \<Rightarrow> u32" where
  "virtio_p9_openflags flags = (flags AND NOT (O_NOCTTY OR O_ASYNC OR O_CREAT OR O_DIRECT)) OR O_NOFOLLOW"

text \<open>The result of \<^verbatim>\<open>stat\<close> is not tested.\<close>

definition is_dir :: "p9_host \<Rightarrow> p9_fid \<Rightarrow> bool p9" where
  "is_dir host f = p9_bind (abs_path f) (\<lambda>p. p9_bind (p9_call host (StatF p)) (\<lambda>r. p9_return (S_ISDIR (st_mode (res_stat r)))))"

definition fid_of :: "p9_host \<Rightarrow> u32 \<Rightarrow> p9_fid p9" where
  "fid_of host fid = p9_bind (get_fid host fid) load_fid"

definition fid_abs_path :: "p9_host \<Rightarrow> u32 \<Rightarrow> path p9" where
  "fid_abs_path host fid = p9_bind (fid_of host fid) abs_path"

text \<open>The path of an entry of the directory that an identifier stands for.\<close>

definition entry_path :: "p9_host \<Rightarrow> u32 \<Rightarrow> u8 list option \<Rightarrow> path p9" where
  "entry_path host fid name = p9_bind (fid_of host fid) (\<lambda>f. p9_bind (use_str name) (get_full_path f))"

fun update_iov_loop :: "iovec list \<Rightarrow> u32 \<Rightarrow> u32 \<Rightarrow> iovec list \<times> nat" where
  "update_iov_loop [] count tot = ([], 0)"
| "update_iov_loop (v # iov) count tot =
     (if \<not> tot < count then (v # iov, 0)
      else if ucast count < ucast tot + iov_len v then (v\<lparr>iov_len := iov_len v - ((ucast tot + iov_len v) - ucast count)\<rparr> # iov, 1)
      else case update_iov_loop iov count (tot + ucast (iov_len v)) of (iov', n) \<Rightarrow> (v # iov', n + 1))"

definition virtio_p9_update_iov_cnt :: "iovec list \<Rightarrow> u32 \<Rightarrow> iovec list \<times> nat" where
  "virtio_p9_update_iov_cnt iov count = update_iov_loop iov count 0"

text \<open>Moving the start of the first buffer; its length wraps around when it is shorter.\<close>

definition skip_header :: "nat \<Rightarrow> iovec list \<Rightarrow> iovec list" where
  "skip_header n iov = (case iov of [] \<Rightarrow> [] | v # vs \<Rightarrow> v\<lparr>iov_base := iov_base v + of_nat n, iov_len := iov_len v - of_nat n\<rparr> # vs)"

text \<open>Afterwards only the first buffer is put back.\<close>

definition restore_first :: "iovec list \<Rightarrow> iovec list \<Rightarrow> iovec list" where
  "restore_first iov iov' = (case iov of [] \<Rightarrow> iov' | v # _ \<Rightarrow> v # tl iov')"

section \<open>Opening and creating\<close>

definition dotl :: "u8 list" where "dotl = [57, 80, 50, 48, 48, 48, 46, 76]"
definition unknown :: "u8 list" where "unknown = [117, 110, 107, 110, 111, 119, 110]"

definition virtio_p9_version :: "p9_host \<Rightarrow> unit p9" where
  "virtio_p9_version host =
     p9_bind (readf host ''ds'') (\<lambda>args.
     p9_bind (use_str (argstr args 1)) (\<lambda>version.
     p9_then (writef ''ds'' [Int32 (arg32 args 0), Str (Some (if version = dotl then version else unknown))])
     (reply host)))"

definition virtio_p9_clunk :: "p9_host \<Rightarrow> unit p9" where
  "virtio_p9_clunk host =
     p9_bind (readf host ''d'') (\<lambda>args.
     p9_then (close_fid host (arg32 args 0))
     (reply host))"

definition open_fid :: "p9_host \<Rightarrow> nat \<Rightarrow> p9_fid \<Rightarrow> path \<Rightarrow> u32 \<Rightarrow> unit p9" where
  "open_fid host a f path flags =
     p9_bind (is_dir host f) (\<lambda>dir.
       if dir then
         p9_bind (p9_call host (OpenDir path)) (\<lambda>r.
         p9_then (store_fid a (\<lambda>f. f\<lparr>f_dir := if res_ret r < 0 then None else Some (res_ret r)\<rparr>))
         (\<lambda>s. Ret (if res_ret r < 0 then None else Some (), s)))
       else
         p9_bind (p9_call host (OpenF path (virtio_p9_openflags flags) None)) (\<lambda>r.
         p9_then (store_fid a (\<lambda>f. f\<lparr>f_fd := res_ret r\<rparr>))
         (\<lambda>s. Ret (if res_ret r < 0 then None else Some (), s))))"

definition virtio_p9_open :: "p9_host \<Rightarrow> unit p9" where
  "virtio_p9_open host = err_out host
    (p9_bind (readf host ''dd'') (\<lambda>args.
     p9_bind (get_fid host (arg32 args 0)) (\<lambda>new_fid.
     p9_bind (load_fid new_fid) (\<lambda>f.
     p9_bind (abs_path f) (\<lambda>path.
     p9_bind (p9_check host (Lstat path)) (\<lambda>r.
     p9_then (open_fid host new_fid f path (arg32 args 1))
     (p9_then (writef ''Qd'' [stat2qid (res_stat r), Int32 0])
     (reply host))))))))"

text \<open>
  The path of the identifier is changed before the file is opened. A path that does not fit is cut off and a zero is stored behind the end of the
  array.
\<close>

definition move_into :: "p9_host \<Rightarrow> nat \<Rightarrow> p9_fid \<Rightarrow> u8 list \<Rightarrow> unit p9" where
  "move_into host a f name =
     (if host_oom host then p9_fail ENOMEM
      else p9_bind (p9_get root_dir) (\<lambda>root.
        if PATH_MAX - length root \<le> length (f_path f @ slash # name) then p9_undefined
        else store_fid a (\<lambda>x. x\<lparr>f_path := f_path f @ slash # name\<rparr>)))"

definition virtio_p9_create :: "p9_host \<Rightarrow> unit p9" where
  "virtio_p9_create host = err_out host
    (p9_bind (readf host ''dsddd'') (\<lambda>args.
     let flags = virtio_p9_openflags (arg32 args 2); mode = arg32 args 3 in
     p9_bind (get_fid host (arg32 args 0)) (\<lambda>dfid.
     p9_bind (load_fid dfid) (\<lambda>f.
     p9_bind (use_str (argstr args 1)) (\<lambda>name.
     p9_bind (get_full_path f name) (\<lambda>full_path.
     p9_then (move_into host dfid f name)
     (p9_bind (p9_check host (OpenF full_path (flags OR O_CREAT) (Some mode))) (\<lambda>fd.
     p9_then (store_fid dfid (\<lambda>f. f\<lparr>f_fd := res_ret fd\<rparr>))
     (p9_bind (p9_check host (Lstat full_path)) (\<lambda>r.
     p9_then (p9_check host (ChMod full_path (mode AND 0x1FF)))
     (p9_then (writef ''Qd'' [stat2qid (res_stat r), Int32 0])
     (reply host))))))))))))"


text \<open>The end of the handlers that made a file: its status, its permissions, and the reply.\<close>

definition made_file :: "p9_host \<Rightarrow> path \<Rightarrow> u32 \<Rightarrow> p9_stat p9" where
  "made_file host full_path mode =
     p9_bind (p9_check host (Lstat full_path)) (\<lambda>r.
     p9_then (p9_check host (ChMod full_path (mode AND 0x1FF)))
     (p9_return (res_stat r)))"

definition virtio_p9_mkdir :: "p9_host \<Rightarrow> unit p9" where
  "virtio_p9_mkdir host = err_out host
    (p9_bind (readf host ''dsdd'') (\<lambda>args.
     p9_bind (entry_path host (arg32 args 0) (argstr args 1)) (\<lambda>full_path.
     p9_then (p9_check host (MkDir full_path (arg32 args 2)))
     (p9_bind (made_file host full_path (arg32 args 2)) (\<lambda>st.
     p9_then (writef ''Qd'' [stat2qid st, Int32 0])
     (reply host))))))"

definition virtio_p9_mknod :: "p9_host \<Rightarrow> unit p9" where
  "virtio_p9_mknod host = err_out host
    (p9_bind (readf host ''dsdddd'') (\<lambda>args.
     p9_bind (entry_path host (arg32 args 0) (argstr args 1)) (\<lambda>full_path.
     p9_then (p9_check host (MkNod full_path (arg32 args 2) (arg32 args 3) (arg32 args 4)))
     (p9_bind (made_file host full_path (arg32 args 2)) (\<lambda>st.
     p9_then (writef ''Q'' [stat2qid st])
     (reply host))))))"

definition virtio_p9_symlink :: "p9_host \<Rightarrow> unit p9" where
  "virtio_p9_symlink host = err_out host
    (p9_bind (readf host ''dssd'') (\<lambda>args.
     p9_bind (entry_path host (arg32 args 0) (argstr args 1)) (\<lambda>new_name.
     p9_bind (use_str (argstr args 2)) (\<lambda>old_path.
     p9_then (p9_check host (SymLink old_path new_name))
     (p9_bind (p9_check host (Lstat new_name)) (\<lambda>r.
     p9_then (writef ''Q'' [stat2qid (res_stat r)])
     (reply host)))))))"

definition virtio_p9_link :: "p9_host \<Rightarrow> unit p9" where
  "virtio_p9_link host = err_out host
    (p9_bind (readf host ''dds'') (\<lambda>args.
     p9_bind (fid_of host (arg32 args 0)) (\<lambda>dfid.
     p9_bind (fid_abs_path host (arg32 args 1)) (\<lambda>path.
     p9_bind (use_str (argstr args 2)) (\<lambda>name.
     p9_bind (get_full_path dfid name) (\<lambda>full_path.
     p9_then (p9_check host (LinkF path full_path))
     (reply host)))))))"

section \<open>Walking\<close>

text \<open>
  The loop over the names. Its counter \<open>i\<close> has 8 bits and the count 16, so that it may go on until the path is too long; \<open>fuel\<close> bounds the turns, and \<open>stop\<close> is what happens after the last of them.
\<close>

primrec walk_loop :: "nat \<Rightarrow> u16 p9 \<Rightarrow> p9_host \<Rightarrow> nat \<Rightarrow> nat \<Rightarrow> u16 \<Rightarrow> u8 \<Rightarrow> u16 \<Rightarrow> u16 p9" where
  "walk_loop 0 stop host new_fid fid nwname i nwqid = stop"
| "walk_loop (Suc fuel) stop host new_fid fid nwname i nwqid =
     (if \<not> ucast i < nwname then p9_return nwqid
      else p9_bind (readf host ''s'') (\<lambda>args.
        p9_bind (load_fid new_fid) (\<lambda>f.
        p9_bind (use_str (argstr args 0)) (\<lambda>str.
        let tmp = f_path f @ slash # str in
        if PATH_MAX \<le> length tmp then p9_fail ENAMETOOLONG
        else p9_bind (stat_rel host tmp) (\<lambda>st.
        p9_then (join_or_fail new_fid tmp)
        (p9_bind (load_fid fid) (\<lambda>f.
        p9_then (store_fid new_fid (\<lambda>n. n\<lparr>f_uid := f_uid f\<rparr>))
        (p9_then (writef ''Q'' [stat2qid st])
        (walk_loop fuel stop host new_fid fid nwname (i + 1) (nwqid + 1))))))))))"

definition virtio_p9_walk :: "p9_host \<Rightarrow> unit p9" where
  "virtio_p9_walk host = err_out host
    (p9_bind (readf host ''ddw'') (\<lambda>args.
     p9_bind (get_fid host (arg32 args 1)) (\<lambda>new_fid.
     p9_bind (if arg16 args 2 \<noteq> 0 then
         p9_bind (get_fid host (arg32 args 0)) (\<lambda>fid.
         p9_bind (load_fid fid) (\<lambda>f.
         p9_then (join_or_fail new_fid (f_path f))
         (p9_then (skip_write 2)
         (walk_loop (PATH_MAX + 1) p9_undefined host new_fid fid (arg16 args 2) 0 0))))
       else
         p9_then (skip_write 2)
         (p9_bind (fid_of host (arg32 args 0)) (\<lambda>old_fid.
         p9_then (join_or_fail new_fid (f_path old_fid))
         (p9_then (store_fid new_fid (\<lambda>n. n\<lparr>f_uid := f_uid old_fid\<rparr>))
         (p9_return 0))))) (\<lambda>nwqid.
     p9_bind write_pos (\<lambda>n.
     p9_then (set_outlen (of_nat n))
     (p9_then (set_write_offset VIRTIO_9P_HDR_LEN)
     (p9_then (writef ''d'' [Int32 (ucast nwqid)])
     (virtio_p9_set_reply_header host (of_nat n)))))))))"

definition virtio_p9_attach :: "p9_host \<Rightarrow> unit p9" where
  "virtio_p9_attach host = err_out host
    (p9_bind (readf host ''ddssd'') (\<lambda>args.
     p9_bind (p9_get root_dir) (\<lambda>root.
     p9_bind (p9_check host (Lstat root)) (\<lambda>r.
     p9_bind (get_fid host (arg32 args 0)) (\<lambda>fid.
     p9_then (store_fid fid (\<lambda>f. f\<lparr>f_uid := arg32 args 4\<rparr>))
     (p9_then (join_or_fail fid [slash])
     (p9_then (writef ''Q'' [stat2qid (res_stat r)])
     (reply host))))))))"

section \<open>Reading and writing\<close>

text \<open>A failed \<^verbatim>\<open>preadv\<close> is -1, which the comparison turns into \<open>count\<close>. The host's kernel stores what it read in the buffers.\<close>

definition pread_into :: "p9_host \<Rightarrow> int \<Rightarrow> iovec list \<Rightarrow> u64 \<Rightarrow> u32 p9" where
  "pread_into host fd iov offset =
     p9_bind (p9_call host (PReadV fd iov offset)) (\<lambda>r s.
       bind_outcome (pdu_write_loop iov 0 (take (nat (res_ret r)) (res_bytes r)) (cur_mem s)) (\<lambda>(m, _).
         Ret (Some (word_of_int (res_ret r)), s\<lparr>cur_mem := m\<rparr>)))"

definition virtio_p9_read :: "p9_host \<Rightarrow> unit p9" where
  "virtio_p9_read host =
     p9_bind (readf host ''dqd'') (\<lambda>args.
     let count = arg32 args 2 in
     p9_bind (fid_of host (arg32 args 0)) (\<lambda>fid.
     p9_bind (p9_get (\<lambda>s. in_iov (cur_pdu s))) (\<lambda>iov.
     case virtio_p9_update_iov_cnt (skip_header (VIRTIO_9P_HDR_LEN + 4) iov) count of (iov', n) \<Rightarrow>
     p9_bind (pread_into host (f_fd fid) (take n iov') (arg64 args 1)) (\<lambda>res.
     let rcount = (if count < res then count else res) in
     p9_then (p9_update (\<lambda>s. s\<lparr>cur_pdu := (cur_pdu s)\<lparr>in_iov := restore_first iov iov', write_offset := VIRTIO_9P_HDR_LEN\<rparr>\<rparr>))
     (p9_then (writef ''d'' [Int32 rcount])
     (p9_bind write_pos (\<lambda>n.
     reply_with host (of_nat n + rcount))))))))"

definition virtio_p9_write :: "p9_host \<Rightarrow> unit p9" where
  "virtio_p9_write host = err_out host
    (p9_bind (readf host ''dqd'') (\<lambda>args.
     p9_bind (fid_of host (arg32 args 0)) (\<lambda>fid.
     p9_bind (p9_get (\<lambda>s. out_iov (cur_pdu s))) (\<lambda>iov.
     case virtio_p9_update_iov_cnt (skip_header (7 + 16) iov) (arg32 args 2) of (iov', n) \<Rightarrow>
     p9_bind (\<lambda>s. bind_outcome (pdu_read_loop (take n iov') 0 (\<Sum>v\<leftarrow>take n iov'. unat (iov_len v)) (cur_mem s)) (\<lambda>bs. Ret (Some bs, s))) (\<lambda>bs.
     p9_bind (p9_call host (PWriteV (f_fd fid) bs (arg64 args 1))) (\<lambda>r.
     p9_then (p9_update (\<lambda>s. s\<lparr>cur_pdu := (cur_pdu s)\<lparr>out_iov := restore_first iov iov'\<rparr>\<rparr>))
     (if res_ret r < 0 then (\<lambda>s. Ret (None, s))
      else p9_then (writef ''d'' [Int32 (word_of_int (res_ret r))])
       (reply host))))))))"

definition virtio_p9_dentry_size :: "p9_dirent \<Rightarrow> nat" where
  "virtio_p9_dentry_size dent = 24 + length (d_name dent)"

definition stat_all_ones :: p9_stat where
  "stat_all_ones =
     \<lparr>st_mode = -1, st_ino = -1, st_nlink = -1, st_uid = -1, st_gid = -1, st_rdev = -1, st_size = -1, st_blksize = -1, st_blocks = -1,
      st_atime = (-1, -1), st_mtime = (-1, -1), st_ctime = (-1, -1)\<rparr>"

definition p9_try :: "'a p9 \<Rightarrow> 'a option p9" where
  "p9_try m s = bind_outcome (m s) (\<lambda>(r, s). Ret (Some r, s))"

fun readdir_loop :: "p9_dirent list \<Rightarrow> p9_host \<Rightarrow> int \<Rightarrow> u32 \<Rightarrow> u64 \<Rightarrow> u32 \<Rightarrow> u32 p9" where
  "readdir_loop [] host dir count old_offset rcount = p9_return rcount"
| "readdir_loop (dent # dents) host dir count old_offset rcount =
     (if count < rcount + of_nat (virtio_p9_dentry_size dent) then
        p9_then (p9_call host (SeekDir dir old_offset)) (p9_return rcount)
      else
        p9_bind (p9_try (stat_rel host (d_name dent))) (\<lambda>st.
        p9_bind write_pos (\<lambda>before.
        p9_then (writef ''Qqbs'' [stat2qid (case st of None \<Rightarrow> stat_all_ones | Some st \<Rightarrow> st), Int64 (d_off dent), Int8 (d_type dent), Str (Some (d_name dent))])
        (p9_bind write_pos (\<lambda>after.
        readdir_loop dents host dir count (d_off dent) (rcount + (of_nat after - of_nat before)))))))"

definition virtio_p9_readdir :: "p9_host \<Rightarrow> unit p9" where
  "virtio_p9_readdir host = err_out host
    (p9_bind (readf host ''dqd'') (\<lambda>args.
     p9_bind (fid_of host (arg32 args 0)) (\<lambda>fid.
     p9_bind (is_dir host fid) (\<lambda>dir.
     if \<not> dir then p9_fail EINVAL
     else case f_dir fid of
       None \<Rightarrow> p9_undefined
     | Some d \<Rightarrow>
         p9_bind (p9_call host (SeekDir d (arg64 args 1))) (\<lambda>r.
         p9_then (skip_write 4)
         (p9_bind (readdir_loop (res_dents r) host d (arg32 args 2) (arg64 args 1) 0) (\<lambda>rcount.
         p9_then (set_write_offset VIRTIO_9P_HDR_LEN)
         (p9_then (writef ''d'' [Int32 rcount])
         (p9_bind write_pos (\<lambda>n.
         reply_with host (of_nat n + rcount)))))))))))"

section \<open>Attributes\<close>

definition virtio_p9_getattr :: "p9_host \<Rightarrow> unit p9" where
  "virtio_p9_getattr host = err_out host
    (p9_bind (readf host ''dq'') (\<lambda>args.
     p9_bind (fid_abs_path host (arg32 args 0)) (\<lambda>path.
     p9_bind (p9_check host (Lstat path)) (\<lambda>r.
     p9_then (writef ''A'' [virtio_p9_fill_stat (res_stat r)])
     (reply host)))))"

definition ATTR_MODE :: u32 where "ATTR_MODE = 0x1"
definition ATTR_UID :: u32 where "ATTR_UID = 0x2"
definition ATTR_GID :: u32 where "ATTR_GID = 0x4"
definition ATTR_SIZE :: u32 where "ATTR_SIZE = 0x8"
definition ATTR_ATIME :: u32 where "ATTR_ATIME = 0x10"
definition ATTR_MTIME :: u32 where "ATTR_MTIME = 0x20"
definition ATTR_CTIME :: u32 where "ATTR_CTIME = 0x40"
definition ATTR_ATIME_SET :: u32 where "ATTR_ATIME_SET = 0x80"
definition ATTR_MTIME_SET :: u32 where "ATTR_MTIME_SET = 0x100"
definition ATTR_MASK :: u32 where "ATTR_MASK = 127"

definition attr_time :: "u32 \<Rightarrow> u32 \<Rightarrow> u32 \<Rightarrow> u64 \<Rightarrow> u64 \<Rightarrow> utime" where
  "attr_time valid flag set_flag sec nsec =
     (if valid AND flag \<noteq> 0 then if valid AND set_flag \<noteq> 0 then UTIME_AT sec nsec else UTIME_NOW else UTIME_OMIT)"

definition when_p9 :: "bool \<Rightarrow> 'a p9 \<Rightarrow> unit p9" where
  "when_p9 b m = (if b then p9_then m (p9_return ()) else p9_return ())"

definition virtio_p9_setattr :: "p9_host \<Rightarrow> unit p9" where
  "virtio_p9_setattr host = err_out host
    (p9_bind (readf host ''dI'') (\<lambda>args.
     let attr = argrec args 1; valid = arg32 attr 0 in
     p9_bind (fid_abs_path host (arg32 args 0)) (\<lambda>path.
     p9_then (when_p9 (valid AND ATTR_MODE \<noteq> 0) (p9_check host (ChMod path (arg32 attr 1))))
     (p9_then (when_p9 (valid AND (ATTR_ATIME OR ATTR_MTIME) \<noteq> 0)
         (p9_check host (UTimes path (attr_time valid ATTR_ATIME ATTR_ATIME_SET (arg64 attr 5) (arg64 attr 6))
            (attr_time valid ATTR_MTIME ATTR_MTIME_SET (arg64 attr 7) (arg64 attr 8)))))
     (p9_then (when_p9 (valid AND (ATTR_UID OR ATTR_GID) \<noteq> 0 \<or> valid AND ATTR_CTIME \<noteq> 0 \<and> (valid AND ATTR_MASK) AND NOT ATTR_CTIME = 0)
         (p9_check host (LChown path (if valid AND ATTR_UID = 0 then -1 else arg32 attr 2) (if valid AND ATTR_GID = 0 then -1 else arg32 attr 3))))
     (p9_then (when_p9 (valid AND ATTR_SIZE \<noteq> 0) (p9_check host (Truncate path (arg64 attr 4))))
     (reply_with host (of_nat VIRTIO_9P_HDR_LEN))))))))"

definition virtio_p9_readlink :: "p9_host \<Rightarrow> unit p9" where
  "virtio_p9_readlink host = err_out host
    (p9_bind (readf host ''d'') (\<lambda>args.
     p9_bind (fid_abs_path host (arg32 args 0)) (\<lambda>path.
     p9_bind (p9_check host (ReadLink path)) (\<lambda>r.
     p9_then (writef ''s'' [Str (Some (cstr (take (PATH_MAX - 1) (res_bytes r))))])
     (reply host)))))"

definition virtio_p9_statfs :: "p9_host \<Rightarrow> unit p9" where
  "virtio_p9_statfs host = err_out host
    (p9_bind (readf host ''d'') (\<lambda>args.
     p9_bind (fid_abs_path host (arg32 args 0)) (\<lambda>path.
     p9_bind (p9_check host (StatFs path)) (\<lambda>r.
     let sf = res_statfs r; fsid = ucast (fst (sf_fsid sf)) OR push_bit 32 (scast (snd (sf_fsid sf))) in
     p9_then (writef ''ddqqqqqqd'' [Int32 (ucast (sf_type sf)), Int32 (ucast (sf_bsize sf)), Int64 (sf_blocks sf), Int64 (sf_bfree sf),
        Int64 (sf_bavail sf), Int64 (sf_files sf), Int64 (sf_ffree sf), Int64 fsid, Int32 (ucast (sf_namelen sf))])
     (reply host)))))"

section \<open>Removing, renaming, synchronizing\<close>

definition virtio_p9_remove :: "p9_host \<Rightarrow> unit p9" where
  "virtio_p9_remove host = err_out host
    (p9_bind (readf host ''d'') (\<lambda>args.
     p9_bind (fid_abs_path host (arg32 args 0)) (\<lambda>path.
     p9_then (p9_check host (Remove path))
     (reply host))))"

definition virtio_p9_unlinkat :: "p9_host \<Rightarrow> unit p9" where
  "virtio_p9_unlinkat host = err_out host
    (p9_bind (readf host ''dsd'') (\<lambda>args.
     p9_bind (entry_path host (arg32 args 0) (argstr args 1)) (\<lambda>full_path.
     p9_then (p9_check host (Remove full_path))
     (reply host))))"

definition virtio_p9_rename :: "p9_host \<Rightarrow> unit p9" where
  "virtio_p9_rename host = err_out host
    (p9_bind (readf host ''dds'') (\<lambda>args.
     p9_bind (fid_abs_path host (arg32 args 0)) (\<lambda>path.
     p9_bind (entry_path host (arg32 args 1) (argstr args 2)) (\<lambda>full_path.
     p9_then (p9_check host (Rename path full_path))
     (reply host)))))"

definition virtio_p9_renameat :: "p9_host \<Rightarrow> unit p9" where
  "virtio_p9_renameat host = err_out host
    (p9_bind (readf host ''dsds'') (\<lambda>args.
     p9_bind (fid_of host (arg32 args 0)) (\<lambda>old_dfid.
     p9_bind (fid_of host (arg32 args 2)) (\<lambda>new_dfid.
     p9_bind (use_str (argstr args 1)) (\<lambda>old_name.
     p9_bind (get_full_path old_dfid old_name) (\<lambda>old_full_path.
     p9_bind (use_str (argstr args 3)) (\<lambda>new_name.
     p9_bind (get_full_path new_dfid new_name) (\<lambda>new_full_path.
     p9_then (p9_check host (Rename old_full_path new_full_path))
     (p9_then (rename_fids old_name new_name)
     (reply host))))))))))"

definition virtio_p9_fsync :: "p9_host \<Rightarrow> unit p9" where
  "virtio_p9_fsync host = err_out host
    (p9_bind (readf host ''dd'') (\<lambda>args.
     p9_bind (fid_of host (arg32 args 0)) (\<lambda>fid.
     p9_bind (case f_dir fid of Some d \<Rightarrow> p9_bind (p9_call host (DirFd d)) (\<lambda>r. p9_return (res_ret r)) | None \<Rightarrow> p9_return (f_fd fid)) (\<lambda>fd.
     p9_then (p9_check host (if arg32 args 1 \<noteq> 0 then FDataSync fd else FSync fd))
     (reply host)))))"

section \<open>Locks and the rest\<close>

definition P9_LOCK_SUCCESS :: u8 where "P9_LOCK_SUCCESS = 0"
definition F_UNLCK :: u8 where "F_UNLCK = 2"

definition virtio_p9_lock :: "p9_host \<Rightarrow> unit p9" where
  "virtio_p9_lock host =
     p9_then (readf host ''dbdqqds'')
     (p9_then (writef ''d'' [Int32 (ucast P9_LOCK_SUCCESS)])
     (reply host))"

definition virtio_p9_getlock :: "p9_host \<Rightarrow> unit p9" where
  "virtio_p9_getlock host =
     p9_bind (readf host ''dbqqds'') (\<lambda>args.
     p9_then (writef ''bqqds'' [Int8 F_UNLCK, Int64 (arg64 args 2), Int64 (arg64 args 3), Int32 (arg32 args 4), Str (argstr args 5)])
     (reply host))"

definition virtio_p9_flush :: "p9_host \<Rightarrow> unit p9" where
  "virtio_p9_flush host =
     p9_bind (readf host ''ww'') (\<lambda>args.
     p9_then (writef ''w'' [Int16 (arg16 args 0)])
     (reply host))"

definition virtio_p9_eopnotsupp :: "p9_host \<Rightarrow> unit p9" where
  "virtio_p9_eopnotsupp host = virtio_p9_error_reply host EOPNOTSUPP"

end
