(* ===== verification/P9Safety.thy ===== *)
theory P9Safety
  imports P9Handlers
begin

text \<open>
  Where the 9P file server works on the host: the paths of its calls stay below the root directory of the device. \<open>keeps\<close> says of a piece of a handler that
  it keeps the invariant \<open>p9_inv\<close>, which says so of the calls made and of the paths of the identifiers, and that its result has a property; there is a rule for
  each way to put pieces together and for each piece, and the handlers follow by these rules.
\<close>

section \<open>Paths below the root directory\<close>

text \<open>The components of a path, and the paths that stay below the root directory when they are followed component by component.\<close>

function comps :: "path \<Rightarrow> u8 list list" where
  "comps p = takeWhile (\<lambda>c. c \<noteq> slash) p # (case dropWhile (\<lambda>c. c \<noteq> slash) p of [] \<Rightarrow> [] | _ # r \<Rightarrow> comps r)"
  by pat_completeness auto
termination
proof (relation "measure length")
  fix p c r
  assume "dropWhile (\<lambda>c. c \<noteq> slash) p = c # r"
  then have "length (c # r) \<le> length p"
    by (metis length_dropWhile_le)
  then show "(r, p) \<in> measure length"
    by simp
qed simp

declare comps.simps [simp del]

definition path_legal :: "path \<Rightarrow> bool" where
  "path_legal q \<longleftrightarrow> (q = [] \<or> hd q = slash) \<and> dotdot \<notin> set (comps q)"

definition confined :: "path \<Rightarrow> path \<Rightarrow> bool" where
  "confined root p \<longleftrightarrow> (\<exists>q. p = root @ q \<and> path_legal q)"

lemma comps_place: "x \<in> set (comps q) \<Longrightarrow> (\<exists>pre post. slash # q = pre @ slash # x @ slash # post) \<or> (\<exists>pre. slash # q = pre @ slash # x)"
proof (induction q rule: comps.induct)
  case (1 p)
  let ?P = "\<lambda>c. c \<noteq> (47 :: u8)"
  have split: "p = takeWhile ?P p @ dropWhile ?P p"
    by simp
  show ?case
  proof (cases "dropWhile ?P p")
    case Nil
    then have "comps p = [p]"
      using split by (subst comps.simps, subst Nil) simp
    then have "47 # p = [] @ 47 # x"
      using "1.prems" by simp
    then show ?thesis
      by blast
  next
    case (Cons c r)
    have c: "c = 47"
      using hd_dropWhile [of ?P p] Cons by simp
    have p: "p = takeWhile ?P p @ 47 # r"
      using split Cons c by simp
    consider "x = takeWhile ?P p" | "x \<in> set (comps r)"
      using "1.prems" Cons by (subst (asm) comps.simps) auto
    then show ?thesis
    proof cases
      case 1
      then have "47 # p = [] @ 47 # x @ 47 # r"
        using p by simp
      then show ?thesis
        by blast
    next
      case 2
      from "1.IH" [OF Cons 2] have "(\<exists>pre post. 47 # r = pre @ 47 # x @ 47 # post) \<or> (\<exists>pre. 47 # r = pre @ 47 # x)" .
      then show ?thesis
      proof (elim disjE exE)
        fix pre post
        assume "47 # r = pre @ 47 # x @ 47 # post"
        then have "47 # p = (47 # takeWhile ?P p @ pre) @ 47 # x @ 47 # post"
          using p by (metis append.assoc append_Cons)
        then show ?thesis
          by blast
      next
        fix pre
        assume "47 # r = pre @ 47 # x"
        then have "47 # p = (47 # takeWhile ?P p @ pre) @ 47 # x"
          using p by (metis append.assoc append_Cons)
        then show ?thesis
          by blast
      qed
    qed
  qed
qed

lemma strstr_infix: "strstr (pre @ pat @ post) pat"
proof (induction pre)
  case Nil
  have "take (length pat) (pat @ post) = pat"
    by simp
  then show ?case by (cases "pat @ post") auto
qed simp

text \<open>The test refuses a path behind the root directory that has the parent directory as one of its components.\<close>

lemma illegal_dotdot:
  assumes "dotdot \<in> set (comps (slash # q))"
  shows "path_is_illegal (root @ slash # q)"
proof -
  have "dotdot \<in> set (comps q)"
    using assms by (subst (asm) comps.simps) (auto simp: dotdot_def)
  from comps_place [OF this] show ?thesis
  proof (elim disjE exE)
    fix pre post
    assume "slash # q = pre @ slash # dotdot @ slash # post"
    then have "root @ slash # q = (root @ pre) @ (slash # dotdot @ [slash]) @ post"
      by simp
    then show ?thesis
      unfolding path_is_illegal_def using strstr_infix by metis
  next
    fix pre
    assume "slash # q = pre @ slash # dotdot"
    then have "root @ slash # q = (root @ pre) @ (slash # dotdot)"
      by simp
    then show ?thesis
      unfolding path_is_illegal_def by (simp add: dotdot_def)
  qed
qed

lemma legal_path_legal: "\<not> path_is_illegal (root @ slash # q) \<Longrightarrow> path_legal (slash # q)"
  using illegal_dotdot by (auto simp: path_legal_def)

lemma path_legal_simps [simp]: "path_legal []" "path_legal [slash]"
  by (simp_all add: path_legal_def comps.simps dotdot_def)

lemma path_legal_join:
  assumes "path_legal p" "\<not> path_is_illegal (root @ p @ slash # name)"
  shows "path_legal (p @ slash # name)"
proof (cases p)
  case Nil
  then show ?thesis using assms legal_path_legal by simp
next
  case (Cons c p')
  then show ?thesis using assms legal_path_legal [of root "p' @ slash # name"] by (simp add: path_legal_def)
qed

lemma path_legal_below: "path_legal p \<Longrightarrow> path_legal (slash # p @ slash # name) \<Longrightarrow> path_legal (p @ slash # name)"
  by (cases p) (auto simp: path_legal_def comps.simps [of "_ # _"])

lemma confined_root [simp]: "confined root root"
  by (auto simp: confined_def)

lemma confinedI: "path_legal p \<Longrightarrow> confined root (root @ p)"
  by (auto simp: confined_def)

section \<open>What a handler may do\<close>

fun event_paths :: "p9_event \<Rightarrow> path list" where
  "event_paths (Lstat p) = [p]"
| "event_paths (StatF p) = [p]"
| "event_paths (OpenDir p) = [p]"
| "event_paths (OpenF p _ _) = [p]"
| "event_paths (MkDir p _) = [p]"
| "event_paths (ChMod p _) = [p]"
| "event_paths (UTimes p _ _) = [p]"
| "event_paths (LChown p _ _) = [p]"
| "event_paths (Truncate p _) = [p]"
| "event_paths (Remove p) = [p]"
| "event_paths (Rename p q) = [p, q]"
| "event_paths (ReadLink p) = [p]"
| "event_paths (StatFs p) = [p]"
| "event_paths (MkNod p _ _ _) = [p]"
| "event_paths (SymLink _ p) = [p]"
| "event_paths (LinkF p q) = [p, q]"
| "event_paths _ = []"

definition p9_inv :: "path \<Rightarrow> p9_state \<Rightarrow> bool" where
  "p9_inv root s \<longleftrightarrow> root_dir s = root \<and> (\<forall>e \<in> set (sys_log s). list_all (confined root) (event_paths e)) \<and>
     (\<forall>a f. fid_store s a = Some f \<longrightarrow> path_legal (f_path f))"

definition keeps :: "path \<Rightarrow> 'a p9 \<Rightarrow> ('a \<Rightarrow> bool) \<Rightarrow> bool" where
  "keeps root m Q \<longleftrightarrow> (\<forall>s r s'. p9_inv root s \<longrightarrow> m s = Ret (r, s') \<longrightarrow> p9_inv root s' \<and> (\<forall>x. r = Some x \<longrightarrow> Q x))"

lemma keepsI:
  assumes "\<And>s r s'. p9_inv root s \<Longrightarrow> m s = Ret (r, s') \<Longrightarrow> p9_inv root s' \<and> (\<forall>x. r = Some x \<longrightarrow> Q x)"
  shows "keeps root m Q"
  using assms by (auto simp: keeps_def)

lemma keeps_mono: "keeps root m Q \<Longrightarrow> (\<And>x. Q x \<Longrightarrow> R x) \<Longrightarrow> keeps root m R"
  by (auto simp: keeps_def)

lemma p9_bindE:
  assumes "p9_bind m f s = Ret (r, s')"
  obtains o1 s1 where "m s = Ret (o1, s1)" "(case o1 of None \<Rightarrow> Ret (None, s1) | Some x \<Rightarrow> f x s1) = Ret (r, s')"
  using assms by (auto simp: p9_bind_def bind_outcome_Ret)

lemma keeps_bind: "keeps root m (\<lambda>x. keeps root (f x) R) \<Longrightarrow> keeps root (p9_bind m f) R"
proof (rule keepsI)
  fix s r s'
  assume m: "keeps root m (\<lambda>x. keeps root (f x) R)" and s: "p9_inv root s" "p9_bind m f s = Ret (r, s')"
  obtain o1 s1 where s1: "m s = Ret (o1, s1)" "(case o1 of None \<Rightarrow> Ret (None, s1) | Some x \<Rightarrow> f x s1) = Ret (r, s')"
    using s(2) by (rule p9_bindE)
  have k: "p9_inv root s1 \<and> (\<forall>x. o1 = Some x \<longrightarrow> keeps root (f x) R)"
    using m s(1) s1(1) unfolding keeps_def [of root m] by blast
  show "p9_inv root s' \<and> (\<forall>x. r = Some x \<longrightarrow> R x)"
  proof (cases o1)
    case None
    then show ?thesis using s1(2) k by simp
  next
    case (Some x)
    then have "keeps root (f x) R" "f x s1 = Ret (r, s')"
      using s1(2) k by simp_all
    then show ?thesis using k unfolding keeps_def by blast
  qed
qed

lemma keeps_then: "keeps root m (\<lambda>_. keeps root k R) \<Longrightarrow> keeps root (p9_then m k) R"
  by (simp add: p9_then_def keeps_bind)

lemma keeps_return: "R x \<Longrightarrow> keeps root (p9_return x) R"
  by (auto simp: keeps_def p9_return_def)

lemma keeps_undefined: "keeps root p9_undefined R"
  by (auto simp: keeps_def p9_undefined_def)

lemma keeps_fail: "keeps root (p9_fail e) R"
  by (auto simp: keeps_def p9_fail_def p9_inv_def)

lemma keeps_None: "keeps root (\<lambda>s. Ret (None, s)) R"
  by (auto simp: keeps_def)

lemma keeps_get: "(\<And>s. root_dir s = root \<Longrightarrow> R (f s)) \<Longrightarrow> keeps root (p9_get f) R"
  by (auto simp: keeps_def p9_get_def p9_inv_def)

lemma keeps_call:
  assumes "list_all (confined root) (event_paths e)" "\<And>r. R r"
  shows "keeps root (p9_call host e) R"
  using assms by (auto simp: keeps_def p9_call_def p9_inv_def Let_def)

lemma keeps_check:
  assumes "list_all (confined root) (event_paths e)" "\<And>r. R r"
  shows "keeps root (p9_check host e) R"
  unfolding p9_check_def by (intro keeps_bind keeps_call) (use assms in \<open>auto simp: keeps_def split: if_splits\<close>)

lemma keeps_load: "(\<And>f. path_legal (f_path f) \<Longrightarrow> R f) \<Longrightarrow> keeps root (load_fid a) R"
  by (auto simp: keeps_def load_fid_def p9_inv_def split: option.splits)

lemma keeps_store:
  assumes "\<And>f. path_legal (f_path f) \<Longrightarrow> path_legal (f_path (g f))" "R ()"
  shows "keeps root (store_fid a g) R"
  using assms by (auto simp: keeps_def store_fid_def p9_inv_def split: option.splits if_splits)

lemma keeps_get_fid: "(\<And>a. R a) \<Longrightarrow> keeps root (get_fid host fid) R"
  by (rule keepsI) (auto simp: get_fid_def find_or_create_fid_def bind_outcome_Ret p9_inv_def Let_def split: option.splits if_splits)

lemma keeps_erase: "R () \<Longrightarrow> keeps root (erase_fid a) R"
  by (auto simp: keeps_def erase_fid_def p9_inv_def split: option.splits if_splits)

lemma keeps_if: "(b \<Longrightarrow> keeps root m R) \<Longrightarrow> (\<not> b \<Longrightarrow> keeps root k R) \<Longrightarrow> keeps root (if b then m else k) R"
  by simp

lemma keeps_option: "(x = None \<Longrightarrow> keeps root m R) \<Longrightarrow> (\<And>y. x = Some y \<Longrightarrow> keeps root (k y) R) \<Longrightarrow> keeps root (case x of None \<Rightarrow> m | Some y \<Rightarrow> k y) R"
  by (cases x) auto


lemma keeps_update: "(\<And>s. p9_inv root (g s) = p9_inv root s) \<Longrightarrow> R () \<Longrightarrow> keeps root (p9_update g) R"
  by (auto simp: keeps_def p9_update_def)

lemma keeps_use_str: "(\<And>str. s = Some str \<Longrightarrow> R str) \<Longrightarrow> keeps root (use_str s) R"
  by (auto simp: use_str_def intro: keeps_return keeps_undefined split: option.splits)

lemma keeps_readf: "(\<And>args. R args) \<Longrightarrow> keeps root (readf host fmt) R"
  by (rule keepsI) (auto simp: readf_def bind_outcome_Ret p9_inv_def)

lemma keeps_writef: "R () \<Longrightarrow> keeps root (writef fmt args) R"
  by (rule keepsI) (auto simp: writef_def bind_outcome_Ret p9_inv_def)

lemma keeps_try: "keeps root m (\<lambda>x. R (Some x)) \<Longrightarrow> R None \<Longrightarrow> keeps root (p9_try m) R"
  unfolding keeps_def p9_try_def bind_outcome_Ret by (auto, metis option.exhaust)

lemma keeps_prod: "(\<And>a b. x = (a, b) \<Longrightarrow> keeps root (f a b) R) \<Longrightarrow> keeps root (case x of (a, b) \<Rightarrow> f a b) R"
  by (cases x) auto

lemmas keeps_steps = keeps_prod keeps_bind keeps_then keeps_return keeps_undefined keeps_fail keeps_None keeps_call keeps_check keeps_load keeps_get_fid keeps_erase
  keeps_if keeps_option keeps_use_str keeps_readf keeps_writef keeps_try

lemma keeps_abs_path: "path_legal (f_path f) \<Longrightarrow> (\<And>p. confined root p \<Longrightarrow> R p) \<Longrightarrow> keeps root (abs_path f) R"
  unfolding abs_path_def by (rule keeps_get) (simp add: confinedI)

lemma keeps_full_path_helper:
  assumes "\<And>p. p = dir @ slash # name \<Longrightarrow> \<not> path_is_illegal p \<Longrightarrow> R p"
  shows "keeps root (get_full_path_helper dir name) R"
  unfolding get_full_path_helper_def Let_def by (intro keeps_steps) (simp add: assms)

lemma keeps_full_path_legal:
  assumes "path_legal (f_path f)" "\<And>p. confined root p \<Longrightarrow> path_legal (f_path f @ slash # name) \<Longrightarrow> R p"
  shows "keeps root (get_full_path f name) R"
proof -
  have "confined root p \<and> path_legal (f_path f @ slash # name)" if "p = (root @ f_path f) @ slash # name" "\<not> path_is_illegal p" for p
    using path_legal_join [OF assms(1), of root name] that by (auto simp: confined_def)
  then show ?thesis
    unfolding get_full_path_def abs_path_def by (intro keeps_bind keeps_get keeps_full_path_helper) (auto intro: assms(2))
qed

lemma keeps_full_path: "path_legal (f_path f) \<Longrightarrow> (\<And>p. confined root p \<Longrightarrow> R p) \<Longrightarrow> keeps root (get_full_path f name) R"
  by (rule keeps_full_path_legal)

text \<open>A path that was found below the root directory can be the path of an identifier.\<close>

lemma keeps_stat_rel:
  assumes "\<And>st. path_legal (slash # p) \<Longrightarrow> R st"
  shows "keeps root (stat_rel host p) R"
  unfolding stat_rel_def
proof (intro keeps_steps keeps_get keeps_full_path_helper)
  fix s :: p9_state and q r
  assume q: "root_dir s = root" "q = root_dir s @ slash # p" "\<not> path_is_illegal q"
  then have ok: "path_legal (slash # p)"
    using legal_path_legal by auto
  then show "list_all (confined root) (event_paths (Lstat q))" "R (res_stat r)"
    using q assms by (auto simp: confined_def)
qed

lemma keeps_join_path: "path_legal p \<Longrightarrow> (\<And>b. R b) \<Longrightarrow> keeps root (join_path a p) R"
  unfolding join_path_def by (intro keeps_steps keeps_get keeps_store) auto

lemma keeps_join: "path_legal p \<Longrightarrow> R () \<Longrightarrow> keeps root (join_or_fail a p) R"
  unfolding join_or_fail_def by (intro keeps_steps keeps_join_path) auto

lemma keeps_fid_of: "(\<And>f. path_legal (f_path f) \<Longrightarrow> R f) \<Longrightarrow> keeps root (fid_of host fid) R"
  unfolding fid_of_def by (intro keeps_steps)

lemma keeps_fid_abs_path: "(\<And>p. confined root p \<Longrightarrow> R p) \<Longrightarrow> keeps root (fid_abs_path host fid) R"
  unfolding fid_abs_path_def by (intro keeps_bind keeps_fid_of keeps_abs_path)

lemma keeps_entry_path: "(\<And>p. confined root p \<Longrightarrow> R p) \<Longrightarrow> keeps root (entry_path host fid name) R"
  unfolding entry_path_def by (intro keeps_bind keeps_fid_of keeps_use_str keeps_full_path)

lemma keeps_offsets:
  "R () \<Longrightarrow> keeps root (set_read_offset n) R" "R () \<Longrightarrow> keeps root (set_write_offset n) R" "R () \<Longrightarrow> keeps root (skip_write n) R" "R () \<Longrightarrow> keeps root (set_outlen l) R"
  unfolding set_read_offset_def set_write_offset_def skip_write_def set_outlen_def by (auto intro!: keeps_update simp: p9_inv_def)

lemma keeps_write_pos: "(\<And>n. R n) \<Longrightarrow> keeps root write_pos R"
  unfolding write_pos_def by (rule keeps_get)

lemma keeps_header: "R () \<Longrightarrow> keeps root (virtio_p9_set_reply_header host n) R"
  unfolding virtio_p9_set_reply_header_def by (intro keeps_steps keeps_offsets)

lemma keeps_error_reply: "R () \<Longrightarrow> keeps root (virtio_p9_error_reply host e) R"
  unfolding virtio_p9_error_reply_def by (intro keeps_steps keeps_offsets keeps_write_pos)

lemma keeps_reply_with: "R () \<Longrightarrow> keeps root (reply_with host n) R"
  unfolding reply_with_def by (intro keeps_steps keeps_offsets keeps_header)

lemma keeps_reply: "R () \<Longrightarrow> keeps root (reply host) R"
  unfolding reply_def by (intro keeps_steps keeps_write_pos keeps_reply_with)

lemma keeps_err_out:
  assumes "keeps root m (\<lambda>_. True)"
  shows "keeps root (err_out host m) (\<lambda>_. True)"
proof (rule keepsI)
  fix s r s'
  assume s: "p9_inv root s" "err_out host m s = Ret (r, s')"
  obtain o1 s1 where s1: "m s = Ret (o1, s1)" "(case o1 of Some _ \<Rightarrow> Ret (Some (), s1) | None \<Rightarrow> virtio_p9_error_reply host (cur_errno s1) s1) = Ret (r, s')"
    using s(2) by (auto simp: err_out_def bind_outcome_Ret)
  have "p9_inv root s1"
    using assms s(1) s1(1) by (auto simp: keeps_def)
  then show "p9_inv root s' \<and> (\<forall>x. r = Some x \<longrightarrow> True)"
    using s1(2) keeps_error_reply [of "\<lambda>_. True" root host "cur_errno s1"] unfolding keeps_def by (cases o1) auto
qed

lemma keeps_is_dir: "path_legal (f_path f) \<Longrightarrow> (\<And>b. R b) \<Longrightarrow> keeps root (is_dir host f) R"
  unfolding is_dir_def by (intro keeps_steps keeps_abs_path) auto

lemma keeps_close_fid: "R () \<Longrightarrow> keeps root (close_fid host fid) R"
  unfolding close_fid_def by (intro keeps_steps) auto

lemmas keeps_parts = keeps_steps keeps_abs_path keeps_full_path keeps_stat_rel keeps_join keeps_fid_of keeps_fid_abs_path keeps_entry_path keeps_offsets
  keeps_write_pos keeps_header keeps_error_reply keeps_reply_with keeps_reply keeps_is_dir keeps_close_fid keeps_err_out

section \<open>The handlers\<close>

lemma keeps_version: "keeps root (virtio_p9_version host) (\<lambda>_. True)"
  unfolding virtio_p9_version_def by (intro keeps_parts) auto

lemma keeps_clunk: "keeps root (virtio_p9_clunk host) (\<lambda>_. True)"
  unfolding virtio_p9_clunk_def by (intro keeps_parts) auto

lemma keeps_branch: "(\<not> b \<Longrightarrow> R ()) \<Longrightarrow> keeps root (\<lambda>s. Ret (if b then None else Some (), s)) R"
  by (simp add: keeps_def)

lemma keeps_open_fid: "path_legal (f_path f) \<Longrightarrow> confined root p \<Longrightarrow> R () \<Longrightarrow> keeps root (open_fid host a f p flags) R"
  unfolding open_fid_def by (intro keeps_parts keeps_store keeps_branch) auto

lemma keeps_open: "keeps root (virtio_p9_open host) (\<lambda>_. True)"
  unfolding virtio_p9_open_def by (intro keeps_parts keeps_open_fid) auto

lemma keeps_made_file: "confined root p \<Longrightarrow> (\<And>st. R st) \<Longrightarrow> keeps root (made_file host p mode) R"
  unfolding made_file_def by (intro keeps_parts) auto

lemma keeps_mkdir: "keeps root (virtio_p9_mkdir host) (\<lambda>_. True)"
  unfolding virtio_p9_mkdir_def by (intro keeps_parts keeps_made_file) auto

lemma keeps_mknod: "keeps root (virtio_p9_mknod host) (\<lambda>_. True)"
  unfolding virtio_p9_mknod_def by (intro keeps_parts keeps_made_file) auto

lemma keeps_symlink: "keeps root (virtio_p9_symlink host) (\<lambda>_. True)"
  unfolding virtio_p9_symlink_def by (intro keeps_parts) auto

lemma keeps_link: "keeps root (virtio_p9_link host) (\<lambda>_. True)"
  unfolding virtio_p9_link_def by (intro keeps_parts) auto

lemma keeps_attach: "keeps root (virtio_p9_attach host) (\<lambda>_. True)"
  unfolding virtio_p9_attach_def by (intro keeps_parts keeps_get keeps_store) auto

lemma keeps_getattr: "keeps root (virtio_p9_getattr host) (\<lambda>_. True)"
  unfolding virtio_p9_getattr_def by (intro keeps_parts) auto

lemma keeps_when: "keeps root m (\<lambda>_. R ()) \<Longrightarrow> R () \<Longrightarrow> keeps root (when_p9 b m) R"
  unfolding when_p9_def by (intro keeps_steps) (auto intro: keeps_mono keeps_return)

lemma keeps_setattr: "keeps root (virtio_p9_setattr host) (\<lambda>_. True)"
  unfolding virtio_p9_setattr_def Let_def by (intro keeps_parts keeps_when) auto

lemma keeps_readlink: "keeps root (virtio_p9_readlink host) (\<lambda>_. True)"
  unfolding virtio_p9_readlink_def by (intro keeps_parts) auto

lemma keeps_statfs: "keeps root (virtio_p9_statfs host) (\<lambda>_. True)"
  unfolding virtio_p9_statfs_def Let_def by (intro keeps_parts) auto

lemma keeps_remove: "keeps root (virtio_p9_remove host) (\<lambda>_. True)"
  unfolding virtio_p9_remove_def by (intro keeps_parts) auto

lemma keeps_unlinkat: "keeps root (virtio_p9_unlinkat host) (\<lambda>_. True)"
  unfolding virtio_p9_unlinkat_def by (intro keeps_parts) auto

lemma keeps_rename: "keeps root (virtio_p9_rename host) (\<lambda>_. True)"
  unfolding virtio_p9_rename_def by (intro keeps_parts) auto

lemma keeps_fsync: "keeps root (virtio_p9_fsync host) (\<lambda>_. True)"
  unfolding virtio_p9_fsync_def by (intro keeps_parts) auto

lemma keeps_lock: "keeps root (virtio_p9_lock host) (\<lambda>_. True)"
  unfolding virtio_p9_lock_def by (intro keeps_parts) auto

lemma keeps_getlock: "keeps root (virtio_p9_getlock host) (\<lambda>_. True)"
  unfolding virtio_p9_getlock_def by (intro keeps_parts) auto

lemma keeps_flush: "keeps root (virtio_p9_flush host) (\<lambda>_. True)"
  unfolding virtio_p9_flush_def by (intro keeps_parts) auto

lemma keeps_eopnotsupp: "keeps root (virtio_p9_eopnotsupp host) (\<lambda>_. True)"
  unfolding virtio_p9_eopnotsupp_def by (intro keeps_parts) auto


lemma keeps_create: "keeps root (virtio_p9_create host) (\<lambda>_. True)"
proof -
  have move: "keeps root (move_into host a f name) R" if "path_legal (f_path f @ slash # name)" "R ()" for a f name and R :: "unit \<Rightarrow> bool"
    unfolding move_into_def by (intro keeps_steps keeps_get keeps_store) (use that in auto)
  show ?thesis
    unfolding virtio_p9_create_def Let_def
    by (intro keeps_err_out keeps_steps keeps_full_path_legal move keeps_store keeps_reply) auto
qed

lemma keeps_walk_loop: "(\<And>n. R n) \<Longrightarrow> keeps root (walk_loop fuel p9_undefined host new_fid fid nwname i nwqid) R"
proof (induction fuel arbitrary: i nwqid)
  case 0
  then show ?case by (simp add: keeps_undefined)
next
  case (Suc fuel)
  show ?case
    unfolding walk_loop.simps Let_def
    by (intro keeps_steps keeps_stat_rel keeps_join keeps_store Suc) (use Suc.prems path_legal_below in auto)
qed

lemma keeps_walk: "keeps root (virtio_p9_walk host) (\<lambda>_. True)"
  unfolding virtio_p9_walk_def by (intro keeps_parts keeps_walk_loop keeps_store) auto

lemma keeps_read: "keeps root (virtio_p9_read host) (\<lambda>_. True)"
proof -
  have pread: "keeps root (pread_into host fd iov offset) R" if "\<And>n. R n" for fd iov offset R
    unfolding pread_into_def
    by (intro keeps_bind keeps_call keepsI) (use that in \<open>auto simp: bind_outcome_Ret p9_inv_def\<close>)
  show ?thesis
    unfolding virtio_p9_read_def Let_def
    by (intro keeps_parts keeps_get keeps_update pread) (auto simp: p9_inv_def)
qed

lemma keeps_write: "keeps root (virtio_p9_write host) (\<lambda>_. True)"
proof -
  have peek: "keeps root (\<lambda>s. bind_outcome (g s) (\<lambda>bs. Ret (Some bs, s))) R" if "\<And>bs. R bs" for g :: "p9_state \<Rightarrow> u8 list outcome" and R
    by (intro keepsI) (use that in \<open>auto simp: bind_outcome_Ret\<close>)
  show ?thesis
    unfolding virtio_p9_write_def
    by (intro keeps_parts keeps_get keeps_update peek) (auto simp: p9_inv_def)
qed

lemma keeps_readdir_loop: "(\<And>n. R n) \<Longrightarrow> keeps root (readdir_loop dents host dir count old rcount) R"
  by (induction dents host dir count old rcount rule: readdir_loop.induct) (simp add: keeps_return, auto intro!: keeps_parts)

lemma keeps_readdir: "keeps root (virtio_p9_readdir host) (\<lambda>_. True)"
  unfolding virtio_p9_readdir_def by (intro keeps_parts keeps_readdir_loop) auto

text \<open>An old name that is a plain name is not the start of a path: no identifier changes.\<close>

definition plain :: "u8 list \<Rightarrow> bool" where
  "plain name \<longleftrightarrow> name \<noteq> [] \<and> hd name \<noteq> slash"

lemma plain_not_ancestor: "plain name \<Longrightarrow> path_legal p \<Longrightarrow> \<not> virtio_p9_ancestor p name"
  by (cases name; cases p) (auto simp: plain_def path_legal_def virtio_p9_ancestor_def)

lemma keeps_rename_fids: "plain old_name \<Longrightarrow> R () \<Longrightarrow> keeps root (rename_fids old_name new_name) R"
proof -
  assume a: "plain old_name" "R ()"
  have "keeps root (rename_fids_loop ns old_name new_name) R" for ns
    by (induction ns) (use a plain_not_ancestor in \<open>auto intro!: keeps_steps\<close>)
  then show ?thesis
    unfolding rename_fids_def by (intro keeps_bind keeps_get)
qed


text \<open>The old name of a request to rename, read the way the handler does.\<close>

definition rename_plain :: "p9_host \<Rightarrow> p9_state \<Rightarrow> bool" where
  "rename_plain host s \<longleftrightarrow>
     (case readf host ''dsds'' s of Ret (Some args, _) \<Rightarrow> (case argstr args 1 of Some name \<Rightarrow> plain name | None \<Rightarrow> True) | _ \<Rightarrow> True)"

lemma err_out_inv:
  assumes "\<And>r s'. m s = Ret (r, s') \<Longrightarrow> p9_inv root s'" "err_out host m s = Ret (r, s')"
  shows "p9_inv root s'"
proof -
  obtain o1 s1 where s1: "m s = Ret (o1, s1)" "(case o1 of Some _ \<Rightarrow> Ret (Some (), s1) | None \<Rightarrow> virtio_p9_error_reply host (cur_errno s1) s1) = Ret (r, s')"
    using assms(2) by (auto simp: err_out_def bind_outcome_Ret)
  then show ?thesis
    using assms(1) [OF s1(1)] keeps_error_reply [of "\<lambda>_. True" root host "cur_errno s1"] unfolding keeps_def by (cases o1) auto
qed

lemma renameat_inv:
  assumes "p9_inv root s" "rename_plain host s" "virtio_p9_renameat host s = Ret (r, s')"
  shows "p9_inv root s'"
proof (rule err_out_inv [OF _ assms(3) [unfolded virtio_p9_renameat_def]])
  fix r s'
  let ?rest = "\<lambda>args.
     p9_bind (fid_of host (arg32 args 0)) (\<lambda>old_dfid.
     p9_bind (fid_of host (arg32 args 2)) (\<lambda>new_dfid.
     p9_bind (use_str (argstr args 1)) (\<lambda>old_name.
     p9_bind (get_full_path old_dfid old_name) (\<lambda>old_full_path.
     p9_bind (use_str (argstr args 3)) (\<lambda>new_name.
     p9_bind (get_full_path new_dfid new_name) (\<lambda>new_full_path.
     p9_then (p9_check host (Rename old_full_path new_full_path))
     (p9_then (rename_fids old_name new_name)
     (reply host))))))))"
  assume m: "p9_bind (readf host ''dsds'') ?rest s = Ret (r, s')"
  then obtain o1 s1 where rd: "readf host ''dsds'' s = Ret (o1, s1)" "(case o1 of None \<Rightarrow> Ret (None, s1) | Some args \<Rightarrow> ?rest args s1) = Ret (r, s')"
    by (rule p9_bindE)
  have i1: "p9_inv root s1"
    using keeps_readf [of "\<lambda>_. True" root host "''dsds''"] assms(1) rd(1) unfolding keeps_def by blast
  show "p9_inv root s'"
  proof (cases o1)
    case None
    then show ?thesis using rd(2) i1 by simp
  next
    case (Some args)
    then have "argstr args 1 = Some name \<Longrightarrow> plain name" for name
      using assms(2) rd(1) by (auto simp: rename_plain_def)
    then have "keeps root (?rest args) (\<lambda>_. True)"
      by (intro keeps_parts keeps_rename_fids) auto
    then show ?thesis
      using rd(2) i1 Some unfolding keeps_def by auto
  qed
qed

end
