(* ===== verification/P9Server.thy ===== *)
theory P9Server
  imports P9Safety VirtioServe
begin

text \<open>
  The 9P device (\<^verbatim>\<open>virtio/9p.c\<close>): the table of handlers, serving a request and the loop over the queue, what happens when the device
  stops, and the registration of root directories from the command line.

  \<^verbatim>\<open>realpath\<close>, \<^verbatim>\<open>stat\<close> and the directory of \<^verbatim>\<open>kvm__get_dir\<close> are parameters. Raising the interrupt of the queue is counted.
\<close>

section \<open>The table of handlers\<close>

definition P9_TSTATFS :: u8 where "P9_TSTATFS = 8"
definition P9_TLOPEN :: u8 where "P9_TLOPEN = 12"
definition P9_TLCREATE :: u8 where "P9_TLCREATE = 14"
definition P9_TSYMLINK :: u8 where "P9_TSYMLINK = 16"
definition P9_TMKNOD :: u8 where "P9_TMKNOD = 18"
definition P9_TRENAME :: u8 where "P9_TRENAME = 20"
definition P9_TREADLINK :: u8 where "P9_TREADLINK = 22"
definition P9_TGETATTR :: u8 where "P9_TGETATTR = 24"
definition P9_TSETATTR :: u8 where "P9_TSETATTR = 26"
definition P9_TXATTRWALK :: u8 where "P9_TXATTRWALK = 30"
definition P9_TXATTRCREATE :: u8 where "P9_TXATTRCREATE = 32"
definition P9_TREADDIR :: u8 where "P9_TREADDIR = 40"
definition P9_TFSYNC :: u8 where "P9_TFSYNC = 50"
definition P9_TLOCK :: u8 where "P9_TLOCK = 52"
definition P9_TGETLOCK :: u8 where "P9_TGETLOCK = 54"
definition P9_TLINK :: u8 where "P9_TLINK = 70"
definition P9_TMKDIR :: u8 where "P9_TMKDIR = 72"
definition P9_TRENAMEAT :: u8 where "P9_TRENAMEAT = 74"
definition P9_TUNLINKAT :: u8 where "P9_TUNLINKAT = 76"
definition P9_TVERSION :: u8 where "P9_TVERSION = 100"
definition P9_TATTACH :: u8 where "P9_TATTACH = 104"
definition P9_TFLUSH :: u8 where "P9_TFLUSH = 108"
definition P9_TWALK :: u8 where "P9_TWALK = 110"
definition P9_TREAD :: u8 where "P9_TREAD = 116"
definition P9_TWRITE :: u8 where "P9_TWRITE = 118"
definition P9_TCLUNK :: u8 where "P9_TCLUNK = 120"
definition P9_TREMOVE :: u8 where "P9_TREMOVE = 122"

lemmas p9_types = P9_TSTATFS_def P9_TLOPEN_def P9_TLCREATE_def P9_TSYMLINK_def P9_TMKNOD_def P9_TRENAME_def P9_TREADLINK_def P9_TGETATTR_def P9_TSETATTR_def
  P9_TXATTRWALK_def P9_TXATTRCREATE_def P9_TREADDIR_def P9_TFSYNC_def P9_TLOCK_def P9_TGETLOCK_def P9_TLINK_def P9_TMKDIR_def P9_TRENAMEAT_def
  P9_TUNLINKAT_def P9_TVERSION_def P9_TATTACH_def P9_TFLUSH_def P9_TWALK_def P9_TREAD_def P9_TWRITE_def P9_TCLUNK_def P9_TREMOVE_def

definition virtio_9p_dotl_handler :: "(u8 \<times> (p9_host \<Rightarrow> unit p9)) list" where
  "virtio_9p_dotl_handler =
     [(P9_TREADDIR, virtio_p9_readdir), (P9_TSTATFS, virtio_p9_statfs), (P9_TGETATTR, virtio_p9_getattr), (P9_TSETATTR, virtio_p9_setattr),
      (P9_TXATTRWALK, virtio_p9_eopnotsupp), (P9_TXATTRCREATE, virtio_p9_eopnotsupp), (P9_TMKNOD, virtio_p9_mknod), (P9_TLOCK, virtio_p9_lock),
      (P9_TGETLOCK, virtio_p9_getlock), (P9_TRENAMEAT, virtio_p9_renameat), (P9_TREADLINK, virtio_p9_readlink), (P9_TUNLINKAT, virtio_p9_unlinkat),
      (P9_TMKDIR, virtio_p9_mkdir), (P9_TVERSION, virtio_p9_version), (P9_TLOPEN, virtio_p9_open), (P9_TATTACH, virtio_p9_attach),
      (P9_TWALK, virtio_p9_walk), (P9_TCLUNK, virtio_p9_clunk), (P9_TFSYNC, virtio_p9_fsync), (P9_TREAD, virtio_p9_read), (P9_TFLUSH, virtio_p9_flush),
      (P9_TLINK, virtio_p9_link), (P9_TSYMLINK, virtio_p9_symlink), (P9_TLCREATE, virtio_p9_create), (P9_TWRITE, virtio_p9_write),
      (P9_TREMOVE, virtio_p9_remove), (P9_TRENAME, virtio_p9_rename)]"

definition handler_of :: "u8 \<Rightarrow> p9_host \<Rightarrow> unit p9" where
  "handler_of cmd = (case map_of virtio_9p_dotl_handler cmd of Some h \<Rightarrow> h | None \<Rightarrow> virtio_p9_eopnotsupp)"

section \<open>Serving a request\<close>

definition VIRTQUEUE_NUM :: nat where "VIRTQUEUE_NUM = 128"

definition virtio_p9_pdu_init :: "kvm_mem_bank list \<Rightarrow> virt_queue \<Rightarrow> (virt_queue \<times> p9_pdu \<times> u16) outcome" where
  "virtio_p9_pdu_init banks q =
     bind_outcome (virt_queue__get_inout_iov VIRTQUEUE_NUM VIRTQUEUE_NUM banks q) (\<lambda>(q, ins, outs, head).
       Ret (q, \<lparr>read_offset = VIRTIO_9P_HDR_LEN, write_offset = VIRTIO_9P_HDR_LEN, in_iov = ins, out_iov = outs\<rparr>, head))"

text \<open>Without a readable buffer the pointer is NULL.\<close>

definition virtio_p9_get_cmd :: "hmem \<Rightarrow> p9_pdu \<Rightarrow> u8 outcome" where
  "virtio_p9_get_cmd m pdu =
     (case out_iov pdu of [] \<Rightarrow> Undefined | v # _ \<Rightarrow> bind_outcome (mem_read m (iov_base v + 4) 1) (\<lambda>bs. Ret (hd bs)))"

definition virtio_p9_do_io_request :: "p9_host \<Rightarrow> kvm_mem_bank list \<Rightarrow> virt_queue \<Rightarrow> p9_state \<Rightarrow> (virt_queue \<times> p9_state) outcome" where
  "virtio_p9_do_io_request host banks q s =
     (if host_oom host then Undefined
      else bind_outcome (virtio_p9_pdu_init banks q) (\<lambda>(q, pdu, head).
        bind_outcome (virtio_p9_get_cmd (cur_mem s) pdu) (\<lambda>cmd.
        bind_outcome (handler_of cmd host (s\<lparr>cur_pdu := pdu, cur_outlen := 0\<rparr>)) (\<lambda>(_, s).
        bind_outcome (virt_queue__set_used_elem q (ucast head) (cur_outlen s)) (\<lambda>q. Ret (q, s))))))"

text \<open>One turn of the loop, with the signal after each request, and the loop.\<close>

definition p9_turn :: "p9_host \<Rightarrow> kvm_mem_bank list \<Rightarrow> virt_queue \<Rightarrow> p9_state \<times> nat \<Rightarrow> (virt_queue \<times> p9_state \<times> nat) outcome" where
  "p9_turn host banks q = (\<lambda>(s, signals). bind_outcome (virtio_p9_do_io_request host banks q s) (\<lambda>(q, s). Ret (q, s, signals + 1)))"

definition virtio_p9_do_io :: "p9_host \<Rightarrow> kvm_mem_bank list \<Rightarrow> virt_queue \<Rightarrow> p9_state \<times> nat \<Rightarrow> (virt_queue \<times> p9_state \<times> nat) outcome option" where
  "virtio_p9_do_io host banks = while_available (p9_turn host banks)"

section \<open>Stopping the device\<close>

text \<open>
  \<^verbatim>\<open>rbtree_postorder_for_each_entry_safe\<close> with an erasure in each turn: the successor is determined before the entry is closed, and its position is
  that in the tree after the erasure. Each turn takes an entry out of the tree, which bounds the turns.
\<close>

definition postorder_next :: "nat \<Rightarrow> fid_node rb_node \<Rightarrow> nat option" where
  "postorder_next a t =
     (case rb_locate (\<lambda>n. fn_addr n = a) [] t of
        None \<Rightarrow> None
      | Some pos \<Rightarrow> (case rb_next_postorder pos of None \<Rightarrow> None | Some (_, n) \<Rightarrow> map_option fn_addr (rb_entry n)))"

fun close_loop :: "nat \<Rightarrow> p9_host \<Rightarrow> nat option \<Rightarrow> unit p9" where
  "close_loop fuel host None = p9_return ()"
| "close_loop 0 host (Some a) = p9_undefined"
| "close_loop (Suc fuel) host (Some a) =
     p9_bind (p9_get (\<lambda>s. postorder_next a (fid_tree s))) (\<lambda>nxt.
     p9_bind (load_fid a) (\<lambda>f.
     p9_bind (close_fid host (f_fid f)) (\<lambda>_.
     close_loop fuel host nxt)))"

definition notify_status :: "p9_host \<Rightarrow> u32 \<Rightarrow> unit p9" where
  "notify_status host status =
     (if status AND VIRTIO__STATUS_STOP = 0 then p9_return ()
      else p9_bind (p9_get (\<lambda>s. (length (inorder (fid_tree s)), rb_first_postorder (fid_tree s)))) (\<lambda>(n, pos).
        close_loop n host (case pos of None \<Rightarrow> None | Some (_, t) \<Rightarrow> map_option fn_addr (rb_entry t))))"

section \<open>Registration\<close>

record p9_dev =
  dev_root :: path
  dev_tag_len :: u16
  dev_tag :: "u8 list"

definition VIRTIO_9P_DEFAULT_TAG :: "u8 list" where "VIRTIO_9P_DEFAULT_TAG = [107, 118, 109, 95, 57, 112]"
definition MAX_TAG_LEN :: u16 where "MAX_TAG_LEN = 32"

definition virtio_9p__register :: "bool \<Rightarrow> path \<Rightarrow> u8 list option \<Rightarrow> p9_dev list \<Rightarrow> p9_dev list \<times> int" where
  "virtio_9p__register oom root tag_name devs =
     (if oom then (devs, - ENOMEM)
      else let tag = (case tag_name of None \<Rightarrow> VIRTIO_9P_DEFAULT_TAG | Some t \<Rightarrow> t); tag_len = of_nat (length tag)
        in if MAX_TAG_LEN < tag_len then (devs, - EINVAL)
           else (\<lparr>dev_root = take (PATH_MAX - 1) root, dev_tag_len = tag_len, dev_tag = tag\<rparr> # devs, 0))"

definition virtio_9p_rootdir_parser :: "bool \<Rightarrow> (u8 list \<Rightarrow> path option) \<Rightarrow> u8 list \<Rightarrow> p9_dev list \<Rightarrow> p9_dev list outcome" where
  "virtio_9p_rootdir_parser oom realpath arg devs =
     (let dir = takeWhile (\<lambda>c. c \<noteq> 44) arg; tag_name = (if 44 \<in> set arg then Some (tl (dropWhile (\<lambda>c. c \<noteq> 44) arg)) else None)
      in case realpath dir of
           None \<Rightarrow> Dies
         | Some tmp \<Rightarrow> (case virtio_9p__register oom tmp tag_name devs of (devs, r) \<Rightarrow> if r < 0 then Dies else Ret devs))"

record rootfs_cfg =
  using_rootfs :: bool
  custom_rootfs :: bool
  custom_rootfs_name :: "u8 list option"

definition dev_root_tag :: "u8 list" where "dev_root_tag = [47, 100, 101, 118, 47, 114, 111, 111, 116]"
definition hostfs_tag :: "u8 list" where "hostfs_tag = [104, 111, 115, 116, 102, 115]"

definition register_or_die :: "bool \<Rightarrow> path option \<Rightarrow> u8 list \<Rightarrow> p9_dev list \<Rightarrow> p9_dev list outcome" where
  "register_or_die oom dir tag devs =
     (case dir of
        None \<Rightarrow> Dies
      | Some d \<Rightarrow> (case virtio_9p__register oom d (Some tag) devs of (devs, r) \<Rightarrow> if r < 0 then Dies else Ret devs))"

text \<open>The third result is whether \<^verbatim>\<open>kvm_setup_resolv\<close> is called.\<close>

definition virtio_9p_img_name_parser ::
  "bool \<Rightarrow> (u8 list \<Rightarrow> path option) \<Rightarrow> (u8 list \<Rightarrow> bool) \<Rightarrow> u8 list \<Rightarrow> u8 list \<Rightarrow> rootfs_cfg \<Rightarrow> p9_dev list \<Rightarrow> (p9_dev list \<times> rootfs_cfg \<times> bool \<times> int) outcome" where
  "virtio_9p_img_name_parser oom realpath isdir kvm_dir arg cfg devs =
     (if isdir arg then
        if using_rootfs cfg then Dies
        else bind_outcome (register_or_die oom (realpath arg) dev_root_tag devs) (\<lambda>devs. Ret (devs, cfg\<lparr>using_rootfs := True\<rparr>, False, 0))
      else let path = take (PATH_MAX - 1) (kvm_dir @ arg)
        in if isdir path then
             if using_rootfs cfg then Dies
             else bind_outcome (register_or_die oom (realpath path) dev_root_tag devs) (\<lambda>devs.
               bind_outcome (register_or_die oom (Some [slash]) hostfs_tag devs) (\<lambda>devs.
                 Ret (devs, cfg\<lparr>using_rootfs := True, custom_rootfs := True, custom_rootfs_name := Some arg\<rparr>, True, 0)))
           else Ret (devs, cfg, False, -1))"

section \<open>Confinement\<close>

lemma handler_keeps: "cmd \<noteq> P9_TRENAMEAT \<Longrightarrow> keeps root (handler_of cmd host) (\<lambda>_. True)"
proof -
  assume "cmd \<noteq> P9_TRENAMEAT"
  moreover have "list_all (\<lambda>(c, h). c \<noteq> P9_TRENAMEAT \<longrightarrow> keeps root (h host) (\<lambda>_. True)) virtio_9p_dotl_handler"
    unfolding virtio_9p_dotl_handler_def
    by (simp add: keeps_readdir keeps_statfs keeps_getattr keeps_setattr keeps_eopnotsupp keeps_mknod keeps_lock keeps_getlock keeps_readlink keeps_unlinkat
      keeps_mkdir keeps_version keeps_open keeps_attach keeps_walk keeps_clunk keeps_fsync keeps_read keeps_flush keeps_link keeps_symlink keeps_create
      keeps_write keeps_remove keeps_rename)
  ultimately show ?thesis
    using keeps_eopnotsupp map_of_SomeD [of virtio_9p_dotl_handler cmd]
    by (fastforce simp: handler_of_def list_all_iff split: option.splits)
qed

lemma handler_renameat: "handler_of P9_TRENAMEAT = virtio_p9_renameat"
  by (simp add: handler_of_def virtio_9p_dotl_handler_def p9_types)


text \<open>A request to remove the entry \<open>a\<close> of a directory, and what the host is asked to do.\<close>

definition unlink_bytes :: "u8 list" where
  "unlink_bytes = [18, 0, 0, 0, 76, 1, 0, 5, 0, 0, 0, 1, 0, 97, 0, 0, 0, 0]"

definition byte_mem :: "u8 list \<Rightarrow> hmem" where
  "byte_mem bs a = Some (if 100 \<le> a \<and> a < 100 + of_nat (length bs) then bs ! unat (a - 100) else 0)"

definition message_state :: "u8 list \<Rightarrow> p9_state" where
  "message_state bs = idle_state\<lparr>cur_pdu := \<lparr>read_offset = 7, write_offset = 7, in_iov = [\<lparr>iov_base = 1000, iov_len = 64\<rparr>],
     out_iov = [\<lparr>iov_base = 100, iov_len = of_nat (length bs)\<rparr>]\<rparr>, cur_mem := byte_mem bs\<rparr>"

definition log_after :: "(unit option \<times> p9_state) outcome \<Rightarrow> (p9_event list \<times> u32) option" where
  "log_after m = (case m of Ret (_, s) \<Rightarrow> Some (sys_log s, cur_outlen s) | _ \<Rightarrow> None)"

lemma unlink_log: "log_after (handler_of P9_TUNLINKAT quiet_host (message_state unlink_bytes)) = Some ([Remove [47, 114, 47, 97]], 7)"
  by code_simp


text \<open>
  The exception is real: when a file was renamed, the identifiers below an old name that starts with a separator get the new name as their path, which is
  then not separated from the name of the root directory.
\<close>

definition walked_state :: p9_state where
  "walked_state = idle_state\<lparr>fid_tree := RBNode RB_BLACK RBNull \<lparr>fn_fid = 1, fn_addr = 0\<rparr> RBNull,
     fid_store := [0 \<mapsto> (fresh_fid 1)\<lparr>f_path := [47, 47, 97]\<rparr>], fid_next := 1\<rparr>"

definition path_after :: "(unit option \<times> p9_state) outcome \<Rightarrow> nat \<Rightarrow> path option" where
  "path_after m a = (case m of Ret (_, s) \<Rightarrow> map_option (\<lambda>f. root_dir s @ f_path f) (fid_store s a) | _ \<Rightarrow> None)"

lemma rename_escapes:
  "path_after (p9_return () walked_state) 0 = Some [47, 114, 47, 47, 97]"
  "path_after (rename_fids [47, 47, 97] [98] walked_state) 0 = Some [47, 114, 98]"
  "\<not> confined [47, 114] [47, 114, 98]"
  subgoal by code_simp
  subgoal by code_simp
  subgoal by (auto simp: confined_def path_legal_def)
  done

text \<open>The names of directories that a rename is meant for do not start with a separator: it changes the path of no identifier.\<close>

lemma plain_rename_keeps_paths: "path_after (rename_fids [97] [98] walked_state) 0 = Some [47, 114, 47, 47, 97]"
  by code_simp

section \<open>Short headers, unopened directories, stopping\<close>

text \<open>A first buffer that is shorter than the header: the length of what is left wraps around, and becomes all of \<open>count\<close>.\<close>

lemma read_past_buffer:
  assumes "iov_len v < 11" "0 < count"
  shows "virtio_p9_update_iov_cnt (skip_header 11 [v]) count = ([v\<lparr>iov_base := iov_base v + 11, iov_len := ucast count\<rparr>], 1)"
proof -
  have "unat count < 2 ^ LENGTH(32)"
    by (rule unsigned_less)
  then have "unat (ucast count :: u64) < 2 ^ 32"
    by (simp add: unsigned_ucast_eq take_bit_nat_eq_self)
  moreover have "unat (iov_len v - 11) = 2 ^ 64 + unat (iov_len v) - 11"
    using assms(1) by (simp add: word_less_nat_alt unat_sub_if')
  ultimately have "ucast count < iov_len v - 11"
    by (simp add: word_less_nat_alt)
  then show ?thesis
    using assms(2) by (simp add: virtio_p9_update_iov_cnt_def skip_header_def)
qed

lemma readdir_unopened:
  "(case virtio_p9_readdir quiet_host (message_state [23, 0, 0, 0, 40, 1, 0, 5, 0, 0, 0, 0, 0, 0, 0, 0, 0, 0, 0, 0, 1, 0, 0]) of Undefined \<Rightarrow> True | _ \<Rightarrow> False)"
  by code_simp

fun left_open :: "u32 list \<Rightarrow> p9_state \<Rightarrow> nat option" where
  "left_open [] s = (case notify_status quiet_host VIRTIO__STATUS_STOP s of Ret (Some _, s') \<Rightarrow> Some (length (inorder (fid_tree s'))) | _ \<Rightarrow> None)"
| "left_open (k # ks) s = (case get_fid quiet_host k s of Ret (Some a, s') \<Rightarrow> left_open ks s' | _ \<Rightarrow> None)"

lemma stop_leaves_fid: "left_open [0, 1, 2] idle_state = Some 0" "left_open [0, 1, 2, 3] idle_state = Some 1"
  by code_simp+

section \<open>Replies\<close>

text \<open>The bytes of the buffers for the reply and of the request.\<close>

abbreviation reply_span :: "p9_state \<Rightarrow> u64 list" where "reply_span s \<equiv> iov_span (in_iov (cur_pdu s))"
abbreviation request_span :: "p9_state \<Rightarrow> u64 list" where "request_span s \<equiv> iov_span (out_iov (cur_pdu s))"

text \<open>A request with the given header that has room for a reply of \<open>n\<close> bytes apart from it.\<close>

definition answerable :: "p9_state \<Rightarrow> u8 \<Rightarrow> u16 \<Rightarrow> nat \<Rightarrow> bool" where
  "answerable s cmd tag n \<longleftrightarrow> n \<le> length (reply_span s) \<and> mapped (cur_mem s) (take n (reply_span s)) \<and> distinct (take n (reply_span s)) \<and>
     7 \<le> length (request_span s) \<and> mapped (cur_mem s) (request_span s) \<and>
     get_bytes (take 3 (drop 4 (request_span s))) (cur_mem s) = cmd # to_le 2 tag \<and> set (take n (reply_span s)) \<inter> set (request_span s) = {}"

text \<open>What the guest finds in the first bytes of its buffers.\<close>

definition answer :: "p9_state \<Rightarrow> nat \<Rightarrow> u8 list" where
  "answer s n = get_bytes (take n (reply_span s)) (cur_mem s)"

text \<open>A change of the state that does not concern the identifiers or the host, nor memory apart from the first \<open>n\<close> bytes of the reply.\<close>

definition only_replies :: "nat \<Rightarrow> p9_state \<Rightarrow> p9_state \<Rightarrow> bool" where
  "only_replies n s s' \<longleftrightarrow> fid_tree s' = fid_tree s \<and> fid_store s' = fid_store s \<and> fid_next s' = fid_next s \<and> root_dir s' = root_dir s \<and> sys_log s' = sys_log s \<and>
     in_iov (cur_pdu s') = in_iov (cur_pdu s) \<and> out_iov (cur_pdu s') = out_iov (cur_pdu s) \<and>
     (\<forall>a. a \<notin> set (take n (reply_span s)) \<longrightarrow> cur_mem s' a = cur_mem s a)"

lemma writef_ok:
  assumes "wire 2 fmt args = Some bs" "has_room (cur_mem s) (cur_pdu s) (length bs)"
  shows "writef fmt args s = Ret (Some (), s\<lparr>cur_pdu := moved_out (cur_pdu s) (length bs), cur_mem := put_bytes (out_area (cur_pdu s) (length bs)) bs (cur_mem s)\<rparr>)"
  using virtio_p9_pdu_encode_ok [of 2] assms by (simp add: writef_def virtio_p9_pdu_writef_def encodes_def)

lemma readf_ok:
  assumes "wire 2 fmt args = Some bs" "holds (cur_mem s) (cur_pdu s) bs" "\<not> host_oom host"
  shows "readf host fmt s = Ret (Some args, s\<lparr>cur_pdu := moved_in (cur_pdu s) (length bs)\<rparr>)"
  using virtio_p9_decode_ok [of "cur_mem s" 2 "host_stack host"] assms by (simp add: readf_def virtio_p9_pdu_readf_def decodes_def)

lemma wire_words:
  "wire 2 ''d'' [Int32 w] = Some (to_le 4 w)"
  "wire 2 ''w'' [Int16 t] = Some (to_le 2 t)"
  "wire 2 ''bw'' [Int8 b, Int16 t] = Some (b # to_le 2 t)"
  "wire 2 ''dbw'' [Int32 w, Int8 b, Int16 t] = Some (to_le 4 w @ b # to_le 2 t)"
  by (simp_all add: numeral_2_eq_2 to_le_def)

lemma get_put_part:
  assumes "distinct xs" "k + length bs \<le> length xs"
  shows "get_bytes xs (put_bytes (take (length bs) (drop k xs)) bs m) = take k (get_bytes xs m) @ bs @ drop (k + length bs) (get_bytes xs m)"
proof -
  let ?l = "length bs"
  let ?p = "put_bytes (take ?l (drop k xs)) bs m"
  have xs: "xs = take k xs @ take ?l (drop k xs) @ drop (k + ?l) xs"
    by (metis add.commute append_take_drop_id drop_drop)
  then have d: "distinct (take k xs @ take ?l (drop k xs) @ drop (k + ?l) xs)"
    using assms(1) by metis
  have "get_bytes (take k xs) ?p = get_bytes (take k xs) m" "get_bytes (drop (k + ?l) xs) ?p = get_bytes (drop (k + ?l) xs) m"
    using d by (auto intro!: get_put_disjoint)
  moreover have "get_bytes (take ?l (drop k xs)) ?p = bs"
    using d assms(2) by (intro get_put_same) auto
  moreover have "get_bytes xs ?p = get_bytes (take k xs) ?p @ get_bytes (take ?l (drop k xs)) ?p @ get_bytes (drop (k + ?l) xs) ?p"
    by (subst xs) (simp only: get_bytes_append)
  ultimately show ?thesis
    by (simp add: get_bytes_def take_map drop_map)
qed

lemma write_reply:
  assumes "answerable s cmd tag n" "wire 2 fmt args = Some bs" "write_offset (cur_pdu s) + length bs \<le> n"
  obtains s' where "writef fmt args s = Ret (Some (), s')" "only_replies n s s'" "answerable s' cmd tag n" "cur_outlen s' = cur_outlen s"
    "cur_pdu s' = moved_out (cur_pdu s) (length bs)" "cur_errno s' = cur_errno s"
    "answer s' n = take (write_offset (cur_pdu s)) (answer s n) @ bs @ drop (write_offset (cur_pdu s) + length bs) (answer s n)"
proof -
  let ?k = "write_offset (cur_pdu s)" and ?xs = "take n (reply_span s)"
  have area: "out_area (cur_pdu s) (length bs) = take (length bs) (drop ?k ?xs)"
    using assms(3) by (simp add: out_area_def drop_take min_def)
  let ?m = "put_bytes (take (length bs) (drop ?k ?xs)) bs (cur_mem s)"
  let ?s = "s\<lparr>cur_pdu := moved_out (cur_pdu s) (length bs), cur_mem := ?m\<rparr>"
  have sub: "set (take (length bs) (drop ?k ?xs)) \<subseteq> set ?xs"
    by (meson order_trans set_drop_subset set_take_subset)
  have "has_room (cur_mem s) (cur_pdu s) (length bs)"
    using assms(1,3) unfolding has_room_def area by (auto simp: answerable_def intro: mapped_take_drop)
  then have "writef fmt args s = Ret (Some (), ?s)"
    using writef_ok [OF assms(2)] area by simp
  moreover have "only_replies n s ?s"
    using sub by (auto simp: only_replies_def intro: put_bytes_other)
  moreover have "answerable ?s cmd tag n"
  proof -
    have "set (take 3 (drop 4 (request_span s))) \<subseteq> set (request_span s)"
      by (meson order_trans set_drop_subset set_take_subset)
    then have "set (take (length bs) (drop ?k ?xs)) \<inter> set (take 3 (drop 4 (request_span s))) = {}"
      using sub assms(1) unfolding answerable_def by blast
    then show ?thesis
      using assms(1) get_put_disjoint by (auto simp: answerable_def)
  qed
  moreover have "answer ?s n = take ?k (answer s n) @ bs @ drop (?k + length bs) (answer s n)"
    using get_put_part [of ?xs ?k bs "cur_mem s"] assms(1,3) by (simp add: answer_def answerable_def)
  ultimately show thesis
    using that [of ?s] by simp
qed

text \<open>Writing the header in front of what was written, and reading it from the request.\<close>

lemma header_ok:
  assumes "answerable s cmd tag n" "7 \<le> n" "\<not> host_oom host"
  shows "\<exists>s'. virtio_p9_set_reply_header host len s = Ret (Some (), s') \<and> answer s' n = (to_le 4 len @ (cmd + 1) # to_le 2 tag) @ drop 7 (answer s n) \<and>
    only_replies n s s' \<and> cur_outlen s' = cur_outlen s"
proof -
  let ?s1 = "s\<lparr>cur_pdu := (cur_pdu s)\<lparr>read_offset := 4\<rparr>\<rparr>"
  have "holds (cur_mem ?s1) (cur_pdu ?s1) (cmd # to_le 2 tag)"
    using assms(1) by (auto simp: holds_def in_area_def answerable_def intro: mapped_take_drop)
  from readf_ok [OF wire_words(3) this assms(3)] have rd: "readf host ''bw'' ?s1 = Ret (Some [Int8 cmd, Int16 tag], s\<lparr>cur_pdu := (cur_pdu s)\<lparr>read_offset := 7\<rparr>\<rparr>)"
    by simp
  let ?s2 = "s\<lparr>cur_pdu := (cur_pdu s)\<lparr>read_offset := 7, write_offset := 0\<rparr>\<rparr>"
  have a2: "answerable ?s2 cmd tag n"
    using assms(1) by (simp add: answerable_def)
  have "write_offset (cur_pdu ?s2) + length (to_le 4 len @ (cmd + 1) # to_le 2 tag) \<le> n"
    using assms(2) by simp
  from write_reply [OF a2 wire_words(4) this] obtain s' where s': "writef ''dbw'' [Int32 len, Int8 (cmd + 1), Int16 tag] ?s2 = Ret (Some (), s')"
    "only_replies n ?s2 s'" "cur_outlen s' = cur_outlen ?s2" "answer s' n = (to_le 4 len @ (cmd + 1) # to_le 2 tag) @ drop 7 (answer ?s2 n)"
    by auto
  have "virtio_p9_set_reply_header host len s = Ret (Some (), s')"
    using rd s'(1) by (simp add: virtio_p9_set_reply_header_def p9_then_def p9_bind_def set_read_offset_def set_write_offset_def p9_update_def arg8_def arg16_def)
  then show ?thesis
    using s' by (auto simp: answer_def only_replies_def)
qed

lemma error_reply_ok:
  assumes "answerable s cmd tag n" "11 \<le> n" "\<not> host_oom host"
  shows "\<exists>s'. virtio_p9_error_reply host err s = Ret (Some (), s') \<and> cur_outlen s' = 11 \<and> only_replies n s s' \<and>
    answer s' n = (to_le 4 (11 :: u32) @ P9_RLERROR # to_le 2 tag) @ to_le 4 (word_of_int (if err = EMFILE then ENFILE else err) :: u32) @ drop 11 (answer s n)"
proof -
  define e :: u32 where "e = word_of_int (if err = EMFILE then ENFILE else err)"
  let ?s1 = "s\<lparr>cur_pdu := (cur_pdu s)\<lparr>write_offset := 7\<rparr>\<rparr>"
  have a1: "answerable ?s1 cmd tag n"
    using assms(1) by (simp add: answerable_def)
  obtain s2 where s2: "writef ''d'' [Int32 e] ?s1 = Ret (Some (), s2)" "only_replies n ?s1 s2" "answerable s2 cmd tag n" "cur_pdu s2 = (cur_pdu s)\<lparr>write_offset := 11\<rparr>"
    "answer s2 n = take 7 (answer ?s1 n) @ to_le 4 e @ drop 11 (answer ?s1 n)"
    by (rule write_reply [OF a1 wire_words(1) [of e]]) (use assms(2) in auto)
  let ?s3 = "s2\<lparr>cur_outlen := 11, cur_pdu := (cur_pdu s2)\<lparr>read_offset := 5\<rparr>\<rparr>"
  have rq: "request_span s2 = request_span s" "reply_span s2 = reply_span s"
    using s2(4) by simp_all
  have "drop 4 (request_span s2) = request_span s2 ! 4 # drop 5 (request_span s2)"
    using s2(3) Cons_nth_drop_Suc [of 4 "request_span s2"] by (simp add: answerable_def)
  then have "get_bytes (take 2 (drop 5 (request_span s2))) (cur_mem s2) = to_le 2 tag"
    using s2(3) by (simp add: answerable_def get_bytes_def)
  then have "holds (cur_mem ?s3) (cur_pdu ?s3) (to_le 2 tag)"
    using s2(3) by (auto simp: holds_def in_area_def answerable_def intro: mapped_take_drop)
  from readf_ok [OF wire_words(2) this assms(3)] have rd: "readf host ''w'' ?s3 = Ret (Some [Int16 tag], s2\<lparr>cur_outlen := 11, cur_pdu := (cur_pdu s2)\<lparr>read_offset := 7\<rparr>\<rparr>)"
    by simp
  let ?s4 = "s2\<lparr>cur_outlen := 11, cur_pdu := (cur_pdu s2)\<lparr>read_offset := 7, write_offset := 0\<rparr>\<rparr>"
  have a4: "answerable ?s4 cmd tag n"
    using s2(3) by (simp add: answerable_def)
  obtain s5 where s5: "writef ''dbw'' [Int32 11, Int8 P9_RLERROR, Int16 tag] ?s4 = Ret (Some (), s5)" "only_replies n ?s4 s5" "cur_outlen s5 = cur_outlen ?s4"
    "answer s5 n = (to_le 4 (11 :: u32) @ P9_RLERROR # to_le 2 tag) @ drop 7 (answer ?s4 n)"
    by (rule write_reply [OF a4 wire_words(4) [of 11 P9_RLERROR tag]]) (use assms(2) in auto)
  have "virtio_p9_error_reply host err s = Ret (Some (), s5)"
    using s2(1,4) rd s5(1) unfolding virtio_p9_error_reply_def e_def [symmetric]
    by (simp add: p9_then_def p9_bind_def set_read_offset_def set_write_offset_def p9_update_def arg16_def write_pos_def p9_get_def set_outlen_def VIRTIO_9P_HDR_LEN_def)
  moreover have "length (answer s n) = n"
    using assms(1) by (simp add: answer_def answerable_def)
  ultimately show ?thesis
    using s5 s2(2,5) rq assms(2) unfolding e_def [symmetric] by (auto simp: answer_def only_replies_def)
qed

definition rlerror :: "u16 \<Rightarrow> int \<Rightarrow> u8 list" where
  "rlerror tag err = to_le 4 (11 :: u32) @ P9_RLERROR # to_le 2 tag @ to_le 4 (word_of_int (if err = EMFILE then ENFILE else err) :: u32)"

text \<open>
  C26: How failures reach the guest. A request of a type that the table does not have is answered with \<^verbatim>\<open>EOPNOTSUPP\<close>, and a handler
  that jumps to \<^verbatim>\<open>err_out\<close> with the value of \<^verbatim>\<open>errno\<close> at that point, where too many open files is told as the table of the system being full. The
  reply is exactly the 11 bytes of an error message with the tag of the request and the length 11; nothing else of the
  server's state or of memory changes.
\<close>

theorem p9_failures_reported:
  assumes "answerable s cmd tag 11" "\<not> host_oom host"
  shows "(map_of virtio_9p_dotl_handler cmd = None \<longrightarrow>
      (\<exists>s'. handler_of cmd host s = Ret (Some (), s') \<and> cur_outlen s' = 11 \<and> only_replies 11 s s' \<and> answer s' 11 = rlerror tag EOPNOTSUPP)) \<and>
    (m s0 = Ret (None, s) \<longrightarrow>
      (\<exists>s'. err_out host m s0 = Ret (Some (), s') \<and> cur_outlen s' = 11 \<and> only_replies 11 s s' \<and> answer s' 11 = rlerror tag (cur_errno s)))"
proof -
  have "\<exists>s'. virtio_p9_error_reply host err s = Ret (Some (), s') \<and> cur_outlen s' = 11 \<and> only_replies 11 s s' \<and> answer s' 11 = rlerror tag err" for err
  proof -
    have "drop 11 (answer s 11) = []"
      using assms(1) by (simp add: answer_def)
    then show ?thesis
      using error_reply_ok [OF assms(1) order_refl assms(2), of err] by (simp add: rlerror_def)
  qed
  then show ?thesis
    by (simp add: handler_of_def virtio_p9_eopnotsupp_def err_out_def)
qed

definition odd_bytes :: "u8 list" where
  "odd_bytes = [7, 0, 0, 0, 77, 1, 0]"

lemma byte_mem_mapped: "mapped (byte_mem bs) as"
  by (simp add: mapped_def byte_mem_def list_all_iff)

lemma odd_answerable: "answerable (message_state odd_bytes) 77 1 11"
proof -
  have "distinct (span 1000 11)"
    by (rule distinct_span) simp
  moreover have "set (span 1000 11) \<inter> set (span 100 7) = {}"
    by code_simp
  moreover have "get_bytes (span 104 3) (byte_mem odd_bytes) = 77 # to_le 2 (1 :: u16)"
    by code_simp
  ultimately show ?thesis
    using byte_mem_mapped [of odd_bytes] by (simp add: answerable_def message_state_def idle_state_def odd_bytes_def)
qed

theorem p9_failures_reported_witness:
  "(\<exists>s'. handler_of 77 quiet_host ((message_state odd_bytes)\<lparr>cur_errno := EMFILE\<rparr>) = Ret (Some (), s') \<and> answer s' 11 = [11, 0, 0, 0, 7, 1, 0, 95, 0, 0, 0]) \<and>
   (\<exists>s'. err_out quiet_host (p9_fail EMFILE) (message_state odd_bytes) = Ret (Some (), s') \<and> answer s' 11 = [11, 0, 0, 0, 7, 1, 0, 23, 0, 0, 0])"
proof -
  let ?s = "(message_state odd_bytes)\<lparr>cur_errno := EMFILE\<rparr>"
  have oom: "\<not> host_oom quiet_host"
    by (simp add: quiet_host_def)
  have none: "map_of virtio_9p_dotl_handler 77 = None"
    by (simp add: virtio_9p_dotl_handler_def p9_types)
  have a: "answerable ?s 77 1 11"
    using odd_answerable by (simp add: answerable_def)
  have jump: "p9_fail EMFILE (message_state odd_bytes) = Ret (None :: unit option, ?s)"
    by (simp add: p9_fail_def)
  have "rlerror 1 95 = [11, 0, 0, 0, 7, 1, 0, 95, 0, 0, 0]" "rlerror 1 EMFILE = [11, 0, 0, 0, 7, 1, 0, 23, 0, 0, 0]"
    by code_simp+
  with p9_failures_reported [OF a oom, of "p9_fail EMFILE" "message_state odd_bytes"] none jump show ?thesis
    by auto
qed

section \<open>Version\<close>

text \<open>
  Version negotiation. The request carries the message size and the version that the guest asks for. The reply has the same message size, and the version
  \<^verbatim>\<open>9P2000.L\<close> when that is what was asked for and \<^verbatim>\<open>unknown\<close> otherwise; its header has the length of the reply, the type of the
  request plus one, and its tag.
\<close>

theorem p9_version_negotiation:
  fixes msize :: u32
  assumes "answerable s cmd tag 21" "read_offset (cur_pdu s) = 7" "write_offset (cur_pdu s) = 7" "\<not> host_oom host"
    "holds (cur_mem s) (cur_pdu s) (to_le 4 msize @ to_le 2 (of_nat (length version) :: u16) @ version)" "length version < 2 ^ 15" "0 \<notin> set version"
  shows "\<exists>s'. virtio_p9_version host s = Ret (Some (), s') \<and> only_replies 21 s s' \<and>
    (let v = (if version = dotl then dotl else unknown); len = 13 + length v
     in cur_outlen s' = of_nat len \<and>
        answer s' len = to_le 4 (of_nat len :: u32) @ (cmd + 1) # to_le 2 tag @ to_le 4 msize @ to_le 2 (of_nat (length v) :: u16) @ v)"
proof -
  define v where "v = (if version = dotl then dotl else unknown)"
  define bs where "bs = to_le 4 msize @ to_le 2 (of_nat (length v) :: u16) @ v"
  have lv: "length v < 2 ^ 15" "7 + length bs \<le> 21"
    by (auto simp: v_def bs_def dotl_def unknown_def)
  have w: "wire 2 ''ds'' [Int32 msize, Str (Some x)] = Some (to_le 4 msize @ to_le 2 (of_nat (length x) :: u16) @ x)" if "length x < 2 ^ 15" for x
    using that by (simp add: numeral_2_eq_2)
  let ?s1 = "s\<lparr>cur_pdu := moved_in (cur_pdu s) (6 + length version)\<rparr>"
  have rd: "readf host ''ds'' s = Ret (Some [Int32 msize, Str (Some version)], ?s1)"
    using readf_ok [OF w [OF assms(6)] assms(5,4)] by simp
  have a1: "answerable ?s1 cmd tag 21"
    using assms(1) by (simp add: answerable_def)
  obtain s2 where s2: "writef ''ds'' [Int32 msize, Str (Some v)] ?s1 = Ret (Some (), s2)" "only_replies 21 ?s1 s2" "answerable s2 cmd tag 21"
    "cur_pdu s2 = moved_out (cur_pdu ?s1) (length bs)" "answer s2 21 = take 7 (answer ?s1 21) @ bs @ drop (7 + length bs) (answer ?s1 21)"
    by (rule write_reply [OF a1 w [OF lv(1)]]) (use assms(3) lv(2) in \<open>auto simp: bs_def\<close>)
  have cv: "cstr version = version"
    using assms(7) unfolding cstr_def by (auto intro!: takeWhile_eq_all_conv [THEN iffD2])
  have pos: "write_offset (cur_pdu s2) = 13 + length v"
    using s2(4) assms(3) by (simp add: bs_def)
  let ?s3 = "s2\<lparr>cur_outlen := of_nat (13 + length v)\<rparr>"
  have "answerable ?s3 cmd tag 21"
    using s2(3) by (simp add: answerable_def)
  from header_ok [OF this _ assms(4), of "of_nat (13 + length v)"] obtain s4 where
    s4: "virtio_p9_set_reply_header host (of_nat (13 + length v)) ?s3 = Ret (Some (), s4)" "only_replies 21 ?s3 s4" "cur_outlen s4 = of_nat (13 + length v)"
    "answer s4 21 = (to_le 4 (of_nat (13 + length v) :: u32) @ (cmd + 1) # to_le 2 tag) @ drop 7 (answer ?s3 21)"
    by auto
  have v: "(if version = dotl then version else unknown) = v"
    by (simp add: v_def)
  have run: "virtio_p9_version host s = Ret (Some (), s4)"
    using rd s2(1) pos s4(1) cv
    by (simp add: virtio_p9_version_def p9_bind_def p9_then_def argstr_def arg32_def use_str_def p9_return_def reply_def reply_with_def write_pos_def p9_get_def
      set_outlen_def p9_update_def v)
  have only: "only_replies 21 s s4"
    using s2(2) s4(2) by (auto simp: only_replies_def)
  have "answer s4 (13 + length v) = take (13 + length v) (answer s4 21)"
    using lv(2) by (simp add: answer_def get_bytes_def take_map bs_def min_def)
  also have "answer s4 21 = to_le 4 (of_nat (13 + length v) :: u32) @ (cmd + 1) # to_le 2 tag @ bs @ drop (7 + length bs) (answer s 21)"
  proof -
    have "length (answer s 21) = 21"
      using assms(1) by (simp add: answer_def answerable_def)
    then show ?thesis
      using s4(4) s2(5) by (simp add: answer_def)
  qed
  also have "take (13 + length v) (to_le 4 (of_nat (13 + length v) :: u32) @ (cmd + 1) # to_le 2 tag @ bs @ drop (7 + length bs) (answer s 21)) =
      to_le 4 (of_nat (13 + length v) :: u32) @ (cmd + 1) # to_le 2 tag @ bs" (is "take _ _ = ?x")
  proof -
    have "length ?x = 13 + length v"
      by (simp add: bs_def)
    moreover have "take (length ys) (ys @ zs) = ys" for ys zs :: "u8 list"
      by simp
    from this [of ?x "drop (7 + length bs) (answer s 21)"] have "take (length ?x) (?x @ drop (7 + length bs) (answer s 21)) = ?x" .
    ultimately show ?thesis
      by (simp only: append.assoc append_Cons)
  qed
  finally show ?thesis
    using run only s4(3) by (auto simp: Let_def v_def [symmetric] bs_def)
qed


definition version_bytes :: "u8 list" where
  "version_bytes = [21, 0, 0, 0, 100, 255, 255, 0, 32, 0, 0, 8, 0, 57, 80, 50, 48, 48, 48, 46, 76]"

theorem p9_version_negotiation_witness:
  "\<exists>s'. virtio_p9_version quiet_host (message_state version_bytes) = Ret (Some (), s') \<and> cur_outlen s' = 21 \<and>
    answer s' 21 = [21, 0, 0, 0, 101, 255, 255, 0, 32, 0, 0, 8, 0, 57, 80, 50, 48, 48, 48, 46, 76]"
proof -
  let ?s = "message_state version_bytes"
  have ans: "answerable ?s 100 0xFFFF 21"
  proof -
    have "distinct (span 1000 21)"
      by (rule distinct_span) simp
    moreover have "set (span 1000 21) \<inter> set (span 100 21) = {}"
      by code_simp
    moreover have "get_bytes (span 104 3) (byte_mem version_bytes) = 100 # to_le 2 (0xFFFF :: u16)"
      by code_simp
    ultimately show ?thesis
      using byte_mem_mapped [of version_bytes] by (simp add: answerable_def message_state_def idle_state_def version_bytes_def)
  qed
  have off: "read_offset (cur_pdu ?s) = 7" "write_offset (cur_pdu ?s) = 7" "\<not> host_oom quiet_host"
    by (simp_all add: message_state_def idle_state_def quiet_host_def)
  have "get_bytes (span 107 14) (byte_mem version_bytes) = to_le 4 (8192 :: u32) @ to_le 2 (of_nat (length dotl) :: u16) @ dotl"
    by code_simp
  then have hold: "holds (cur_mem ?s) (cur_pdu ?s) (to_le 4 (8192 :: u32) @ to_le 2 (of_nat (length dotl) :: u16) @ dotl)"
    using byte_mem_mapped [of version_bytes] by (simp add: holds_def in_area_def message_state_def idle_state_def version_bytes_def dotl_def)
  have v: "length dotl < 2 ^ 15" "0 \<notin> set dotl" "13 + length dotl = 21"
    by (simp_all add: dotl_def)
  have "to_le 4 (21 :: u32) @ (100 + 1) # to_le 2 (0xFFFF :: u16) @ to_le 4 (8192 :: u32) @ to_le 2 (of_nat (length dotl) :: u16) @ dotl =
      [21, 0, 0, 0, 101, 255, 255, 0, 32, 0, 0, 8, 0, 57, 80, 50, 48, 48, 48, 46, 76]"
    by code_simp
  with p9_version_negotiation [OF ans off hold v(1,2)] v(3) show ?thesis
    by (auto simp: Let_def)
qed

section \<open>Walking ends\<close>

lemma p9_bind_cong: "(\<And>x s'. m s = Ret (Some x, s') \<Longrightarrow> f x s' = g x s') \<Longrightarrow> p9_bind m f s = p9_bind m g s"
  unfolding p9_bind_def by (cases "m s") (auto split: option.splits)

lemma p9_then_cong: "(\<And>x s'. m s = Ret (Some x, s') \<Longrightarrow> k s' = k' s') \<Longrightarrow> p9_then m k s = p9_then m k' s"
  unfolding p9_then_def by (rule p9_bind_cong)

lemma stat_rel_store: "stat_rel host p s = Ret (Some st, s') \<Longrightarrow> fid_store s' = fid_store s"
  by (auto simp: stat_rel_def p9_bind_def p9_get_def get_full_path_helper_def p9_fail_def p9_return_def p9_check_def p9_call_def Let_def split: if_splits)

lemma join_path_store: "join_or_fail a p s = Ret (Some u, s') \<Longrightarrow> \<exists>f. fid_store s' a = Some f \<and> f_path f = p"
  by (auto simp: join_or_fail_def join_path_def p9_bind_def p9_get_def store_fid_def p9_return_def p9_fail_def split: if_splits option.splits)

lemma walk_turn:
  assumes s: "fid_store s new_fid = Some f"
    and more: "\<And>s' g i nwqid. fid_store s' new_fid = Some g \<Longrightarrow> length (f_path f) < length (f_path g) \<Longrightarrow> length (f_path g) < PATH_MAX \<Longrightarrow>
      walk_loop n stop host new_fid fid nwname i nwqid s' = walk_loop m stop' host new_fid fid nwname i nwqid s'"
  shows "walk_loop (Suc n) stop host new_fid fid nwname i nwqid s = walk_loop (Suc m) stop' host new_fid fid nwname i nwqid s"
proof (cases "ucast i < nwname")
  case True
  show ?thesis
    unfolding walk_loop.simps Let_def
  proof (simp only: True not_True_eq_False if_False, intro p9_bind_cong, goal_cases)
    case (1 args s1 f1 s2 str s3)
    have eq: "f1 = f" "fid_store s3 = fid_store s"
      using 1 s by (auto simp: readf_def bind_outcome_Ret load_fid_def use_str_def p9_return_def p9_undefined_def split: option.splits)
    show ?case
    proof (cases "PATH_MAX \<le> length (f_path f1 @ slash # str)")
      case False
      show ?thesis
        unfolding if_not_P [OF False]
      proof (intro p9_bind_cong p9_then_cong, goal_cases)
        case (1 st s4 u s5 f5 s6 u' s7 u'' s8)
        obtain g where g: "fid_store s5 new_fid = Some g" "f_path g = f_path f @ slash # str"
          using join_path_store [OF 1(2)] eq by auto
        have "s6 = s5" "\<exists>g. fid_store s8 new_fid = Some g \<and> f_path g = f_path f @ slash # str"
          using 1(3-5) g by (auto simp: load_fid_def store_fid_def writef_def bind_outcome_Ret split: option.splits)
        then show ?case
          using more False eq(1) by fastforce
      qed
    qed simp
  qed
qed simp

lemma walk_loop_more:
  assumes "fid_store s new_fid = Some f" "PATH_MAX \<le> fuel + length (f_path f)"
  shows "walk_loop (Suc (fuel + k)) stop host new_fid fid nwname i nwqid s = walk_loop (Suc fuel) stop' host new_fid fid nwname i nwqid s"
  using assms
proof (induction fuel arbitrary: s f i nwqid)
  case 0
  show ?case
    by (rule walk_turn [OF "0.prems"(1)]) (use "0.prems"(2) in simp)
next
  case (Suc fuel)
  show ?case
    by (rule walk_turn [OF Suc.prems(1)]) (use Suc in auto)
qed

text \<open>
  C27: The loop of a walk ends within 4097 turns, for every message, state and host: neither more turns nor what would happen after the last one change its result. Its counter has 8 bits while the number of names has
  16, so that it never reaches a number above 255, but the path grows with each name until it no longer fits.
\<close>

theorem p9_walk_ends:
  assumes "fid_store s new_fid = Some f"
  shows "walk_loop (PATH_MAX + 1 + k) stop host new_fid fid nwname i nwqid s = walk_loop (PATH_MAX + 1) stop' host new_fid fid nwname i nwqid s"
  using walk_loop_more [OF assms, of PATH_MAX k] by simp


theorem p9_walk_ends_witness:
  "walk_loop (PATH_MAX + 1 + 5) p9_undefined quiet_host 0 0 300 0 0 walked_state = walk_loop (PATH_MAX + 1) (p9_return 0) quiet_host 0 0 300 0 0 walked_state"
proof -
  have "fid_store walked_state 0 = Some ((fresh_fid 1)\<lparr>f_path := [47, 47, 97]\<rparr>)"
    by (simp add: walked_state_def)
  then show ?thesis
    by (rule p9_walk_ends)
qed

section \<open>Replies that are not what they should be\<close>

definition answer_after :: "(unit option \<times> p9_state) outcome \<Rightarrow> nat \<Rightarrow> u8 list option" where
  "answer_after m n = (case m of Ret (_, s) \<Rightarrow> Some (answer s n) | _ \<Rightarrow> None)"

text \<open>Walking to a directory: the count is written with 32 bits over the first bytes of the first file number, whose type is then that of a plain file.\<close>

lemma walk_loses_type:
  "stat2qid (res_stat (sys_call quiet_host [] (Lstat []))) = Rec [Int8 P9_QTDIR, Int32 0, Int64 1]"
  "answer_after (virtio_p9_walk quiet_host (message_state [20, 0, 0, 0, 110, 1, 0, 5, 0, 0, 0, 6, 0, 0, 0, 1, 0, 1, 0, 97])) 22 =
     Some [22, 0, 0, 0, 111, 1, 0, 1, 0, 0, 0, 0, 0, 0, 1, 0, 0, 0, 0, 0, 0, 0]"
  subgoal by code_simp
  subgoal by code_simp
  done

text \<open>A read that fails on the host is reported as one of all the bytes that were asked for.\<close>

definition closed_host :: p9_host where
  "closed_host = quiet_host\<lparr>sys_call := \<lambda>log e. (sys_call quiet_host log e)\<lparr>res_ret := -1, res_errno := 9\<rparr>\<rparr>"

lemma failed_read_succeeds:
  "answer_after (virtio_p9_read closed_host (message_state [23, 0, 0, 0, 116, 1, 0, 5, 0, 0, 0, 0, 0, 0, 0, 0, 0, 0, 0, 16, 0, 0, 0])) 11 =
     Some [27, 0, 0, 0, 117, 1, 0, 16, 0, 0, 0]"
  by code_simp

end
