(* ===== verification/VirtioRng.thy ===== *)
theory VirtioRng
  imports VirtioServe
begin

text \<open>
  The random number generator (\<^verbatim>\<open>virtio/rng.c\<close>). What the host's \<^verbatim>\<open>readv\<close> does with room for so many bytes is given, call by call, by a function:
  a negative result with its error number, or the bytes it delivers.
\<close>

section \<open>State and operations\<close>

definition VIRTIO_RNG_QUEUE_SIZE :: nat where "VIRTIO_RNG_QUEUE_SIZE = 128"

datatype readv_result = Fails int int | Delivers "u8 list"

record rng_state =
  rng_mem :: hmem
  rng_calls :: nat

abbreviation (input) EAGAIN :: int where "EAGAIN \<equiv> 11"

text \<open>The buffers are the first \<open>in'\<close> of the chain; a failure other than \<^verbatim>\<open>EAGAIN\<close> is the length that the guest is told.\<close>

definition rng_fill :: "(nat \<Rightarrow> nat \<Rightarrow> readv_result) \<Rightarrow> iovec list \<Rightarrow> u16 \<Rightarrow> u16 \<Rightarrow> rng_state \<Rightarrow> (rng_state \<times> int) outcome" where
  "rng_fill src iov out in' s =
     (let area = iov_span (take (unat in') iov); s' = s\<lparr>rng_calls := rng_calls s + 1\<rparr>
      in case src (rng_calls s) (length area) of
           Fails len errno \<Rightarrow> Ret (s', if errno = EAGAIN then 0 else len)
         | Delivers bytes \<Rightarrow>
             let bs = take (length area) bytes
             in bind_outcome (wr_at (rng_mem s) (take (length bs) area) bs) (\<lambda>m. Ret (s'\<lparr>rng_mem := m\<rparr>, int (length bs))))"

definition virtio_rng_do_io_request ::
  "kvm_mem_bank list \<Rightarrow> (u64 \<Rightarrow> vring_desc list) \<Rightarrow> (nat \<Rightarrow> nat \<Rightarrow> readv_result) \<Rightarrow> virt_queue \<Rightarrow> rng_state \<Rightarrow> (virt_queue \<times> rng_state) outcome" where
  "virtio_rng_do_io_request banks tables src = serve_request VIRTIO_RNG_QUEUE_SIZE banks tables (rng_fill src)"

text \<open>The last result is the number of interrupts for the queue.\<close>

definition virtio_rng_do_io ::
  "kvm_mem_bank list \<Rightarrow> (u64 \<Rightarrow> vring_desc list) \<Rightarrow> (nat \<Rightarrow> nat \<Rightarrow> readv_result) \<Rightarrow> virt_queue \<Rightarrow> rng_state \<Rightarrow> (virt_queue \<times> rng_state \<times> nat) outcome option" where
  "virtio_rng_do_io banks tables src q s =
     (case while_available (virtio_rng_do_io_request banks tables src) q s of
        None \<Rightarrow> None
      | Some r \<Rightarrow> Some (bind_outcome r (\<lambda>(q, s). Ret (q, s, 1))))"

definition init_vq :: "(u64 \<Rightarrow> nat \<Rightarrow> u32 \<Rightarrow> vring) \<Rightarrow> kvm_mem_bank list \<Rightarrow> u32 \<Rightarrow> u32 \<Rightarrow> u32 \<Rightarrow> virt_queue \<Rightarrow> virt_queue" where
  "init_vq ring_at banks page_size align pfn q = place_ring ring_at banks VIRTIO_RNG_QUEUE_SIZE page_size align pfn q"

text \<open>
  \<^verbatim>\<open>virtio_rng__init\<close>: \<open>fd\<close> is the result of opening the source, \<open>r\<close> that of \<^verbatim>\<open>virtio_init\<close>; the results are the value returned, whether
  the device is in the list, and the descriptors that are closed.
\<close>

definition virtio_rng__init :: "bool \<Rightarrow> bool \<Rightarrow> int \<Rightarrow> int \<Rightarrow> int \<times> bool \<times> int list" where
  "virtio_rng__init enabled oom fd r =
     (if \<not> enabled then (0, False, [])
      else if oom then (- ENOMEM, False, [])
      else if fd < 0 then (fd, False, [fd])
      else if r < 0 then (r, False, [fd])
      else (0, True, []))"

section \<open>Every buffer is filled\<close>

text \<open>The addresses of the buffers are mapped, and memory elsewhere is as it was.\<close>

definition rng_inv :: "u64 set \<Rightarrow> hmem \<Rightarrow> rng_state \<Rightarrow> bool" where
  "rng_inv D m s \<longleftrightarrow> (\<forall>a \<in> D. rng_mem s a \<noteq> None) \<and> (\<forall>a. a \<notin> D \<longrightarrow> rng_mem s a = m a)"

definition rng_good :: "u64 set \<Rightarrow> iovec list \<times> u16 \<times> u16 \<Rightarrow> bool" where
  "rng_good D = (\<lambda>(iov, out, in'). set (iov_span (take (unat in') iov)) \<subseteq> D)"

lemma rng_fill_ok:
  assumes "rng_inv D m s" "rng_good D (iov, out, in')"
  shows "\<exists>s' len. rng_fill src iov out in' s = Ret (s', len) \<and> rng_inv D m s'"
proof (cases "src (rng_calls s) (length (iov_span (take (unat in') iov)))")
  case (Fails len errno)
  then show ?thesis using assms(1) by (auto simp: rng_fill_def rng_inv_def Let_def)
next
  case (Delivers bytes)
  define area where "area = iov_span (take (unat in') iov)"
  define bs where "bs = take (length area) bytes"
  have sub: "set (take (length bs) area) \<subseteq> D"
    using assms(2) set_take_subset [of "length bs" area] by (auto simp: rng_good_def area_def)
  then have m: "mapped (rng_mem s) (take (length bs) area)"
    using assms(1) by (auto simp: rng_inv_def mapped_def list_all_iff split: if_splits)
  then have "wr_at (rng_mem s) (take (length bs) area) bs = Ret (put_bytes (take (length bs) area) bs (rng_mem s))"
    by (intro wr_at_mapped) (auto simp: bs_def)
  moreover have "put_bytes (take (length bs) area) bs (rng_mem s) a \<noteq> None" if "a \<in> D" for a
    using mapped_put_bytes [of "rng_mem s" "[a]"] assms(1) that by (auto simp: rng_inv_def)
  moreover have "put_bytes (take (length bs) area) bs (rng_mem s) a = rng_mem s a" if "a \<notin> D" for a
    using put_bytes_other sub that by blast
  ultimately show ?thesis
    using Delivers assms(1) by (auto simp: rng_fill_def rng_inv_def Let_def area_def [symmetric] bs_def [symmetric])
qed

interpretation rng: buffer_service VIRTIO_RNG_QUEUE_SIZE banks tables "rng_fill src" "rng_inv D m" "rng_good D" for banks tables src D m
  by unfold_locales (rule rng_fill_ok)



definition steady_source :: "nat \<Rightarrow> nat \<Rightarrow> readv_result" where
  "steady_source n room = Delivers (replicate room (of_nat (n + 1)))"


text \<open>A failed read is told to the guest as a buffer of almost 2 to the power of 32 bytes.\<close>

lemma rng_failure_length: "rng_fill (\<lambda>_ _. Fails (-1) 5) iov out in' s = Ret (s\<lparr>rng_calls := rng_calls s + 1\<rparr>, -1)"
  by (simp add: rng_fill_def Let_def)

end
