(* ===== verification/VirtioBalloon.thy ===== *)
theory VirtioBalloon
  imports VirtioServe Bytes
begin

text \<open>
  The memory balloon (\<^verbatim>\<open>virtio/balloon.c\<close>): giving pages back to the host, the statistics that the guest reports, and
  the commands of the control socket. Guest integers are read with the least significant byte first, as the guests of x86 store them. The number
  of statistics is that of the kernel's header; a statistic has 10 bytes.
\<close>

section \<open>State\<close>

definition VIRTIO_BLN_QUEUE_SIZE :: nat where "VIRTIO_BLN_QUEUE_SIZE = 128"
definition VIRTIO_BALLOON_PFN_SHIFT :: nat where "VIRTIO_BALLOON_PFN_SHIFT = 12"
definition VIRTIO_BALLOON_STAT_SIZE :: nat where "VIRTIO_BALLOON_STAT_SIZE = 10"

datatype bln_queue = VIRTIO_BLN_INFLATE | VIRTIO_BLN_DEFLATE | VIRTIO_BLN_STATS

record bln_config =
  num_pages :: u32
  actual :: u32

record bln_dev =
  bln_conf :: bln_config
  bln_stats :: "u8 list"
  cur_stat :: "u64 option"
  cur_stat_head :: u32
  stat_count :: u16
  stat_wait :: nat
  bln_mem :: hmem
  madvised :: "u64 list"
  vq_signals :: "bln_queue list"
  config_signals :: nat

section \<open>Pages\<close>

text \<open>One turn of the loop over the page numbers in the first buffer.\<close>

definition bln_page :: "kvm_mem_bank list \<Rightarrow> bln_queue \<Rightarrow> u32 \<Rightarrow> bln_dev \<Rightarrow> bln_dev" where
  "bln_page banks which pfn b =
     (let guest_ptr = guest_flat_to_host banks (push_bit VIRTIO_BALLOON_PFN_SHIFT (ucast pfn))
      in case which of
           VIRTIO_BLN_INFLATE \<Rightarrow> b\<lparr>madvised := madvised b @ [guest_ptr], bln_conf := (bln_conf b)\<lparr>actual := actual (bln_conf b) + 1\<rparr>\<rparr>
         | VIRTIO_BLN_DEFLATE \<Rightarrow> b\<lparr>bln_conf := (bln_conf b)\<lparr>actual := actual (bln_conf b) - 1\<rparr>\<rparr>
         | VIRTIO_BLN_STATS \<Rightarrow> b)"

fun bln_loop :: "kvm_mem_bank list \<Rightarrow> bln_queue \<Rightarrow> u64 \<Rightarrow> nat \<Rightarrow> bln_dev \<Rightarrow> bln_dev outcome" where
  "bln_loop banks which ptr 0 b = Ret b"
| "bln_loop banks which ptr (Suc n) b =
     bind_outcome (mem_read (bln_mem b) ptr 4) (\<lambda>bs. bln_loop banks which (ptr + 4) n (bln_page banks which (of_le bs) b))"

definition bln_pages :: "kvm_mem_bank list \<Rightarrow> bln_queue \<Rightarrow> iovec list \<Rightarrow> u16 \<Rightarrow> u16 \<Rightarrow> bln_dev \<Rightarrow> (bln_dev \<times> int) outcome" where
  "bln_pages banks which iov out in' b =
     (case iov of
        [] \<Rightarrow> Undefined
      | v # _ \<Rightarrow> let len = unat (ucast (iov_len v div 4) :: u32) in bind_outcome (bln_loop banks which (iov_base v) len b) (\<lambda>b. Ret (b, int len)))"

definition virtio_bln_do_io_request ::
  "kvm_mem_bank list \<Rightarrow> (u64 \<Rightarrow> vring_desc list) \<Rightarrow> bln_queue \<Rightarrow> virt_queue \<Rightarrow> bln_dev \<Rightarrow> (virt_queue \<times> bln_dev) outcome" where
  "virtio_bln_do_io_request banks tables which = serve_request VIRTIO_BLN_QUEUE_SIZE banks tables (bln_pages banks which)"

section \<open>Statistics\<close>

text \<open>
  The array of statistics has \<open>nr\<close> entries; the copy is as long as the guest's buffer. \<open>res\<close> is the result of the write to the descriptor that the
  collection waits for. The buffer is kept until the next collection.
\<close>

definition virtio_bln_do_stat_request ::
  "nat \<Rightarrow> int \<Rightarrow> kvm_mem_bank list \<Rightarrow> (u64 \<Rightarrow> vring_desc list) \<Rightarrow> virt_queue \<Rightarrow> bln_dev \<Rightarrow> (virt_queue \<times> bln_dev \<times> bool) outcome" where
  "virtio_bln_do_stat_request nr res banks tables q b =
     bind_outcome (virt_queue__get_iov VIRTIO_BLN_QUEUE_SIZE banks tables q) (\<lambda>(q, iov, out, in', head).
       case iov of
         [] \<Rightarrow> Undefined
       | v # _ \<Rightarrow>
           let b' = b\<lparr>cur_stat := Some (iov_base v), cur_stat_head := ucast head\<rparr>
           in if cur_stat b = None then Ret (q, b', True)
              else if VIRTIO_BALLOON_STAT_SIZE * nr < unat (iov_len v) then Undefined
              else bind_outcome (mem_read (bln_mem b) (iov_base v) (unat (iov_len v))) (\<lambda>bs.
                let b' = b'\<lparr>bln_stats := bs @ drop (length bs) (bln_stats b), stat_count := of_nat (length bs div VIRTIO_BALLOON_STAT_SIZE)\<rparr>
                in Ret (q, if res \<le> 0 then b' else b'\<lparr>stat_wait := stat_wait b' + 1\<rparr>, True)))"

text \<open>The handler of a queue. A page request is signalled each, the statistics after the request.\<close>

definition bln_turn ::
  "kvm_mem_bank list \<Rightarrow> (u64 \<Rightarrow> vring_desc list) \<Rightarrow> bln_queue \<Rightarrow> virt_queue \<Rightarrow> bln_dev \<Rightarrow> (virt_queue \<times> bln_dev) outcome" where
  "bln_turn banks tables which q b =
     bind_outcome (virtio_bln_do_io_request banks tables which q b) (\<lambda>(q, b). Ret (q, b\<lparr>vq_signals := vq_signals b @ [which]\<rparr>))"

definition virtio_bln_do_io ::
  "nat \<Rightarrow> int \<Rightarrow> kvm_mem_bank list \<Rightarrow> (u64 \<Rightarrow> vring_desc list) \<Rightarrow> bln_queue \<Rightarrow> virt_queue \<Rightarrow> bln_dev \<Rightarrow> (virt_queue \<times> bln_dev) outcome option" where
  "virtio_bln_do_io nr res banks tables which q b =
     (if which = VIRTIO_BLN_STATS then
        Some (bind_outcome (virtio_bln_do_stat_request nr res banks tables q b) (\<lambda>(q, b, _). Ret (q, b\<lparr>vq_signals := vq_signals b @ [VIRTIO_BLN_STATS]\<rparr>)))
      else while_available (bln_turn banks tables which) q b)"

text \<open>Asking for statistics: the buffer goes back to the guest; \<open>res\<close> is the result of the read that waits for the answer.\<close>

definition virtio_bln__collect_stats :: "int \<Rightarrow> virt_queue \<Rightarrow> bln_dev \<Rightarrow> (virt_queue \<times> bln_dev \<times> int) outcome" where
  "virtio_bln__collect_stats res q b =
     bind_outcome (virt_queue__set_used_elem q (cur_stat_head b) (of_nat VIRTIO_BALLOON_STAT_SIZE)) (\<lambda>q.
       Ret (q, b\<lparr>vq_signals := vq_signals b @ [VIRTIO_BLN_STATS]\<rparr>, if res \<le> 0 then - 14 else 0))"

definition KVM_IPC_BALLOON :: u32 where "KVM_IPC_BALLOON = 1"
definition KVM_IPC_STAT :: u32 where "KVM_IPC_STAT = 3"

text \<open>The last result is what is sent to the socket.\<close>

definition virtio_bln__print_stats :: "int \<Rightarrow> u32 \<Rightarrow> u32 \<Rightarrow> virt_queue \<Rightarrow> bln_dev \<Rightarrow> (virt_queue \<times> bln_dev \<times> u8 list option) outcome" where
  "virtio_bln__print_stats res type len q b =
     (if type \<noteq> KVM_IPC_STAT \<or> len \<noteq> 0 then Ret (q, b, None)
      else bind_outcome (virtio_bln__collect_stats res q b) (\<lambda>(q, b, r). Ret (q, b, if r < 0 then None else Some (bln_stats b))))"

text \<open>The product is one of signed 32-bit integers.\<close>

definition handle_mem :: "u32 \<Rightarrow> u32 \<Rightarrow> int \<Rightarrow> bln_dev \<Rightarrow> bln_dev outcome" where
  "handle_mem type len mem b =
     (if type \<noteq> KVM_IPC_BALLOON \<or> len \<noteq> 4 then Ret b
      else if 256 * \<bar>mem\<bar> \<ge> 2 ^ 31 then Undefined
      else let c = bln_conf b; b' = b\<lparr>bln_conf := c\<lparr>num_pages := num_pages c + word_of_int (256 * mem)\<rparr>\<rparr>
        in if 0 < mem then Ret (b'\<lparr>config_signals := config_signals b + 1\<rparr>)
           else if mem < 0 then
             if num_pages c < word_of_int (256 * (- mem)) then Ret b else Ret (b'\<lparr>config_signals := config_signals b + 1\<rparr>)
           else Ret (b\<lparr>config_signals := config_signals b + 1\<rparr>))"

definition init_vq :: "(u64 \<Rightarrow> nat \<Rightarrow> u32 \<Rightarrow> vring) \<Rightarrow> kvm_mem_bank list \<Rightarrow> u32 \<Rightarrow> u32 \<Rightarrow> u32 \<Rightarrow> virt_queue \<Rightarrow> virt_queue" where
  "init_vq ring_at banks page_size align pfn q = place_ring ring_at banks VIRTIO_BLN_QUEUE_SIZE page_size align pfn q"


section \<open>The balloon follows the requests\<close>

text \<open>The page numbers in a buffer.\<close>

definition bln_pfns :: "hmem \<Rightarrow> iovec list \<times> u16 \<times> u16 \<Rightarrow> u32 list" where
  "bln_pfns m = (\<lambda>(iov, out, in').
     let v = hd iov in map (\<lambda>i. of_le (get_bytes (span (iov_base v + of_nat (4 * i)) 4) m)) [0..<unat (ucast (iov_len v div 4) :: u32)])"

definition bln_good :: "hmem \<Rightarrow> iovec list \<times> u16 \<times> u16 \<Rightarrow> bool" where
  "bln_good m = (\<lambda>(iov, out, in'). iov \<noteq> [] \<and> mapped m (span (iov_base (hd iov)) (4 * unat (ucast (iov_len (hd iov) div 4) :: u32))))"

lemma bln_page_mem [simp]: "bln_mem (bln_page banks which pfn b) = bln_mem b"
  by (simp add: bln_page_def Let_def split: bln_queue.splits)

lemma bln_loop_ok:
  assumes "mapped (bln_mem b) (span ptr (4 * n))"
  shows "bln_loop banks which ptr n b = Ret (fold (bln_page banks which) (map (\<lambda>i. of_le (get_bytes (span (ptr + of_nat (4 * i)) 4) (bln_mem b))) [0..<n]) b)"
  using assms
proof (induction n arbitrary: ptr b)
  case (Suc n)
  have sp: "span ptr (4 * Suc n) = span ptr 4 @ span (ptr + 4) (4 * n)"
    using span_append [of ptr 4 "4 * n"] by simp
  have m: "mapped (bln_mem b) (span ptr 4)" "mapped (bln_mem b) (span (ptr + 4) (4 * n))"
    using Suc.prems unfolding sp by simp_all
  let ?f = "\<lambda>p i. of_le (get_bytes (span (p + of_nat (4 * i)) 4) (bln_mem b)) :: u32"
  have "map (?f ptr) [0..<Suc n] = ?f ptr 0 # map (?f (ptr + 4)) [0..<n]"
    by (rule nth_equalityI) (auto simp: nth_Cons' algebra_simps simp del: upt_Suc)
  then show ?case
    using Suc.IH [of "bln_page banks which (of_le (get_bytes (span ptr 4) (bln_mem b))) b" "ptr + 4"] m
    by (simp add: mem_read_def rd_at_mapped del: upt_Suc)
qed simp

lemma bln_pages_ok:
  assumes "bln_mem b = m" "bln_good m (iov, out, in')"
  shows "bln_pages banks which iov out in' b = Ret (fold (bln_page banks which) (bln_pfns m (iov, out, in')) b, int (length (bln_pfns m (iov, out, in'))))"
  using assms bln_loop_ok by (cases iov) (auto simp: bln_pages_def bln_good_def bln_pfns_def Let_def)

lemma bln_fold_mem [simp]: "bln_mem (fold (bln_page banks which) pfns b) = bln_mem b"
  by (induction pfns arbitrary: b) auto

interpretation bln: buffer_service VIRTIO_BLN_QUEUE_SIZE banks tables "bln_pages banks which" "\<lambda>b. bln_mem b = m" "bln_good m" for banks tables which m
  by unfold_locales (auto simp: bln_pages_ok)

lemma fold_inflate:
  "fold (bln_page banks VIRTIO_BLN_INFLATE) pfns b =
    b\<lparr>madvised := madvised b @ map (\<lambda>pfn. guest_flat_to_host banks (push_bit VIRTIO_BALLOON_PFN_SHIFT (ucast pfn))) pfns,
      bln_conf := (bln_conf b)\<lparr>actual := actual (bln_conf b) + of_nat (length pfns)\<rparr>\<rparr>"
  by (induction pfns arbitrary: b) (auto simp: bln_page_def Let_def add.assoc)

lemma fold_deflate:
  "fold (bln_page banks VIRTIO_BLN_DEFLATE) pfns b = b\<lparr>bln_conf := (bln_conf b)\<lparr>actual := actual (bln_conf b) - of_nat (length pfns)\<rparr>\<rparr>"
  by (induction pfns arbitrary: b) (auto simp: bln_page_def Let_def diff_diff_eq add.commute)

text \<open>
  A request to the balloon. The page numbers of the request are taken in order: to inflate, each page is given back to the host and counted, to deflate,
  counted down; the buffer goes back with the number of pages. Inflating and deflating by the same pages leaves the size of the balloon as it was.
\<close>

theorem virtio_bln_request_correct:
  assumes "vq_ok q" "pending q = h # hs" "buffer_of VIRTIO_BLN_QUEUE_SIZE banks tables q h = Some buf" "bln_good (bln_mem b) buf" "used_room seen q"
  shows "\<exists>q'. virtio_bln_do_io_request banks tables which q b = Ret (q', fold (bln_page banks which) (bln_pfns (bln_mem b) buf) b) \<and> vq_ok q' \<and> pending q' = hs \<and>
    completions seen q' = completions seen q @ [(ucast h, of_nat (length (bln_pfns (bln_mem b) buf)))] \<and>
    madvised (fold (bln_page banks VIRTIO_BLN_INFLATE) (bln_pfns (bln_mem b) buf) b) =
      madvised b @ map (\<lambda>pfn. guest_flat_to_host banks (push_bit VIRTIO_BALLOON_PFN_SHIFT (ucast pfn))) (bln_pfns (bln_mem b) buf) \<and>
    bln_conf (fold (bln_page banks VIRTIO_BLN_DEFLATE) (bln_pfns (bln_mem b) buf) (fold (bln_page banks VIRTIO_BLN_INFLATE) (bln_pfns (bln_mem b) buf) b)) = bln_conf b"
proof -
  obtain iov out in' where buf: "buf = (iov, out, in')"
    by (cases buf)
  obtain q' s' len where r: "serve_request VIRTIO_BLN_QUEUE_SIZE banks tables (bln_pages banks which) q b = Ret (q', s')"
    "bln_pages banks which iov out in' b = Ret (s', len)" "vq_ok q'" "pending q' = hs" "completions seen q' = completions seen q @ [(ucast h, word_of_int len)]"
    using bln.request_step [OF assms(1,2) assms(3) [unfolded buf] assms(4) [unfolded buf] refl assms(5), of which] by metis
  with bln_pages_ok [OF refl assms(4) [unfolded buf], of banks which] show ?thesis
    unfolding virtio_bln_do_io_request_def buf fold_inflate fold_deflate by (auto simp: of_nat_id)
qed

theorem virtio_bln_request_correct_witness:
  "\<exists>q'. virtio_bln_do_io_request one_bank (\<lambda>_. []) VIRTIO_BLN_INFLATE (two_queue 0)
      \<lparr>bln_conf = \<lparr>num_pages = 0, actual = 5\<rparr>, bln_stats = [], cur_stat = None, cur_stat_head = 0, stat_count = 0, stat_wait = 0,
        bln_mem = (\<lambda>_. Some 0)(0x70001000 := Some 3), madvised = [], vq_signals = [], config_signals = 0\<rparr> =
    Ret (q', \<lparr>bln_conf = \<lparr>num_pages = 0, actual = 6\<rparr>, bln_stats = [], cur_stat = None, cur_stat_head = 0, stat_count = 0, stat_wait = 0,
        bln_mem = (\<lambda>_. Some 0)(0x70001000 := Some 3), madvised = [0x70003000], vq_signals = [], config_signals = 0\<rparr>) \<and> completions 0 q' = [(0, 1)]"
proof -
  let ?m = "(\<lambda>_. Some 0)(0x70001000 := Some 3) :: hmem"
  let ?b = "\<lparr>bln_conf = \<lparr>num_pages = 0, actual = 5\<rparr>, bln_stats = [], cur_stat = None, cur_stat_head = 0, stat_count = 0, stat_wait = 0,
    bln_mem = ?m, madvised = [], vq_signals = [], config_signals = 0\<rparr> :: bln_dev"
  let ?buf = "([\<lparr>iov_base = 0x70001000, iov_len = 4\<rparr>], 1, 0) :: iovec list \<times> u16 \<times> u16"
  have buf: "buffer_of VIRTIO_BLN_QUEUE_SIZE one_bank (\<lambda>_. []) (two_queue 0) 0 = Some ?buf"
    using two_queue_buffers(2) by (simp add: VIRTIO_BLN_QUEUE_SIZE_def)
  have mp: "mapped ?m as" for as
    by (simp add: mapped_def list_all_iff)
  have good: "bln_good (bln_mem ?b) ?buf"
    using mp by (simp add: bln_good_def)
  have room: "used_room 0 (two_queue 0)"
    using two_queue_ok(3) used_space_room [of 0 "two_queue 0" 1] by (simp add: numeral_2_eq_2)
  have "get_bytes (span 0x70001000 4) ?m = [3, 0, 0, 0]"
    by code_simp
  then have pfns: "bln_pfns (bln_mem ?b) ?buf = [3]"
    by (simp add: bln_pfns_def of_le_def)
  have page: "guest_flat_to_host one_bank (push_bit VIRTIO_BALLOON_PFN_SHIFT (3 :: u64)) = 0x70003000"
    by code_simp
  from virtio_bln_request_correct [OF two_queue_ok(1,2) buf good room, of VIRTIO_BLN_INFLATE] show ?thesis
    unfolding pfns fold_inflate by (auto simp: two_queue_ok(4) page)
qed

text \<open>
  The size that the host asks for: a command to shrink takes effect only when the balloon is asked to be that large, so that the number of pages never
  wraps around below zero.
\<close>

lemma handle_mem_no_wrap:
  assumes "handle_mem KVM_IPC_BALLOON 4 mem b = Ret b'" "mem < 0"
  shows "b' = b \<or> int (unat (num_pages (bln_conf b'))) = int (unat (num_pages (bln_conf b))) + 256 * mem"
proof (cases "b' = b")
  case False
  define k where "k = nat (256 * (- mem))"
  have k: "256 * mem = - int k" "k < 2 ^ 31"
    using assms by (auto simp: k_def handle_mem_def split: if_splits)
  let ?p = "num_pages (bln_conf b)"
  have "256 * (- mem) = int k"
    using k(1) by simp
  then have w: "word_of_int (256 * mem) = - (of_nat k :: u32)" "word_of_int (256 * (- mem)) = (of_nat k :: u32)"
    by (simp_all only: k(1) of_int_minus of_int_of_nat_eq)
  have u: "unat (of_nat k :: u32) = k"
    using k(2) by (simp add: unsigned_of_nat take_bit_nat_eq_self)
  have "\<not> ?p < of_nat k" "num_pages (bln_conf b') = ?p - of_nat k"
    using assms False unfolding handle_mem_def Let_def w by (auto split: if_splits)
  then have "unat (num_pages (bln_conf b')) = unat ?p - k" "k \<le> unat ?p"
    using u by (simp_all add: unat_sub word_le_nat_alt not_less)
  then show ?thesis
    using k(1) by simp
qed simp

text \<open>A report of the guest that is longer than the array of statistics is copied behind its end.\<close>

lemma bln_stats_overflow:
  assumes "virt_queue__get_iov VIRTIO_BLN_QUEUE_SIZE banks tables q = Ret (q', v # iov, out, in', head)" "cur_stat b \<noteq> None"
    "VIRTIO_BALLOON_STAT_SIZE * nr < unat (iov_len v)"
  shows "virtio_bln_do_stat_request nr res banks tables q b = Undefined"
  using assms by (simp add: virtio_bln_do_stat_request_def Let_def)

end
