(* ===== verification/VirtioTrans.thy ===== *)
theory VirtioTrans
  imports Virtqueue Ioeventfd Irq
begin

text \<open>
  What the two transports share: the operations of a device (\<^verbatim>\<open>struct virtio_ops\<close> in \<^verbatim>\<open>include/kvm/virtio.h\<close>) and the parts of
  \<^verbatim>\<open>virtio/core.c\<close> that call them. A device is a state of any type; a pointer that an operation returns is the part of the state it points to, with an
  operation to store there. A queue number that the device does not have gives a pointer outside its array: \<open>None\<close>.
\<close>

section \<open>Devices\<close>

record 'd virtio_ops =
  get_config :: "'d \<Rightarrow> u8 list"
  put_config :: "u8 list \<Rightarrow> 'd \<Rightarrow> 'd"
  op_host_features :: "'d \<Rightarrow> u32"
  op_guest_features :: "u32 \<Rightarrow> 'd \<Rightarrow> 'd"
  get_vq_count :: "'d \<Rightarrow> nat"
  op_init_vq :: "u32 \<Rightarrow> u32 \<Rightarrow> u32 \<Rightarrow> u32 \<Rightarrow> 'd \<Rightarrow> 'd outcome"
  op_exit_vq :: "(u32 \<Rightarrow> 'd \<Rightarrow> 'd) option"
  op_notify_vq :: "u32 \<Rightarrow> 'd \<Rightarrow> 'd"
  get_vq :: "'d \<Rightarrow> u32 \<Rightarrow> virt_queue option"
  put_vq :: "u32 \<Rightarrow> virt_queue \<Rightarrow> 'd \<Rightarrow> 'd"
  get_size_vq :: "'d \<Rightarrow> u32 \<Rightarrow> u32"
  set_size_vq :: "u32 \<Rightarrow> u32 \<Rightarrow> 'd \<Rightarrow> 'd"
  notify_vq_gsi :: "(u32 \<Rightarrow> u32 \<Rightarrow> 'd \<Rightarrow> 'd) option"
  notify_vq_eventfd :: "(u32 \<Rightarrow> int \<Rightarrow> 'd \<Rightarrow> 'd) option"
  op_notify_status :: "(u32 \<Rightarrow> 'd \<Rightarrow> 'd) option"

record 'd virtio_device =
  v_dev :: 'd
  use_vhost :: bool
  v_features :: u32
  v_status :: u32

text \<open>The results of the host for a new event: a failed allocation, the errors of registering and polling it, and the descriptor.\<close>

record ev_env =
  ev_oom :: bool
  ev_ioctl :: int
  ev_ctl :: int
  ev_new_fd :: int

section \<open>Shared operations\<close>

definition device_exit_vq :: "'d virtio_ops \<Rightarrow> u32 \<Rightarrow> 'd \<Rightarrow> 'd outcome" where
  "device_exit_vq ops num d =
     (case get_vq ops d num of
        None \<Rightarrow> Undefined
      | Some q \<Rightarrow>
          (case virtio_exit_vq q of (q', enabled) \<Rightarrow>
             let d = (if enabled then (case op_exit_vq ops of Some f \<Rightarrow> f num d | None \<Rightarrow> d) else d)
             in Ret (put_vq ops num q' d)))"

definition virtio_set_guest_features :: "'d virtio_ops \<Rightarrow> u32 \<Rightarrow> 'd virtio_device \<Rightarrow> 'd virtio_device" where
  "virtio_set_guest_features ops features v = v\<lparr>v_features := features, v_dev := op_guest_features ops features (v_dev v)\<rparr>"

text \<open>\<open>reset\<close> is the operation of the transport; \<open>'t\<close> is its state, which has the device in it.\<close>

definition status_change :: "'d virtio_ops \<Rightarrow> ('t \<Rightarrow> 't outcome) \<Rightarrow> ('t \<Rightarrow> 'd virtio_device) \<Rightarrow> ('d virtio_device \<Rightarrow> 't \<Rightarrow> 't) \<Rightarrow> u8 \<Rightarrow> 't \<Rightarrow> 't outcome" where
  "status_change ops reset the_vdev put_vdev status t =
     (case virtio_notify_status status (v_status (the_vdev t)) of (new, stop, ext) \<Rightarrow>
        let t = put_vdev ((the_vdev t)\<lparr>v_status := new\<rparr>) t
        in bind_outcome (if stop then reset t else Ret t) (\<lambda>t.
             Ret (case op_notify_status ops of
                    None \<Rightarrow> t
                  | Some f \<Rightarrow> put_vdev ((the_vdev t)\<lparr>v_dev := f ext (v_dev (the_vdev t))\<rparr>) t)))"

text \<open>Access to the configuration of a device, a byte at a time.\<close>

definition config_read :: "'d virtio_ops \<Rightarrow> nat \<Rightarrow> 'd \<Rightarrow> u8 outcome" where
  "config_read ops i d = (if i < length (get_config ops d) then Ret (get_config ops d ! i) else Undefined)"

definition config_write :: "'d virtio_ops \<Rightarrow> nat \<Rightarrow> u8 \<Rightarrow> 'd \<Rightarrow> 'd outcome" where
  "config_write ops i b d = (if i < length (get_config ops d) then Ret (put_config ops ((get_config ops d)[i := b]) d) else Undefined)"

section \<open>Laws of a device\<close>

text \<open>What a transport relies on: the queues are an array of a fixed number, and taking one down leaves the others alone.\<close>

locale virtio_dev =
  fixes ops :: "'d virtio_ops"
  assumes vq_defined: "get_vq ops d n \<noteq> None \<longleftrightarrow> unat n < get_vq_count ops d"
    and get_put_vq: "unat n < get_vq_count ops d \<Longrightarrow> get_vq ops (put_vq ops n q d) n = Some q"
    and get_put_other: "unat n < get_vq_count ops d \<Longrightarrow> k \<noteq> n \<Longrightarrow> get_vq ops (put_vq ops n q d) k = get_vq ops d k"
    and count_put: "get_vq_count ops (put_vq ops n q d) = get_vq_count ops d"
    and exit_other: "op_exit_vq ops = Some f \<Longrightarrow> get_vq ops (f n d) k = get_vq ops d k"
    and exit_count: "op_exit_vq ops = Some f \<Longrightarrow> get_vq_count ops (f n d) = get_vq_count ops d"
    and few_queues: "get_vq_count ops d \<le> 32"
begin

lemma device_exit_vq_ok:
  assumes "unat n < get_vq_count ops d"
  obtains d' where "device_exit_vq ops n d = Ret d'" "get_vq ops d' n = Some virt_queue_zero" "\<And>k. k \<noteq> n \<Longrightarrow> get_vq ops d' k = get_vq ops d k"
    "get_vq_count ops d' = get_vq_count ops d"
proof -
  obtain q where q: "get_vq ops d n = Some q"
    using assms vq_defined by auto
  define d1 where "d1 = (if vq_enabled q then (case op_exit_vq ops of Some f \<Rightarrow> f n d | None \<Rightarrow> d) else d)"
  have d1: "get_vq_count ops d1 = get_vq_count ops d" "\<And>k. get_vq ops d1 k = get_vq ops d k"
    using exit_other exit_count by (auto simp: d1_def split: option.splits)
  show thesis
  proof (rule that)
    show "device_exit_vq ops n d = Ret (put_vq ops n virt_queue_zero d1)"
      using q by (simp add: device_exit_vq_def virtio_exit_vq_def d1_def Let_def)
  qed (use d1 assms get_put_vq get_put_other count_put in auto)
qed

end

end
