(* ===== verification/VirtioConsole.thy ===== *)
theory VirtioConsole
  imports VirtioServe Term VirtioTrans
begin

text \<open>
  The virtio console (\<^verbatim>\<open>virtio/console.c\<close>). The terminal is that of \<^verbatim>\<open>Term\<close>, a job of the thread pool is named by the queue
  it belongs to; \<open>con_notified\<close> are the jobs that were passed to \<^verbatim>\<open>thread_pool__do_job\<close>. The mutex of the device is held for the whole of the operations that take it and has no state of its own.
\<close>

section \<open>State and operations\<close>

definition VIRTIO_CONSOLE_QUEUE_SIZE :: nat where "VIRTIO_CONSOLE_QUEUE_SIZE = 128"
definition VIRTIO_CONSOLE_NUM_QUEUES :: u32 where "VIRTIO_CONSOLE_NUM_QUEUES = 2"
definition VIRTIO_CONSOLE_RX_QUEUE :: u32 where "VIRTIO_CONSOLE_RX_QUEUE = 0"
definition VIRTIO_CONSOLE_TX_QUEUE :: u32 where "VIRTIO_CONSOLE_TX_QUEUE = 1"

record con_io =
  con_term :: term_state
  con_mem :: hmem

record con_dev =
  con_vqs :: "u32 \<Rightarrow> virt_queue"
  con_ready :: bool
  con_features :: u32
  con_config :: "u8 list"
  con_notified :: "u32 list"

text \<open>Taking a character from the terminal, into the first buffer.\<close>

definition con_getc :: "iovec list \<Rightarrow> u16 \<Rightarrow> u16 \<Rightarrow> con_io \<Rightarrow> (con_io \<times> int) outcome" where
  "con_getc iov out in' s =
     bind_outcome (term_getc_iov (con_term s)) (\<lambda>(t, bs).
       case (bs, iov) of
         ([], _) \<Rightarrow> Ret (s\<lparr>con_term := t\<rparr>, 0)
       | (b # _, []) \<Rightarrow> Undefined
       | (b # _, v # _) \<Rightarrow> bind_outcome (mem_write (con_mem s) (iov_base v) [b]) (\<lambda>m. Ret (s\<lparr>con_term := t, con_mem := m\<rparr>, 1)))"

text \<open>The result of the callback is the new queue and the number of interrupts.\<close>

definition virtio_console__inject_interrupt_callback ::
  "kvm_mem_bank list \<Rightarrow> (u64 \<Rightarrow> vring_desc list) \<Rightarrow> virt_queue \<Rightarrow> con_io \<Rightarrow> (virt_queue \<times> con_io \<times> nat) outcome" where
  "virtio_console__inject_interrupt_callback banks tables q s =
     (if \<not> term_readable (con_term s) then Ret (q, s, 0)
      else case virt_queue__available q of (q, avail) \<Rightarrow>
        if \<not> avail then Ret (q, s, 0)
        else bind_outcome (serve_request VIRTIO_CONSOLE_QUEUE_SIZE banks tables con_getc q s) (\<lambda>(q, s). Ret (q, s, 1)))"

text \<open>The job that is passed to \<^verbatim>\<open>thread_pool__do_job\<close>, if any.\<close>

definition virtio_console__inject_interrupt :: "bool \<Rightarrow> con_dev \<Rightarrow> u32 option" where
  "virtio_console__inject_interrupt active d = (if \<not> active then None else if con_ready d then Some VIRTIO_CONSOLE_RX_QUEUE else None)"

definition con_putc :: "iovec list \<Rightarrow> u16 \<Rightarrow> u16 \<Rightarrow> con_io \<Rightarrow> (con_io \<times> int) outcome" where
  "con_putc iov out in' s =
     bind_outcome (rd_at (con_mem s) (iov_span (take (unat out) iov))) (\<lambda>bs.
       case term_putc_iov [bs] (con_term s) of (t, len) \<Rightarrow> Ret (s\<lparr>con_term := t\<rparr>, len))"

definition virtio_console_handle_callback ::
  "kvm_mem_bank list \<Rightarrow> (u64 \<Rightarrow> vring_desc list) \<Rightarrow> virt_queue \<Rightarrow> con_io \<Rightarrow> (virt_queue \<times> con_io) outcome option" where
  "virtio_console_handle_callback banks tables = while_available (serve_request VIRTIO_CONSOLE_QUEUE_SIZE banks tables con_putc)"

text \<open>The second result is the job that is set up, or, when the queue is taken down, cancelled.\<close>

definition init_vq :: "(u64 \<Rightarrow> nat \<Rightarrow> u32 \<Rightarrow> vring) \<Rightarrow> kvm_mem_bank list \<Rightarrow> u32 \<Rightarrow> u32 \<Rightarrow> u32 \<Rightarrow> u32 \<Rightarrow> con_dev \<Rightarrow> (con_dev \<times> u32) outcome" where
  "init_vq ring_at banks vq page_size align pfn d =
     (if VIRTIO_CONSOLE_NUM_QUEUES \<le> vq then Dies
      else let q = virtio_init_device_vq (con_features d) (place_ring ring_at banks VIRTIO_CONSOLE_QUEUE_SIZE page_size align pfn (con_vqs d vq))
        in Ret (d\<lparr>con_vqs := (con_vqs d)(vq := q), con_ready := (con_ready d \<or> vq = VIRTIO_CONSOLE_RX_QUEUE)\<rparr>, vq))"

definition exit_vq :: "u32 \<Rightarrow> con_dev \<Rightarrow> con_dev \<times> u32 option" where
  "exit_vq vq d =
     (if vq = VIRTIO_CONSOLE_RX_QUEUE then (d\<lparr>con_ready := False\<rparr>, Some vq)
      else if vq = VIRTIO_CONSOLE_TX_QUEUE then (d, Some vq)
      else (d, None))"

text \<open>
  The operations that the transport calls. On x86 the byte order is that of the host, so that the conversions of \<^verbatim>\<open>set_guest_features\<close> do nothing;
  the features are those of the virtio device, which the console contains.
\<close>

definition con_ops :: "(u64 \<Rightarrow> nat \<Rightarrow> u32 \<Rightarrow> vring) \<Rightarrow> kvm_mem_bank list \<Rightarrow> con_dev virtio_ops" where
  "con_ops ring_at banks =
     \<lparr>get_config = con_config, put_config = (\<lambda>c d. d\<lparr>con_config := c\<rparr>), op_host_features = (\<lambda>_. 0), op_guest_features = (\<lambda>f d. d\<lparr>con_features := f\<rparr>),
      get_vq_count = (\<lambda>_. unat VIRTIO_CONSOLE_NUM_QUEUES),
      op_init_vq = (\<lambda>vq page_size align pfn d. bind_outcome (init_vq ring_at banks vq page_size align pfn d) (\<lambda>(d, _). Ret d)),
      op_exit_vq = Some (\<lambda>vq d. fst (exit_vq vq d)), op_notify_vq = (\<lambda>vq d. d\<lparr>con_notified := con_notified d @ [vq]\<rparr>),
      get_vq = (\<lambda>d vq. if vq < VIRTIO_CONSOLE_NUM_QUEUES then Some (con_vqs d vq) else None), put_vq = (\<lambda>vq q d. d\<lparr>con_vqs := (con_vqs d)(vq := q)\<rparr>),
      get_size_vq = (\<lambda>_ _. of_nat VIRTIO_CONSOLE_QUEUE_SIZE), set_size_vq = (\<lambda>_ _ d. d), notify_vq_gsi = None, notify_vq_eventfd = None,
      op_notify_status = Some (\<lambda>_ d. d)\<rparr>"

interpretation con_dev: virtio_dev "con_ops ring_at banks" for ring_at banks
  by unfold_locales (auto simp: con_ops_def VIRTIO_CONSOLE_NUM_QUEUES_def word_less_nat_alt exit_vq_def)

section \<open>Output in order\<close>

text \<open>The buffers can be read; the host's terminal takes what it is given.\<close>

definition con_inv :: "hmem \<Rightarrow> con_io \<Rightarrow> bool" where
  "con_inv m s \<longleftrightarrow> con_mem s = m \<and> tm_writes (con_term s) = []"

definition con_text :: "hmem \<Rightarrow> iovec list \<times> u16 \<times> u16 \<Rightarrow> u8 list" where
  "con_text m = (\<lambda>(iov, out, in'). get_bytes (iov_span (take (unat out) iov)) m)"

definition con_good :: "hmem \<Rightarrow> iovec list \<times> u16 \<times> u16 \<Rightarrow> bool" where
  "con_good m = (\<lambda>(iov, out, in'). mapped m (iov_span (take (unat out) iov)))"

lemma con_putc_ok:
  assumes "con_inv m s" "con_good m (iov, out, in')"
  shows "con_putc iov out in' s = Ret (s\<lparr>con_term := (con_term s)\<lparr>tm_output := tm_output (con_term s) @ con_text m (iov, out, in')\<rparr>\<rparr>, int (length (con_text m (iov, out, in'))))"
  using assms by (auto simp: con_putc_def con_inv_def con_good_def con_text_def rd_at_mapped term_putc_iov_def Let_def)

interpretation con: buffer_service VIRTIO_CONSOLE_QUEUE_SIZE banks tables con_putc "con_inv m" "con_good m" for banks tables m
  by unfold_locales (auto simp: con_putc_ok con_inv_def)

lemma con_serve_all:
  "con_inv m s \<Longrightarrow> list_all (con_good m) bufs \<Longrightarrow>
    serve_all con_putc bufs s = Ret (s\<lparr>con_term := (con_term s)\<lparr>tm_output := tm_output (con_term s) @ concat (map (con_text m) bufs)\<rparr>\<rparr>, map (int \<circ> length \<circ> con_text m) bufs)"
proof (induction bufs arbitrary: s)
  case (Cons b bufs)
  obtain iov out in' where b: "b = (iov, out, in')"
    by (cases b)
  let ?s = "s\<lparr>con_term := (con_term s)\<lparr>tm_output := tm_output (con_term s) @ con_text m b\<rparr>\<rparr>"
  have "con_inv m ?s"
    using Cons.prems(1) by (simp add: con_inv_def)
  with Cons.IH [OF this] Cons.prems con_putc_ok [of m s iov out in'] show ?case
    by (simp add: b)
qed simp

text \<open>
  C22: Console output. When the handler of the transmit queue has run, what the guest put into its buffers is on the terminal, buffer after buffer in the order of
  the queue, complete and once; every buffer is back in the used ring with its length, none is pending, and the loop has ended.
\<close>

theorem virtio_console_transmits:
  assumes "vq_ok q" "map (buffer_of VIRTIO_CONSOLE_QUEUE_SIZE banks tables q) (pending q) = map Some bufs" "list_all (con_good m) bufs" "con_inv m s"
    "used_space seen q (length bufs)"
  shows "\<exists>q' s'. virtio_console_handle_callback banks tables q s = Some (Ret (q', s')) \<and> con_mem s' = con_mem s \<and>
    con_term s' = (con_term s)\<lparr>tm_output := tm_output (con_term s) @ concat (map (con_text m) bufs)\<rparr> \<and> vq_ok q' \<and> pending q' = [] \<and>
    completions seen q' = completions seen q @ zip (map ucast (pending q)) (map (of_nat \<circ> length \<circ> con_text m) bufs)"
  using con.drains [OF assms(1,4,2,3,5)] con_serve_all [OF assms(4,3)]
  by (auto simp: virtio_console_handle_callback_def comp_def)

theorem virtio_console_transmits_witness:
  "\<exists>q' s'. virtio_console_handle_callback one_bank (\<lambda>_. []) (two_queue 0)
      \<lparr>con_term = \<lparr>tm_input = [], tm_writes = [], tm_output = [9], term_got_escape = False, tm_reboots = 0\<rparr>, con_mem = \<lambda>_. Some 65\<rparr> = Some (Ret (q', s')) \<and>
    tm_output (con_term s') = 9 # replicate 12 65 \<and> pending q' = [] \<and> completions 0 q' = [(0, 4), (1, 8)]"
proof -
  let ?bufs = "[([\<lparr>iov_base = 0x70001000, iov_len = 4\<rparr>], 1, 0), ([\<lparr>iov_base = 0x70002000, iov_len = 8\<rparr>], 1, 0)] :: (iovec list \<times> u16 \<times> u16) list"
  let ?s = "\<lparr>con_term = \<lparr>tm_input = [], tm_writes = [], tm_output = [9], term_got_escape = False, tm_reboots = 0\<rparr>, con_mem = \<lambda>_. Some 65\<rparr> :: con_io"
  have b: "map (buffer_of VIRTIO_CONSOLE_QUEUE_SIZE one_bank (\<lambda>_. []) (two_queue 0)) (pending (two_queue 0)) = map Some ?bufs"
    unfolding two_queue_ok(2) VIRTIO_CONSOLE_QUEUE_SIZE_def by (rule two_queue_buffers(2))
  have g: "list_all (con_good (\<lambda>_. Some 65)) ?bufs" "con_inv (\<lambda>_. Some 65) ?s" "used_space 0 (two_queue 0) (length ?bufs)"
    using two_queue_ok(3) by (simp_all add: con_good_def con_inv_def numeral_2_eq_2)
  from virtio_console_transmits [OF two_queue_ok(1) b g] show ?thesis
    by (auto simp: two_queue_ok con_text_def replicate_add [symmetric])
qed

text \<open>A write that the host's terminal refuses is told to the guest as a buffer of almost 2 to the power of 32 bytes, and its text is lost.\<close>

lemma con_failure_length:
  "con_putc [] 0 0 \<lparr>con_term = \<lparr>tm_input = [], tm_writes = [-1], tm_output = [], term_got_escape = False, tm_reboots = 0\<rparr>, con_mem = \<lambda>_. None\<rparr> =
     Ret (\<lparr>con_term = \<lparr>tm_input = [], tm_writes = [], tm_output = [], term_got_escape = False, tm_reboots = 0\<rparr>, con_mem = \<lambda>_. None\<rparr>, -1)"
  by (simp add: con_putc_def rd_at_def term_putc_iov_def)

end
