(* ===== verification/VirtioMmio.thy ===== *)
theory VirtioMmio
  imports VirtioTrans VirtioConsole Bytes
begin

text \<open>
  The memory-mapped transport (\<^verbatim>\<open>virtio/mmio.c\<close>). The registers are the fields of \<^verbatim>\<open>struct virtio_mmio_hdr\<close> that the code uses. An access
  carries eight bytes of data, of which a register takes or sets the first four, least significant byte first. The device tree node is not modelled.
\<close>

section \<open>State\<close>

definition VIRTIO_MMIO_MAGIC_VALUE :: u64 where "VIRTIO_MMIO_MAGIC_VALUE = 0x000"
definition VIRTIO_MMIO_VERSION :: u64 where "VIRTIO_MMIO_VERSION = 0x004"
definition VIRTIO_MMIO_DEVICE_ID :: u64 where "VIRTIO_MMIO_DEVICE_ID = 0x008"
definition VIRTIO_MMIO_VENDOR_ID :: u64 where "VIRTIO_MMIO_VENDOR_ID = 0x00c"
definition VIRTIO_MMIO_HOST_FEATURES :: u64 where "VIRTIO_MMIO_HOST_FEATURES = 0x010"
definition VIRTIO_MMIO_HOST_FEATURES_SEL :: u64 where "VIRTIO_MMIO_HOST_FEATURES_SEL = 0x014"
definition VIRTIO_MMIO_GUEST_FEATURES :: u64 where "VIRTIO_MMIO_GUEST_FEATURES = 0x020"
definition VIRTIO_MMIO_GUEST_FEATURES_SEL :: u64 where "VIRTIO_MMIO_GUEST_FEATURES_SEL = 0x024"
definition VIRTIO_MMIO_GUEST_PAGE_SIZE :: u64 where "VIRTIO_MMIO_GUEST_PAGE_SIZE = 0x028"
definition VIRTIO_MMIO_QUEUE_SEL :: u64 where "VIRTIO_MMIO_QUEUE_SEL = 0x030"
definition VIRTIO_MMIO_QUEUE_NUM_MAX :: u64 where "VIRTIO_MMIO_QUEUE_NUM_MAX = 0x034"
definition VIRTIO_MMIO_QUEUE_NUM :: u64 where "VIRTIO_MMIO_QUEUE_NUM = 0x038"
definition VIRTIO_MMIO_QUEUE_ALIGN :: u64 where "VIRTIO_MMIO_QUEUE_ALIGN = 0x03c"
definition VIRTIO_MMIO_QUEUE_PFN :: u64 where "VIRTIO_MMIO_QUEUE_PFN = 0x040"
definition VIRTIO_MMIO_QUEUE_NOTIFY :: u64 where "VIRTIO_MMIO_QUEUE_NOTIFY = 0x050"
definition VIRTIO_MMIO_INTERRUPT_STATUS :: u64 where "VIRTIO_MMIO_INTERRUPT_STATUS = 0x060"
definition VIRTIO_MMIO_INTERRUPT_ACK :: u64 where "VIRTIO_MMIO_INTERRUPT_ACK = 0x064"
definition VIRTIO_MMIO_STATUS :: u64 where "VIRTIO_MMIO_STATUS = 0x070"
definition VIRTIO_MMIO_CONFIG :: u32 where "VIRTIO_MMIO_CONFIG = 0x100"
definition VIRTIO_MMIO_INT_VRING :: u32 where "VIRTIO_MMIO_INT_VRING = 1"
definition VIRTIO_MMIO_INT_CONFIG :: u32 where "VIRTIO_MMIO_INT_CONFIG = 2"
definition VIRTIO_MMIO_MAX_VQ :: nat where "VIRTIO_MMIO_MAX_VQ = 32"
definition VIRTIO_MMIO_IO_SIZE :: u32 where "VIRTIO_MMIO_IO_SIZE = 0x200"

lemmas mmio_regs = VIRTIO_MMIO_MAGIC_VALUE_def VIRTIO_MMIO_VERSION_def VIRTIO_MMIO_DEVICE_ID_def VIRTIO_MMIO_VENDOR_ID_def VIRTIO_MMIO_HOST_FEATURES_def
  VIRTIO_MMIO_HOST_FEATURES_SEL_def VIRTIO_MMIO_GUEST_FEATURES_def VIRTIO_MMIO_GUEST_FEATURES_SEL_def VIRTIO_MMIO_GUEST_PAGE_SIZE_def VIRTIO_MMIO_QUEUE_SEL_def
  VIRTIO_MMIO_QUEUE_NUM_MAX_def VIRTIO_MMIO_QUEUE_NUM_def VIRTIO_MMIO_QUEUE_ALIGN_def VIRTIO_MMIO_QUEUE_PFN_def VIRTIO_MMIO_QUEUE_NOTIFY_def
  VIRTIO_MMIO_INTERRUPT_STATUS_def VIRTIO_MMIO_INTERRUPT_ACK_def VIRTIO_MMIO_STATUS_def

record virtio_mmio_hdr =
  h_magic :: u32
  h_version :: u32
  h_device_id :: u32
  h_vendor_id :: u32
  host_features_sel :: u32
  guest_features_sel :: u32
  guest_page_size :: u32
  queue_sel :: u32
  queue_num_max :: u32
  queue_num :: u32
  queue_align :: u32
  interrupt_state :: u32
  h_status :: u32

record 'd virtio_mmio =
  m_addr :: u32
  m_irq :: u8
  m_hdr :: virtio_mmio_hdr
  m_vdev :: "'d virtio_device"
  m_ioe :: ioeventfd_state
  m_irqs :: irq_events

abbreviation put_hdr :: "(virtio_mmio_hdr \<Rightarrow> virtio_mmio_hdr) \<Rightarrow> 'd virtio_mmio \<Rightarrow> 'd virtio_mmio" where
  "put_hdr f m \<equiv> m\<lparr>m_hdr := f (m_hdr m)\<rparr>"

abbreviation put_dev :: "'d \<Rightarrow> 'd virtio_mmio \<Rightarrow> 'd virtio_mmio" where
  "put_dev d m \<equiv> m\<lparr>m_vdev := (m_vdev m)\<lparr>v_dev := d\<rparr>\<rparr>"

section \<open>Operations\<close>

definition virtio_mmio_get_io_space_block :: "u32 \<Rightarrow> u32 \<Rightarrow> u32 \<times> u32" where
  "virtio_mmio_get_io_space_block sz blocks = (blocks, blocks + sz)"

text \<open>The address of the notification register, as the 32-bit address of the device plus an unsigned constant.\<close>

definition notify_addr :: "'d virtio_mmio \<Rightarrow> u64" where
  "notify_addr m = ucast (m_addr m + ucast VIRTIO_MMIO_QUEUE_NOTIFY)"

text \<open>The callback of an event notifies the queue the event was made for.\<close>

definition virtio_mmio_ioevent_callback :: "'d virtio_ops \<Rightarrow> u32 \<Rightarrow> 'd virtio_mmio \<Rightarrow> 'd virtio_mmio" where
  "virtio_mmio_ioevent_callback ops vq m = put_dev (op_notify_vq ops vq (v_dev (m_vdev m))) m"

definition virtio_mmio_init_ioeventfd :: "'d virtio_ops \<Rightarrow> ev_env \<Rightarrow> u32 \<Rightarrow> 'd virtio_mmio \<Rightarrow> ('d virtio_mmio \<times> int) outcome" where
  "virtio_mmio_init_ioeventfd ops env vq m =
     (if VIRTIO_MMIO_MAX_VQ \<le> unat vq then Undefined
      else let ev = \<lparr>io_addr = notify_addr m, io_len = 4, ev_fn = unat vq, ev_fd = ev_new_fd env, datamatch = ucast vq, ev_flags = 0\<rparr>
        in case ioeventfd__add_event (ev_oom env) (ev_ioctl env) (ev_ctl env) ev (if use_vhost (m_vdev m) then 0 else IOEVENTFD_FLAG_USER_POLL) (m_ioe m) of (ioe, err) \<Rightarrow>
          let m = m\<lparr>m_ioe := ioe\<rparr>
          in if err \<noteq> 0 then Ret (m, err)
             else Ret (case notify_vq_eventfd ops of Some f \<Rightarrow> put_dev (f vq (ev_new_fd env) (v_dev (m_vdev m))) m | None \<Rightarrow> m, 0))"

definition virtio_mmio_signal_vq :: "'d virtio_mmio \<Rightarrow> 'd virtio_mmio" where
  "virtio_mmio_signal_vq m =
     (put_hdr (\<lambda>h. h\<lparr>interrupt_state := interrupt_state h OR VIRTIO_MMIO_INT_VRING\<rparr>) m)\<lparr>m_irqs := kvm__irq_trigger (m_irq m) (m_irqs m)\<rparr>"

definition virtio_mmio_signal_config :: "'d virtio_mmio \<Rightarrow> 'd virtio_mmio" where
  "virtio_mmio_signal_config m =
     (put_hdr (\<lambda>h. h\<lparr>interrupt_state := interrupt_state h OR VIRTIO_MMIO_INT_CONFIG\<rparr>) m)\<lparr>m_irqs := kvm__irq_trigger (m_irq m) (m_irqs m)\<rparr>"

definition virtio_mmio_exit_vq :: "'d virtio_ops \<Rightarrow> u32 \<Rightarrow> 'd virtio_mmio \<Rightarrow> 'd virtio_mmio outcome" where
  "virtio_mmio_exit_vq ops vq m =
     (case ioeventfd__del_event (notify_addr m) (ucast vq) (m_ioe m) of (ioe, _) \<Rightarrow>
        bind_outcome (device_exit_vq ops vq (v_dev (m_vdev m))) (\<lambda>d. Ret (put_dev d (m\<lparr>m_ioe := ioe\<rparr>))))"

fun exit_vqs :: "'d virtio_ops \<Rightarrow> nat list \<Rightarrow> 'd virtio_mmio \<Rightarrow> 'd virtio_mmio outcome" where
  "exit_vqs ops [] m = Ret m"
| "exit_vqs ops (vq # vqs) m = bind_outcome (virtio_mmio_exit_vq ops (of_nat vq) m) (exit_vqs ops vqs)"

definition virtio_mmio_reset :: "'d virtio_ops \<Rightarrow> 'd virtio_mmio \<Rightarrow> 'd virtio_mmio outcome" where
  "virtio_mmio_reset ops m = exit_vqs ops [0..<get_vq_count ops (v_dev (m_vdev m))] m"

text \<open>A write stores the first byte plus the position, instead of the byte at the position.\<close>

fun virtio_mmio_device_specific :: "'d virtio_ops \<Rightarrow> nat \<Rightarrow> nat \<Rightarrow> nat \<Rightarrow> bool \<Rightarrow> u8 list \<Rightarrow> 'd \<Rightarrow> ('d \<times> u8 list) outcome" where
  "virtio_mmio_device_specific ops addr i 0 is_write bytes d = Ret (d, bytes)"
| "virtio_mmio_device_specific ops addr i (Suc n) is_write bytes d =
     (if length bytes \<le> i then Undefined
      else if is_write then
        bind_outcome (config_write ops (addr + i) (hd bytes + of_nat i) d) (\<lambda>d. virtio_mmio_device_specific ops addr (i + 1) n is_write bytes d)
      else
        bind_outcome (config_read ops (addr + i) d) (\<lambda>b. virtio_mmio_device_specific ops addr (i + 1) n is_write (bytes[i := b]) d))"

text \<open>Reading a register: what is stored for the guest, if anything.\<close>

definition virtio_mmio_config_in :: "'d virtio_ops \<Rightarrow> u64 \<Rightarrow> 'd virtio_mmio \<Rightarrow> u32 option outcome" where
  "virtio_mmio_config_in ops addr m =
     (let h = m_hdr m; d = v_dev (m_vdev m) in
      if addr = VIRTIO_MMIO_MAGIC_VALUE then Ret (Some (h_magic h))
      else if addr = VIRTIO_MMIO_VERSION then Ret (Some (h_version h))
      else if addr = VIRTIO_MMIO_DEVICE_ID then Ret (Some (h_device_id h))
      else if addr = VIRTIO_MMIO_VENDOR_ID then Ret (Some (h_vendor_id h))
      else if addr = VIRTIO_MMIO_STATUS then Ret (Some (h_status h))
      else if addr = VIRTIO_MMIO_INTERRUPT_STATUS then Ret (Some (interrupt_state h))
      else if addr = VIRTIO_MMIO_HOST_FEATURES then Ret (Some (if host_features_sel h = 0 then op_host_features ops d else 0))
      else if addr = VIRTIO_MMIO_QUEUE_PFN then (case get_vq ops d (queue_sel h) of None \<Rightarrow> Undefined | Some q \<Rightarrow> Ret (Some (vq_pfn q)))
      else if addr = VIRTIO_MMIO_QUEUE_NUM_MAX then Ret (Some (get_size_vq ops d (queue_sel h)))
      else Ret None)"

definition virtio_mmio_config_out :: "'d virtio_ops \<Rightarrow> ev_env \<Rightarrow> u64 \<Rightarrow> u32 \<Rightarrow> 'd virtio_mmio \<Rightarrow> 'd virtio_mmio outcome" where
  "virtio_mmio_config_out ops env addr val m =
     (let h = m_hdr m; d = v_dev (m_vdev m) in
      if addr = VIRTIO_MMIO_HOST_FEATURES_SEL then Ret (put_hdr (\<lambda>h. h\<lparr>host_features_sel := val\<rparr>) m)
      else if addr = VIRTIO_MMIO_GUEST_FEATURES_SEL then Ret (put_hdr (\<lambda>h. h\<lparr>guest_features_sel := val\<rparr>) m)
      else if addr = VIRTIO_MMIO_QUEUE_SEL then Ret (put_hdr (\<lambda>h. h\<lparr>queue_sel := val\<rparr>) m)
      else if addr = VIRTIO_MMIO_STATUS then
        status_change ops (virtio_mmio_reset ops) m_vdev (\<lambda>v m. m\<lparr>m_vdev := v\<rparr>) (ucast val) (put_hdr (\<lambda>h. h\<lparr>h_status := val\<rparr>) m)
      else if addr = VIRTIO_MMIO_GUEST_FEATURES then
        Ret (if guest_features_sel h = 0 then m\<lparr>m_vdev := virtio_set_guest_features ops val (m_vdev m)\<rparr> else m)
      else if addr = VIRTIO_MMIO_GUEST_PAGE_SIZE then Ret (put_hdr (\<lambda>h. h\<lparr>guest_page_size := val\<rparr>) m)
      else if addr = VIRTIO_MMIO_QUEUE_NUM then
        Ret (put_dev (set_size_vq ops (queue_sel h) val d) (put_hdr (\<lambda>h. h\<lparr>queue_num := val\<rparr>) m))
      else if addr = VIRTIO_MMIO_QUEUE_ALIGN then Ret (put_hdr (\<lambda>h. h\<lparr>queue_align := val\<rparr>) m)
      else if addr = VIRTIO_MMIO_QUEUE_PFN then
        if val \<noteq> 0 then
          bind_outcome (virtio_mmio_init_ioeventfd ops env (queue_sel h) m) (\<lambda>(m, _).
          bind_outcome (op_init_vq ops (queue_sel h) (guest_page_size h) (queue_align h) val (v_dev (m_vdev m))) (\<lambda>d. Ret (put_dev d m)))
        else virtio_mmio_exit_vq ops (queue_sel h) m
      else if addr = VIRTIO_MMIO_QUEUE_NOTIFY then Ret (put_dev (op_notify_vq ops val d) m)
      else if addr = VIRTIO_MMIO_INTERRUPT_ACK then Ret (put_hdr (\<lambda>h. h\<lparr>interrupt_state := interrupt_state h AND NOT val\<rparr>) m)
      else Ret m)"

definition virtio_mmio_mmio_callback :: "'d virtio_ops \<Rightarrow> ev_env \<Rightarrow> u64 \<Rightarrow> u8 list \<Rightarrow> u32 \<Rightarrow> bool \<Rightarrow> 'd virtio_mmio \<Rightarrow> ('d virtio_mmio \<times> u8 list) outcome" where
  "virtio_mmio_mmio_callback ops env addr bytes len is_write m =
     (let offset = ucast addr - m_addr m in
      if VIRTIO_MMIO_CONFIG \<le> offset then
        bind_outcome (virtio_mmio_device_specific ops (unat (offset - VIRTIO_MMIO_CONFIG)) 0 (unat len) is_write bytes (v_dev (m_vdev m))) (\<lambda>(d, bytes). Ret (put_dev d m, bytes))
      else if is_write then bind_outcome (virtio_mmio_config_out ops env (ucast offset) (of_le (take 4 bytes)) m) (\<lambda>m. Ret (m, bytes))
      else bind_outcome (virtio_mmio_config_in ops (ucast offset) m) (\<lambda>val.
        Ret (m, case val of None \<Rightarrow> bytes | Some v \<Rightarrow> to_le 4 v @ drop 4 bytes)))"

text \<open>The device header is registered and the region too; the line is assigned on registration.\<close>

definition virtio_mmio_assign_irq :: "u8 \<Rightarrow> 'd virtio_mmio \<Rightarrow> 'd virtio_mmio" where
  "virtio_mmio_assign_irq line m = m\<lparr>m_irq := line\<rparr>"

definition virtio_mmio_init :: "u32 \<Rightarrow> u32 \<Rightarrow> 'd virtio_mmio \<Rightarrow> 'd virtio_mmio \<times> u32" where
  "virtio_mmio_init subsys_id blocks m =
     (case virtio_mmio_get_io_space_block VIRTIO_MMIO_IO_SIZE blocks of (addr, blocks) \<Rightarrow>
        (m\<lparr>m_addr := addr, m_hdr := \<lparr>h_magic = 0x74726976, h_version = 1, h_device_id = subsys_id, h_vendor_id = 0x4d564b4c, host_features_sel = 0, guest_features_sel = 0,
           guest_page_size = 0, queue_sel = 0, queue_num_max = 256, queue_num = 0, queue_align = 0, interrupt_state = 0, h_status = 0\<rparr>\<rparr>, blocks))"


section \<open>Interrupt causes\<close>

datatype irq_event = SignalVq | SignalConfig | Acknowledge u32

fun irq_run :: "'d virtio_ops \<Rightarrow> ev_env \<Rightarrow> irq_event list \<Rightarrow> 'd virtio_mmio \<Rightarrow> 'd virtio_mmio outcome" where
  "irq_run ops env [] m = Ret m"
| "irq_run ops env (SignalVq # es) m = irq_run ops env es (virtio_mmio_signal_vq m)"
| "irq_run ops env (SignalConfig # es) m = irq_run ops env es (virtio_mmio_signal_config m)"
| "irq_run ops env (Acknowledge v # es) m = bind_outcome (virtio_mmio_config_out ops env VIRTIO_MMIO_INTERRUPT_ACK v m) (irq_run ops env es)"

text \<open>A cause is pending when it was signalled and not acknowledged since.\<close>

definition raises :: "nat \<Rightarrow> irq_event \<Rightarrow> bool" where
  "raises n e \<longleftrightarrow> e = SignalVq \<and> n = 0 \<or> e = SignalConfig \<and> n = 1"

definition clears :: "nat \<Rightarrow> irq_event \<Rightarrow> bool" where
  "clears n e \<longleftrightarrow> (\<exists>v. e = Acknowledge v \<and> bit v n)"

fun pending_cause :: "nat \<Rightarrow> irq_event list \<Rightarrow> bool \<Rightarrow> bool" where
  "pending_cause n [] b = b"
| "pending_cause n (e # es) b = pending_cause n es (if raises n e then True else if clears n e then False else b)"

lemma irq_run_bits:
  "\<exists>m'. irq_run ops env es m = Ret m' \<and> (\<forall>n < 32. bit (interrupt_state (m_hdr m')) n = pending_cause n es (bit (interrupt_state (m_hdr m)) n)) \<and>
    length (m_irqs m') = length (m_irqs m) + 2 * length (filter (\<lambda>e. raises 0 e \<or> raises 1 e) es)"
proof (induction es arbitrary: m)
  case (Cons e es)
  have "bit (1 :: u32) n \<longleftrightarrow> n = 0" "bit (2 :: u32) n \<longleftrightarrow> n = Suc 0" for n
    by (auto simp: bit_1_iff bit_2_iff)
  then have one: "bit (w OR 1) n \<longleftrightarrow> n = 0 \<or> bit w n" "bit (w OR 2) n \<longleftrightarrow> n = Suc 0 \<or> bit w n" for w :: u32 and n
    unfolding bit_or_iff by blast+
  have "\<exists>m1. irq_run ops env (e # es) m = irq_run ops env es m1 \<and> length (m_irqs m1) = length (m_irqs m) + (if raises 0 e \<or> raises 1 e then 2 else 0) \<and>
    (\<forall>n < 32. bit (interrupt_state (m_hdr m1)) n = (if raises n e then True else if clears n e then False else bit (interrupt_state (m_hdr m)) n))"
  proof (cases e)
    case SignalVq
    then show ?thesis
      by (auto simp: virtio_mmio_signal_vq_def raises_def clears_def VIRTIO_MMIO_INT_VRING_def one kvm__irq_trigger_def kvm__irq_line_def
        intro!: exI [of _ "virtio_mmio_signal_vq m"])
  next
    case SignalConfig
    then show ?thesis
      by (auto simp: virtio_mmio_signal_config_def raises_def clears_def VIRTIO_MMIO_INT_CONFIG_def one kvm__irq_trigger_def kvm__irq_line_def
        intro!: exI [of _ "virtio_mmio_signal_config m"])
  next
    case (Acknowledge v)
    then show ?thesis
      by (auto simp: virtio_mmio_config_out_def mmio_regs raises_def clears_def bit_and_iff bit_not_iff
        intro!: exI [of _ "put_hdr (\<lambda>h. h\<lparr>interrupt_state := interrupt_state h AND NOT v\<rparr>) m"])
  qed
  then obtain m1 where m1: "irq_run ops env (e # es) m = irq_run ops env es m1" "length (m_irqs m1) = length (m_irqs m) + (if raises 0 e \<or> raises 1 e then 2 else 0)"
    "\<forall>n < 32. bit (interrupt_state (m_hdr m1)) n = (if raises n e then True else if clears n e then False else bit (interrupt_state (m_hdr m)) n)"
    by blast
  with Cons [of m1] show ?case
    by auto
qed simp

section \<open>Reset\<close>

text \<open>The events that stay: those of other devices, and of queues that are not in the list.\<close>

definition other_event :: "u64 \<Rightarrow> nat list \<Rightarrow> ioevent \<Rightarrow> bool" where
  "other_event addr vqs e \<longleftrightarrow> \<not> (io_addr e = addr \<and> (\<exists>vq \<in> set vqs. datamatch e = ucast (of_nat vq :: u32)))"

context virtio_dev
begin

lemma exit_vqs_ok:
  assumes "\<forall>vq \<in> set vqs. vq < get_vq_count ops (v_dev (m_vdev m))" "ioeventfd_avail (m_ioe m)" "keys_unique (m_ioe m)"
  shows "\<exists>m'. exit_vqs ops vqs m = Ret m' \<and> (\<forall>vq \<in> set vqs. get_vq ops (v_dev (m_vdev m')) (of_nat vq) = Some virt_queue_zero) \<and>
    (\<forall>k. get_vq ops (v_dev (m_vdev m)) k = Some virt_queue_zero \<longrightarrow> get_vq ops (v_dev (m_vdev m')) k = Some virt_queue_zero) \<and>
    used_ioevents (m_ioe m') = filter (other_event (notify_addr m) vqs) (used_ioevents (m_ioe m)) \<and> m_hdr m' = m_hdr m \<and> v_status (m_vdev m') = v_status (m_vdev m) \<and>
    m_addr m' = m_addr m"
  using assms
proof (induction vqs arbitrary: m)
  case Nil
  then show ?case by (simp add: other_event_def)
next
  case (Cons vq vqs)
  let ?n = "of_nat vq :: u32" and ?d = "v_dev (m_vdev m)"
  have "vq < 32"
    using Cons.prems(1) few_queues [of ?d] by auto
  then have "unat ?n = vq"
    by (simp add: unsigned_of_nat take_bit_nat_eq_self)
  then obtain d' where d': "device_exit_vq ops ?n ?d = Ret d'" "get_vq ops d' ?n = Some virt_queue_zero" "\<And>k. k \<noteq> ?n \<Longrightarrow> get_vq ops d' k = get_vq ops ?d k"
    "get_vq_count ops d' = get_vq_count ops ?d"
    using device_exit_vq_ok [of ?n ?d] Cons.prems(1) by auto
  define ioe where "ioe = fst (ioeventfd__del_event (notify_addr m) (ucast ?n) (m_ioe m))"
  have u: "used_ioevents ioe = filter (\<lambda>ev. ev_key ev \<noteq> (notify_addr m, ucast ?n)) (used_ioevents (m_ioe m))"
    unfolding ioe_def using ioeventfd__del_event_gone Cons.prems(2,3) by blast
  have ok: "ioeventfd_avail ioe" "keys_unique ioe"
    using Cons.prems(2,3) unfolding keys_unique_def u by (auto simp: ioe_def ioeventfd__del_event_def distinct_map_filter split: option.splits)
  let ?m = "put_dev d' (m\<lparr>m_ioe := ioe\<rparr>)"
  have step: "virtio_mmio_exit_vq ops ?n m = Ret ?m"
    by (simp add: virtio_mmio_exit_vq_def d'(1) ioe_def split: prod.splits)
  obtain m' where m': "exit_vqs ops vqs ?m = Ret m'" "\<forall>vq \<in> set vqs. get_vq ops (v_dev (m_vdev m')) (of_nat vq) = Some virt_queue_zero"
    "\<forall>k. get_vq ops d' k = Some virt_queue_zero \<longrightarrow> get_vq ops (v_dev (m_vdev m')) k = Some virt_queue_zero"
    "used_ioevents (m_ioe m') = filter (other_event (notify_addr m) vqs) (used_ioevents ioe)" "m_hdr m' = m_hdr m" "v_status (m_vdev m') = v_status (m_vdev m)" "m_addr m' = m_addr m"
    using Cons.IH [of ?m] Cons.prems(1) ok d'(4) by (auto simp: notify_addr_def)
  have "filter (other_event (notify_addr m) (vq # vqs)) (used_ioevents (m_ioe m)) = filter (other_event (notify_addr m) vqs) (used_ioevents ioe)"
    unfolding u by (auto simp: other_event_def ev_key_def intro!: filter_cong)
  moreover have "get_vq ops d' k = Some virt_queue_zero" if "get_vq ops ?d k = Some virt_queue_zero" for k
    using d'(2,3) that by (cases "k = ?n") auto
  ultimately show ?case
    using step m' d'(2) by auto
qed

end


text \<open>A console that runs, with an event of its own and one of another device.\<close>

definition started_console :: "con_dev virtio_mmio" where
  "started_console = \<lparr>m_addr = 0x10000, m_irq = 5, m_hdr = \<lparr>h_magic = 0, h_version = 1, h_device_id = 3, h_vendor_id = 0, host_features_sel = 0, guest_features_sel = 0,
       guest_page_size = 4096, queue_sel = 0, queue_num_max = 256, queue_num = 0, queue_align = 0, interrupt_state = 0, h_status = 4\<rparr>,
     m_vdev = \<lparr>v_dev = \<lparr>con_vqs = \<lambda>_. queue4\<lparr>vq_enabled := True\<rparr>, con_ready = True, con_features = 0, con_config = [], con_notified = []\<rparr>, use_vhost = False, v_features = 0, v_status = 0x104\<rparr>,
     m_ioe = \<lparr>used_ioevents = [\<lparr>io_addr = 0x10050, io_len = 4, ev_fn = 1, ev_fd = 7, datamatch = 1, ev_flags = 1\<rparr>,
        \<lparr>io_addr = 0x10250, io_len = 4, ev_fn = 1, ev_fd = 8, datamatch = 1, ev_flags = 1\<rparr>], ioeventfd_avail = True, kvm_requests = [], epoll_set = [7, 8]\<rparr>, m_irqs = []\<rparr>"

section \<open>Properties\<close>

text \<open>
  C23: The interrupt causes of the memory-mapped transport. After any sequence of signals from the device and acknowledgements from the guest, the register that the
  guest reads has exactly the causes that were signalled and not acknowledged since, and every signal has pulsed the interrupt line of the device once.
\<close>

theorem mmio_interrupt_causes:
  "\<exists>m' v. irq_run ops env es m = Ret m' \<and> virtio_mmio_config_in ops VIRTIO_MMIO_INTERRUPT_STATUS m' = Ret (Some v) \<and>
    (\<forall>n < 32. bit v n = pending_cause n es (bit (interrupt_state (m_hdr m)) n)) \<and>
    length (m_irqs m') = length (m_irqs m) + 2 * length (filter (\<lambda>e. e = SignalVq \<or> e = SignalConfig) es)"
proof -
  have r: "(raises 0 e \<or> raises 1 e) = (e = SignalVq \<or> e = SignalConfig)" for e
    by (auto simp: raises_def)
  show ?thesis
    using irq_run_bits [of ops env es m] unfolding r by (auto simp: virtio_mmio_config_in_def mmio_regs)
qed

theorem mmio_interrupt_causes_witness:
  "\<exists>m' v. irq_run (con_ops (\<lambda>_ _ _. ring4) one_bank) \<lparr>ev_oom = False, ev_ioctl = 0, ev_ctl = 0, ev_new_fd = 3\<rparr> [SignalConfig, SignalVq, Acknowledge 2] started_console = Ret m' \<and>
    virtio_mmio_config_in (con_ops (\<lambda>_ _ _. ring4) one_bank) VIRTIO_MMIO_INTERRUPT_STATUS m' = Ret (Some v) \<and> bit v 0 \<and> \<not> bit v 1"
proof -
  obtain m' v where v: "irq_run (con_ops (\<lambda>_ _ _. ring4) one_bank) \<lparr>ev_oom = False, ev_ioctl = 0, ev_ctl = 0, ev_new_fd = 3\<rparr> [SignalConfig, SignalVq, Acknowledge 2] started_console = Ret m'"
    "virtio_mmio_config_in (con_ops (\<lambda>_ _ _. ring4) one_bank) VIRTIO_MMIO_INTERRUPT_STATUS m' = Ret (Some v)"
    "\<forall>n < 32. bit v n = pending_cause n [SignalConfig, SignalVq, Acknowledge 2] (bit (interrupt_state (m_hdr started_console)) n)"
    using mmio_interrupt_causes [of "con_ops (\<lambda>_ _ _. ring4) one_bank" _ _ started_console] by blast
  have "bit v 0" "\<not> bit v 1"
    using v(3) by (auto simp: raises_def clears_def bit_2_iff)
  then show ?thesis
    using v(1,2) by blast
qed

text \<open>The receive job is started only while the receive queue is set up.\<close>

definition con_ok :: "con_dev \<Rightarrow> bool" where
  "con_ok d \<longleftrightarrow> (con_ready d \<longrightarrow> vq_enabled (con_vqs d VIRTIO_CONSOLE_RX_QUEUE))"

lemma con_exit_ready:
  assumes "exit_vqs (con_ops ring_at banks) [0, 1] m = Ret m'" "con_ok (v_dev (m_vdev m))"
  shows "\<not> con_ready (v_dev (m_vdev m'))"
  using assms
  by (auto simp: virtio_mmio_exit_vq_def bind_outcome_Ret device_exit_vq_def con_ops_def exit_vq_def virtio_exit_vq_def con_ok_def
    VIRTIO_CONSOLE_NUM_QUEUES_def VIRTIO_CONSOLE_RX_QUEUE_def VIRTIO_CONSOLE_TX_QUEUE_def Let_def split: prod.splits if_splits)

lemma stop_status:
  assumes "st AND VIRTIO__STATUS_START \<noteq> 0"
  shows "\<exists>new. virtio_notify_status 0 st = (new, True, VIRTIO__STATUS_STOP) \<and> new AND VIRTIO__STATUS_START = 0"
proof -
  have "(st AND NOT VIRTIO_CONFIG_S_MASK) AND VIRTIO__STATUS_START = st AND VIRTIO__STATUS_START"
    by (simp add: VIRTIO_CONFIG_S_MASK_def VIRTIO__STATUS_START_def and.assoc)
  then show ?thesis
    using assms by (simp add: virtio_notify_status_def Let_def and.assoc)
qed

text \<open>
  C24: Resetting the console through its status register. When the guest writes 0 to the status register of a device that was started, every queue
  of the device is cleared, no notification event of any of its queues is registered any more, events of other devices are as they were, the console no longer
  starts its receive job, and the device counts as stopped.
\<close>

theorem mmio_reset_stops_console:
  assumes "v_status (m_vdev m) AND VIRTIO__STATUS_START \<noteq> 0" "ioeventfd_avail (m_ioe m)" "keys_unique (m_ioe m)" "con_ok (v_dev (m_vdev m))"
  shows "\<exists>m'. virtio_mmio_config_out (con_ops ring_at banks) env VIRTIO_MMIO_STATUS 0 m = Ret m' \<and>
    (\<forall>vq < VIRTIO_CONSOLE_NUM_QUEUES. con_vqs (v_dev (m_vdev m')) vq = virt_queue_zero) \<and> \<not> con_ready (v_dev (m_vdev m')) \<and>
    used_ioevents (m_ioe m') = filter (other_event (notify_addr m) [0, 1]) (used_ioevents (m_ioe m)) \<and> v_status (m_vdev m') AND VIRTIO__STATUS_START = 0"
proof -
  obtain new where new: "virtio_notify_status 0 (v_status (m_vdev m)) = (new, True, VIRTIO__STATUS_STOP)" "new AND VIRTIO__STATUS_START = 0"
    using stop_status [OF assms(1)] by blast
  let ?ops = "con_ops ring_at banks"
  define m1 where "m1 = (put_hdr (\<lambda>h. h\<lparr>h_status := 0\<rparr>) m)\<lparr>m_vdev := (m_vdev m)\<lparr>v_status := new\<rparr>\<rparr>"
  have m1: "v_dev (m_vdev m1) = v_dev (m_vdev m)" "m_ioe m1 = m_ioe m" "v_status (m_vdev m1) = new" "notify_addr m1 = notify_addr m"
    by (simp_all add: m1_def notify_addr_def)
  have cnt: "get_vq_count ?ops d = 2" for d
    by (simp add: con_ops_def VIRTIO_CONSOLE_NUM_QUEUES_def)
  obtain m2 where m2: "exit_vqs ?ops [0, 1] m1 = Ret m2" "\<forall>vq \<in> set [0, 1]. get_vq ?ops (v_dev (m_vdev m2)) (of_nat vq) = Some virt_queue_zero"
    "used_ioevents (m_ioe m2) = filter (other_event (notify_addr m1) [0, 1]) (used_ioevents (m_ioe m1))" "v_status (m_vdev m2) = new"
    using con_dev.exit_vqs_ok [of "[0, 1]" ring_at banks m1] assms(2,3) m1(2,3) cnt by auto
  have "virtio_mmio_reset ?ops m1 = Ret m2"
    using m2(1) by (simp add: virtio_mmio_reset_def cnt numeral_2_eq_2)
  then have run: "virtio_mmio_config_out ?ops env VIRTIO_MMIO_STATUS 0 m = Ret m2"
    using new(1) unfolding m1_def by (simp add: virtio_mmio_config_out_def mmio_regs status_change_def con_ops_def Let_def)
  moreover have "con_vqs (v_dev (m_vdev m2)) vq = virt_queue_zero" if "vq < VIRTIO_CONSOLE_NUM_QUEUES" for vq
  proof -
    have "unat vq = unat (0 :: u32) \<or> unat vq = unat (1 :: u32)"
      using that by (auto simp: VIRTIO_CONSOLE_NUM_QUEUES_def word_less_nat_alt)
    then have "vq = 0 \<or> vq = 1"
      by (simp only: word_unat_eq_iff)
    then show ?thesis
      using m2(2) by (auto simp: con_ops_def VIRTIO_CONSOLE_NUM_QUEUES_def)
  qed
  ultimately show ?thesis
    using m2(3,4) m1(2,4) new(2) con_exit_ready [OF m2(1)] assms(4) m1(1) by auto
qed


theorem mmio_reset_stops_console_witness:
  "\<exists>m'. virtio_mmio_config_out (con_ops (\<lambda>_ _ _. ring4) one_bank) \<lparr>ev_oom = False, ev_ioctl = 0, ev_ctl = 0, ev_new_fd = 9\<rparr> VIRTIO_MMIO_STATUS 0 started_console = Ret m' \<and>
    \<not> con_ready (v_dev (m_vdev m')) \<and> map ev_fd (used_ioevents (m_ioe m')) = [8]"
proof -
  have "v_status (m_vdev started_console) AND VIRTIO__STATUS_START \<noteq> 0" "ioeventfd_avail (m_ioe started_console)" "keys_unique (m_ioe started_console)"
    "con_ok (v_dev (m_vdev started_console))"
    by (simp_all add: started_console_def VIRTIO__STATUS_START_def keys_unique_def ev_key_def con_ok_def)
  from mmio_reset_stops_console [OF this] have "\<exists>m'. virtio_mmio_config_out (con_ops (\<lambda>_ _ _. ring4) one_bank) \<lparr>ev_oom = False, ev_ioctl = 0, ev_ctl = 0, ev_new_fd = 9\<rparr> VIRTIO_MMIO_STATUS 0 started_console = Ret m' \<and>
    \<not> con_ready (v_dev (m_vdev m')) \<and> used_ioevents (m_ioe m') = filter (other_event (notify_addr started_console) [0, 1]) (used_ioevents (m_ioe started_console))"
    by blast
  moreover have "map ev_fd (filter (other_event (notify_addr started_console) [0, 1]) (used_ioevents (m_ioe started_console))) = [8]"
    by (simp add: other_event_def notify_addr_def started_console_def VIRTIO_MMIO_QUEUE_NOTIFY_def)
  ultimately show ?thesis
    by auto
qed

text \<open>A write of several bytes to the configuration stores the first byte plus 0, 1, 2 and so on.\<close>

lemma mmio_config_write_wrong:
  assumes "addr + 1 < length (get_config ops d)" "\<And>c d. get_config ops (put_config ops c d) = c"
  shows "\<exists>d'. virtio_mmio_device_specific ops addr 0 2 True (b # c # rest) d = Ret (d', b # c # rest) \<and> get_config ops d' ! (addr + 1) = b + 1"
  using assms by (simp add: numeral_2_eq_2 config_write_def)

text \<open>The queue number that the guest selects is not checked against the array of event parameters.\<close>

lemma mmio_queue_out_of_bounds:
  assumes "32 \<le> unat (queue_sel (m_hdr m))" "val \<noteq> 0"
  shows "virtio_mmio_config_out ops env VIRTIO_MMIO_QUEUE_PFN val m = Undefined"
  using assms by (simp add: virtio_mmio_config_out_def mmio_regs virtio_mmio_init_ioeventfd_def VIRTIO_MMIO_MAX_VQ_def)

end
