(* ===== verification/VirtioPci.thy ===== *)
theory VirtioPci
  imports VirtioMmio Bytes Pci
begin

text \<open>
  The PCI transport (\<^verbatim>\<open>virtio/pci.c\<close>): the registers behind the ports of a device, its interrupts, and the MSI-X table in its memory region. The
  table is kept as its bytes, 16 for each entry: address, upper address, data, control. What is sent to the guest is recorded: the legacy line, an
  interrupt of the routing table, or a message. Constants are those of the virtio and PCI headers; the byte order is that of x86. An access with an offset
  below that of its register block is made relative to it, as the code does, in 32 bits without sign.
\<close>

section \<open>State\<close>

definition VIRTIO_PCI_HOST_FEATURES :: nat where "VIRTIO_PCI_HOST_FEATURES = 0"
definition VIRTIO_PCI_GUEST_FEATURES :: nat where "VIRTIO_PCI_GUEST_FEATURES = 4"
definition VIRTIO_PCI_QUEUE_PFN :: nat where "VIRTIO_PCI_QUEUE_PFN = 8"
definition VIRTIO_PCI_QUEUE_NUM :: nat where "VIRTIO_PCI_QUEUE_NUM = 12"
definition VIRTIO_PCI_QUEUE_SEL :: nat where "VIRTIO_PCI_QUEUE_SEL = 14"
definition VIRTIO_PCI_QUEUE_NOTIFY :: nat where "VIRTIO_PCI_QUEUE_NOTIFY = 16"
definition VIRTIO_PCI_STATUS :: nat where "VIRTIO_PCI_STATUS = 18"
definition VIRTIO_PCI_ISR :: nat where "VIRTIO_PCI_ISR = 19"
definition VIRTIO_MSI_CONFIG_VECTOR :: nat where "VIRTIO_MSI_CONFIG_VECTOR = 20"
definition VIRTIO_MSI_QUEUE_VECTOR :: nat where "VIRTIO_MSI_QUEUE_VECTOR = 22"
definition VIRTIO_MSI_NO_VECTOR :: u32 where "VIRTIO_MSI_NO_VECTOR = 0xffff"
definition VIRTIO_IRQ_LOW :: u8 where "VIRTIO_IRQ_LOW = 0"
definition VIRTIO_IRQ_HIGH :: u8 where "VIRTIO_IRQ_HIGH = 1"
definition VIRTIO_PCI_ISR_CONFIG :: u8 where "VIRTIO_PCI_ISR_CONFIG = 2"
definition VIRTIO_PCI_MAX_VQ :: nat where "VIRTIO_PCI_MAX_VQ = 32"
definition VIRTIO_PCI_MAX_CONFIG :: nat where "VIRTIO_PCI_MAX_CONFIG = 1"
definition VIRTIO_PCI_F_SIGNAL_MSI :: u32 where "VIRTIO_PCI_F_SIGNAL_MSI = 1"
definition PCI_MSIX_FLAGS_ENABLE :: u16 where "PCI_MSIX_FLAGS_ENABLE = 0x8000"
definition PCI_MSIX_FLAGS_MASKALL :: u16 where "PCI_MSIX_FLAGS_MASKALL = 0x4000"
definition PCI_MSIX_ENTRY_CTRL_MASKBIT :: u32 where "PCI_MSIX_ENTRY_CTRL_MASKBIT = 1"
definition PCI_IO_SIZE :: u64 where "PCI_IO_SIZE = 0x100"
definition IOPORT_SIZE :: u64 where "IOPORT_SIZE = 0x400"

lemmas pci_regs = VIRTIO_PCI_HOST_FEATURES_def VIRTIO_PCI_GUEST_FEATURES_def VIRTIO_PCI_QUEUE_PFN_def VIRTIO_PCI_QUEUE_NUM_def VIRTIO_PCI_QUEUE_SEL_def
  VIRTIO_PCI_QUEUE_NOTIFY_def VIRTIO_PCI_STATUS_def VIRTIO_PCI_ISR_def VIRTIO_MSI_CONFIG_VECTOR_def VIRTIO_MSI_QUEUE_VECTOR_def

datatype pci_irq = LinePulse u8 | LineLow u8 | GsiPulse u32 | Msi msi_msg "u32 option"

record 'd virtio_pci =
  port_addr :: u16
  mmio_addr :: u32
  p_status :: u8
  p_isr :: u8
  p_features :: u32
  legacy_irq_line :: u8
  config_vector :: u16
  config_gsi :: u32
  vq_vector :: "u32 list"
  gsis :: "u32 list"
  msix_io_block :: u32
  msix_pba :: u64
  msix_table :: "u8 list"
  msix_ctrl :: u16
  queue_selector :: u16
  dev_num :: u8
  p_vdev :: "'d virtio_device"
  p_ioe :: ioeventfd_state
  p_routes :: irq_state
  p_sent :: "pci_irq list"

text \<open>The environment of the interrupt routing, and of new events: one for the port, one for the memory region.\<close>

record pci_env =
  rt_oom :: "nat \<Rightarrow> bool"
  rt_supported :: bool
  rt_needs_devid :: bool
  rt_update :: "rt_ptr \<Rightarrow> int"
  pio_env :: ev_env
  mmio_env :: ev_env

abbreviation put_pdev :: "'d \<Rightarrow> 'd virtio_pci \<Rightarrow> 'd virtio_pci" where
  "put_pdev d p \<equiv> p\<lparr>p_vdev := (p_vdev p)\<lparr>v_dev := d\<rparr>\<rparr>"

definition word_at :: "u8 list \<Rightarrow> nat \<Rightarrow> u32" where
  "word_at bs k = of_le (take 4 (drop k bs))"

definition table_msg :: "u8 list \<Rightarrow> nat \<Rightarrow> msi_msg" where
  "table_msg bs vec = \<lparr>msg_address_lo = word_at bs (16 * vec), msg_address_hi = word_at bs (16 * vec + 4), msg_data = word_at bs (16 * vec + 8)\<rparr>"

definition table_ctrl :: "u8 list \<Rightarrow> nat \<Rightarrow> u32" where
  "table_ctrl bs vec = word_at bs (16 * vec + 12)"

definition has_vector :: "'d virtio_pci \<Rightarrow> nat \<Rightarrow> bool" where
  "has_vector p vec \<longleftrightarrow> 16 * vec + 16 \<le> length (msix_table p)"

section \<open>Notification events\<close>

definition port_notify :: "'d virtio_pci \<Rightarrow> u64" where
  "port_notify p = ucast (port_addr p) + of_nat VIRTIO_PCI_QUEUE_NOTIFY"

definition mmio_notify :: "'d virtio_pci \<Rightarrow> u64" where
  "mmio_notify p = ucast (mmio_addr p + of_nat VIRTIO_PCI_QUEUE_NOTIFY)"

definition virtio_pci__ioevent_callback :: "'d virtio_ops \<Rightarrow> u32 \<Rightarrow> 'd virtio_pci \<Rightarrow> 'd virtio_pci" where
  "virtio_pci__ioevent_callback ops vq p = put_pdev (op_notify_vq ops vq (v_dev (p_vdev p))) p"

definition virtio_pci__init_ioeventfd :: "'d virtio_ops \<Rightarrow> pci_env \<Rightarrow> u32 \<Rightarrow> 'd virtio_pci \<Rightarrow> ('d virtio_pci \<times> int) outcome" where
  "virtio_pci__init_ioeventfd ops env vq p =
     (if VIRTIO_PCI_MAX_VQ \<le> unat vq then Undefined
      else let flags = (if use_vhost (p_vdev p) then 0 else IOEVENTFD_FLAG_USER_POLL); e1 = pio_env env; e2 = mmio_env env;
               ev = \<lparr>io_addr = port_notify p, io_len = 2, ev_fn = unat vq, ev_fd = ev_new_fd e1, datamatch = ucast vq, ev_flags = 0\<rparr>
        in case ioeventfd__add_event (ev_oom e1) (ev_ioctl e1) (ev_ctl e1) ev (flags OR IOEVENTFD_FLAG_PIO) (p_ioe p) of (ioe, r) \<Rightarrow>
          if r \<noteq> 0 then Ret (p\<lparr>p_ioe := ioe\<rparr>, r)
          else case ioeventfd__add_event (ev_oom e2) (ev_ioctl e2) (ev_ctl e2) (ev\<lparr>io_addr := mmio_notify p, ev_fd := ev_new_fd e2\<rparr>) flags ioe of (ioe, r) \<Rightarrow>
            if r \<noteq> 0 then Ret (p\<lparr>p_ioe := fst (ioeventfd__del_event (port_notify p) (ucast vq) ioe)\<rparr>, r)
            else Ret (case notify_vq_eventfd ops of
                        Some f \<Rightarrow> put_pdev (f vq (ev_new_fd e1) (v_dev (p_vdev p))) (p\<lparr>p_ioe := ioe\<rparr>)
                      | None \<Rightarrow> p\<lparr>p_ioe := ioe\<rparr>, 0))"

definition virtio_pci_exit_vq :: "'d virtio_ops \<Rightarrow> u32 \<Rightarrow> 'd virtio_pci \<Rightarrow> 'd virtio_pci outcome" where
  "virtio_pci_exit_vq ops vq p =
     (let ioe = fst (ioeventfd__del_event (mmio_notify p) (ucast vq) (p_ioe p)); ioe = fst (ioeventfd__del_event (port_notify p) (ucast vq) ioe)
      in bind_outcome (device_exit_vq ops vq (v_dev (p_vdev p))) (\<lambda>d. Ret (put_pdev d (p\<lparr>p_ioe := ioe\<rparr>))))"

fun pci_exit_vqs :: "'d virtio_ops \<Rightarrow> nat list \<Rightarrow> 'd virtio_pci \<Rightarrow> 'd virtio_pci outcome" where
  "pci_exit_vqs ops [] p = Ret p"
| "pci_exit_vqs ops (vq # vqs) p = bind_outcome (virtio_pci_exit_vq ops (of_nat vq) p) (pci_exit_vqs ops vqs)"

definition virtio_pci__reset :: "'d virtio_ops \<Rightarrow> 'd virtio_pci \<Rightarrow> 'd virtio_pci outcome" where
  "virtio_pci__reset ops p = pci_exit_vqs ops [0..<get_vq_count ops (v_dev (p_vdev p))] p"

section \<open>Interrupts\<close>

definition virtio_pci__msix_enabled :: "'d virtio_pci \<Rightarrow> bool" where
  "virtio_pci__msix_enabled p \<longleftrightarrow> msix_ctrl p AND PCI_MSIX_FLAGS_ENABLE \<noteq> 0"

definition virtio_pci__signal_msi :: "pci_env \<Rightarrow> nat \<Rightarrow> 'd virtio_pci \<Rightarrow> 'd virtio_pci" where
  "virtio_pci__signal_msi env vec p =
     p\<lparr>p_sent := p_sent p @ [Msi (table_msg (msix_table p) vec) (if rt_needs_devid env then Some (push_bit 3 (ucast (dev_num p))) else None)]\<rparr>"

text \<open>
  The pending bit is \<^verbatim>\<open>1 << tbl\<close> with a signed 32-bit one: the shift by 31 is negative and sets all higher bits, a longer shift is undefined.
\<close>

definition pba_bit :: "nat \<Rightarrow> u64 outcome" where
  "pba_bit vec = (if vec < 31 then Ret (push_bit vec 1) else if vec = 31 then Ret (NOT 0x7FFFFFFF) else Undefined)"

definition send_vector :: "pci_env \<Rightarrow> u32 \<Rightarrow> u32 \<Rightarrow> 'd virtio_pci \<Rightarrow> 'd virtio_pci outcome" where
  "send_vector env tbl gsi p =
     (if \<not> has_vector p (unat tbl) then Undefined
      else if msix_ctrl p AND PCI_MSIX_FLAGS_MASKALL \<noteq> 0 \<or> table_ctrl (msix_table p) (unat tbl) AND PCI_MSIX_ENTRY_CTRL_MASKBIT \<noteq> 0
      then bind_outcome (pba_bit (unat tbl)) (\<lambda>b. Ret (p\<lparr>msix_pba := msix_pba p OR b\<rparr>))
      else if p_features p AND VIRTIO_PCI_F_SIGNAL_MSI \<noteq> 0 then Ret (virtio_pci__signal_msi env (unat tbl) p)
      else Ret (p\<lparr>p_sent := p_sent p @ [GsiPulse gsi]\<rparr>))"

definition virtio_pci__signal_vq :: "pci_env \<Rightarrow> u32 \<Rightarrow> 'd virtio_pci \<Rightarrow> 'd virtio_pci outcome" where
  "virtio_pci__signal_vq env vq p =
     (if length (vq_vector p) \<le> unat vq then Undefined
      else let tbl = vq_vector p ! unat vq
        in if virtio_pci__msix_enabled p \<and> tbl \<noteq> VIRTIO_MSI_NO_VECTOR then send_vector env tbl (gsis p ! unat vq) p
           else Ret (p\<lparr>p_isr := VIRTIO_IRQ_HIGH, p_sent := p_sent p @ [LinePulse (legacy_irq_line p)]\<rparr>))"

definition virtio_pci__signal_config :: "pci_env \<Rightarrow> 'd virtio_pci \<Rightarrow> 'd virtio_pci outcome" where
  "virtio_pci__signal_config env p =
     (let tbl = ucast (config_vector p) :: u32
      in if virtio_pci__msix_enabled p \<and> tbl \<noteq> VIRTIO_MSI_NO_VECTOR then send_vector env tbl (config_gsi p) p
         else Ret (p\<lparr>p_isr := VIRTIO_PCI_ISR_CONFIG, p_sent := p_sent p @ [LinePulse (legacy_irq_line p)]\<rparr>))"

section \<open>Ports\<close>

text \<open>Reading: the bytes that are stored for the guest.\<close>

definition virtio_pci__specific_io_in :: "'d virtio_ops \<Rightarrow> nat \<Rightarrow> 'd virtio_pci \<Rightarrow> u8 list outcome" where
  "virtio_pci__specific_io_in ops offset p =
     (case virtio__get_dev_specific_field (int offset - 20) (virtio_pci__msix_enabled p) of
        O_MSIX \<Rightarrow>
          if offset = VIRTIO_MSI_CONFIG_VECTOR then Ret (to_le 2 (config_vector p))
          else if offset = VIRTIO_MSI_QUEUE_VECTOR then
            if length (vq_vector p) \<le> unat (queue_selector p) then Undefined
            else Ret (to_le 2 (ucast (vq_vector p ! unat (queue_selector p)) :: u16))
          else Ret []
      | O_CONFIG config_offset \<Rightarrow> bind_outcome (config_read ops (unat config_offset) (v_dev (p_vdev p))) (\<lambda>b. Ret [b]))"

definition virtio_pci__io_in :: "'d virtio_ops \<Rightarrow> nat \<Rightarrow> 'd virtio_pci \<Rightarrow> ('d virtio_pci \<times> u8 list) outcome" where
  "virtio_pci__io_in ops offset p =
     (let d = v_dev (p_vdev p) in
      if offset = VIRTIO_PCI_HOST_FEATURES then Ret (p, to_le 4 (op_host_features ops d))
      else if offset = VIRTIO_PCI_QUEUE_PFN then
        (case get_vq ops d (ucast (queue_selector p)) of None \<Rightarrow> Undefined | Some q \<Rightarrow> Ret (p, to_le 4 (vq_pfn q)))
      else if offset = VIRTIO_PCI_QUEUE_NUM then Ret (p, to_le 2 (ucast (get_size_vq ops d (ucast (queue_selector p))) :: u16))
      else if offset = VIRTIO_PCI_STATUS then Ret (p, [p_status p])
      else if offset = VIRTIO_PCI_ISR then
        Ret (p\<lparr>p_isr := VIRTIO_IRQ_LOW, p_sent := p_sent p @ [LineLow (legacy_irq_line p)]\<rparr>, [p_isr p])
      else bind_outcome (virtio_pci__specific_io_in ops offset p) (\<lambda>bs. Ret (p, bs)))"

text \<open>A new route for the message of a vector; without routing, messages can be sent without one.\<close>

definition add_vector_route :: "pci_env \<Rightarrow> u32 \<Rightarrow> 'd virtio_pci \<Rightarrow> ('d virtio_pci \<times> u32 option) outcome" where
  "add_vector_route env vec p =
     (if \<not> has_vector p (unat vec) then Undefined
      else bind_outcome (irq__add_msix_route (rt_oom env) (rt_supported env) (rt_needs_devid env) (rt_update env) (table_msg (msix_table p) (unat vec))
             (push_bit 3 (ucast (dev_num p))) (p_routes p)) (\<lambda>(routes, gsi).
        let p = p\<lparr>p_routes := routes\<rparr>
        in if gsi = - ENXIO \<and> p_features p AND VIRTIO_PCI_F_SIGNAL_MSI \<noteq> 0 then Ret (p, None)
           else if gsi < 0 then Dies
           else Ret (p, Some (word_of_int gsi))))"

definition virtio_pci__specific_io_out :: "'d virtio_ops \<Rightarrow> pci_env \<Rightarrow> nat \<Rightarrow> u8 list \<Rightarrow> 'd virtio_pci \<Rightarrow> 'd virtio_pci outcome" where
  "virtio_pci__specific_io_out ops env offset bytes p =
     (case virtio__get_dev_specific_field (int offset - 20) (virtio_pci__msix_enabled p) of
        O_MSIX \<Rightarrow>
          let vec = of_le (take 2 bytes) :: u16 in
          if offset = VIRTIO_MSI_CONFIG_VECTOR then
            let p = p\<lparr>config_vector := vec\<rparr>
            in if ucast vec = VIRTIO_MSI_NO_VECTOR then Ret p
               else bind_outcome (add_vector_route env (ucast vec) p) (\<lambda>(p, gsi). Ret (case gsi of None \<Rightarrow> p | Some g \<Rightarrow> p\<lparr>config_gsi := g\<rparr>))
          else if offset = VIRTIO_MSI_QUEUE_VECTOR then
            if length (vq_vector p) \<le> unat (queue_selector p) then Undefined
            else let p = p\<lparr>vq_vector := (vq_vector p)[unat (queue_selector p) := ucast vec]\<rparr>
              in if ucast vec = VIRTIO_MSI_NO_VECTOR then Ret p
                 else bind_outcome (add_vector_route env (ucast vec) p) (\<lambda>(p, gsi).
                   Ret (case gsi of
                          None \<Rightarrow> p
                        | Some g \<Rightarrow>
                            let p = p\<lparr>gsis := (gsis p)[unat (queue_selector p) := g]\<rparr>
                            in case notify_vq_gsi ops of
                                 None \<Rightarrow> p
                               | Some f \<Rightarrow> put_pdev (f (ucast (queue_selector p)) g (v_dev (p_vdev p))) p))
          else Ret p
      | O_CONFIG config_offset \<Rightarrow>
          bind_outcome (config_write ops (unat config_offset) (hd bytes) (v_dev (p_vdev p))) (\<lambda>d. Ret (put_pdev d p)))"

definition virtio_pci__io_out :: "'d virtio_ops \<Rightarrow> pci_env \<Rightarrow> nat \<Rightarrow> u8 list \<Rightarrow> 'd virtio_pci \<Rightarrow> 'd virtio_pci outcome" where
  "virtio_pci__io_out ops env offset bytes p =
     (let d = v_dev (p_vdev p); sel = ucast (queue_selector p) :: u32 in
      if offset = VIRTIO_PCI_GUEST_FEATURES then Ret (p\<lparr>p_vdev := virtio_set_guest_features ops (of_le (take 4 bytes)) (p_vdev p)\<rparr>)
      else if offset = VIRTIO_PCI_QUEUE_PFN then
        let val = of_le (take 4 bytes) :: u32
        in if val \<noteq> 0 then
             bind_outcome (virtio_pci__init_ioeventfd ops env sel p) (\<lambda>(p, _).
             bind_outcome (op_init_vq ops sel 4096 4096 val (v_dev (p_vdev p))) (\<lambda>d. Ret (put_pdev d p)))
           else virtio_pci_exit_vq ops sel p
      else if offset = VIRTIO_PCI_QUEUE_SEL then Ret (p\<lparr>queue_selector := of_le (take 2 bytes)\<rparr>)
      else if offset = VIRTIO_PCI_QUEUE_NOTIFY then Ret (put_pdev (op_notify_vq ops (ucast (of_le (take 2 bytes) :: u16)) d) p)
      else if offset = VIRTIO_PCI_STATUS then
        status_change ops (virtio_pci__reset ops) p_vdev (\<lambda>v p. p\<lparr>p_vdev := v\<rparr>) (hd bytes) (p\<lparr>p_status := hd bytes\<rparr>)
      else virtio_pci__specific_io_out ops env offset bytes p)"

section \<open>The MSI-X table\<close>

definition update_msix_map :: "pci_env \<Rightarrow> u32 \<Rightarrow> 'd virtio_pci \<Rightarrow> 'd virtio_pci outcome" where
  "update_msix_map env vecnum p =
     (let gsi = (if vecnum = ucast (config_vector p) then Some (config_gsi p)
                 else case find (\<lambda>i. vq_vector p ! i = vecnum) [0..<length (vq_vector p)] of None \<Rightarrow> None | Some i \<Rightarrow> Some (gsis p ! i))
      in case gsi of
           None \<Rightarrow> Ret p
         | Some gsi \<Rightarrow>
             if gsi = 0 then Ret p
             else bind_outcome (irq__update_msix_route (rt_update env) gsi (table_msg (msix_table p) (unat vecnum)) (p_routes p)) (\<lambda>r. Ret (p\<lparr>p_routes := r\<rparr>)))"

text \<open>The second half of the region is the array of pending bits; the comparison lets its first byte count as the table.\<close>

definition virtio_pci__msix_mmio_callback :: "pci_env \<Rightarrow> u64 \<Rightarrow> u8 list \<Rightarrow> nat \<Rightarrow> bool \<Rightarrow> 'd virtio_pci \<Rightarrow> ('d virtio_pci \<times> u8 list) outcome" where
  "virtio_pci__msix_mmio_callback env addr bytes len is_write p =
     (let half = ucast (msix_io_block p + ucast PCI_IO_SIZE); pba = half < addr;
          offset = unat (if pba then addr - half else addr - ucast (msix_io_block p)); mem = (if pba then to_le 8 (msix_pba p) else msix_table p)
      in if pba \<and> is_write then Ret (p, bytes)
         else if length mem < offset + len \<or> length bytes < len then Undefined
         else if \<not> is_write then Ret (p, take len (drop offset mem) @ drop len bytes)
         else let p = p\<lparr>msix_table := take offset mem @ take len bytes @ drop (offset + len) mem\<rparr>
           in if offset mod 16 < 12 then bind_outcome (update_msix_map env (of_nat (offset div 16)) p) (\<lambda>p. Ret (p, bytes)) else Ret (p, bytes))"

text \<open>The memory region of the registers goes to the ports.\<close>

definition virtio_pci__io_mmio_callback :: "'d virtio_pci \<Rightarrow> u64 \<Rightarrow> u16" where
  "virtio_pci__io_mmio_callback p addr = port_addr p + ucast (addr AND (IOPORT_SIZE - 1))"


section \<open>Set-up\<close>

text \<open>
  What a device has registered. \<open>r1\<close> to \<open>r4\<close> are the results of registering the ports, the two memory regions and the device; \<open>io\<close> and \<open>msix\<close> are the
  blocks of addresses it gets, \<open>can_msi\<close> whether messages can be sent directly, and \<open>line\<close> the interrupt line that the registration assigns.
\<close>

definition PCI_VENDOR_ID_REDHAT_QUMRANET :: u16 where "PCI_VENDOR_ID_REDHAT_QUMRANET = 0x1af4"
definition PCI_SUBSYSTEM_VENDOR_ID_REDHAT_QUMRANET :: u16 where "PCI_SUBSYSTEM_VENDOR_ID_REDHAT_QUMRANET = 0x1af4"
definition PCI_COMMAND_IO :: u16 where "PCI_COMMAND_IO = 1"
definition PCI_COMMAND_MEMORY :: u16 where "PCI_COMMAND_MEMORY = 2"
definition PCI_STATUS_CAP_LIST :: u16 where "PCI_STATUS_CAP_LIST = 16"
definition PCI_CAP_ID_MSIX :: u8 where "PCI_CAP_ID_MSIX = 0x11"

text \<open>The header of a device in the order of its fields, with the capability for MSI-X at the end; the rest of the 256 bytes is zero.\<close>

definition msix_cap_bytes :: "u16 \<Rightarrow> u8 list" where
  "msix_cap_bytes ctrl = [PCI_CAP_ID_MSIX, 0] @ to_le 2 ctrl @ to_le 4 (2 :: u32) @ to_le 4 (2 OR ucast PCI_IO_SIZE :: u32)"

definition virtio_pci_cfg :: "u16 \<Rightarrow> u32 \<Rightarrow> u32 \<Rightarrow> u16 \<Rightarrow> u16 \<Rightarrow> u32 \<Rightarrow> u8 list" where
  "virtio_pci_cfg port io msix device_id subsys_id cls =
     to_le 2 PCI_VENDOR_ID_REDHAT_QUMRANET @ to_le 2 device_id @ to_le 2 (PCI_COMMAND_IO OR PCI_COMMAND_MEMORY) @ to_le 2 PCI_STATUS_CAP_LIST @
     [0, ucast cls, ucast (drop_bit 8 cls), ucast (drop_bit 16 cls)] @ [0, 0, 0, 0] @
     to_le 4 (ucast port OR 1 :: u32) @ to_le 4 io @ to_le 4 msix @ replicate 12 0 @ [0, 0, 0, 0] @
     to_le 2 PCI_SUBSYSTEM_VENDOR_ID_REDHAT_QUMRANET @ to_le 2 subsys_id @ [0, 0, 0, 0] @ [64, 0, 0, 0] @ [0, 0, 0, 0] @ [0, 0, 0, 0] @
     msix_cap_bytes (of_nat (VIRTIO_PCI_MAX_VQ + VIRTIO_PCI_MAX_CONFIG - 1)) @ replicate 180 0"

definition virtio_pci_hdr :: "u16 \<Rightarrow> u32 \<Rightarrow> u32 \<Rightarrow> u16 \<Rightarrow> u16 \<Rightarrow> u32 \<Rightarrow> pci_device_header" where
  "virtio_pci_hdr port io msix device_id subsys_id cls =
     \<lparr>pci_cfg = virtio_pci_cfg port io msix device_id subsys_id cls,
      pci_bar_size = [ucast IOPORT_SIZE, ucast IOPORT_SIZE, ucast PCI_IO_SIZE * 2, 0, 0, 0], pci_irq_type = 0\<rparr>"

datatype pci_res = Ports u16 | Region u32 | Header pci_device_header

definition virtio_pci__init :: "int \<Rightarrow> u32 \<Rightarrow> int \<Rightarrow> u32 \<Rightarrow> int \<Rightarrow> bool \<Rightarrow> int \<Rightarrow> u8 \<Rightarrow> u16 \<Rightarrow> u16 \<Rightarrow> u32 \<Rightarrow> 'd virtio_pci \<Rightarrow> 'd virtio_pci \<times> pci_res list \<times> int" where
  "virtio_pci__init r1 io r2 msix r3 can_msi r4 line device_id subsys_id cls p =
     (if r1 < 0 then (p, [], r1)
      else let port = word_of_int r1; p = p\<lparr>port_addr := port, mmio_addr := io\<rparr>
        in if r2 < 0 then (p, [], r2)
           else let p = p\<lparr>msix_io_block := msix\<rparr>
             in if r3 < 0 then (p, [], r3)
                else let p = p\<lparr>msix_ctrl := of_nat (VIRTIO_PCI_MAX_VQ + VIRTIO_PCI_MAX_CONFIG - 1), config_vector := 0,
                       p_features := (if can_msi then p_features p OR VIRTIO_PCI_F_SIGNAL_MSI else p_features p)\<rparr>
                  in if r4 < 0 then (p, [], r4)
                     else (p\<lparr>legacy_irq_line := line\<rparr>, [Ports port, Region io, Region msix, Header (virtio_pci_hdr port io msix device_id subsys_id cls)], 0))"

text \<open>The device itself is not taken out of the list of devices.\<close>

definition virtio_pci__exit :: "'d virtio_ops \<Rightarrow> pci_res list \<Rightarrow> 'd virtio_pci \<Rightarrow> ('d virtio_pci \<times> pci_res list) outcome" where
  "virtio_pci__exit ops res p =
     bind_outcome (virtio_pci__reset ops p) (\<lambda>p. Ret (p, filter (\<lambda>r. r \<notin> {Region (mmio_addr p), Region (msix_io_block p), Ports (port_addr p)}) res))"

section \<open>Messages\<close>

lemma virtio_pci_hdr_ok: "hdr_ok (virtio_pci_hdr port io msix device_id subsys_id cls)"
  by (simp add: hdr_ok_def virtio_pci_hdr_def virtio_pci_cfg_def msix_cap_bytes_def PCI_DEV_CFG_SIZE_def)

lemma word_at_same:
  assumes "length bs = 4" "o1 + 4 \<le> length mem"
  shows "word_at (take o1 mem @ bs @ drop (o1 + 4) mem) o1 = of_le bs"
proof -
  have "take 4 (drop o1 (take o1 mem @ bs @ drop (o1 + 4) mem)) = bs"
    using assms by simp
  then show ?thesis
    by (simp only: word_at_def)
qed

lemma word_at_other:
  assumes "length bs = 4" "o1 + 4 \<le> length mem" "k + 4 \<le> o1 \<or> o1 + 4 \<le> k"
  shows "word_at (take o1 mem @ bs @ drop (o1 + 4) mem) k = word_at mem k"
  using assms(3)
proof
  assume k: "k + 4 \<le> o1"
  have "drop k (take o1 mem @ bs @ drop (o1 + 4) mem) = drop k (take o1 mem) @ bs @ drop (o1 + 4) mem"
    using k assms(2) by simp
  moreover have "length (drop k (take o1 mem)) \<ge> 4"
    using k assms(2) by simp
  ultimately have "take 4 (drop k (take o1 mem @ bs @ drop (o1 + 4) mem)) = take 4 (drop k (take o1 mem))"
    by simp
  also have "\<dots> = take 4 (drop k mem)"
    using k by (simp add: drop_take min_def)
  finally show ?thesis
    by (simp only: word_at_def)
next
  assume k: "o1 + 4 \<le> k"
  have "drop k (take o1 mem @ bs @ drop (o1 + 4) mem) = drop k mem"
    using k assms by (simp add: drop_append min_def add.commute)
  then show ?thesis
    by (simp only: word_at_def)
qed

text \<open>A write of four bytes to the table, by a device that has no routes.\<close>

definition no_routes :: "'d virtio_pci \<Rightarrow> bool" where
  "no_routes p \<longleftrightarrow> config_gsi p = 0 \<and> (\<forall>g \<in> set (gsis p). g = 0) \<and> length (gsis p) = length (vq_vector p)"

lemma update_msix_map_no_routes: "no_routes p \<Longrightarrow> update_msix_map env v p = Ret p"
  by (auto simp: no_routes_def update_msix_map_def Let_def find_Some_iff split: option.splits)

definition put_word :: "nat \<Rightarrow> u32 \<Rightarrow> u8 list \<Rightarrow> u8 list" where
  "put_word k w mem = take k mem @ to_le 4 w @ drop (k + 4) mem"

lemma length_put_word [simp]: "k + 4 \<le> length mem \<Longrightarrow> length (put_word k w mem) = length mem"
  by (simp add: put_word_def)

lemma word_at_put_word [simp]:
  "k + 4 \<le> length mem \<Longrightarrow> word_at (put_word k w mem) k = w"
  "k + 4 \<le> length mem \<Longrightarrow> j + 4 \<le> k \<or> k + 4 \<le> j \<Longrightarrow> word_at (put_word k w mem) j = word_at mem j"
  unfolding put_word_def by (simp_all only: word_at_same word_at_other length_to_le of_le_to_le[of 4 w, simplified])

lemma msix_write_word:
  assumes "length (msix_table p) = 528" "k < 256" "msix_io_block p \<le> 0xFFFFFE00" "no_routes p"
  shows "virtio_pci__msix_mmio_callback env (ucast (msix_io_block p) + of_nat k) (to_le 4 w) 4 True p =
    Ret (p\<lparr>msix_table := put_word k w (msix_table p)\<rparr>, to_le 4 w)"
proof -
  define b where "b = (ucast (msix_io_block p) :: u64)"
  define h where "h = (ucast (msix_io_block p + ucast PCI_IO_SIZE) :: u64)"
  have m: "unat (msix_io_block p) \<le> 0xFFFFFE00"
    using assms(3) by (simp add: word_le_nat_alt)
  have k: "unat (of_nat k :: u64) = k"
    using assms(2) by (simp add: unsigned_of_nat take_bit_nat_eq_self)
  have b: "unat b = unat (msix_io_block p)"
    using m by (simp add: b_def unsigned_ucast_eq take_bit_nat_eq_self)
  have "unat (msix_io_block p + ucast PCI_IO_SIZE) = unat (msix_io_block p) + 256"
    using m by (simp add: PCI_IO_SIZE_def unat_word_ariths)
  then have h: "unat h = unat b + 256"
    using m b by (simp add: h_def unsigned_ucast_eq take_bit_nat_eq_self)
  have "unat (b + of_nat k) = unat b + k"
    using m b k assms(2) by (simp add: unat_word_ariths)
  then have "\<not> h < b + of_nat k" "b + of_nat k - b = of_nat k"
    using h assms(2) by (simp_all add: word_less_nat_alt)
  moreover have "no_routes (p\<lparr>msix_table := t\<rparr>)" for t
    using assms(4) by (simp add: no_routes_def)
  ultimately show ?thesis
    using k assms(1,2) unfolding virtio_pci__msix_mmio_callback_def b_def [symmetric] h_def [symmetric]
    by (simp add: Let_def put_word_def update_msix_map_no_routes)
qed

text \<open>A guest that writes words into the table, one access for each.\<close>

fun msix_writes :: "pci_env \<Rightarrow> (nat \<times> u32) list \<Rightarrow> 'd virtio_pci \<Rightarrow> 'd virtio_pci outcome" where
  "msix_writes env [] p = Ret p"
| "msix_writes env ((k, w) # ws) p =
     bind_outcome (virtio_pci__msix_mmio_callback env (ucast (msix_io_block p) + of_nat k) (to_le 4 w) 4 True p) (\<lambda>(p, _). msix_writes env ws p)"

lemma msix_writes_ok:
  assumes "length (msix_table p) = 528" "\<forall>(k, w) \<in> set ws. k < 256" "msix_io_block p \<le> 0xFFFFFE00" "no_routes p"
  shows "msix_writes env ws p = Ret (p\<lparr>msix_table := fold (\<lambda>(k, w). put_word k w) ws (msix_table p)\<rparr>)"
  using assms
proof (induction ws arbitrary: p)
  case (Cons kw ws)
  obtain k w where kw: "kw = (k, w)" by force
  have "no_routes (p\<lparr>msix_table := t\<rparr>)" for t
    using Cons.prems(4) by (simp add: no_routes_def)
  then show ?case
    using Cons.prems Cons.IH [of "p\<lparr>msix_table := put_word k w (msix_table p)\<rparr>"] msix_write_word [of p k env w] by (simp add: kw)
qed simp

definition entry_words :: "nat \<Rightarrow> msi_msg \<Rightarrow> u32 \<Rightarrow> (nat \<times> u32) list" where
  "entry_words vec m ctrl = [(16 * vec, msg_address_lo m), (16 * vec + 4, msg_address_hi m), (16 * vec + 8, msg_data m), (16 * vec + 12, ctrl)]"

lemma entry_words_table:
  assumes "16 * vec + 16 \<le> length tab" "t = fold (\<lambda>(k, w). put_word k w) (entry_words vec m ctrl) tab"
  shows "table_msg t vec = m" "table_ctrl t vec = ctrl" "length t = length tab"
  using assms by (simp_all add: entry_words_def table_msg_def table_ctrl_def)


definition sample_vpci :: "con_dev virtio_pci" where
  "sample_vpci = \<lparr>port_addr = 0x6200, mmio_addr = 0xd2000000, p_status = 0, p_isr = 0, p_features = 1, legacy_irq_line = 5, config_vector = 0,
     config_gsi = 0, vq_vector = (replicate 32 0xffff)[1 := 3], gsis = replicate 32 0, msix_io_block = 0xd2000400, msix_pba = 0, msix_table = replicate 528 0,
     msix_ctrl = 0x8020, queue_selector = 0, dev_num = 2, p_vdev = m_vdev started_console,
     p_ioe = \<lparr>used_ioevents = [], ioeventfd_avail = True, kvm_requests = [], epoll_set = []\<rparr>, p_routes = irq_state_init, p_sent = []\<rparr>"

definition sample_env :: "bool \<Rightarrow> pci_env" where
  "sample_env devid = (let e = \<lparr>ev_oom = False, ev_ioctl = 0, ev_ctl = 0, ev_new_fd = 9\<rparr> in
     \<lparr>rt_oom = \<lambda>_. False, rt_supported = False, rt_needs_devid = devid, rt_update = \<lambda>_. 0, pio_env = e, mmio_env = e\<rparr>)"


section \<open>Findings\<close>

text \<open>The cause register is stored and not added to: the cause of a change of configuration is lost when a queue is signalled before the guest reads it.\<close>

lemma pci_isr_loses_config:
  assumes "\<not> virtio_pci__msix_enabled p" "unat vq < length (vq_vector p)"
  shows "\<exists>p'. bind_outcome (virtio_pci__signal_config env p) (virtio_pci__signal_vq env vq) = Ret p' \<and> p_isr p' = 1"
  using assms by (simp add: virtio_pci__signal_config_def virtio_pci__signal_vq_def virtio_pci__msix_enabled_def VIRTIO_IRQ_HIGH_def Let_def)

text \<open>Without MSI-X, a port below the configuration that has no register of its own is read as configuration at an offset of nearly four gigabytes.\<close>

lemma pci_port_below_config:
  assumes "\<not> virtio_pci__msix_enabled p" "length (get_config ops (v_dev (p_vdev p))) \<le> 4096"
  shows "virtio_pci__io_in ops 1 p = Undefined"
  using assms by (simp add: virtio_pci__io_in_def virtio_pci__specific_io_in_def virtio__get_dev_specific_field_def config_read_def pci_regs Let_def)

text \<open>The table has 33 entries, and its half of the region holds 16: a write to a later entry is dropped.\<close>

lemma pci_late_entry_dropped:
  assumes "16 < vec" "vec < 32" "msix_io_block p \<le> 0xFFFFFE00"
  shows "virtio_pci__msix_mmio_callback env (ucast (msix_io_block p) + of_nat (16 * vec)) bytes n True p = Ret (p, bytes)"
proof -
  define k where "k = 16 * vec"
  define b where "b = (ucast (msix_io_block p) :: u64)"
  have m: "unat (msix_io_block p) \<le> 0xFFFFFE00"
    using assms(3) by (simp add: word_le_nat_alt)
  have k: "k < 512" "256 < k"
    using assms by (simp_all add: k_def)
  then have uk: "unat (of_nat k :: u64) = k"
    by (simp add: unsigned_of_nat take_bit_nat_eq_self)
  have b: "unat b = unat (msix_io_block p)"
    using m by (simp add: b_def unsigned_ucast_eq take_bit_nat_eq_self)
  have "unat (b + of_nat k) = unat b + k"
    using m b k uk by (simp add: unat_word_ariths)
  moreover have "unat (ucast (msix_io_block p + ucast PCI_IO_SIZE) :: u64) = unat b + 256"
    using m b by (simp add: PCI_IO_SIZE_def unat_word_ariths unsigned_ucast_eq take_bit_nat_eq_self)
  ultimately have "ucast (msix_io_block p + ucast PCI_IO_SIZE) < b + of_nat k"
    using k by (simp add: word_less_nat_alt)
  then show ?thesis
    by (simp add: virtio_pci__msix_mmio_callback_def Let_def b_def k_def)
qed

end
