(* ===== verification/Spec2Isabelle.thy ===== *)
theory Spec2Isabelle
  imports Serial Rtc I8042 Pci QcowDisk QcowAlloc QcowFlush QcowOpen VirtioBlk P9Pdu UipCore Threadpool Ioeventfd P9Server VirtioRng VirtioBalloon VirtioPci
begin

text \<open>
  Verification of kvmtool, a hypervisor in user space. The program sets up a virtual machine with the KVM interface of the
  kernel, gives it memory, and emulates the devices the guest talks to. This development models the parts of the program
  that decide something: the tables that find the device of a guest access, the devices behind ports, the disk images, the
  virtqueues with the virtio devices and transports above them, the 9P file server, the thread pool, and the user-mode network.

  \<^bold>\<open>Parts and how they interact.\<close> A guest access leaves the kernel as an exit with an address and data. A port
  access goes through the table of \<^verbatim>\<open>ioport.c\<close>, a memory access through that of \<^verbatim>\<open>mmio.c\<close>; both are interval
  trees (\<^verbatim>\<open>util/rbtree-interval.c\<close>) over the red-black tree of \<^verbatim>\<open>util/rbtree.c\<close>. The handler found there is a device:
  the serial port, the clock, the keyboard controller, the PCI configuration mechanism. Devices are numbered by
  \<^verbatim>\<open>devices.c\<close> and get their interrupt from \<^verbatim>\<open>irq.c\<close>. A virtio device takes requests from a ring in guest memory
  (\<^verbatim>\<open>virtio/core.c\<close>), whose addresses are translated by the memory banks of \<^verbatim>\<open>kvm.c\<close>. The guest finds and notifies it through a transport
  (\<^verbatim>\<open>virtio/mmio.c\<close> or \<^verbatim>\<open>virtio/pci.c\<close>), with events of \<^verbatim>\<open>ioeventfd.c\<close>, and its requests run as jobs of \<^verbatim>\<open>util/threadpool.c\<close>. The block device passes a
  request to a disk image (\<^verbatim>\<open>disk/core.c\<close>), which is a raw file or a QCOW image (\<^verbatim>\<open>disk/qcow.c\<close>); both use the loops of
  \<^verbatim>\<open>util/read-write.c\<close> and \<^verbatim>\<open>util/iovec.c\<close>. The user-mode network (\<^verbatim>\<open>net/uip\<close>) takes the frames of the guest, answers ARP,
  ICMP and DHCP itself and carries UDP and TCP over sockets of the host.

  \<^bold>\<open>Conventions.\<close> A structure is a record, a pointer the address of an entry in a store or its position in a
  list, an integer a word of its width where it can wrap. Results have the type \<open>outcome\<close> (\<open>Undefined\<close> is behaviour that C leaves
  undefined: a null pointer, an access outside an object, a shift that is too large) or, in the network, \<open>run\<close>
  (\<open>Faults\<close>, and \<open>Waits\<close> for a wait that does not end). That the code does not do so under the stated invariants is part of the theorems. What the host
  decides (whether \<^verbatim>\<open>malloc\<close> or an \<^verbatim>\<open>ioctl\<close> fails, how much a \<^verbatim>\<open>read\<close> returns) is an argument.

  \<^bold>\<open>Tables.\<close> \<^verbatim>\<open>RBTree\<close> models a pointer into the tree as a zipper; insertion and removal rebalance without ever following a
  null pointer, keep the colour and order invariants and act as list insertion and removal, and a descent has logarithmic length.
  \<^verbatim>\<open>RBInterval\<close> shows that search, insertion and removal are those of a partial map from addresses. On these rest
  \<^verbatim>\<open>Devices\<close>, \<^verbatim>\<open>Ioport\<close> and \<^verbatim>\<open>Mmio\<close>: an access reaches the device whose range contains it and no other; the removal of all ports ends. The
  locale \<open>io_device\<close> is the contract of a device with the dispatcher.

  \<^bold>\<open>Devices.\<close> \<^verbatim>\<open>Serial\<close> (with \<^verbatim>\<open>Term\<close>), \<^verbatim>\<open>Rtc\<close>, \<^verbatim>\<open>I8042\<close> and \<^verbatim>\<open>Pci\<close> have every register access as a
  function of the device state. Shown are the bounds of the buffers, that the interrupt line follows the state, that bytes come out of the queues in
  order, and that configuration writes are read back. \<^verbatim>\<open>Irq\<close> models lines and the routing table.

  \<^bold>\<open>Disk images.\<close> \<^verbatim>\<open>QcowCache\<close>, \<^verbatim>\<open>Qcow\<close>, \<^verbatim>\<open>QcowWrite\<close>, \<^verbatim>\<open>QcowDisk\<close>, \<^verbatim>\<open>QcowAlloc\<close>,
  \<^verbatim>\<open>QcowFlush\<close> and \<^verbatim>\<open>QcowOpen\<close> follow \<^verbatim>\<open>disk/qcow.c\<close>: the virtual disk is an abstract array of bytes, reading refines it,
  writing to clusters the image owns changes exactly the bytes of the request, allocation takes the first free run, flushing leaves nothing dirty,
  opening establishes the invariant. \<^verbatim>\<open>Disk\<close> has the dispatch and raw images, and the locale of what a disk promises.
  \<^verbatim>\<open>ReadWrite\<close> shows that the transfer loops complete under every schedule of interruptions and short transfers.

  \<^bold>\<open>Virtio.\<close> \<^verbatim>\<open>Memory\<close>, \<^verbatim>\<open>Iovec\<close>, \<^verbatim>\<open>Virtqueue\<close> and \<^verbatim>\<open>VirtioBlk\<close>: rings behave as queues, descriptor chains become vectors
  of buffers, and a read or write request of the guest has the effect on the disk that the request asks for. \<^verbatim>\<open>VirtioServe\<close> has the loop that devices serve a
  queue with and, as the locale \<open>buffer_service\<close>, what the work on one buffer has to promise so that every available buffer is returned once and in order;
  \<^verbatim>\<open>VirtioRng\<close>, \<^verbatim>\<open>VirtioConsole\<close> and \<^verbatim>\<open>VirtioBalloon\<close> are instances of it. \<^verbatim>\<open>VirtioTrans\<close> has the operations of a device that a transport calls and the
  locale \<open>virtio_dev\<close> of what it relies on; \<^verbatim>\<open>VirtioMmio\<close> and \<^verbatim>\<open>VirtioPci\<close> are the transports: interrupt causes are those signalled and not yet acknowledged, a
  reset stops the device and removes exactly its events, the message a guest writes into an MSI-X entry is the one that is sent.

  \<^bold>\<open>File server.\<close> \<^verbatim>\<open>P9Pdu\<close> shows that what is encoded under a format string is decoded again. \<^verbatim>\<open>P9Fid\<close> has the table of file identifiers, which is a map for
  numbers below 2^31, and the paths; \<^verbatim>\<open>P9Handlers\<close> every request of \<^verbatim>\<open>virtio/9p.c\<close> against a host that answers system calls as it likes; \<^verbatim>\<open>P9Safety\<close> the
  invariant that paths stay below the root directory; \<^verbatim>\<open>P9Server\<close> the table of handlers and serving the queue, with the theorems.

  \<^bold>\<open>Threads and events.\<close> \<^verbatim>\<open>Threadpool\<close> is a step relation over the workers and callers of the pool: a job is run by one thread at a time, no wake-up is
  lost, every notification is served. \<^verbatim>\<open>Ioeventfd\<close> has the list of notification events.

  \<^bold>\<open>Network.\<close> \<^verbatim>\<open>Bytes\<close> and \<^verbatim>\<open>UipCsum\<close> have byte order and the Internet checksum, \<^verbatim>\<open>UipBuf\<close> the pool of buffers as a step
  relation over the threads, \<^verbatim>\<open>UipIp\<close>, \<^verbatim>\<open>UipUdp\<close>, \<^verbatim>\<open>UipDhcp\<close> and \<^verbatim>\<open>UipTcp\<close> the protocols, \<^verbatim>\<open>UipCore\<close> the entry points. Replies are compared
  with what a receiver checks that is written from the RFCs; data read from a socket reaches the guest in order and without gap.

  \<^bold>\<open>Fuel and termination.\<close> Loops that end are functions with their measure. The search for free clusters need not end and is a
  partial function with values in \<open>option\<close>; the update of a refcount calls itself through the growth of the refcount table, and its fuel is one more than
  the number of table entries, each of which can be filled once. Format strings of 9P messages nest at most once (a directory entry
  contains an identifier), so that depth two is enough. A walk of the 9P server has a counter of 8 bits for a number of 16 and ends all the same, because the
  message has no more names; serving a queue is a partial function in \<open>option\<close>, and the theorems say that it returns. The carries of a checksum are folded by recursion on the value.

  \<^bold>\<open>Not modelled.\<close> Threads and locks are modelled only where a theorem is about them (the thread pool, the buffer pool, the TCP threads, the locks of the tables);
  elsewhere one request runs at a time. Left out are debugging output, device-tree generation, asynchronous disk I/O, the network and SCSI devices, the display, device pass-through
  by VFIO, the set-up of vCPUs and the boot images, the control socket and the command line, which are sequences of system
  calls; and the ports to other architectures.
\<close>

end
